(* ===== verification/RMR_Prelude.thy ===== *)
theory RMR_Prelude
  imports Main "HOL-Library.Word" "HOL-Library.Monad_Syntax"
begin

unbundle bit_operations_syntax

text \<open>
  Shared vocabulary of the development: machine types, byte memory, the constants of
  \<^verbatim>\<open>src/src/rmr/common/include/rmr.h\<close> and \<^verbatim>\<open>rmr_agnostic.h\<close>, and the generic lemmas that
  the component theories use.

  Conventions.  A C pointer that may be NULL is an \<open>option\<close> value.  A function whose C text
  can run into undefined behaviour (a NULL dereference, an access outside of an allocated
  block, a use after free) or that calls \<^verbatim>\<open>abort()\<close> returns an \<open>option\<close> result in the
  monad of \<open>HOL-Library.Monad_Syntax\<close>: \<open>None\<close> is the fault and \<open>Some r\<close> a normal return.
  C \<^verbatim>\<open>int\<close> values are \<open>int\<close>, and are converted with \<open>word_of_int\<close>/\<open>sint\<close> where they are stored
  in 32 bits or compared with unsigned values; \<^verbatim>\<open>uint16_t\<close>, \<^verbatim>\<open>uint32_t\<close> and \<^verbatim>\<open>uint64_t\<close> are words.
  Memory is little endian: the sources include \<^verbatim>\<open>immintrin.h\<close> and are built for x86.
\<close>

type_synonym byte = "8 word"
type_synonym u16 = "16 word"
type_synonym u32 = "32 word"
type_synonym u64 = "64 word"
type_synonym bytes = "byte list"

named_theorems mem_simps "reads and writes of byte blocks"
named_theorems endian_simps "conversions between words and their bytes"

section \<open>Constants\<close>

abbreviation (input) RMR_OK :: int where "RMR_OK \<equiv> 0"
abbreviation (input) RMR_ERR_BADARG :: int where "RMR_ERR_BADARG \<equiv> 1"
abbreviation (input) RMR_ERR_NOENDPT :: int where "RMR_ERR_NOENDPT \<equiv> 2"
abbreviation (input) RMR_ERR_EMPTY :: int where "RMR_ERR_EMPTY \<equiv> 3"
abbreviation (input) RMR_ERR_NOHDR :: int where "RMR_ERR_NOHDR \<equiv> 4"
abbreviation (input) RMR_ERR_SENDFAILED :: int where "RMR_ERR_SENDFAILED \<equiv> 5"
abbreviation (input) RMR_ERR_CALLFAILED :: int where "RMR_ERR_CALLFAILED \<equiv> 6"
abbreviation (input) RMR_ERR_NOWHOPEN :: int where "RMR_ERR_NOWHOPEN \<equiv> 7"
abbreviation (input) RMR_ERR_WHID :: int where "RMR_ERR_WHID \<equiv> 8"
abbreviation (input) RMR_ERR_OVERFLOW :: int where "RMR_ERR_OVERFLOW \<equiv> 9"
abbreviation (input) RMR_ERR_RETRY :: int where "RMR_ERR_RETRY \<equiv> 10"
abbreviation (input) RMR_ERR_RCVFAILED :: int where "RMR_ERR_RCVFAILED \<equiv> 11"
abbreviation (input) RMR_ERR_TIMEOUT :: int where "RMR_ERR_TIMEOUT \<equiv> 12"
abbreviation (input) RMR_ERR_UNSET :: int where "RMR_ERR_UNSET \<equiv> 13"
abbreviation (input) RMR_ERR_TRUNC :: int where "RMR_ERR_TRUNC \<equiv> 14"
abbreviation (input) RMR_ERR_INITFAILED :: int where "RMR_ERR_INITFAILED \<equiv> 15"
abbreviation (input) RMR_ERR_NOTSUPP :: int where "RMR_ERR_NOTSUPP \<equiv> 16"

abbreviation (input) RMR_MAX_XID :: nat where "RMR_MAX_XID \<equiv> 32"
abbreviation (input) RMR_MAX_SID :: nat where "RMR_MAX_SID \<equiv> 32"
abbreviation (input) RMR_MAX_MEID :: nat where "RMR_MAX_MEID \<equiv> 32"
abbreviation (input) RMR_MAX_SRC :: nat where "RMR_MAX_SRC \<equiv> 64"

abbreviation (input) UNSET_SUBID :: int where "UNSET_SUBID \<equiv> -1"
abbreviation (input) UNSET_MSGTYPE :: int where "UNSET_MSGTYPE \<equiv> -1"
abbreviation (input) RMR_MSG_VER :: int where "RMR_MSG_VER \<equiv> 3"

text \<open>The errno values the code sets.\<close>

datatype errno = E0 | EINVAL | ENOMEM | EOVERFLOW | EMSGSIZE | EXFULL | EAGAIN | ENOTSUP
  | EBADMSG | ENXIO | EACCES | ECONNREFUSED | ETIMEDOUT | EFBIG
  | EBADFD | EBUSY | EINTR | ECONNABORTED | E2BIG | ENOBUFS | EOther nat

text \<open>
  The allocation sites of the code.  \<open>mallocs\<close> says which allocations succeed, so that the
  branches that follow a failed \<^verbatim>\<open>malloc\<close> are branches of the model.
\<close>

datatype msite = M_ring | M_ring_data | M_ring_wgate | M_ring_rgate
  | M_symtab | M_symlist | M_symele
  | M_mbuf | M_tpbuf | M_user
  | M_rte | M_rrgroups | M_rrg | M_epts | M_ep | M_rt | M_things
  | M_whm | M_wheps | M_chutes | M_river | M_accum | M_iplist | M_tokens | M_strdup
  | M_tpblk | M_ginfo | M_tpmap | M_cbtab | M_ctx

type_synonym mallocs = "msite \<Rightarrow> bool"

section \<open>Byte memory\<close>

text \<open>
  A block obtained from \<^verbatim>\<open>malloc\<close> holds unspecified bytes: the parameter \<open>junk\<close> gives the
  byte at each offset, and the theorems hold for every \<open>junk\<close>.
\<close>

definition malloc_bytes :: "(nat \<Rightarrow> byte) \<Rightarrow> nat \<Rightarrow> bytes" where
  "malloc_bytes junk n = map junk [0..<n]"

definition mem_rd :: "bytes \<Rightarrow> nat \<Rightarrow> nat \<Rightarrow> bytes option" where
  "mem_rd m off n = (if off + n \<le> length m then Some (take n (drop off m)) else None)"

definition mem_wr :: "bytes \<Rightarrow> nat \<Rightarrow> bytes \<Rightarrow> bytes option" where
  "mem_wr m off bs =
     (if off + length bs \<le> length m
      then Some (take off m @ bs @ drop (off + length bs) m) else None)"

lemma length_malloc_bytes [simp]: "length (malloc_bytes junk n) = n"
  by (simp add: malloc_bytes_def)

lemma mem_wr_Some_iff [mem_simps]:
  "mem_wr m off bs = Some m' \<longleftrightarrow>
     off + length bs \<le> length m \<and> m' = take off m @ bs @ drop (off + length bs) m"
  by (auto simp: mem_wr_def)

lemma mem_rd_Some_iff [mem_simps]:
  "mem_rd m off n = Some bs \<longleftrightarrow> off + n \<le> length m \<and> bs = take n (drop off m)"
  by (auto simp: mem_rd_def)

lemma mem_wr_length: "mem_wr m off bs = Some m' \<Longrightarrow> length m' = length m"
  by (auto simp: mem_simps)

lemma mem_rd_length: "mem_rd m off n = Some bs \<Longrightarrow> length bs = n"
  by (auto simp: mem_simps)

lemma mem_rd_wr_same:
  assumes "mem_wr m off bs = Some m'" and "n = length bs"
  shows "mem_rd m' off n = Some bs"
  using assms by (auto simp: mem_simps)

lemma mem_rd_wr_before:
  assumes "mem_wr m off bs = Some m'" and "o' + n \<le> off"
  shows "mem_rd m' o' n = mem_rd m o' n"
proof -
  from assms have "take n (drop o' m') = take n (drop o' m)"
    by (auto simp: mem_simps drop_take)
  with assms mem_wr_length [OF assms(1)] show ?thesis by (simp add: mem_rd_def)
qed

lemma mem_wr_drop:
  assumes "mem_wr m off bs = Some m'" and "off + length bs \<le> k"
  shows "drop k m' = drop k m"
proof -
  from assms(1) have "off + length bs \<le> length m"
    and "m' = take off m @ bs @ drop (off + length bs) m"
    by (auto simp: mem_simps)
  with assms(2) show ?thesis by (auto simp: add.commute)
qed

lemma mem_wr_take: "mem_wr m off bs = Some m' \<Longrightarrow> k \<le> off \<Longrightarrow> take k m' = take k m"
  by (auto simp: mem_simps min_def)

lemma mem_rd_wr_after:
  assumes "mem_wr m off bs = Some m'" and "off + length bs \<le> o'"
  shows "mem_rd m' o' n = mem_rd m o' n"
  using mem_wr_drop [OF assms] mem_wr_length [OF assms(1)] by (simp add: mem_rd_def)

lemma mem_rd_wr_disjoint:
  assumes "mem_wr m off bs = Some m'" and "o' + n \<le> off \<or> off + length bs \<le> o'"
  shows "mem_rd m' o' n = mem_rd m o' n"
  using assms mem_rd_wr_before mem_rd_wr_after by blast

lemma mem_wr_ok: "off + length bs \<le> length m \<Longrightarrow> \<exists>m'. mem_wr m off bs = Some m'"
  by (simp add: mem_wr_def)

section \<open>Byte order\<close>

text \<open>The bytes of a 32-bit word, least significant first (host order) and most significant
  first (network order, what \<^verbatim>\<open>htonl\<close> stores).\<close>

definition put_le32 :: "u32 \<Rightarrow> bytes" where
  "put_le32 w = map (\<lambda>i. ucast (drop_bit (8 * i) w)) [0, 1, 2, 3]"

definition put_be32 :: "u32 \<Rightarrow> bytes" where
  "put_be32 w = rev (put_le32 w)"

definition get_le32 :: "bytes \<Rightarrow> u32" where
  "get_le32 bs = foldr (\<lambda>b acc. push_bit 8 acc OR ucast b) bs 0"

definition get_be32 :: "bytes \<Rightarrow> u32" where
  "get_be32 bs = get_le32 (rev bs)"

lemma length_put_le32 [simp]: "length (put_le32 w) = 4"
  by (simp add: put_le32_def)

lemma length_put_be32 [simp]: "length (put_be32 w) = 4"
  by (simp add: put_be32_def)

lemma get_put_le32 [endian_simps, simp]: "get_le32 (put_le32 w) = w"
proof (rule bit_word_eqI)
  fix n assume "n < LENGTH(32)"
  then have "n < 32" by simp
  then consider "n < 8" | "8 \<le> n" "n < 16" | "16 \<le> n" "n < 24" | "24 \<le> n" "n < 32"
    by linarith
  then show "bit (get_le32 (put_le32 w)) n = bit w n"
    by cases (auto simp: get_le32_def put_le32_def bit_simps)
qed

lemma get_put_be32 [endian_simps, simp]: "get_be32 (put_be32 w) = w"
  by (simp add: get_be32_def put_be32_def)

text \<open>A C string held in a byte block: the bytes before the first nil.\<close>

definition cstr :: "bytes \<Rightarrow> bytes" where
  "cstr bs = takeWhile (\<lambda>b. b \<noteq> 0) bs"

definition str_bytes :: "string \<Rightarrow> bytes" where
  "str_bytes s = map of_char s"

definition bytes_str :: "bytes \<Rightarrow> string" where
  "bytes_str bs = map (\<lambda>b. char_of (unat b)) bs"

lemma length_str_bytes [simp]: "length (str_bytes s) = length s"
  by (simp add: str_bytes_def)

lemma unat_of_char [simp]: "unat (of_char c :: byte) = of_char c"
proof -
  have "unat (of_nat (of_char c) :: byte) = (of_char c :: nat)"
    by (simp add: unat_of_nat)
  then show ?thesis by (simp add: of_nat_of_char)
qed

lemma bytes_str_str_bytes [simp]: "bytes_str (str_bytes s) = s"
  by (simp add: bytes_str_def str_bytes_def comp_def map_idI)

lemma cstr_append_nil: "0 \<notin> set bs \<Longrightarrow> cstr (bs @ 0 # xs) = bs"
  unfolding cstr_def by (induction bs) auto

lemma cstr_no_nil [simp]: "0 \<notin> set bs \<Longrightarrow> cstr bs = bs"
  unfolding cstr_def by (induction bs) auto

lemma nil_notin_cstr [simp]: "0 \<notin> set (cstr bs)"
  by (auto simp: cstr_def dest: set_takeWhileD)

section \<open>Generic lemmas\<close>

lemma fst_mod_add_self: "(a::nat) < n \<Longrightarrow> b < n \<Longrightarrow>
    (a + n - b) mod n = (if b \<le> a then a - b else a + n - b)"
  by (auto simp: mod_if)

lemma u16_less_Suc: "(w::u16) < n \<Longrightarrow> unat (w + 1) = Suc (unat w)"
  by unat_arith

lemma option_bind_Some_iff:
  "(m \<bind> f) = Some y \<longleftrightarrow> (\<exists>x. m = Some x \<and> f x = Some y)"
  by (cases m) auto

section \<open>Sequences of operations\<close>

text \<open>Operations one after the other, each on the state that the one before has left, until one faults; and
  that each operation is called in a state in which it may be called.\<close>

fun run_ops :: "('s \<Rightarrow> 'o \<Rightarrow> 's option) \<Rightarrow> 's \<Rightarrow> 'o list \<Rightarrow> 's option" where
  "run_ops step s [] = Some s"
| "run_ops step s (x # xs) = do { s1 \<leftarrow> step s x; run_ops step s1 xs }"

fun ops_guarded :: "('s \<Rightarrow> 'o \<Rightarrow> 's option) \<Rightarrow> ('s \<Rightarrow> 'o \<Rightarrow> bool) \<Rightarrow> 's \<Rightarrow> 'o list \<Rightarrow> bool" where
  "ops_guarded step ok s [] = True"
| "ops_guarded step ok s (x # xs) = (ok s x \<and> (case step s x of None \<Rightarrow> True | Some s1 \<Rightarrow> ops_guarded step ok s1 xs))"

text \<open>The contract of a component whose operations, called where they may be, return and keep an invariant.\<close>

locale safe_ops =
  fixes step :: "'s \<Rightarrow> 'o \<Rightarrow> 's option"
    and may :: "'s \<Rightarrow> 'o \<Rightarrow> bool"
    and inv :: "'s \<Rightarrow> bool"
  assumes step_safe: "inv s \<Longrightarrow> may s x \<Longrightarrow> \<exists>s'. step s x = Some s' \<and> inv s'"
begin

lemma run_safe: "inv s \<Longrightarrow> ops_guarded step may s xs \<Longrightarrow> \<exists>s'. run_ops step s xs = Some s' \<and> inv s'"
proof (induction xs arbitrary: s)
  case (Cons x xs)
  from step_safe [OF Cons.prems(1), of x] Cons.prems(2) obtain s1 where "step s x = Some s1" "inv s1" by auto
  with Cons.IH [of s1] Cons.prems(2) show ?case by auto
qed simp

end

end
