(* ===== verification/Ring.thy ===== *)
theory Ring
  imports RMR_Prelude
begin

text \<open>
  The message ring of \<^verbatim>\<open>src/src/rmr/common/src/ring_static.c\<close>: a circular buffer of pointers
  with 16-bit indexes and one slot that always stays empty, an event descriptor whose
  semaphore counter lets a reader poll the ring, and optional read and write locks.

  The pointers are values of type \<open>'a option\<close> (\<open>None\<close> is NULL).  The outcomes of the lock
  calls are parameters.  The abstract view is a bounded first-in first-out queue, stated as the
  locale \<open>bounded_fifo\<close> and interpreted on the ring operations.
\<close>

section \<open>The ring\<close>

record 'a ring =
  head :: u16
  tail :: u16
  nelements :: u16
  rdata :: "'a option list"
  pfd :: int
  pfd_ctr :: nat          \<comment> \<open>the kernel's counter behind the event descriptor\<close>
  fl_flock :: bool        \<comment> \<open>\<open>flags & RING_FL_FLOCK\<close>\<close>
  rgate :: bool           \<comment> \<open>the read lock exists\<close>
  wgate :: bool           \<comment> \<open>the write lock exists\<close>

definition uta_ring_getpfd :: "int \<Rightarrow> 'a ring \<Rightarrow> int \<times> 'a ring" where
  "uta_ring_getpfd efd r =
     (let r' = (if pfd r < 0 then r\<lparr>pfd := efd, pfd_ctr := 0\<rparr> else r) in (pfd r', r'))"

definition uta_mk_ring :: "mallocs \<Rightarrow> 'a option \<Rightarrow> int \<Rightarrow> int \<Rightarrow> 'a ring option" where
  "uta_mk_ring ok junk efd sz =
     (if sz \<le> 0 then None
      else if \<not> ok M_ring then None
      else
        let max = (0 - 1 :: u16);
            sz' = (if sz \<ge> uint max then sz - 1 else sz);
            n = (word_of_int sz' :: u16)
        in if \<not> ok M_ring_data then None
           else Some \<lparr>head = 0, tail = 0, nelements = n, rdata = replicate (unat n) None @ [junk],
                      pfd = efd, pfd_ctr = 0, fl_flock = False, rgate = False, wgate = False\<rparr>)"

text \<open>Options are \<open>RING_RLOCK\<close> (1), \<open>RING_WLOCK\<close> (2) and \<open>RING_FRLOCK\<close> (4).\<close>

definition uta_ring_config :: "mallocs \<Rightarrow> 'a ring option \<Rightarrow> int \<Rightarrow> bool \<times> 'a ring option" where
  "uta_ring_config ok vr options =
     (case vr of None \<Rightarrow> (False, None)
      | Some r \<Rightarrow>
          if options AND 2 \<noteq> 0 \<and> \<not> wgate r \<and> \<not> ok M_ring_wgate then (False, Some r)
          else
            let r1 = (if options AND 2 \<noteq> 0 \<and> \<not> wgate r then r\<lparr>wgate := True\<rparr> else r)
            in if options AND (1 OR 4) \<noteq> 0 then
                 if \<not> rgate r1 \<and> \<not> ok M_ring_rgate then (False, Some r1)
                 else
                   let r2 = r1\<lparr>rgate := True\<rparr>
                   in (True, Some (if options AND 4 \<noteq> 0 then r2\<lparr>fl_flock := True\<rparr> else r2))
               else (True, Some r1))"

definition uta_ring_extract :: "bool \<Rightarrow> bool \<Rightarrow> 'a ring \<Rightarrow> 'a option \<times> 'a ring" where
  "uta_ring_extract trylock_ok lock_ok r =
     (if tail r = head r then (None, r)
      else if rgate r \<and> (if fl_flock r then \<not> trylock_ok else \<not> lock_ok) then (None, r)
      else if rgate r \<and> tail r = head r then (None, r)
      else
        let ti = tail r;
            t1 = tail r + 1;
            t2 = (if t1 \<ge> nelements r then 0 else t1)
        in (rdata r ! unat ti,
            r\<lparr>tail := t2,
              pfd_ctr := (if pfd r \<ge> 0 then pfd_ctr r - 1 else pfd_ctr r),
              rdata := (rdata r)[unat ti := None]\<rparr>))"

text \<open>The result of an insert: stored (the C function returns 1), refused because the ring is
  full (0 with errno \<open>EXFULL\<close>), or refused because the lock could not be had (0).\<close>

datatype ring_rc = R_ok | R_full | R_nolock

definition uta_ring_insert :: "bool \<Rightarrow> 'a ring \<Rightarrow> 'a option \<Rightarrow> ring_rc \<times> 'a ring" where
  "uta_ring_insert lock_ok r new_data =
     (if wgate r \<and> \<not> lock_ok then (R_nolock, r)
      else if uint (head r) + 1 = uint (tail r)
            \<or> (uint (head r) + 1 \<ge> uint (nelements r) \<and> tail r = 0) then (R_full, r)
      else
        let h1 = head r + 1;
            h2 = (if h1 \<ge> nelements r then 0 else h1)
        in (R_ok, r\<lparr>rdata := (rdata r)[unat (head r) := new_data],
                   head := h2,
                   pfd_ctr := (if pfd r \<ge> 0 then pfd_ctr r + 1 else pfd_ctr r)\<rparr>))"

section \<open>Abstraction and invariant\<close>

definition ring_count :: "'a ring \<Rightarrow> nat" where
  "ring_count r = (unat (head r) + unat (nelements r) - unat (tail r)) mod unat (nelements r)"

definition ring_list :: "'a ring \<Rightarrow> 'a option list" where
  "ring_list r =
     map (\<lambda>i. rdata r ! ((unat (tail r) + i) mod unat (nelements r))) [0..<ring_count r]"

definition ring_wf :: "'a ring \<Rightarrow> bool" where
  "ring_wf r \<longleftrightarrow>
     head r < nelements r \<and> tail r < nelements r \<and>
     length (rdata r) = unat (nelements r) + 1 \<and>
     (pfd r \<ge> 0 \<longrightarrow> pfd_ctr r = ring_count r)"

lemma ring_wfD:
  assumes "ring_wf r"
  shows "unat (head r) < unat (nelements r)" and "unat (tail r) < unat (nelements r)"
    and "length (rdata r) = unat (nelements r) + 1" and "0 < unat (nelements r)"
    and "pfd r \<ge> 0 \<Longrightarrow> pfd_ctr r = ring_count r"
  using assms by (auto simp: ring_wf_def word_less_nat_alt)

lemma length_ring_list [simp]: "length (ring_list r) = ring_count r"
  by (simp add: ring_list_def)

lemma ring_count_alt:
  assumes "ring_wf r"
  shows "ring_count r = (if tail r \<le> head r then unat (head r) - unat (tail r)
                         else unat (head r) + unat (nelements r) - unat (tail r))"
  using ring_wfD [OF assms] by (auto simp: ring_count_def mod_if word_le_nat_alt)

lemma ring_count_less: "ring_wf r \<Longrightarrow> ring_count r < unat (nelements r)"
  by (simp add: ring_count_def ring_wfD)

lemma ring_empty_iff:
  assumes "ring_wf r"
  shows "tail r = head r \<longleftrightarrow> ring_list r = []"
proof -
  have "ring_list r = [] \<longleftrightarrow> ring_count r = 0"
    by (metis length_0_conv length_ring_list)
  also have "\<dots> \<longleftrightarrow> unat (tail r) = unat (head r)"
    using ring_wfD [OF assms] by (auto simp: ring_count_alt [OF assms] word_le_nat_alt)
  finally show ?thesis by (simp add: word_unat_eq_iff)
qed

lemma ring_full_iff:
  assumes "ring_wf r"
  shows "(uint (head r) + 1 = uint (tail r)
           \<or> (uint (head r) + 1 \<ge> uint (nelements r) \<and> tail r = 0))
         \<longleftrightarrow> ring_count r = unat (nelements r) - 1"
proof -
  define h t n where "h = unat (head r)" and "t = unat (tail r)" and "n = unat (nelements r)"
  have u: "uint (head r) = int h" "uint (tail r) = int t" "uint (nelements r) = int n"
    by (simp_all add: h_def t_def n_def)
  have z: "tail r = 0 \<longleftrightarrow> t = 0" by (simp add: t_def unat_eq_0)
  have "h < n" "t < n" "ring_count r = (if t \<le> h then h - t else h + n - t)"
    using ring_wfD [OF assms]
    by (simp_all add: ring_count_alt [OF assms] word_le_nat_alt h_def t_def n_def)
  then show ?thesis
    unfolding u z n_def [symmetric] by auto
qed

lemma wrap_index:
  assumes "(i::u16) < n"
  shows "unat (if i + 1 \<ge> n then 0 else i + 1) = Suc (unat i) mod unat n"
  using assms by (auto simp: word_le_nat_alt word_less_nat_alt u16_less_Suc mod_if)

subsection \<open>Insert\<close>

lemma ring_insert_stored:
  assumes wf: "ring_wf r" and room: "ring_count r < unat (nelements r) - 1"
    and lk: "wgate r \<longrightarrow> lock_ok"
    and ins: "uta_ring_insert lock_ok r x = (rc, r')"
  shows "rc = R_ok \<and> ring_wf r' \<and> ring_list r' = ring_list r @ [x] \<and> nelements r' = nelements r"
proof -
  let ?n = "unat (nelements r)" and ?h = "unat (head r)" and ?t = "unat (tail r)"
  define h2 where "h2 = (if head r + 1 \<ge> nelements r then 0 else head r + 1)"
  note d = ring_wfD [OF wf]
  have nf: "\<not> (uint (head r) + 1 = uint (tail r)
            \<or> (uint (head r) + 1 \<ge> uint (nelements r) \<and> tail r = 0))"
    using room by (simp only: ring_full_iff [OF wf])
  from ins lk nf have rc: "rc = R_ok"
    and r': "r' = r\<lparr>rdata := (rdata r)[?h := x], head := h2,
                   pfd_ctr := (if pfd r \<ge> 0 then pfd_ctr r + 1 else pfd_ctr r)\<rparr>"
    by (auto simp: uta_ring_insert_def Let_def h2_def simp del: uint_nat split: if_splits)
  have h2: "unat h2 = Suc ?h mod ?n"
    unfolding h2_def using wf by (intro wrap_index) (simp add: ring_wf_def)
  have cnt: "ring_count r' = Suc (ring_count r)"
    using d room unfolding r' ring_count_def
    by (auto simp: h2 mod_if split: if_splits)
  have slot: "(?t + ring_count r) mod ?n = ?h"
    using d by (auto simp: ring_count_alt [OF wf] word_le_nat_alt mod_if)
  have "ring_wf r'"
    using d h2 cnt unfolding ring_wf_def
    by (auto simp: r' word_less_nat_alt mod_less_divisor)
  moreover have "ring_list r' = ring_list r @ [x]"
  proof -
    have same: "rdata r' ! ((?t + i) mod ?n) = rdata r ! ((?t + i) mod ?n)"
      if "i < ring_count r" for i
    proof -
      have "(?t + i) mod ?n \<noteq> ?h"
        using that d ring_count_less [OF wf]
        by (auto simp: ring_count_alt [OF wf] word_le_nat_alt mod_if split: if_splits)
      then show ?thesis by (simp add: r')
    qed
    have "rdata r' ! ((?t + ring_count r) mod ?n) = x"
      using slot d by (simp add: r')
    then show ?thesis
      using same by (simp add: ring_list_def cnt) (simp add: r')
  qed
  ultimately show ?thesis by (simp add: rc) (simp add: r')
qed

lemma ring_insert_full:
  assumes wf: "ring_wf r" and "ring_count r = unat (nelements r) - 1"
    and lk: "wgate r \<longrightarrow> lock_ok"
  shows "uta_ring_insert lock_ok r x = (R_full, r)"
proof -
  have "uint (head r) + 1 = uint (tail r)
            \<or> (uint (head r) + 1 \<ge> uint (nelements r) \<and> tail r = 0)"
    using assms(2) by (simp only: ring_full_iff [OF wf])
  with lk show ?thesis by (auto simp: uta_ring_insert_def simp del: uint_nat)
qed

subsection \<open>Extract\<close>

lemma ring_extract_empty:
  assumes "ring_wf r" and "ring_list r = []"
  shows "uta_ring_extract tk lk r = (None, r)"
  using assms by (simp add: uta_ring_extract_def ring_empty_iff)

lemma ring_extract_next:
  assumes wf: "ring_wf r" and ne: "ring_list r = x # xs"
    and lk: "rgate r \<longrightarrow> (if fl_flock r then tk else lk)"
    and ext: "uta_ring_extract tk lk r = (v, r')"
  shows "v = x \<and> ring_wf r' \<and> ring_list r' = xs \<and> nelements r' = nelements r"
proof -
  let ?n = "unat (nelements r)" and ?h = "unat (head r)" and ?t = "unat (tail r)"
  define t2 where "t2 = (if tail r + 1 \<ge> nelements r then 0 else tail r + 1)"
  note d = ring_wfD [OF wf]
  have th: "tail r \<noteq> head r" using ne by (simp add: ring_empty_iff [OF wf])
  then have th': "?t \<noteq> ?h" by (simp add: word_unat_eq_iff)
  from ext lk th have v: "v = rdata r ! ?t"
    and r': "r' = r\<lparr>tail := t2, pfd_ctr := (if pfd r \<ge> 0 then pfd_ctr r - 1 else pfd_ctr r),
                   rdata := (rdata r)[?t := None]\<rparr>"
    by (auto simp: uta_ring_extract_def Let_def t2_def split: if_splits)
  have t2: "unat t2 = Suc ?t mod ?n"
    unfolding t2_def using wf by (intro wrap_index) (simp add: ring_wf_def)
  have cnt0: "ring_count r = Suc (length xs)"
    using ne by (metis length_Cons length_ring_list)
  have cnt: "Suc (ring_count r') = ring_count r"
    using d th' cnt0 unfolding r' ring_count_def
    by (auto simp: t2 mod_if split: if_splits)
  have wf': "ring_wf r'"
    using d t2 cnt unfolding ring_wf_def
    by (auto simp: r' word_less_nat_alt mod_less_divisor)
  have idx: "(unat t2 + i) mod ?n = (?t + Suc i) mod ?n" for i
    by (simp add: t2 mod_simps)
  have nth: "ring_list r ! i = rdata r ! ((?t + i) mod ?n)" if "i < ring_count r" for i
    using that by (simp add: ring_list_def)
  have "v = x" using nth [of 0] ne d cnt0 by (simp add: v)
  moreover have "ring_list r' = xs"
  proof (rule nth_equalityI)
    show "length (ring_list r') = length xs" using cnt cnt0 by simp
  next
    fix i assume i: "i < length (ring_list r')"
    then have i': "Suc i < ring_count r" using cnt by simp
    have "(?t + Suc i) mod ?n \<noteq> ?t"
      using i' d ring_count_less [OF wf] by (auto simp: mod_if split: if_splits)
    then have "ring_list r' ! i = rdata r ! ((?t + Suc i) mod ?n)"
      using i by (simp add: ring_list_def) (simp add: r' idx [simplified])
    also have "\<dots> = xs ! i" using nth [OF i'] ne by simp
    finally show "ring_list r' ! i = xs ! i" .
  qed
  ultimately show ?thesis using wf' by (simp add: r')
qed

section \<open>The bounded queue interface\<close>

text \<open>
  What the users of a ring rely on: the contents are a list that never grows beyond the
  capacity, an insert appends or is refused, an extract takes the oldest element or reports
  that there is none.
\<close>

datatype 'v qop = QIns 'v | QExt
datatype 'v qout = QStored bool | QGot 'v

fun spec_run :: "'v \<Rightarrow> nat \<Rightarrow> 'v list \<Rightarrow> 'v qop list \<Rightarrow> 'v qout list \<times> 'v list" where
  "spec_run nil cap q [] = ([], q)"
| "spec_run nil cap q (QIns x # ops) =
     (let ok = length q < cap; (outs, q') = spec_run nil cap (if ok then q @ [x] else q) ops
      in (QStored ok # outs, q'))"
| "spec_run nil cap q (QExt # ops) =
     (let (x, q1) = (case q of [] \<Rightarrow> (nil, []) | x # xs \<Rightarrow> (x, xs));
          (outs, q') = spec_run nil cap q1 ops
      in (QGot x # outs, q'))"

fun impl_run :: "('q \<Rightarrow> 'v \<Rightarrow> bool \<times> 'q) \<Rightarrow> ('q \<Rightarrow> 'v \<times> 'q) \<Rightarrow> 'q \<Rightarrow> 'v qop list
    \<Rightarrow> 'v qout list \<times> 'q" where
  "impl_run ins ext q [] = ([], q)"
| "impl_run ins ext q (QIns x # ops) =
     (let (ok, q1) = ins q x; (outs, q') = impl_run ins ext q1 ops in (QStored ok # outs, q'))"
| "impl_run ins ext q (QExt # ops) =
     (let (x, q1) = ext q; (outs, q') = impl_run ins ext q1 ops in (QGot x # outs, q'))"

locale bounded_fifo =
  fixes ins :: "'q \<Rightarrow> 'v \<Rightarrow> bool \<times> 'q"
    and ext :: "'q \<Rightarrow> 'v \<times> 'q"
    and nil :: 'v
    and contents :: "'q \<Rightarrow> 'v list"
    and capacity :: "'q \<Rightarrow> nat"
    and inv :: "'q \<Rightarrow> bool"
  assumes ins_stored: "inv q \<Longrightarrow> length (contents q) < capacity q \<Longrightarrow> ins q x = (ok, q') \<Longrightarrow>
      ok \<and> inv q' \<and> contents q' = contents q @ [x] \<and> capacity q' = capacity q"
    and ins_full: "inv q \<Longrightarrow> \<not> length (contents q) < capacity q \<Longrightarrow> ins q x = (False, q)"
    and ext_empty: "inv q \<Longrightarrow> contents q = [] \<Longrightarrow> ext q = (nil, q)"
    and ext_next: "inv q \<Longrightarrow> contents q = x # xs \<Longrightarrow> ext q = (v, q') \<Longrightarrow>
      v = x \<and> inv q' \<and> contents q' = xs \<and> capacity q' = capacity q"
begin

lemma run_refines:
  assumes "inv q" and "impl_run ins ext q ops = (outs, q')"
  shows "spec_run nil (capacity q) (contents q) ops = (outs, contents q') \<and> inv q'
    \<and> capacity q' = capacity q"
  using assms
proof (induction ops arbitrary: q outs)
  case Nil
  then show ?case by simp
next
  case (Cons op ops)
  show ?case
  proof (cases op)
    case (QIns x)
    obtain ok q1 where i: "ins q x = (ok, q1)" by (cases "ins q x")
    obtain outs1 where o1: "impl_run ins ext q1 ops = (outs1, q')" and o: "outs = QStored ok # outs1"
      using Cons.prems(2) QIns i by (auto split: prod.splits)
    have s: "inv q1 \<and> capacity q1 = capacity q \<and> ok = (length (contents q) < capacity q)
        \<and> contents q1 = (if ok then contents q @ [x] else contents q)"
      using ins_stored [OF Cons.prems(1) _ i] ins_full [OF Cons.prems(1), of x] i Cons.prems(1)
      by (cases "length (contents q) < capacity q") auto
    from Cons.IH [OF _ o1] s show ?thesis by (auto simp: QIns o Let_def split: prod.splits)
  next
    case QExt
    obtain v q1 where e: "ext q = (v, q1)" by (cases "ext q")
    obtain outs1 where o1: "impl_run ins ext q1 ops = (outs1, q')" and o: "outs = QGot v # outs1"
      using Cons.prems(2) QExt e by (auto split: prod.splits)
    have s: "inv q1 \<and> capacity q1 = capacity q \<and>
        (v, contents q1) = (case contents q of [] \<Rightarrow> (nil, []) | x # xs \<Rightarrow> (x, xs))"
      using ext_empty [OF Cons.prems(1)] ext_next [OF Cons.prems(1) _ e] e Cons.prems(1)
      by (cases "contents q") auto
    from Cons.IH [OF _ o1] s show ?thesis
      by (auto simp: QExt o Let_def split: prod.splits list.splits)
  qed
qed

lemma run_contents_bounded:
  assumes "inv q" and "length (contents q) \<le> capacity q" and "impl_run ins ext q ops = (outs, q')"
  shows "length (contents q') \<le> capacity q'"
proof -
  have "length (snd (spec_run nil c xs ops)) \<le> c" if "length xs \<le> c" for c xs
    using that
    by (induction nil c xs ops rule: spec_run.induct)
       (auto simp: Let_def split: prod.splits list.splits)
  from this [OF assms(2)] run_refines [OF assms(1,3)] show ?thesis by auto
qed

end

text \<open>The ring's operations as the interface has them, for a ring whose locks can be had.\<close>

definition ring_ins :: "'a ring \<Rightarrow> 'a option \<Rightarrow> bool \<times> 'a ring" where
  "ring_ins r x = (let (rc, r') = uta_ring_insert True r x in (rc = R_ok, r'))"

definition ring_ext :: "'a ring \<Rightarrow> 'a option \<times> 'a ring" where
  "ring_ext r = uta_ring_extract True True r"

definition ring_capacity :: "'a ring \<Rightarrow> nat" where
  "ring_capacity r = unat (nelements r) - 1"

interpretation rq: bounded_fifo ring_ins ring_ext None ring_list ring_capacity ring_wf
proof (unfold_locales, goal_cases)
  case (1 q x ok q')
  then obtain rc where "uta_ring_insert True q x = (rc, q')" "ok = (rc = R_ok)"
    by (auto simp: ring_ins_def split: prod.splits)
  with 1 ring_insert_stored [of q True x rc q'] show ?case
    by (auto simp: ring_capacity_def)
next
  case (2 q x)
  with ring_count_less [of q] have "ring_count q = unat (nelements q) - 1"
    by (auto simp: ring_capacity_def)
  with 2 show ?case by (simp add: ring_ins_def ring_insert_full)
next
  case (3 q)
  then show ?case by (simp add: ring_ext_def ring_extract_empty)
next
  case (4 q x xs v q')
  with ring_extract_next [of q x xs True True v q'] show ?case
    by (auto simp: ring_ext_def ring_capacity_def)
qed

section \<open>Properties of the ring\<close>

lemma mk_ring_wf:
  assumes "0 < sz" and "sz \<le> 65535" and "uta_mk_ring ok junk efd sz = Some r"
  shows "ring_wf r \<and> ring_list r = [] \<and>
    ring_capacity r = nat (if sz = 65535 then sz - 2 else sz - 1)"
proof -
  define sz' where "sz' = (if sz = 65535 then sz - 1 else sz)"
  have m: "uint (- 1 :: u16) = 65535"
    by (simp add: unsigned_minus_1_eq_mask mask_eq_exp_minus_1)
  have n: "unat (word_of_int sz' :: u16) = nat sz'"
    using assms(1,2) by (simp add: unat_eq_nat_uint uint_word_of_int sz'_def)
  have r: "r = \<lparr>head = 0, tail = 0, nelements = word_of_int sz',
      rdata = replicate (nat sz') None @ [junk], pfd = efd, pfd_ctr = 0,
      fl_flock = False, rgate = False, wgate = False\<rparr>"
    using assms n by (auto simp: uta_mk_ring_def Let_def m sz'_def split: if_splits)
  have "ring_wf r"
    using assms n
    by (auto simp: r ring_wf_def word_less_nat_alt ring_count_def sz'_def split: if_splits)
  moreover have "ring_list r = []" by (simp add: r ring_list_def ring_count_def)
  ultimately show ?thesis using assms n by (auto simp: ring_capacity_def r sz'_def)
qed

text \<open>
  C11. A ring made by \<^verbatim>\<open>uta_mk_ring\<close> behaves as a bounded first-in first-out queue: for every
  sequence of inserts and extracts, the outcomes of the C operations are those of a list
  that appends on insert while it has fewer than \<open>size - 1\<close> elements (\<open>size - 2\<close> for the largest
  size, 65535), refuses otherwise, and removes from the front on extract.
\<close>

theorem ring_refines_bounded_fifo:
  assumes "0 < sz" and "sz \<le> 65535" and "uta_mk_ring ok junk efd sz = Some r"
    and "impl_run ring_ins ring_ext r ops = (outs, r')"
  shows "spec_run None (nat (if sz = 65535 then sz - 2 else sz - 1)) [] ops = (outs, ring_list r')"
  using rq.run_refines [OF _ assms(4)] mk_ring_wf [OF assms(1-3)] by auto

theorem ring_refines_bounded_fifo_witness:
  "\<exists>r r'. uta_mk_ring (\<lambda>_. True) (None :: nat option) 3 3 = Some r \<and>
     impl_run ring_ins ring_ext r [QIns (Some 7), QIns (Some 8), QIns (Some 9), QExt, QExt, QExt]
       = ([QStored True, QStored True, QStored False, QGot (Some 7), QGot (Some 8), QGot None], r') \<and>
     spec_run None 2 [] [QIns (Some 7), QIns (Some 8), QIns (Some 9), QExt, QExt, QExt]
       = ([QStored True, QStored True, QStored False, QGot (Some 7), QGot (Some 8), QGot None],
          ring_list r')"
proof -
  let ?ops = "[QIns (Some 7), QIns (Some 8), QIns (Some 9), QExt, QExt, QExt] :: nat option qop list"
  obtain r where r: "uta_mk_ring (\<lambda>_. True) (None :: nat option) 3 3 = Some r"
    by (simp add: uta_mk_ring_def Let_def)
  obtain outs r' where run: "impl_run ring_ins ring_ext r ?ops = (outs, r')"
    by fastforce
  have s: "spec_run None 2 [] ?ops = (outs, ring_list r')"
    using ring_refines_bounded_fifo [OF _ _ r run] by simp
  then have "outs = [QStored True, QStored True, QStored False, QGot (Some 7), QGot (Some 8), QGot None]"
    by simp
  with r run s show ?thesis by blast
qed

lemma ring_insert_wf:
  assumes "ring_wf r"
  shows "ring_wf (snd (uta_ring_insert lk r x))"
proof (cases "wgate r \<and> \<not> lk")
  case True
  then show ?thesis using assms by (simp add: uta_ring_insert_def)
next
  case unlocked: False
  show ?thesis
  proof (cases "ring_count r < unat (nelements r) - 1")
    case True
    obtain rc r' where i: "uta_ring_insert lk r x = (rc, r')"
      by (cases "uta_ring_insert lk r x")
    from ring_insert_stored [OF assms True _ i] unlocked i show ?thesis by simp
  next
    case False
    with ring_count_less [OF assms] have "ring_count r = unat (nelements r) - 1" by simp
    with ring_insert_full [OF assms this] unlocked assms show ?thesis by simp
  qed
qed

lemma ring_extract_wf:
  assumes "ring_wf r"
  shows "ring_wf (snd (uta_ring_extract tk lk r))"
proof (cases "tail r = head r \<or> (rgate r \<and> (if fl_flock r then \<not> tk else \<not> lk))")
  case True
  then show ?thesis using assms by (auto simp: uta_ring_extract_def)
next
  case False
  then obtain y ys where ne: "ring_list r = y # ys"
    using ring_empty_iff [OF assms] by (cases "ring_list r") auto
  obtain v r' where e: "uta_ring_extract tk lk r = (v, r')"
    by (cases "uta_ring_extract tk lk r")
  from ring_extract_next [OF assms ne _ e] False e show ?thesis by (auto split: if_splits)
qed

text \<open>
  C36. Every operation keeps the ring well formed, whatever the locks do: both indexes stay
  below \<open>nelements\<close>, so no access leaves the data array, and the counter of the event
  descriptor equals the number of queued messages, so that a poll on it is ready exactly
  when the ring holds something.
\<close>

theorem ring_ops_keep_wf:
  assumes "ring_wf r"
  shows "ring_wf (snd (uta_ring_insert lk r x)) \<and> ring_wf (snd (uta_ring_extract tk lk r)) \<and>
    unat (head r) < length (rdata r) \<and> unat (tail r) < length (rdata r) \<and>
    (pfd r \<ge> 0 \<longrightarrow> (0 < pfd_ctr r \<longleftrightarrow> ring_list r \<noteq> []))"
proof -
  have "ring_list r \<noteq> [] \<longleftrightarrow> 0 < ring_count r"
    by (metis length_greater_0_conv length_ring_list)
  then show ?thesis
    using ring_wfD [OF assms] ring_insert_wf [OF assms] ring_extract_wf [OF assms] by auto
qed

theorem ring_ops_keep_wf_witness:
  "\<exists>r. uta_mk_ring (\<lambda>_. True) (None :: nat option) 3 2 = Some r \<and>
     ring_wf (snd (uta_ring_insert True r (Some 5)))"
proof -
  obtain r where r: "uta_mk_ring (\<lambda>_. True) (None :: nat option) 3 2 = Some r"
    by (simp add: uta_mk_ring_def Let_def)
  from mk_ring_wf [OF _ _ r] have "ring_wf r" by simp
  from ring_ops_keep_wf [OF this] r show ?thesis by blast
qed

end
