(* ===== verification/Symtab.thy ===== *)
theory Symtab
  imports RMR_Prelude
begin

text \<open>
  The symbol table of \<^verbatim>\<open>src/src/rmr/common/src/symtab.c\<close>: a hash table with chaining whose
  elements have either a string key in a class greater than 0 or a 64-bit numeric key in class
  0.  Route tables, the endpoint table and the descriptor-to-endpoint map are symbol tables.

  A chain is a list, head first (the \<^verbatim>\<open>prev\<close>/\<^verbatim>\<open>next\<close> links of the C structure); the loop that
  walks a chain to the first element that matches is \<open>find\<close>, \<open>chain_upd\<close> or \<open>chain_del\<close>.
  \<^verbatim>\<open>strdup\<close> of a name is taken to succeed (the code does not test it).  Values are pointers,
  so a value is \<open>'v option\<close>.
\<close>

section \<open>Elements and tables\<close>

datatype symkey = KStr u32 string | KNum u64

record 'v sym_ele =
  se_name :: "string option"
  nkey :: u64
  val :: "'v option"
  mcount :: u64
  rcount :: u64
  cls :: u32

record 'v sym_tab =
  symlist :: "'v sym_ele list list"
  inhabitants :: int
  deaths :: int
  st_size :: int

definition schar :: "char \<Rightarrow> int" where
  "schar c = (let n = of_char c in if n \<ge> 128 then n - 256 else n)"

text \<open>The hash of a string: \<^verbatim>\<open>long\<close> arithmetic in 64 bits, characters signed.\<close>

definition sym_hash :: "string \<Rightarrow> int \<Rightarrow> int" where
  "sym_hash n sz =
     (let t = foldl (\<lambda>t c. t * 79 + word_of_int (schar c)) (0 :: u64) n;
          t' = (if sint t < 0 then NOT t else t)
      in sint t' mod sz)"

definition same :: "u32 \<Rightarrow> u32 \<Rightarrow> string option \<Rightarrow> string \<Rightarrow> bool" where
  "same c1 c2 s1 s2 = (if c1 \<noteq> c2 then False else s1 = Some s2)"

text \<open>The test that ends a walk along a chain.  For a numeric key only \<open>nkey\<close> is compared.\<close>

fun matches :: "symkey \<Rightarrow> 'v sym_ele \<Rightarrow> bool" where
  "matches (KStr c s) e = same c (cls e) (se_name e) s"
| "matches (KNum n) e = (nkey e = n)"

fun sym_hv :: "int \<Rightarrow> symkey \<Rightarrow> int" where
  "sym_hv sz (KStr c s) = sym_hash s sz"
| "sym_hv sz (KNum n) = uint n mod sz"

primrec chain_upd :: "symkey \<Rightarrow> ('v sym_ele \<Rightarrow> 'v sym_ele) \<Rightarrow> 'v sym_ele list \<Rightarrow> 'v sym_ele list" where
  "chain_upd k f [] = []"
| "chain_upd k f (e # es) = (if matches k e then f e # es else e # chain_upd k f es)"

primrec chain_del :: "symkey \<Rightarrow> 'v sym_ele list \<Rightarrow> 'v sym_ele list" where
  "chain_del k [] = []"
| "chain_del k (e # es) = (if matches k e then es else e # chain_del k es)"

definition sym_chain :: "'v sym_tab \<Rightarrow> symkey \<Rightarrow> 'v sym_ele list" where
  "sym_chain t k = symlist t ! nat (sym_hv (st_size t) k)"

definition set_chain :: "'v sym_tab \<Rightarrow> symkey \<Rightarrow> 'v sym_ele list \<Rightarrow> 'v sym_tab" where
  "set_chain t k es = t\<lparr>symlist := (symlist t)[nat (sym_hv (st_size t) k) := es]\<rparr>"

section \<open>Operations\<close>

definition del_ele :: "'v sym_tab \<Rightarrow> symkey \<Rightarrow> 'v sym_tab" where
  "del_ele t k =
     (case find (matches k) (sym_chain t k) of
        None \<Rightarrow> t
      | Some e \<Rightarrow>
          (set_chain t k (chain_del k (sym_chain t k)))
            \<lparr>deaths := deaths t + 1, inhabitants := inhabitants t - 1\<rparr>)"

definition del_head_ele :: "'v sym_tab \<Rightarrow> nat \<Rightarrow> 'v sym_tab" where
  "del_head_ele t hv =
     (if int hv \<ge> st_size t then t
      else case symlist t ! hv of
             [] \<Rightarrow> t
           | e # es \<Rightarrow> t\<lparr>symlist := (symlist t)[hv := es],
                        deaths := deaths t + 1, inhabitants := inhabitants t - 1\<rparr>)"

fun new_ele :: "symkey \<Rightarrow> 'v sym_ele" where
  "new_ele (KStr c s) = \<lparr>se_name = Some s, nkey = 0, val = None, mcount = 0, rcount = 0, cls = c\<rparr>"
| "new_ele (KNum n) = \<lparr>se_name = None, nkey = n, val = None, mcount = 0, rcount = 0, cls = 0\<rparr>"

definition ele_set :: "'v option \<Rightarrow> 'v sym_ele \<Rightarrow> 'v sym_ele" where
  "ele_set v e = e\<lparr>mcount := mcount e + 1, val := v\<rparr>"

definition putin :: "mallocs \<Rightarrow> 'v sym_tab \<Rightarrow> symkey \<Rightarrow> 'v option \<Rightarrow> int \<times> 'v sym_tab" where
  "putin ok t k v =
     (let es = sym_chain t k in
      case find (matches k) es of
        None \<Rightarrow>
          let t1 = t\<lparr>inhabitants := inhabitants t + 1\<rparr> in
          if \<not> ok M_symele then (-1, t1)
          else (1, set_chain t1 k (ele_set v (new_ele k) # es))
      | Some e \<Rightarrow> (0, set_chain t k (chain_upd k (ele_set v) es)))"

definition rmr_sym_put :: "mallocs \<Rightarrow> 'v sym_tab \<Rightarrow> string \<Rightarrow> u32 \<Rightarrow> 'v option \<Rightarrow> int \<times> 'v sym_tab" where
  "rmr_sym_put ok t name c v = putin ok t (KStr (if c = 0 then 1 else c) name) v"

definition rmr_sym_map :: "mallocs \<Rightarrow> 'v sym_tab \<Rightarrow> u64 \<Rightarrow> 'v option \<Rightarrow> int \<times> 'v sym_tab" where
  "rmr_sym_map ok t key v = putin ok t (KNum key) v"

definition rmr_sym_get :: "'v sym_tab \<Rightarrow> symkey \<Rightarrow> 'v option \<times> 'v sym_tab" where
  "rmr_sym_get t k =
     (case find (matches k) (sym_chain t k) of
        None \<Rightarrow> (None, t)
      | Some e \<Rightarrow> (val e, set_chain t k (chain_upd k (\<lambda>e. e\<lparr>rcount := rcount e + 1\<rparr>) (sym_chain t k))))"

definition rmr_sym_pull :: "'v sym_tab \<Rightarrow> u64 \<Rightarrow> 'v option \<times> 'v sym_tab" where
  "rmr_sym_pull t key = rmr_sym_get t (KNum key)"

definition rmr_sym_del :: "'v sym_tab \<Rightarrow> symkey \<Rightarrow> 'v sym_tab" where
  "rmr_sym_del t k = del_ele t k"

definition rmr_sym_ndel :: "'v sym_tab \<Rightarrow> u64 \<Rightarrow> 'v sym_tab" where
  "rmr_sym_ndel t key = rmr_sym_del t (KNum key)"

definition rmr_sym_alloc :: "mallocs \<Rightarrow> int \<Rightarrow> 'v sym_tab option" where
  "rmr_sym_alloc ok sz =
     (let sz' = (if sz < 11 then 11 else sz) in
      if \<not> ok M_symtab then None
      else if \<not> ok M_symlist then None
      else Some \<lparr>symlist = replicate (nat sz') [], inhabitants = 0, deaths = 0, st_size = sz'\<rparr>)"

text \<open>The inner loop of \<^verbatim>\<open>rmr_sym_clear\<close> deletes the head of one chain until it is empty.\<close>

function clear_chain :: "'v sym_tab \<Rightarrow> nat \<Rightarrow> 'v sym_tab" where
  "clear_chain t i =
     (if i < length (symlist t) \<and> int i < st_size t \<and> symlist t ! i \<noteq> []
      then clear_chain (del_head_ele t i) i else t)"
  by pat_completeness auto
termination
  by (relation "measure (\<lambda>(t, i). length (symlist t ! i))")
     (auto simp: del_head_ele_def split: list.splits)

declare clear_chain.simps [simp del]

definition rmr_sym_clear :: "'v sym_tab \<Rightarrow> 'v sym_tab" where
  "rmr_sym_clear t = foldl clear_chain t [0..<nat (st_size t)]"

text \<open>The callback gets the element's name and value and threads the user's data.\<close>

definition rmr_sym_foreach_class ::
    "'v sym_tab \<Rightarrow> u32 \<Rightarrow> (string option \<Rightarrow> 'v option \<Rightarrow> 's \<Rightarrow> 's) \<Rightarrow> 's \<Rightarrow> 's" where
  "rmr_sym_foreach_class t c user_fun s =
     fold (\<lambda>es s. fold (\<lambda>e s. if c = cls e then user_fun (se_name e) (val e) s else s) es s)
       (symlist t) s"

section \<open>Well-formed tables\<close>

definition ele_key :: "'v sym_ele \<Rightarrow> symkey" where
  "ele_key e = (if cls e = 0 then KNum (nkey e) else KStr (cls e) (the (se_name e)))"

definition ele_wf :: "'v sym_ele \<Rightarrow> bool" where
  "ele_wf e = (if cls e = 0 then se_name e = None else se_name e \<noteq> None \<and> nkey e = 0)"

definition chain_wf :: "int \<Rightarrow> nat \<Rightarrow> 'v sym_ele list \<Rightarrow> bool" where
  "chain_wf sz i es \<longleftrightarrow>
     (\<forall>e\<in>set es. ele_wf e \<and> nat (sym_hv sz (ele_key e)) = i) \<and> distinct (map ele_key es)"

definition sym_wf :: "'v sym_tab \<Rightarrow> bool" where
  "sym_wf t \<longleftrightarrow>
     0 < st_size t \<and> length (symlist t) = nat (st_size t) \<and>
     (\<forall>i<length (symlist t). chain_wf (st_size t) i (symlist t ! i)) \<and>
     inhabitants t = int (sum_list (map length (symlist t)))"

text \<open>Keys the interface can make, and the keys on which numeric and string symbols cannot be
  confused: every string key and every numeric key but 0.\<close>

fun key_ok :: "symkey \<Rightarrow> bool" where
  "key_ok (KStr c s) = (c \<noteq> 0)"
| "key_ok (KNum n) = True"

fun key_safe :: "symkey \<Rightarrow> bool" where
  "key_safe (KStr c s) = (c \<noteq> 0)"
| "key_safe (KNum n) = (n \<noteq> 0)"

lemma key_safe_ok [simp]: "key_safe k \<Longrightarrow> key_ok k"
  by (cases k) auto

lemma sym_hash_range: "0 < sz \<Longrightarrow> 0 \<le> sym_hash n sz \<and> sym_hash n sz < sz"
  by (simp add: sym_hash_def Let_def)

lemma sym_hv_range: "0 < sz \<Longrightarrow> 0 \<le> sym_hv sz k \<and> sym_hv sz k < sz"
  by (cases k) (auto simp: sym_hash_range)

lemma matches_ele_key: "ele_wf e \<Longrightarrow> key_safe k \<Longrightarrow> matches k e \<longleftrightarrow> ele_key e = k"
  by (cases k) (auto simp: ele_wf_def ele_key_def same_def split: if_splits)

lemma matches_own_key: "ele_wf e \<Longrightarrow> matches (ele_key e) e"
  by (auto simp: ele_wf_def ele_key_def same_def)

lemma ele_key_new [simp]: "key_ok k \<Longrightarrow> ele_key (new_ele k) = k"
  by (cases k) (auto simp: ele_key_def)

lemma ele_wf_new [simp]: "key_ok k \<Longrightarrow> ele_wf (new_ele k)"
  by (cases k) (auto simp: ele_wf_def)

lemma matches_new [simp]: "matches k (new_ele k)"
  by (cases k) (auto simp: same_def)

text \<open>Updates that leave the key fields alone.\<close>

definition key_preserving :: "('v sym_ele \<Rightarrow> 'v sym_ele) \<Rightarrow> bool" where
  "key_preserving f \<longleftrightarrow> (\<forall>e. se_name (f e) = se_name e \<and> nkey (f e) = nkey e \<and> cls (f e) = cls e)"

lemma key_preserving_ele_set [simp]: "key_preserving (ele_set v)"
  by (simp add: key_preserving_def ele_set_def)

lemma key_preserving_rcount [simp]: "key_preserving (\<lambda>e. e\<lparr>rcount := rcount e + 1\<rparr>)"
  by (simp add: key_preserving_def)

lemma key_preserving_matches: "key_preserving f \<Longrightarrow> matches k (f e) = matches k e"
  by (cases k) (auto simp: key_preserving_def)

lemma key_preserving_key: "key_preserving f \<Longrightarrow> ele_key (f e) = ele_key e \<and> ele_wf (f e) = ele_wf e"
  by (auto simp: key_preserving_def ele_key_def ele_wf_def)

lemma chain_upd_keys: "key_preserving f \<Longrightarrow> map ele_key (chain_upd k f es) = map ele_key es"
  by (induction es) (auto simp: key_preserving_key)

lemma chain_upd_length [simp]: "length (chain_upd k f es) = length es"
  by (induction es) auto

lemma chain_upd_wf_eles: "key_preserving f \<Longrightarrow> (\<forall>e\<in>set (chain_upd k f es). P (ele_key e) (ele_wf e))
    \<longleftrightarrow> (\<forall>e\<in>set es. P (ele_key e) (ele_wf e))"
  by (induction es) (auto simp: key_preserving_key)

lemma chain_wf_upd:
  assumes "key_preserving f" and "chain_wf sz i es"
  shows "chain_wf sz i (chain_upd k f es)"
  using assms chain_upd_wf_eles [OF assms(1), of k es "\<lambda>key w. w \<and> nat (sym_hv sz key) = i"]
  by (simp add: chain_wf_def chain_upd_keys)

lemma set_chain_del: "set (chain_del k es) \<subseteq> set es"
  by (induction es) auto

lemma chain_wf_del: "chain_wf sz i es \<Longrightarrow> chain_wf sz i (chain_del k es)"
proof -
  have "distinct (map ele_key es) \<Longrightarrow> distinct (map ele_key (chain_del k es))"
    using set_chain_del by (induction es) (auto simp: subset_iff)
  then show "chain_wf sz i es \<Longrightarrow> chain_wf sz i (chain_del k es)"
    using set_chain_del [of k es] by (auto simp: chain_wf_def subset_iff)
qed

lemma chain_del_length:
  "find (matches k) es = Some e \<Longrightarrow> Suc (length (chain_del k es)) = length es"
  by (induction es) (auto split: if_splits)

subsection \<open>Look-up in one chain\<close>

definition chain_get :: "symkey \<Rightarrow> 'v sym_ele list \<Rightarrow> 'v option" where
  "chain_get k es = (case find (matches k) es of None \<Rightarrow> None | Some e \<Rightarrow> val e)"

lemma chain_get_upd_same:
  assumes "key_preserving f" and "find (matches k) es = Some e"
  shows "chain_get k (chain_upd k f es) = val (f e)"
  using assms by (induction es) (auto simp: chain_get_def key_preserving_matches split: if_splits)

lemma chain_get_upd_val:
  assumes "key_preserving f" and "\<And>e. val (f e) = val e"
  shows "chain_get k' (chain_upd k f es) = chain_get k' es"
  using assms by (induction es) (auto simp: chain_get_def key_preserving_matches)

lemma chain_get_upd_other:
  assumes "key_preserving f" and "chain_wf sz i es" and "key_safe k" and "key_safe k'" and "k \<noteq> k'"
  shows "chain_get k' (chain_upd k f es) = chain_get k' es"
  using assms(2)
proof (induction es)
  case (Cons e es)
  then have "ele_wf e" "chain_wf sz i es" by (auto simp: chain_wf_def)
  with Cons.IH assms show ?case
    by (auto simp: chain_get_def key_preserving_matches matches_ele_key)
qed simp

lemma chain_get_del_same:
  assumes "chain_wf sz i es" and "key_safe k"
  shows "chain_get k (chain_del k es) = None"
  using assms(1)
proof (induction es)
  case (Cons e es)
  then have e: "ele_wf e" "chain_wf sz i es" by (auto simp: chain_wf_def)
  have "find (matches k) es = None" if "ele_key e = k"
  proof -
    have "\<forall>e'\<in>set es. ele_wf e' \<and> ele_key e' \<noteq> k" using Cons.prems that by (auto simp: chain_wf_def image_iff)
    then show ?thesis using assms(2) by (auto simp: find_None_iff matches_ele_key)
  qed
  with Cons.IH e assms(2) show ?case by (auto simp: chain_get_def matches_ele_key)
qed (simp add: chain_get_def)

lemma chain_get_del_other:
  assumes "chain_wf sz i es" and "key_safe k" and "key_safe k'" and "k \<noteq> k'"
  shows "chain_get k' (chain_del k es) = chain_get k' es"
  using assms(1)
proof (induction es)
  case (Cons e es)
  then have "ele_wf e" "chain_wf sz i es" by (auto simp: chain_wf_def)
  with Cons.IH assms show ?case by (auto simp: chain_get_def matches_ele_key)
qed simp

subsection \<open>Chains of a table\<close>

lemma sym_get_chain_get: "fst (rmr_sym_get t k) = chain_get k (sym_chain t k)"
  by (auto simp: rmr_sym_get_def chain_get_def split: option.splits)

lemma hv_in_range: "sym_wf t \<Longrightarrow> nat (sym_hv (st_size t) k) < length (symlist t)"
  using sym_hv_range [of "st_size t" k] by (auto simp: sym_wf_def)

lemma sym_chain_wf: "sym_wf t \<Longrightarrow> chain_wf (st_size t) (nat (sym_hv (st_size t) k)) (sym_chain t k)"
  using hv_in_range [of t k] by (auto simp: sym_wf_def sym_chain_def)

lemma st_size_set_chain [simp]: "st_size (set_chain t k es) = st_size t"
  by (simp add: set_chain_def)

lemma sym_chain_set_chain:
  assumes "sym_wf t"
  shows "sym_chain (set_chain t k es) k' =
    (if nat (sym_hv (st_size t) k') = nat (sym_hv (st_size t) k) then es else sym_chain t k')"
  using hv_in_range [OF assms] by (auto simp: sym_chain_def set_chain_def)

lemma sum_list_upd: "i < length xs \<Longrightarrow>
    int (sum_list (map length (xs[i := es]))) = int (sum_list (map length xs)) + int (length es) - int (length (xs ! i))"
  by (induction xs arbitrary: i) (auto split: nat.splits)

lemma sym_wf_set_chain:
  assumes "sym_wf t" and "chain_wf (st_size t) (nat (sym_hv (st_size t) k)) es"
    and "n = inhabitants t + int (length es) - int (length (sym_chain t k))"
  shows "sym_wf ((set_chain t k es)\<lparr>deaths := d, inhabitants := n\<rparr>)"
  using assms hv_in_range [OF assms(1), of k] sum_list_upd [of _ "symlist t" es]
  by (auto simp: sym_wf_def set_chain_def sym_chain_def nth_list_update)

lemma sym_chain_counts [simp]:
  "sym_chain (t\<lparr>deaths := d, inhabitants := n\<rparr>) k = sym_chain t k"
  "sym_chain (t\<lparr>inhabitants := n\<rparr>) k = sym_chain t k"
  "sym_chain (t\<lparr>deaths := d\<rparr>) k = sym_chain t k"
  by (simp_all add: sym_chain_def)

lemma set_chain_inhabitants [simp]:
  "set_chain (t\<lparr>inhabitants := n\<rparr>) k es = (set_chain t k es)\<lparr>inhabitants := n\<rparr>"
  by (simp add: set_chain_def)

lemma chain_get_set_chain:
  assumes "sym_wf t" and "chain_get k' es = chain_get k' (sym_chain t k)"
  shows "chain_get k' (sym_chain (set_chain t k es) k') = chain_get k' (sym_chain t k')"
proof -
  have "sym_chain t k' = sym_chain t k"
    if "nat (sym_hv (st_size t) k') = nat (sym_hv (st_size t) k)"
    using that by (simp add: sym_chain_def)
  with assms show ?thesis by (simp add: sym_chain_set_chain)
qed

lemma sym_wf_deaths [simp]: "sym_wf (t\<lparr>deaths := d, inhabitants := n\<rparr>) = sym_wf (t\<lparr>inhabitants := n\<rparr>)"
  by (simp add: sym_wf_def)

section \<open>Operations keep tables well formed\<close>

lemma sym_alloc_wf:
  assumes "rmr_sym_alloc ok sz = Some t"
  shows "sym_wf t \<and> (\<forall>k. fst (rmr_sym_get t k) = None)"
proof -
  define s where "s = (if sz < 11 then 11 else sz)"
  have t: "t = \<lparr>symlist = replicate (nat s) [], inhabitants = 0, deaths = 0, st_size = s\<rparr>"
    and pos: "0 < s"
    using assms by (auto simp: rmr_sym_alloc_def Let_def s_def split: if_splits)
  have wf: "sym_wf t" using pos by (simp add: t sym_wf_def chain_wf_def sum_list_replicate)
  have "sym_chain t k = []" for k
    using hv_in_range [OF wf, of k] by (simp add: t sym_chain_def)
  with wf show ?thesis by (simp add: rmr_sym_get_def)
qed

lemma putin_wf:
  assumes wf: "sym_wf t" and k: "key_ok k" and ok: "ok M_symele"
  shows "sym_wf (snd (putin ok t k v))"
proof (cases "find (matches k) (sym_chain t k)")
  case None
  let ?es = "ele_set v (new_ele k) # sym_chain t k"
  have kf: "ele_key (ele_set v (new_ele k)) = k" "ele_wf (ele_set v (new_ele k))"
    using k key_preserving_key [OF key_preserving_ele_set] by (metis ele_key_new ele_wf_new)+
  have "k \<notin> ele_key ` set (sym_chain t k)"
  proof
    assume "k \<in> ele_key ` set (sym_chain t k)"
    then obtain e where e: "e \<in> set (sym_chain t k)" "ele_key e = k" by auto
    then have "matches k e" using sym_chain_wf [OF wf, of k] matches_own_key
      by (auto simp: chain_wf_def)
    with e None show False by (auto simp: find_None_iff)
  qed
  then have "chain_wf (st_size t) (nat (sym_hv (st_size t) k)) ?es"
    using sym_chain_wf [OF wf, of k] kf by (auto simp: chain_wf_def)
  from sym_wf_set_chain [OF wf this, of "inhabitants t + 1" "deaths t"] None ok show ?thesis
    by (simp add: putin_def Let_def)
next
  case (Some e)
  have "chain_wf (st_size t) (nat (sym_hv (st_size t) k)) (chain_upd k (ele_set v) (sym_chain t k))"
    using sym_chain_wf [OF wf] by (simp add: chain_wf_upd)
  from sym_wf_set_chain [OF wf this, of "inhabitants t" "deaths t"] Some show ?thesis
    by (simp add: putin_def Let_def set_chain_def)
qed

lemma get_wf:
  assumes wf: "sym_wf t"
  shows "sym_wf (snd (rmr_sym_get t k))"
proof (cases "find (matches k) (sym_chain t k)")
  case (Some e)
  let ?es = "chain_upd k (\<lambda>e. e\<lparr>rcount := rcount e + 1\<rparr>) (sym_chain t k)"
  have "chain_wf (st_size t) (nat (sym_hv (st_size t) k)) ?es"
    using sym_chain_wf [OF wf] by (simp add: chain_wf_upd)
  from sym_wf_set_chain [OF wf this, of "inhabitants t" "deaths t"] Some show ?thesis
    by (simp add: rmr_sym_get_def set_chain_def)
qed (simp add: rmr_sym_get_def wf)

lemma del_wf:
  assumes wf: "sym_wf t"
  shows "sym_wf (rmr_sym_del t k)"
proof (cases "find (matches k) (sym_chain t k)")
  case (Some e)
  have "chain_wf (st_size t) (nat (sym_hv (st_size t) k)) (chain_del k (sym_chain t k))"
    using sym_chain_wf [OF wf] by (rule chain_wf_del)
  from sym_wf_set_chain [OF wf this, of "inhabitants t - 1" "deaths t + 1"]
    chain_del_length [OF Some] Some show ?thesis
    by (simp add: rmr_sym_del_def del_ele_def)
qed (simp add: rmr_sym_del_def del_ele_def wf)

section \<open>The pointer map interface\<close>

text \<open>
  What the route table code relies on: a map from keys to pointers.  A NULL pointer and a
  missing key are not told apart, so the abstract state is a function into \<open>'v option\<close>.
\<close>

datatype ('k, 'v) mop = MPut 'k "'v option" | MDel 'k | MGet 'k

fun spec_mrun :: "('k \<rightharpoonup> 'v) \<Rightarrow> ('k, 'v) mop list \<Rightarrow> 'v option list \<times> ('k \<rightharpoonup> 'v)" where
  "spec_mrun m [] = ([], m)"
| "spec_mrun m (MPut k v # ops) = spec_mrun (m(k := v)) ops"
| "spec_mrun m (MDel k # ops) = spec_mrun (m(k := None)) ops"
| "spec_mrun m (MGet k # ops) = (let (vs, m') = spec_mrun m ops in (m k # vs, m'))"

fun impl_mrun :: "('t \<Rightarrow> 'k \<Rightarrow> 'v option \<Rightarrow> 't) \<Rightarrow> ('t \<Rightarrow> 'k \<Rightarrow> 'v option \<times> 't) \<Rightarrow> ('t \<Rightarrow> 'k \<Rightarrow> 't)
    \<Rightarrow> 't \<Rightarrow> ('k, 'v) mop list \<Rightarrow> 'v option list \<times> 't" where
  "impl_mrun put get del t [] = ([], t)"
| "impl_mrun put get del t (MPut k v # ops) = impl_mrun put get del (put t k v) ops"
| "impl_mrun put get del t (MDel k # ops) = impl_mrun put get del (del t k) ops"
| "impl_mrun put get del t (MGet k # ops) =
     (let (v, t1) = get t k; (vs, t') = impl_mrun put get del t1 ops in (v # vs, t'))"

fun mop_key :: "('k, 'v) mop \<Rightarrow> 'k" where
  "mop_key (MPut k v) = k" | "mop_key (MDel k) = k" | "mop_key (MGet k) = k"

locale ptr_map =
  fixes put :: "'t \<Rightarrow> 'k \<Rightarrow> 'v option \<Rightarrow> 't"
    and get :: "'t \<Rightarrow> 'k \<Rightarrow> 'v option \<times> 't"
    and del :: "'t \<Rightarrow> 'k \<Rightarrow> 't"
    and inv :: "'t \<Rightarrow> bool"
    and safe :: "'k \<Rightarrow> bool"
  assumes get_put_same: "inv t \<Longrightarrow> safe k \<Longrightarrow> fst (get (put t k v) k) = v"
    and get_put_other: "inv t \<Longrightarrow> safe k \<Longrightarrow> safe k' \<Longrightarrow> k \<noteq> k' \<Longrightarrow>
      fst (get (put t k v) k') = fst (get t k')"
    and get_del_same: "inv t \<Longrightarrow> safe k \<Longrightarrow> fst (get (del t k) k) = None"
    and get_del_other: "inv t \<Longrightarrow> safe k \<Longrightarrow> safe k' \<Longrightarrow> k \<noteq> k' \<Longrightarrow>
      fst (get (del t k) k') = fst (get t k')"
    and get_get: "inv t \<Longrightarrow> fst (get (snd (get t k)) k') = fst (get t k')"
    and inv_put: "inv t \<Longrightarrow> safe k \<Longrightarrow> inv (put t k v)"
    and inv_get: "inv t \<Longrightarrow> inv (snd (get t k))"
    and inv_del: "inv t \<Longrightarrow> inv (del t k)"
begin

lemma get_put: "inv t \<Longrightarrow> safe k \<Longrightarrow> safe k' \<Longrightarrow>
    fst (get (put t k v) k') = (if k' = k then v else fst (get t k'))"
  by (simp add: get_put_same get_put_other)

lemma get_del: "inv t \<Longrightarrow> safe k \<Longrightarrow> safe k' \<Longrightarrow>
    fst (get (del t k) k') = (if k' = k then None else fst (get t k'))"
  by (simp add: get_del_same get_del_other)

lemma run_refines:
  assumes "inv t" and "\<forall>op\<in>set ops. safe (mop_key op)" and "\<And>k. safe k \<Longrightarrow> m k = fst (get t k)"
  shows "fst (impl_mrun put get del t ops) = fst (spec_mrun m ops)"
  using assms
proof (induction ops arbitrary: t m)
  case (Cons op ops)
  show ?case
  proof (cases op)
    case (MPut k v)
    with Cons.prems have "inv (put t k v)" and "\<And>k'. safe k' \<Longrightarrow> (m(k := v)) k' = fst (get (put t k v) k')"
      by (auto simp: inv_put get_put)
    then have "fst (impl_mrun put get del (put t k v) ops) = fst (spec_mrun (m(k := v)) ops)"
      using Cons.prems by (intro Cons.IH) auto
    then show ?thesis by (simp add: MPut)
  next
    case (MDel k)
    with Cons.prems have "inv (del t k)" and "\<And>k'. safe k' \<Longrightarrow> (m(k := None)) k' = fst (get (del t k) k')"
      by (auto simp: inv_del get_del)
    then have "fst (impl_mrun put get del (del t k) ops) = fst (spec_mrun (m(k := None)) ops)"
      using Cons.prems by (intro Cons.IH) auto
    then show ?thesis by (simp add: MDel)
  next
    case (MGet k)
    with Cons.prems have "inv (snd (get t k))" and "\<And>k'. safe k' \<Longrightarrow> m k' = fst (get (snd (get t k)) k')"
      by (auto simp: inv_get get_get)
    with Cons.IH [of "snd (get t k)" m] Cons.prems show ?thesis
      by (auto simp: MGet Let_def split: prod.splits)
  qed
qed simp

end

definition sym_putv :: "'v sym_tab \<Rightarrow> symkey \<Rightarrow> 'v option \<Rightarrow> 'v sym_tab" where
  "sym_putv t k v = snd (putin (\<lambda>_. True) t k v)"

interpretation sm: ptr_map sym_putv rmr_sym_get rmr_sym_del sym_wf key_safe
proof (unfold_locales, goal_cases)
  case (1 t k v)
  have "chain_get k (ele_set v (new_ele k) # es) = v" for es
    using key_preserving_matches [OF key_preserving_ele_set, of k v "new_ele k"]
    by (simp add: chain_get_def ele_set_def)
  with 1 show ?case
    by (auto simp: sym_get_chain_get sym_putv_def putin_def Let_def sym_chain_set_chain
          chain_get_upd_same ele_set_def split: option.splits)
next
  case (2 t k k' v)
  have "chain_get k' (ele_set v (new_ele k) # es) = chain_get k' es" for es
  proof -
    have "ele_key (ele_set v (new_ele k)) = k" "ele_wf (ele_set v (new_ele k))"
      using 2 key_preserving_key [OF key_preserving_ele_set] by (metis ele_key_new ele_wf_new key_safe_ok)+
    with 2 show ?thesis by (simp add: chain_get_def matches_ele_key)
  qed
  with 2 chain_get_upd_other [OF key_preserving_ele_set sym_chain_wf [of t k], of k k' v]
  show ?case
    by (auto simp: sym_get_chain_get sym_putv_def putin_def Let_def chain_get_set_chain
          split: option.splits)
next
  case (3 t k)
  then show ?case
    using chain_get_del_same [OF sym_chain_wf [of t k], of k]
    by (auto simp: sym_get_chain_get rmr_sym_del_def del_ele_def sym_chain_set_chain chain_get_def
          split: option.splits)
next
  case (4 t k k')
  then show ?case
    using chain_get_del_other [OF sym_chain_wf [of t k], of k k']
    by (auto simp: sym_get_chain_get rmr_sym_del_def del_ele_def chain_get_set_chain
          split: option.splits)
next
  case (5 t k k')
  then show ?case
    using chain_get_upd_val [OF key_preserving_rcount, of k' k "sym_chain t k"]
    by (auto simp: sym_get_chain_get rmr_sym_get_def [of t k] chain_get_set_chain
          split: option.splits)
next
  case (6 t k v)
  then show ?case by (simp add: sym_putv_def putin_wf)
next
  case (7 t k)
  then show ?case by (rule get_wf)
next
  case (8 t k)
  then show ?case by (rule del_wf)
qed

section \<open>Clearing and walking a table\<close>

lemma clear_chain_eq:
  assumes "i < length (symlist t)" and "int (length (symlist t)) = st_size t"
  shows "clear_chain t i = t\<lparr>symlist := (symlist t)[i := []],
    inhabitants := inhabitants t - int (length (symlist t ! i)),
    deaths := deaths t + int (length (symlist t ! i))\<rparr>"
  using assms
proof (induction "symlist t ! i" arbitrary: t)
  case Nil
  then have "(symlist t)[i := []] = symlist t" by (metis list_update_id)
  then show ?case using Nil by (simp add: clear_chain.simps [of t i])
next
  case (Cons e es)
  let ?t = "del_head_ele t i"
  have d: "?t = t\<lparr>symlist := (symlist t)[i := es], deaths := deaths t + 1, inhabitants := inhabitants t - 1\<rparr>"
    using Cons.prems Cons.hyps(2) [symmetric] by (simp add: del_head_ele_def)
  have "es = symlist ?t ! i" using Cons.prems d by simp
  from Cons.hyps(1) [OF this] Cons.prems d have "clear_chain ?t i =
      ?t\<lparr>symlist := (symlist ?t)[i := []], inhabitants := inhabitants ?t - int (length (symlist ?t ! i)),
        deaths := deaths ?t + int (length (symlist ?t ! i))\<rparr>"
    by simp
  moreover have "clear_chain t i = clear_chain ?t i"
    using Cons.prems Cons.hyps(2) [symmetric] by (simp add: clear_chain.simps [of t i])
  ultimately show ?case using d Cons.prems Cons.hyps(2) [symmetric] by simp
qed

lemma clear_upto:
  assumes "sym_wf t" and "n \<le> length (symlist t)"
  shows "foldl clear_chain t [0..<n] = t\<lparr>symlist := replicate n [] @ drop n (symlist t),
    inhabitants := inhabitants t - int (sum_list (map length (take n (symlist t)))),
    deaths := deaths t + int (sum_list (map length (take n (symlist t))))\<rparr>"
  using assms(2)
proof (induction n)
  case (Suc n)
  let ?L = "symlist t" and ?t = "foldl clear_chain t [0..<n]"
  note IH = Suc.IH [OF Suc_leD [OF Suc.prems]]
  have L: "length (symlist ?t) = length ?L" "symlist ?t ! n = ?L ! n" "st_size ?t = st_size t"
    using Suc.prems IH by (simp_all add: nth_append)
  have "clear_chain ?t n = ?t\<lparr>symlist := (symlist ?t)[n := []],
    inhabitants := inhabitants ?t - int (length (?L ! n)), deaths := deaths ?t + int (length (?L ! n))\<rparr>"
    using clear_chain_eq [of n ?t] Suc.prems L assms(1) by (simp add: sym_wf_def)
  moreover have "(symlist ?t)[n := []] = replicate (Suc n) [] @ drop (Suc n) ?L"
    using Suc.prems IH by (simp add: list_update_append Cons_nth_drop_Suc [symmetric] replicate_append_same)
  moreover have "take (Suc n) ?L = take n ?L @ [?L ! n]"
    using Suc.prems by (simp add: take_Suc_conv_app_nth)
  ultimately show ?case using IH by simp
qed simp

lemma sym_clear_eq:
  assumes "sym_wf t"
  shows "rmr_sym_clear t = t\<lparr>symlist := replicate (nat (st_size t)) [], inhabitants := 0,
    deaths := deaths t + inhabitants t\<rparr>"
  using clear_upto [OF assms, of "nat (st_size t)"] assms
  by (simp add: rmr_sym_clear_def sym_wf_def)

lemma sym_clear_wf: "sym_wf t \<Longrightarrow> sym_wf (rmr_sym_clear t) \<and> fst (rmr_sym_get (rmr_sym_clear t) k) = None"
proof -
  assume wf: "sym_wf t"
  then have wf': "sym_wf (rmr_sym_clear t)"
    by (simp add: sym_clear_eq) (simp add: sym_wf_def chain_wf_def sum_list_replicate)
  have "sym_chain (rmr_sym_clear t) k = []"
    using hv_in_range [OF wf', of k] by (simp add: sym_clear_eq [OF wf] sym_chain_def)
  with wf' show ?thesis by (simp add: rmr_sym_get_def)
qed

definition class_eles :: "'v sym_tab \<Rightarrow> u32 \<Rightarrow> 'v sym_ele list" where
  "class_eles t c = filter (\<lambda>e. cls e = c) (concat (symlist t))"

lemma foreach_class_fold:
  "rmr_sym_foreach_class t c f s = fold (\<lambda>e. f (se_name e) (val e)) (class_eles t c) s"
proof -
  have inner: "fold (\<lambda>e s. if c = cls e then f (se_name e) (val e) s else s) es s
      = fold (\<lambda>e. f (se_name e) (val e)) (filter (\<lambda>e. cls e = c) es) s" for es s
    by (induction es arbitrary: s) auto
  have "fold (\<lambda>es s. fold (\<lambda>e s. if c = cls e then f (se_name e) (val e) s else s) es s) L s
      = fold (\<lambda>e. f (se_name e) (val e)) (filter (\<lambda>e. cls e = c) (concat L)) s" for L s
    by (induction L arbitrary: s) (auto simp: inner)
  then show ?thesis by (simp add: rmr_sym_foreach_class_def class_eles_def)
qed

text \<open>What iterating over a table meets: every symbol once, with the value a look-up returns.\<close>

lemma in_concat_nth: "e \<in> set (concat L) \<Longrightarrow> \<exists>i < length L. e \<in> set (L ! i)"
  by (metis in_set_conv_nth set_concat UN_E)

lemma distinct_concat_keys:
  assumes "\<And>i. i < length L \<Longrightarrow> distinct (map f (L ! i))"
    and "\<And>i e. i < length L \<Longrightarrow> e \<in> set (L ! i) \<Longrightarrow> h (f e) = i + j"
  shows "distinct (map f (concat L))"
  using assms
proof (induction L arbitrary: j)
  case (Cons es L)
  have e0: "h (f e) = j" if "e \<in> set es" for e using Cons.prems(2) [of 0 e] that by simp
  have e1: "h (f e) > j" if "e \<in> set (concat L)" for e
  proof -
    from in_concat_nth [OF that] obtain i where "i < length L" "e \<in> set (L ! i)" by blast
    then show ?thesis using Cons.prems(2) [of "Suc i" e] by simp
  qed
  have "distinct (map f (concat L))"
    by (rule Cons.IH [of "Suc j"]) (use Cons.prems(1) [of "Suc _"] Cons.prems(2) [of "Suc _"] in auto)
  moreover have "distinct (map f es)" using Cons.prems(1) [of 0] by simp
  moreover have "f ` set es \<inter> f ` set (concat L) = {}" using e0 e1 by fastforce
  ultimately show ?case by simp
qed simp

lemma eles_distinct: "sym_wf t \<Longrightarrow> distinct (map ele_key (concat (symlist t)))"
  by (rule distinct_concat_keys [where h = "\<lambda>k. nat (sym_hv (st_size t) k)" and j = 0])
    (auto simp: sym_wf_def chain_wf_def)

lemma eles_get:
  assumes wf: "sym_wf t" and e: "e \<in> set (concat (symlist t))" and safe: "key_safe (ele_key e)"
  shows "fst (rmr_sym_get t (ele_key e)) = val e"
proof -
  from in_concat_nth [OF e] obtain i where i: "i < length (symlist t)" "e \<in> set (symlist t ! i)" by blast
  with wf have ch: "chain_wf (st_size t) i (symlist t ! i)" by (simp add: sym_wf_def)
  with i have "nat (sym_hv (st_size t) (ele_key e)) = i" by (simp add: chain_wf_def)
  then have sc: "sym_chain t (ele_key e) = symlist t ! i" by (simp add: sym_chain_def)
  have "find (matches (ele_key e)) es = Some e" if "e \<in> set es" "distinct (map ele_key es)" "\<forall>x\<in>set es. ele_wf x" for es
    using that
  proof (induction es)
    case (Cons x xs)
    then have "matches (ele_key e) x \<longleftrightarrow> ele_key x = ele_key e" using matches_ele_key [of x, OF _ safe] by simp
    with Cons show ?case by (cases "x = e") (auto simp: rev_image_eqI)
  qed simp
  with ch i have "find (matches (ele_key e)) (symlist t ! i) = Some e" by (simp add: chain_wf_def)
  with sc show ?thesis by (simp add: rmr_sym_get_def)
qed

lemma get_eles:
  assumes wf: "sym_wf t" and safe: "key_safe k" and get: "fst (rmr_sym_get t k) = Some v"
  shows "\<exists>e \<in> set (concat (symlist t)). ele_key e = k \<and> val e = Some v"
proof -
  from get obtain e where e: "find (matches k) (sym_chain t k) = Some e" "val e = Some v"
    by (auto simp: rmr_sym_get_def split: option.splits)
  then have m: "e \<in> set (sym_chain t k)" "matches k e" by (auto simp: find_Some_iff)
  with sym_chain_wf [OF wf, of k] have "ele_wf e" by (simp add: chain_wf_def)
  with m(2) safe have "ele_key e = k" by (simp add: matches_ele_key)
  moreover have "e \<in> set (concat (symlist t))" using m(1) hv_in_range [OF wf, of k] by (auto simp: sym_chain_def)
  ultimately show ?thesis using e(2) by blast
qed

definition sym_keys :: "'v sym_tab \<Rightarrow> symkey set" where
  "sym_keys t = ele_key ` set (concat (symlist t))"

lemma sym_keys_set_chain:
  assumes "sym_wf t" and "ele_key ` set es \<subseteq> insert k (ele_key ` set (sym_chain t k))"
  shows "sym_keys (set_chain t k es) \<subseteq> insert k (sym_keys t)"
proof -
  let ?i = "nat (sym_hv (st_size t) k)"
  have i: "?i < length (symlist t)" by (rule hv_in_range [OF assms(1)])
  let ?old = "set (concat (symlist t))"
  have "set (concat ((symlist t)[?i := es])) \<subseteq> ?old \<union> set es"
    using set_update_subset_insert [of "symlist t" ?i es] by auto
  then have "sym_keys (set_chain t k es) \<subseteq> ele_key ` ?old \<union> ele_key ` set es"
    unfolding sym_keys_def set_chain_def by (simp add: image_Un [symmetric] image_mono)
  also have "\<dots> \<subseteq> ele_key ` ?old \<union> insert k (ele_key ` set (sym_chain t k))" using assms(2) by blast
  also have "ele_key ` set (sym_chain t k) \<subseteq> ele_key ` ?old"
    using nth_mem [OF i] by (intro image_mono) (auto simp: sym_chain_def)
  finally show ?thesis by (auto simp: sym_keys_def)
qed

lemma sym_keys_counts [simp]:
  "sym_keys (t\<lparr>inhabitants := n\<rparr>) = sym_keys t" "sym_keys (t\<lparr>deaths := d\<rparr>) = sym_keys t"
  by (simp_all add: sym_keys_def)

lemma key_image_upd: "key_preserving f \<Longrightarrow> ele_key ` set (chain_upd k f es) = ele_key ` set es"
  using chain_upd_keys [of f k es] by (metis list.set_map)

lemma sym_keys_put: "sym_wf t \<Longrightarrow> key_ok k \<Longrightarrow> sym_keys (sym_putv t k v) \<subseteq> insert k (sym_keys t)"
  using sym_keys_set_chain [of t "chain_upd k (ele_set v) (sym_chain t k)" k]
    sym_keys_set_chain [of t "ele_set v (new_ele k) # sym_chain t k" k]
  by (auto simp: sym_putv_def putin_def Let_def key_image_upd key_preserving_key split: option.splits)

lemma sym_keys_get: "sym_wf t \<Longrightarrow> key_ok k \<Longrightarrow> sym_keys (snd (rmr_sym_get t k)) \<subseteq> insert k (sym_keys t)"
  using sym_keys_set_chain [of t "chain_upd k (\<lambda>e. e\<lparr>rcount := rcount e + 1\<rparr>) (sym_chain t k)" k]
  by (auto simp: rmr_sym_get_def key_image_upd split: option.splits)

lemma sym_keys_del: "sym_wf t \<Longrightarrow> sym_keys (rmr_sym_del t k) \<subseteq> insert k (sym_keys t)"
  using sym_keys_set_chain [of t "chain_del k (sym_chain t k)" k] set_chain_del [of k "sym_chain t k"]
  by (auto simp: rmr_sym_del_def del_ele_def split: option.splits)

lemma sym_keys_clear: "sym_wf t \<Longrightarrow> sym_keys (rmr_sym_clear t) = {}"
  by (simp add: sym_clear_eq sym_keys_def)

lemma sym_keys_alloc: "rmr_sym_alloc ok sz = Some t \<Longrightarrow> sym_keys t = {}"
  by (auto simp: rmr_sym_alloc_def Let_def sym_keys_def split: if_splits)

lemma putin_ok_eq: "ok M_symele \<Longrightarrow> snd (putin ok t k v) = sym_putv t k v"
  by (simp add: putin_def sym_putv_def Let_def split: option.splits)

section \<open>Properties of the symbol table\<close>

text \<open>
  C12. A symbol table is a map: for every sequence of puts, deletes and look-ups on a table from
  \<^verbatim>\<open>rmr_sym_alloc\<close>, with string keys of any class greater than 0 and numeric keys other than 0,
  each look-up returns what the last put to that key stored, and NULL after a delete or when
  there was none; collisions of hash values and of names across classes do not matter.
\<close>

theorem symtab_refines_map:
  assumes "rmr_sym_alloc ok sz = Some t" and "\<forall>op\<in>set ops. key_safe (mop_key op)"
  shows "fst (impl_mrun sym_putv rmr_sym_get rmr_sym_del t ops) = fst (spec_mrun Map.empty ops)"
  using sm.run_refines [OF _ assms(2), of t Map.empty] sym_alloc_wf [OF assms(1)] by simp

theorem symtab_refines_map_witness:
  "\<exists>t. rmr_sym_alloc (\<lambda>_. True) 11 = Some t \<and>
     fst (impl_mrun sym_putv rmr_sym_get rmr_sym_del t
       [MPut (KStr 1 ''a'') (Some (1::nat)), MPut (KStr 2 ''a'') (Some 2), MPut (KNum 9) (Some 3),
        MGet (KStr 1 ''a''), MDel (KStr 1 ''a''), MGet (KStr 1 ''a''), MGet (KStr 2 ''a''), MGet (KNum 9)])
     = [Some 1, None, Some 2, Some 3]"
proof -
  let ?ops = "[MPut (KStr 1 ''a'') (Some (1::nat)), MPut (KStr 2 ''a'') (Some 2), MPut (KNum 9) (Some 3),
        MGet (KStr 1 ''a''), MDel (KStr 1 ''a''), MGet (KStr 1 ''a''), MGet (KStr 2 ''a''), MGet (KNum 9)]"
  obtain t :: "nat sym_tab" where t: "rmr_sym_alloc (\<lambda>_. True) 11 = Some t"
    by (simp add: rmr_sym_alloc_def)
  have "fst (impl_mrun sym_putv rmr_sym_get rmr_sym_del t ?ops) = fst (spec_mrun Map.empty ?ops)"
    by (rule symtab_refines_map [OF t]) simp
  then show ?thesis using t by auto
qed

text \<open>
  Numeric key 0 is confused with string symbols: a numeric look-up compares only \<open>nkey\<close>,
  which is 0 in every string symbol.  If a string symbol lives in chain 0, pulling key 0
  returns the string symbol's value, and mapping key 0 overwrites it instead of adding an entry.
\<close>

theorem symtab_numeric_zero_aliases_string:
  assumes t: "rmr_sym_alloc ok sz = Some t" and c: "c \<noteq> 0" and h: "sym_hash name (st_size t) = 0"
    and ok: "ok M_symele" and t1: "t1 = snd (rmr_sym_put ok t name c (Some v))"
    and t2: "t2 = snd (rmr_sym_map ok t1 0 w)"
  shows "fst (rmr_sym_pull t1 0) = Some v \<and> fst (rmr_sym_get t2 (KStr c name)) = w
    \<and> inhabitants t2 = inhabitants t1"
proof -
  have wf: "sym_wf t" using sym_alloc_wf [OF t] by simp
  have ch: "sym_chain t (KStr c name) = []"
  proof -
    have "nat (sym_hv (st_size t) (KStr c name)) < length (symlist t)" by (rule hv_in_range [OF wf])
    with t show ?thesis
      by (auto simp: rmr_sym_alloc_def Let_def sym_chain_def split: if_splits)
  qed
  have hv: "sym_hv (st_size t) (KNum 0) = 0" "sym_hv (st_size t) (KStr c name) = 0"
    using h by simp_all
  let ?e = "ele_set (Some v) (new_ele (KStr c name))"
  have t1': "t1 = (set_chain t (KStr c name) [?e])\<lparr>inhabitants := inhabitants t + 1\<rparr>"
    using t1 c ch ok by (simp add: rmr_sym_put_def putin_def Let_def)
  have wf1: "sym_wf t1"
    using t1 putin_wf [OF wf, of "KStr c name" ok "Some v"] c ok by (simp add: rmr_sym_put_def)
  have ch1: "sym_chain t1 (KNum 0) = [?e]"
    using hv by (simp add: t1' sym_chain_set_chain [OF wf])
  have m: "matches (KNum 0) ?e" "matches (KStr c name) ?e" "val ?e = Some v"
    by (simp_all add: ele_set_def same_def)
  have hv1: "nat (sym_hv (st_size t1) (KStr c name)) = nat (sym_hv (st_size t1) (KNum 0))"
    using hv by (simp add: t1')
  have t2': "t2 = set_chain t1 (KNum 0) [ele_set w ?e]"
    using t2 ch1 m by (simp add: rmr_sym_map_def putin_def Let_def)
  have ch2: "sym_chain t2 (KStr c name) = [ele_set w ?e]"
    unfolding t2' sym_chain_set_chain [OF wf1] hv1 by simp
  have "matches (KStr c name) (ele_set w ?e)" by (simp add: ele_set_def same_def)
  then show ?thesis
    using ch1 ch2 m by (simp add: rmr_sym_pull_def rmr_sym_get_def t2' set_chain_def)
      (simp add: ele_set_def)
qed

theorem symtab_numeric_zero_aliases_string_witness:
  "\<exists>t. rmr_sym_alloc (\<lambda>_. True) 10009 = Some t \<and>
     fst (rmr_sym_pull (snd (rmr_sym_put (\<lambda>_. True) t ''~7'' 2 (Some (5::nat)))) 0) = Some 5"
proof -
  obtain t :: "nat sym_tab" where t: "rmr_sym_alloc (\<lambda>_. True) 10009 = Some t" and s: "st_size t = 10009"
    by (simp add: rmr_sym_alloc_def)
  have "sym_hash ''~7'' (st_size t) = 0" by (simp add: s sym_hash_def schar_def)
  from symtab_numeric_zero_aliases_string [OF t _ this _ refl refl] t show ?thesis by fastforce
qed

text \<open>
  \<^verbatim>\<open>rmr_sym_clear\<close> ends and removes everything: no key is found afterwards, no inhabitant is
  left, every deleted element is counted in \<open>deaths\<close>, and the table is well formed.
\<close>

theorem sym_clear_empties:
  assumes "sym_wf t"
  shows "sym_wf (rmr_sym_clear t) \<and> fst (rmr_sym_get (rmr_sym_clear t) k) = None \<and>
    inhabitants (rmr_sym_clear t) = 0 \<and> deaths (rmr_sym_clear t) = deaths t + inhabitants t \<and>
    class_eles (rmr_sym_clear t) c = []"
  using sym_clear_wf [OF assms] sym_clear_eq [OF assms]
  by (simp add: class_eles_def)

theorem sym_clear_empties_witness:
  "\<exists>t. rmr_sym_alloc (\<lambda>_. True) 11 = Some t \<and>
     inhabitants (rmr_sym_clear (sym_putv t (KNum 7) (Some (1::nat)))) = 0"
proof -
  obtain t :: "nat sym_tab" where t: "rmr_sym_alloc (\<lambda>_. True) 11 = Some t"
    by (simp add: rmr_sym_alloc_def)
  have "sym_wf (sym_putv t (KNum 7) (Some 1))"
    using sym_alloc_wf [OF t] by (simp add: sym_putv_def putin_wf)
  from sym_clear_empties [OF this] t show ?thesis by blast
qed

end
