(* ===== verification/Tools.thy ===== *)
theory Tools
  imports RMR_Prelude
begin

text \<open>
  The string and address helpers of \<^verbatim>\<open>src/src/rmr/common/src/tools_static.c\<close> and the text
  helpers (\<^verbatim>\<open>clip\<close>, \<^verbatim>\<open>ensure_nlterm\<close>) of \<^verbatim>\<open>rt_generic_static.c\<close>.  A C string is a \<open>string\<close>
  without nil characters; \<^verbatim>\<open>zt_buf_fill\<close>, which works on raw buffers, is modelled on bytes.
  The resolver and the interface list of the host are parameters.
\<close>

section \<open>C library functions on characters and numbers\<close>

definition isspace :: "char \<Rightarrow> bool" where
  "isspace c = (of_char c \<in> {9::nat, 10, 11, 12, 13, 32})"

definition isdigit :: "char \<Rightarrow> bool" where
  "isdigit c = ((of_char c :: nat) \<ge> 48 \<and> (of_char c :: nat) \<le> 57)"

definition digit_val :: "char \<Rightarrow> int" where
  "digit_val c = of_char c - 48"

text \<open>\<^verbatim>\<open>atoi\<close>: \<^verbatim>\<open>strtol\<close>, which saturates at 64 bits, cut to a 32-bit \<^verbatim>\<open>int\<close>.\<close>

definition atoi :: "string \<Rightarrow> int" where
  "atoi s =
     (let s1 = dropWhile isspace s;
          neg = (case s1 of c # _ \<Rightarrow> c = CHR ''-'' | [] \<Rightarrow> False);
          s2 = (case s1 of c # cs \<Rightarrow> if c = CHR ''-'' \<or> c = CHR ''+'' then cs else s1 | [] \<Rightarrow> []);
          v = foldl (\<lambda>a c. a * 10 + digit_val c) 0 (takeWhile isdigit s2);
          l = (if neg then - v else v);
          l' = max (- (2 ^ 63)) (min (2 ^ 63 - 1) l)
      in sint (word_of_int l' :: u32))"

fun dec :: "nat \<Rightarrow> string" where
  "dec n = (if n < 10 then [char_of (48 + n)] else dec (n div 10) @ [char_of (48 + n mod 10)])"

declare dec.simps [simp del]

section \<open>Bounded copy\<close>

text \<open>The copy loop: \<open>n\<close> is what \<^verbatim>\<open>len-1\<close> leaves, and the next source byte is read before the
  bound is tested, so that running off the end of the source block is a fault.\<close>

fun zt_copy :: "bytes \<Rightarrow> nat \<Rightarrow> bytes option" where
  "zt_copy [] n = None"
| "zt_copy (b # bs) n =
     (if b \<noteq> 0 \<and> 0 < n then map_option (Cons b) (zt_copy bs (n - 1)) else Some [])"

definition zt_buf_fill :: "bytes option \<Rightarrow> nat \<Rightarrow> bytes option \<Rightarrow> int \<Rightarrow> (int \<times> bytes option) option" where
  "zt_buf_fill dest off src len =
     (case (dest, src) of
        (Some m, Some s) \<Rightarrow> do {
          bs \<leftarrow> zt_copy s (nat (len - 1));
          m' \<leftarrow> mem_wr m off (bs @ [0]);
          Some (int (length bs), Some m')
        }
      | _ \<Rightarrow> Some (-1, dest))"

section \<open>Tokens\<close>

text \<open>The loop of \<^verbatim>\<open>uta_tokenise\<close>: \<open>n\<close> tokens are recorded and \<open>cur\<close> is the text of the last.\<close>

function tok_loop :: "int \<Rightarrow> char \<Rightarrow> int \<Rightarrow> string \<Rightarrow> string list" where
  "tok_loop mx sep n cur =
     (if n < mx \<and> cur \<noteq> [] \<and> sep \<in> set cur
      then takeWhile (\<lambda>c. c \<noteq> sep) cur
             # tok_loop mx sep (n + 1) (tl (dropWhile (\<lambda>c. c \<noteq> sep) cur))
      else [cur])"
  by pat_completeness auto
termination
proof (relation "measure (\<lambda>(mx, sep, n, cur). length cur)", goal_cases)
  case (2 mx sep n cur)
  then have "dropWhile (\<lambda>c. c \<noteq> sep) cur \<noteq> []" by (auto simp: dropWhile_eq_Nil_conv)
  then have "length (tl (dropWhile (\<lambda>c. c \<noteq> sep) cur)) < length (dropWhile (\<lambda>c. c \<noteq> sep) cur)"
    by simp
  also have "\<dots> \<le> length cur" by (rule length_dropWhile_le)
  finally show ?case by simp
qed simp

declare tok_loop.simps [simp del]

definition uta_tokenise :: "string option \<Rightarrow> int \<Rightarrow> char \<Rightarrow> string list" where
  "uta_tokenise buf mx sep =
     (case buf of None \<Rightarrow> [] | Some b \<Rightarrow> if b = [] then [] else tok_loop mx sep 1 b)"

type_synonym if_addrs = "string option list"

definition is_this_myip :: "if_addrs option \<Rightarrow> string option \<Rightarrow> bool" where
  "is_this_myip l addr =
     (case l of None \<Rightarrow> False
      | Some addrs \<Rightarrow> (case addr of None \<Rightarrow> False | Some a \<Rightarrow> list_ex (\<lambda>x. x = Some a) addrs))"

definition uta_rmip_tokenise :: "string option \<Rightarrow> if_addrs option \<Rightarrow> int \<Rightarrow> char \<Rightarrow> string list" where
  "uta_rmip_tokenise buf iplist mx sep =
     filter (\<lambda>t. \<not> is_this_myip iplist (Some t)) (uta_tokenise buf mx sep)"

text \<open>The search loop of \<^verbatim>\<open>uta_has_str\<close>, which returns the index of the first match.\<close>

fun has_str_loop :: "string \<Rightarrow> int \<Rightarrow> string list \<Rightarrow> int" where
  "has_str_loop str i [] = -1"
| "has_str_loop str i (t # ts) = (if t = str then i else has_str_loop str (i + 1) ts)"

definition uta_has_str :: "mallocs \<Rightarrow> string \<Rightarrow> string \<Rightarrow> char \<Rightarrow> int \<Rightarrow> int" where
  "uta_has_str ok buf str sep mx =
     (if mx < 2 then -1
      else if \<not> ok M_strdup then -1
      else if \<not> ok M_tokens then -1
      else has_str_loop str 0 (uta_tokenise (Some buf) mx sep))"

definition has_myip :: "mallocs \<Rightarrow> string option \<Rightarrow> if_addrs option \<Rightarrow> char \<Rightarrow> int \<Rightarrow> bool" where
  "has_myip ok buf l sep mx =
     (if mx < 2 then False
      else if buf = None then False
      else if l = None then False
      else if \<not> ok M_strdup then False
      else if \<not> ok M_tokens then False
      else list_ex (\<lambda>t. is_this_myip l (Some t)) (uta_tokenise buf mx sep))"

definition get_default_ip :: "if_addrs option \<Rightarrow> string option" where
  "get_default_ip iplist =
     (case iplist of Some (a # _) \<Rightarrow> a | _ \<Rightarrow> None)"

section \<open>Addresses\<close>

text \<open>\<open>dns\<close> is the resolver: the first address of a host in host byte order.\<close>

definition octets :: "u32 \<Rightarrow> nat list" where
  "octets a = map (\<lambda>i. unat (drop_bit (8 * i) a AND 255)) [3, 2, 1, 0]"

definition dotted :: "u32 \<Rightarrow> string" where
  "dotted a = (case octets a of [o0, o1, o2, o3] \<Rightarrow>
      dec o0 @ ''.'' @ dec o1 @ ''.'' @ dec o2 @ ''.'' @ dec o3)"

definition uta_h2ip :: "(string \<Rightarrow> u32 option) \<Rightarrow> string \<Rightarrow> string option" where
  "uta_h2ip dns hname =
     (if (case hname of [] \<Rightarrow> False | c # _ \<Rightarrow> isdigit c \<or> c = CHR ''['') then Some hname
      else
        let dname = takeWhile (\<lambda>c. c \<noteq> CHR '':'') hname;
            tok = (if CHR '':'' \<in> set hname then Some (tl (dropWhile (\<lambda>c. c \<noteq> CHR '':'') hname)) else None)
        in case dns dname of
             None \<Rightarrow> None
           | Some a \<Rightarrow>
               Some (take 119 (case tok of Some port \<Rightarrow> dotted a @ '':'' @ port | None \<Rightarrow> dotted a)))"

text \<open>The host's interfaces as \<^verbatim>\<open>getifaddrs\<close> and \<^verbatim>\<open>getnameinfo\<close> report them: the interface name
  and its numeric address.\<close>

datatype ifaddr = IfNone | IfInet string | IfInet6 string | IfOther

definition if_entry :: "string \<Rightarrow> ifaddr \<Rightarrow> string option" where
  "if_entry port a =
     (case a of
        IfInet octs \<Rightarrow> if octs = [] then None
          else Some (take 1152 (takeWhile (\<lambda>c. c \<noteq> CHR ''%'') octs @ '':'' @ port))
      | IfInet6 octs \<Rightarrow> if octs = [] then None
          else Some (take 1152 (''['' @ takeWhile (\<lambda>c. c \<noteq> CHR ''%'') octs @ '']:'' @ port))
      | _ \<Rightarrow> None)"

fun if_loop :: "string option \<Rightarrow> string \<Rightarrow> (string \<times> ifaddr) list \<Rightarrow> if_addrs \<Rightarrow> if_addrs" where
  "if_loop target port [] l = l"
| "if_loop target port ((name, a) # ifs) l =
     (if name \<noteq> ''lo'' \<and> (target = None \<or> target = Some name) then
        case if_entry port a of
          None \<Rightarrow> if_loop target port ifs l
        | Some s \<Rightarrow> if_loop target port ifs (if length l < 128 then l @ [Some s] else l)
      else if_loop target port ifs l)"

definition mk_ip_list :: "mallocs \<Rightarrow> string option \<Rightarrow> (string \<times> ifaddr) list \<Rightarrow> string \<Rightarrow> if_addrs option" where
  "mk_ip_list ok bind_if ifs port =
     (if \<not> ok M_iplist then None
      else case bind_if of
             Some e \<Rightarrow>
               if (case e of [] \<Rightarrow> False | c # _ \<Rightarrow> isdigit c \<or> c = CHR ''['')
               then Some [Some (take 1152 (e @ '':'' @ port))]
               else Some (if_loop (Some e) port ifs [])
           | None \<Rightarrow> Some (if_loop None port ifs []))"

section \<open>Trimming\<close>

text \<open>The loop that trims trailing white space and never moves before the first character.\<close>

function trim_end :: "string \<Rightarrow> string" where
  "trim_end s = (if 1 < length s \<and> isspace (last s) then trim_end (butlast s) else s)"
  by pat_completeness auto
termination by (relation "measure length") auto

declare trim_end.simps [simp del]

definition clip :: "string \<Rightarrow> string" where
  "clip buf =
     (let b = dropWhile isspace buf in
      if CHR ''#'' \<in> set b then
        let pre = takeWhile (\<lambda>c. c \<noteq> CHR ''#'') b in
        if pre = [] then b
        else trim_end (if isspace (last pre) then pre else b)
      else trim_end b)"

definition ensure_nlterm :: "mallocs \<Rightarrow> string option \<Rightarrow> string option" where
  "ensure_nlterm ok buf =
     (let b = (case buf of None \<Rightarrow> [] | Some b \<Rightarrow> b) in
      if length b = 0 then Some [CHR 0x0A]
      else if length b = 1 then
        (if b \<noteq> [CHR 0x0A] then Some (b @ [CHR 0x0A]) else buf)
      else if last b \<noteq> CHR 0x0A then
        (if ok M_strdup then Some (b @ [CHR 0x0A]) else None)
      else buf)"

section \<open>Lemmas on tokens and trimming\<close>

fun join :: "char \<Rightarrow> string list \<Rightarrow> string" where
  "join sep [] = []"
| "join sep [t] = t"
| "join sep (t # ts) = t @ sep # join sep ts"

lemma tok_loop_ne: "tok_loop mx sep n cur \<noteq> []"
  by (subst tok_loop.simps) simp

lemma split_at_sep: "sep \<in> set cur \<Longrightarrow>
    takeWhile (\<lambda>c. c \<noteq> sep) cur @ sep # tl (dropWhile (\<lambda>c. c \<noteq> sep) cur) = cur"
  by (induction cur) auto

lemma tok_loop_spec:
  "join sep (tok_loop mx sep n cur) = cur \<and>
   int (length (tok_loop mx sep n cur)) \<le> max 1 (mx - n + 1) \<and>
   (\<forall>t\<in>set (butlast (tok_loop mx sep n cur)). sep \<notin> set t) \<and>
   (int (length (tok_loop mx sep n cur)) < mx - n + 1 \<longrightarrow> sep \<notin> set (last (tok_loop mx sep n cur)))"
proof (induction mx sep n cur rule: tok_loop.induct)
  case (1 mx sep n cur)
  show ?case
  proof (cases "n < mx \<and> cur \<noteq> [] \<and> sep \<in> set cur")
    case True
    let ?h = "takeWhile (\<lambda>c. c \<noteq> sep) cur" and ?r = "tl (dropWhile (\<lambda>c. c \<noteq> sep) cur)"
    let ?ts = "tok_loop mx sep (n + 1) ?r"
    have eq: "tok_loop mx sep n cur = ?h # ?ts" using True by (subst tok_loop.simps) simp
    obtain u us where us: "?ts = u # us" using tok_loop_ne by (cases ?ts) auto
    have j: "join sep (?h # ?ts) = ?h @ sep # join sep ?ts" by (simp add: us)
    have "sep \<notin> set ?h" by (auto dest: set_takeWhileD)
    then show ?thesis
      using 1 [OF True] True split_at_sep [of sep cur]
      by (auto simp: eq j simp del: join.simps)
  next
    case False
    then show ?thesis by (subst (1 2 3 4 5) tok_loop.simps) auto
  qed
qed

lemma has_str_loop_spec:
  "(has_str_loop str i ts = -1 \<and> str \<notin> set ts) \<or>
   (\<exists>j<length ts. has_str_loop str i ts = i + int j \<and> ts ! j = str \<and> (\<forall>k<j. ts ! k \<noteq> str))"
proof (induction ts arbitrary: i)
  case (Cons t ts)
  show ?case
  proof (cases "t = str")
    case True
    then show ?thesis by (intro disjI2 exI [of _ 0]) simp
  next
    case False
    from Cons [of "i + 1"] show ?thesis
    proof
      assume "\<exists>j<length ts. has_str_loop str (i + 1) ts = i + 1 + int j \<and> ts ! j = str \<and> (\<forall>k<j. ts ! k \<noteq> str)"
      then obtain j where j: "j < length ts" "has_str_loop str (i + 1) ts = i + 1 + int j"
        "ts ! j = str" "\<forall>k<j. ts ! k \<noteq> str" by blast
      have "\<forall>k<Suc j. (t # ts) ! k \<noteq> str" using False j(4) by (auto simp: nth_Cons split: nat.splits)
      with False j show ?thesis by (intro disjI2 exI [of _ "Suc j"]) simp
    qed (use False in simp)
  qed
qed simp

lemma trim_end_fix: "trim_end s = s \<longleftrightarrow> \<not> (1 < length s \<and> isspace (last s))"
proof
  have len: "length (trim_end s) \<le> length s" for s
    by (induction s rule: trim_end.induct) (subst trim_end.simps, auto split: if_splits)
  show "trim_end s = s \<Longrightarrow> \<not> (1 < length s \<and> isspace (last s))"
    using len [of "butlast s"] by (subst (asm) trim_end.simps) (auto split: if_splits)
qed (subst trim_end.simps, auto)

lemma trim_end_trimmed: "\<not> (1 < length (trim_end s) \<and> isspace (last (trim_end s)))"
  by (induction s rule: trim_end.induct) (metis trim_end.simps)

lemma trim_end_prefix: "\<exists>w. s = trim_end s @ w"
proof (induction s rule: trim_end.induct)
  case (1 s)
  show ?case
  proof (cases "1 < length s \<and> isspace (last s)")
    case True
    then obtain w where "butlast s = trim_end (butlast s) @ w" using 1 by blast
    then have "s = trim_end (butlast s) @ (w @ [last s])"
      using True by (metis append.assoc append_butlast_last_id list.size(3) not_less_zero)
    moreover have "trim_end s = trim_end (butlast s)"
      using True by (subst trim_end.simps) simp
    ultimately show ?thesis by metis
  next
    case False
    then have "trim_end s = s" by (simp only: trim_end_fix) simp
    then show ?thesis by simp
  qed
qed

lemma trim_end_eq_Nil [simp]: "trim_end s = [] \<longleftrightarrow> s = []"
proof (induction s rule: trim_end.induct)
  case (1 s)
  have "butlast s \<noteq> []" if "1 < length s" using that by (cases s; cases "tl s") auto
  with 1 show ?case
    by (cases "1 < length s \<and> isspace (last s)") (auto simp: trim_end.simps [of s] simp del: One_nat_def)
qed

lemma hd_trim_end: "s \<noteq> [] \<Longrightarrow> hd (trim_end s) = hd s"
  by (metis hd_append2 trim_end_eq_Nil trim_end_prefix)

section \<open>Properties of the helpers\<close>

text \<open>
  \<^verbatim>\<open>uta_tokenise\<close> ends and splits without loss: the tokens joined with the separator are the
  buffer, there are between 1 and \<open>max\<close> of them, no token but the last contains the separator,
  and the last contains it only when the limit was reached.
\<close>

theorem tokenise_roundtrip:
  assumes "b \<noteq> []" and "1 \<le> mx" and "ts = uta_tokenise (Some b) mx sep"
  shows "join sep ts = b \<and> 1 \<le> length ts \<and> int (length ts) \<le> mx \<and>
    (\<forall>t\<in>set (butlast ts). sep \<notin> set t) \<and> (int (length ts) < mx \<longrightarrow> sep \<notin> set (last ts))"
proof -
  have ts: "ts = tok_loop mx sep 1 b" using assms by (simp add: uta_tokenise_def)
  have "1 \<le> length ts" using tok_loop_ne [of mx sep 1 b] by (simp add: ts Suc_le_eq)
  with tok_loop_spec [of sep mx 1 b] assms(2) show ?thesis by (simp add: ts)
qed

theorem tokenise_roundtrip_witness:
  "join CHR '','' (uta_tokenise (Some ''a,b,,c'') 3 CHR '','') = ''a,b,,c'' \<and>
   uta_tokenise (Some ''a,b,,c'') 3 CHR '','' = [''a'', ''b'', '',c'']"
proof -
  have "join CHR '','' (uta_tokenise (Some ''a,b,,c'') 3 CHR '','') = ''a,b,,c''"
    using tokenise_roundtrip [of "''a,b,,c''" 3 _ "CHR '',''"] by simp
  then show ?thesis by (simp add: uta_tokenise_def tok_loop.simps)
qed

text \<open>
  \<^verbatim>\<open>uta_has_str\<close> finds a token exactly: with memory available it returns the index of the
  first token of the buffer that equals the string, and -1 exactly when no token does.
\<close>

theorem has_str_first_index:
  assumes "2 \<le> mx" and "\<forall>m. ok m" and "ts = uta_tokenise (Some buf) mx sep"
    and "r = uta_has_str ok buf str sep mx"
  shows "(r = -1 \<longleftrightarrow> str \<notin> set ts) \<and>
    (r \<noteq> -1 \<longrightarrow> 0 \<le> r \<and> nat r < length ts \<and> ts ! nat r = str \<and> (\<forall>k<nat r. ts ! k \<noteq> str))"
proof -
  have r: "r = has_str_loop str 0 ts" using assms by (simp add: uta_has_str_def)
  from has_str_loop_spec [of str 0 ts] show ?thesis unfolding r
  proof
    assume "\<exists>j<length ts. has_str_loop str 0 ts = 0 + int j \<and> ts ! j = str \<and> (\<forall>k<j. ts ! k \<noteq> str)"
    then obtain j where j: "j < length ts" "has_str_loop str 0 ts = int j" "ts ! j = str"
      "\<forall>k<j. ts ! k \<noteq> str" by auto
    then have "str \<in> set ts" by (metis nth_mem)
    with j show "(has_str_loop str 0 ts = -1) = (str \<notin> set ts) \<and> (has_str_loop str 0 ts \<noteq> -1 \<longrightarrow>
        0 \<le> has_str_loop str 0 ts \<and> nat (has_str_loop str 0 ts) < length ts \<and>
        ts ! nat (has_str_loop str 0 ts) = str \<and> (\<forall>k<nat (has_str_loop str 0 ts). ts ! k \<noteq> str))"
      by simp
  qed simp
qed

theorem has_str_first_index_witness:
  "uta_has_str (\<lambda>_. True) ''1,host:99,me:45'' ''me:45'' CHR '','' 127 \<noteq> -1"
proof -
  have "uta_tokenise (Some ''1,host:99,me:45'') 127 CHR '','' = [''1'', ''host:99'', ''me:45'']"
    by (simp add: uta_tokenise_def tok_loop.simps)
  then show ?thesis
    using has_str_first_index [of 127 "\<lambda>_. True" _ "''1,host:99,me:45''" "CHR '',''" _ "''me:45''", OF _ _ refl refl]
    by simp
qed

text \<open>
  \<^verbatim>\<open>clip\<close> is idempotent and leaves no leading white space; unless the text is a comment line
  it leaves no trailing white space either.
\<close>

theorem clip_normalises:
  "clip (clip s) = clip s \<and> (clip s \<noteq> [] \<longrightarrow> \<not> isspace (hd (clip s))) \<and>
   (clip s \<noteq> [] \<and> hd (clip s) \<noteq> CHR ''#'' \<longrightarrow> \<not> isspace (last (clip s)))"
proof -
  define b where "b = dropWhile isspace s"
  define pre where "pre = takeWhile (\<lambda>c. c \<noteq> CHR ''#'') b"
  have hb: "b \<noteq> [] \<Longrightarrow> \<not> isspace (hd b)" by (simp add: b_def hd_dropWhile)
  have drop: "dropWhile isspace c = c" if "c \<noteq> [] \<Longrightarrow> \<not> isspace (hd c)" for c
    using that by (cases c) auto
  have fin: "\<not> isspace (last (trim_end c))" if cn: "c \<noteq> []" "\<not> isspace (hd c)" for c
  proof (cases "1 < length (trim_end c)")
    case False
    then obtain x where "trim_end c = [x]" using cn by (cases "trim_end c") auto
    with hd_trim_end [OF cn(1)] cn(2) show ?thesis by simp
  qed (use trim_end_trimmed [of c] in simp)
  have tt: "trim_end (trim_end c) = trim_end c" for c
    by (rule iffD2 [OF trim_end_fix trim_end_trimmed])
  consider (none) "CHR ''#'' \<notin> set b" | (lead) "CHR ''#'' \<in> set b" "pre = []"
    | (cut) "CHR ''#'' \<in> set b" "pre \<noteq> []" "isspace (last pre)"
    | (keep) "CHR ''#'' \<in> set b" "pre \<noteq> []" "\<not> isspace (last pre)" by blast
  then show ?thesis
  proof cases
    case none
    then have c: "clip s = trim_end b" by (simp add: clip_def b_def)
    have h: "b \<noteq> [] \<Longrightarrow> \<not> isspace (hd (trim_end b))" using hb hd_trim_end by simp
    obtain w where w: "b = trim_end b @ w" using trim_end_prefix by blast
    have "CHR ''#'' \<notin> set (trim_end b)" using none w by (metis Un_iff set_append)
    moreover have "dropWhile isspace (trim_end b) = trim_end b" by (rule drop) (use h in simp)
    ultimately have "clip (trim_end b) = trim_end b" by (simp add: clip_def Let_def tt)
    with c h hb fin show ?thesis by auto
  next
    case lead
    then have c: "clip s = b" by (simp add: clip_def b_def pre_def)
    have "hd b = CHR ''#''" "b \<noteq> []" using lead by (cases b; auto simp: pre_def split: if_splits)+
    moreover have "clip b = b" using lead hb by (simp add: clip_def drop) (simp add: pre_def)
    ultimately show ?thesis using c hb by simp
  next
    case cut
    then have c: "clip s = trim_end pre" by (simp add: clip_def b_def [symmetric] pre_def [symmetric])
    have hp: "hd pre = hd b" using cut(2) by (cases b) (auto simp: pre_def split: if_splits)
    have bn: "b \<noteq> []" using cut by auto
    have h: "\<not> isspace (hd (trim_end pre))" using hb [OF bn] hp hd_trim_end [OF cut(2)] by simp
    obtain w where w: "pre = trim_end pre @ w" using trim_end_prefix by blast
    have "CHR ''#'' \<notin> set pre" by (auto simp: pre_def dest: set_takeWhileD)
    then have "CHR ''#'' \<notin> set (trim_end pre)" using w by (metis Un_iff set_append)
    then have "clip (trim_end pre) = trim_end pre" using h by (simp add: clip_def drop tt)
    with c h fin [OF cut(2)] hb [OF bn] hp show ?thesis by simp
  next
    case keep
    then have c: "clip s = trim_end b" by (simp add: clip_def b_def [symmetric] pre_def [symmetric])
    have bn: "b \<noteq> []" using keep by auto
    have h: "\<not> isspace (hd (trim_end b))" using hb [OF bn] hd_trim_end [OF bn] by simp
    obtain w where w: "b = trim_end b @ w" using trim_end_prefix by blast
    have "clip (trim_end b) = trim_end b"
    proof (cases "CHR ''#'' \<in> set (trim_end b)")
      case True
      then have "takeWhile (\<lambda>c. c \<noteq> CHR ''#'') (trim_end b) = pre"
        unfolding pre_def by (subst (2) w) (simp add: takeWhile_append1)
      with True keep h show ?thesis by (simp add: clip_def drop tt)
    qed (use h in \<open>simp add: clip_def drop tt\<close>)
    with c h fin [OF bn hb [OF bn]] show ?thesis by simp
  qed
qed

theorem clip_normalises_witness:
  "clip '' ab #c'' = ''ab'' \<and> clip (clip '' ab #c'') = clip '' ab #c'' \<and> \<not> isspace (last ''ab'')"
proof -
  have "clip '' ab #c'' = ''ab''" by code_simp
  with clip_normalises [of "'' ab #c''"] show ?thesis by simp
qed

lemma zt_copy_string: "0 \<notin> set s \<Longrightarrow> zt_copy (s @ 0 # rest) n = Some (take n s)"
proof (induction s arbitrary: n)
  case (Cons b s)
  then show ?case by (cases n) auto
qed simp

lemma zt_copy_field: "n < length bs \<Longrightarrow> zt_copy bs n = Some (take n (cstr bs))"
proof (induction bs arbitrary: n)
  case (Cons b bs)
  then show ?case by (cases n) (auto simp: cstr_def)
qed simp

text \<open>
  \<^verbatim>\<open>zt_buf_fill\<close> copies a C string into a field of \<open>len\<close> bytes without leaving the field: it
  returns the number of bytes copied, the field holds a nil terminated string that is the
  source cut to \<open>len - 1\<close> bytes, and no byte outside of the field changes.
\<close>

theorem zt_buf_fill_terminated:
  assumes "0 \<notin> set s" and "1 \<le> len" and "off + nat len \<le> length m"
  shows "\<exists>m'. zt_buf_fill (Some m) off (Some (s @ 0 # rest)) len
      = Some (min (int (length s)) (len - 1), Some m') \<and> length m' = length m \<and>
    take off m' = take off m \<and> drop (off + nat len) m' = drop (off + nat len) m \<and>
    cstr (drop off m') = take (nat (len - 1)) s"
proof -
  let ?n = "nat (len - 1)" and ?c = "take (nat (len - 1)) s @ [0]"
  have l: "length ?c \<le> nat len" using assms(2) by (simp add: min_def) linarith
  then obtain m' where w: "mem_wr m off ?c = Some m'"
    using mem_wr_ok [of off ?c m] assms(3) by auto
  then have m': "m' = take off m @ ?c @ drop (off + length ?c) m" and off: "off + length ?c \<le> length m"
    by (auto simp: mem_simps)
  have n: "int (length (take ?n s)) = min (int (length s)) (len - 1)"
    using assms(2) by (auto simp: min_def)
  have t: "take off m' = take off m" using mem_wr_take [OF w] by simp
  have d: "drop (off + nat len) m' = drop (off + nat len) m" using mem_wr_drop [OF w] l by simp
  have "drop off m' = take ?n s @ 0 # drop (off + length ?c) m" using off by (simp add: m')
  moreover have "0 \<notin> set (take ?n s)" using assms(1) by (auto dest: in_set_takeD)
  ultimately have "cstr (drop off m') = take ?n s" by (simp add: cstr_append_nil)
  with w t d n mem_wr_length [OF w] zt_copy_string [OF assms(1)] show ?thesis
    by (simp add: zt_buf_fill_def)
qed

theorem zt_buf_fill_terminated_witness:
  "\<exists>m'. zt_buf_fill (Some [9,9,9,9,9]) 1 (Some ([65,66,67,68] @ 0 # [])) 3 = Some (2, Some m') \<and>
     cstr (drop 1 m') = [65, 66]"
  using zt_buf_fill_terminated [of "[65,66,67,68]" 3 1 "[9,9,9,9,9]" "[]"] by auto

end
