(* ===== verification/Mbuf.thy ===== *)
theory Mbuf
  imports Ring Tools
begin

text \<open>
  Message buffers: the RMR header of \<^verbatim>\<open>rmr_agnostic.h\<close>, the message structure of \<^verbatim>\<open>rmr.h\<close>, and
  the allocation, reference, clone and reallocation functions of
  \<^verbatim>\<open>src/src/rmr/si/src/sr_si_static.c\<close> with the wrappers of \<^verbatim>\<open>rmr_si.c\<close>.

  The transport buffer of a message is a list of bytes, exactly as long as the block that was
  allocated; the header, payload and transaction-id pointers of the message are offsets into
  it.  A read or write outside of the block is a fault (\<open>None\<close>).  The buffer starts with a 50
  byte transport header (the message length), then the RMR header (280 bytes), the trace data,
  the d1 and d2 data and the payload.
\<close>

section \<open>The RMR header\<close>

text \<open>Offsets of the fields of \<^verbatim>\<open>uta_mhdr_t\<close> on a 64-bit target.\<close>

abbreviation (input) TP_HDR_LEN :: nat where "TP_HDR_LEN \<equiv> 50"
abbreviation (input) SIZEOF_MHDR :: nat where "SIZEOF_MHDR \<equiv> 280"
abbreviation (input) H_MTYPE :: nat where "H_MTYPE \<equiv> 0"
abbreviation (input) H_PLEN :: nat where "H_PLEN \<equiv> 4"
abbreviation (input) H_VER :: nat where "H_VER \<equiv> 8"
abbreviation (input) H_XID :: nat where "H_XID \<equiv> 12"
abbreviation (input) H_SRC :: nat where "H_SRC \<equiv> 76"
abbreviation (input) H_MEID :: nat where "H_MEID \<equiv> 140"
abbreviation (input) H_FLAGS :: nat where "H_FLAGS \<equiv> 192"
abbreviation (input) H_LEN0 :: nat where "H_LEN0 \<equiv> 196"
abbreviation (input) H_LEN1 :: nat where "H_LEN1 \<equiv> 200"
abbreviation (input) H_LEN2 :: nat where "H_LEN2 \<equiv> 204"
abbreviation (input) H_LEN3 :: nat where "H_LEN3 \<equiv> 208"
abbreviation (input) H_SUBID :: nat where "H_SUBID \<equiv> 212"
abbreviation (input) H_SRCIP :: nat where "H_SRCIP \<equiv> 216"

definition get32 :: "bytes \<Rightarrow> nat \<Rightarrow> u32 option" where
  "get32 b off = map_option get_be32 (mem_rd b off 4)"

definition set32 :: "bytes \<Rightarrow> nat \<Rightarrow> u32 \<Rightarrow> bytes option" where
  "set32 b off w = mem_wr b off (put_be32 w)"

text \<open>The length macros.  The sums of lengths are \<^verbatim>\<open>uint32_t\<close> and wrap; the addresses are
  pointers, so that each length is added to them without wrapping.\<close>

definition RMR_HDR_LEN :: "bytes \<Rightarrow> nat \<Rightarrow> u32 option" where
  "RMR_HDR_LEN b h = do {
     l0 \<leftarrow> get32 b (h + H_LEN0); l1 \<leftarrow> get32 b (h + H_LEN1);
     l2 \<leftarrow> get32 b (h + H_LEN2); l3 \<leftarrow> get32 b (h + H_LEN3);
     Some (l0 + l1 + l2 + l3) }"

definition RMR_TR_LEN :: "bytes \<Rightarrow> nat \<Rightarrow> u32 option" where
  "RMR_TR_LEN b h = get32 b (h + H_LEN1)"

definition RMR_D1_LEN :: "bytes \<Rightarrow> nat \<Rightarrow> u32 option" where
  "RMR_D1_LEN b h = get32 b (h + H_LEN2)"

definition RMR_D2_LEN :: "bytes \<Rightarrow> nat \<Rightarrow> u32 option" where
  "RMR_D2_LEN b h = get32 b (h + H_LEN3)"

definition TRACE_ADDR :: "bytes \<Rightarrow> nat \<Rightarrow> nat option" where
  "TRACE_ADDR b h = do { l0 \<leftarrow> get32 b (h + H_LEN0); Some (h + unat l0) }"

definition DATA1_ADDR :: "bytes \<Rightarrow> nat \<Rightarrow> nat option" where
  "DATA1_ADDR b h = do {
     l0 \<leftarrow> get32 b (h + H_LEN0); l1 \<leftarrow> get32 b (h + H_LEN1); Some (h + unat l0 + unat l1) }"

definition DATA2_ADDR :: "bytes \<Rightarrow> nat \<Rightarrow> nat option" where
  "DATA2_ADDR b h = do {
     l0 \<leftarrow> get32 b (h + H_LEN0); l1 \<leftarrow> get32 b (h + H_LEN1); l2 \<leftarrow> get32 b (h + H_LEN2);
     Some (h + unat l0 + unat l1 + unat l2) }"

definition PAYLOAD_ADDR :: "bytes \<Rightarrow> nat \<Rightarrow> nat option" where
  "PAYLOAD_ADDR b h = do {
     l0 \<leftarrow> get32 b (h + H_LEN0); l1 \<leftarrow> get32 b (h + H_LEN1);
     l2 \<leftarrow> get32 b (h + H_LEN2); l3 \<leftarrow> get32 b (h + H_LEN3);
     Some (h + unat l0 + unat l1 + unat l2 + unat l3) }"

definition SET_HDR_LEN :: "bytes \<Rightarrow> nat \<Rightarrow> bytes option" where
  "SET_HDR_LEN b h = set32 b (h + H_LEN0) (word_of_int (int SIZEOF_MHDR))"

definition SET_HDR_TR_LEN :: "bytes \<Rightarrow> nat \<Rightarrow> int \<Rightarrow> bytes option" where
  "SET_HDR_TR_LEN b h l = set32 b (h + H_LEN1) (word_of_int l)"

definition SET_HDR_D1_LEN :: "bytes \<Rightarrow> nat \<Rightarrow> int \<Rightarrow> bytes option" where
  "SET_HDR_D1_LEN b h l = set32 b (h + H_LEN2) (word_of_int l)"

definition HDR_VERSION :: "bytes \<Rightarrow> nat \<Rightarrow> u32 option" where
  "HDR_VERSION b h = get32 b (h + H_VER)"

section \<open>The transport length field\<close>

text \<open>\<^verbatim>\<open>TP_SZFIELD_LEN\<close> is 9 and the marker is a dollar sign.\<close>

definition insert_mlen :: "u32 \<Rightarrow> bytes \<Rightarrow> bytes option" where
  "insert_mlen len buf = do {
     b1 \<leftarrow> mem_wr buf 0 (put_le32 len);
     b2 \<leftarrow> mem_wr b1 4 (put_be32 len);
     b3 \<leftarrow> mem_wr b2 9 (replicate 4 0);
     mem_wr b3 8 [36] }"

definition extract_mlen :: "bytes \<Rightarrow> u32 option" where
  "extract_mlen buf = do {
     mark \<leftarrow> mem_rd buf 8 1;
     blen \<leftarrow> mem_rd buf 0 4;
     (if mark = [36] then do {
        nlen \<leftarrow> mem_rd buf 4 4;
        (let osize = get_le32 blen; sz = get_be32 nlen
         in Some (if osize \<noteq> sz then osize else sz)) }
      else Some (get_le32 blen)) }"

section \<open>Messages and the part of the context they need\<close>

record mbuf =
  m_state :: int
  m_mtype :: int
  m_len :: int
  m_payload :: "nat option"
  m_xaction :: "nat option"
  m_sub_id :: int
  m_tp_state :: errno
  m_tp_buf :: "bytes option"
  m_header :: "nat option"
  m_flags :: u32
  m_alloc_len :: int
  m_ring :: bool
  m_rts_fd :: int
  m_cookie :: int

definition zero_mbuf :: mbuf where
  "zero_mbuf = \<lparr>m_state = 0, m_mtype = 0, m_len = 0, m_payload = None, m_xaction = None,
     m_sub_id = 0, m_tp_state = E0, m_tp_buf = None, m_header = None, m_flags = 0,
     m_alloc_len = 0, m_ring = False, m_rts_fd = 0, m_cookie = 0\<rparr>"

abbreviation (input) MFL_ZEROCOPY :: u32 where "MFL_ZEROCOPY \<equiv> 1"
abbreviation (input) MFL_NOALLOC :: u32 where "MFL_NOALLOC \<equiv> 2"
abbreviation (input) MFL_ADDSRC :: u32 where "MFL_ADDSRC \<equiv> 4"
abbreviation (input) MFL_RAW :: u32 where "MFL_RAW \<equiv> 8"
abbreviation (input) MFL_HUGE :: u32 where "MFL_HUGE \<equiv> 16"
abbreviation (input) HFL_HAS_TRACE :: u32 where "HFL_HAS_TRACE \<equiv> 1"
abbreviation (input) HFL_SUBID :: u32 where "HFL_SUBID \<equiv> 2"
abbreviation (input) HFL_CALL_MSG :: u32 where "HFL_CALL_MSG \<equiv> 4"

record msg_ctx =
  my_name :: string
  my_ip :: string
  max_plen :: int
  trace_data_len :: int
  d1_len :: int
  d2_len :: int
  zcb_mring :: "mbuf ring"

section \<open>Allocation\<close>

text \<open>The end of \<^verbatim>\<open>alloc_zcmsg\<close>: the transport buffer is allocated when the message has none, the
  length field and the header are initialised and the message fields are set.\<close>

definition zc_finish :: "mallocs \<Rightarrow> (nat \<Rightarrow> byte) \<Rightarrow> 'a msg_ctx_scheme \<Rightarrow> mbuf \<Rightarrow> int \<Rightarrow> int \<Rightarrow> mbuf option" where
  "zc_finish ok junk ctx m mlen state = do {
     b0 \<leftarrow> (if m_alloc_len m = 0
            then (if ok M_tpbuf then Some (malloc_bytes junk (nat mlen)) else None)
            else m_tp_buf m);
     b1 \<leftarrow> insert_mlen (word_of_int mlen) b0;
     b2 \<leftarrow> mem_wr b1 TP_HDR_LEN (replicate SIZEOF_MHDR 0);
     b3 \<leftarrow> set32 b2 (TP_HDR_LEN + H_VER) (word_of_int RMR_MSG_VER);
     b4 \<leftarrow> set32 b3 (TP_HDR_LEN + H_SUBID) (word_of_int UNSET_SUBID);
     b5 \<leftarrow> SET_HDR_LEN b4 TP_HDR_LEN;
     b6 \<leftarrow> SET_HDR_TR_LEN b5 TP_HDR_LEN (trace_data_len ctx);
     b7 \<leftarrow> SET_HDR_D1_LEN b6 TP_HDR_LEN (d1_len ctx);
     pay \<leftarrow> PAYLOAD_ADDR b7 TP_HDR_LEN;
     r8 \<leftarrow> zt_buf_fill (Some b7) (TP_HDR_LEN + H_SRC) (Some (str_bytes (my_name ctx) @ [0])) (int RMR_MAX_SRC);
     r9 \<leftarrow> zt_buf_fill (snd r8) (TP_HDR_LEN + H_SRCIP) (Some (str_bytes (my_ip ctx) @ [0])) (int RMR_MAX_SRC);
     Some (m\<lparr>m_rts_fd := -1, m_tp_buf := snd r9, m_header := Some TP_HDR_LEN, m_len := 0,
            m_cookie := 0x4942, m_alloc_len := sint (word_of_int mlen :: u32), m_sub_id := UNSET_SUBID,
            m_mtype := UNSET_MSGTYPE, m_payload := Some pay, m_xaction := Some (TP_HDR_LEN + H_XID),
            m_state := state, m_flags := MFL_ZEROCOPY, m_ring := True\<rparr>) }"

definition zc_mlen :: "'a msg_ctx_scheme \<Rightarrow> int \<Rightarrow> int \<Rightarrow> int" where
  "zc_mlen ctx sz trlo =
     (let tr_len = (if trlo > 0 then trlo else trace_data_len ctx);
          mlen = int SIZEOF_MHDR + tr_len + d1_len ctx + d2_len ctx;
          mlen = mlen + (if sz > 0 then sz else max_plen ctx)
      in mlen + int TP_HDR_LEN)"

text \<open>The lengths of the context are not negative, so that the \<^verbatim>\<open>size_t\<close> sum is the \<open>int\<close> sum; the
  comparison with the allocated length of the message converts that \<^verbatim>\<open>int\<close> to \<^verbatim>\<open>size_t\<close>.\<close>

definition alloc_zcmsg :: "mallocs \<Rightarrow> (nat \<Rightarrow> byte) \<Rightarrow> bool \<Rightarrow> 'a msg_ctx_scheme \<Rightarrow> mbuf option \<Rightarrow> int \<Rightarrow> int \<Rightarrow> int
    \<Rightarrow> (mbuf option \<times> 'a msg_ctx_scheme) option" where
  "alloc_zcmsg ok junk tk ctx msg sz state trlo =
     (let mlen = zc_mlen ctx sz trlo;
          (m0, ctx1) = (case msg of
             Some m \<Rightarrow> (Some m, ctx)
           | None \<Rightarrow> let (x, r) = uta_ring_extract tk tk (zcb_mring ctx) in (x, ctx\<lparr>zcb_mring := r\<rparr>))
      in case m0 of
           None \<Rightarrow>
             if \<not> ok M_mbuf then Some (None, ctx1)
             else do { m \<leftarrow> zc_finish ok junk ctx1 zero_mbuf mlen state; Some (Some m, ctx1) }
         | Some m \<Rightarrow>
             if mlen > m_alloc_len m mod 2 ^ 64 then do {
               m \<leftarrow> zc_finish ok junk ctx1 (m\<lparr>m_alloc_len := 0, m_tp_buf := None\<rparr>) mlen state;
               Some (Some m, ctx1) }
             else do {
               m \<leftarrow> zc_finish ok junk ctx1 m (m_alloc_len m) state;
               Some (Some m, ctx1) })"

definition alloc_mbuf :: "mallocs \<Rightarrow> bool \<Rightarrow> 'a msg_ctx_scheme \<Rightarrow> int \<Rightarrow> mbuf option \<times> 'a msg_ctx_scheme" where
  "alloc_mbuf ok tk ctx state =
     (let (x, r) = uta_ring_extract tk tk (zcb_mring ctx);
          ctx1 = ctx\<lparr>zcb_mring := r\<rparr>;
          nm = zero_mbuf\<lparr>m_cookie := 0x4942, m_sub_id := UNSET_SUBID, m_mtype := UNSET_MSGTYPE,
                 m_len := -1, m_state := state, m_ring := True\<rparr>
      in if x = None \<and> \<not> ok M_mbuf then (None, ctx1) else (Some nm, ctx1))"

section \<open>Referencing a received buffer\<close>

definition ref_tpbuf :: "mbuf \<Rightarrow> int \<Rightarrow> mbuf option" where
  "ref_tpbuf m alen = do {
     b \<leftarrow> m_tp_buf m;
     ver \<leftarrow> HDR_VERSION b TP_HDR_LEN;
     plen \<leftarrow> get32 b (TP_HDR_LEN + H_PLEN);
     pay \<leftarrow> PAYLOAD_ADDR b TP_HDR_LEN;
     mt \<leftarrow> get32 b (TP_HDR_LEN + H_MTYPE);
     sid \<leftarrow> get32 b (TP_HDR_LEN + H_SUBID);
     hl \<leftarrow> RMR_HDR_LEN b TP_HDR_LEN;
     (let hlen = sint hl;
          alen' = sint (word_of_int alen :: u32);
          m1 = m\<lparr>m_header := Some TP_HDR_LEN, m_len := sint plen, m_alloc_len := alen',
                 m_payload := Some pay, m_xaction := Some (TP_HDR_LEN + H_XID),
                 m_flags := m_flags m OR MFL_ZEROCOPY, m_mtype := sint mt, m_sub_id := sint sid\<rparr>
      in Some (if m_len m1 > alen' - hlen
               then m1\<lparr>m_state := RMR_ERR_TRUNC, m_len := alen' - hlen\<rparr>
               else m1\<lparr>m_state := RMR_OK\<rparr>)) }"

section \<open>Clone and reallocation\<close>

definition clone_msg :: "mallocs \<Rightarrow> (nat \<Rightarrow> byte) \<Rightarrow> mbuf \<Rightarrow> mbuf option" where
  "clone_msg ok junk om = do {
     _ \<leftarrow> (if ok M_mbuf \<and> ok M_tpbuf then Some () else None);
     ob \<leftarrow> m_tp_buf om;
     oh \<leftarrow> m_header om;
     (let b0 = malloc_bytes junk (nat (m_alloc_len om + int TP_HDR_LEN)) in do {
     ver \<leftarrow> HDR_VERSION ob oh;
     hl \<leftarrow> RMR_HDR_LEN ob oh; tl \<leftarrow> RMR_TR_LEN ob oh; dl1 \<leftarrow> RMR_D1_LEN ob oh; dl2 \<leftarrow> RMR_D2_LEN ob oh;
     hbytes \<leftarrow> mem_rd ob oh (unat (hl + tl + dl1 + dl2));
     b1 \<leftarrow> mem_wr b0 TP_HDR_LEN hbytes;
     pay \<leftarrow> PAYLOAD_ADDR b1 TP_HDR_LEN;
     opay \<leftarrow> m_payload om;
     pbytes \<leftarrow> (if m_len om < 0 then None else mem_rd ob opay (nat (m_len om)));
     b2 \<leftarrow> mem_wr b1 pay pbytes;
     Some (zero_mbuf\<lparr>m_tp_buf := Some b2, m_header := Some TP_HDR_LEN, m_payload := Some pay,
             m_mtype := m_mtype om, m_sub_id := m_sub_id om, m_len := m_len om,
             m_alloc_len := m_alloc_len om, m_xaction := Some (TP_HDR_LEN + H_XID),
             m_state := m_state om, m_flags := m_flags om OR MFL_ZEROCOPY\<rparr>) }) }"

text \<open>The guarded copies of the d1 and d2 data in \<^verbatim>\<open>realloc_msg\<close>: the addresses are computed only
  when there is something to copy.\<close>

definition copy_area :: "bytes \<Rightarrow> nat option \<Rightarrow> bytes \<Rightarrow> nat option \<Rightarrow> u32 \<Rightarrow> bytes option" where
  "copy_area ob osrc b odst n =
     (if n \<noteq> 0 then do { src \<leftarrow> osrc; dst \<leftarrow> odst; bs \<leftarrow> mem_rd ob src (unat n); mem_wr b dst bs }
      else Some b)"

definition realloc_msg :: "mallocs \<Rightarrow> (nat \<Rightarrow> byte) \<Rightarrow> mbuf \<Rightarrow> int \<Rightarrow> mbuf option" where
  "realloc_msg ok junk om tr_len = do {
     _ \<leftarrow> (if ok M_mbuf \<and> ok M_tpbuf then Some () else None);
     ob \<leftarrow> m_tp_buf om;
     oh \<leftarrow> m_header om;
     otl \<leftarrow> RMR_TR_LEN ob oh;
     (let mlen = m_alloc_len om + (tr_len - sint otl);
          tpb_len = mlen + int TP_HDR_LEN;
          b0 = malloc_bytes junk (nat tpb_len)
      in do {
     b1 \<leftarrow> insert_mlen (word_of_int tpb_len) b0;
     ver \<leftarrow> HDR_VERSION ob oh;
     hbytes \<leftarrow> mem_rd ob oh SIZEOF_MHDR;
     b2 \<leftarrow> mem_wr b1 TP_HDR_LEN hbytes;
     b3 \<leftarrow> SET_HDR_TR_LEN b2 TP_HDR_LEN tr_len;
     dl1 \<leftarrow> RMR_D1_LEN b3 TP_HDR_LEN;
     b4 \<leftarrow> copy_area ob (DATA1_ADDR ob oh) b3 (DATA1_ADDR b3 TP_HDR_LEN) dl1;
     dl2 \<leftarrow> RMR_D2_LEN b4 TP_HDR_LEN;
     b5 \<leftarrow> copy_area ob (DATA2_ADDR ob oh) b4 (DATA2_ADDR b4 TP_HDR_LEN) dl2;
     pay \<leftarrow> PAYLOAD_ADDR b5 TP_HDR_LEN;
     opay \<leftarrow> m_payload om;
     pbytes \<leftarrow> (if m_len om < 0 then None else mem_rd ob opay (nat (m_len om)));
     b6 \<leftarrow> mem_wr b5 pay pbytes;
     Some (zero_mbuf\<lparr>m_tp_buf := Some b6, m_header := Some TP_HDR_LEN, m_payload := Some pay,
             m_mtype := m_mtype om, m_sub_id := m_sub_id om, m_len := m_len om,
             m_alloc_len := sint (word_of_int mlen :: u32), m_xaction := Some (TP_HDR_LEN + H_XID),
             m_state := m_state om, m_flags := m_flags om OR MFL_ZEROCOPY\<rparr>) }) }"

text \<open>The payload a buffer has room for: \<^verbatim>\<open>alloc_len - RMR_HDR_LEN - TP_HDR_LEN\<close>, computed in 32
  bits and returned as an \<^verbatim>\<open>int\<close>.\<close>

definition psize_of :: "int \<Rightarrow> u32 \<Rightarrow> int" where
  "psize_of alen hl = sint (word_of_int alen - hl - 50 :: u32)"

definition rmr_payload_size :: "mbuf option \<Rightarrow> (int \<times> errno) option" where
  "rmr_payload_size msg =
     (case msg of None \<Rightarrow> Some (-1, EINVAL)
      | Some m \<Rightarrow> (case m_header m of None \<Rightarrow> Some (-1, EINVAL)
        | Some h \<Rightarrow> do { b \<leftarrow> m_tp_buf m; hl \<leftarrow> RMR_HDR_LEN b h; Some (psize_of (m_alloc_len m) hl, E0) }))"

text \<open>The last part of \<^verbatim>\<open>realloc_payload\<close>: the new transport buffer is filled from the old one and
  referenced by the message \<open>nm0\<close>.\<close>

definition payload_move :: "(nat \<Rightarrow> byte) \<Rightarrow> mbuf \<Rightarrow> mbuf \<Rightarrow> bytes \<Rightarrow> nat \<Rightarrow> u32 \<Rightarrow> int \<Rightarrow> int \<Rightarrow> bool \<Rightarrow> mbuf option" where
  "payload_move junk om nm0 ob oh hl old_psize mlen copy = do {
     b1 \<leftarrow> SET_HDR_LEN (malloc_bytes junk (nat mlen)) TP_HDR_LEN;
     hb \<leftarrow> mem_rd ob oh (if copy then unat (word_of_int old_psize + hl) else unat hl);
     b2 \<leftarrow> mem_wr b1 TP_HDR_LEN hb;
     nm \<leftarrow> ref_tpbuf (nm0\<lparr>m_tp_buf := Some b2\<rparr>) mlen;
     Some (if copy then nm\<lparr>m_len := m_len om, m_mtype := m_mtype om, m_sub_id := m_sub_id om\<rparr>
           else nm\<lparr>m_mtype := -1, m_sub_id := -1, m_len := 0\<rparr>) }"

text \<open>The result of \<^verbatim>\<open>realloc_payload\<close> is the returned message and the state of the old one,
  which is left alone when cloning and is the returned message otherwise.\<close>

definition realloc_payload :: "mallocs \<Rightarrow> (nat \<Rightarrow> byte) \<Rightarrow> mbuf option \<Rightarrow> int \<Rightarrow> bool \<Rightarrow> bool
    \<Rightarrow> (mbuf option \<times> errno) option" where
  "realloc_payload ok junk omsg payload_len copy clone =
     (case omsg of None \<Rightarrow> Some (None, EINVAL)
      | Some om \<Rightarrow>
     if payload_len \<le> 0 then Some (None, EINVAL)
     else do {
       ob \<leftarrow> m_tp_buf om;
       oh \<leftarrow> m_header om;
       hl \<leftarrow> RMR_HDR_LEN ob oh;
       (let old_psize = psize_of (m_alloc_len om) hl;
            hdr_len = sint (hl + 50);
            mlen = hdr_len + (if payload_len > old_psize then payload_len else old_psize);
            nm0 = (if clone then zero_mbuf\<lparr>m_rts_fd := m_rts_fd om\<rparr> else om)
        in if \<not> clone \<and> payload_len \<le> old_psize then Some (Some om, E0)
           else if clone \<and> \<not> ok M_mbuf then Some (None, E0)
           else if \<not> ok M_tpbuf then Some (None, E0)
           else do { nm \<leftarrow> payload_move junk om nm0 ob oh hl old_psize mlen copy; Some (Some nm, E0) }) })"

definition rmr_realloc_payload :: "mallocs \<Rightarrow> (nat \<Rightarrow> byte) \<Rightarrow> mbuf option \<Rightarrow> int \<Rightarrow> bool \<Rightarrow> bool
    \<Rightarrow> (mbuf option \<times> errno) option" where
  "rmr_realloc_payload ok junk omsg new_len copy clone =
     (if omsg = None then Some (None, E0) else realloc_payload ok junk omsg new_len copy clone)"

definition rmr_alloc_msg :: "mallocs \<Rightarrow> (nat \<Rightarrow> byte) \<Rightarrow> bool \<Rightarrow> 'a msg_ctx_scheme option \<Rightarrow> int
    \<Rightarrow> (mbuf option \<times> 'a msg_ctx_scheme option) option" where
  "rmr_alloc_msg ok junk tk vctx sz =
     (case vctx of None \<Rightarrow> Some (None, None)
      | Some ctx \<Rightarrow> do { r \<leftarrow> alloc_zcmsg ok junk tk ctx None sz 0 (-1); Some (fst r, Some (snd r)) })"

definition rmr_realloc_msg :: "mallocs \<Rightarrow> (nat \<Rightarrow> byte) \<Rightarrow> mbuf \<Rightarrow> int \<Rightarrow> mbuf option" where
  "rmr_realloc_msg ok junk m new_tr_size = realloc_msg ok junk m new_tr_size"

section \<open>Reading and writing fields\<close>

text \<open>\<open>frame b b' lo hi\<close>: the buffers have one length and agree outside of \<open>[lo, hi)\<close>.\<close>

definition frame :: "bytes \<Rightarrow> bytes \<Rightarrow> nat \<Rightarrow> nat \<Rightarrow> bool" where
  "frame b b' lo hi \<longleftrightarrow> length b' = length b \<and>
     (\<forall>p n. p + n \<le> lo \<or> hi \<le> p \<longrightarrow> mem_rd b' p n = mem_rd b p n)"

lemma frame_length: "frame b b' lo hi \<Longrightarrow> length b' = length b"
  by (simp add: frame_def)

lemma frame_rd: "frame b b' lo hi \<Longrightarrow> p + n \<le> lo \<or> hi \<le> p \<Longrightarrow> mem_rd b' p n = mem_rd b p n"
  by (auto simp: frame_def)

lemma frame_get32: "frame b b' lo hi \<Longrightarrow> p + 4 \<le> lo \<or> hi \<le> p \<Longrightarrow> get32 b' p = get32 b p"
  unfolding get32_def using frame_rd [of b b' lo hi p 4] by simp

lemma frame_refl [simp]: "frame b b lo hi"
  by (simp add: frame_def)

lemma frame_trans:
  "frame a b l1 h1 \<Longrightarrow> frame b c l2 h2 \<Longrightarrow> lo \<le> l1 \<Longrightarrow> lo \<le> l2 \<Longrightarrow> h1 \<le> hi \<Longrightarrow> h2 \<le> hi
   \<Longrightarrow> frame a c lo hi"
  unfolding frame_def by (metis le_trans)

lemma frame_mono: "frame a b l h \<Longrightarrow> lo \<le> l \<Longrightarrow> h \<le> hi \<Longrightarrow> frame a b lo hi"
  using frame_trans [of a b l h b l h lo hi] by auto

lemma mem_wr_frame:
  "mem_wr b off bs = Some b' \<Longrightarrow> frame b b' off (off + length bs)"
  unfolding frame_def using mem_wr_length mem_rd_wr_disjoint by blast

lemma mem_wr_step:
  assumes "length bs = n" and "off + n \<le> length b"
  shows "\<exists>b'. mem_wr b off bs = Some b' \<and> frame b b' off (off + n) \<and> mem_rd b' off n = Some bs
           \<and> length b' = length b"
proof -
  from assms mem_wr_ok [of off bs b] obtain b' where b': "mem_wr b off bs = Some b'" by auto
  with mem_wr_frame [OF b'] mem_rd_wr_same [OF b'] mem_wr_length [OF b'] assms show ?thesis by auto
qed

lemma set32_step:
  assumes "off + 4 \<le> length b"
  shows "\<exists>b'. set32 b off w = Some b' \<and> frame b b' off (off + 4) \<and> get32 b' off = Some w
           \<and> length b' = length b"
  using mem_wr_step [of "put_be32 w" 4 off b] assms by (auto simp: set32_def get32_def)

lemma mem_rd_replicate_sub:
  assumes "mem_rd b off k = Some (replicate k x)" and "off \<le> p" and "p + n \<le> off + k"
  shows "mem_rd b p n = Some (replicate n x)"
proof -
  from assms(1) have l: "off + k \<le> length b" and e: "take k (drop off b) = replicate k x"
    by (auto simp: mem_simps)
  have "take n (drop p b) = take n (drop (p - off) (take k (drop off b)))"
    using assms(2,3) by (simp add: drop_take min_def)
  also have "\<dots> = replicate n x" using assms(2,3) by (simp add: e min_def)
  finally show ?thesis using l assms(2,3) by (simp add: mem_rd_def)
qed

lemma get32_zero:
  assumes "mem_rd b off k = Some (replicate k 0)" and "off \<le> p" and "p + 4 \<le> off + k"
  shows "get32 b p = Some 0"
proof -
  have "get_be32 (replicate 4 0) = 0" by (simp add: get_be32_def get_le32_def numeral_eq_Suc)
  then show ?thesis unfolding get32_def using mem_rd_replicate_sub [OF assms] by simp
qed

lemma mem_rd_split:
  assumes "mem_rd b off (m + n) = Some bs"
  shows "mem_rd b off m = Some (take m bs) \<and> mem_rd b (off + m) n = Some (drop m bs)"
  using assms by (auto simp: mem_simps drop_take add.commute)

lemma mem_rd_append:
  assumes "mem_rd b off m = Some xs" and "mem_rd b (off + m) n = Some ys"
  shows "mem_rd b off (m + n) = Some (xs @ ys)"
  using assms by (auto simp: mem_simps take_add add.commute)

lemma cstr_field:
  assumes "mem_rd b off k = Some (s @ [0])" and "0 \<notin> set s" and "k \<le> n" and "off + n \<le> length b"
  shows "map_option cstr (mem_rd b off n) = Some s"
proof -
  have "mem_rd b (off + k) (n - k) = Some (take (n - k) (drop (off + k) b))"
    using assms(3,4) by (simp add: mem_rd_def)
  from mem_rd_append [OF assms(1) this] assms(2,3) show ?thesis by (simp add: cstr_append_nil)
qed

lemma unat_word_of_int_nat [simp]:
  "0 \<le> i \<Longrightarrow> i < 2 ^ 32 \<Longrightarrow> unat (word_of_int i :: u32) = nat i"
  by (simp add: unat_eq_nat_uint uint_word_of_int)

lemma sint_word_of_int_small:
  "- (2 ^ 31) \<le> i \<Longrightarrow> i < 2 ^ 31 \<Longrightarrow> sint (word_of_int i :: u32) = i"
  by (simp add: signed_of_int signed_take_bit_int_eq_self)

section \<open>The length field\<close>

lemma insert_mlen_step:
  assumes "13 \<le> length buf"
  shows "\<exists>b'. insert_mlen len buf = Some b' \<and> extract_mlen b' = Some len \<and> frame buf b' 0 13
           \<and> length b' = length buf"
proof -
  obtain b1 where 1: "mem_wr buf 0 (put_le32 len) = Some b1" "frame buf b1 0 4"
      "mem_rd b1 0 4 = Some (put_le32 len)" "length b1 = length buf"
    using mem_wr_step [of "put_le32 len" 4 0 buf] assms by auto
  obtain b2 where 2: "mem_wr b1 4 (put_be32 len) = Some b2" "frame b1 b2 4 8"
      "mem_rd b2 4 4 = Some (put_be32 len)" "length b2 = length buf"
    using mem_wr_step [of "put_be32 len" 4 4 b1] assms 1(4) by auto
  obtain b3 where 3: "mem_wr b2 9 (replicate 4 0) = Some b3" "frame b2 b3 9 13" "length b3 = length buf"
    using mem_wr_step [of "replicate 4 0" 4 9 b2] assms 2(4) by auto
  obtain b4 where 4: "mem_wr b3 8 [36] = Some b4" "frame b3 b4 8 9" "mem_rd b4 8 1 = Some [36]"
      "length b4 = length buf"
    using mem_wr_step [of "[36]" 1 8 b3] assms 3(3) by auto
  have "mem_rd b4 0 4 = Some (put_le32 len)" "mem_rd b4 4 4 = Some (put_be32 len)"
    using 1(3) 2(3) frame_rd [OF 2(2)] frame_rd [OF 3(2)] frame_rd [OF 4(2)] by simp_all
  with 4(3) have "extract_mlen b4 = Some len" by (simp add: extract_mlen_def Let_def)
  moreover have "frame buf b4 0 13"
    using frame_trans [OF frame_trans [OF frame_trans [OF 1(2) 2(2), of 0 8] 3(2), of 0 13] 4(2), of 0 13]
    by simp
  moreover have "insert_mlen len buf = Some b4" using 1(1) 2(1) 3(1) 4(1) by (simp add: insert_mlen_def)
  ultimately show ?thesis using 4(4) by blast
qed

text \<open>
  The length that \<^verbatim>\<open>insert_mlen\<close> stores is the length \<^verbatim>\<open>extract_mlen\<close> reads, for every 32-bit
  length and every buffer with room for the field, and only the first 13 bytes change.
\<close>

theorem mlen_roundtrip:
  assumes "13 \<le> length buf"
  shows "\<exists>b'. insert_mlen len buf = Some b' \<and> extract_mlen b' = Some len \<and>
           length b' = length buf \<and> drop 13 b' = drop 13 buf"
proof -
  obtain b' where b: "insert_mlen len buf = Some b'" "extract_mlen b' = Some len" "frame buf b' 0 13"
    using insert_mlen_step [OF assms] by auto
  have "mem_rd b' 13 (length buf - 13) = mem_rd buf 13 (length buf - 13)"
    using frame_rd [OF b(3)] by simp
  with frame_length [OF b(3)] assms have "drop 13 b' = drop 13 buf" by (simp add: mem_rd_def)
  with b frame_length [OF b(3)] show ?thesis by auto
qed

theorem mlen_roundtrip_witness:
  "\<exists>b'. insert_mlen 0x01020304 (replicate 14 7) = Some b' \<and> extract_mlen b' = Some 0x01020304 \<and>
     length b' = length (replicate 14 (7::byte)) \<and> drop 13 b' = drop 13 (replicate 14 7)"
  by (rule mlen_roundtrip) simp

section \<open>The layout of a well-formed message\<close>

text \<open>\<open>lens b l1 l2 l3\<close>: the header at offset 50 of the buffer carries the length of the RMR header
  and the lengths \<open>l1\<close>, \<open>l2\<close>, \<open>l3\<close> of the trace, d1 and d2 areas.\<close>

definition lens :: "bytes \<Rightarrow> nat \<Rightarrow> nat \<Rightarrow> nat \<Rightarrow> bool" where
  "lens b l1 l2 l3 \<longleftrightarrow> get32 b (TP_HDR_LEN + H_LEN0) = Some 280 \<and>
     get32 b (TP_HDR_LEN + H_LEN1) = Some (of_nat l1) \<and>
     get32 b (TP_HDR_LEN + H_LEN2) = Some (of_nat l2) \<and>
     get32 b (TP_HDR_LEN + H_LEN3) = Some (of_nat l3) \<and> 330 + l1 + l2 + l3 < 2 ^ 31"

definition mbuf_ok :: "mbuf \<Rightarrow> bytes \<Rightarrow> nat \<Rightarrow> nat \<Rightarrow> nat \<Rightarrow> bool" where
  "mbuf_ok m b l1 l2 l3 \<longleftrightarrow> m_tp_buf m = Some b \<and> m_header m = Some TP_HDR_LEN \<and>
     m_payload m = Some (330 + l1 + l2 + l3) \<and> m_xaction m = Some (TP_HDR_LEN + H_XID) \<and>
     lens b l1 l2 l3 \<and> 330 + int l1 + int l2 + int l3 \<le> m_alloc_len m \<and>
     m_alloc_len m \<le> int (length b) \<and> m_alloc_len m < 2 ^ 31"

definition mbuf_wf :: "mbuf \<Rightarrow> bool" where
  "mbuf_wf m \<longleftrightarrow> (\<exists>b l1 l2 l3. mbuf_ok m b l1 l2 l3)"

lemma unat_of_nat_small: "n < 2 ^ 31 \<Longrightarrow> unat (of_nat n :: u32) = n"
  by (simp add: unat_of_nat)

lemma lens_rd:
  assumes "lens b l1 l2 l3"
  shows "RMR_HDR_LEN b 50 = Some (word_of_int (280 + int l1 + int l2 + int l3))"
    and "PAYLOAD_ADDR b 50 = Some (330 + l1 + l2 + l3)"
    and "TRACE_ADDR b 50 = Some 330" and "DATA1_ADDR b 50 = Some (330 + l1)"
    and "DATA2_ADDR b 50 = Some (330 + l1 + l2)"
    and "RMR_TR_LEN b 50 = Some (of_nat l1)" and "RMR_D1_LEN b 50 = Some (of_nat l2)"
    and "RMR_D2_LEN b 50 = Some (of_nat l3)"
proof -
  from assms have f: "get32 b 246 = Some 280" "get32 b 250 = Some (of_nat l1)"
      "get32 b 254 = Some (of_nat l2)" "get32 b 258 = Some (of_nat l3)"
    and s: "330 + l1 + l2 + l3 < 2 ^ 31" by (simp_all add: lens_def)
  from s have u: "unat (of_nat l1 :: u32) = l1" "unat (of_nat l2 :: u32) = l2" "unat (of_nat l3 :: u32) = l3"
    by (simp_all add: unat_of_nat_small)
  have w: "(280 + of_nat l1 + of_nat l2 + of_nat l3 :: u32) = word_of_int (280 + int l1 + int l2 + int l3)"
    by simp
  show "RMR_HDR_LEN b 50 = Some (word_of_int (280 + int l1 + int l2 + int l3))"
    using f by (simp add: RMR_HDR_LEN_def)
  show "PAYLOAD_ADDR b 50 = Some (330 + l1 + l2 + l3)" "TRACE_ADDR b 50 = Some 330"
    "DATA1_ADDR b 50 = Some (330 + l1)" "DATA2_ADDR b 50 = Some (330 + l1 + l2)"
    "RMR_TR_LEN b 50 = Some (of_nat l1)" "RMR_D1_LEN b 50 = Some (of_nat l2)" "RMR_D2_LEN b 50 = Some (of_nat l3)"
    using f u by (simp_all add: PAYLOAD_ADDR_def TRACE_ADDR_def DATA1_ADDR_def DATA2_ADDR_def
        RMR_TR_LEN_def RMR_D1_LEN_def RMR_D2_LEN_def)
qed

lemma lens_frame: "lens b l1 l2 l3 \<Longrightarrow> frame b b' lo hi \<Longrightarrow> hi \<le> 246 \<or> 262 \<le> lo \<Longrightarrow> lens b' l1 l2 l3"
  by (auto simp: lens_def frame_get32)

lemma lens_bound: "lens b l1 l2 l3 \<Longrightarrow> 262 \<le> length b"
  by (auto simp: lens_def get32_def mem_rd_def split: if_splits)

lemma lens_unique:
  assumes "lens b l1 l2 l3" and "lens b k1 k2 k3"
  shows "l1 = k1 \<and> l2 = k2 \<and> l3 = k3"
proof -
  from assms have "(of_nat l1 :: u32) = of_nat k1" "(of_nat l2 :: u32) = of_nat k2" "(of_nat l3 :: u32) = of_nat k3"
    and "l1 < 2 ^ 31" "l2 < 2 ^ 31" "l3 < 2 ^ 31" "k1 < 2 ^ 31" "k2 < 2 ^ 31" "k3 < 2 ^ 31"
    unfolding lens_def by auto
  then show ?thesis using unat_of_nat_small by metis
qed

lemma psize_of_lens:
  assumes "m_alloc_len m < 2 ^ 31" and "330 + k \<le> m_alloc_len m" and "0 \<le> k"
  shows "psize_of (m_alloc_len m) (word_of_int (280 + k)) = m_alloc_len m - 330 - k"
proof -
  have w: "(word_of_int (m_alloc_len m) - word_of_int (280 + k) - 50 :: u32) = word_of_int (m_alloc_len m - 330 - k)"
    by simp
  show ?thesis unfolding psize_of_def w by (rule sint_word_of_int_small) (use assms in simp_all)
qed

lemma mbuf_ok_psize:
  "mbuf_ok m b l1 l2 l3 \<Longrightarrow>
   rmr_payload_size (Some m) = Some (m_alloc_len m - 330 - int l1 - int l2 - int l3, E0)"
  using psize_of_lens [of m "int l1 + int l2 + int l3"] lens_rd(1) [of b l1 l2 l3]
  by (simp add: mbuf_ok_def rmr_payload_size_def algebra_simps)

section \<open>What allocation gives\<close>

lemma zt_copy_cstr: "0 \<in> set s \<Longrightarrow> zt_copy s n = Some (take n (cstr s))"
proof (induction s arbitrary: n)
  case (Cons b s)
  then show ?case by (cases n) (auto simp: cstr_def)
qed simp

text \<open>The nil terminated string in a name field of the header.\<close>

definition src_field :: "bytes \<Rightarrow> nat \<Rightarrow> bytes option" where
  "src_field b off = map_option cstr (mem_rd b off RMR_MAX_SRC)"

lemma zt_field_step:
  assumes "off + RMR_MAX_SRC \<le> length b"
  shows "\<exists>r b'. zt_buf_fill (Some b) off (Some (str_bytes s @ [0])) (int RMR_MAX_SRC) = Some (r, Some b')
           \<and> frame b b' off (off + RMR_MAX_SRC) \<and> length b' = length b
           \<and> src_field b' off = Some (take 63 (cstr (str_bytes s @ [0])))"
proof -
  let ?c = "take 63 (cstr (str_bytes s @ [0]))"
  have l: "length (?c @ [0]) \<le> RMR_MAX_SRC" by simp
  with assms have "off + length (?c @ [0]) \<le> length b" by linarith
  with mem_wr_step [OF refl this] obtain b' where w: "mem_wr b off (?c @ [0]) = Some b'"
      and f: "frame b b' off (off + length (?c @ [0]))" "length b' = length b"
    by blast
  from w have "drop off b' = (?c @ [0]) @ drop (off + length (?c @ [0])) b" by (auto simp: mem_simps)
  then have "take 64 (drop off b') = (?c @ [0]) @ take (64 - length (?c @ [0])) (drop (off + length (?c @ [0])) b)"
    using l by (simp add: take_Cons')
  moreover have "0 \<notin> set ?c" by (meson in_set_takeD nil_notin_cstr)
  ultimately have "src_field b' off = Some ?c"
    using assms f(2) by (simp add: cstr_append_nil src_field_def mem_rd_def)
  with w f frame_mono [OF f(1), of off "off + RMR_MAX_SRC"] l show ?thesis
    by (simp add: zt_buf_fill_def zt_copy_cstr)
qed

definition ctx_ok :: "'a msg_ctx_scheme \<Rightarrow> bool" where
  "ctx_ok ctx \<longleftrightarrow> 0 \<le> trace_data_len ctx \<and> 0 \<le> d1_len ctx \<and> 0 \<le> d2_len ctx \<and> 0 < max_plen ctx"

text \<open>The header and the message that \<^verbatim>\<open>alloc_zcmsg\<close> leaves behind.\<close>

definition fresh_msg :: "'a msg_ctx_scheme \<Rightarrow> mbuf \<Rightarrow> bytes \<Rightarrow> int \<Rightarrow> bool" where
  "fresh_msg ctx m b state \<longleftrightarrow> m_state m = state \<and> m_len m = 0 \<and> m_mtype m = UNSET_MSGTYPE \<and>
     m_sub_id m = UNSET_SUBID \<and> m_rts_fd m = -1 \<and> m_flags m = MFL_ZEROCOPY \<and>
     HDR_VERSION b 50 = Some 3 \<and> get32 b (50 + H_SUBID) = Some (-1) \<and>
     extract_mlen b = Some (word_of_int (m_alloc_len m)) \<and>
     src_field b (50 + H_SRC) = Some (take 63 (cstr (str_bytes (my_name ctx) @ [0]))) \<and>
     src_field b (50 + H_SRCIP) = Some (take 63 (cstr (str_bytes (my_ip ctx) @ [0])))"

lemma extract_mlen_cong:
  assumes "\<And>p n. p + n \<le> 9 \<Longrightarrow> mem_rd b' p n = mem_rd b p n"
  shows "extract_mlen b' = extract_mlen b"
proof -
  have "mem_rd b' 8 1 = mem_rd b 8 1" "mem_rd b' 0 4 = mem_rd b 0 4" "mem_rd b' 4 4 = mem_rd b 4 4"
    using assms [of 8 1] assms [of 0 4] assms [of 4 4] by linarith+
  then show ?thesis by (simp only: extract_mlen_def)
qed

lemma extract_mlen_frame: "frame b b' lo hi \<Longrightarrow> 13 \<le> lo \<Longrightarrow> extract_mlen b' = extract_mlen b"
  by (rule extract_mlen_cong) (simp add: frame_rd)

text \<open>The writes that fill the header, as one step.\<close>

lemma zc_header_step:
  fixes t d :: int
  assumes "330 \<le> length b0" and "0 \<le> t" and "0 \<le> d" and "330 + t + d < 2 ^ 31"
  shows "\<exists>b1 b2 b3 b4 b5 b6 b7. insert_mlen w b0 = Some b1 \<and>
     mem_wr b1 50 (replicate 280 0) = Some b2 \<and> set32 b2 58 3 = Some b3 \<and>
     set32 b3 262 (-1) = Some b4 \<and> SET_HDR_LEN b4 50 = Some b5 \<and>
     SET_HDR_TR_LEN b5 50 t = Some b6 \<and> SET_HDR_D1_LEN b6 50 d = Some b7 \<and>
     lens b7 (nat t) (nat d) 0 \<and> length b7 = length b0 \<and> extract_mlen b7 = Some w \<and>
     HDR_VERSION b7 50 = Some 3 \<and> get32 b7 262 = Some (-1)"
proof -
  obtain b1 where 1: "insert_mlen w b0 = Some b1" "extract_mlen b1 = Some w" "length b1 = length b0"
    using insert_mlen_step [of b0 w] assms by auto
  obtain b2 where 2: "mem_wr b1 50 (replicate 280 0) = Some b2" "frame b1 b2 50 330"
      "mem_rd b2 50 280 = Some (replicate 280 0)" "length b2 = length b0"
    using mem_wr_step [of "replicate 280 0" 280 50 b1] assms 1(3) by auto
  obtain b3 where 3: "set32 b2 58 3 = Some b3" "frame b2 b3 58 62" "get32 b3 58 = Some 3" "length b3 = length b0"
    using set32_step [of 58 b2 3] assms 2(4) by auto
  obtain b4 where 4: "set32 b3 262 (-1) = Some b4" "frame b3 b4 262 266" "get32 b4 262 = Some (-1)" "length b4 = length b0"
    using set32_step [of 262 b3 "-1"] assms 3(4) by auto
  obtain b5 where 5: "set32 b4 246 280 = Some b5" "frame b4 b5 246 250" "get32 b5 246 = Some 280" "length b5 = length b0"
    using set32_step [of 246 b4 280] assms 4(4) by auto
  obtain b6 where 6: "set32 b5 250 (word_of_int t) = Some b6" "frame b5 b6 250 254" "get32 b6 250 = Some (word_of_int t)" "length b6 = length b0"
    using set32_step [of 250 b5 "word_of_int t"] assms 5(4) by auto
  obtain b7 where 7: "set32 b6 254 (word_of_int d) = Some b7" "frame b6 b7 254 258" "get32 b7 254 = Some (word_of_int d)" "length b7 = length b0"
    using set32_step [of 254 b6 "word_of_int d"] assms 6(4) by auto
  note fr = frame_get32 [OF 3(2)] frame_get32 [OF 4(2)] frame_get32 [OF 5(2)] frame_get32 [OF 6(2)] frame_get32 [OF 7(2)]
  have z: "get32 b2 258 = Some 0" using get32_zero [OF 2(3), of 258] by simp
  have w: "(of_nat (nat t) :: u32) = word_of_int t" "(of_nat (nat d) :: u32) = word_of_int d"
    using assms by (simp_all add: of_nat_nat)
  have "lens b7 (nat t) (nat d) 0"
    using 5(3) 6(3) 7(3) z assms w unfolding lens_def by (simp add: fr)
  moreover have "HDR_VERSION b7 50 = Some 3" using 3(3) by (simp add: HDR_VERSION_def fr)
  moreover have "get32 b7 262 = Some (-1)" using 4(3) by (simp add: fr)
  moreover have "frame b1 b7 50 330"
    using frame_trans [OF frame_trans [OF frame_trans [OF frame_trans [OF frame_trans [OF 2(2) 3(2), of 50 330]
      4(2), of 50 330] 5(2), of 50 330] 6(2), of 50 330] 7(2), of 50 330] by simp
  then have "extract_mlen b7 = Some w" using 1(2) by (simp add: extract_mlen_frame)
  ultimately show ?thesis using 1(1) 2(1) 3(1) 4(1) 5(1) 6(1) 7(1,4)
    by (simp add: SET_HDR_LEN_def SET_HDR_TR_LEN_def SET_HDR_D1_LEN_def)
qed

lemma zc_finish_ok:
  assumes "ctx_ok ctx" and "330 + trace_data_len ctx + d1_len ctx \<le> mlen" and "mlen < 2 ^ 31"
    and "if m_alloc_len m = 0 then ok M_tpbuf
         else (\<exists>b. m_tp_buf m = Some b \<and> mlen \<le> int (length b))"
  shows "\<exists>m' b. zc_finish ok junk ctx m mlen state = Some m' \<and> m_alloc_len m' = mlen \<and>
     mbuf_ok m' b (nat (trace_data_len ctx)) (nat (d1_len ctx)) 0 \<and> fresh_msg ctx m' b state"
proof -
  let ?t = "trace_data_len ctx" and ?d = "d1_len ctx"
  obtain b0 where b0: "(if m_alloc_len m = 0
            then (if ok M_tpbuf then Some (malloc_bytes junk (nat mlen)) else None)
            else m_tp_buf m) = Some b0" and l0: "mlen \<le> int (length b0)"
    using assms(4) by (auto split: if_splits)
  have c: "0 \<le> ?t" "0 \<le> ?d" using assms(1) by (simp_all add: ctx_ok_def)
  obtain b1 b2 b3 b4 b5 b6 b7 where w: "insert_mlen (word_of_int mlen) b0 = Some b1"
     "mem_wr b1 50 (replicate 280 0) = Some b2" "set32 b2 58 3 = Some b3"
     "set32 b3 262 (-1) = Some b4" "SET_HDR_LEN b4 50 = Some b5"
     "SET_HDR_TR_LEN b5 50 ?t = Some b6" "SET_HDR_D1_LEN b6 50 ?d = Some b7"
    and h: "lens b7 (nat ?t) (nat ?d) 0" "length b7 = length b0" "extract_mlen b7 = Some (word_of_int mlen)"
     "HDR_VERSION b7 50 = Some 3" "get32 b7 262 = Some (-1)"
    using zc_header_step [of b0 ?t ?d "word_of_int mlen"] c l0 assms(2,3) by auto
  obtain r8 b8 where 8: "zt_buf_fill (Some b7) 126 (Some (str_bytes (my_name ctx) @ [0])) 64 = Some (r8, Some b8)"
      "frame b7 b8 126 190" "length b8 = length b0"
      "src_field b8 126 = Some (take 63 (cstr (str_bytes (my_name ctx) @ [0])))"
    using zt_field_step [of 126 b7 "my_name ctx"] h(2) l0 c assms(2) by auto
  obtain r9 b9 where 9: "zt_buf_fill (Some b8) 266 (Some (str_bytes (my_ip ctx) @ [0])) 64 = Some (r9, Some b9)"
      "frame b8 b9 266 330" "length b9 = length b0"
      "src_field b9 266 = Some (take 63 (cstr (str_bytes (my_ip ctx) @ [0])))"
    using zt_field_step [of 266 b8 "my_ip ctx"] 8(3) l0 c assms(2) by auto
  have L: "lens b9 (nat ?t) (nat ?d) 0"
    using lens_frame [OF lens_frame [OF h(1) 8(2)] 9(2)] by simp
  have s: "src_field b9 126 = src_field b8 126" using frame_rd [OF 9(2)] by (simp add: src_field_def)
  have sl: "sint (word_of_int mlen :: u32) = mlen"
    by (rule sint_word_of_int_small) (use assms c in simp_all)
  have e: "extract_mlen b9 = Some (word_of_int mlen)"
    using h(3) extract_mlen_frame [OF 8(2)] extract_mlen_frame [OF 9(2)] by simp
  have v: "HDR_VERSION b9 50 = Some 3" "get32 b9 262 = Some (-1)"
    using h(4,5) frame_get32 [OF 8(2)] frame_get32 [OF 9(2)] by (simp_all add: HDR_VERSION_def)
  let ?m = "m\<lparr>m_rts_fd := -1, m_tp_buf := Some b9, m_header := Some TP_HDR_LEN, m_len := 0,
            m_cookie := 0x4942, m_alloc_len := mlen, m_sub_id := UNSET_SUBID,
            m_mtype := UNSET_MSGTYPE, m_payload := Some (330 + nat ?t + nat ?d), m_xaction := Some 62,
            m_state := state, m_flags := MFL_ZEROCOPY, m_ring := True\<rparr>"
  have "zc_finish ok junk ctx m mlen state = Some ?m"
    unfolding zc_finish_def b0 using w lens_rd(2) [OF h(1)] 8(1) 9(1) sl by simp
  moreover have "mbuf_ok ?m b9 (nat ?t) (nat ?d) 0"
    using L c assms(2,3) l0 9(3) by (simp add: mbuf_ok_def)
  moreover have "fresh_msg ctx ?m b9 state"
    using s 8(4) 9(4) e v by (simp add: fresh_msg_def)
  ultimately show ?thesis by (intro exI [of _ ?m] exI [of _ b9]) simp
qed

text \<open>The messages pooled on the ring of the context are well-formed.\<close>

definition pool_ok :: "'a msg_ctx_scheme \<Rightarrow> bool" where
  "pool_ok ctx \<longleftrightarrow> ring_wf (zcb_mring ctx) \<and>
     (\<forall>m. Some m \<in> set (ring_list (zcb_mring ctx)) \<longrightarrow> mbuf_wf m)"

lemma ring_extract_mem:
  assumes "ring_wf r" and "uta_ring_extract tk lk r = (v, r')"
  shows "set (ring_list r') \<subseteq> set (ring_list r) \<and> (\<forall>m. v = Some m \<longrightarrow> Some m \<in> set (ring_list r))"
proof (cases "ring_list r")
  case Nil
  with ring_extract_empty [OF assms(1) Nil] assms(2) show ?thesis by simp
next
  case (Cons x xs)
  show ?thesis
  proof (cases "rgate r \<longrightarrow> (if fl_flock r then tk else lk)")
    case True
    with ring_extract_next [OF assms(1) Cons _ assms(2)] Cons show ?thesis by auto
  next
    case False
    with assms(2) show ?thesis by (auto simp: uta_ring_extract_def split: if_splits)
  qed
qed

lemma pool_extract:
  assumes "pool_ok ctx" and "uta_ring_extract tk lk (zcb_mring ctx) = (v, r')"
  shows "pool_ok (ctx\<lparr>zcb_mring := r'\<rparr>) \<and> (\<forall>m. v = Some m \<longrightarrow> mbuf_wf m)"
  using assms ring_extract_mem [of "zcb_mring ctx" tk lk v r'] ring_extract_wf [of "zcb_mring ctx" tk lk]
  by (auto simp: pool_ok_def)

definition requested :: "'a msg_ctx_scheme \<Rightarrow> int \<Rightarrow> int" where
  "requested ctx sz = (if sz > 0 then sz else max_plen ctx)"

lemma ctx_ok_pool [simp]: "ctx_ok (ctx\<lparr>zcb_mring := r\<rparr>) = ctx_ok ctx"
  "fresh_msg (ctx\<lparr>zcb_mring := r\<rparr>) = fresh_msg ctx"
  "requested (ctx\<lparr>zcb_mring := r\<rparr>) sz = requested ctx sz"
  by (auto simp: ctx_ok_def fresh_msg_def requested_def fun_eq_iff)

text \<open>The part of the allocation that follows the choice of the message structure.\<close>

lemma zc_reuse_ok:
  assumes c: "ctx_ok ctx" and r: "330 + trace_data_len ctx + d1_len ctx \<le> mlen"
    and lt: "mlen < 2 ^ 31" and ok: "ok M_tpbuf" and wf: "mbuf_wf m"
  shows "\<exists>m' b. (if mlen > m_alloc_len m mod 2 ^ 64
            then zc_finish ok junk ctx (m\<lparr>m_alloc_len := 0, m_tp_buf := None\<rparr>) mlen state
            else zc_finish ok junk ctx m (m_alloc_len m) state) = Some m' \<and>
         mlen \<le> m_alloc_len m' \<and> mbuf_ok m' b (nat (trace_data_len ctx)) (nat (d1_len ctx)) 0 \<and>
         fresh_msg ctx m' b state"
proof -
  from wf obtain b0 l1 l2 l3 where m: "mbuf_ok m b0 l1 l2 l3" by (auto simp: mbuf_wf_def)
  from m have a: "m_alloc_len m mod 2 ^ 64 = m_alloc_len m" by (simp add: mbuf_ok_def)
  show ?thesis
  proof (cases "mlen > m_alloc_len m")
    case True
    with a r lt ok show ?thesis
      using zc_finish_ok [OF c r lt, of "m\<lparr>m_alloc_len := 0, m_tp_buf := None\<rparr>" ok junk state] by auto
  next
    case False
    with r have r': "330 + trace_data_len ctx + d1_len ctx \<le> m_alloc_len m" by simp
    from False a m r' show ?thesis
      using zc_finish_ok [OF c r', of m ok junk state] by (auto simp: mbuf_ok_def)
  qed
qed

lemma zc_mlen_default:
  "trlo \<le> 0 \<Longrightarrow> zc_mlen ctx sz trlo = 330 + trace_data_len ctx + d1_len ctx + d2_len ctx + requested ctx sz"
  by (simp add: zc_mlen_def requested_def Let_def)

lemma alloc_zcmsg_ok:
  assumes c: "ctx_ok ctx" and p: "pool_ok ctx" and m: "\<And>m. msg = Some m \<Longrightarrow> mbuf_wf m"
    and tr: "trlo \<le> 0" and lt: "zc_mlen ctx sz trlo < 2 ^ 31" and ok: "ok M_mbuf" "ok M_tpbuf"
  shows "\<exists>m ctx' b. alloc_zcmsg ok junk tk ctx msg sz state trlo = Some (Some m, ctx') \<and>
     zc_mlen ctx sz trlo \<le> m_alloc_len m \<and> mbuf_ok m b (nat (trace_data_len ctx)) (nat (d1_len ctx)) 0 \<and>
     fresh_msg ctx m b state \<and> pool_ok ctx'"
proof -
  let ?ml = "zc_mlen ctx sz trlo"
  note ml = zc_mlen_default [OF tr, of ctx sz]
  from c ml have r: "330 + trace_data_len ctx + d1_len ctx \<le> ?ml"
    by (auto simp: ctx_ok_def requested_def)
  obtain x r' where e: "uta_ring_extract tk tk (zcb_mring ctx) = (x, r')" by fastforce
  note pe = pool_extract [OF p e]
  show ?thesis
  proof (cases msg)
    case (Some m0)
    with zc_reuse_ok [OF c r lt, of ok m0 junk state, OF ok(2) m [OF Some]] p show ?thesis
      by (auto simp: alloc_zcmsg_def Let_def split: if_splits)
  next
    case None
    let ?ctx = "ctx\<lparr>zcb_mring := r'\<rparr>"
    have fresh: "330 + trace_data_len ?ctx + d1_len ?ctx \<le> ?ml" using r by simp
    show ?thesis
    proof (cases x)
      case (Some m0)
      with zc_reuse_ok [OF _ fresh lt, of ok m0 junk state] None e pe c ok show ?thesis
        by (auto simp: alloc_zcmsg_def Let_def split: if_splits)
    next
      case N: None
      with zc_finish_ok [OF _ fresh lt, of zero_mbuf ok junk state] None e pe c ok show ?thesis
        by (auto simp: alloc_zcmsg_def Let_def zero_mbuf_def)
    qed
  qed
qed

text \<open>
  C32. An allocation by \<^verbatim>\<open>alloc_zcmsg\<close> that leaves the trace length to the context (\<^verbatim>\<open>trlo\<close> at most 0; for a
  larger one the header gets the trace length of the context all the same and does not describe the buffer), from a new buffer, a
  pooled message or a message of the caller, returns a message whose header describes the
  buffer: the header, trace, d1 and payload areas lie inside of the transport buffer one after
  the other, the header holds the version, the unset subscription id, the names of the
  sender and the buffer length, and \<^verbatim>\<open>rmr_payload_size\<close> is at least the size requested.
\<close>

theorem alloc_zcmsg_layout:
  assumes "ctx_ok ctx" and "pool_ok ctx" and "\<And>m. msg = Some m \<Longrightarrow> mbuf_wf m"
    and "trlo \<le> 0" and "zc_mlen ctx sz trlo < 2 ^ 31" and "ok M_mbuf" and "ok M_tpbuf"
  shows "\<exists>m ctx' b psz. alloc_zcmsg ok junk tk ctx msg sz state trlo = Some (Some m, ctx') \<and>
     mbuf_ok m b (nat (trace_data_len ctx)) (nat (d1_len ctx)) 0 \<and> fresh_msg ctx m b state \<and>
     rmr_payload_size (Some m) = Some (psz, E0) \<and> (if sz > 0 then sz else max_plen ctx) \<le> psz \<and>
     pool_ok ctx'"
proof -
  from alloc_zcmsg_ok [OF assms] obtain m ctx' b where
      m: "alloc_zcmsg ok junk tk ctx msg sz state trlo = Some (Some m, ctx')"
         "zc_mlen ctx sz trlo \<le> m_alloc_len m" "mbuf_ok m b (nat (trace_data_len ctx)) (nat (d1_len ctx)) 0"
         "fresh_msg ctx m b state" "pool_ok ctx'" by blast
  moreover have "(if sz > 0 then sz else max_plen ctx) \<le> m_alloc_len m - 330 - trace_data_len ctx - d1_len ctx"
    using m(2) assms(1,4) by (simp add: zc_mlen_default requested_def ctx_ok_def)
  ultimately show ?thesis using mbuf_ok_psize [OF m(3)] assms(1) by (auto simp: ctx_ok_def)
qed

definition demo_ctx :: msg_ctx where
  "demo_ctx = \<lparr>my_name = ''a:1'', my_ip = ''b:2'', max_plen = 8, trace_data_len = 4, d1_len = 4,
     d2_len = 0, zcb_mring = \<lparr>head = 0, tail = 0, nelements = 2, rdata = [None, None, None],
       pfd = -1, pfd_ctr = 0, fl_flock = False, rgate = False, wgate = False\<rparr>\<rparr>"

lemma demo_ctx_ok: "ctx_ok demo_ctx" "pool_ok demo_ctx"
  by (simp_all add: ctx_ok_def pool_ok_def demo_ctx_def ring_wf_def ring_list_def ring_count_def)

theorem alloc_zcmsg_layout_witness:
  "\<exists>m ctx' b psz. alloc_zcmsg (\<lambda>_. True) (\<lambda>_. 0xaa) True demo_ctx None 16 0 (-1) = Some (Some m, ctx') \<and>
     mbuf_ok m b 4 4 0 \<and> rmr_payload_size (Some m) = Some (psz, E0) \<and> 16 \<le> psz"
  using alloc_zcmsg_layout [of demo_ctx None "-1" 16 "\<lambda>_. True" "\<lambda>_. 0xaa" True 0] demo_ctx_ok
  by (auto simp: demo_ctx_def zc_mlen_def)

end
