(* ===== verification/Mbuf_Api.thy ===== *)
theory Mbuf_Api
  imports Mbuf
begin

text \<open>
  The message buffer interface of \<^verbatim>\<open>src/src/rmr/common/src/mbuf_api.c\<close>: setters and getters of the
  managed entity id, the transaction id, the payload, the trace data and the source names, and
  \<^verbatim>\<open>rmr_tralloc_msg\<close> of \<^verbatim>\<open>rmr_si.c\<close>.

  A pointer argument to user memory is the block it points to (\<open>None\<close> for NULL).  A copy that
  leaves a block, or has a negative length (\<^verbatim>\<open>memcpy\<close> converts it to \<^verbatim>\<open>size_t\<close>), is a fault.
\<close>

definition memcpy_in :: "bytes \<Rightarrow> nat \<Rightarrow> bytes \<Rightarrow> int \<Rightarrow> bytes option" where
  "memcpy_in dst off src len =
     (if len < 0 \<or> length src < nat len then None else mem_wr dst off (take (nat len) src))"

definition strlen :: "bytes \<Rightarrow> nat option" where
  "strlen s = (if 0 \<in> set s then Some (length (cstr s)) else None)"

section \<open>Managed entity id\<close>

definition rmr_bytes2meid :: "mbuf option \<Rightarrow> bytes option \<Rightarrow> int \<Rightarrow> (int \<times> errno \<times> mbuf option) option" where
  "rmr_bytes2meid mb src len =
     (case (src, mb) of
        (Some s, Some m) \<Rightarrow> (case m_header m of None \<Rightarrow> Some (-1, EINVAL, mb)
        | Some h \<Rightarrow>
            let len' = (if len > int RMR_MAX_MEID then int RMR_MAX_MEID else len);
                err = (if len > int RMR_MAX_MEID then EOVERFLOW else E0)
            in do {
              b \<leftarrow> m_tp_buf m;
              b1 \<leftarrow> memcpy_in b (h + H_MEID) s len';
              (if len' = int RMR_MAX_MEID then do {
                 lst \<leftarrow> mem_rd b1 (h + H_MEID + nat len' - 1) 1;
                 (if lst \<noteq> [0] then do {
                    b2 \<leftarrow> mem_wr b1 (h + H_MEID + nat len' - 1) [0];
                    Some (len', EOVERFLOW, Some (m\<lparr>m_tp_buf := Some b2\<rparr>)) }
                  else Some (len', err, Some (m\<lparr>m_tp_buf := Some b1\<rparr>))) }
               else do {
                 b2 \<leftarrow> mem_wr b1 (h + H_MEID + nat len') [0];
                 Some (len', err, Some (m\<lparr>m_tp_buf := Some b2\<rparr>)) }) })
      | _ \<Rightarrow> Some (-1, EINVAL, mb))"

definition rmr_str2meid :: "mbuf option \<Rightarrow> bytes option \<Rightarrow> (int \<times> errno \<times> mbuf option) option" where
  "rmr_str2meid mb str =
     (case (str, mb) of
        (Some s, Some m) \<Rightarrow> (case m_header m of None \<Rightarrow> Some (RMR_ERR_BADARG, EINVAL, mb)
        | Some h \<Rightarrow> do {
            len \<leftarrow> strlen s;
            (if len > RMR_MAX_MEID - 1 then Some (RMR_ERR_OVERFLOW, EOVERFLOW, mb)
             else do {
               r \<leftarrow> rmr_bytes2meid mb str (int len + 1);
               Some (RMR_OK, fst (snd r), snd (snd r)) }) })
      | _ \<Rightarrow> Some (RMR_ERR_BADARG, EINVAL, mb))"

text \<open>\<^verbatim>\<open>rmr_get_meid\<close> returns the destination block, the block of the caller or a new one.\<close>

definition rmr_get_meid :: "mallocs \<Rightarrow> (nat \<Rightarrow> byte) \<Rightarrow> mbuf option \<Rightarrow> bytes option \<Rightarrow> (bytes option \<times> errno) option" where
  "rmr_get_meid ok junk mb dest =
     (case mb of None \<Rightarrow> Some (None, EINVAL)
      | Some m \<Rightarrow> (case m_header m of None \<Rightarrow> Some (None, EINVAL)
        | Some h \<Rightarrow>
            if dest = None \<and> \<not> ok M_user then Some (None, ENOMEM)
            else do {
              b \<leftarrow> m_tp_buf m;
              f \<leftarrow> mem_rd b (h + H_MEID) RMR_MAX_MEID;
              d \<leftarrow> mem_wr (case dest of Some d \<Rightarrow> d | None \<Rightarrow> malloc_bytes junk RMR_MAX_MEID) 0 f;
              Some (Some d, E0) }))"

section \<open>Payload\<close>

text \<open>\<^verbatim>\<open>alloc_len - sizeof( uta_mhdr_t )\<close> is a \<^verbatim>\<open>size_t\<close>, to which the length is converted for
  the comparison.\<close>

definition rmr_bytes2payload :: "mbuf option \<Rightarrow> bytes option \<Rightarrow> int \<Rightarrow> (errno \<times> mbuf option) option" where
  "rmr_bytes2payload mb src len =
     (case (src, mb) of
        (Some s, Some m) \<Rightarrow> (case m_payload m of None \<Rightarrow> Some (EINVAL, mb)
        | Some pay \<Rightarrow>
            let room = (m_alloc_len m - int SIZEOF_MHDR) mod 2 ^ 64;
                over = len mod 2 ^ 64 > room;
                len' = (if over then sint (word_of_int room :: u32) else len)
            in do {
              b \<leftarrow> m_tp_buf m;
              b1 \<leftarrow> memcpy_in b pay s len';
              Some (if over then EMSGSIZE else E0,
                    Some (m\<lparr>m_state := (if over then RMR_ERR_OVERFLOW else RMR_OK), m_len := len',
                            m_tp_buf := Some b1\<rparr>)) })
      | _ \<Rightarrow> Some (EINVAL, mb))"

definition rmr_str2payload :: "mbuf option \<Rightarrow> bytes \<Rightarrow> (errno \<times> mbuf option) option" where
  "rmr_str2payload mb str = do { n \<leftarrow> strlen str; rmr_bytes2payload mb (Some str) (int n + 1) }"

section \<open>Transaction id\<close>

definition rmr_bytes2xact :: "mbuf option \<Rightarrow> bytes option \<Rightarrow> int \<Rightarrow> (int \<times> errno \<times> mbuf option) option" where
  "rmr_bytes2xact mb src len =
     (case (src, mb) of
        (Some s, Some m) \<Rightarrow> (case m_header m of None \<Rightarrow> Some (-1, EINVAL, mb)
        | Some h \<Rightarrow>
            let len' = (if len > int RMR_MAX_XID then int RMR_MAX_XID else len);
                err = (if len > int RMR_MAX_XID then EOVERFLOW else E0)
            in do {
              b \<leftarrow> m_tp_buf m;
              b1 \<leftarrow> memcpy_in b (h + H_XID) s len';
              Some (len', err, Some (m\<lparr>m_tp_buf := Some b1\<rparr>)) })
      | _ \<Rightarrow> Some (-1, EINVAL, mb))"

definition rmr_str2xact :: "mbuf option \<Rightarrow> bytes option \<Rightarrow> (int \<times> errno \<times> mbuf option) option" where
  "rmr_str2xact mb str =
     (case (str, mb) of
        (Some s, Some m) \<Rightarrow> (case m_header m of None \<Rightarrow> Some (RMR_ERR_BADARG, EINVAL, mb)
        | Some h \<Rightarrow> do {
            len \<leftarrow> strlen s;
            (if len > RMR_MAX_XID - 1 then Some (RMR_ERR_OVERFLOW, EOVERFLOW, mb)
             else do {
               r \<leftarrow> rmr_bytes2xact mb str (int len + 1);
               Some (RMR_OK, fst (snd r), snd (snd r)) }) })
      | _ \<Rightarrow> Some (RMR_ERR_BADARG, EINVAL, mb))"

definition rmr_get_xact :: "mallocs \<Rightarrow> (nat \<Rightarrow> byte) \<Rightarrow> mbuf option \<Rightarrow> bytes option \<Rightarrow> (bytes option \<times> errno) option" where
  "rmr_get_xact ok junk mb dest =
     (case mb of None \<Rightarrow> Some (None, EINVAL)
      | Some m \<Rightarrow> (case m_xaction m of None \<Rightarrow> Some (None, EINVAL)
        | Some x \<Rightarrow>
            if dest = None \<and> \<not> ok M_user then Some (None, ENOMEM)
            else do {
              b \<leftarrow> m_tp_buf m;
              f \<leftarrow> mem_rd b x RMR_MAX_XID;
              d \<leftarrow> mem_wr (case dest of Some d \<Rightarrow> d | None \<Rightarrow> malloc_bytes junk RMR_MAX_XID) 0 f;
              Some (Some d, E0) }))"

section \<open>Trace data\<close>

text \<open>The first half of \<^verbatim>\<open>rmr_set_trace\<close>: when the size of the trace area differs the message is
  moved to a reallocated transport buffer.\<close>

definition trace_room :: "mallocs \<Rightarrow> (nat \<Rightarrow> byte) \<Rightarrow> mbuf \<Rightarrow> int \<Rightarrow> int \<Rightarrow> mbuf option" where
  "trace_room ok junk m len sz =
     (if len \<noteq> sz
      then do {
        nm \<leftarrow> rmr_realloc_msg ok junk m sz;
        Some (m\<lparr>m_tp_buf := m_tp_buf nm, m_header := m_header nm,
                m_xaction := m_xaction nm, m_payload := m_payload nm\<rparr>) }
      else Some m)"

definition rmr_set_trace :: "mallocs \<Rightarrow> (nat \<Rightarrow> byte) \<Rightarrow> mbuf option \<Rightarrow> bytes option \<Rightarrow> int
    \<Rightarrow> (int \<times> errno \<times> mbuf option) option" where
  "rmr_set_trace ok junk mb data sz =
     (case mb of None \<Rightarrow> Some (0, EINVAL, mb)
      | Some m \<Rightarrow>
     if sz \<le> 0 then Some (0, E0, mb)
     else (case m_header m of None \<Rightarrow> Some (0, EINVAL, mb)
     | Some h \<Rightarrow> do {
         b \<leftarrow> m_tp_buf m;
         len \<leftarrow> RMR_TR_LEN b h;
         m1 \<leftarrow> trace_room ok junk m (sint len) sz;
         b1 \<leftarrow> m_tp_buf m1;
         h1 \<leftarrow> m_header m1;
         tr \<leftarrow> TRACE_ADDR b1 h1;
         d \<leftarrow> data;
         b2 \<leftarrow> memcpy_in b1 tr d sz;
         Some (sz, E0, Some (m1\<lparr>m_tp_buf := Some b2\<rparr>)) }))"

text \<open>\<^verbatim>\<open>rmr_trace_ref\<close>: the offset of the trace data and the value stored through \<^verbatim>\<open>sizeptr\<close>.\<close>

definition rmr_trace_ref :: "mbuf option \<Rightarrow> (nat option \<times> int) option" where
  "rmr_trace_ref mb =
     (case mb of None \<Rightarrow> Some (None, 0)
      | Some m \<Rightarrow> do {
          h \<leftarrow> m_header m; b \<leftarrow> m_tp_buf m;
          len \<leftarrow> RMR_TR_LEN b h;
          (if sint len \<le> 0 then Some (None, 0)
           else do { a \<leftarrow> TRACE_ADDR b h; Some (Some a, sint len) }) })"

definition rmr_get_trace :: "mbuf option \<Rightarrow> bytes option \<Rightarrow> int \<Rightarrow> (int \<times> bytes option) option" where
  "rmr_get_trace mb dest sz =
     (case (mb, dest) of
        (Some m, Some d) \<Rightarrow>
          if sz \<le> 0 then Some (0, dest)
          else do {
            h \<leftarrow> m_header m; b \<leftarrow> m_tp_buf m;
            len \<leftarrow> RMR_TR_LEN b h;
            (let n = (if sz < uint len then sz else sint len)
             in if n \<le> 0 then Some (0, dest)
                else do {
                  a \<leftarrow> TRACE_ADDR b h;
                  f \<leftarrow> mem_rd b a (nat n);
                  d' \<leftarrow> mem_wr d 0 f;
                  Some (n, Some d') }) }
      | _ \<Rightarrow> Some (0, dest))"

definition rmr_get_trlen :: "mbuf option \<Rightarrow> int option" where
  "rmr_get_trlen mb =
     (case mb of None \<Rightarrow> Some 0
      | Some m \<Rightarrow> do { h \<leftarrow> m_header m; b \<leftarrow> m_tp_buf m; len \<leftarrow> RMR_TR_LEN b h; Some (sint len) })"

section \<open>Source names\<close>

definition rmr_get_src :: "mbuf option \<Rightarrow> bytes option \<Rightarrow> (bytes option \<times> errno) option" where
  "rmr_get_src mb dest =
     (case mb of None \<Rightarrow> Some (None, EINVAL)
      | Some m \<Rightarrow> (case dest of None \<Rightarrow> Some (None, E0)
        | Some d \<Rightarrow> do {
            h \<leftarrow> m_header m; b \<leftarrow> m_tp_buf m;
            r \<leftarrow> zt_buf_fill (Some d) 0 (Some (drop (h + H_SRC) b)) (int RMR_MAX_SRC);
            Some (snd r, E0) }))"

definition rmr_get_srcip :: "mbuf option \<Rightarrow> bytes option \<Rightarrow> (bytes option \<times> errno) option" where
  "rmr_get_srcip mb dest =
     (case (dest, mb) of
        (Some d, Some m) \<Rightarrow> do {
          h \<leftarrow> m_header m; b \<leftarrow> m_tp_buf m;
          ver \<leftarrow> HDR_VERSION b h;
          r \<leftarrow> zt_buf_fill (Some d) 0 (Some (drop (h + (if ver > 2 then H_SRCIP else H_SRC)) b)) (int RMR_MAX_SRC);
          Some (snd r, E0) }
      | _ \<Rightarrow> Some (None, EINVAL))"

section \<open>Allocation with trace data\<close>

definition rmr_tralloc_msg :: "mallocs \<Rightarrow> (nat \<Rightarrow> byte) \<Rightarrow> bool \<Rightarrow> 'a msg_ctx_scheme option \<Rightarrow> int \<Rightarrow> int \<Rightarrow> bytes option
    \<Rightarrow> (mbuf option \<times> 'a msg_ctx_scheme option) option" where
  "rmr_tralloc_msg ok junk tk vctx sz tr_size data =
     (case vctx of None \<Rightarrow> Some (None, None)
      | Some ctx \<Rightarrow> do {
          r \<leftarrow> alloc_zcmsg ok junk tk ctx None sz 0 tr_size;
          (case fst r of None \<Rightarrow> Some (None, Some (snd r))
           | Some m \<Rightarrow> do {
               s \<leftarrow> rmr_set_trace ok junk (Some m) data tr_size;
               m' \<leftarrow> snd (snd s);
               Some (Some (if fst s \<noteq> tr_size then m'\<lparr>m_state := RMR_ERR_INITFAILED\<rparr> else m'),
                     Some (snd r)) }) })"

section \<open>Reallocation keeps the message\<close>

lemma sint_of_nat_small: "n < 2 ^ 31 \<Longrightarrow> sint (of_nat n :: u32) = int n"
  using sint_word_of_int_small [of "int n"] by simp

text \<open>A guarded copy of an area, as \<^verbatim>\<open>realloc_msg\<close> does for the d1 and d2 data.\<close>

lemma area_copy_step:
  assumes "n < 2 ^ 31" and "src + n \<le> length ob" and "dst + n \<le> length b"
  shows "\<exists>b'. copy_area ob (Some src) b (Some dst) (of_nat n) = Some b'
     \<and> frame b b' dst (dst + n) \<and> mem_rd b' dst n = mem_rd ob src n \<and> length b' = length b"
proof (cases "n = 0")
  case True
  with assms show ?thesis by (simp add: mem_rd_def copy_area_def)
next
  case False
  with assms(1) have "(of_nat n :: u32) \<noteq> 0" by (metis unat_of_nat_small unat_0)
  with assms mem_wr_step [of "take n (drop src ob)" n dst b] unat_of_nat_small [OF assms(1)] show ?thesis
    by (auto simp: mem_rd_def copy_area_def)
qed

lemma lens_hdr_len1: "lens b l1 l2 l3 \<Longrightarrow> l1 < 2 ^ 31 \<and> l2 < 2 ^ 31 \<and> l3 < 2 ^ 31"
  by (auto simp: lens_def)

lemma frame_mem_rd_trans:
  "frame b b' lo hi \<Longrightarrow> mem_rd b p n = v \<Longrightarrow> p + n \<le> lo \<or> hi \<le> p \<Longrightarrow> mem_rd b' p n = v"
  by (simp add: frame_rd)

text \<open>The header copy of \<^verbatim>\<open>realloc_msg\<close>: all of the header but the trace length is that of the
  old message.\<close>

lemma realloc_header_step:
  assumes L: "lens ob l1 l2 l3" and "330 \<le> length ob" and "330 \<le> length b1" and "330 + t + l2 + l3 < 2 ^ 31"
  shows "\<exists>hb b2 b3. mem_rd ob 50 280 = Some hb \<and> mem_wr b1 50 hb = Some b2 \<and>
     SET_HDR_TR_LEN b2 50 (int t) = Some b3 \<and> lens b3 t l2 l3 \<and> length b3 = length b1 \<and>
     mem_rd b3 50 200 = mem_rd ob 50 200 \<and> mem_rd b3 254 76 = mem_rd ob 254 76 \<and> frame b1 b3 50 330"
proof -
  let ?hb = "take 280 (drop 50 ob)"
  have hb: "mem_rd ob 50 280 = Some ?hb" "length ?hb = 280" using assms(2) by (simp_all add: mem_rd_def)
  obtain b2 where 2: "mem_wr b1 50 ?hb = Some b2" "frame b1 b2 50 330" "mem_rd b2 50 280 = Some ?hb" "length b2 = length b1"
    using mem_wr_step [of ?hb 280 50 b1] hb(2) assms(3) by auto
  obtain b3 where 3: "set32 b2 250 (of_nat t) = Some b3" "frame b2 b3 250 254" "get32 b3 250 = Some (of_nat t)" "length b3 = length b1"
    using set32_step [of 250 b2 "of_nat t"] 2(4) assms(3) by auto
  have eq: "mem_rd b2 p n = mem_rd ob p n" if "50 \<le> p" "p + n \<le> 330" for p n
  proof -
    have "mem_rd b2 50 (p - 50 + n) = mem_rd ob 50 (p - 50 + n)"
      using mem_rd_split [of b2 50 "p - 50 + n" "280 - (p - 50 + n)" ?hb]
        mem_rd_split [of ob 50 "p - 50 + n" "280 - (p - 50 + n)" ?hb] 2(3) hb(1) that by simp
    moreover have "mem_rd ob 50 (p - 50 + n) = Some (take (p - 50 + n) (drop 50 ob))"
      using that assms(2) by (simp add: mem_rd_def)
    ultimately show ?thesis
      using mem_rd_split [of b2 50 "p - 50" n] mem_rd_split [of ob 50 "p - 50" n] that by simp
  qed
  have "mem_rd b3 50 200 = mem_rd ob 50 200" "mem_rd b3 254 76 = mem_rd ob 254 76"
    using eq [of 50 200] eq [of 254 76] frame_rd [OF 3(2)] by simp_all
  moreover have "lens b3 t l2 l3"
    using L 3(3) assms(4) eq [of 246 4] eq [of 254 4] eq [of 258 4] frame_get32 [OF 3(2)]
    by (auto simp: lens_def get32_def)
  moreover have "frame b1 b3 50 330" using frame_trans [OF 2(2) 3(2), of 50 330] by simp
  ultimately show ?thesis using hb(1) 2(1) 3(1,4) by (simp add: SET_HDR_TR_LEN_def)
qed

lemma realloc_msg_ok:
  assumes om: "mbuf_ok om ob l1 l2 l3" and ln: "0 \<le> m_len om" "m_len om \<le> m_alloc_len om - 330 - int l1 - int l2 - int l3"
    and t: "m_alloc_len om + int t + 50 < 2 ^ 31" and ok: "ok M_mbuf" "ok M_tpbuf"
  shows "\<exists>nm b. realloc_msg ok junk om (int t) = Some nm \<and> m_tp_buf nm = Some b \<and> m_header nm = Some 50 \<and>
     m_xaction nm = Some 62 \<and> m_payload nm = Some (330 + t + l2 + l3) \<and> lens b t l2 l3 \<and>
     m_alloc_len nm = m_alloc_len om + int t - int l1 \<and> int (length b) = m_alloc_len om + int t - int l1 + 50 \<and>
     m_len nm = m_len om \<and> m_mtype nm = m_mtype om \<and> m_sub_id nm = m_sub_id om \<and> m_state nm = m_state om \<and>
     mem_rd b 50 200 = mem_rd ob 50 200 \<and> mem_rd b 254 76 = mem_rd ob 254 76 \<and>
     mem_rd b (330 + t) l2 = mem_rd ob (330 + l1) l2 \<and>
     mem_rd b (330 + t + l2) l3 = mem_rd ob (330 + l1 + l2) l3 \<and>
     mem_rd b (330 + t + l2 + l3) (nat (m_len om)) = mem_rd ob (330 + l1 + l2 + l3) (nat (m_len om))"
proof -
  let ?mlen = "m_alloc_len om + (int t - int l1)" and ?n = "nat (m_len om)"
  from om have f: "m_tp_buf om = Some ob" "m_header om = Some 50" "m_payload om = Some (330 + l1 + l2 + l3)"
    "lens ob l1 l2 l3" and al: "330 + int l1 + int l2 + int l3 \<le> m_alloc_len om" "m_alloc_len om \<le> int (length ob)"
    by (simp_all add: mbuf_ok_def)
  note s = lens_hdr_len1 [OF f(4)] and old = lens_rd [OF f(4)]
  define b0 where "b0 = malloc_bytes junk (nat (?mlen + 50))"
  have l0: "int (length b0) = ?mlen + 50" using al ln by (simp add: b0_def)
  obtain b1 where 1: "insert_mlen (word_of_int (?mlen + 50)) b0 = Some b1" "length b1 = length b0"
    using insert_mlen_step [of b0 "word_of_int (?mlen + 50)"] l0 al by auto
  obtain hb b2 b3 where 3: "mem_rd ob 50 280 = Some hb" "mem_wr b1 50 hb = Some b2"
      "SET_HDR_TR_LEN b2 50 (int t) = Some b3" "lens b3 t l2 l3" "length b3 = length b0"
      "mem_rd b3 50 200 = mem_rd ob 50 200" "mem_rd b3 254 76 = mem_rd ob 254 76"
    using realloc_header_step [OF f(4), of b1 t] 1(2) l0 al t ln by auto
  note new3 = lens_rd [OF 3(4)]
  obtain b4 where 4: "copy_area ob (Some (330 + l1)) b3 (Some (330 + t)) (of_nat l2) = Some b4"
      "frame b3 b4 (330 + t) (330 + t + l2)" "mem_rd b4 (330 + t) l2 = mem_rd ob (330 + l1) l2" "length b4 = length b0"
    using area_copy_step [of l2 "330 + l1" ob "330 + t" b3] s al l0 3(5) ln by auto
  have L4: "lens b4 t l2 l3" using lens_frame [OF 3(4) 4(2)] by simp
  note new4 = lens_rd [OF L4]
  obtain b5 where 5: "copy_area ob (Some (330 + l1 + l2)) b4 (Some (330 + t + l2)) (of_nat l3) = Some b5"
      "frame b4 b5 (330 + t + l2) (330 + t + l2 + l3)" "mem_rd b5 (330 + t + l2) l3 = mem_rd ob (330 + l1 + l2) l3" "length b5 = length b0"
    using area_copy_step [of l3 "330 + l1 + l2" ob "330 + t + l2" b4] s al l0 4(4) ln by auto
  have L5: "lens b5 t l2 l3" using lens_frame [OF L4 5(2)] by simp
  have pr: "mem_rd ob (330 + l1 + l2 + l3) ?n = Some (take ?n (drop (330 + l1 + l2 + l3) ob))"
    using al ln by (simp add: mem_rd_def)
  have room: "330 + t + l2 + l3 + ?n \<le> length b5" using 5(4) l0 ln by linarith
  obtain b6 where 6: "mem_wr b5 (330 + t + l2 + l3) (take ?n (drop (330 + l1 + l2 + l3) ob)) = Some b6"
      "frame b5 b6 (330 + t + l2 + l3) (330 + t + l2 + l3 + ?n)"
      "mem_rd b6 (330 + t + l2 + l3) ?n = Some (take ?n (drop (330 + l1 + l2 + l3) ob))" "length b6 = length b0"
    using mem_wr_step [of "take ?n (drop (330 + l1 + l2 + l3) ob)" ?n "330 + t + l2 + l3" b5] mem_rd_length [OF pr] 5(4) room by auto
  have L6: "lens b6 t l2 l3" using lens_frame [OF L5 6(2)] by simp
  note fr = frame_rd [OF 4(2)] frame_rd [OF 5(2)] frame_rd [OF 6(2)]
  have v: "\<exists>v. HDR_VERSION ob 50 = Some v" using al by (simp add: HDR_VERSION_def get32_def mem_rd_def)
  have sl: "sint (word_of_int ?mlen :: u32) = ?mlen"
    by (rule sint_word_of_int_small) (use al t s ln in simp_all)
  have so: "sint (of_nat l1 :: u32) = int l1" using s by (simp add: sint_of_nat_small)
  have u: "unat (of_nat l2 :: u32) = l2" "unat (of_nat l3 :: u32) = l3" using s by (simp_all add: unat_of_nat_small)
  let ?nm = "zero_mbuf\<lparr>m_tp_buf := Some b6, m_header := Some TP_HDR_LEN, m_payload := Some (330 + t + l2 + l3),
             m_mtype := m_mtype om, m_sub_id := m_sub_id om, m_len := m_len om,
             m_alloc_len := ?mlen, m_xaction := Some (TP_HDR_LEN + H_XID),
             m_state := m_state om, m_flags := m_flags om OR MFL_ZEROCOPY\<rparr>"
  have r: "realloc_msg ok junk om (int t) = Some ?nm"
    unfolding realloc_msg_def
    using f ok old so 1(1) v 3(1-3) new3 new4 4(1) 5(1) u lens_rd(2) [OF L5] pr 6(1) ln sl
    by (auto simp add: Let_def b0_def [symmetric])
  show ?thesis
    by (rule exI [of _ ?nm], rule exI [of _ b6])
      (use r L6 l0 6(3,4) pr 3(6,7) 4(3) 5(3) fr in simp)
qed

section \<open>Properties of the trace interface\<close>

text \<open>
  C30. \<^verbatim>\<open>rmr_set_trace\<close> on a well-formed message stores the data: \<^verbatim>\<open>rmr_get_trace\<close> reads it back,
  the length in the header is the length of the data, and the rest of the header, the d1 and d2
  data and the used payload are those of the message before, whether or not the transport
  buffer had to be reallocated.
\<close>

theorem set_trace_roundtrip:
  assumes m: "mbuf_ok m b l1 l2 l3" and ln: "0 \<le> m_len m" "m_len m \<le> m_alloc_len m - 330 - int l1 - int l2 - int l3"
    and d: "data \<noteq> []" "m_alloc_len m + int (length data) + 50 < 2 ^ 31" and ok: "ok M_mbuf" "ok M_tpbuf"
  shows "\<exists>m' b'. rmr_set_trace ok junk (Some m) (Some data) (int (length data)) = Some (int (length data), E0, Some m') \<and>
     m_tp_buf m' = Some b' \<and> lens b' (length data) l2 l3 \<and>
     rmr_get_trace (Some m') (Some (replicate (length data) 0)) (int (length data)) = Some (int (length data), Some data) \<and>
     m_payload m' = Some (330 + length data + l2 + l3) \<and>
     mem_rd b' 50 200 = mem_rd b 50 200 \<and> mem_rd b' 254 76 = mem_rd b 254 76 \<and>
     mem_rd b' (330 + length data) l2 = mem_rd b (330 + l1) l2 \<and>
     mem_rd b' (330 + length data + l2) l3 = mem_rd b (330 + l1 + l2) l3 \<and>
     mem_rd b' (330 + length data + l2 + l3) (nat (m_len m)) = mem_rd b (330 + l1 + l2 + l3) (nat (m_len m))"
proof -
  let ?n = "length data"
  from m have f: "m_tp_buf m = Some b" "m_header m = Some 50" "m_payload m = Some (330 + l1 + l2 + l3)" "lens b l1 l2 l3"
     "330 + int l1 + int l2 + int l3 \<le> m_alloc_len m" "m_alloc_len m \<le> int (length b)" by (simp_all add: mbuf_ok_def)
  have s: "sint (of_nat l1 :: u32) = int l1" using lens_hdr_len1 [OF f(4)] by (simp add: sint_of_nat_small)
  have n: "sint (of_nat ?n :: u32) = int ?n" "uint (of_nat ?n :: u32) = int ?n"
    using d f(5) by (simp_all add: sint_of_nat_small uint_nat unat_of_nat_small)
  have "\<exists>x b1. trace_room ok junk m (int l1) (int ?n) = Some x \<and> m_tp_buf x = Some b1 \<and> m_header x = Some 50 \<and> m_payload x = Some (330 + ?n + l2 + l3) \<and>
     lens b1 ?n l2 l3 \<and> 330 + ?n \<le> length b1 \<and>
     mem_rd b1 50 200 = mem_rd b 50 200 \<and> mem_rd b1 254 76 = mem_rd b 254 76 \<and>
     mem_rd b1 (330 + ?n) l2 = mem_rd b (330 + l1) l2 \<and>
     mem_rd b1 (330 + ?n + l2) l3 = mem_rd b (330 + l1 + l2) l3 \<and>
     mem_rd b1 (330 + ?n + l2 + l3) (nat (m_len m)) = mem_rd b (330 + l1 + l2 + l3) (nat (m_len m))"
  proof (cases "l1 = ?n")
    case True
    with f show ?thesis by (simp add: trace_room_def)
  next
    case False
    from realloc_msg_ok [OF m ln d(2), of ok, OF ok, of junk] f(5) False show ?thesis
      by (auto simp: trace_room_def rmr_realloc_msg_def)
  qed
  then obtain x b1 where x: "trace_room ok junk m (int l1) (int ?n) = Some x" "m_tp_buf x = Some b1" "m_header x = Some 50" "m_payload x = Some (330 + ?n + l2 + l3)"
     "lens b1 ?n l2 l3" "330 + ?n \<le> length b1"
     "mem_rd b1 50 200 = mem_rd b 50 200" "mem_rd b1 254 76 = mem_rd b 254 76"
     "mem_rd b1 (330 + ?n) l2 = mem_rd b (330 + l1) l2"
     "mem_rd b1 (330 + ?n + l2) l3 = mem_rd b (330 + l1 + l2) l3"
     "mem_rd b1 (330 + ?n + l2 + l3) (nat (m_len m)) = mem_rd b (330 + l1 + l2 + l3) (nat (m_len m))" by blast
  obtain b2 where 2: "mem_wr b1 330 data = Some b2" "frame b1 b2 330 (330 + ?n)" "mem_rd b2 330 ?n = Some data"
    using mem_wr_step [of data ?n 330 b1] x(6) by auto
  have L: "lens b2 ?n l2 l3" using lens_frame [OF x(5) 2(2)] by simp
  let ?m = "x\<lparr>m_tp_buf := Some b2\<rparr>"
  have "rmr_set_trace ok junk (Some m) (Some data) (int ?n) = Some (int ?n, E0, Some ?m)"
    using f d x(1-3) s lens_rd(6) [OF f(4)] lens_rd(3) [OF x(5)] 2(1)
    by (simp add: rmr_set_trace_def memcpy_in_def)
  moreover have "rmr_get_trace (Some ?m) (Some (replicate ?n 0)) (int ?n) = Some (int ?n, Some data)"
    using d x(3) lens_rd(3,6) [OF L] n 2(3) by (simp add: rmr_get_trace_def mem_wr_def Let_def)
  ultimately show ?thesis using L x(4,7-11) frame_rd [OF 2(2)]
    by (intro exI [of _ ?m] exI [of _ b2]) simp
qed

text \<open>A concrete message: four bytes of trace data, four of d1 data and sixteen of payload.\<close>

definition demo_buf :: bytes where
  "demo_buf = replicate 246 0 @ put_be32 280 @ put_be32 4 @ put_be32 4 @ put_be32 0 @ replicate 92 0"

definition demo_msg :: mbuf where
  "demo_msg = zero_mbuf\<lparr>m_tp_buf := Some demo_buf, m_header := Some 50, m_payload := Some 338,
     m_xaction := Some 62, m_alloc_len := 354\<rparr>"

lemma length_demo_buf: "length demo_buf = 354"
  by (simp add: demo_buf_def)

lemma demo_msg_ok: "mbuf_ok demo_msg demo_buf 4 4 0"
  by (simp add: mbuf_ok_def lens_def demo_msg_def zero_mbuf_def length_demo_buf)
    (simp add: demo_buf_def get32_def mem_rd_def)

lemma demo_msg_fields [simp]: "m_len demo_msg = 0" "m_alloc_len demo_msg = 354"
  by (simp_all add: demo_msg_def zero_mbuf_def)

theorem set_trace_roundtrip_witness:
  "\<exists>m'. rmr_set_trace (\<lambda>_. True) (\<lambda>_. 0xaa) (Some demo_msg) (Some [1, 2, 3]) (int (length [1::byte, 2, 3]))
        = Some (int (length [1::byte, 2, 3]), E0, Some m') \<and>
     rmr_get_trace (Some m') (Some (replicate (length [1::byte, 2, 3]) 0)) (int (length [1::byte, 2, 3]))
        = Some (int (length [1::byte, 2, 3]), Some [1, 2, 3])"
  using set_trace_roundtrip [OF demo_msg_ok, of "[1, 2, 3]" "\<lambda>_. True" "\<lambda>_. 0xaa"] by auto

text \<open>
  \<^verbatim>\<open>rmr_set_trace\<close> leaves the allocated length of the message at its old value when it moves the
  message to a reallocated buffer, so that afterwards \<^verbatim>\<open>rmr_payload_size\<close> is off by the
  difference of the trace sizes: growing the trace makes the reported payload size smaller,
  down to negative values, and shrinking it makes it larger than the room of the new buffer.
\<close>

theorem set_trace_stale_alloc_len:
  assumes m: "mbuf_ok m b l1 l2 l3" and ln: "0 \<le> m_len m" "m_len m \<le> m_alloc_len m - 330 - int l1 - int l2 - int l3"
    and d: "data \<noteq> []" "length data \<noteq> l1" "m_alloc_len m + int (length data) + 50 < 2 ^ 31" and ok: "ok M_mbuf" "ok M_tpbuf"
  shows "\<exists>m' b' psz. rmr_set_trace ok junk (Some m) (Some data) (int (length data)) = Some (int (length data), E0, Some m') \<and>
     m_tp_buf m' = Some b' \<and> m_alloc_len m' = m_alloc_len m \<and>
     int (length b') = m_alloc_len m + int (length data) - int l1 + 50 \<and>
     rmr_payload_size (Some m) = Some (psz, E0) \<and>
     rmr_payload_size (Some m') = Some (psz + int l1 - int (length data), E0)"
proof -
  let ?n = "length data" and ?k = "280 + int (length data) + int l2 + int l3"
  from m have f: "m_tp_buf m = Some b" "m_header m = Some 50" "lens b l1 l2 l3"
     "330 + int l1 + int l2 + int l3 \<le> m_alloc_len m" "m_alloc_len m < 2 ^ 31" by (simp_all add: mbuf_ok_def)
  have s: "sint (of_nat l1 :: u32) = int l1" using lens_hdr_len1 [OF f(3)] by (simp add: sint_of_nat_small)
  obtain nm b1 where r: "realloc_msg ok junk m (int ?n) = Some nm" "m_tp_buf nm = Some b1" "m_header nm = Some 50"
     "lens b1 ?n l2 l3" "int (length b1) = m_alloc_len m + int ?n - int l1 + 50"
    using realloc_msg_ok [OF m ln d(3), of ok, OF ok, of junk] by blast
  obtain b2 where 2: "mem_wr b1 330 data = Some b2" "frame b1 b2 330 (330 + ?n)" "length b2 = length b1"
    using mem_wr_step [of data ?n 330 b1] r(5) f(4) by auto
  have L: "lens b2 ?n l2 l3" using lens_frame [OF r(4) 2(2)] by simp
  let ?m = "m\<lparr>m_tp_buf := Some b2, m_header := Some 50, m_xaction := m_xaction nm, m_payload := m_payload nm\<rparr>"
  have "rmr_set_trace ok junk (Some m) (Some data) (int ?n) = Some (int ?n, E0, Some ?m)"
    using f d r s lens_rd(6) [OF f(3)] lens_rd(3) [OF r(4)] 2(1)
    by (simp add: rmr_set_trace_def memcpy_in_def trace_room_def rmr_realloc_msg_def)
  moreover have "rmr_payload_size (Some ?m) = Some (m_alloc_len m - 330 - int l2 - int l3 - int ?n, E0)"
  proof -
    have w: "(word_of_int (m_alloc_len m) - word_of_int ?k - 50 :: u32)
        = word_of_int (m_alloc_len m - 330 - int l2 - int l3 - int ?n)" by simp
    have "psize_of (m_alloc_len m) (word_of_int ?k) = m_alloc_len m - 330 - int l2 - int l3 - int ?n"
      unfolding psize_of_def w by (rule sint_word_of_int_small) (use f d in simp_all)
    with lens_rd(1) [OF L] show ?thesis by (simp add: rmr_payload_size_def)
  qed
  ultimately show ?thesis using mbuf_ok_psize [OF m] 2(3) r(5)
    by (intro exI [of _ ?m] exI [of _ b2]) simp
qed

theorem set_trace_stale_alloc_len_witness:
  "\<exists>m'. rmr_set_trace (\<lambda>_. True) (\<lambda>_. 0xaa) (Some demo_msg) (Some (replicate 40 7)) 40 = Some (40, E0, Some m') \<and>
     rmr_payload_size (Some demo_msg) = Some (16, E0) \<and> rmr_payload_size (Some m') = Some (-20, E0)"
  using set_trace_stale_alloc_len [OF demo_msg_ok, of "replicate 40 7" "\<lambda>_. True" "\<lambda>_. 0xaa"]
    mbuf_ok_psize [OF demo_msg_ok] by (auto simp: neq_Nil_conv numeral_eq_Suc)

section \<open>Properties of the payload copy\<close>

text \<open>
  \<^verbatim>\<open>rmr_bytes2payload\<close> copies every payload that fits: the bytes are in the payload area, the
  length and an ok state are set and the header is untouched.  A payload larger than
  \<^verbatim>\<open>rmr_payload_size\<close> is written past the end of the transport buffer, also when the length
  is cut and the overflow state is set, because the bound counts neither the transport header
  nor the trace and data areas.
\<close>

theorem bytes2payload_exact:
  assumes m: "mbuf_ok m b l1 l2 l3" and bl: "int (length b) = m_alloc_len m"
    and s: "len \<le> int (length src)" "len < 2 ^ 31" and n: "0 \<le> len"
  shows "if len \<le> m_alloc_len m - 330 - int l1 - int l2 - int l3
     then \<exists>m' b'. rmr_bytes2payload (Some m) (Some src) len = Some (E0, Some m') \<and> mbuf_ok m' b' l1 l2 l3 \<and>
       m_len m' = len \<and> m_state m' = RMR_OK \<and> mem_rd b' (330 + l1 + l2 + l3) (nat len) = Some (take (nat len) src) \<and>
       take (330 + l1 + l2 + l3) b' = take (330 + l1 + l2 + l3) b
     else rmr_bytes2payload (Some m) (Some src) len = None"
proof -
  let ?o = "330 + l1 + l2 + l3" and ?a = "m_alloc_len m"
  from m have f: "m_tp_buf m = Some b" "m_payload m = Some ?o" "lens b l1 l2 l3"
     "330 + int l1 + int l2 + int l3 \<le> ?a" "?a < 2 ^ 31" by (simp_all add: mbuf_ok_def)
  have md: "(?a - 280) mod 2 ^ 64 = ?a - 280" "len mod 2 ^ 64 = len" using f(4,5) n s(2) by simp_all
  have w: "sint (word_of_int (?a - 280) :: u32) = ?a - 280"
    by (rule sint_word_of_int_small) (use f(4,5) in simp_all)
  show ?thesis
  proof (cases "len \<le> ?a - 330 - int l1 - int l2 - int l3")
    case True
    have room: "?o + nat len \<le> length b" using True bl n by linarith
    obtain b' where b': "mem_wr b ?o (take (nat len) src) = Some b'" "frame b b' ?o (?o + nat len)"
        "mem_rd b' ?o (nat len) = Some (take (nat len) src)" "length b' = length b"
      using mem_wr_step [of "take (nat len) src" "nat len" ?o b] room s by auto
    let ?m = "m\<lparr>m_state := RMR_OK, m_len := len, m_tp_buf := Some b'\<rparr>"
    have "rmr_bytes2payload (Some m) (Some src) len = Some (E0, Some ?m)"
      using f True md n s b'(1) by (simp add: rmr_bytes2payload_def memcpy_in_def Let_def)
    moreover have "mbuf_ok ?m b' l1 l2 l3"
      using m lens_frame [OF f(3) b'(2)] b'(4) by (simp add: mbuf_ok_def)
    ultimately show ?thesis using True b'(3) mem_wr_take [OF b'(1)]
      by (simp, intro exI [of _ ?m] exI [of _ b']) simp
  next
    case False
    have "memcpy_in b ?o src k = None" if "?a - 330 - int l1 - int l2 - int l3 < k" for k
      using that bl by (auto simp: memcpy_in_def mem_wr_def)
    from this [of len] this [of "?a - 280"] f False md w show ?thesis
      by (auto simp: rmr_bytes2payload_def Let_def)
  qed
qed

theorem bytes2payload_exact_witness:
  "(\<exists>m'. rmr_bytes2payload (Some demo_msg) (Some (replicate 16 7)) 16 = Some (E0, Some m') \<and> m_len m' = 16) \<and>
   rmr_bytes2payload (Some demo_msg) (Some (replicate 17 7)) 17 = None"
  using bytes2payload_exact [OF demo_msg_ok, of 16 "replicate 16 7"]
    bytes2payload_exact [OF demo_msg_ok, of 17 "replicate 17 7"] length_demo_buf by auto

section \<open>Properties of the identifier fields\<close>

lemma mbuf_ok_bound: "mbuf_ok m b l1 l2 l3 \<Longrightarrow> 330 + l1 + l2 + l3 \<le> length b"
  by (auto simp: mbuf_ok_def)

lemma mbuf_ok_frame:
  assumes "mbuf_ok m b l1 l2 l3" and "frame b b' lo hi" and "hi \<le> 246 \<or> 262 \<le> lo"
  shows "mbuf_ok (m\<lparr>m_tp_buf := Some b'\<rparr>) b' l1 l2 l3"
  using assms lens_frame [OF _ assms(2,3)] frame_length [OF assms(2)] by (auto simp: mbuf_ok_def)

lemma cstr_string [simp]: "0 \<notin> set s \<Longrightarrow> cstr (s @ [0]) = s"
  using cstr_append_nil [of s "[]"] by simp

text \<open>
  A managed entity id of at most 31 characters set with \<^verbatim>\<open>rmr_str2meid\<close> is what \<^verbatim>\<open>rmr_get_meid\<close>
  returns; only the id field of the buffer changes and the message stays well-formed.  A longer
  string is refused with the overflow state and the message is not touched.
\<close>

theorem meid_roundtrip:
  assumes m: "mbuf_ok m b l1 l2 l3" and s: "0 \<notin> set s" and ok: "ok M_user"
  shows "if length s \<le> 31
     then \<exists>m' b' d. rmr_str2meid (Some m) (Some (s @ [0])) = Some (RMR_OK, E0, Some m') \<and> mbuf_ok m' b' l1 l2 l3 \<and>
       rmr_get_meid ok junk (Some m') None = Some (Some d, E0) \<and> cstr d = s \<and> length d = 32 \<and>
       frame b b' 190 222
     else rmr_str2meid (Some m) (Some (s @ [0])) = Some (RMR_ERR_OVERFLOW, EOVERFLOW, Some m)"
proof (cases "length s \<le> 31")
  case True
  let ?k = "length s + 1"
  from m have f: "m_tp_buf m = Some b" "m_header m = Some 50" and bl: "330 \<le> length b"
    using mbuf_ok_bound [OF m] by (simp_all add: mbuf_ok_def)
  obtain b1 where 1: "mem_wr b 190 (s @ [0]) = Some b1" "frame b b1 190 (190 + ?k)" "mem_rd b1 190 ?k = Some (s @ [0])" "length b1 = length b"
    using mem_wr_step [of "s @ [0]" ?k 190 b] bl True by auto
  have "\<exists>b2. rmr_bytes2meid (Some m) (Some (s @ [0])) (int (length s) + 1) = Some (int ?k, E0, Some (m\<lparr>m_tp_buf := Some b2\<rparr>)) \<and>
      frame b b2 190 222 \<and> mem_rd b2 190 ?k = Some (s @ [0])"
  proof (cases "?k = 32")
    case T: True
    have "mem_rd b1 (190 + length s) 1 = Some [0]" using mem_rd_split [of b1 190 "length s" 1] 1(3) by simp
    with T have "mem_rd b1 221 (Suc 0) = Some [0]" by simp
    with T 1 f show ?thesis by (intro exI [of _ b1]) (simp add: rmr_bytes2meid_def memcpy_in_def Let_def)
  next
    case F: False
    obtain b2 where 2: "mem_wr b1 (190 + ?k) [0] = Some b2" "frame b1 b2 (190 + ?k) (190 + ?k + 1)"
      using mem_wr_step [of "[0]" 1 "190 + ?k" b1] bl True 1(4) by auto
    have "mem_rd b2 190 ?k = Some (s @ [0])" using frame_rd [OF 2(2)] 1(3) by simp
    moreover have "frame b b2 190 222" using frame_trans [OF 1(2) 2(2), of 190 222] F True by simp
    moreover have "nat (int (length s) + 1) = ?k" by simp
    ultimately show ?thesis using F True 1(1) 2(1) f
      by (intro exI [of _ b2]) (simp add: rmr_bytes2meid_def memcpy_in_def Let_def)
  qed
  then obtain b2 where 2: "rmr_bytes2meid (Some m) (Some (s @ [0])) (int (length s) + 1)
        = Some (int ?k, E0, Some (m\<lparr>m_tp_buf := Some b2\<rparr>))" "frame b b2 190 222" "mem_rd b2 190 ?k = Some (s @ [0])"
    by blast
  have l2: "length b2 = length b" using frame_length [OF 2(2)] .
  have rd: "mem_rd b2 190 32 = Some (take 32 (drop 190 b2))" using l2 bl by (simp add: mem_rd_def)
  have "map_option cstr (mem_rd b2 190 32) = Some s" using cstr_field [OF 2(3) s, of 32] l2 bl True by simp
  with rd have "cstr (take 32 (drop 190 b2)) = s" by simp
  moreover have "rmr_get_meid ok junk (Some (m\<lparr>m_tp_buf := Some b2\<rparr>)) None = Some (Some (take 32 (drop 190 b2)), E0)"
    using f rd ok l2 bl by (simp add: rmr_get_meid_def mem_wr_def)
  moreover have "rmr_str2meid (Some m) (Some (s @ [0])) = Some (RMR_OK, E0, Some (m\<lparr>m_tp_buf := Some b2\<rparr>))"
    using f 2(1) s True by (simp add: rmr_str2meid_def strlen_def)
  ultimately show ?thesis using mbuf_ok_frame [OF m 2(2)] 2(2) True l2 bl
    by (simp, intro exI [of _ "m\<lparr>m_tp_buf := Some b2\<rparr>"] exI [of _ b2]) simp
next
  case False
  with m s show ?thesis by (simp add: rmr_str2meid_def mbuf_ok_def strlen_def)
qed

theorem meid_roundtrip_witness:
  "(\<exists>m' d. rmr_str2meid (Some demo_msg) (Some ([65, 66] @ [0])) = Some (RMR_OK, E0, Some m') \<and>
     rmr_get_meid (\<lambda>_. True) (\<lambda>_. 0xaa) (Some m') None = Some (Some d, E0) \<and> cstr d = [65, 66]) \<and>
   rmr_str2meid (Some demo_msg) (Some (replicate 32 65 @ [0])) = Some (RMR_ERR_OVERFLOW, EOVERFLOW, Some demo_msg)"
  using meid_roundtrip [OF demo_msg_ok, of "[65, 66]" "\<lambda>_. True" "\<lambda>_. 0xaa"]
    meid_roundtrip [OF demo_msg_ok, of "replicate 32 65" "\<lambda>_. True" "\<lambda>_. 0xaa"] by auto

text \<open>
  A transaction id set from bytes is what \<^verbatim>\<open>rmr_get_xact\<close> returns, cut to 32 bytes with the
  overflow error when it is longer; no byte outside of the field changes, also not the bytes
  of the field after a shorter id.
\<close>

theorem xact_roundtrip:
  assumes m: "mbuf_ok m b l1 l2 l3" and ok: "ok M_user"
  shows "\<exists>m' b' d. rmr_bytes2xact (Some m) (Some s) (int (length s))
       = Some (int (min (length s) 32), if length s > 32 then EOVERFLOW else E0, Some m') \<and>
     mbuf_ok m' b' l1 l2 l3 \<and> rmr_get_xact ok junk (Some m') None = Some (Some d, E0) \<and> length d = 32 \<and>
     take (length s) d = take 32 s \<and> frame b b' 62 (62 + min (length s) 32)"
proof -
  let ?k = "min (length s) 32"
  from m have f: "m_tp_buf m = Some b" "m_header m = Some 50" "m_xaction m = Some 62" and bl: "330 \<le> length b"
    using mbuf_ok_bound [OF m] by (simp_all add: mbuf_ok_def)
  have room: "62 + ?k \<le> length b" using bl by linarith
  obtain b1 where 1: "mem_wr b 62 (take ?k s) = Some b1" "frame b b1 62 (62 + ?k)" "mem_rd b1 62 ?k = Some (take ?k s)" "length b1 = length b"
    using mem_wr_step [OF _ room, of "take ?k s"] by auto
  let ?m = "m\<lparr>m_tp_buf := Some b1\<rparr>" and ?d = "take 32 (drop 62 b1)"
  have "rmr_bytes2xact (Some m) (Some s) (int (length s)) = Some (int ?k, if length s > 32 then EOVERFLOW else E0, Some ?m)"
    using f 1(1) by (auto simp: rmr_bytes2xact_def memcpy_in_def Let_def min_def)
  moreover have "rmr_get_xact ok junk (Some ?m) None = Some (Some ?d, E0)"
    using f ok bl 1(4) by (simp add: rmr_get_xact_def mem_rd_def mem_wr_def)
  moreover have "take (length s) ?d = take 32 s"
    using 1(3) by (simp add: mem_rd_Some_iff min_def split: if_splits)
  ultimately show ?thesis using mbuf_ok_frame [OF m 1(2)] 1(2,4) bl
    by (intro exI [of _ ?m] exI [of _ b1] exI [of _ ?d]) simp
qed

theorem xact_roundtrip_witness:
  "\<exists>m' d. rmr_bytes2xact (Some demo_msg) (Some (replicate 40 9)) (int (length (replicate 40 (9::byte)))) = Some (32, EOVERFLOW, Some m') \<and>
     rmr_get_xact (\<lambda>_. True) (\<lambda>_. 0xaa) (Some m') None = Some (Some d, E0) \<and> take 40 d = replicate 32 9"
  using xact_roundtrip [OF demo_msg_ok, of "\<lambda>_. True" "replicate 40 9" "\<lambda>_. 0xaa"] by auto

section \<open>Properties of payload reallocation\<close>

lemma ref_tpbuf_lens:
  assumes "m_tp_buf m = Some b" and "lens b l1 l2 l3" and "330 \<le> length b"
  shows "\<exists>m'. ref_tpbuf m alen = Some m' \<and> m_tp_buf m' = Some b \<and> m_header m' = Some 50 \<and>
     m_payload m' = Some (330 + l1 + l2 + l3) \<and> m_xaction m' = Some 62 \<and>
     m_alloc_len m' = sint (word_of_int alen :: u32) \<and> m_rts_fd m' = m_rts_fd m \<and>
     m_len m' \<le> m_alloc_len m' - 280 - int l1 - int l2 - int l3"
proof -
  have g: "\<exists>v. get32 b p = Some v" if "p + 4 \<le> 330" for p
    using that assms(3) by (simp add: get32_def mem_rd_def)
  obtain v1 v2 v3 v4 where v: "HDR_VERSION b 50 = Some v1" "get32 b 54 = Some v2" "get32 b 50 = Some v3" "get32 b 262 = Some v4"
    using g [of 54] g [of 50] g [of 262] g [of 58] by (auto simp: HDR_VERSION_def)
  have hl: "sint (word_of_int (280 + int l1 + int l2 + int l3) :: u32) = 280 + int l1 + int l2 + int l3"
    by (rule sint_word_of_int_small) (use assms(2) in \<open>auto simp: lens_def\<close>)
  show ?thesis unfolding ref_tpbuf_def
    using assms(1) v lens_rd(1,2) [OF assms(2)] hl by (simp add: Let_def)
qed

lemma realloc_copy_step:
  assumes m: "mbuf_ok om ob l1 l2 l3" and k: "280 + l1 + l2 + l3 \<le> k" "50 + k \<le> length ob" "50 + k \<le> length b0"
  shows "\<exists>b1 b2. SET_HDR_LEN b0 50 = Some b1 \<and> mem_wr b1 50 (take k (drop 50 ob)) = Some b2 \<and>
     lens b2 l1 l2 l3 \<and> length b2 = length b0 \<and> mem_rd b2 50 k = mem_rd ob 50 k"
proof -
  from m have L: "lens ob l1 l2 l3" by (simp add: mbuf_ok_def)
  obtain b1 where 1: "set32 b0 246 280 = Some b1" "length b1 = length b0"
    using set32_step [of 246 b0 280] k by auto
  obtain b2 where 2: "mem_wr b1 50 (take k (drop 50 ob)) = Some b2" "mem_rd b2 50 k = Some (take k (drop 50 ob))" "length b2 = length b0"
    using mem_wr_step [of "take k (drop 50 ob)" k 50 b1] k 1(2) by auto
  have o: "mem_rd ob 50 k = Some (take k (drop 50 ob))" using k by (simp add: mem_rd_def)
  have eq: "mem_rd b2 p 4 = mem_rd ob p 4" if "50 \<le> p" "p + 4 \<le> 50 + k" for p
    using mem_rd_split [of b2 50 "p - 50 + 4" "k - (p - 50 + 4)"] mem_rd_split [of ob 50 "p - 50 + 4" "k - (p - 50 + 4)"]
      mem_rd_split [of b2 50 "p - 50" 4] mem_rd_split [of ob 50 "p - 50" 4] 2(2) o that by simp
  have "lens b2 l1 l2 l3" using L eq [of 246] eq [of 250] eq [of 254] eq [of 258] k by (simp add: lens_def get32_def)
  with 1(1) 2 o show ?thesis by (simp add: SET_HDR_LEN_def)
qed

lemma payload_move_ok:
  assumes m: "mbuf_ok om ob l1 l2 l3" and bl: "int (length ob) = m_alloc_len om"
    and h: "h = 280 + int l1 + int l2 + int l3" and mlen: "m_alloc_len om \<le> mlen" "mlen < 2 ^ 31"
  shows "\<exists>nm nb. payload_move junk om nm0 ob 50 (word_of_int h) (m_alloc_len om - 50 - h) mlen copy = Some nm \<and>
     mbuf_ok nm nb l1 l2 l3 \<and> m_alloc_len nm = mlen \<and>
     (if copy then mem_rd nb 50 (length ob - 50) = mem_rd ob 50 (length ob - 50) \<and>
        m_len nm = m_len om \<and> m_mtype nm = m_mtype om \<and> m_sub_id nm = m_sub_id om
      else m_len nm = 0 \<and> m_mtype nm = -1 \<and> m_sub_id nm = -1)"
proof -
  let ?a = "m_alloc_len om"
  define k where "k = (if copy then length ob - 50 else nat h)"
  define b0 where "b0 = malloc_bytes junk (nat mlen)"
  from m h have f: "50 + h \<le> ?a" "?a < 2 ^ 31" by (simp_all add: mbuf_ok_def)
  have sm: "sint (word_of_int mlen :: u32) = mlen"
    by (rule sint_word_of_int_small) (use f h mlen in simp_all)
  have k1: "280 + l1 + l2 + l3 \<le> k" "50 + k \<le> length ob" "50 + k \<le> length b0"
    using f bl h mlen by (auto simp: k_def b0_def)
  have "(word_of_int (?a - 50 - h) + word_of_int h :: u32) = word_of_int (?a - 50)" by simp
  moreover have "unat (word_of_int (?a - 50) :: u32) = nat (?a - 50)"
    by (rule unat_word_of_int_nat) (use f h in simp_all)
  moreover have "unat (word_of_int h :: u32) = nat h"
    by (rule unat_word_of_int_nat) (use f h in simp_all)
  moreover have "nat (?a - 50) = length ob - 50" using bl by linarith
  ultimately have kr: "(if copy then unat (word_of_int (?a - 50 - h) + word_of_int h :: u32) else unat (word_of_int h :: u32)) = k"
    by (simp add: k_def)
  have rd: "mem_rd ob 50 k = Some (take k (drop 50 ob))" using k1 by (simp add: mem_rd_def)
  obtain b1 b2 where b: "SET_HDR_LEN b0 50 = Some b1" "mem_wr b1 50 (take k (drop 50 ob)) = Some b2"
      "lens b2 l1 l2 l3" "length b2 = length b0" "mem_rd b2 50 k = mem_rd ob 50 k"
    using realloc_copy_step [OF m k1] by blast
  obtain nm where nm: "ref_tpbuf (nm0\<lparr>m_tp_buf := Some b2\<rparr>) mlen = Some nm" "m_tp_buf nm = Some b2" "m_header nm = Some 50"
      "m_payload nm = Some (330 + l1 + l2 + l3)" "m_xaction nm = Some 62" "m_alloc_len nm = mlen"
    using ref_tpbuf_lens [of "nm0\<lparr>m_tp_buf := Some b2\<rparr>" b2 l1 l2 l3 mlen] b(3,4) k1 sm by auto
  define r where "r = (if copy then nm\<lparr>m_len := m_len om, m_mtype := m_mtype om, m_sub_id := m_sub_id om\<rparr>
                       else nm\<lparr>m_mtype := -1, m_sub_id := -1, m_len := 0\<rparr>)"
  have "payload_move junk om nm0 ob 50 (word_of_int h) (?a - 50 - h) mlen copy = Some r"
    unfolding payload_move_def kr b0_def [symmetric] using rd b(1,2) nm(1) by (simp add: r_def)
  moreover have "mbuf_ok r b2 l1 l2 l3"
    using nm b(3,4) f h mlen by (simp add: mbuf_ok_def r_def b0_def)
  ultimately show ?thesis using nm(6) b(5)
    by (intro exI [of _ r] exI [of _ b2]) (auto simp: r_def k_def)
qed

text \<open>
  C31. \<^verbatim>\<open>rmr_realloc_payload\<close> gives a well-formed message with room for at least the requested
  payload.  When the old message is large enough and no clone is asked for it is returned as it
  is; otherwise, with \<open>copy\<close>, the header, the data areas and the whole payload area of the old
  message are at the same offsets of the new buffer and length, type and subscription id are
  kept.
\<close>

theorem realloc_payload_room:
  assumes m: "mbuf_ok om ob l1 l2 l3" and bl: "int (length ob) = m_alloc_len om"
    and p: "0 < plen" "330 + int l1 + int l2 + int l3 + plen < 2 ^ 31" and ok: "ok M_mbuf" "ok M_tpbuf"
  shows "\<exists>nm nb psz. rmr_realloc_payload ok junk (Some om) plen copy clone = Some (Some nm, E0) \<and>
     mbuf_ok nm nb l1 l2 l3 \<and> rmr_payload_size (Some nm) = Some (psz, E0) \<and> plen \<le> psz \<and>
     (if \<not> clone \<and> plen \<le> m_alloc_len om - 330 - int l1 - int l2 - int l3 then nm = om
      else if copy then mem_rd nb 50 (length ob - 50) = mem_rd ob 50 (length ob - 50) \<and>
        m_len nm = m_len om \<and> m_mtype nm = m_mtype om \<and> m_sub_id nm = m_sub_id om
      else m_len nm = 0 \<and> m_mtype nm = -1 \<and> m_sub_id nm = -1)"
proof -
  let ?h = "280 + int l1 + int l2 + int l3" and ?a = "m_alloc_len om"
  from m have f: "m_tp_buf om = Some ob" "m_header om = Some 50" "lens ob l1 l2 l3" "50 + ?h \<le> ?a" "?a < 2 ^ 31"
    by (simp_all add: mbuf_ok_def)
  have hl: "RMR_HDR_LEN ob 50 = Some (word_of_int ?h)" by (rule lens_rd(1) [OF f(3)])
  have ps: "psize_of ?a (word_of_int ?h) = ?a - 50 - ?h"
    using psize_of_lens [of om "int l1 + int l2 + int l3"] f(4,5) by (simp add: algebra_simps)
  show ?thesis
  proof (cases "\<not> clone \<and> plen \<le> ?a - 50 - ?h")
    case True
    with p f hl ps m mbuf_ok_psize [OF m] show ?thesis
      by (intro exI [of _ om] exI [of _ ob]) (simp add: rmr_realloc_payload_def realloc_payload_def Let_def)
  next
    case False
    define H where "H = (word_of_int ?h :: u32)"
    define old where "old = ?a - 50 - ?h"
    define mlen where "mlen = 50 + ?h + (if plen > old then plen else old)"
    define nm0 where "nm0 = (if clone then zero_mbuf\<lparr>m_rts_fd := m_rts_fd om\<rparr> else om)"
    have s: "sint (H + 50) = 50 + ?h"
      using sint_word_of_int_small [of "50 + ?h"] f(4,5) by (simp add: algebra_simps H_def)
    have ml: "?a \<le> mlen" "mlen < 2 ^ 31" using p f(4,5) by (auto simp: mlen_def old_def)
    obtain r rb where r: "payload_move junk om nm0 ob 50 H old mlen copy = Some r" "mbuf_ok r rb l1 l2 l3" "m_alloc_len r = mlen"
      "if copy then mem_rd rb 50 (length ob - 50) = mem_rd ob 50 (length ob - 50) \<and>
        m_len r = m_len om \<and> m_mtype r = m_mtype om \<and> m_sub_id r = m_sub_id om
      else m_len r = 0 \<and> m_mtype r = -1 \<and> m_sub_id r = -1"
      using payload_move_ok [OF m bl refl ml, of junk nm0 copy] unfolding H_def old_def by blast
    have nc: "\<not> (\<not> clone \<and> plen \<le> old)" using False by (simp add: old_def)
    have "rmr_realloc_payload ok junk (Some om) plen copy clone = Some (Some r, E0)"
      unfolding rmr_realloc_payload_def realloc_payload_def
      using nc f(1,2) hl [folded H_def] ps [folded H_def old_def] p ok r(1)
      by (auto simp add: Let_def s mlen_def nm0_def split: if_splits)
    moreover have "plen \<le> m_alloc_len r - 330 - int l1 - int l2 - int l3" using r(3) by (simp add: mlen_def)
    moreover have "\<not> (\<not> clone \<and> plen \<le> ?a - 330 - int l1 - int l2 - int l3)"
      using False by (simp add: algebra_simps)
    ultimately show ?thesis using r(2,4) mbuf_ok_psize [OF r(2)]
      by (intro exI [of _ r] exI [of _ rb]) auto
  qed
qed

theorem realloc_payload_room_witness:
  "\<exists>nm psz. rmr_realloc_payload (\<lambda>_. True) (\<lambda>_. 0xaa) (Some demo_msg) 100 True False = Some (Some nm, E0) \<and>
     rmr_payload_size (Some nm) = Some (psz, E0) \<and> 100 \<le> psz"
  using realloc_payload_room [OF demo_msg_ok, of 100 "\<lambda>_. True" "\<lambda>_. 0xaa" True False] length_demo_buf by auto

text \<open>
  \<^verbatim>\<open>ref_tpbuf\<close> points a message into a received buffer: type, subscription id, payload and
  transaction id are those of the header, and the length it reports never exceeds the part of
  the announced size after the RMR header.  When the sender announces more, the state is
  \<^verbatim>\<open>RMR_ERR_TRUNC\<close>; the bound leaves out the transport header, so that a
  reported length can still reach 50 bytes past the buffer.
\<close>

theorem ref_tpbuf_truncates:
  assumes b: "m_tp_buf m = Some b" "lens b l1 l2 l3" "alen = int (length b)" "330 \<le> alen" "alen < 2 ^ 31"
    and pl: "get32 b 54 = Some plen"
  shows "\<exists>m'. ref_tpbuf m alen = Some m' \<and> m_payload m' = Some (330 + l1 + l2 + l3) \<and>
     get32 b 50 = Some (word_of_int (m_mtype m')) \<and> get32 b 262 = Some (word_of_int (m_sub_id m')) \<and>
     (if sint plen \<le> alen - 280 - int l1 - int l2 - int l3 then m_state m' = RMR_OK \<and> m_len m' = sint plen
      else m_state m' = RMR_ERR_TRUNC \<and> m_len m' = alen - 280 - int l1 - int l2 - int l3) \<and>
     330 + int l1 + int l2 + int l3 + m_len m' \<le> alen + 50"
proof -
  have g: "\<exists>v. get32 b p = Some v" if "p + 4 \<le> 330" for p
    using that b(3,4) by (simp add: get32_def mem_rd_def)
  obtain v1 v3 v4 where v: "HDR_VERSION b 50 = Some v1" "get32 b 50 = Some v3" "get32 b 262 = Some v4"
    using g [of 50] g [of 262] g [of 58] by (auto simp: HDR_VERSION_def)
  have hl: "sint (word_of_int (280 + int l1 + int l2 + int l3) :: u32) = 280 + int l1 + int l2 + int l3"
    by (rule sint_word_of_int_small) (use b(2) in \<open>auto simp: lens_def\<close>)
  have al: "sint (word_of_int alen :: u32) = alen"
    by (rule sint_word_of_int_small) (use b(4,5) in simp_all)
  show ?thesis unfolding ref_tpbuf_def
    using b(1) v pl lens_rd(1,2) [OF b(2)] hl al by (simp add: Let_def)
qed

theorem ref_tpbuf_truncates_witness:
  "\<exists>m'. ref_tpbuf demo_msg 354 = Some m' \<and> m_payload m' = Some 338 \<and> m_state m' = RMR_OK \<and> m_len m' = 0"
proof -
  have "get32 demo_buf 54 = Some 0" by (simp add: demo_buf_def get32_def mem_rd_def get_be32_def get_le32_def numeral_eq_Suc)
  with ref_tpbuf_truncates [of demo_msg demo_buf 4 4 0 354 0] demo_msg_ok length_demo_buf show ?thesis
    by (auto simp: mbuf_ok_def)
qed

end
