(* ===== verification/Receive.thy ===== *)
theory Receive
  imports Mbuf_Api
begin

text \<open>
  The receive side of \<^verbatim>\<open>src/src/rmr/si/src/mt_call_si_static.c\<close>: the data callback that cuts the byte
  streams of the connections (the rivers) into messages, the construction of message buffers
  and their distribution to the receive ring and to the chutes of the callers, and
  \<^verbatim>\<open>init_mtcall\<close> of \<^verbatim>\<open>mt_call_static.c\<close>.

  The state is the part of the context these functions use.  The rivers with a descriptor above
  the river array live in a symbol table with numeric keys; it is a map here (the keys are not
  zero, see \<open>Symtab\<close>).  The semaphore of a chute is its counter.  The parameters collected in
  \<open>rcv_env\<close> are the outcomes of allocations and locks, the contents of fresh memory and
  the clock.

  The loop of the callback need not end, so that its model takes fuel; \<open>Some None\<close> is the
  outcome of a loop that has used it up.
\<close>

section \<open>State\<close>

record chute =
  ch_mbuf :: "mbuf option"
  ch_barrier :: int
  ch_expect :: bytes

abbreviation (input) RS_NEW :: int where "RS_NEW \<equiv> 0"
abbreviation (input) RS_GOOD :: int where "RS_GOOD \<equiv> 1"
abbreviation (input) RS_RESET :: int where "RS_RESET \<equiv> 2"
abbreviation (input) RF_NOTIFIED :: u32 where "RF_NOTIFIED \<equiv> 1"
abbreviation (input) RF_DROP :: u32 where "RF_DROP \<equiv> 2"
abbreviation (input) TP_SZFIELD_LEN :: int where "TP_SZFIELD_LEN \<equiv> 9"
abbreviation (input) MAX_CALL_ID :: nat where "MAX_CALL_ID \<equiv> 255"

record river =
  r_state :: int
  r_accum :: "bytes option"
  r_nbytes :: int
  r_ipt :: int
  r_msg_size :: int
  r_flags :: u32

definition zero_river :: river where
  "zero_river = \<lparr>r_state = 0, r_accum = None, r_nbytes = 0, r_ipt = 0, r_msg_size = 0, r_flags = 0\<rparr>"

record rcv_ctx = msg_ctx +
  mring :: "mbuf ring"
  dcount :: int
  acc_dcount :: int
  acc_ecount :: int
  chutes :: "chute list"
  nrivers :: int
  rivers :: "river list"
  river_hash :: "int \<Rightarrow> river option"
  max_ibm :: int
  q_last_warning :: int

record rcv_env =
  e_ok :: mallocs
  e_junk :: "nat \<Rightarrow> byte"
  e_lock :: bool
  e_now :: int

section \<open>Queueing\<close>

definition queue_normal :: "rcv_env \<Rightarrow> 'a rcv_ctx_scheme \<Rightarrow> mbuf \<Rightarrow> 'a rcv_ctx_scheme option" where
  "queue_normal env ctx mb =
     (let (rc, r) = uta_ring_insert (e_lock env) (mring ctx) (Some mb);
          ctx1 = ctx\<lparr>mring := r\<rparr>
      in if rc \<noteq> R_ok
         then Some (let ctx2 = ctx1\<lparr>dcount := dcount ctx1 + 1, acc_dcount := acc_dcount ctx1 + 1\<rparr>
                    in if e_now env > q_last_warning ctx2 + 60
                       then ctx2\<lparr>q_last_warning := e_now env, dcount := 0\<rparr> else ctx2)
         else (case chutes ctx1 of [] \<Rightarrow> None
               | ch # chs \<Rightarrow> Some (ctx1\<lparr>acc_ecount := acc_ecount ctx1 + 1,
                                  chutes := ch\<lparr>ch_barrier := ch_barrier ch + 1\<rparr> # chs\<rparr>)))"

text \<open>\<^verbatim>\<open>hdr->flags\<close> is tested as it is stored, without a byte order conversion.\<close>

definition hdr_flags :: "bytes \<Rightarrow> nat \<Rightarrow> u32 option" where
  "hdr_flags b h = map_option get_le32 (mem_rd b (h + H_FLAGS) 4)"

text \<open>Where a referenced message goes: the receive ring or the chute of its call id.\<close>

definition deliver_mbuf :: "rcv_env \<Rightarrow> 'a rcv_ctx_scheme \<Rightarrow> mbuf \<Rightarrow> 'a rcv_ctx_scheme option" where
  "deliver_mbuf env ctx mb = do {
     b \<leftarrow> m_tp_buf mb; h \<leftarrow> m_header mb;
     fl \<leftarrow> hdr_flags b h;
     (if fl AND HFL_CALL_MSG \<noteq> 0 then queue_normal env ctx mb
      else do {
        dl \<leftarrow> RMR_D1_LEN b h;
        (if dl \<le> 0 then queue_normal env ctx mb
         else do {
           a \<leftarrow> DATA1_ADDR b h;
           d1 \<leftarrow> mem_rd b a 1;
           (let call_id = unat (hd d1)
            in if call_id = 0 then queue_normal env ctx mb
               else if call_id < length (chutes ctx)
               then let ch = chutes ctx ! call_id
                    in Some (ctx\<lparr>chutes := (chutes ctx)[call_id := ch\<lparr>ch_mbuf := Some mb, ch_barrier := ch_barrier ch + 1\<rparr>]\<rparr>)
               else None) }) }) }"

definition buf2mbuf :: "rcv_env \<Rightarrow> 'a rcv_ctx_scheme \<Rightarrow> bytes option \<Rightarrow> int \<Rightarrow> int \<Rightarrow> 'a rcv_ctx_scheme option" where
  "buf2mbuf env ctx raw msg_size sender_fd = do {
     b \<leftarrow> raw;
     header_len \<leftarrow> RMR_HDR_LEN b TP_HDR_LEN;
     payload_len \<leftarrow> get32 b (TP_HDR_LEN + H_PLEN);
     (if header_len + 50 + payload_len > word_of_int msg_size then Some ctx
      else (let (x, ctx1) = alloc_mbuf (e_ok env) (e_lock env) ctx RMR_ERR_UNSET
            in case x of None \<Rightarrow> Some ctx1
               | Some m \<Rightarrow> do {
                   mb \<leftarrow> ref_tpbuf (m\<lparr>m_tp_buf := Some b, m_rts_fd := sender_fd,
                           m_flags := (if msg_size > max_ibm ctx1 + 1024 then m_flags m OR MFL_HUGE else m_flags m)\<rparr>) msg_size;
                   deliver_mbuf env ctx1 mb })) }"

section \<open>Rivers\<close>

definition malloc_accum :: "rcv_env \<Rightarrow> int \<Rightarrow> bytes option" where
  "malloc_accum env n = (if e_ok env M_accum \<and> 0 \<le> n then Some (malloc_bytes (e_junk env) (nat n)) else None)"

definition accum_cpy :: "river \<Rightarrow> bytes \<Rightarrow> int \<Rightarrow> int \<Rightarrow> river option" where
  "accum_cpy rv buf bidx n = do {
     a \<leftarrow> r_accum rv;
     a' \<leftarrow> memcpy_in a (nat (r_ipt rv)) (drop (nat bidx) buf) n;
     Some (rv\<lparr>r_accum := Some a'\<rparr>) }"

text \<open>The values a pass through the loop body leaves behind: the river, the index into the
  transport buffer and the bytes that remain; or the callback returns.\<close>

datatype 'a flow = Return 'a | Next 'a

text \<open>The part of the body that determines the size of the message.\<close>

definition river_grow :: "rcv_env \<Rightarrow> river \<Rightarrow> river option" where
  "river_grow env rv =
     (if r_msg_size rv > r_nbytes rv
      then (let old = r_accum rv;
                n = sint (word_of_int (r_msg_size rv + 128) :: u32);
                rv1 = rv\<lparr>r_nbytes := n, r_accum := malloc_accum env n\<rparr>
            in if r_ipt rv1 > 0
               then do { o1 \<leftarrow> old; a \<leftarrow> r_accum rv1; a' \<leftarrow> memcpy_in a 0 o1 (r_ipt rv1 + 1);
                         Some (rv1\<lparr>r_accum := Some a'\<rparr>) }
               else Some rv1)
      else Some rv)"

definition river_size :: "rcv_env \<Rightarrow> bytes \<Rightarrow> river \<times> int \<times> int \<Rightarrow> (river \<times> int \<times> int) flow option" where
  "river_size env buf st =
     (case st of (rv, bidx, remain) \<Rightarrow>
      let need = TP_SZFIELD_LEN - r_ipt rv
      in if need > remain
         then do { rv1 \<leftarrow> accum_cpy rv buf bidx remain;
                   Some (Return (rv1\<lparr>r_ipt := r_ipt rv1 + remain\<rparr>, bidx, remain)) }
         else do {
           st1 \<leftarrow> (if r_ipt rv > 0
                   then do { rv1 \<leftarrow> accum_cpy rv buf bidx need;
                             a \<leftarrow> r_accum rv1; l \<leftarrow> extract_mlen a;
                             Some (rv1\<lparr>r_ipt := r_ipt rv1 + need, r_msg_size := sint l\<rparr>, bidx + need, remain - need) }
                   else do { l \<leftarrow> extract_mlen (drop (nat bidx) buf);
                             Some (rv\<lparr>r_msg_size := sint l\<rparr>, bidx, remain) });
           (if r_msg_size (fst st1) < 0
            then Some (Return ((fst st1)\<lparr>r_state := RS_RESET\<rparr>, snd st1))
            else do { rv2 \<leftarrow> river_grow env (fst st1); Some (Next (rv2, snd st1)) }) })"

text \<open>The rest of the body.  \<open>deliver\<close> stands for the call of \<^verbatim>\<open>buf2mbuf\<close> on the context.\<close>

definition river_take :: "rcv_env \<Rightarrow> ('c \<Rightarrow> bytes option \<Rightarrow> int \<Rightarrow> 'c option) \<Rightarrow> int \<Rightarrow> bytes \<Rightarrow> 'c \<times> river \<times> int \<times> int
    \<Rightarrow> ('c \<times> river \<times> int \<times> int) option" where
  "river_take env deliver ibm buf st =
     (case st of (c, rv, bidx, remain) \<Rightarrow>
      if r_msg_size rv > r_ipt rv + remain
      then do {
        rv1 \<leftarrow> (if r_flags rv AND RF_DROP = 0 then accum_cpy rv buf bidx remain else Some rv);
        Some (c, rv1\<lparr>r_ipt := r_ipt rv1 + remain\<rparr>, bidx, 0) }
      else (let need = r_msg_size rv - r_ipt rv in do {
        st1 \<leftarrow> (if r_flags rv AND RF_DROP = 0
                then do { rv1 \<leftarrow> accum_cpy rv buf bidx need;
                          c1 \<leftarrow> deliver c (r_accum rv1) (r_nbytes rv1);
                          Some (c1, rv1\<lparr>r_nbytes := ibm + 1024, r_accum := malloc_accum env (ibm + 1024)\<rparr>) }
                else Some (c, rv\<lparr>r_flags := r_flags rv OR RF_NOTIFIED\<rparr>));
        Some (fst st1, (snd st1)\<lparr>r_msg_size := -1, r_ipt := 0\<rparr>, bidx + need, remain - need) }))"

fun river_loop :: "nat \<Rightarrow> rcv_env \<Rightarrow> ('c \<Rightarrow> bytes option \<Rightarrow> int \<Rightarrow> 'c option) \<Rightarrow> int \<Rightarrow> bytes \<Rightarrow> 'c \<times> river \<times> int \<times> int
    \<Rightarrow> ('c \<times> river) option option" where
  "river_loop fuel env deliver ibm buf (c, rv, bidx, remain) =
     (if remain \<le> 0 then Some (Some (c, rv))
      else case fuel of 0 \<Rightarrow> Some None
      | Suc f \<Rightarrow> do {
          sz \<leftarrow> (if r_msg_size rv \<le> 0 then river_size env buf (rv, bidx, remain) else Some (Next (rv, bidx, remain)));
          (case sz of Return (rv1, _) \<Rightarrow> Some (Some (c, rv1))
           | Next (rv1, bi, re) \<Rightarrow> do {
               st \<leftarrow> river_take env deliver ibm buf (c, rv1, bi, re);
               river_loop f env deliver ibm buf st }) })"

text \<open>The preparation of the river before the loop; \<open>Return\<close> when the river waits for a reset.\<close>

definition river_ready :: "rcv_env \<Rightarrow> int \<Rightarrow> river \<Rightarrow> river flow" where
  "river_ready env ibm rv =
     (if r_state rv = RS_GOOD then Next rv
      else if r_state rv = RS_NEW
      then Next (zero_river\<lparr>r_state := RS_GOOD, r_nbytes := ibm + 1024, r_accum := malloc_accum env (ibm + 1024)\<rparr>)
      else if r_state rv = RS_RESET then Return rv
      else Next (rv\<lparr>r_ipt := 0, r_state := RS_GOOD\<rparr>))"

text \<open>The river of a descriptor: an element of the river array, or a structure found in or added
  to the hash.\<close>

definition find_river :: "rcv_env \<Rightarrow> 'a rcv_ctx_scheme \<Rightarrow> int \<Rightarrow> river option" where
  "find_river env ctx fd =
     (if fd \<ge> nrivers ctx
      then (case river_hash ctx fd of Some rv \<Rightarrow> Some rv
            | None \<Rightarrow> if e_ok env M_river then Some (zero_river\<lparr>r_state := RS_NEW\<rparr>) else None)
      else if nat fd < length (rivers ctx) then Some (rivers ctx ! nat fd) else None)"

definition put_river :: "'a rcv_ctx_scheme \<Rightarrow> int \<Rightarrow> river \<Rightarrow> 'a rcv_ctx_scheme" where
  "put_river ctx fd rv =
     (if fd \<ge> nrivers ctx then ctx\<lparr>river_hash := (river_hash ctx)(fd \<mapsto> rv)\<rparr>
      else ctx\<lparr>rivers := (rivers ctx)[nat fd := rv]\<rparr>)"

text \<open>\<^verbatim>\<open>mt_data_cb\<close> always answers \<^verbatim>\<open>SI_RET_OK\<close>; its result here is the context.\<close>

definition mt_data_cb :: "nat \<Rightarrow> rcv_env \<Rightarrow> 'a rcv_ctx_scheme \<Rightarrow> int \<Rightarrow> bytes \<Rightarrow> int \<Rightarrow> 'a rcv_ctx_scheme option option" where
  "mt_data_cb fuel env ctx fd buf buflen =
     (if buflen \<le> 0 \<or> fd < 0 then Some (Some ctx)
      else do {
        rv \<leftarrow> find_river env ctx fd;
        (case river_ready env (max_ibm ctx) rv of
           Return rv1 \<Rightarrow> Some (Some (put_river ctx fd rv1))
         | Next rv1 \<Rightarrow> do {
             r \<leftarrow> river_loop fuel env (\<lambda>c raw n. buf2mbuf env c raw n fd) (max_ibm ctx) buf (ctx, rv1, 0, buflen);
             Some (case r of None \<Rightarrow> None | Some (c, rv2) \<Rightarrow> Some (put_river c fd rv2)) }) })"

text \<open>The river part of \<^verbatim>\<open>mt_disc_cb\<close>; the endpoint part follows with the routing state.\<close>

definition disc_river :: "'a rcv_ctx_scheme \<Rightarrow> int \<Rightarrow> 'a rcv_ctx_scheme option" where
  "disc_river ctx fd =
     (if fd < nrivers ctx \<and> fd \<ge> 0
      then (if nat fd < length (rivers ctx)
            then Some (ctx\<lparr>rivers := (rivers ctx)[nat fd := (rivers ctx ! nat fd)\<lparr>r_state := RS_NEW, r_accum := None\<rparr>]\<rparr>)
            else None)
      else if fd > 0
      then (case river_hash ctx fd of None \<Rightarrow> Some ctx
            | Some rv \<Rightarrow> Some (ctx\<lparr>river_hash := (river_hash ctx)(fd \<mapsto> rv\<lparr>r_state := RS_NEW, r_accum := None\<rparr>)\<rparr>))
      else Some ctx)"

section \<open>The chutes\<close>

text \<open>\<^verbatim>\<open>sem_init\<close> results are given by \<open>sem_ok\<close>; the elements of the array that the loop does not
  reach keep the contents \<open>raw\<close> of fresh memory.\<close>

definition init_mtcall :: "mallocs \<Rightarrow> (nat \<Rightarrow> bool) \<Rightarrow> (nat \<Rightarrow> chute) \<Rightarrow> 'a rcv_ctx_scheme option \<Rightarrow> int \<times> 'a rcv_ctx_scheme option" where
  "init_mtcall ok sem_ok raw vctx =
     (case vctx of None \<Rightarrow> (0, None)
      | Some ctx \<Rightarrow>
          if \<not> ok M_chutes then (0, Some (ctx\<lparr>chutes := []\<rparr>))
          else (if \<exists>i < MAX_CALL_ID. \<not> sem_ok i then -1 else 1,
                Some (ctx\<lparr>chutes := map (\<lambda>i. if i < MAX_CALL_ID
                      then (raw i)\<lparr>ch_mbuf := None, ch_barrier := (if sem_ok i then 0 else ch_barrier (raw i))\<rparr>
                      else raw i) [0..<MAX_CALL_ID + 1]\<rparr>)))"

section \<open>Reassembly of the stream\<close>

text \<open>
  The reference for the data callback: a stream of bytes is cut into messages by the length
  field at the start of each.  What is left over is the beginning of a message.
\<close>

definition mlen_of :: "bytes \<Rightarrow> nat" where
  "mlen_of s = (case extract_mlen s of Some l \<Rightarrow> unat l | None \<Rightarrow> 0)"

function split_msgs :: "bytes \<Rightarrow> bytes list \<times> bytes" where
  "split_msgs s =
     (if length s < 9 \<or> length s < mlen_of s \<or> mlen_of s < 9 then ([], s)
      else let (ms, rest) = split_msgs (drop (mlen_of s) s) in (take (mlen_of s) s # ms, rest))"
  by pat_completeness auto
termination by (relation "measure length") auto

declare split_msgs.simps [simp del]

text \<open>A stream in which every length field is acceptable: at least the size field, and small
  enough for the 32-bit arithmetic of the callback.\<close>

function sizes_ok :: "bytes \<Rightarrow> bool" where
  "sizes_ok s =
     (if length s < 9 then True
      else if mlen_of s < 9 \<or> 2 ^ 31 - 128 \<le> mlen_of s then False
      else length s < mlen_of s \<or> sizes_ok (drop (mlen_of s) s))"
  by pat_completeness auto
termination by (relation "measure length") auto

declare sizes_ok.simps [simp del]

lemma mlen_of_prefix:
  assumes "take 9 s = take 9 s'"
  shows "mlen_of s = mlen_of s'" and "9 \<le> length s \<Longrightarrow> extract_mlen s = extract_mlen s'"
proof -
  have t: "take n (drop p s) = take n (drop p s')" if "p + n \<le> 9" for p n
    using arg_cong [OF assms, of "\<lambda>x. take n (drop p x)"] that by (simp add: drop_take min_def split: if_splits)
  have l: "(q \<le> length s) = (q \<le> length s')" if "q \<le> 9" for q
    using arg_cong [OF assms, of length] that by auto
  have "mem_rd s p n = mem_rd s' p n" if "p + n \<le> 9" for p n
    using t [OF that] l [OF that] by (simp add: mem_rd_def)
  then have "extract_mlen s = extract_mlen s'" by (rule extract_mlen_cong)
  then show "mlen_of s = mlen_of s'" and "9 \<le> length s \<Longrightarrow> extract_mlen s = extract_mlen s'"
    by (simp_all add: mlen_of_def)
qed

lemma extract_mlen_Some: "9 \<le> length s \<Longrightarrow> \<exists>l. extract_mlen s = Some l \<and> unat l = mlen_of s"
  by (simp add: mlen_of_def extract_mlen_def mem_rd_def Let_def)

lemma sint_small_u32: "unat (l::u32) < 2 ^ 31 \<Longrightarrow> sint l = int (unat l)"
  using sint_of_nat_small [of "unat l"] sint_word_of_int_small [of "int (unat l)"] by simp

text \<open>The cut of a stream does not depend on how the stream arrives.\<close>

lemma split_msgs_append:
  "split_msgs s = (ms, r) \<Longrightarrow> split_msgs (r @ t) = (ms', r') \<Longrightarrow> sizes_ok (s @ t) \<Longrightarrow>
   split_msgs (s @ t) = (ms @ ms', r')"
proof (induction s arbitrary: ms rule: split_msgs.induct)
  case (1 s)
  let ?n = "mlen_of s"
  show ?case
  proof (cases "length s < 9 \<or> length s < ?n \<or> ?n < 9")
    case True
    with 1 show ?thesis by (simp add: split_msgs.simps [of s])
  next
    case False
    then have n: "mlen_of (s @ t) = ?n" by (intro mlen_of_prefix) simp
    from False 1(2) obtain ms0 where ms0: "split_msgs (drop ?n s) = (ms0, r)" "ms = take ?n s # ms0"
      by (auto simp: split_msgs.simps [of s] split: prod.splits)
    have "sizes_ok (drop ?n s @ t)" using 1(4) False n by (auto simp: sizes_ok.simps [of "s @ t"] split: if_splits)
    with 1(1) [OF False ms0(1) 1(3)] have "split_msgs (drop ?n s @ t) = (ms0 @ ms', r')" by simp
    with False n ms0(2) show ?thesis by (simp add: split_msgs.simps [of "s @ t"])
  qed
qed

lemma sizes_ok_rest:
  "split_msgs s = (ms, r) \<Longrightarrow> sizes_ok (s @ t) \<Longrightarrow> sizes_ok (r @ t)"
proof (induction s arbitrary: ms rule: split_msgs.induct)
  case (1 s)
  let ?n = "mlen_of s"
  show ?case
  proof (cases "length s < 9 \<or> length s < ?n \<or> ?n < 9")
    case True
    with 1 show ?thesis by (simp add: split_msgs.simps [of s])
  next
    case False
    then have n: "mlen_of (s @ t) = ?n" by (intro mlen_of_prefix) simp
    from False 1(2) obtain ms0 where ms0: "split_msgs (drop ?n s) = (ms0, r)"
      by (auto simp: split_msgs.simps [of s] split: prod.splits)
    have "sizes_ok (drop ?n s @ t)" using 1(3) False n by (auto simp: sizes_ok.simps [of "s @ t"] split: if_splits)
    with 1(1) [OF False ms0] show ?thesis by simp
  qed
qed

lemma sizes_ok_prefix: "sizes_ok (s @ t) \<Longrightarrow> sizes_ok s"
proof (induction s rule: sizes_ok.induct)
  case (1 s)
  show ?case
  proof (cases "length s < 9")
    case False
    then have "mlen_of (s @ t) = mlen_of s" by (intro mlen_of_prefix) simp
    with 1 False show ?thesis
      by (cases "length s < mlen_of s")
        (auto simp: sizes_ok.simps [of s] sizes_ok.simps [of "s @ t"] split: if_splits)
  qed (simp add: sizes_ok.simps)
qed

text \<open>\<open>accum_holds rv pend\<close>: the accumulator of an open river starts with the bytes \<open>pend\<close>.\<close>

definition accum_holds :: "river \<Rightarrow> bytes \<Rightarrow> bool" where
  "accum_holds rv pend \<longleftrightarrow> r_state rv = RS_GOOD \<and> r_flags rv = 0 \<and> r_ipt rv = int (length pend) \<and>
     (\<exists>a. r_accum rv = Some a \<and> int (length a) = r_nbytes rv \<and> take (length pend) a = pend \<and> 10 \<le> length a \<and> length a < 2 ^ 31)"

definition river_mid :: "river \<Rightarrow> bytes \<Rightarrow> nat \<Rightarrow> bool" where
  "river_mid rv pend n \<longleftrightarrow> accum_holds rv pend \<and> r_msg_size rv = int n \<and> 9 \<le> n \<and> length pend \<le> n \<and> int n \<le> r_nbytes rv"

definition river_inv :: "river \<Rightarrow> bytes \<Rightarrow> bool" where
  "river_inv rv pend \<longleftrightarrow> accum_holds rv pend \<and>
     (if length pend < 9 then r_msg_size rv \<le> 0
      else r_msg_size rv = int (mlen_of pend) \<and> length pend < mlen_of pend \<and> int (mlen_of pend) \<le> r_nbytes rv)"

lemma accum_cpy_ok:
  assumes h: "accum_holds rv pend" and n: "0 \<le> n" "0 \<le> bidx" "n \<le> int (length (drop (nat bidx) buf))"
    and room: "int (length pend) + n \<le> r_nbytes rv"
  shows "\<exists>rv1 a. accum_cpy rv buf bidx n = Some rv1 \<and> rv1 = rv\<lparr>r_accum := Some a\<rparr> \<and>
     accum_holds (rv1\<lparr>r_ipt := r_ipt rv1 + n\<rparr>) (pend @ take (nat n) (drop (nat bidx) buf)) \<and>
     int (length a) = r_nbytes rv \<and> take (length pend + nat n) a = pend @ take (nat n) (drop (nat bidx) buf)"
proof -
  let ?d = "take (nat n) (drop (nat bidx) buf)"
  from h obtain a where a: "r_accum rv = Some a" "int (length a) = r_nbytes rv" "take (length pend) a = pend" "10 \<le> length a" "length a < 2 ^ 31"
    by (auto simp: accum_holds_def)
  have ip: "nat (r_ipt rv) = length pend" using h by (simp add: accum_holds_def)
  have ln: "length ?d = nat n" using n by auto
  have room': "length pend + nat n \<le> length a" using room a(2) n by linarith
  obtain a' where a': "mem_wr a (length pend) ?d = Some a'" "length a' = length a"
    using mem_wr_step [OF ln room'] by blast
  have "a' = take (length pend) a @ ?d @ drop (length pend + length ?d) a"
    using a'(1) by (simp add: mem_wr_Some_iff)
  then have tk: "take (length pend + nat n) a' = pend @ ?d" using a(3) ln by simp
  have "accum_cpy rv buf bidx n = Some (rv\<lparr>r_accum := Some a'\<rparr>)"
    using a(1) a'(1) n ip by (simp add: accum_cpy_def memcpy_in_def)
  then show ?thesis using h a a' tk ln n by (auto simp: accum_holds_def)
qed

lemma river_grow_ok:
  assumes h: "accum_holds rv pend" and sz: "r_msg_size rv = int n" "n < 2 ^ 31 - 128" "9 \<le> n" "length pend \<le> 9"
    and ok: "e_ok env M_accum"
  shows "\<exists>rv1. river_grow env rv = Some rv1 \<and> river_mid rv1 pend n"
proof (cases "r_msg_size rv > r_nbytes rv")
  case False
  with h sz show ?thesis by (auto simp: river_grow_def river_mid_def)
next
  case True
  from h obtain a where a: "r_accum rv = Some a" "int (length a) = r_nbytes rv" "take (length pend) a = pend" "10 \<le> length a" "length a < 2 ^ 31"
    by (auto simp: accum_holds_def)
  let ?n = "int n + 128"
  have s: "sint (word_of_int ?n :: u32) = ?n" by (rule sint_word_of_int_small) (use sz in simp_all)
  have s': "sint (word_of_nat n + 128 :: u32) = ?n" using s by simp
  have ip: "r_ipt rv = int (length pend)" using h by (simp add: accum_holds_def)
  let ?b = "malloc_bytes (e_junk env) (nat ?n)"
  have m: "malloc_accum env ?n = Some ?b" using ok by (simp add: malloc_accum_def)
  show ?thesis
  proof (cases "pend = []")
    case E: True
    have "10 \<le> nat ?n \<and> nat ?n < 2 ^ 31" using sz(2) by simp linarith
    with E True h sz s' m ip show ?thesis
      by (simp add: river_grow_def river_mid_def accum_holds_def Let_def)
  next
    case E: False
    let ?k = "length pend + 1"
    have kk: "0 + ?k \<le> length ?b" using sz by simp
    obtain b' where b': "mem_wr ?b 0 (take ?k a) = Some b'" "length b' = length ?b"
      using mem_wr_step [OF _ kk, of "take ?k a"] sz a(4) by auto
    then have "b' = take ?k a @ drop ?k ?b" using a(4) sz by (simp add: mem_wr_Some_iff)
    then have "take (length pend) b' = pend" using a(3,4) sz by (simp add: min_def)
    moreover have "nat (r_ipt rv + 1) = ?k" using ip by simp
    moreover have "r_ipt rv > 0" using ip E by simp
    moreover have "\<not> length a < ?k" using a(4) sz by simp
    ultimately show ?thesis using True h sz s' m a b'
      by (simp add: river_grow_def river_mid_def accum_holds_def memcpy_in_def Let_def) linarith
  qed
qed

text \<open>The bytes of the transport buffer that are still to be taken.\<close>

definition window :: "bytes \<Rightarrow> int \<Rightarrow> int \<Rightarrow> bytes" where
  "window buf bidx remain = take (nat remain) (drop (nat bidx) buf)"

definition in_buf :: "bytes \<Rightarrow> int \<Rightarrow> int \<Rightarrow> bool" where
  "in_buf buf bidx remain \<longleftrightarrow> 0 \<le> bidx \<and> 0 \<le> remain \<and> bidx + remain \<le> int (length buf)"

lemma length_window: "in_buf buf bidx remain \<Longrightarrow> length (window buf bidx remain) = nat remain"
  by (auto simp: window_def in_buf_def)

lemma window_take: "n \<le> remain \<Longrightarrow> 0 \<le> n \<Longrightarrow> take (nat n) (drop (nat bidx) buf) = take (nat n) (window buf bidx remain)"
  by (simp add: window_def min_def)

lemma window_drop:
  "0 \<le> n \<Longrightarrow> n \<le> remain \<Longrightarrow> 0 \<le> bidx \<Longrightarrow> window buf (bidx + n) (remain - n) = drop (nat n) (window buf bidx remain)"
  by (simp add: window_def drop_take nat_add_distrib nat_diff_distrib add.commute)

lemma in_buf_adv: "in_buf buf bidx remain \<Longrightarrow> 0 \<le> n \<Longrightarrow> n \<le> remain \<Longrightarrow> in_buf buf (bidx + n) (remain - n)"
  by (simp add: in_buf_def)

lemma river_size_short:
  assumes inv: "river_inv rv pend" and ib: "in_buf buf bidx remain"
    and short: "length (pend @ window buf bidx remain) < 9"
  shows "\<exists>rv1. river_size env buf (rv, bidx, remain) = Some (Return (rv1, bidx, remain)) \<and>
           river_inv rv1 (pend @ window buf bidx remain)"
proof -
  let ?w = "window buf bidx remain"
  from inv short have h: "accum_holds rv pend" and ms: "r_msg_size rv \<le> 0" by (auto simp: river_inv_def)
  from h have ip: "r_ipt rv = int (length pend)" and nb: "10 \<le> r_nbytes rv" by (auto simp: accum_holds_def)
  have l: "length ?w = nat remain" by (rule length_window [OF ib])
  have need: "9 - r_ipt rv > remain" using ip short l ib by (simp add: in_buf_def)
  have room: "int (length pend) + remain \<le> r_nbytes rv" using nb short l ib by (simp add: in_buf_def)
  obtain rv1 a where c: "accum_cpy rv buf bidx remain = Some rv1" "rv1 = rv\<lparr>r_accum := Some a\<rparr>"
      "accum_holds (rv1\<lparr>r_ipt := r_ipt rv1 + remain\<rparr>) (pend @ take (nat remain) (drop (nat bidx) buf))"
    using accum_cpy_ok [OF h _ _ _ room, of bidx buf] ib by (auto simp: in_buf_def)
  have "river_inv (rv1\<lparr>r_ipt := r_ipt rv1 + remain\<rparr>) (pend @ ?w)"
    using c short ms by (simp add: river_inv_def window_def)
  with c(1) need show ?thesis by (simp add: river_size_def Let_def)
qed

lemma river_size_next:
  assumes inv: "river_inv rv pend" "length pend < 9" and ib: "in_buf buf bidx remain"
    and long: "9 \<le> length (pend @ window buf bidx remain)" and ok: "e_ok env M_accum"
    and sz: "sizes_ok (pend @ window buf bidx remain)"
  shows "\<exists>rv1 pend1 bi re. river_size env buf (rv, bidx, remain) = Some (Next (rv1, bi, re)) \<and>
     river_mid rv1 pend1 (mlen_of (pend @ window buf bidx remain)) \<and> in_buf buf bi re \<and>
     pend1 @ window buf bi re = pend @ window buf bidx remain"
proof -
  let ?w = "window buf bidx remain" and ?need = "9 - int (length pend)"
  let ?n = "mlen_of (pend @ ?w)"
  from inv have h: "accum_holds rv pend" by (auto simp: river_inv_def)
  from h have ip: "r_ipt rv = int (length pend)" and nb: "10 \<le> r_nbytes rv" by (auto simp: accum_holds_def)
  have l: "length ?w = nat remain" by (rule length_window [OF ib])
  have need: "\<not> 9 - r_ipt rv > remain" "0 \<le> ?need" "?need \<le> remain" using ip long l ib inv(2) by (auto simp: in_buf_def)
  have n: "9 \<le> ?n" "?n < 2 ^ 31 - 128" using sz long by (auto simp: sizes_ok.simps split: if_splits)
  obtain l0 where l0: "extract_mlen (pend @ ?w) = Some l0" "unat l0 = ?n" using extract_mlen_Some [OF long] by blast
  have s0: "sint l0 = int ?n" using l0(2) n by (simp add: sint_small_u32)
  have bi: "0 \<le> bidx" using ib by (simp add: in_buf_def)
  show ?thesis
  proof (cases "pend = []")
    case E: True
    have "extract_mlen (drop (nat bidx) buf) = extract_mlen ?w"
      by (rule mlen_of_prefix(2)) (use E long l in \<open>simp_all add: window_def\<close>)
    then have e: "extract_mlen (drop (nat bidx) buf) = Some l0" using l0 E by simp
    obtain rv1 where g: "river_grow env (rv\<lparr>r_msg_size := int ?n\<rparr>) = Some rv1" "river_mid rv1 pend ?n"
      using river_grow_ok [of "rv\<lparr>r_msg_size := int ?n\<rparr>" pend ?n env] h n E ok by (auto simp: accum_holds_def)
    show ?thesis
      by (rule exI [of _ rv1], rule exI [of _ pend], rule exI [of _ bidx], rule exI [of _ remain])
        (use g e s0 need ip E ib n in \<open>simp add: river_size_def Let_def\<close>)
  next
    case E: False
    obtain rv1 a where c: "accum_cpy rv buf bidx ?need = Some rv1" "rv1 = rv\<lparr>r_accum := Some a\<rparr>"
        "accum_holds (rv1\<lparr>r_ipt := r_ipt rv1 + ?need\<rparr>) (pend @ take (nat ?need) (drop (nat bidx) buf))"
        "int (length a) = r_nbytes rv" "take (length pend + nat ?need) a = pend @ take (nat ?need) (drop (nat bidx) buf)"
      using accum_cpy_ok [OF h, of ?need bidx buf] ib nb need inv(2) by (auto simp: in_buf_def)
    let ?p = "pend @ take (nat ?need) ?w"
    have wt: "take (nat ?need) (drop (nat bidx) buf) = take (nat ?need) ?w" by (rule window_take [OF need(3,2)])
    have "nat ?need = 9 - length pend" by simp
    then have "take 9 a = take 9 (pend @ ?w)" using c(5) wt inv(2) by simp
    then have e: "extract_mlen a = Some l0"
      using mlen_of_prefix(2) [of a "pend @ ?w"] l0(1) c(4) nb by simp
    have hp: "accum_holds (rv1\<lparr>r_ipt := r_ipt rv1 + ?need, r_msg_size := int ?n\<rparr>) ?p"
      using c(3) wt by (simp add: accum_holds_def)
    have lp: "length ?p = 9" using inv(2) need l by simp
    obtain rv2 where g: "river_grow env (rv1\<lparr>r_ipt := r_ipt rv1 + ?need, r_msg_size := int ?n\<rparr>) = Some rv2" "river_mid rv2 ?p ?n"
      using river_grow_ok [OF hp _ n(2,1) eq_refl [OF lp] ok] by auto
    have g': "river_grow env (rv\<lparr>r_accum := Some a, r_ipt := 9, r_msg_size := int ?n\<rparr>) = Some rv2"
      using g(1) c(2) ip by simp
    have "?p @ window buf (bidx + ?need) (remain - ?need) = pend @ ?w"
      using window_drop [OF need(2,3) bi] by simp
    moreover have "river_size env buf (rv, bidx, remain) = Some (Next (rv2, bidx + ?need, remain - ?need))"
      using need(1) ip E c(1,2) e s0 n g' by (simp add: river_size_def Let_def)
    ultimately show ?thesis using g(2) in_buf_adv [OF ib need(2,3)] by blast
  qed
qed

lemma river_take_wait:
  assumes mid: "river_mid rv pend n" and ib: "in_buf buf bidx remain" and n: "n = mlen_of (pend @ window buf bidx remain)"
    and nine: "9 \<le> length (pend @ window buf bidx remain)" and wait: "length (pend @ window buf bidx remain) < n"
  shows "\<exists>rv1. (\<forall>c. river_take env deliver ibm buf (c, rv, bidx, remain) = Some (c, rv1, bidx, 0)) \<and>
           river_inv rv1 (pend @ window buf bidx remain)"
proof -
  let ?w = "window buf bidx remain"
  from mid have h: "accum_holds rv pend" and ms: "r_msg_size rv = int n" "int n \<le> r_nbytes rv" by (auto simp: river_mid_def)
  from h have ip: "r_ipt rv = int (length pend)" and fl: "r_flags rv = 0" by (auto simp: accum_holds_def)
  have l: "length ?w = nat remain" by (rule length_window [OF ib])
  have room: "int (length pend) + remain \<le> r_nbytes rv" using ms wait l ib by (simp add: in_buf_def)
  obtain rv1 a where c: "accum_cpy rv buf bidx remain = Some rv1" "rv1 = rv\<lparr>r_accum := Some a\<rparr>"
      "accum_holds (rv1\<lparr>r_ipt := r_ipt rv1 + remain\<rparr>) (pend @ take (nat remain) (drop (nat bidx) buf))"
    using accum_cpy_ok [OF h _ _ _ room, of bidx buf] ib by (auto simp: in_buf_def)
  have "river_inv (rv1\<lparr>r_ipt := r_ipt rv1 + remain\<rparr>) (pend @ ?w)"
    using c ms nine wait n by (simp add: river_inv_def window_def)
  moreover have "r_msg_size rv > r_ipt rv + remain" using ms ip wait l ib by (simp add: in_buf_def)
  ultimately show ?thesis using c(1) fl by (simp add: river_take_def)
qed

lemma river_take_full:
  assumes mid: "river_mid rv pend n" and ib: "in_buf buf bidx remain"
    and full: "n \<le> length (pend @ window buf bidx remain)" and ok: "e_ok env M_accum" and ibm: "0 \<le> ibm \<and> ibm + 1024 < 2 ^ 31"
  shows "\<exists>raw rv1. (\<forall>c. river_take env deliver ibm buf (c, rv, bidx, remain) =
       do { c1 \<leftarrow> deliver c (Some raw) (int (length raw));
            Some (c1, rv1, bidx + (int n - int (length pend)), remain - (int n - int (length pend))) }) \<and>
     river_inv rv1 [] \<and> take n raw = take n (pend @ window buf bidx remain) \<and> n \<le> length raw \<and> length raw < 2 ^ 31"
proof -
  let ?w = "window buf bidx remain" and ?need = "int n - int (length pend)"
  from mid have h: "accum_holds rv pend" and ms: "r_msg_size rv = int n" "int n \<le> r_nbytes rv" "length pend \<le> n"
    by (auto simp: river_mid_def)
  from h have ip: "r_ipt rv = int (length pend)" and fl: "r_flags rv = 0" and st: "r_state rv = RS_GOOD" and nb: "r_nbytes rv < 2 ^ 31"
    by (auto simp: accum_holds_def)
  have l: "length ?w = nat remain" by (rule length_window [OF ib])
  have need: "0 \<le> ?need" "?need \<le> remain" "\<not> r_msg_size rv > r_ipt rv + remain"
    using ms ip full l ib by (auto simp: in_buf_def)
  have room: "int (length pend) + ?need \<le> r_nbytes rv" using ms by simp
  obtain rv1 a where c: "accum_cpy rv buf bidx ?need = Some rv1" "rv1 = rv\<lparr>r_accum := Some a\<rparr>"
      "int (length a) = r_nbytes rv" "take (length pend + nat ?need) a = pend @ take (nat ?need) (drop (nat bidx) buf)"
    using accum_cpy_ok [OF h need(1) _ _ room, of bidx buf] ib need by (auto simp: in_buf_def)
  let ?rv = "rv1\<lparr>r_nbytes := ibm + 1024, r_accum := malloc_accum env (ibm + 1024), r_msg_size := -1, r_ipt := 0\<rparr>"
  have "nat ?need = n - length pend" by simp
  then have tk: "take n a = take n (pend @ ?w)"
    using c(4) window_take [OF need(2,1), of bidx buf] ms(3) by simp
  have "river_inv ?rv []"
    using c(2) fl st ok ibm by (simp add: river_inv_def accum_holds_def malloc_accum_def) linarith
  moreover have "river_take env deliver ibm buf (c, rv, bidx, remain) =
       do { c1 \<leftarrow> deliver c (Some a) (int (length a)); Some (c1, ?rv, bidx + ?need, remain - ?need) }" for c
    using need(3) fl c ms ip by (simp add: river_take_def Let_def)
  ultimately show ?thesis using tk ms(2) c(3) nb
    by (intro exI [of _ a] exI [of _ ?rv]) simp
qed

text \<open>One delivery after the other.\<close>

fun deliver_all :: "('c \<Rightarrow> bytes option \<Rightarrow> int \<Rightarrow> 'c option) \<Rightarrow> 'c \<Rightarrow> bytes list \<Rightarrow> 'c option" where
  "deliver_all deliver c [] = Some c"
| "deliver_all deliver c (raw # raws) = do { c1 \<leftarrow> deliver c (Some raw) (int (length raw)); deliver_all deliver c1 raws }"

text \<open>An accumulator that holds a message: it starts with the message and its size fits an \<^verbatim>\<open>int\<close>.\<close>

definition carries :: "bytes \<Rightarrow> bytes \<Rightarrow> bool" where
  "carries raw msg \<longleftrightarrow> length msg \<le> length raw \<and> take (length msg) raw = msg"

definition held :: "bytes \<Rightarrow> bytes \<Rightarrow> bool" where
  "held raw msg \<longleftrightarrow> carries raw msg \<and> length raw < 2 ^ 31"

lemma held_take: "n \<le> length s \<Longrightarrow> n \<le> length raw \<Longrightarrow> take n raw = take n s \<Longrightarrow> length raw < 2 ^ 31 \<Longrightarrow> held raw (take n s)"
  by (simp add: carries_def held_def min_def)

lemma deliver_all_append:
  "deliver_all d c (xs @ ys) = do { c1 \<leftarrow> deliver_all d c xs; deliver_all d c1 ys }"
  by (induction xs arbitrary: c) simp_all

text \<open>The size step at the head of the loop, in both of its forms.\<close>

lemma river_head:
  assumes inv: "river_inv rv pend" and ib: "in_buf buf bidx remain" and ok: "e_ok env M_accum"
    and sz: "sizes_ok (pend @ window buf bidx remain)"
    and s: "s = (if r_msg_size rv \<le> 0 then river_size env buf (rv, bidx, remain) else Some (Next (rv, bidx, remain)))"
  shows "if length (pend @ window buf bidx remain) < 9
     then \<exists>rv1. s = Some (Return (rv1, bidx, remain)) \<and> river_inv rv1 (pend @ window buf bidx remain)
     else \<exists>rv1 pend1 bi re. s = Some (Next (rv1, bi, re)) \<and>
       river_mid rv1 pend1 (mlen_of (pend @ window buf bidx remain)) \<and> in_buf buf bi re \<and>
       length pend < mlen_of (pend @ window buf bidx remain) \<and>
       pend1 @ window buf bi re = pend @ window buf bidx remain"
proof (cases "length pend < 9")
  case True
  with inv have "r_msg_size rv \<le> 0" by (simp add: river_inv_def)
  with s have s': "s = river_size env buf (rv, bidx, remain)" by simp
  show ?thesis
  proof (cases "length (pend @ window buf bidx remain) < 9")
    case L: True
    with river_size_short [OF inv ib L] s' show ?thesis by auto
  next
    case False
    then have n: "9 \<le> length (pend @ window buf bidx remain)" by simp
    then have "length pend < mlen_of (pend @ window buf bidx remain)"
      using sz True by (auto simp: sizes_ok.simps split: if_splits)
    with river_size_next [OF inv True ib n ok sz] False s' show ?thesis by auto
  qed
next
  case False
  then have p: "mlen_of (pend @ window buf bidx remain) = mlen_of pend" by (intro mlen_of_prefix) simp
  from False inv have "r_msg_size rv = int (mlen_of pend)" "length pend < mlen_of pend" "int (mlen_of pend) \<le> r_nbytes rv" "accum_holds rv pend"
    by (simp_all add: river_inv_def)
  with False s ib p show ?thesis by (auto simp: river_mid_def)
qed

lemma split_msgs_short: "length s < 9 \<or> length s < mlen_of s \<Longrightarrow> split_msgs s = ([], s)"
  by (subst split_msgs.simps) auto

lemma river_inv_split: "river_inv rv pend \<Longrightarrow> split_msgs pend = ([], pend)"
  by (rule split_msgs_short) (auto simp: river_inv_def split: if_splits)

lemma river_loop_splits:
  assumes "river_inv rv pend" and "in_buf buf bidx remain" and "sizes_ok (pend @ window buf bidx remain)"
    and "e_ok env M_accum" and "0 \<le> ibm \<and> ibm + 1024 < 2 ^ 31" and "nat remain \<le> fuel"
    and "split_msgs (pend @ window buf bidx remain) = (ms, rest)"
  shows "\<exists>raws rv1. list_all2 held raws ms \<and> river_inv rv1 rest \<and>
     (\<forall>c. river_loop fuel env deliver ibm buf (c, rv, bidx, remain) =
       do { c1 \<leftarrow> deliver_all deliver c raws; Some (Some (c1, rv1)) })"
  using assms
proof (induction fuel arbitrary: rv pend bidx remain ms)
  case 0
  then have r: "remain = 0" by (simp add: in_buf_def)
  have "split_msgs pend = ([], pend)" using 0(1) by (rule river_inv_split)
  with 0 r show ?case by (auto simp: window_def intro!: exI [of _ "[]"])
next
  case (Suc fuel)
  let ?s = "pend @ window buf bidx remain"
  let ?n = "mlen_of ?s"
  note inv = Suc.prems(1) and ib = Suc.prems(2) and sz = Suc.prems(3) and ok = Suc.prems(4) and sp = Suc.prems(7)
  show ?case
  proof (cases "remain = 0")
    case True
    have "split_msgs pend = ([], pend)" using inv by (rule river_inv_split)
    with sp inv True show ?thesis by (auto simp: window_def intro!: exI [of _ "[]"])
  next
    case False
    then have pos: "0 < remain" using ib by (simp add: in_buf_def)
    define s where "s = (if r_msg_size rv \<le> 0 then river_size env buf (rv, bidx, remain) else Some (Next (rv, bidx, remain)))"
    note hd = river_head [OF inv ib ok sz s_def]
    show ?thesis
    proof (cases "length ?s < 9")
      case L: True
      with hd obtain rv1 where "s = Some (Return (rv1, bidx, remain))" "river_inv rv1 ?s" by auto
      moreover have "ms = []" "rest = ?s" using sp L by (simp_all add: split_msgs_short)
      ultimately show ?thesis using pos by (auto simp: s_def [symmetric] intro!: exI [of _ "[]"])
    next
      case G: False
      with hd obtain rv1 pend1 bi re where s: "s = Some (Next (rv1, bi, re))" "river_mid rv1 pend1 ?n"
          "in_buf buf bi re" "length pend < ?n" "pend1 @ window buf bi re = ?s" by auto
      have n9: "9 \<le> ?n" using s(2) by (simp add: river_mid_def)
      show ?thesis
      proof (cases "length ?s < ?n")
        case W: True
        with river_take_wait [OF s(2,3), of env deliver ibm] G s(5) obtain rv2 where
            t: "\<forall>c. river_take env deliver ibm buf (c, rv1, bi, re) = Some (c, rv2, bi, 0)" "river_inv rv2 ?s" by auto
        have "ms = []" "rest = ?s" using sp W by (simp_all add: split_msgs_short)
        have "\<forall>c. river_loop (Suc fuel) env deliver ibm buf (c, rv, bidx, remain) = Some (Some (c, rv2))"
          using t(1) s(1) pos by (cases fuel) (simp_all add: s_def [symmetric])
        with t(2) \<open>ms = []\<close> \<open>rest = ?s\<close> show ?thesis by (auto intro!: exI [of _ "[]"])
      next
        case F: False
        then have F': "?n \<le> length (pend1 @ window buf bi re)" using s(5) by simp
        from river_take_full [OF s(2,3) F' ok Suc.prems(5), of deliver] obtain raw rv2 where
            t: "\<forall>c. river_take env deliver ibm buf (c, rv1, bi, re) =
              do { c1 \<leftarrow> deliver c (Some raw) (int (length raw));
                   Some (c1, rv2, bi + (int ?n - int (length pend1)), re - (int ?n - int (length pend1))) }"
            "river_inv rv2 []" "take ?n raw = take ?n ?s" "?n \<le> length raw" "length raw < 2 ^ 31" using s(5) by auto
        let ?d = "int ?n - int (length pend1)"
        have d: "0 \<le> ?d" "?d \<le> re" using s(2) F' length_window [OF s(3)] s(3) by (auto simp: river_mid_def in_buf_def)
        have "nat ?d = ?n - length pend1" by simp
        then have w: "window buf (bi + ?d) (re - ?d) = drop ?n ?s"
          using window_drop [OF d, of bi buf] s(3) s(5) [symmetric] d(1) by (simp add: in_buf_def)
        obtain ms0 where ms: "split_msgs (drop ?n ?s) = (ms0, rest)" "ms = take ?n ?s # ms0"
          using sp F G n9 by (auto simp: split_msgs.simps [of ?s] split: prod.splits)
        have lw: "nat (re - ?d) = length ?s - ?n" using length_window [OF in_buf_adv [OF s(3) d]] w by simp
        have fu: "nat (re - ?d) \<le> fuel" using lw length_window [OF ib] s(4) F Suc.prems(6) by simp
        have sz': "sizes_ok (drop ?n ?s)" using sz F G by (auto simp: sizes_ok.simps [of ?s] split: if_splits)
        obtain raws rv3 where IH: "list_all2 held raws ms0" "river_inv rv3 rest"
            "\<forall>c. river_loop fuel env deliver ibm buf (c, rv2, bi + ?d, re - ?d) =
              do { c2 \<leftarrow> deliver_all deliver c raws; Some (Some (c2, rv3)) }"
          using Suc.IH [OF t(2) in_buf_adv [OF s(3) d] _ ok Suc.prems(5) fu, of ms0] w sz' ms(1) by auto
        have "held raw (take ?n ?s)" using t(3-5) F by (intro held_take) simp_all
        with IH(1) ms(2) have "list_all2 held (raw # raws) ms" by simp
        moreover have "\<forall>c. river_loop (Suc fuel) env deliver ibm buf (c, rv, bidx, remain) =
            do { c1 \<leftarrow> deliver_all deliver c (raw # raws); Some (Some (c1, rv3)) }"
          using pos s(1) t(1) IH(3) by (simp add: s_def [symmetric])
        ultimately show ?thesis using IH(2) by blast
      qed
    qed
  qed
qed

section \<open>The data callback\<close>

text \<open>The delivery of a message does not look at the rivers.\<close>

lemma put_river_fields [simp]:
  "zcb_mring (put_river c fd rv) = zcb_mring c" "mring (put_river c fd rv) = mring c" "dcount (put_river c fd rv) = dcount c"
  "acc_dcount (put_river c fd rv) = acc_dcount c" "acc_ecount (put_river c fd rv) = acc_ecount c"
  "chutes (put_river c fd rv) = chutes c" "max_ibm (put_river c fd rv) = max_ibm c" "nrivers (put_river c fd rv) = nrivers c"
  "q_last_warning (put_river c fd rv) = q_last_warning c"
  by (simp_all add: put_river_def)

lemma put_river_upd:
  "(put_river c fd rv)\<lparr>zcb_mring := r\<rparr> = put_river (c\<lparr>zcb_mring := r\<rparr>) fd rv"
  "(put_river c fd rv)\<lparr>mring := r\<rparr> = put_river (c\<lparr>mring := r\<rparr>) fd rv"
  "(put_river c fd rv)\<lparr>dcount := d\<rparr> = put_river (c\<lparr>dcount := d\<rparr>) fd rv"
  "(put_river c fd rv)\<lparr>acc_dcount := d\<rparr> = put_river (c\<lparr>acc_dcount := d\<rparr>) fd rv"
  "(put_river c fd rv)\<lparr>acc_ecount := d\<rparr> = put_river (c\<lparr>acc_ecount := d\<rparr>) fd rv"
  "(put_river c fd rv)\<lparr>chutes := chs\<rparr> = put_river (c\<lparr>chutes := chs\<rparr>) fd rv"
  "(put_river c fd rv)\<lparr>q_last_warning := d\<rparr> = put_river (c\<lparr>q_last_warning := d\<rparr>) fd rv"
  by (simp_all add: put_river_def)

lemma map_option_bind: "map_option f (m \<bind> g) = m \<bind> (\<lambda>x. map_option f (g x))"
  by (cases m) simp_all

lemma queue_normal_put_river:
  "queue_normal env (put_river c fd rv) mb = map_option (\<lambda>c. put_river c fd rv) (queue_normal env c mb)"
  by (simp add: queue_normal_def put_river_upd Let_def split: prod.split list.split)

lemma deliver_mbuf_put_river:
  "deliver_mbuf env (put_river c fd rv) = (\<lambda>mb. map_option (\<lambda>c. put_river c fd rv) (deliver_mbuf env c mb))"
  unfolding deliver_mbuf_def
  by (rule ext) (simp add: queue_normal_put_river put_river_upd Let_def map_option_bind if_distrib [of "map_option _"]
      cong: if_cong)

lemma buf2mbuf_put_river:
  "buf2mbuf env (put_river c fd rv) raw n sfd = map_option (\<lambda>c. put_river c fd rv) (buf2mbuf env c raw n sfd)"
  unfolding buf2mbuf_def alloc_mbuf_def
  by (simp add: deliver_mbuf_put_river put_river_upd Let_def map_option_bind if_distrib [of "map_option _"]
      split: prod.split cong: if_cong)

lemma deliver_all_put_river:
  "deliver_all (\<lambda>c raw n. buf2mbuf env c raw n sfd) (put_river c fd rv) raws =
     map_option (\<lambda>c. put_river c fd rv) (deliver_all (\<lambda>c raw n. buf2mbuf env c raw n sfd) c raws)"
proof (induction raws arbitrary: c)
  case (Cons raw raws)
  then show ?case
    by (cases "buf2mbuf env c (Some raw) (int (length raw)) sfd") (simp_all add: buf2mbuf_put_river)
qed simp

definition river_slot :: "'a rcv_ctx_scheme \<Rightarrow> int \<Rightarrow> bool" where
  "river_slot c fd \<longleftrightarrow> 0 \<le> fd \<and> (fd \<ge> nrivers c \<or> nat fd < length (rivers c)) \<and> 0 \<le> max_ibm c \<and> max_ibm c + 1024 < 2 ^ 31"

definition same_rivers :: "'a rcv_ctx_scheme \<Rightarrow> 'a rcv_ctx_scheme \<Rightarrow> bool" where
  "same_rivers c c' \<longleftrightarrow> nrivers c' = nrivers c \<and> rivers c' = rivers c \<and> river_hash c' = river_hash c \<and> max_ibm c' = max_ibm c"

lemma same_rivers_slot: "same_rivers c c' \<Longrightarrow> river_slot c' fd = river_slot c fd"
  by (simp add: same_rivers_def river_slot_def)

lemma queue_normal_rivers: "queue_normal env c mb = Some c' \<Longrightarrow> same_rivers c c'"
  by (auto simp: queue_normal_def same_rivers_def Let_def split: prod.splits list.splits if_splits)

lemma deliver_mbuf_rivers: "deliver_mbuf env c mb = Some c' \<Longrightarrow> same_rivers c c'"
  by (auto simp: deliver_mbuf_def option_bind_Some_iff Let_def intro: queue_normal_rivers split: if_splits)
    (auto simp: same_rivers_def)

lemma buf2mbuf_rivers: "buf2mbuf env c raw n fd = Some c' \<Longrightarrow> same_rivers c c'"
  by (auto simp: buf2mbuf_def alloc_mbuf_def option_bind_Some_iff Let_def same_rivers_def
      dest!: deliver_mbuf_rivers split: if_splits prod.splits)

lemma deliver_all_rivers:
  "deliver_all (\<lambda>c raw n. buf2mbuf env c raw n fd) c raws = Some c' \<Longrightarrow> same_rivers c c'"
proof (induction raws arbitrary: c)
  case (Cons raw raws)
  then show ?case
    by (auto simp: option_bind_Some_iff same_rivers_def dest!: buf2mbuf_rivers)
qed (simp add: same_rivers_def)

lemma put_river_again [simp]: "put_river (put_river c fd a) fd b = put_river c fd b"
  by (simp add: put_river_def)

lemma find_put_river: "river_slot c fd \<Longrightarrow> find_river env (put_river c fd rv) fd = Some rv"
  by (auto simp: find_river_def put_river_def river_slot_def)

lemma river_slot_put [simp]: "river_slot (put_river c fd rv) fd' = river_slot c fd'"
  by (simp add: river_slot_def put_river_def)

text \<open>A sequence of callbacks on one connection.\<close>

fun cb_feed :: "nat \<Rightarrow> rcv_env \<Rightarrow> 'a rcv_ctx_scheme \<Rightarrow> int \<Rightarrow> bytes list \<Rightarrow> 'a rcv_ctx_scheme option option" where
  "cb_feed fuel env ctx fd [] = Some (Some ctx)"
| "cb_feed fuel env ctx fd (d # ds) =
     do { r \<leftarrow> mt_data_cb fuel env ctx fd d (int (length d));
          (case r of None \<Rightarrow> Some None | Some c \<Rightarrow> cb_feed fuel env c fd ds) }"

abbreviation (input) receive_all where
  "receive_all env fd c raws \<equiv> deliver_all (\<lambda>c raw n. buf2mbuf env c raw n fd) c raws"

lemma cb_good:
  assumes inv: "river_inv rv pend" and rd: "river_ready env ibm rv0 = Next rv" and ibm: "0 \<le> ibm \<and> ibm + 1024 < 2 ^ 31"
    and sz: "sizes_ok (pend @ d)" and ok: "e_ok env M_accum" and fu: "length d \<le> fuel"
    and d: "d \<noteq> []" and sp: "split_msgs (pend @ d) = (ms, rest)" and fd: "0 \<le> fd"
  shows "\<exists>raws rv1. list_all2 held raws ms \<and> river_inv rv1 rest \<and>
     (\<forall>c :: 'a rcv_ctx_scheme. max_ibm c = ibm \<longrightarrow> find_river env c fd = Some rv0 \<longrightarrow>
        mt_data_cb fuel env c fd d (int (length d)) =
          do { c1 \<leftarrow> receive_all env fd c raws; Some (Some (put_river c1 fd rv1)) })"
proof -
  have ib: "in_buf d 0 (int (length d))" by (simp add: in_buf_def)
  have w: "window d 0 (int (length d)) = d" by (simp add: window_def)
  obtain raws rv1 where r: "list_all2 held raws ms" "river_inv rv1 rest"
      "\<forall>c :: 'a rcv_ctx_scheme. river_loop fuel env (\<lambda>c raw n. buf2mbuf env c raw n fd) ibm d (c, rv, 0, int (length d)) =
       do { c1 \<leftarrow> receive_all env fd c raws; Some (Some (c1, rv1)) }"
    using river_loop_splits [OF inv ib _ ok ibm, of fuel ms rest "\<lambda>c raw n. buf2mbuf env c raw n fd"]
      sz fu sp w by auto
  have "mt_data_cb fuel env c fd d (int (length d)) =
       do { c1 \<leftarrow> receive_all env fd c raws; Some (Some (put_river c1 fd rv1)) }"
    if "max_ibm c = ibm" "find_river env c fd = Some rv0" for c :: "'a rcv_ctx_scheme"
    unfolding mt_data_cb_def that using rd r(3) d fd
    by (cases "receive_all env fd c raws") (simp_all del: river_loop.simps)
  with r show ?thesis by blast
qed

lemma cb_feed_good:
  assumes "river_inv rv pend" and "river_ready env ibm rv0 = Next rv" and "sizes_ok (pend @ concat (d # ds))"
    and "e_ok env M_accum" and "0 \<le> ibm \<and> ibm + 1024 < 2 ^ 31" and "0 \<le> fd"
    and "\<And>x. x \<in> set (d # ds) \<Longrightarrow> x \<noteq> [] \<and> length x \<le> fuel" and "split_msgs (pend @ concat (d # ds)) = (ms, rest)"
  shows "\<exists>raws rv1. list_all2 held raws ms \<and> river_inv rv1 rest \<and>
     (\<forall>c :: 'a rcv_ctx_scheme. max_ibm c = ibm \<longrightarrow> river_slot c fd \<longrightarrow> find_river env c fd = Some rv0 \<longrightarrow> cb_feed fuel env c fd (d # ds) =
       do { c1 \<leftarrow> receive_all env fd c raws; Some (Some (put_river c1 fd rv1)) })"
  using assms
proof (induction ds arbitrary: d rv rv0 pend ms)
  case Nil
  have "length d \<le> fuel" "d \<noteq> []" using Nil.prems(7) by auto
  from cb_good [OF Nil.prems(1,2,5) _ Nil.prems(4) this(1,2) _ Nil.prems(6), of ms rest] Nil.prems(3,8)
  obtain raws rv1 where r: "list_all2 held raws ms" "river_inv rv1 rest"
     "\<forall>c :: 'a rcv_ctx_scheme. max_ibm c = ibm \<longrightarrow> find_river env c fd = Some rv0 \<longrightarrow> mt_data_cb fuel env c fd d (int (length d)) =
          do { c1 \<leftarrow> receive_all env fd c raws; Some (Some (put_river c1 fd rv1)) }" by auto
  have "cb_feed fuel env c fd [d] = do { c1 \<leftarrow> receive_all env fd c raws; Some (Some (put_river c1 fd rv1)) }"
    if "max_ibm c = ibm" "find_river env c fd = Some rv0" for c :: "'a rcv_ctx_scheme"
    using r(3) that by (cases "receive_all env fd c raws") simp_all
  with r(1,2) show ?case by blast
next
  case (Cons d2 ds)
  obtain m1 r1 where s1: "split_msgs (pend @ d) = (m1, r1)" by fastforce
  obtain m2 r2 where s2: "split_msgs (r1 @ concat (d2 # ds)) = (m2, r2)" by fastforce
  have ms: "ms = m1 @ m2" "rest = r2"
    using split_msgs_append [OF s1 s2] Cons.prems(3,8) by simp_all
  have sz1: "sizes_ok (pend @ d)" using sizes_ok_prefix [of "pend @ d" "concat (d2 # ds)"] Cons.prems(3) by simp
  have sz2: "sizes_ok (r1 @ concat (d2 # ds))" using sizes_ok_rest [OF s1] Cons.prems(3) by simp
  have "length d \<le> fuel" "d \<noteq> []" using Cons.prems(7) by auto
  from cb_good [OF Cons.prems(1,2,5) sz1 Cons.prems(4) this s1 Cons.prems(6)]
  obtain raws1 rv1 where 1: "list_all2 held raws1 m1" "river_inv rv1 r1"
     "\<forall>c :: 'a rcv_ctx_scheme. max_ibm c = ibm \<longrightarrow> find_river env c fd = Some rv0 \<longrightarrow> mt_data_cb fuel env c fd d (int (length d)) =
          do { c1 \<leftarrow> receive_all env fd c raws1; Some (Some (put_river c1 fd rv1)) }" by blast
  have st: "river_ready env ibm rv1 = Next rv1" using 1(2) by (simp add: river_ready_def river_inv_def accum_holds_def)
  have "\<And>x. x \<in> set (d2 # ds) \<Longrightarrow> x \<noteq> [] \<and> length x \<le> fuel" using Cons.prems(7) by auto
  from Cons.IH [OF 1(2) st sz2 Cons.prems(4-6) this s2 [folded ms(2)]]
  obtain raws2 rv2 where 2: "list_all2 held raws2 m2" "river_inv rv2 rest"
     "\<forall>c :: 'a rcv_ctx_scheme. max_ibm c = ibm \<longrightarrow> river_slot c fd \<longrightarrow> find_river env c fd = Some rv1 \<longrightarrow> cb_feed fuel env c fd (d2 # ds) =
       do { c1 \<leftarrow> receive_all env fd c raws2; Some (Some (put_river c1 fd rv2)) }" by blast
  have "cb_feed fuel env c fd (d # d2 # ds) =
      do { c1 \<leftarrow> receive_all env fd c (raws1 @ raws2); Some (Some (put_river c1 fd rv2)) }"
    if c: "max_ibm c = ibm" "river_slot c fd" "find_river env c fd = Some rv0" for c :: "'a rcv_ctx_scheme"
  proof (cases "receive_all env fd c raws1")
    case None
    with 1(3) c show ?thesis by (simp add: deliver_all_append)
  next
    case (Some c1)
    have sr: "same_rivers c c1" by (rule deliver_all_rivers [OF Some])
    then have c1: "max_ibm c1 = ibm" "river_slot c1 fd"
      using c same_rivers_slot [OF sr] by (simp_all add: same_rivers_def)
    have "cb_feed fuel env (put_river c1 fd rv1) fd (d2 # ds) =
        do { c2 \<leftarrow> receive_all env fd c1 raws2; Some (Some (put_river c2 fd rv2)) }"
      using 2(3) c1 find_put_river [OF c1(2)]
      by (cases "receive_all env fd c1 raws2") (simp_all add: deliver_all_put_river del: cb_feed.simps)
    with 1(3) c Some show ?thesis by (simp add: deliver_all_append)
  qed
  moreover have "list_all2 held (raws1 @ raws2) ms" using 1(1) 2(1) ms(1) by (simp add: list_all2_appendI)
  ultimately show ?case using 2(2) by blast
qed

text \<open>The first callback of a connection finds a new river.\<close>

lemma cb_feed_stream:
  assumes "find_river env ctx fd = Some rv0" and "r_state rv0 = RS_NEW" and "river_slot ctx fd"
    and "e_ok env M_accum" and "chunks \<noteq> []" and "\<forall>d \<in> set chunks. d \<noteq> [] \<and> length d \<le> fuel"
    and "sizes_ok (concat chunks)" and "split_msgs (concat chunks) = (msgs, rest)"
  shows "\<exists>raws rv. list_all2 held raws msgs \<and> river_inv rv rest \<and>
     cb_feed fuel env ctx fd chunks =
       do { c \<leftarrow> deliver_all (\<lambda>c raw n. buf2mbuf env c raw n fd) ctx raws; Some (Some (put_river c fd rv)) }"
proof -
  let ?n = "max_ibm ctx + 1024"
  let ?rv = "zero_river\<lparr>r_state := RS_GOOD, r_nbytes := ?n, r_accum := malloc_accum env ?n\<rparr>"
  have b: "0 \<le> max_ibm ctx \<and> max_ibm ctx + 1024 < 2 ^ 31" "0 \<le> fd" using assms(3) by (simp_all add: river_slot_def)
  have inv: "river_inv ?rv []"
    using assms(4) b by (simp add: river_inv_def accum_holds_def zero_river_def malloc_accum_def) linarith
  have rd: "river_ready env (max_ibm ctx) rv0 = Next ?rv" using assms(2) by (simp add: river_ready_def)
  obtain d ds where ch: "chunks = d # ds" using assms(5) by (cases chunks) auto
  show ?thesis
    using cb_feed_good [OF inv rd _ assms(4) b, of d ds fuel msgs rest] assms(1,3,6-8) ch by auto
qed

text \<open>A buffer with a header whose lengths, the transport header and the payload length add up without an
  overflow of 32 bits.\<close>

definition hdr_fits :: "bytes \<Rightarrow> bool" where
  "hdr_fits b = (330 \<le> length b \<and>
     (case (get32 b 246, get32 b 250, get32 b 254, get32 b 258, get32 b 54) of
        (Some l0, Some l1, Some l2, Some l3, Some pl) \<Rightarrow> unat l0 + unat l1 + unat l2 + unat l3 + 50 + unat pl < 2 ^ 32
      | _ \<Rightarrow> False))"

lemma hdr_fits_prefix:
  assumes "carries raw m" and "hdr_fits m"
  shows "hdr_fits raw"
proof -
  have l: "330 \<le> length m" "length m \<le> length raw" "take (length m) raw = m" using assms by (auto simp: hdr_fits_def carries_def)
  obtain r where r: "raw = m @ r" using l(3) by (metis append_take_drop_id)
  have "get32 raw p = get32 m p" if "p + 4 \<le> 330" for p using l(1) that by (simp add: r get32_def mem_rd_def)
  then show ?thesis using assms(2) l by (simp add: hdr_fits_def)
qed

text \<open>Such a buffer is delivered or dropped, without a fault.\<close>

lemma queue_normal_total: "length (chutes c) = 256 \<Longrightarrow> \<exists>c'. queue_normal env c m = Some c' \<and> length (chutes c') = 256"
  by (cases "chutes c") (auto simp: queue_normal_def Let_def split: prod.splits)

lemma buf2mbuf_total:
  assumes "hdr_fits b" and "length b < 2 ^ 31" and "length (chutes c) = 256"
  shows "\<exists>c'. buf2mbuf env c (Some b) (int (length b)) fd = Some c' \<and> length (chutes c') = 256"
proof -
  obtain l0 l1 l2 l3 pl where l: "get32 b 246 = Some l0" "get32 b 250 = Some l1" "get32 b 254 = Some l2" "get32 b 258 = Some l3" "get32 b 54 = Some pl"
    "330 \<le> length b" "unat l0 + unat l1 + unat l2 + unat l3 + 50 + unat pl < 2 ^ 32" using assms(1) by (auto simp: hdr_fits_def split: option.splits)
  have hl: "RMR_HDR_LEN b 50 = Some (l0 + l1 + l2 + l3)" using l by (simp add: RMR_HDR_LEN_def)
  obtain x c1 where al: "alloc_mbuf (e_ok env) (e_lock env) c RMR_ERR_UNSET = (x, c1)" by fastforce
  have c1: "length (chutes c1) = 256" using al assms(3) by (auto simp: alloc_mbuf_def Let_def split: prod.splits if_splits)
  show ?thesis
  proof (cases "l0 + l1 + l2 + l3 + 50 + pl > word_of_int (int (length b)) \<or> x = None")
    case True
    then show ?thesis using l(5) hl al c1 assms(3) by (auto simp: buf2mbuf_def)
  next
    case False
    then obtain m where m: "x = Some m" by auto
    let ?m = "m\<lparr>m_tp_buf := Some b, m_rts_fd := fd, m_flags := (if int (length b) > max_ibm c1 + 1024 then m_flags m OR MFL_HUGE else m_flags m)\<rparr>"
    have g: "\<exists>v. get32 b p = Some v" if "p + 4 \<le> 330" for p using that l(6) by (simp add: get32_def mem_rd_def)
    obtain v1 v2 v3 where v: "get32 b 58 = Some v1" "get32 b 50 = Some v2" "get32 b 262 = Some v3" using g [of 58] g [of 50] g [of 262] by auto
    have "\<exists>mb. ref_tpbuf ?m (int (length b)) = Some mb \<and> m_tp_buf mb = Some b \<and> m_header mb = Some 50"
      using l(1-5) v hl by (simp add: ref_tpbuf_def HDR_VERSION_def PAYLOAD_ADDR_def Let_def)
    then obtain mb where mb: "ref_tpbuf ?m (int (length b)) = Some mb" "m_tp_buf mb = Some b" "m_header mb = Some 50" by blast
    have run: "buf2mbuf env c (Some b) (int (length b)) fd = deliver_mbuf env c1 mb"
      using False l(5) hl al m mb(1) by (simp add: buf2mbuf_def)
    have u: "unat (l0 + l1 + l2 + l3 + 50 + pl) = unat l0 + unat l1 + unat l2 + unat l3 + 50 + unat pl" using l(7)
      by (simp add: unat_word_ariths)
    have ub: "unat (word_of_int (int (length b)) :: u32) = length b" by (subst unat_word_of_int_nat) (use assms(2) in simp_all)
    have fit: "unat l0 + unat l1 + unat l2 + unat l3 + 50 + unat pl \<le> length b" using False u ub by (simp add: word_less_nat_alt not_less)
    obtain fl where fl: "hdr_flags b 50 = Some fl" using l(6) by (auto simp: hdr_flags_def mem_rd_def)
    have d: "RMR_D1_LEN b 50 = Some l2" "DATA1_ADDR b 50 = Some (50 + unat l0 + unat l1)" using l by (simp_all add: RMR_D1_LEN_def DATA1_ADDR_def)
    have rd: "mem_rd b (50 + unat l0 + unat l1) 1 = Some [b ! (50 + unat l0 + unat l1)]" if "\<not> l2 \<le> 0"
    proof -
      have "50 + unat l0 + unat l1 < length b" using that fit by (simp add: word_le_nat_alt)
      then show ?thesis by (simp add: mem_rd_def take_Suc hd_drop_conv_nth neq_Nil_conv Cons_nth_drop_Suc [symmetric])
    qed
    have cid: "unat (b ! (50 + unat l0 + unat l1)) < 256" by (rule order_less_le_trans [OF unsigned_less]) simp
    show ?thesis unfolding run using mb(2,3) fl d rd cid c1 queue_normal_total [OF c1, of env mb] by (auto simp: deliver_mbuf_def Let_def)
  qed
qed

lemma receive_all_total:
  assumes "\<And>raw. raw \<in> set raws \<Longrightarrow> hdr_fits raw \<and> length raw < 2 ^ 31" and "length (chutes c) = 256"
  shows "\<exists>c'. receive_all env fd c raws = Some c' \<and> length (chutes c') = 256"
  using assms
proof (induction raws arbitrary: c)
  case (Cons raw raws)
  obtain c1 where c1: "buf2mbuf env c (Some raw) (int (length raw)) fd = Some c1" "length (chutes c1) = 256"
    using buf2mbuf_total [of raw c env fd] Cons.prems by auto
  then show ?case using Cons.IH [of c1] Cons.prems(1) by auto
qed simp

text \<open>
  C1. However the bytes of a connection are cut into callbacks, the messages handed on are those
  of the stream.  The connection has a new river, the allocations of accumulators succeed, there are 256
  chutes; every length field of the stream is at least 9 (the size of the field itself) and less than
  \<open>2^31 - 128\<close>; and every complete message of the stream has a header whose lengths add up without an overflow.
  Then a sequence of calls of \<^verbatim>\<open>mt_data_cb\<close> ends without a fault (fuel for the largest buffer is enough),
  has called \<^verbatim>\<open>buf2mbuf\<close> once for each complete message of the stream, in order, on an accumulator that
  starts with the message, and keeps the incomplete rest.
\<close>

theorem stream_reassembly:
  assumes "find_river env ctx fd = Some rv0" and "r_state rv0 = RS_NEW" and "river_slot ctx fd"
    and "e_ok env M_accum" and "length (chutes ctx) = 256" and "chunks \<noteq> []" and "\<forall>d \<in> set chunks. d \<noteq> [] \<and> length d \<le> fuel"
    and "sizes_ok (concat chunks)" and "split_msgs (concat chunks) = (msgs, rest)" and "\<forall>m \<in> set msgs. hdr_fits m"
  shows "\<exists>raws rv c. list_all2 held raws msgs \<and> river_inv rv rest \<and>
     deliver_all (\<lambda>c raw n. buf2mbuf env c raw n fd) ctx raws = Some c \<and>
     cb_feed fuel env ctx fd chunks = Some (Some (put_river c fd rv))"
proof -
  obtain raws rv where r: "list_all2 held raws msgs" "river_inv rv rest"
    "cb_feed fuel env ctx fd chunks = do { c \<leftarrow> receive_all env fd ctx raws; Some (Some (put_river c fd rv)) }"
    using cb_feed_stream [OF assms(1-4,6-9)] by blast
  have "hdr_fits raw \<and> length raw < 2 ^ 31" if "raw \<in> set raws" for raw
  proof -
    obtain k where "k < length raws" "raw = raws ! k" using \<open>raw \<in> set raws\<close> by (metis in_set_conv_nth)
    then have "msgs ! k \<in> set msgs" "held raw (msgs ! k)" using r(1) by (simp_all add: list_all2_conv_all_nth)
    then show ?thesis using hdr_fits_prefix [of raw "msgs ! k"] assms(10) by (auto simp: held_def)
  qed
  then obtain c where "receive_all env fd ctx raws = Some c" using receive_all_total [of raws ctx env fd] assms(5) by blast
  with r show ?thesis by auto
qed

definition demo_env :: rcv_env where
  "demo_env = \<lparr>e_ok = (\<lambda>_. True), e_junk = (\<lambda>_. 0), e_lock = True, e_now = 0\<rparr>"

definition demo_rcv :: rcv_ctx where
  "demo_rcv = \<lparr>my_name = ''a:1'', my_ip = ''b:2'', max_plen = 8, trace_data_len = 0, d1_len = 4, d2_len = 0,
     zcb_mring = zcb_mring demo_ctx, mring = zcb_mring demo_ctx, dcount = 0, acc_dcount = 0, acc_ecount = 0,
     chutes = [], nrivers = 0, rivers = [], river_hash = (\<lambda>_. None), max_ibm = 8, q_last_warning = 0\<rparr>"

definition demo_node0 :: rcv_ctx where
  "demo_node0 = demo_rcv\<lparr>chutes := replicate 256 \<lparr>ch_mbuf = None, ch_barrier = 0, ch_expect = []\<rparr>\<rparr>"

text \<open>A message of 354 bytes as it is on the wire.\<close>

definition demo_framed :: bytes where
  "demo_framed = (case insert_mlen 354 demo_buf of Some b \<Rightarrow> b | None \<Rightarrow> [])"

lemma demo_framed_ok: "length demo_framed = 354" "hdr_fits demo_framed" "extract_mlen demo_framed = Some 354"
proof -
  obtain b where b: "insert_mlen 354 demo_buf = Some b" "extract_mlen b = Some 354" "frame demo_buf b 0 13" "length b = 354"
    using insert_mlen_step [of demo_buf 354] length_demo_buf by auto
  then have f: "demo_framed = b" by (simp add: demo_framed_def)
  have z: "get_be32 (replicate 4 0) = 0" by (simp add: get_be32_def get_le32_def numeral_eq_Suc)
  have "get32 demo_buf 54 = Some 0" by (simp add: demo_buf_def get32_def mem_rd_def z)
  moreover have "lens demo_buf 4 4 0" using demo_msg_ok by (simp add: mbuf_ok_def)
  ultimately show "hdr_fits demo_framed" using frame_get32 [OF b(3)] b(4) unfolding f by (simp add: hdr_fits_def lens_def)
qed (use insert_mlen_step [of demo_buf 354] length_demo_buf in \<open>auto simp: demo_framed_def\<close>)

lemma demo_split: "sizes_ok (demo_framed @ [7, 0])" "split_msgs (demo_framed @ [7, 0]) = ([demo_framed], [7, 0])"
proof -
  have "extract_mlen (demo_framed @ [7, 0]) = extract_mlen demo_framed" by (rule mlen_of_prefix(2)) (simp_all add: demo_framed_ok)
  then have m: "mlen_of (demo_framed @ [7, 0]) = 354" by (simp add: mlen_of_def demo_framed_ok)
  then show "sizes_ok (demo_framed @ [7, 0])" using demo_framed_ok by (simp add: sizes_ok.simps)
  show "split_msgs (demo_framed @ [7, 0]) = ([demo_framed], [7, 0])"
    using m demo_framed_ok by (subst split_msgs.simps) (simp add: split_msgs_short)
qed

theorem stream_reassembly_witness:
  "\<exists>raw rv c. held raw demo_framed \<and> river_inv rv [7, 0] \<and> buf2mbuf demo_env demo_node0 (Some raw) (int (length raw)) 5 = Some c \<and>
     cb_feed 400 demo_env demo_node0 5 [take 3 demo_framed, drop 3 (take 100 demo_framed), drop 100 demo_framed @ [7, 0]] = Some (Some (put_river c 5 rv))"
proof -
  let ?chunks = "[take 3 demo_framed, drop 3 (take 100 demo_framed), drop 100 demo_framed @ [7, 0]]"
  have ne: "demo_framed \<noteq> []" using demo_framed_ok(1) by auto
  have "take 3 demo_framed @ drop 3 (take 100 demo_framed) = take 100 demo_framed" using append_take_drop_id [of 3 "take 100 demo_framed"] by simp
  then have ch: "concat ?chunks = demo_framed @ [7, 0]" using append_take_drop_id [of 100 demo_framed] by (metis append.assoc append_Nil2 concat.simps)
  have "\<exists>raws rv c. list_all2 held raws [demo_framed] \<and> river_inv rv [7, 0] \<and>
     deliver_all (\<lambda>c raw n. buf2mbuf demo_env c raw n 5) demo_node0 raws = Some c \<and> cb_feed 400 demo_env demo_node0 5 ?chunks = Some (Some (put_river c 5 rv))"
    by (rule stream_reassembly [where ?rv0.0 = "zero_river\<lparr>r_state := RS_NEW\<rparr>"])
      (use demo_framed_ok ne in \<open>simp_all add: ch demo_split find_river_def river_slot_def demo_node0_def demo_rcv_def demo_env_def del: concat.simps\<close>)
  then obtain raw rv c where "held raw demo_framed" "river_inv rv [7, 0]" "buf2mbuf demo_env demo_node0 (Some raw) (int (length raw)) 5 = Some c"
      "cb_feed 400 demo_env demo_node0 5 ?chunks = Some (Some (put_river c 5 rv))"
    by (auto simp: list_all2_Cons2 option_bind_Some_iff simp del: cb_feed.simps)
  then show ?thesis by blast
qed

text \<open>What a pass over a message of length zero leaves behind: everything as it was, but for a new
  accumulator.\<close>

definition river_at_zero :: "river \<Rightarrow> bool" where
  "river_at_zero rv \<longleftrightarrow> r_ipt rv = 0 \<and> r_msg_size rv \<le> 0 \<and> r_flags rv = 0 \<and>
     (\<exists>a. r_accum rv = Some a \<and> hdr_fits a \<and> length a < 2 ^ 31 \<and> r_nbytes rv = int (length a))"

lemma zero_size_loop:
  assumes "extract_mlen buf = Some 0" and "9 \<le> remain" and "e_ok env M_accum" and "0 \<le> ibm \<and> ibm + 1024 < 2 ^ 31"
    and "hdr_fits (malloc_bytes (e_junk env) (nat (ibm + 1024)))" and "river_at_zero rv" and "length (chutes c) = 256"
  shows "river_loop fuel env (\<lambda>c raw n. buf2mbuf env c raw n fd) ibm buf (c, rv, 0, remain) = Some None"
  using assms(6,7)
proof (induction fuel arbitrary: c rv)
  case 0
  with assms(2) show ?case by simp
next
  case (Suc fuel)
  let ?rv = "rv\<lparr>r_msg_size := 0\<rparr>" and ?d = "\<lambda>c raw n. buf2mbuf env c raw n fd"
  obtain a where rv: "r_ipt rv = 0" "r_msg_size rv \<le> 0" "r_flags rv = 0" and a: "r_accum rv = Some a" "hdr_fits a" "length a < 2 ^ 31" "r_nbytes rv = int (length a)"
    using Suc.prems(1) by (auto simp: river_at_zero_def)
  have g: "river_grow env ?rv = Some ?rv" using a(4) by (simp add: river_grow_def)
  have s: "river_size env buf (rv, 0, remain) = Some (Next (?rv, 0, remain))"
    using rv assms(1,2) g by (simp add: river_size_def Let_def)
  have c: "accum_cpy ?rv buf 0 0 = Some ?rv"
    using rv a(1) by (simp add: accum_cpy_def memcpy_in_def mem_wr_def)
  obtain c1 where d: "buf2mbuf env c (Some a) (int (length a)) fd = Some c1" "length (chutes c1) = 256"
    using buf2mbuf_total [OF a(2,3) Suc.prems(2)] by blast
  let ?rv2 = "rv\<lparr>r_msg_size := -1, r_nbytes := ibm + 1024, r_accum := malloc_accum env (ibm + 1024), r_ipt := 0\<rparr>"
  have t: "river_take env ?d ibm buf (c, ?rv, 0, remain) = Some (c1, ?rv2, 0, remain)"
    using rv a c d(1) assms(2) by (simp add: river_take_def Let_def)
  have "river_at_zero ?rv2" using rv assms(3-5) by (simp add: river_at_zero_def malloc_accum_def) linarith
  then have "river_loop fuel env ?d ibm buf (c1, ?rv2, 0, remain) = Some None" using d(2) by (rule Suc.IH)
  with s t rv assms(2) show ?case by simp
qed

text \<open>
  C39. A length field of zero stops the receive thread.  When the first message of a connection has the
  length zero (there are 256 chutes, the allocation of accumulators succeeds, and what fresh memory holds
  where the header is looked for adds up without an overflow), no pass through the loop of \<^verbatim>\<open>mt_data_cb\<close> makes
  progress: each hands an accumulator to \<^verbatim>\<open>buf2mbuf\<close> and starts at the same byte again, and the loop does
  not end with any amount of fuel.
\<close>

theorem river_zero_size_spins:
  assumes "find_river env ctx fd = Some rv0" and "r_state rv0 = RS_NEW" and "river_slot ctx fd" and "e_ok env M_accum"
    and "length (chutes ctx) = 256" and "hdr_fits (malloc_bytes (e_junk env) (nat (max_ibm ctx + 1024)))"
    and "extract_mlen buf = Some 0" and "9 \<le> buflen" and "buflen \<le> int (length buf)"
  shows "mt_data_cb fuel env ctx fd buf buflen = Some None"
proof -
  let ?n = "max_ibm ctx + 1024"
  let ?rv = "zero_river\<lparr>r_state := RS_GOOD, r_nbytes := ?n, r_accum := malloc_accum env ?n\<rparr>"
  have b: "0 \<le> max_ibm ctx \<and> ?n < 2 ^ 31" "0 \<le> fd" using assms(3) by (simp_all add: river_slot_def)
  have rd: "river_ready env (max_ibm ctx) rv0 = Next ?rv" using assms(2) by (simp add: river_ready_def)
  have "river_at_zero ?rv" using assms(4,6) b by (simp add: river_at_zero_def zero_river_def malloc_accum_def) linarith
  from zero_size_loop [OF assms(7,8,4) b(1) assms(6) this assms(5), of fuel fd]
  show ?thesis using assms(1,8) b(2) rd by (simp add: mt_data_cb_def del: river_loop.simps)
qed

theorem river_zero_size_spins_witness: "mt_data_cb 1000 demo_env demo_node0 5 (replicate 9 0) 9 = Some None"
proof (rule river_zero_size_spins [where ?rv0.0 = "zero_river\<lparr>r_state := RS_NEW\<rparr>"])
  show "extract_mlen (replicate 9 0) = Some 0"
    by (simp add: extract_mlen_def mem_rd_def get_le32_def get_be32_def numeral_eq_Suc Let_def)
  show "hdr_fits (malloc_bytes (e_junk demo_env) (nat (max_ibm demo_node0 + 1024)))"
  proof -
    have z: "get_be32 (replicate 4 0) = 0" by (simp add: get_be32_def get_le32_def numeral_eq_Suc)
    have "malloc_bytes (e_junk demo_env) (nat (max_ibm demo_node0 + 1024)) = replicate 1032 0"
      by (simp add: demo_env_def demo_node0_def demo_rcv_def malloc_bytes_def map_replicate_const)
    then show ?thesis using z by (simp add: hdr_fits_def get32_def mem_rd_def)
  qed
qed (simp_all add: demo_env_def demo_node0_def demo_rcv_def find_river_def river_slot_def)

text \<open>The check of the header lengths against the size of the buffer is made in 32 bits: lengths that add up to
  more than that pass it, and the call id is looked for behind the end of the buffer.\<close>

lemma buf2mbuf_overflow_faults:
  assumes "330 \<le> length b" and "get32 b 246 = Some l0" and "get32 b 250 = Some l1" and "get32 b 254 = Some l2" and "get32 b 258 = Some l3"
    and "get32 b 54 = Some pl" and "l0 + l1 + l2 + l3 + 50 + pl \<le> word_of_int n" and "length b \<le> 50 + unat l0 + unat l1" and "l2 \<noteq> 0"
    and "hdr_flags b 50 = Some fl" and "fl AND HFL_CALL_MSG = 0" and "e_ok env M_mbuf"
  shows "buf2mbuf env ctx (Some b) n fd = None"
proof -
  obtain x c1 where al: "alloc_mbuf (e_ok env) (e_lock env) ctx RMR_ERR_UNSET = (Some x, c1)"
    using assms(12) by (cases "uta_ring_extract (e_lock env) (e_lock env) (zcb_mring ctx)") (auto simp: alloc_mbuf_def Let_def)
  let ?m = "x\<lparr>m_tp_buf := Some b, m_rts_fd := fd, m_flags := (if n > max_ibm c1 + 1024 then m_flags x OR MFL_HUGE else m_flags x)\<rparr>"
  have g: "\<exists>v. get32 b p = Some v" if "p + 4 \<le> 330" for p using that assms(1) by (simp add: get32_def mem_rd_def)
  obtain v1 v2 v3 where v: "get32 b 58 = Some v1" "get32 b 50 = Some v2" "get32 b 262 = Some v3" using g [of 58] g [of 50] g [of 262] by auto
  have hl: "RMR_HDR_LEN b 50 = Some (l0 + l1 + l2 + l3)" using assms by (simp add: RMR_HDR_LEN_def)
  have "\<exists>mb. ref_tpbuf ?m n = Some mb \<and> m_tp_buf mb = Some b \<and> m_header mb = Some 50"
    using assms(2-6) v hl by (simp add: ref_tpbuf_def HDR_VERSION_def PAYLOAD_ADDR_def Let_def)
  then obtain mb where mb: "ref_tpbuf ?m n = Some mb" "m_tp_buf mb = Some b" "m_header mb = Some 50" by blast
  have "mem_rd b (50 + unat l0 + unat l1) 1 = None" using assms(8) by (simp add: mem_rd_def)
  then have "deliver_mbuf env c1 mb = None" using mb(2,3) assms by (simp add: deliver_mbuf_def RMR_D1_LEN_def DATA1_ADDR_def)
  then show ?thesis using assms(6,7) hl al mb(1) by (simp add: buf2mbuf_def not_less [symmetric])
qed

section \<open>Where a received message goes\<close>

text \<open>\<^verbatim>\<open>queue_normal\<close> accounts for every message: with a free slot the message becomes the last of
  the receive ring, the enqueue counter and the semaphore of chute 0 go up by one; with a
  full ring the ring is unchanged and the accumulated drop counter goes up by one.\<close>

lemma queue_normal_accounts:
  assumes wf: "ring_wf (mring ctx)" and lk: "wgate (mring ctx) \<longrightarrow> e_lock env" and ch: "chutes ctx = ch # chs"
  shows "\<exists>ctx'. queue_normal env ctx mb = Some ctx' \<and> ring_wf (mring ctx') \<and>
     (if length (ring_list (mring ctx)) < ring_capacity (mring ctx)
      then ring_list (mring ctx') = ring_list (mring ctx) @ [Some mb] \<and> acc_ecount ctx' = acc_ecount ctx + 1 \<and>
        acc_dcount ctx' = acc_dcount ctx \<and> chutes ctx' = ch\<lparr>ch_barrier := ch_barrier ch + 1\<rparr> # chs
      else mring ctx' = mring ctx \<and> acc_ecount ctx' = acc_ecount ctx \<and> acc_dcount ctx' = acc_dcount ctx + 1 \<and>
        chutes ctx' = chutes ctx)"
proof -
  obtain rc r where i: "uta_ring_insert (e_lock env) (mring ctx) (Some mb) = (rc, r)" by fastforce
  have wf': "ring_wf r" using ring_insert_wf [OF wf, of "e_lock env" "Some mb"] i by simp
  show ?thesis
  proof (cases "ring_count (mring ctx) < unat (nelements (mring ctx)) - 1")
    case True
    from ring_insert_stored [OF wf True lk i] have "rc = R_ok" "ring_list r = ring_list (mring ctx) @ [Some mb]" by simp_all
    with i wf' True ch show ?thesis by (simp add: queue_normal_def ring_capacity_def)
  next
    case False
    then have "ring_count (mring ctx) = unat (nelements (mring ctx)) - 1"
      using ring_count_less [OF wf] by linarith
    from ring_insert_full [OF wf this lk, of "Some mb"] i have "rc = R_full" "r = mring ctx" by simp_all
    with i wf' False ch show ?thesis by (simp add: queue_normal_def ring_capacity_def Let_def)
  qed
qed

lemma sint_u32_range: "- (2 ^ 31) \<le> sint (v::u32) \<and> sint v < 2 ^ 31"
  using sint_greater_eq [of v] sint_less [of v] by simp

lemma ref_tpbuf_fits:
  assumes m: "m_tp_buf m = Some b" and L: "lens b l1 l2 l3" and b: "n = int (length b)" "n < 2 ^ 31"
    and pl: "get32 b 54 = Some (of_nat plen)" and fit: "330 + l1 + l2 + l3 + plen \<le> length b"
  shows "\<exists>m'. ref_tpbuf m n = Some m' \<and> mbuf_ok m' b l1 l2 l3 \<and> m_len m' = int plen \<and> m_state m' = RMR_OK \<and>
     m_rts_fd m' = m_rts_fd m \<and> get32 b 50 = Some (word_of_int (m_mtype m')) \<and> get32 b 262 = Some (word_of_int (m_sub_id m')) \<and>
     - (2 ^ 31) \<le> m_mtype m' \<and> m_mtype m' < 2 ^ 31 \<and> - (2 ^ 31) \<le> m_sub_id m' \<and> m_sub_id m' < 2 ^ 31"
proof -
  have g: "\<exists>v. get32 b p = Some v" if "p + 4 \<le> 330" for p
    using that fit by (simp add: get32_def mem_rd_def)
  obtain v1 v3 v4 where v: "HDR_VERSION b 50 = Some v1" "get32 b 50 = Some v3" "get32 b 262 = Some v4"
    using g [of 50] g [of 262] g [of 58] by (auto simp: HDR_VERSION_def)
  have hl: "sint (word_of_int (280 + int l1 + int l2 + int l3) :: u32) = 280 + int l1 + int l2 + int l3"
    by (rule sint_word_of_int_small) (use L in \<open>auto simp: lens_def\<close>)
  have al: "sint (word_of_int n :: u32) = n"
    by (rule sint_word_of_int_small) (use b in simp_all)
  have p: "sint (of_nat plen :: u32) = int plen" using fit b by (simp add: sint_of_nat_small)
  show ?thesis unfolding ref_tpbuf_def
    using m v pl p lens_rd(1,2) [OF L] hl al L b fit sint_u32_range [of v3] sint_u32_range [of v4]
    by (simp add: Let_def mbuf_ok_def)
qed

lemma deliver_mbuf_routes:
  assumes m: "mbuf_ok mb b l1 l2 l3" and fl: "hdr_flags b 50 = Some flags" and ch: "length (chutes c) = 256"
    and cid: "cid = unat (b ! (330 + l1))"
  shows "deliver_mbuf env c mb =
     (if flags AND HFL_CALL_MSG \<noteq> 0 \<or> l2 = 0 \<or> cid = 0 then queue_normal env c mb
      else Some (c\<lparr>chutes := (chutes c)[cid := (chutes c ! cid)\<lparr>ch_mbuf := Some mb,
                         ch_barrier := ch_barrier (chutes c ! cid) + 1\<rparr>]\<rparr>))"
proof -
  from m have f: "m_tp_buf mb = Some b" "m_header mb = Some 50" "lens b l1 l2 l3" by (simp_all add: mbuf_ok_def)
  note l = mbuf_ok_bound [OF m]
  have z: "((of_nat l2 :: u32) \<le> 0) = (l2 = 0)"
    using unat_of_nat_small [of l2] lens_hdr_len1 [OF f(3)] by (simp add: word_le_nat_alt)
  have rd: "mem_rd b (330 + l1) 1 = Some [b ! (330 + l1)]" if "l2 \<noteq> 0"
    using l that by (simp add: mem_rd_def take_Suc hd_drop_conv_nth neq_Nil_conv Cons_nth_drop_Suc [symmetric])
  have "cid < 256" unfolding cid by (rule order_less_le_trans [OF unsigned_less]) simp
  with f fl ch rd z cid lens_rd(4,7) [OF f(3)] show ?thesis
    by (simp add: deliver_mbuf_def Let_def)
qed

lemma buf2mbuf_size_check:
  assumes L: "lens b l1 l2 l3" and b: "330 \<le> length b" "n = int (length b)" "n < 2 ^ 31" and pl: "plen < 2 ^ 31"
  shows "(word_of_int (280 + int l1 + int l2 + int l3) + 50 + of_nat plen > (word_of_int n :: u32)) = (330 + l1 + l2 + l3 + plen > length b)"
proof -
  have s: "330 + l1 + l2 + l3 < 2 ^ 31" using L by (simp add: lens_def)
  have e1: "word_of_int (280 + int l1 + int l2 + int l3) + 50 + of_nat plen = (word_of_int (330 + int l1 + int l2 + int l3 + int plen) :: u32)" by simp
  have e2: "unat (word_of_int (330 + int l1 + int l2 + int l3 + int plen) :: u32) = 330 + l1 + l2 + l3 + plen"
    by (subst unat_word_of_int_nat) (use s pl in simp_all)
  have e3: "unat (word_of_int n :: u32) = length b" by (subst unat_word_of_int_nat) (use b in simp_all)
  show ?thesis unfolding e1 word_less_nat_alt e2 e3 ..
qed

text \<open>A buffer that passes the check becomes a well-formed message.\<close>

lemma buf2mbuf_builds:
  assumes L: "lens b l1 l2 l3" and b: "n = int (length b)" "n < 2 ^ 31"
    and pl: "get32 b 54 = Some (of_nat plen)" and ok: "e_ok env M_mbuf" and fit: "330 + l1 + l2 + l3 + plen \<le> length b"
  shows "\<exists>mb ctx1. mbuf_ok mb b l1 l2 l3 \<and> m_len mb = int plen \<and> m_state mb = RMR_OK \<and> m_rts_fd mb = fd \<and>
     get32 b 50 = Some (word_of_int (m_mtype mb)) \<and> get32 b 262 = Some (word_of_int (m_sub_id mb)) \<and>
     - (2 ^ 31) \<le> m_mtype mb \<and> m_mtype mb < 2 ^ 31 \<and> - (2 ^ 31) \<le> m_sub_id mb \<and> m_sub_id mb < 2 ^ 31 \<and>
     mring ctx1 = mring ctx \<and> chutes ctx1 = chutes ctx \<and> same_rivers ctx ctx1 \<and>
     buf2mbuf env ctx (Some b) n fd = deliver_mbuf env ctx1 mb"
proof -
  define H where "H = (word_of_int (280 + int l1 + int l2 + int l3) :: u32)"
  have hl: "RMR_HDR_LEN b 50 = Some H" unfolding H_def by (rule lens_rd(1) [OF L])
  have cmp: "\<not> H + 50 + of_nat plen > (word_of_int n :: u32)"
    unfolding H_def using buf2mbuf_size_check [OF L _ b, of plen] fit b by simp
  obtain x r where e: "uta_ring_extract (e_lock env) (e_lock env) (zcb_mring ctx) = (x, r)" by fastforce
  define ctx1 where "ctx1 = ctx\<lparr>zcb_mring := r\<rparr>"
  define m where "m = zero_mbuf\<lparr>m_cookie := 0x4942, m_sub_id := UNSET_SUBID, m_mtype := UNSET_MSGTYPE,
               m_len := -1, m_state := RMR_ERR_UNSET, m_ring := True\<rparr>"
  have al: "alloc_mbuf (e_ok env) (e_lock env) ctx RMR_ERR_UNSET = (Some m, ctx1)"
    using e ok by (simp add: alloc_mbuf_def ctx1_def m_def Let_def)
  define m2 where "m2 = m\<lparr>m_tp_buf := Some b, m_rts_fd := fd,
      m_flags := (if n > max_ibm ctx1 + 1024 then m_flags m OR MFL_HUGE else m_flags m)\<rparr>"
  obtain mb where mb: "ref_tpbuf m2 n = Some mb" "mbuf_ok mb b l1 l2 l3" "m_len mb = int plen" "m_state mb = RMR_OK" "m_rts_fd mb = fd"
    "get32 b 50 = Some (word_of_int (m_mtype mb))" "get32 b 262 = Some (word_of_int (m_sub_id mb))"
    "- (2 ^ 31) \<le> m_mtype mb \<and> m_mtype mb < 2 ^ 31 \<and> - (2 ^ 31) \<le> m_sub_id mb \<and> m_sub_id mb < 2 ^ 31"
    using ref_tpbuf_fits [of m2 b l1 l2 l3 n plen] L b pl fit by (auto simp: m2_def)
  have "buf2mbuf env ctx (Some b) n fd = deliver_mbuf env ctx1 mb"
    using cmp hl pl al mb(1) by (simp add: buf2mbuf_def m2_def)
  moreover have "same_rivers ctx ctx1" "mring ctx1 = mring ctx" "chutes ctx1 = chutes ctx"
    by (simp_all add: ctx1_def same_rivers_def)
  ultimately show ?thesis using mb by (intro exI [of _ mb] exI [of _ ctx1]) simp
qed

text \<open>
  C19. \<^verbatim>\<open>buf2mbuf\<close> on a buffer whose header lengths fit the announced size builds a well-formed
  message (type, length and state from the header, the descriptor of the sender for replies) and
  routes it: a message with the call flag, without d1 data or with call id 0 goes to the
  receive ring, any other to the chute of its call id, whose semaphore is posted.  A buffer
  whose lengths add up to more is dropped.
\<close>

theorem buf2mbuf_routes:
  assumes L: "lens b l1 l2 l3" and b: "330 \<le> length b" "n = int (length b)" "n < 2 ^ 31"
    and pl: "get32 b 54 = Some (of_nat plen)" "plen < 2 ^ 31" and ok: "e_ok env M_mbuf"
    and fl: "hdr_flags b 50 = Some flags" and ch: "length (chutes ctx) = 256"
  shows "if 330 + l1 + l2 + l3 + plen > length b then buf2mbuf env ctx (Some b) n fd = Some ctx
     else \<exists>mb ctx1. mbuf_ok mb b l1 l2 l3 \<and> m_len mb = int plen \<and> m_state mb = RMR_OK \<and> m_rts_fd mb = fd \<and>
       mring ctx1 = mring ctx \<and> chutes ctx1 = chutes ctx \<and> same_rivers ctx ctx1 \<and>
       (let cid = unat (b ! (330 + l1)) in
        buf2mbuf env ctx (Some b) n fd =
          (if flags AND HFL_CALL_MSG \<noteq> 0 \<or> l2 = 0 \<or> cid = 0 then queue_normal env ctx1 mb
           else Some (ctx1\<lparr>chutes := (chutes ctx1)[cid := (chutes ctx1 ! cid)\<lparr>ch_mbuf := Some mb,
                         ch_barrier := ch_barrier (chutes ctx1 ! cid) + 1\<rparr>]\<rparr>)))"
proof (cases "330 + l1 + l2 + l3 + plen > length b")
  case True
  with buf2mbuf_size_check [OF L b pl(2)] lens_rd(1) [OF L] pl(1) show ?thesis by (simp add: buf2mbuf_def)
next
  case False
  then obtain mb ctx1 where mb: "mbuf_ok mb b l1 l2 l3" "m_len mb = int plen" "m_state mb = RMR_OK" "m_rts_fd mb = fd"
    "mring ctx1 = mring ctx" "chutes ctx1 = chutes ctx" "same_rivers ctx ctx1" "buf2mbuf env ctx (Some b) n fd = deliver_mbuf env ctx1 mb"
    using buf2mbuf_builds [OF L b(2,3) pl(1) ok, of fd ctx] by auto
  moreover note deliver_mbuf_routes [OF mb(1) fl _ refl, of ctx1 env]
  ultimately show ?thesis unfolding if_not_P [OF False] Let_def using ch
    by (intro exI [of _ mb] exI [of _ ctx1] conjI) simp_all
qed

theorem buf2mbuf_routes_witness:
  "\<exists>mb ctx1. mbuf_ok mb demo_buf 4 4 0 \<and> mring ctx1 = mring demo_rcv \<and>
     buf2mbuf demo_env (demo_rcv\<lparr>chutes := replicate 256 \<lparr>ch_mbuf = None, ch_barrier = 0, ch_expect = []\<rparr>\<rparr>)
        (Some demo_buf) 354 7 = queue_normal demo_env ctx1 mb"
proof -
  let ?c = "demo_rcv\<lparr>chutes := replicate 256 \<lparr>ch_mbuf = None, ch_barrier = 0, ch_expect = []\<rparr>\<rparr>"
  have z: "get_be32 (replicate 4 0) = 0" "get_le32 (replicate 4 0) = 0"
    by (simp_all add: get_be32_def get_le32_def numeral_eq_Suc)
  have "get32 demo_buf 54 = Some (of_nat 0)" "hdr_flags demo_buf 50 = Some 0"
    by (simp_all add: demo_buf_def get32_def hdr_flags_def mem_rd_def z)
  moreover have "lens demo_buf 4 4 0" using demo_msg_ok by (simp add: mbuf_ok_def)
  moreover have "demo_buf ! 334 = 0" by (simp add: demo_buf_def nth_append)
  moreover have "e_ok demo_env M_mbuf" by (simp add: demo_env_def)
  ultimately obtain mb ctx1 where "mbuf_ok mb demo_buf 4 4 0" "mring ctx1 = mring ?c"
      "buf2mbuf demo_env ?c (Some demo_buf) 354 7 = queue_normal demo_env ctx1 mb"
    using buf2mbuf_routes [of demo_buf 4 4 0 354 0 demo_env 0 ?c 7] length_demo_buf by (auto simp: Let_def)
  then show ?thesis by auto
qed

text \<open>
  \<^verbatim>\<open>init_mtcall\<close> initialises chutes 0 to 254 and leaves chute 255 as it was in the fresh memory,
  although 255 is an accepted call id: its message reference and its semaphore are not
  initialised.
\<close>

theorem init_mtcall_skips_last_chute:
  assumes "ok M_chutes"
  shows "\<exists>ctx'. init_mtcall ok (\<lambda>_. True) raw (Some ctx) = (1, Some ctx') \<and> length (chutes ctx') = MAX_CALL_ID + 1 \<and>
     (\<forall>i < MAX_CALL_ID. ch_mbuf (chutes ctx' ! i) = None \<and> ch_barrier (chutes ctx' ! i) = 0) \<and>
     chutes ctx' ! MAX_CALL_ID = raw MAX_CALL_ID"
  using assms by (simp add: init_mtcall_def nth_append)

theorem init_mtcall_skips_last_chute_witness:
  "\<exists>ctx'. init_mtcall (\<lambda>_. True) (\<lambda>_. True) (\<lambda>_. \<lparr>ch_mbuf = Some demo_msg, ch_barrier = 9, ch_expect = []\<rparr>) (Some demo_rcv) = (1, Some ctx') \<and>
     ch_barrier (chutes ctx' ! 254) = 0 \<and> ch_barrier (chutes ctx' ! 255) = 9"
  using init_mtcall_skips_last_chute [of "\<lambda>_. True" "\<lambda>_. \<lparr>ch_mbuf = Some demo_msg, ch_barrier = 9, ch_expect = []\<rparr>" demo_rcv] by auto

end
