(* ===== verification/Si95.thy ===== *)
theory Si95
  imports Tools
begin

text \<open>
  The transport library \<^verbatim>\<open>src/src/rmr/si/src/si95\<close>: the list of transport blocks, the map from
  descriptors to blocks, connections, listeners, new sessions, sending and the wait loop.

  Transport blocks are objects in a store; the list is doubly linked through \<^verbatim>\<open>next\<close> and \<^verbatim>\<open>prev\<close>
  as in the code, so that a use of a freed block is a fault (\<open>None\<close>).  The callbacks work on
  a user state that the callback data points to.  The operating system is a parameter: \<open>si_env\<close>
  gives the result of the \<open>n\<close>-th system call, and the state counts the calls.  What the
  library asks of the system without looking at the result is logged in order.  The loops over
  the list and the loops that send are partial functions: not ending is a fault as well, and
  the theorems state that they end.
\<close>

section \<open>State\<close>

abbreviation (input) SI_OK :: int where "SI_OK \<equiv> 0"
abbreviation (input) SI_ERROR :: int where "SI_ERROR \<equiv> -1"
abbreviation (input) SI_ERR_BLOCKED :: int where "SI_ERR_BLOCKED \<equiv> 18"
abbreviation (input) MAX_FDS :: int where "MAX_FDS \<equiv> 2048"
abbreviation (input) FD_SETSIZE :: int where "FD_SETSIZE \<equiv> 1024"
abbreviation (input) MAX_CBS :: nat where "MAX_CBS \<equiv> 8"
abbreviation (input) MAX_RBUF :: nat where "MAX_RBUF \<equiv> 8192"
abbreviation (input) MAGICNUM :: u32 where "MAGICNUM \<equiv> 219"
abbreviation (input) GIF_SHUTDOWN :: u32 where "GIF_SHUTDOWN \<equiv> 1"
abbreviation (input) TPF_LISTENFD :: u32 where "TPF_LISTENFD \<equiv> 1"
abbreviation (input) TPF_SESSION :: u32 where "TPF_SESSION \<equiv> 2"
abbreviation (input) TPF_UNBIND :: u32 where "TPF_UNBIND \<equiv> 4"
abbreviation (input) TPF_DRAIN :: u32 where "TPF_DRAIN \<equiv> 8"
abbreviation (input) TPF_DELETE :: u32 where "TPF_DELETE \<equiv> 16"
abbreviation (input) TPF_SAFEC :: u32 where "TPF_SAFEC \<equiv> 32"
abbreviation (input) TPF_ABORT :: u32 where "TPF_ABORT \<equiv> 64"
abbreviation (input) SI_TF_NODELAY :: u32 where "SI_TF_NODELAY \<equiv> 1"
abbreviation (input) SI_TF_FASTACK :: u32 where "SI_TF_FASTACK \<equiv> 2"
abbreviation (input) SI_TF_QUICK :: u32 where "SI_TF_QUICK \<equiv> 4"
abbreviation (input) SI_CB_RDATA :: nat where "SI_CB_RDATA \<equiv> 1"
abbreviation (input) SI_CB_KDATA :: nat where "SI_CB_KDATA \<equiv> 3"
abbreviation (input) SI_CB_CDATA :: nat where "SI_CB_CDATA \<equiv> 2"
abbreviation (input) SI_CB_SECURITY :: nat where "SI_CB_SECURITY \<equiv> 4"
abbreviation (input) SI_CB_CONN :: nat where "SI_CB_CONN \<equiv> 5"
abbreviation (input) SI_CB_DISC :: nat where "SI_CB_DISC \<equiv> 6"
abbreviation (input) SI_RET_OK :: int where "SI_RET_OK \<equiv> 0"
abbreviation (input) SI_RET_ERROR :: int where "SI_RET_ERROR \<equiv> -1"
abbreviation (input) SI_RET_UNREG :: int where "SI_RET_UNREG \<equiv> 1"
abbreviation (input) SI_RET_QUIT :: int where "SI_RET_QUIT \<equiv> 2"
abbreviation (input) SOCK_STREAM :: int where "SOCK_STREAM \<equiv> 1"
abbreviation (input) SOCK_DGRAM :: int where "SOCK_DGRAM \<equiv> 2"
abbreviation (input) TCP_DEVICE :: int where "TCP_DEVICE \<equiv> 0"
abbreviation (input) UDP_DEVICE :: int where "UDP_DEVICE \<equiv> 1"
abbreviation (input) AF_INET6 :: int where "AF_INET6 \<equiv> 10"

type_synonym tpaddr = nat
type_synonym fd_set = "int list"

text \<open>A socket address: the family and the bytes that follow it.\<close>

record sockaddr =
  sa_family :: int
  sa_data :: bytes

record tp_blk =
  tp_next :: "tpaddr option"
  tp_prev :: "tpaddr option"
  tp_fd :: int
  tp_flags :: u32
  tp_type :: int
  tp_family :: int
  tp_addr :: "sockaddr option"
  tp_paddr :: "sockaddr option"
  tp_palen :: int
  tp_squeue :: "bytes list"
  tp_sent :: int
  tp_rcvd :: int

datatype sockopt = TcpNodelay | TcpQuickack | TcpKeepidle | TcpKeepintvl | TcpKeepcnt | TcpSyncnt
  | SoKeepalive | SoLinger | SoReuseport

datatype os_event = OsClose int | OsSend int bytes | OsOpt int sockopt int

text \<open>The calls of a callback.\<close>

datatype cb_call = CbData int bytes | CbDisc int | CbSecurity string | CbConn int string | CbKbd string | CbRaw bytes string

type_synonym 'u callback = "cb_call \<Rightarrow> 'u \<Rightarrow> int \<times> 'u"

record 'u ginfo_blk =
  magicnum :: u32
  tplist :: "tpaddr option"
  readfds :: fd_set
  writefds :: fd_set
  execpfds :: fd_set
  cbtab :: "'u callback option list"
  fdcount :: int
  gi_flags :: u32
  tcp_flags :: u32
  tp_map :: "int \<Rightarrow> tpaddr option"
  h_tp :: "tpaddr \<Rightarrow> tp_blk option"
  tp_fresh :: tpaddr
  os_n :: nat
  os_log :: "os_event list"
  si_user :: 'u

text \<open>The results of the system calls, each by the number of the call.\<close>

record si_env =
  si_ok :: mallocs
  o_select :: "nat \<Rightarrow> (int \<times> errno) \<times> fd_set \<times> fd_set \<times> fd_set"
  o_send :: "nat \<Rightarrow> int \<times> errno"
  o_recv :: "nat \<Rightarrow> int \<times> bytes"
  o_from :: "nat \<Rightarrow> int \<times> bytes \<times> sockaddr"
  o_kbd :: "nat \<Rightarrow> string"
  o_accept :: "nat \<Rightarrow> int \<times> sockaddr"
  o_socket :: "nat \<Rightarrow> int"
  o_bind :: "nat \<Rightarrow> int"
  o_listen :: "nat \<Rightarrow> int"
  o_connect :: "nat \<Rightarrow> int \<times> errno"
  o_sockname :: "nat \<Rightarrow> int \<times> int \<times> sockaddr"
  o_syncnt :: int
  o_gai :: "string \<Rightarrow> string option \<Rightarrow> int \<Rightarrow> int \<Rightarrow> bool \<Rightarrow> (int \<times> sockaddr) option"

definition tick :: "'u ginfo_blk \<Rightarrow> 'u ginfo_blk" where
  "tick g = g\<lparr>os_n := Suc (os_n g)\<rparr>"

definition os_do :: "'u ginfo_blk \<Rightarrow> os_event \<Rightarrow> 'u ginfo_blk" where
  "os_do g e = g\<lparr>os_log := os_log g @ [e]\<rparr>"

definition os_opts :: "'u ginfo_blk \<Rightarrow> int \<Rightarrow> (sockopt \<times> int) list \<Rightarrow> 'u ginfo_blk" where
  "os_opts g fd l = g\<lparr>os_log := os_log g @ map (\<lambda>(s, v). OsOpt fd s v) l\<rparr>"

definition put_tp :: "'u ginfo_blk \<Rightarrow> tpaddr \<Rightarrow> tp_blk \<Rightarrow> 'u ginfo_blk" where
  "put_tp g a t = g\<lparr>h_tp := (h_tp g)(a \<mapsto> t)\<rparr>"

definition free_tp :: "'u ginfo_blk \<Rightarrow> tpaddr \<Rightarrow> 'u ginfo_blk" where
  "free_tp g a = g\<lparr>h_tp := (h_tp g)(a := None)\<rparr>"

section \<open>Blocks and callbacks\<close>

text \<open>\<^verbatim>\<open>SInew\<close> for the two kinds of block the library uses.\<close>

definition SInew_tp :: "mallocs \<Rightarrow> 'u ginfo_blk \<Rightarrow> tpaddr option \<times> 'u ginfo_blk" where
  "SInew_tp ok g =
     (if ok M_tpblk
      then (Some (tp_fresh g),
            put_tp (g\<lparr>tp_fresh := Suc (tp_fresh g)\<rparr>) (tp_fresh g)
              \<lparr>tp_next = None, tp_prev = None, tp_fd = -1, tp_flags = TPF_UNBIND, tp_type = -1, tp_family = 0,
               tp_addr = None, tp_paddr = None, tp_palen = 0, tp_squeue = [], tp_sent = 0, tp_rcvd = 0\<rparr>)
      else (None, g))"

definition SInew_gi :: "mallocs \<Rightarrow> 'u \<Rightarrow> 'u ginfo_blk option" where
  "SInew_gi ok u =
     (if ok M_ginfo
      then Some \<lparr>magicnum = MAGICNUM, tplist = None, readfds = [], writefds = [], execpfds = [], cbtab = [],
                 fdcount = 0, gi_flags = 0, tcp_flags = 0, tp_map = (\<lambda>_. None), h_tp = (\<lambda>_. None), tp_fresh = 0,
                 os_n = 0, os_log = [], si_user = u\<rparr>
      else None)"

text \<open>\<^verbatim>\<open>SIinitialise\<close>; when the callback table cannot be had, \<^verbatim>\<open>SIshutdown\<close> finds an empty list.\<close>

definition SIinitialise :: "mallocs \<Rightarrow> 'u \<Rightarrow> 'u ginfo_blk option" where
  "SIinitialise ok u =
     (case SInew_gi ok u of None \<Rightarrow> None
      | Some g \<Rightarrow> if \<not> ok M_tpmap then None
                 else if \<not> ok M_cbtab then None
                 else Some (g\<lparr>cbtab := replicate MAX_CBS None\<rparr>))"

definition SIset_tflags :: "'u ginfo_blk option \<Rightarrow> u32 \<Rightarrow> 'u ginfo_blk option" where
  "SIset_tflags gp msk = map_option (\<lambda>g. g\<lparr>tcp_flags := tcp_flags g OR msk\<rparr>) gp"

definition SIclr_tflags :: "'u ginfo_blk option \<Rightarrow> u32 \<Rightarrow> 'u ginfo_blk option" where
  "SIclr_tflags gp msk = map_option (\<lambda>g. g\<lparr>tcp_flags := tcp_flags g AND NOT msk\<rparr>) gp"

definition SIcbreg :: "'u ginfo_blk option \<Rightarrow> int \<Rightarrow> 'u callback option \<Rightarrow> 'u ginfo_blk option" where
  "SIcbreg gp ty f =
     map_option (\<lambda>g. if magicnum g = MAGICNUM \<and> ty \<ge> 0 \<and> ty < int MAX_CBS
                     then g\<lparr>cbtab := (cbtab g)[nat ty := f]\<rparr> else g) gp"

definition SIcbstat :: "'u ginfo_blk \<Rightarrow> int \<Rightarrow> nat \<Rightarrow> 'u ginfo_blk" where
  "SIcbstat g status ty =
     (if status = SI_RET_UNREG then g\<lparr>cbtab := (cbtab g)[ty := None]\<rparr>
      else if status = SI_RET_QUIT then g\<lparr>gi_flags := gi_flags g OR GIF_SHUTDOWN\<rparr>
      else g)"

text \<open>A call of a registered callback: its status and the state with the new user state.\<close>

definition call_cb :: "'u ginfo_blk \<Rightarrow> nat \<Rightarrow> cb_call \<Rightarrow> (int option \<times> 'u ginfo_blk) option" where
  "call_cb g ty x =
     (if ty \<ge> length (cbtab g) then None
      else case cbtab g ! ty of None \<Rightarrow> Some (None, g)
           | Some f \<Rightarrow> (let (st, u) = f x (si_user g) in Some (Some st, g\<lparr>si_user := u\<rparr>)))"

definition drive_cb :: "'u ginfo_blk \<Rightarrow> nat \<Rightarrow> cb_call \<Rightarrow> 'u ginfo_blk option" where
  "drive_cb g ty x = do {
     r \<leftarrow> call_cb g ty x;
     Some (case fst r of None \<Rightarrow> snd r | Some st \<Rightarrow> SIcbstat (snd r) st ty) }"

section \<open>Termination of a session\<close>

definition siabort_conn :: "'u ginfo_blk \<Rightarrow> int \<Rightarrow> 'u ginfo_blk" where
  "siabort_conn g fd = os_do (os_opts g fd [(SoLinger, 0)]) (OsClose fd)"

definition SIterm :: "'u ginfo_blk \<Rightarrow> tpaddr option \<Rightarrow> 'u ginfo_blk option" where
  "SIterm g tp =
     (case tp of None \<Rightarrow> Some g
      | Some a \<Rightarrow> do {
          t \<leftarrow> h_tp g a;
          (let g1 = (if tp_fd t \<ge> 0
                     then (let g0 = (if tp_flags t AND TPF_ABORT \<noteq> 0 then siabort_conn g (tp_fd t) else os_do g (OsClose (tp_fd t)))
                           in if tp_fd t < MAX_FDS then g0\<lparr>tp_map := (tp_map g0)(tp_fd t := None)\<rparr> else g0)
                     else g)
           in Some (put_tp g1 a (t\<lparr>tp_fd := -1, tp_flags := tp_flags t OR TPF_DELETE\<rparr>))) })"

definition set_prev :: "'u ginfo_blk \<Rightarrow> tpaddr option \<Rightarrow> tpaddr option \<Rightarrow> 'u ginfo_blk option" where
  "set_prev g tp v =
     (case tp of None \<Rightarrow> Some g
      | Some a \<Rightarrow> do { t \<leftarrow> h_tp g a; Some (put_tp g a (t\<lparr>tp_prev := v\<rparr>)) })"

text \<open>The block leaves the list only when it has a neighbour.\<close>

definition SIrm_tpb :: "'u ginfo_blk \<Rightarrow> tpaddr option \<Rightarrow> 'u ginfo_blk option" where
  "SIrm_tpb g tp =
     (case tp of None \<Rightarrow> Some g
      | Some a \<Rightarrow> do {
          t \<leftarrow> h_tp g a;
          g2 \<leftarrow> (if tp_prev t \<noteq> None \<or> tp_next t \<noteq> None
                then do {
                  g1 \<leftarrow> (case tp_prev t of
                          Some p \<Rightarrow> do { pt \<leftarrow> h_tp g p; Some (put_tp g p (pt\<lparr>tp_next := tp_next t\<rparr>)) }
                        | None \<Rightarrow> Some (g\<lparr>tplist := tp_next t\<rparr>));
                  set_prev g1 (tp_next t) (tp_prev t) }
                else Some g);
          Some (free_tp g2 a) })"

text \<open>\<^verbatim>\<open>SItrash\<close> for a transport block.\<close>

definition SItrash :: "'u ginfo_blk \<Rightarrow> tpaddr option \<Rightarrow> 'u ginfo_blk option" where
  "SItrash g tp =
     (case tp of None \<Rightarrow> Some g
      | Some a \<Rightarrow> do { t \<leftarrow> h_tp g a;
          Some (free_tp (if tp_fd t \<ge> 0 then os_do g (OsClose (tp_fd t)) else g) a) })"

text \<open>The three lines with which a block becomes the head of the list.\<close>

definition tp_link :: "'u ginfo_blk \<Rightarrow> tpaddr \<Rightarrow> 'u ginfo_blk option" where
  "tp_link g a = do {
     t \<leftarrow> h_tp g a;
     g1 \<leftarrow> set_prev (put_tp g a (t\<lparr>tp_next := tplist g\<rparr>)) (tplist g) (Some a);
     Some (g1\<lparr>tplist := Some a\<rparr>) }"

partial_function (option) find_tp :: "(tp_blk \<Rightarrow> bool) \<Rightarrow> 'u ginfo_blk \<Rightarrow> tpaddr option \<Rightarrow> tpaddr option option" where
  "find_tp P g tp =
     (case tp of None \<Rightarrow> Some None
      | Some a \<Rightarrow> do { t \<leftarrow> h_tp g a; (if P t then Some (Some a) else find_tp P g (tp_next t)) })"

text \<open>The block of a descriptor: from the map when it is in its range, else from the list.\<close>

definition tp_of_fd :: "'u ginfo_blk \<Rightarrow> int \<Rightarrow> tpaddr option option" where
  "tp_of_fd g fd = (if fd < MAX_FDS then Some (tp_map g fd) else find_tp (\<lambda>t. tp_fd t = fd) g (tplist g))"

partial_function (option) shutdown_loop :: "u32 \<Rightarrow> 'u ginfo_blk \<Rightarrow> tpaddr option \<Rightarrow> 'u ginfo_blk option" where
  "shutdown_loop fl g tp =
     (case tp of None \<Rightarrow> Some g
      | Some a \<Rightarrow> do {
          t \<leftarrow> h_tp g a;
          g1 \<leftarrow> SIterm (put_tp g a (t\<lparr>tp_flags := tp_flags t OR (TPF_UNBIND OR fl)\<rparr>)) (Some a);
          t1 \<leftarrow> h_tp g1 a;
          shutdown_loop fl g1 (tp_next t1) })"

definition sishutdown :: "'u ginfo_blk option \<Rightarrow> u32 \<Rightarrow> 'u ginfo_blk option option" where
  "sishutdown gp fl =
     (case gp of None \<Rightarrow> Some None
      | Some g \<Rightarrow> if magicnum g = MAGICNUM
                 then map_option Some (shutdown_loop fl (g\<lparr>gi_flags := gi_flags g OR GIF_SHUTDOWN\<rparr>) (tplist g))
                 else Some (Some g))"

definition SIshutdown :: "'u ginfo_blk option \<Rightarrow> 'u ginfo_blk option option" where
  "SIshutdown gp = sishutdown gp 0"

definition SIabort :: "'u ginfo_blk option \<Rightarrow> 'u ginfo_blk option option" where
  "SIabort gp = sishutdown gp TPF_ABORT"

text \<open>\<^verbatim>\<open>SIclose\<close>.  The test for a listener is a logical, not a bitwise, conjunction.\<close>

definition SIclose :: "'u ginfo_blk option \<Rightarrow> int \<Rightarrow> (int \<times> 'u ginfo_blk option) option" where
  "SIclose gp fd =
     (case gp of None \<Rightarrow> Some (SI_ERROR, None)
      | Some g \<Rightarrow> do {
          tp \<leftarrow> (if fd \<ge> 0 then tp_of_fd g fd
                else if fd = -1 then find_tp (\<lambda>t. tp_flags t \<noteq> 0) g (tplist g)
                else find_tp (\<lambda>t. tp_type t = SOCK_DGRAM) g (tplist g));
          (case tp of None \<Rightarrow> Some (SI_ERROR, Some g)
           | Some a \<Rightarrow> do {
               t \<leftarrow> h_tp g a;
               (if tp_squeue t = []
                then do {
                  g1 \<leftarrow> SIterm (os_opts (put_tp g a (t\<lparr>tp_flags := tp_flags t OR TPF_UNBIND OR TPF_DELETE\<rparr>)) (tp_fd t) [(SoLinger, 1)]) (Some a);
                  Some (SI_OK, Some g1) }
                else Some (SI_OK, Some (put_tp g a (t\<lparr>tp_flags := tp_flags t OR TPF_DRAIN\<rparr>)))) }) })"

section \<open>Addresses\<close>

text \<open>The host, the port and the passive flag that \<^verbatim>\<open>SIgenaddr\<close> takes from its target.\<close>

definition split_target :: "string \<Rightarrow> (string \<times> string option \<times> bool) option" where
  "split_target target =
     (let d = dropWhile isspace target in
      case d of
        [] \<Rightarrow> Some ([], None, False)
      | c # cs \<Rightarrow>
          if c = CHR '':'' then Some ([], Some cs, True)
          else if c = CHR ''[''
          then (case dropWhile (\<lambda>x. x \<noteq> CHR '']'') cs of
                  [] \<Rightarrow> None
                | _ # p \<Rightarrow> Some (takeWhile (\<lambda>x. x \<noteq> CHR '']'') cs,
                                case p of q # ps \<Rightarrow> if q = CHR '':'' then Some ps else None | [] \<Rightarrow> None, False))
          else Some (takeWhile (\<lambda>x. x \<noteq> CHR '':'') d,
                     case dropWhile (\<lambda>x. x \<noteq> CHR '':'') d of [] \<Rightarrow> None | _ # p \<Rightarrow> Some p, False))"

text \<open>The length of the address and the address; \<^verbatim>\<open>getaddrinfo\<close> is a parameter that gives the
  length and the contents of its first result.\<close>

definition SIgenaddr :: "si_env \<Rightarrow> string \<Rightarrow> int \<Rightarrow> int \<Rightarrow> int \<times> sockaddr option" where
  "SIgenaddr env target family socktype =
     (case split_target target of
        None \<Rightarrow> (-1, None)
      | Some (host, port, passive) \<Rightarrow>
          (case o_gai env host port family socktype passive of
             None \<Rightarrow> (0, None)
           | Some (l, a) \<Rightarrow> (l, Some a)))"

text \<open>\<^verbatim>\<open>SIaddress\<close> with \<^verbatim>\<open>AC_TODOT\<close>.  Six of the sixteen bytes of an IPv6 address are printed.\<close>

definition be16 :: "bytes \<Rightarrow> nat" where
  "be16 bs = unat (bs ! 0) * 256 + unat (bs ! 1)"

definition dots :: "char \<Rightarrow> bytes \<Rightarrow> string" where
  "dots sep bs = join sep (map (\<lambda>b. dec (unat b)) bs)"

definition SIaddress_todot :: "sockaddr \<Rightarrow> string option" where
  "SIaddress_todot a =
     (if sa_family a = AF_INET6
      then (if length (sa_data a) < 12 then None
            else Some (''['' @ dots (CHR '':'') (take 6 (drop 6 (sa_data a))) @ '']:'' @ dec (be16 (sa_data a))))
      else if length (sa_data a) < 6 then None
      else Some (dots (CHR ''.'') (take 4 (drop 2 (sa_data a))) @ '':'' @ dec (be16 (sa_data a))))"

section \<open>Listening and connecting\<close>

definition proto_type :: "int \<Rightarrow> int" where
  "proto_type ty = (if ty = UDP_DEVICE then SOCK_DGRAM else SOCK_STREAM)"

text \<open>When \<^verbatim>\<open>bind\<close> fails the descriptor is closed here and once more by \<^verbatim>\<open>SItrash\<close>.\<close>

definition SIlisten_prep :: "si_env \<Rightarrow> 'u ginfo_blk \<Rightarrow> int \<Rightarrow> string \<Rightarrow> int \<Rightarrow> (tpaddr option \<times> 'u ginfo_blk) option" where
  "SIlisten_prep env g ty abuf family =
     (case SInew_tp (si_ok env) g of
        (None, g0) \<Rightarrow> Some (None, g0)
      | (Some a, g0) \<Rightarrow>
          (let (alen, sa) = SIgenaddr env abuf family (proto_type ty) in
           if alen \<le> 0 then Some (None, free_tp g0 a)
           else do {
             addr \<leftarrow> sa;
             t \<leftarrow> h_tp g0 a;
             (let fd = o_socket env (os_n g0);
                  t1 = t\<lparr>tp_type := proto_type ty, tp_family := sa_family addr, tp_fd := fd\<rparr>;
                  g1 = put_tp (tick g0) a t1
              in if fd \<ge> SI_OK
                 then (let g2 = os_opts g1 fd [(SoReuseport, 1)]; st = o_bind env (os_n g2); g3 = tick g2
                       in if st = SI_OK then Some (Some a, put_tp g3 a (t1\<lparr>tp_addr := Some addr\<rparr>))
                          else do { g4 \<leftarrow> SItrash (os_do g3 (OsClose fd)) (Some a); Some (None, g4) })
                 else do { g4 \<leftarrow> SItrash g1 (Some a); Some (None, g4) }) }))"

definition SIlistener :: "si_env \<Rightarrow> 'u ginfo_blk \<Rightarrow> int \<Rightarrow> string \<Rightarrow> (int \<times> 'u ginfo_blk) option" where
  "SIlistener env g ty abuf = do {
     r \<leftarrow> SIlisten_prep env g ty abuf 0;
     (case fst r of None \<Rightarrow> Some (SI_ERROR, snd r)
      | Some a \<Rightarrow> do {
          t \<leftarrow> h_tp (snd r) a;
          (let lst = o_listen env (os_n (snd r)); g1 = tick (snd r)
           in if ty = TCP_DEVICE \<and> lst < SI_OK then Some (SI_ERROR, g1)
              else do {
                g2 \<leftarrow> tp_link (if ty = TCP_DEVICE then put_tp g1 a (t\<lparr>tp_flags := tp_flags t OR TPF_LISTENFD\<rparr>) else snd r) a;
                Some (tp_fd t, g2) }) }) }"

definition need_smartc :: "string \<Rightarrow> bool" where
  "need_smartc abuf =
     (case dropWhile (\<lambda>c. c \<noteq> CHR '':'') abuf of [] \<Rightarrow> True
      | _ # p \<Rightarrow> \<not> (atoi p < 32767 \<or> atoi p mod 2 \<noteq> 0))"

definition b2i :: "bool \<Rightarrow> int" where
  "b2i b = (if b then 1 else 0)"

text \<open>The socket options of a connection.\<close>

definition tcp_opts :: "u32 \<Rightarrow> (sockopt \<times> int) list" where
  "tcp_opts fl =
     [(TcpNodelay, b2i (fl AND SI_TF_NODELAY \<noteq> 0)), (TcpQuickack, b2i (fl AND SI_TF_FASTACK \<noteq> 0))]
     @ (if fl AND SI_TF_QUICK \<noteq> 0 then [(SoKeepalive, 1), (TcpKeepidle, 1), (TcpKeepintvl, 1), (TcpKeepcnt, 5)] else [])"

definition SIconn_prep :: "si_env \<Rightarrow> 'u ginfo_blk \<Rightarrow> int \<Rightarrow> string \<Rightarrow> int \<Rightarrow> (tpaddr option \<times> 'u ginfo_blk) option" where
  "SIconn_prep env g ty abuf family =
     (case SInew_tp (si_ok env) g of
        (None, g0) \<Rightarrow> Some (None, g0)
      | (Some a, g0) \<Rightarrow>
          (let (alen, sa) = SIgenaddr env abuf family (proto_type ty) in
           if alen \<le> 0 then Some (None, free_tp g0 a)
           else do {
             addr \<leftarrow> sa;
             t \<leftarrow> h_tp g0 a;
             (let fd = o_socket env (os_n g0);
                  t1 = t\<lparr>tp_type := proto_type ty, tp_family := sa_family addr, tp_palen := alen, tp_fd := fd\<rparr>;
                  g1 = put_tp (tick g0) a t1
              in if fd \<ge> SI_OK
                 then Some (Some a, put_tp (os_opts g1 fd (tcp_opts (tcp_flags g1))) a
                        (t1\<lparr>tp_paddr := Some addr, tp_flags := (if need_smartc abuf then tp_flags t1 OR TPF_SAFEC else tp_flags t1)\<rparr>))
                 else do { g4 \<leftarrow> SItrash g1 (Some a); Some (None, g4) }) }))"

text \<open>\<^verbatim>\<open>safe_connect\<close>: only a connection to ourselves is closed; when \<^verbatim>\<open>connect\<close> itself fails the
  descriptor stays open.\<close>

definition safe_connect :: "si_env \<Rightarrow> 'u ginfo_blk \<Rightarrow> int \<Rightarrow> sockaddr option \<Rightarrow> int \<Rightarrow> (int \<times> errno) \<times> 'u ginfo_blk" where
  "safe_connect env g fd addr alen =
     (let (st, e) = o_connect env (os_n g); g1 = tick g in
      if st \<noteq> 0 then ((st, if e = EBADFD then ECONNABORTED else e), g1)
      else (let (rc, calen, caddr) = o_sockname env (os_n g1); g2 = tick g1 in
            if rc = 0 \<and> (calen \<noteq> alen \<or> addr \<noteq> Some caddr) then ((0, E0), g2)
            else ((-1, EBADFD), siabort_conn g2 fd)))"

definition SImap_fd :: "'u ginfo_blk \<Rightarrow> int \<Rightarrow> tpaddr option \<Rightarrow> 'u ginfo_blk" where
  "SImap_fd g fd tp = (if fd < MAX_FDS then g\<lparr>tp_map := (tp_map g)(fd := tp)\<rparr> else g)"

text \<open>The connection attempt of \<^verbatim>\<open>SIconnect\<close>, by the flag of the block.\<close>

definition connect_tp :: "si_env \<Rightarrow> 'u ginfo_blk \<Rightarrow> tp_blk \<Rightarrow> bool \<times> 'u ginfo_blk" where
  "connect_tp env g t =
     (if tp_flags t AND TPF_SAFEC \<noteq> 0
      then (let (st, g1) = safe_connect env g (tp_fd t) (tp_paddr t) (tp_palen t) in (fst st = 0, g1))
      else (let st = fst (o_connect env (os_n g)); g1 = tick g
            in (st = 0, if st \<noteq> 0 then os_do g1 (OsClose (tp_fd t)) else g1)))"

definition SIconnect :: "si_env \<Rightarrow> 'u ginfo_blk \<Rightarrow> string \<Rightarrow> (int \<times> 'u ginfo_blk) option" where
  "SIconnect env g abuf = do {
     r \<leftarrow> SIconn_prep env g TCP_DEVICE abuf 0;
     (case fst r of None \<Rightarrow> Some (SI_ERROR, snd r)
      | Some a \<Rightarrow> do {
          t \<leftarrow> h_tp (snd r) a;
          (let quick = (tcp_flags (snd r) AND SI_TF_QUICK \<noteq> 0);
               (ok, g2) = connect_tp env (if quick then os_opts (snd r) (tp_fd t) [(TcpSyncnt, 2)] else snd r) t
           in if \<not> ok
              then do { g3 \<leftarrow> SItrash (put_tp g2 a (t\<lparr>tp_fd := -1\<rparr>)) (Some a); Some (SI_ERROR, g3) }
              else do {
                g3 \<leftarrow> tp_link (put_tp (if quick then os_opts g2 (tp_fd t) [(TcpSyncnt, o_syncnt env)] else g2) a
                                 (t\<lparr>tp_flags := tp_flags t OR TPF_SESSION\<rparr>)) a;
                Some (tp_fd t, SImap_fd g3 (tp_fd t) (Some a)) }) }) }"

text \<open>The end of \<^verbatim>\<open>SInewsession\<close>: the security and the connection callback, and the map.\<close>

definition session_cbs :: "'u ginfo_blk \<Rightarrow> tpaddr \<Rightarrow> int \<Rightarrow> string \<Rightarrow> (int \<times> 'u ginfo_blk) option" where
  "session_cbs g a fd buf = do {
     s \<leftarrow> call_cb g SI_CB_SECURITY (CbSecurity buf);
     (if fst s = Some SI_RET_ERROR
      then do { g1 \<leftarrow> SIterm (snd s) (Some a); Some (SI_ERROR, g1) }
      else (let g1 = (case fst s of None \<Rightarrow> snd s | Some st \<Rightarrow> SIcbstat (snd s) st SI_CB_SECURITY) in do {
        t \<leftarrow> h_tp g1 a;
        g2 \<leftarrow> drive_cb (put_tp g1 a (t\<lparr>tp_flags := tp_flags t OR TPF_SESSION\<rparr>)) SI_CB_CONN (CbConn fd buf);
        Some (SI_OK, SImap_fd g2 fd (Some a)) })) }"

text \<open>\<^verbatim>\<open>SInewsession\<close> sets the options of the listening descriptor, not of the new one.  The
  address of the caller fits a \<^verbatim>\<open>struct sockaddr\<close>.\<close>

definition SInewsession :: "si_env \<Rightarrow> 'u ginfo_blk \<Rightarrow> tpaddr \<Rightarrow> (int \<times> 'u ginfo_blk) option" where
  "SInewsession env g ltp = do {
     lt \<leftarrow> h_tp g ltp;
     (let (fd, addr) = o_accept env (os_n g); g0 = tick g in
      if fd < 0 then Some (SI_ERROR, g0)
      else (case SInew_tp (si_ok env) g0 of
              (None, g1) \<Rightarrow> Some (SI_ERROR, os_do g1 (OsClose fd))
            | (Some a, g1) \<Rightarrow> do {
                g2 \<leftarrow> tp_link g1 a;
                t \<leftarrow> h_tp g2 a;
                buf \<leftarrow> SIaddress_todot addr;
                session_cbs (os_opts (put_tp g2 a (t\<lparr>tp_paddr := Some addr, tp_fd := fd\<rparr>)) (tp_fd lt) (tcp_opts (tcp_flags g2))) a fd buf })) }"

section \<open>Sending\<close>

text \<open>\<^verbatim>\<open>SIsend\<close> sends the first queued buffer, whatever the outcome of the call.\<close>

definition SIsend :: "si_env \<Rightarrow> 'u ginfo_blk \<Rightarrow> tpaddr \<Rightarrow> 'u ginfo_blk option" where
  "SIsend env g a = do {
     t \<leftarrow> h_tp g a;
     (case tp_squeue t of [] \<Rightarrow> Some g
      | d # ds \<Rightarrow>
          (let n = fst (o_send env (os_n g));
               g1 = put_tp (os_do (tick g) (OsSend (tp_fd t) (take (nat n) d))) a (t\<lparr>tp_squeue := ds\<rparr>)
           in if tp_flags t AND TPF_DRAIN \<noteq> 0 \<and> ds = [] then SIterm g1 (Some a) else Some g1)) }"

text \<open>The loop of \<^verbatim>\<open>SIsendt\<close>.  The condition on the error number after a failed call is always
  true, so that every failure ends the loop.\<close>

partial_function (option) sendt_loop :: "si_env \<Rightarrow> 'u ginfo_blk \<Rightarrow> int \<Rightarrow> bytes \<Rightarrow> nat \<Rightarrow> int \<Rightarrow> int \<Rightarrow> errno
    \<Rightarrow> ((int \<times> errno) \<times> 'u ginfo_blk) option" where
  "sendt_loop env g fd ubuf sidx ulen status e =
     (if ulen > 0
      then do {
        chunk \<leftarrow> mem_rd ubuf sidx (nat ulen);
        (let (n, e1) = o_send env (os_n g); g1 = tick g
         in if n \<ge> 0
            then sendt_loop env (os_do g1 (OsSend fd (take (nat n) chunk))) fd ubuf (sidx + nat n) (ulen - n) SI_OK e
            else Some ((SI_ERROR, e1), g1)) }
      else Some ((status, e), g))"

definition SIsendt :: "si_env \<Rightarrow> 'u ginfo_blk \<Rightarrow> int \<Rightarrow> bytes \<Rightarrow> int \<Rightarrow> ((int \<times> errno) \<times> 'u ginfo_blk) option" where
  "SIsendt env g fd ubuf ulen =
     (if fd < 0 then Some ((SI_ERROR, EBADFD), g)
      else do {
        tp \<leftarrow> tp_of_fd g fd;
        (case tp of None \<Rightarrow> Some ((SI_ERROR, EBADFD), g)
         | Some a \<Rightarrow> do {
             t \<leftarrow> h_tp g a;
             (if tp_fd t < 0 \<or> tp_fd t \<ge> FD_SETSIZE then Some ((SI_ERROR, EBADFD), g)
              else (let ((rc, _), _, _, ex) = o_select env (os_n g);
                        g1 = tick (put_tp g a (t\<lparr>tp_sent := tp_sent t + 1\<rparr>))
                    in if rc > 0
                       then (if tp_fd t \<in> set ex
                             then do { g2 \<leftarrow> SIterm g1 (Some a); Some ((SI_ERROR, EBADFD), g2) }
                             else sendt_loop env g1 (tp_fd t) ubuf 0 ulen SI_ERROR E0)
                       else Some ((SI_ERR_BLOCKED, EBUSY), g1))) }) })"

section \<open>The wait loop\<close>

definition FD_SET :: "int \<Rightarrow> fd_set \<Rightarrow> fd_set option" where
  "FD_SET fd s = (if 0 \<le> fd \<and> fd < FD_SETSIZE then Some (List.insert fd s) else None)"

text \<open>What \<^verbatim>\<open>SIbldpoll\<close> does with one block.\<close>

definition bldpoll_blk :: "'u ginfo_blk \<Rightarrow> tpaddr \<Rightarrow> tp_blk \<Rightarrow> 'u ginfo_blk option" where
  "bldpoll_blk g a t =
     (if tp_flags t AND TPF_DELETE \<noteq> 0
      then do { g1 \<leftarrow> (if tp_fd t \<ge> 0 then SIterm g (Some a) else Some g); SIrm_tpb g1 (Some a) }
      else if tp_fd t \<ge> 0
      then do {
        x \<leftarrow> FD_SET (tp_fd t) (execpfds g);
        r \<leftarrow> (if tp_flags t AND TPF_DRAIN = 0 then FD_SET (tp_fd t) (readfds g) else Some (readfds g));
        w \<leftarrow> (if tp_squeue t \<noteq> [] then FD_SET (tp_fd t) (writefds g) else Some (writefds g));
        Some (g\<lparr>fdcount := (if tp_fd t \<ge> fdcount g then tp_fd t + 1 else fdcount g),
               execpfds := x, readfds := r, writefds := w\<rparr>) }
      else Some g)"

partial_function (option) bldpoll_loop :: "'u ginfo_blk \<Rightarrow> tpaddr option \<Rightarrow> 'u ginfo_blk option" where
  "bldpoll_loop g tp =
     (case tp of None \<Rightarrow> Some g
      | Some a \<Rightarrow> do { t \<leftarrow> h_tp g a; g2 \<leftarrow> bldpoll_blk g a t; bldpoll_loop g2 (tp_next t) })"

definition SIbldpoll :: "'u ginfo_blk \<Rightarrow> 'u ginfo_blk option" where
  "SIbldpoll g = bldpoll_loop (g\<lparr>fdcount := -1, readfds := [], writefds := [], execpfds := []\<rparr>) (tplist g)"

text \<open>What \<^verbatim>\<open>SIwait\<close> does for one block: the status is the value of the variable after it.  A block
  that \<^verbatim>\<open>SIsend\<close> has closed has no descriptor to test any more.\<close>

definition wait_block :: "si_env \<Rightarrow> 'u ginfo_blk \<Rightarrow> tpaddr \<Rightarrow> int \<Rightarrow> (int \<times> 'u ginfo_blk) option" where
  "wait_block env g a status = do {
     t \<leftarrow> h_tp g a;
     (if tp_fd t < 0 then Some (status, g)
      else do {
        g1 \<leftarrow> (if tp_squeue t \<noteq> [] \<and> tp_fd t \<in> set (writefds g) then SIsend env g a else Some g);
        t1 \<leftarrow> h_tp g1 a;
        (if tp_fd t1 < 0 then None
         else if tp_fd t1 \<in> set (execpfds g1) \<or> tp_fd t1 \<notin> set (readfds g1) then Some (status, g1)
         else (let fd = tp_fd t1; g2 = put_tp g1 a (t1\<lparr>tp_rcvd := tp_rcvd t1 + 1\<rparr>) in
           if tp_flags t1 AND TPF_LISTENFD \<noteq> 0 then SInewsession env g2 a
           else (let (n, d) = o_recv env (os_n g2); g3 = tick g2 in
             if n > 0 \<and> tp_flags t1 AND TPF_DRAIN = 0
             then do {
               r \<leftarrow> call_cb g3 SI_CB_CDATA (CbData fd (take (nat n) d));
               Some (case fst r of None \<Rightarrow> (n, snd r) | Some st \<Rightarrow> (st, SIcbstat (snd r) st SI_CB_CDATA)) }
             else do {
               r \<leftarrow> call_cb g3 SI_CB_DISC (CbDisc fd);
               (let (st, g4) = (case fst r of None \<Rightarrow> (n, snd r) | Some st \<Rightarrow> (st, SIcbstat (snd r) st SI_CB_DISC))
                in do { g5 \<leftarrow> SIterm g4 (Some a); Some (st, g5) }) }))) }) }"

partial_function (option) wait_blocks :: "si_env \<Rightarrow> 'u ginfo_blk \<Rightarrow> tpaddr option \<Rightarrow> int \<Rightarrow> (int \<times> 'u ginfo_blk) option" where
  "wait_blocks env g tp status =
     (case tp of None \<Rightarrow> Some (status, g)
      | Some a \<Rightarrow> do {
          t \<leftarrow> h_tp g a;
          r \<leftarrow> wait_block env g a status;
          wait_blocks env (snd r) (tp_next t) (fst r) })"

definition wait_pass :: "si_env \<Rightarrow> 'u ginfo_blk \<Rightarrow> int \<Rightarrow> (int \<times> 'u ginfo_blk) option" where
  "wait_pass env g status = do {
     g1 \<leftarrow> SIbldpoll g;
     (let ((rc, e), rd, wr, ex) = o_select env (os_n g1);
          g2 = tick (g1\<lparr>readfds := rd, writefds := wr, execpfds := ex\<rparr>);
          g3 = (if rc < 0 \<and> e \<noteq> EINTR then g2\<lparr>fdcount := 0, gi_flags := gi_flags g2 OR GIF_SHUTDOWN\<rparr> else g2)
      in if rc > 0 \<and> gi_flags g3 AND GIF_SHUTDOWN = 0 then wait_blocks env g3 (tplist g3) status
         else Some (status, g3)) }"

text \<open>The end of \<^verbatim>\<open>SIwait\<close>: the final clean up is the body of the test for an empty list.\<close>

definition wait_end :: "'u ginfo_blk \<Rightarrow> int \<Rightarrow> (int \<times> 'u ginfo_blk) option" where
  "wait_end g status =
     (if tplist g = None
      then (if gi_flags g AND GIF_SHUTDOWN \<noteq> 0
            then do { r \<leftarrow> SIshutdown (Some g); g1 \<leftarrow> r; Some (SI_ERROR, g1) }
            else Some (SI_OK, g))
      else Some (status, g))"

partial_function (option) wait_loop :: "si_env \<Rightarrow> 'u ginfo_blk \<Rightarrow> int \<Rightarrow> (int \<times> 'u ginfo_blk) option" where
  "wait_loop env g status = do {
     r \<leftarrow> wait_pass env g status;
     (if tplist (snd r) \<noteq> None \<and> gi_flags (snd r) AND GIF_SHUTDOWN = 0 then wait_loop env (snd r) (fst r)
      else wait_end (snd r) (fst r)) }"

definition SIwait :: "si_env \<Rightarrow> 'u ginfo_blk \<Rightarrow> (int \<times> 'u ginfo_blk) option" where
  "SIwait env g =
     (if magicnum g \<noteq> MAGICNUM then Some (SI_ERROR, g)
      else if gi_flags g AND GIF_SHUTDOWN \<noteq> 0 then Some (SI_ERROR, g)
      else wait_loop env g SI_OK)"

section \<open>An example\<close>

text \<open>An operating system for examples: connections and sessions get the descriptor of the number
  of the call, and three bytes are written at a time.\<close>

definition demo_si :: si_env where
  "demo_si = \<lparr>si_ok = (\<lambda>_. True), o_select = (\<lambda>n. ((1, E0), [], [], [])), o_send = (\<lambda>n. (3, E0)), o_recv = (\<lambda>n. (1, [7])), o_from = (\<lambda>n. (1, [7], \<lparr>sa_family = 2, sa_data = replicate 14 1\<rparr>)), o_kbd = (\<lambda>_. []),
     o_accept = (\<lambda>n. (int n, \<lparr>sa_family = 2, sa_data = replicate 14 1\<rparr>)), o_socket = int, o_bind = (\<lambda>_. 0), o_listen = (\<lambda>_. 0),
     o_connect = (\<lambda>_. (0, E0)), o_sockname = (\<lambda>_. (0, 16, \<lparr>sa_family = 2, sa_data = replicate 14 2\<rparr>)), o_syncnt = 6,
     o_gai = (\<lambda>h p f s b. Some (16, \<lparr>sa_family = 2, sa_data = replicate 14 1\<rparr>))\<rparr>"

definition demo_gi :: "unit ginfo_blk" where
  "demo_gi = \<lparr>magicnum = MAGICNUM, tplist = None, readfds = [], writefds = [], execpfds = [], cbtab = replicate MAX_CBS None,
     fdcount = 0, gi_flags = 0, tcp_flags = 0, tp_map = (\<lambda>_. None), h_tp = (\<lambda>_. None), tp_fresh = 0,
     os_n = 0, os_log = [], si_user = ()\<rparr>"

end
