(* ===== verification/Route.thy ===== *)
theory Route
  imports Receive Symtab Si95
begin

text \<open>
  Route tables, route table entries and endpoints: the construction, cloning, look-up and
  release functions of \<^verbatim>\<open>src/src/rmr/common/src/rt_generic_static.c\<close> and the endpoint and descriptor
  functions of \<^verbatim>\<open>src/src/rmr/si/src/rtable_si_static.c\<close>.

  Endpoints, entries and tables are objects with an address in a store of their own; all
  addresses come from one supply, so that a pointer of one kind used as another finds nothing.
  Using an address that is not (or no longer) in its store is a fault (\<open>None\<close>).  The hash of a
  table is the symbol table of \<open>Symtab\<close>, whose values are addresses: entries in the numeric
  space \<^verbatim>\<open>RT_MT_SPACE\<close> and the owners of managed entities in \<^verbatim>\<open>RT_ME_SPACE\<close>.  All tables share the
  endpoint hash of the context.

  The wait of \<^verbatim>\<open>prep_new_rt\<close> for a table to drain is left to \<open>Route_Conc\<close>; here the function
  goes on with the reference count at zero, as it does when the wait is over.
\<close>

section \<open>State\<close>

abbreviation (input) RT_SIZE :: int where "RT_SIZE \<equiv> 10009"
abbreviation (input) RT_MT_SPACE :: u32 where "RT_MT_SPACE \<equiv> 0"
abbreviation (input) RT_NAME_SPACE :: u32 where "RT_NAME_SPACE \<equiv> 1"
abbreviation (input) RT_ME_SPACE :: u32 where "RT_ME_SPACE \<equiv> 2"
abbreviation (input) MAX_EP_GROUP :: nat where "MAX_EP_GROUP \<equiv> 32"

type_synonym addr = nat

record endpoint =
  ep_name :: string
  ep_addr :: "string option"
  nn_sock :: int
  ep_open :: bool
  sc_good :: int
  sc_fail :: int
  sc_trans :: int
  ep_notify :: bool

record rrgroup =
  ep_idx :: u16
  nused :: nat
  nendpts :: nat
  epts :: "addr option list"

record rtable_ent =
  rte_key :: u64
  rte_refs :: int
  rte_mtype :: int
  nrrgroups :: int
  rrgroups :: "rrgroup option list"

record route_table =
  rt_error :: bool
  rt_hash :: "addr sym_tab"
  rt_updates :: int
  rt_mupdates :: int
  ref_count :: int

record uta_ctx = rcv_ctx +
  h_eps :: "addr \<Rightarrow> endpoint option"
  h_rtes :: "addr \<Rightarrow> rtable_ent option"
  h_rts :: "addr \<Rightarrow> route_table option"
  h_next :: addr
  ephash :: "addr sym_tab"
  rtable :: "addr option"
  old_rtable :: "addr option"
  new_rtable :: "addr option"
  fd2ep :: "addr sym_tab option"
  ip_list :: "if_addrs option"
  si_ctx :: "unit ginfo_blk"

text \<open>What the functions get from outside: allocations, the resolver, the value of the socket
  field of a fresh endpoint and what the transport gets from the operating system.\<close>

record rt_env =
  n_ok :: mallocs
  n_dns :: "string \<Rightarrow> u32 option"
  n_sock0 :: int
  n_si :: si_env

definition new_addr :: "'a uta_ctx_scheme \<Rightarrow> addr \<times> 'a uta_ctx_scheme" where
  "new_addr c = (h_next c, c\<lparr>h_next := Suc (h_next c)\<rparr>)"

definition put_rt :: "'a uta_ctx_scheme \<Rightarrow> addr \<Rightarrow> route_table \<Rightarrow> 'a uta_ctx_scheme" where
  "put_rt c a t = c\<lparr>h_rts := (h_rts c)(a \<mapsto> t)\<rparr>"

definition put_rte :: "'a uta_ctx_scheme \<Rightarrow> addr \<Rightarrow> rtable_ent \<Rightarrow> 'a uta_ctx_scheme" where
  "put_rte c a r = c\<lparr>h_rtes := (h_rtes c)(a \<mapsto> r)\<rparr>"

definition put_ep :: "'a uta_ctx_scheme \<Rightarrow> addr \<Rightarrow> endpoint \<Rightarrow> 'a uta_ctx_scheme" where
  "put_ep c a e = c\<lparr>h_eps := (h_eps c)(a \<mapsto> e)\<rparr>"

section \<open>Keys\<close>

text \<open>\<^verbatim>\<open>mtype\<close> is widened with its sign in the first branch.\<close>

definition build_rt_key :: "int \<Rightarrow> int \<Rightarrow> u64" where
  "build_rt_key sub_id mtype =
     (if sub_id = UNSET_SUBID then 0xffffffff00000000 OR word_of_int mtype
      else push_bit 32 (word_of_int sub_id) OR (word_of_int mtype AND 0xffffffff))"

section \<open>Endpoints\<close>

definition uta_get_ep :: "'a uta_ctx_scheme \<Rightarrow> addr option \<Rightarrow> string option \<Rightarrow> addr option \<times> 'a uta_ctx_scheme" where
  "uta_get_ep c rt name =
     (case (rt, name) of
        (Some t, Some n) \<Rightarrow>
          if n = [] then (None, c)
          else let (v, h) = rmr_sym_get (ephash c) (KStr 1 n) in (v, c\<lparr>ephash := h\<rparr>)
      | _ \<Rightarrow> (None, c))"

definition rt_ensure_ep :: "rt_env \<Rightarrow> 'a uta_ctx_scheme \<Rightarrow> addr option \<Rightarrow> string option \<Rightarrow> addr option \<times> 'a uta_ctx_scheme" where
  "rt_ensure_ep env c rt name =
     (case (rt, name) of
        (Some t, Some n) \<Rightarrow>
          if n = [] then (None, c)
          else let (v, c1) = uta_get_ep c rt name
               in if v \<noteq> None then (v, c1)
                  else if \<not> n_ok env M_ep then (None, c1)
                  else let (a, c2) = new_addr c1;
                           e = \<lparr>ep_name = n, ep_addr = uta_h2ip (n_dns env) n, nn_sock = n_sock0 env, ep_open = False,
                                sc_good = 0, sc_fail = 0, sc_trans = 0, ep_notify = True\<rparr>;
                           c3 = put_ep c2 a e
                       in (Some a, c3\<lparr>ephash := snd (rmr_sym_put (n_ok env) (ephash c3) n 1 (Some a))\<rparr>)
      | _ \<Rightarrow> (None, c))"

definition uta_ep_failed :: "'a uta_ctx_scheme \<Rightarrow> addr option \<Rightarrow> 'a uta_ctx_scheme option" where
  "uta_ep_failed c ep =
     (case ep of None \<Rightarrow> Some c
      | Some a \<Rightarrow> do { e \<leftarrow> h_eps c a; Some (put_ep c a (e\<lparr>ep_open := False\<rparr>)) })"

section \<open>Route table entries\<close>

definition del_rte :: "'a uta_ctx_scheme \<Rightarrow> addr option \<Rightarrow> 'a uta_ctx_scheme option" where
  "del_rte c thing =
     (case thing of None \<Rightarrow> Some c
      | Some a \<Rightarrow> do {
          r \<leftarrow> h_rtes c a;
          (if rte_refs r - 1 > 0 then Some (put_rte c a (r\<lparr>rte_refs := rte_refs r - 1\<rparr>))
           else Some (c\<lparr>h_rtes := (h_rtes c)(a := None)\<rparr>)) })"

definition uta_add_rte :: "mallocs \<Rightarrow> 'a uta_ctx_scheme \<Rightarrow> addr option \<Rightarrow> u64 \<Rightarrow> int \<Rightarrow> (addr option \<times> 'a uta_ctx_scheme) option" where
  "uta_add_rte ok c rt key nrr =
     (case rt of None \<Rightarrow> Some (None, c)
      | Some ta \<Rightarrow>
          if \<not> ok M_rte then Some (None, c)
          else (let n = (if nrr < 0 then 10 else nrr) in
            if n \<noteq> 0 \<and> \<not> ok M_rrgroups then Some (None, c)
            else do {
              t \<leftarrow> h_rts c ta;
              (let (old, h1) = rmr_sym_pull (rt_hash t) key;
                   (a, c1) = new_addr c;
                   c2 = put_rte c1 a \<lparr>rte_key = key, rte_refs = 1, rte_mtype = 0, nrrgroups = n, rrgroups = replicate (nat n) None\<rparr>
               in do {
                 c3 \<leftarrow> del_rte c2 old;
                 Some (Some a, put_rt c3 ta (t\<lparr>rt_hash := snd (rmr_sym_map ok h1 key (Some a))\<rparr>)) }) }))"

definition uta_add_ep :: "rt_env \<Rightarrow> 'a uta_ctx_scheme \<Rightarrow> addr option \<Rightarrow> addr option \<Rightarrow> string option \<Rightarrow> int
    \<Rightarrow> (addr option \<times> 'a uta_ctx_scheme) option" where
  "uta_add_ep env c rt rte name grp =
     (case (rte, rt) of
        (Some ra, Some ta) \<Rightarrow> do {
          r \<leftarrow> h_rtes c ra;
          (if nrrgroups r \<le> grp \<or> grp < 0 then Some (None, c)
           else if nat grp \<ge> length (rrgroups r) then None
           else (let g = nat grp; old = rrgroups r ! g;
                     fresh = \<lparr>ep_idx = 0, nused = 0, nendpts = MAX_EP_GROUP, epts = replicate MAX_EP_GROUP None\<rparr>
                 in if old = None \<and> (\<not> n_ok env M_rrg \<or> \<not> n_ok env M_epts) then Some (None, c)
                    else (let rrg = (case old of Some x \<Rightarrow> x | None \<Rightarrow> fresh);
                              c1 = put_rte c ra (r\<lparr>rrgroups := (rrgroups r)[g := Some rrg]\<rparr>);
                              (ep, c2) = rt_ensure_ep env c1 rt name
                          in if nused rrg \<ge> nendpts rrg then Some (None, c2)
                             else if nused rrg \<ge> length (epts rrg) then None
                             else Some (ep, put_rte c2 ra (r\<lparr>rrgroups := (rrgroups r)[g :=
                                    Some (rrg\<lparr>epts := (epts rrg)[nused rrg := ep], nused := nused rrg + 1\<rparr>)]\<rparr>))))) }
      | _ \<Rightarrow> Some (None, c))"

definition uta_get_rte :: "'a uta_ctx_scheme \<Rightarrow> addr option \<Rightarrow> int \<Rightarrow> int \<Rightarrow> bool \<Rightarrow> (addr option \<times> 'a uta_ctx_scheme) option" where
  "uta_get_rte c rt sid mtype try_alt =
     (case rt of None \<Rightarrow> Some (None, c)
      | Some ta \<Rightarrow> do {
          t \<leftarrow> h_rts c ta;
          (let (v, h1) = rmr_sym_pull (rt_hash t) (build_rt_key sid mtype);
               c1 = put_rt c ta (t\<lparr>rt_hash := h1\<rparr>)
           in if v \<noteq> None \<or> \<not> try_alt then Some (v, c1)
              else if sid \<noteq> UNSET_SUBID
              then (let (w, h2) = rmr_sym_pull h1 (build_rt_key UNSET_SUBID mtype)
                    in Some (w, put_rt c ta (t\<lparr>rt_hash := h2\<rparr>)))
              else Some (v, c1)) })"

definition get_meid_owner :: "'a uta_ctx_scheme \<Rightarrow> addr option \<Rightarrow> string option \<Rightarrow> (addr option \<times> 'a uta_ctx_scheme) option" where
  "get_meid_owner c rt meid =
     (case (rt, meid) of
        (Some ta, Some m) \<Rightarrow>
          if m = [] then Some (None, c)
          else do {
            t \<leftarrow> h_rts c ta;
            (let (v, h) = rmr_sym_get (rt_hash t) (KStr RT_ME_SPACE m)
             in Some (v, put_rt c ta (t\<lparr>rt_hash := h\<rparr>))) }
      | _ \<Rightarrow> Some (None, c))"

section \<open>Route tables\<close>

definition uta_rt_init :: "mallocs \<Rightarrow> 'a uta_ctx_scheme \<Rightarrow> addr option \<times> 'a uta_ctx_scheme" where
  "uta_rt_init ok c =
     (if \<not> ok M_rt then (None, c)
      else case rmr_sym_alloc ok RT_SIZE of None \<Rightarrow> (None, c)
        | Some h \<Rightarrow> let (a, c1) = new_addr c
                   in (Some a, put_rt c1 a \<lparr>rt_error = False, rt_hash = h, rt_updates = 0, rt_mupdates = 0, ref_count = 0\<rparr>))"

text \<open>The list a foreach over a space collects; \<open>None\<close> stands for arrays that could not be
  reallocated.\<close>

record thing_list =
  tl_error :: bool
  tl_nalloc :: int
  tl_things :: "(string option \<times> addr) list option"

definition extend_things :: "mallocs \<Rightarrow> thing_list \<Rightarrow> thing_list" where
  "extend_things ok tlist =
     (let t1 = tlist\<lparr>tl_nalloc := tl_nalloc tlist + tl_nalloc tlist div 2\<rparr>
      in if \<not> ok M_things then t1\<lparr>tl_error := True, tl_things := None\<rparr> else t1)"

definition collect_things :: "mallocs \<Rightarrow> string option \<Rightarrow> addr option \<Rightarrow> thing_list \<Rightarrow> thing_list option" where
  "collect_things ok name thing tlist =
     (case thing of None \<Rightarrow> Some tlist
      | Some a \<Rightarrow> do {
          xs \<leftarrow> tl_things tlist;
          (let t1 = tlist\<lparr>tl_things := Some (xs @ [(name, a)])\<rparr>
           in Some (if int (length (xs @ [(name, a)])) \<ge> tl_nalloc t1 then extend_things ok t1 else t1)) })"

text \<open>The loop that puts the collected things into the new table.\<close>

fun clone_things :: "mallocs \<Rightarrow> 'a uta_ctx_scheme \<Rightarrow> addr \<Rightarrow> u32 \<Rightarrow> (string option \<times> addr) list \<Rightarrow> 'a uta_ctx_scheme option" where
  "clone_things ok c nrt space [] = Some c"
| "clone_things ok c nrt space ((name, a) # xs) = do {
     t \<leftarrow> h_rts c nrt;
     (if space \<noteq> 0
      then do { n \<leftarrow> name;
                clone_things ok (put_rt c nrt (t\<lparr>rt_hash := snd (rmr_sym_put ok (rt_hash t) n space (Some a))\<rparr>)) nrt space xs }
      else do { r \<leftarrow> h_rtes c a;
                clone_things ok (put_rt (put_rte c a (r\<lparr>rte_refs := rte_refs r + 1\<rparr>)) nrt
                    (t\<lparr>rt_hash := snd (rmr_sym_map ok (rt_hash t) (rte_key r) (Some a))\<rparr>)) nrt space xs }) }"

text \<open>\<^verbatim>\<open>rt_clone_space\<close> with the two tables given; \<open>nfree\<close> tells that the new table was made here.\<close>

definition clone_space :: "mallocs \<Rightarrow> 'a uta_ctx_scheme \<Rightarrow> addr \<Rightarrow> addr \<Rightarrow> u32 \<Rightarrow> bool \<Rightarrow> (addr option \<times> 'a uta_ctx_scheme) option" where
  "clone_space ok c srt nrt space nfree = do {
     s \<leftarrow> h_rts c srt; t \<leftarrow> h_rts c nrt;
     (let failed = (if nfree then (None, c\<lparr>h_rts := (h_rts c)(nrt := None)\<rparr>)
                    else (Some nrt, put_rt c nrt (t\<lparr>rt_error := True\<rparr>)))
      in if \<not> ok M_things then Some failed
         else do {
           tl1 \<leftarrow> rmr_sym_foreach_class (rt_hash s) space (\<lambda>name v st. do { x \<leftarrow> st; collect_things ok name v x })
                    (Some \<lparr>tl_error = False, tl_nalloc = 2048, tl_things = Some []\<rparr>);
           (if tl_error tl1 then Some failed
            else do {
              xs \<leftarrow> tl_things tl1;
              c1 \<leftarrow> clone_things ok c nrt space xs;
              Some (Some nrt, c1) }) }) }"

definition rt_clone_space :: "mallocs \<Rightarrow> 'a uta_ctx_scheme \<Rightarrow> addr option \<Rightarrow> addr option \<Rightarrow> u32 \<Rightarrow> (addr option \<times> 'a uta_ctx_scheme) option" where
  "rt_clone_space ok c srt nrt space =
     (let (n, c1) = (case nrt of Some a \<Rightarrow> (Some a, c) | None \<Rightarrow> uta_rt_init ok c)
      in case n of None \<Rightarrow> Some (None, c1)
         | Some a \<Rightarrow> (case srt of None \<Rightarrow> Some (Some a, c1)
                     | Some s \<Rightarrow> clone_space ok c1 s a space (nrt = None)))"

definition uta_rt_clone :: "mallocs \<Rightarrow> 'a uta_ctx_scheme \<Rightarrow> addr option \<Rightarrow> addr option \<Rightarrow> bool \<Rightarrow> (addr option \<times> 'a uta_ctx_scheme) option" where
  "uta_rt_clone ok c srt drt all_spaces =
     (let (d, c1) = (case drt of Some a \<Rightarrow> (Some a, c) | None \<Rightarrow> uta_rt_init ok c)
      in case srt of None \<Rightarrow> Some (d, c1)
         | Some s \<Rightarrow> do {
             da \<leftarrow> d;
             r1 \<leftarrow> rt_clone_space ok c1 srt (Some da) RT_ME_SPACE;
             (if all_spaces then do { r2 \<leftarrow> rt_clone_space ok (snd r1) srt (Some da) RT_MT_SPACE; Some (Some da, snd r2) }
              else Some (Some da, snd r1)) })"

text \<open>\<^verbatim>\<open>del_rte\<close> applied to every entry of the numeric space of a table.\<close>

definition deref_all :: "'a uta_ctx_scheme \<Rightarrow> addr sym_tab \<Rightarrow> 'a uta_ctx_scheme option" where
  "deref_all c h = rmr_sym_foreach_class h RT_MT_SPACE (\<lambda>name v st. do { x \<leftarrow> st; del_rte x v }) (Some c)"

definition uta_rt_drop :: "'a uta_ctx_scheme \<Rightarrow> addr option \<Rightarrow> 'a uta_ctx_scheme option" where
  "uta_rt_drop c rt =
     (case rt of None \<Rightarrow> Some c
      | Some a \<Rightarrow> do {
          t \<leftarrow> h_rts c a;
          c1 \<leftarrow> deref_all c (rt_hash t);
          Some (c1\<lparr>h_rts := (h_rts c1)(a := None)\<rparr>) })"

text \<open>The part of \<^verbatim>\<open>prep_new_rt\<close> under the lock, once nobody uses the old table.\<close>

definition prep_clear :: "'a uta_ctx_scheme \<Rightarrow> addr option \<Rightarrow> 'a uta_ctx_scheme option" where
  "prep_clear c rt =
     (case rt of None \<Rightarrow> Some c
      | Some a \<Rightarrow> do {
          t \<leftarrow> h_rts c a;
          c1 \<leftarrow> deref_all c (rt_hash t);
          Some (put_rt c1 a (t\<lparr>rt_hash := rmr_sym_clear (rt_hash t), rt_error := False, ref_count := 0\<rparr>)) })"

definition prep_new_rt :: "mallocs \<Rightarrow> 'a uta_ctx_scheme \<Rightarrow> bool \<Rightarrow> (addr \<times> 'a uta_ctx_scheme) option" where
  "prep_new_rt ok c all_spaces = do {
     c1 \<leftarrow> prep_clear (c\<lparr>old_rtable := None\<rparr>) (old_rtable c);
     r \<leftarrow> uta_rt_clone ok c1 (rtable c1) (old_rtable c) all_spaces;
     (case fst r of
        Some a \<Rightarrow> do { t \<leftarrow> h_rts (snd r) a; Some (a, put_rt (snd r) a (t\<lparr>ref_count := 0\<rparr>)) }
      | None \<Rightarrow> (let (d, c2) = uta_rt_init ok (snd r)
                in do { a \<leftarrow> d; t \<leftarrow> h_rts c2 a; Some (a, put_rt c2 a (t\<lparr>rt_error := True\<rparr>)) })) }"

definition roll_tables :: "'a uta_ctx_scheme \<Rightarrow> 'a uta_ctx_scheme option" where
  "roll_tables c = do {
     bad \<leftarrow> (case new_rtable c of None \<Rightarrow> Some True | Some a \<Rightarrow> do { t \<leftarrow> h_rts c a; Some (rt_error t) });
     Some (if bad then c\<lparr>old_rtable := new_rtable c, new_rtable := None\<rparr>
           else if rtable c \<noteq> None then c\<lparr>old_rtable := rtable c, rtable := new_rtable c, new_rtable := None\<rparr>
           else c\<lparr>old_rtable := None, rtable := new_rtable c, new_rtable := None\<rparr>) }"

definition get_rt :: "'a uta_ctx_scheme \<Rightarrow> (addr option \<times> 'a uta_ctx_scheme) option" where
  "get_rt c =
     (case rtable c of None \<Rightarrow> Some (None, c)
      | Some a \<Rightarrow> do { t \<leftarrow> h_rts c a; Some (Some a, put_rt c a (t\<lparr>ref_count := ref_count t + 1\<rparr>)) })"

definition release_rt :: "'a uta_ctx_scheme \<Rightarrow> addr option \<Rightarrow> 'a uta_ctx_scheme option" where
  "release_rt c rt =
     (case rt of None \<Rightarrow> Some c
      | Some a \<Rightarrow> do { t \<leftarrow> h_rts c a;
          Some (if ref_count t > 0 then put_rt c a (t\<lparr>ref_count := ref_count t - 1\<rparr>) else c) })"

section \<open>Descriptors\<close>

definition fd_key :: "int \<Rightarrow> u64" where
  "fd_key fd = word_of_int fd"

text \<open>The gate is allocated when there is none; a failure to allocate it is not noticed here.\<close>

definition fd2ep_init :: "mallocs \<Rightarrow> 'a uta_ctx_scheme option \<Rightarrow> 'a uta_ctx_scheme option" where
  "fd2ep_init ok vc =
     (case vc of None \<Rightarrow> None
      | Some c \<Rightarrow> Some (if fd2ep c = None then c\<lparr>fd2ep := rmr_sym_alloc ok 129\<rparr> else c))"

definition fd2ep_add :: "mallocs \<Rightarrow> 'a uta_ctx_scheme \<Rightarrow> int \<Rightarrow> addr option \<Rightarrow> 'a uta_ctx_scheme" where
  "fd2ep_add ok c fd ep =
     (case fd2ep c of None \<Rightarrow> c
      | Some h \<Rightarrow> c\<lparr>fd2ep := Some (snd (rmr_sym_map ok h (fd_key fd) ep))\<rparr>)"

definition fd2ep_del :: "'a uta_ctx_scheme \<Rightarrow> int \<Rightarrow> addr option \<times> 'a uta_ctx_scheme" where
  "fd2ep_del c fd =
     (case fd2ep c of None \<Rightarrow> (None, c)
      | Some h \<Rightarrow> let (v, h1) = rmr_sym_pull h (fd_key fd)
                 in (v, c\<lparr>fd2ep := Some (if v \<noteq> None then rmr_sym_ndel h1 (fd_key fd) else h1)\<rparr>))"

definition fd2ep_get :: "'a uta_ctx_scheme \<Rightarrow> int \<Rightarrow> addr option \<times> 'a uta_ctx_scheme" where
  "fd2ep_get c fd =
     (case fd2ep c of None \<Rightarrow> (None, c)
      | Some h \<Rightarrow> let (v, h1) = rmr_sym_pull h (fd_key fd) in (v, c\<lparr>fd2ep := Some h1\<rparr>))"

section \<open>Connections\<close>

definition uta_link2 :: "rt_env \<Rightarrow> 'a uta_ctx_scheme \<Rightarrow> addr option \<Rightarrow> (bool \<times> 'a uta_ctx_scheme) option" where
  "uta_link2 env c ep =
     (case ep of None \<Rightarrow> Some (False, c)
      | Some a \<Rightarrow> do {
          e \<leftarrow> h_eps c a;
          (if CHR '':'' \<notin> set (ep_name e) then Some (False, put_ep c a (e\<lparr>ep_notify := False\<rparr>))
           else if ep_open e then Some (True, c)
           else do {
             s \<leftarrow> SIconnect (n_si env) (si_ctx c) (take 511 (ep_name e));
             (let c1 = c\<lparr>si_ctx := snd s\<rparr>
              in if fst s < 0 then Some (False, put_ep c1 a (e\<lparr>nn_sock := fst s, ep_notify := False\<rparr>))
                 else Some (True, fd2ep_add (n_ok env)
                        (put_ep c1 a (e\<lparr>nn_sock := fst s, ep_open := True, ep_notify := True\<rparr>)) (fst s) (Some a))) }) })"

definition rt_link2_ep :: "rt_env \<Rightarrow> 'a uta_ctx_scheme \<Rightarrow> addr option \<Rightarrow> (bool \<times> 'a uta_ctx_scheme) option" where
  "rt_link2_ep env c ep =
     (case ep of None \<Rightarrow> Some (False, c)
      | Some a \<Rightarrow> do {
          e \<leftarrow> h_eps c a;
          (if ep_open e then Some (True, c)
           else do { r \<leftarrow> uta_link2 env c ep; e1 \<leftarrow> h_eps (snd r) a; Some (ep_open e1, snd r) }) })"

text \<open>The common end of the three functions that select an endpoint: its socket, after a
  connection attempt when it is not open.  \<open>remap\<close> tells that the caller maps the descriptor to
  the endpoint after the connection (\<^verbatim>\<open>epsock_meid\<close> does not).\<close>

definition ep_socket :: "rt_env \<Rightarrow> 'a uta_ctx_scheme \<Rightarrow> addr \<Rightarrow> bool \<Rightarrow> (int option \<times> 'a uta_ctx_scheme) option" where
  "ep_socket env c a remap = do {
     e \<leftarrow> h_eps c a;
     (if ep_open e then Some (Some (nn_sock e), c)
      else do {
        r \<leftarrow> uta_link2 env (put_ep c a (e\<lparr>ep_addr := (if ep_addr e = None then Some (ep_name e) else ep_addr e)\<rparr>)) (Some a);
        (if fst r
         then do {
           e1 \<leftarrow> h_eps (snd r) a;
           (let c1 = put_ep (snd r) a (e1\<lparr>ep_open := True\<rparr>)
            in Some (Some (nn_sock e1), if remap then fd2ep_add (n_ok env) c1 (nn_sock e1) (Some a) else c1)) }
         else Some (None, snd r)) }) }"

text \<open>The results are the state (0 is false), the socket, the endpoint stored through \<^verbatim>\<open>uepp\<close> and,
  for the round robin selection, \<^verbatim>\<open>more\<close>.\<close>

definition uta_epsock_byname :: "rt_env \<Rightarrow> 'a uta_ctx_scheme \<Rightarrow> string \<Rightarrow> ((int option \<times> addr option) \<times> 'a uta_ctx_scheme) option" where
  "uta_epsock_byname env c name = do {
     r \<leftarrow> get_rt c;
     rt \<leftarrow> fst r;
     (let (v, h) = rmr_sym_get (ephash (snd r)) (KStr 1 name);
          c1 = (snd r)\<lparr>ephash := h\<rparr>;
          (ep, c2) = (if v = None then rt_ensure_ep env c1 (Some rt) (Some name) else (v, c1))
      in do {
        c3 \<leftarrow> release_rt c2 (Some rt);
        (case ep of None \<Rightarrow> Some ((None, v), c3)
         | Some a \<Rightarrow> do { s \<leftarrow> ep_socket env c3 a True; Some ((fst s, v), snd s) }) }) }"

definition uta_epsock_rr :: "rt_env \<Rightarrow> 'a uta_ctx_scheme \<Rightarrow> addr option \<Rightarrow> int
    \<Rightarrow> ((nat \<times> bool \<times> int option \<times> addr option) \<times> 'a uta_ctx_scheme) option" where
  "uta_epsock_rr env c rte grp =
     (case rte of None \<Rightarrow> Some ((0, False, None, None), c)
      | Some ra \<Rightarrow> do {
          r \<leftarrow> h_rtes c ra;
          (if grp < 0 \<or> grp \<ge> nrrgroups r then Some ((0, False, None, None), c)
           else if nat grp \<ge> length (rrgroups r) then None
           else (case rrgroups r ! nat grp of None \<Rightarrow> Some ((0, False, None, None), c)
             | Some rrg \<Rightarrow> do {
                 more \<leftarrow> (if grp < nrrgroups r - 1
                         then (if nat grp + 1 < length (rrgroups r) then Some (rrgroups r ! (nat grp + 1) \<noteq> None) else None)
                         else Some False);
                 (if nused rrg = 0 then Some ((0, more, None, None), c)
                  else (let idx = (if nused rrg = 1 then 0 else unat (ep_idx rrg) mod nused rrg);
                            st = (if nused rrg = 1 then 1 else idx + 1);
                            c1 = (if nused rrg = 1 then c
                                  else put_rte c ra (r\<lparr>rrgroups := (rrgroups r)[nat grp := Some (rrg\<lparr>ep_idx := ep_idx rrg + 1\<rparr>)]\<rparr>))
                        in if idx \<ge> length (epts rrg) then None
                           else do {
                             a \<leftarrow> epts rrg ! idx;
                             s \<leftarrow> ep_socket env c1 a True;
                             Some ((if fst s = None then 0 else st, more, fst s, Some a), snd s) })) })) })"

definition epsock_meid :: "rt_env \<Rightarrow> 'a uta_ctx_scheme \<Rightarrow> addr option \<Rightarrow> mbuf option
    \<Rightarrow> ((int option \<times> addr option) \<times> 'a uta_ctx_scheme) option" where
  "epsock_meid env c rt msg =
     (case (rt, msg) of
        (Some ta, Some m) \<Rightarrow> do {
          h \<leftarrow> m_header m; b \<leftarrow> m_tp_buf m;
          n \<leftarrow> strlen (drop (h + H_MEID) b);
          r \<leftarrow> get_meid_owner c rt (Some (bytes_str (take n (drop (h + H_MEID) b))));
          (case fst r of None \<Rightarrow> Some ((None, None), snd r)
           | Some a \<Rightarrow> do { s \<leftarrow> ep_socket env (snd r) a False; Some ((fst s, Some a), snd s) }) }
      | _ \<Rightarrow> Some ((None, None), c))"

section \<open>The disconnect callback\<close>

definition mt_disc_cb :: "'a uta_ctx_scheme option \<Rightarrow> int \<Rightarrow> 'a uta_ctx_scheme option option" where
  "mt_disc_cb vc fd =
     (case vc of None \<Rightarrow> Some None
      | Some c \<Rightarrow> do {
          c1 \<leftarrow> disc_river c fd;
          (let (ep, c2) = fd2ep_del c1 fd
           in case ep of None \<Rightarrow> Some (Some c2)
              | Some a \<Rightarrow> do { e \<leftarrow> h_eps c2 a; Some (Some (put_ep c2 a (e\<lparr>ep_open := False, nn_sock := -1\<rparr>))) }) })"

section \<open>Keys identify subscription and type\<close>

lemma key_low: "(ucast (build_rt_key s m) :: u32) = word_of_int m"
proof (rule bit_word_eqI)
  fix n assume "n < LENGTH(32)"
  then have "\<not> bit (0xffffffff00000000 :: u64) n" "bit (0xffffffff :: u64) n"
    using bit_mask_iff [of 32 n, where 'a = u64] bit_push_bit_iff [of 32 "mask 32 :: u64" n] by (simp_all add: mask_eq_exp_minus_1 push_bit_eq_mult)
  then show "bit (ucast (build_rt_key s m) :: u32) n = bit (word_of_int m :: u32) n" 
    using \<open>n < LENGTH(32)\<close> by (auto simp: build_rt_key_def bit_simps)
qed

lemma key_high: "(ucast (drop_bit 32 (build_rt_key s m)) :: u32) = word_of_int s"
proof (rule bit_word_eqI)
  fix n assume n: "n < LENGTH(32)"
  then have "bit (0xffffffff00000000 :: u64) (32 + n)" "\<not> bit (0xffffffff :: u64) (32 + n)"
    using bit_mask_iff [of 32 "32 + n", where 'a = u64] bit_mask_iff [of 32 n, where 'a = u64] bit_push_bit_iff [of 32 "mask 32 :: u64" "32 + n"] by (simp_all add: mask_eq_exp_minus_1 push_bit_eq_mult bit_mask_iff)
  then show "bit (ucast (drop_bit 32 (build_rt_key s m)) :: u32) n = bit (word_of_int s :: u32) n"
    using n by (auto simp: build_rt_key_def bit_simps)
qed

lemma build_rt_key_eq:
  assumes "-(2^31) \<le> s" "s < 2^31" "-(2^31) \<le> m" "m < 2^31" "-(2^31) \<le> s'" "s' < 2^31" "-(2^31) \<le> m'" "m' < 2^31"
  shows "build_rt_key s m = build_rt_key s' m' \<longleftrightarrow> s = s' \<and> m = m'"
proof
  assume e: "build_rt_key s m = build_rt_key s' m'"
  have "(word_of_int s :: u32) = word_of_int s'" "(word_of_int m :: u32) = word_of_int m'"
    using key_low [of s m] key_low [of s' m'] key_high [of s m] key_high [of s' m'] e by simp_all
  then have "sint (word_of_int s :: u32) = sint (word_of_int s' :: u32)" "sint (word_of_int m :: u32) = sint (word_of_int m' :: u32)"
    by simp_all
  with assms show "s = s' \<and> m = m'" by (simp add: sint_word_of_int_small)
qed simp

text \<open>
  C37. The 64-bit route table key determines the pair of subscription id and message type: two
  pairs of 32-bit values have the same key only when they are equal, for the branch of the
  unset subscription id as well, and the key is 0 exactly for subscription 0 and type 0.
\<close>

theorem rt_key_injective:
  assumes "-(2^31) \<le> s" "s < 2^31" "-(2^31) \<le> m" "m < 2^31" "-(2^31) \<le> s'" "s' < 2^31" "-(2^31) \<le> m'" "m' < 2^31"
  shows "(build_rt_key s m = build_rt_key s' m' \<longleftrightarrow> s = s' \<and> m = m') \<and>
     (build_rt_key s m = 0 \<longleftrightarrow> s = 0 \<and> m = 0)"
proof -
  have "build_rt_key 0 0 = 0" by (simp add: build_rt_key_def)
  with build_rt_key_eq [OF assms] build_rt_key_eq [OF assms(1-4), of 0 0] show ?thesis by simp
qed

theorem rt_key_injective_witness: "build_rt_key (-1) 7 \<noteq> build_rt_key 3 7"
  using rt_key_injective [of "-1" 7 3 7] by simp

end
