(* ===== verification/Route_Refs.thy ===== *)
theory Route_Refs
  imports Route "HOL-Library.Multiset"
begin

text \<open>
  The reference counts of route table entries.  The tables of a context share their entries: a
  clone of a table references the entries of the original.  The invariant \<open>rt_inv\<close> says that
  every entry in the store is counted exactly and that no table references a freed entry; it is
  kept by the functions of \<open>Route\<close> that add, share and drop references, and under it none of
  them uses a freed object.
\<close>

section \<open>Reference counts\<close>

text \<open>
  \<open>refs_ok R V\<close> relates the store of route table entries to a family of maps, one per table: a
  referenced entry exists and carries the key it is referenced under, and the reference count
  of an entry is the number of maps that reference it, at least one.
\<close>

definition ref_set :: "(addr \<Rightarrow> u64 \<Rightarrow> addr option) \<Rightarrow> addr \<Rightarrow> u64 \<Rightarrow> addr set" where
  "ref_set V a k = {t. V t k = Some a}"

definition refs_ok :: "(addr \<Rightarrow> rtable_ent option) \<Rightarrow> (addr \<Rightarrow> u64 \<Rightarrow> addr option) \<Rightarrow> bool" where
  "refs_ok R V \<longleftrightarrow> finite {t. V t \<noteq> Map.empty} \<and>
     (\<forall>t k a. V t k = Some a \<longrightarrow> (\<exists>r. R a = Some r \<and> rte_key r = k)) \<and>
     (\<forall>a r. R a = Some r \<longrightarrow> rte_refs r = int (card (ref_set V a (rte_key r))) \<and> ref_set V a (rte_key r) \<noteq> {})"

lemma refs_ok_finite: "refs_ok R V \<Longrightarrow> finite (ref_set V a k)"
  unfolding refs_ok_def ref_set_def by (erule conjE, erule finite_subset [rotated]) auto

lemma refs_okD: "refs_ok R V \<Longrightarrow> V t k = Some a \<Longrightarrow> \<exists>r. R a = Some r \<and> rte_key r = k"
  unfolding refs_ok_def by blast

lemma refs_ok_cnt:
  "refs_ok R V \<Longrightarrow> R a = Some r \<Longrightarrow> rte_refs r = int (card (ref_set V a (rte_key r))) \<and> ref_set V a (rte_key r) \<noteq> {}"
  unfolding refs_ok_def by blast

lemma finite_upd: "finite {t. V t \<noteq> Map.empty} \<Longrightarrow> finite {t'. (V(t := m)) t' \<noteq> Map.empty}"
  by (rule finite_subset [of _ "insert t {t. V t \<noteq> Map.empty}"]) auto

lemma ref_set_del: "ref_set (V(t := (V t)(k := None))) a' k' = (if k' = k then ref_set V a' k' - {t} else ref_set V a' k')"
  by (auto simp: ref_set_def)

lemma ref_set_put: "V t k = None \<Longrightarrow>
    ref_set (V(t := (V t)(k \<mapsto> a))) a' k' = (if k' = k \<and> a' = a then insert t (ref_set V a' k') else ref_set V a' k')"
  by (auto simp: ref_set_def)

text \<open>Dropping one reference.\<close>

lemma refs_ok_del:
  assumes ok: "refs_ok R V" and v: "V t k = Some a"
  shows "\<exists>r. R a = Some r \<and> rte_key r = k \<and>
     refs_ok (R(a := (if rte_refs r - 1 > 0 then Some (r\<lparr>rte_refs := rte_refs r - 1\<rparr>) else None))) (V(t := (V t)(k := None)))"
proof -
  from refs_okD [OF ok v] obtain r where r: "R a = Some r" "rte_key r = k" by blast
  let ?V = "V(t := (V t)(k := None))" and ?S = "ref_set V a k"
  have fin: "finite ?S" by (rule refs_ok_finite [OF ok])
  have tin: "t \<in> ?S" using v by (simp add: ref_set_def)
  have cnt: "rte_refs r = int (card ?S)" using ok r by (simp add: refs_ok_def)
  have c1: "int (card (?S - {t})) = rte_refs r - 1" using cnt fin tin card_gt_0_iff [of ?S] by (auto simp: card_Diff_singleton)
  have other: "ref_set ?V a' (rte_key r') = ref_set V a' (rte_key r')" if "a' \<noteq> a" "R a' = Some r'" for a' r'
    using that v by (auto simp: ref_set_def)
  have f: "finite {t'. ?V t' \<noteq> Map.empty}" using ok by (intro finite_upd) (simp add: refs_ok_def)
  show ?thesis
  proof (cases "rte_refs r - 1 > 0")
    case True
    have "?S - {t} \<noteq> {}"
    proof
      assume "?S - {t} = {}"
      then have "int (card (?S - {t})) = 0" by (simp only: card.empty of_nat_0)
      with c1 True show False by linarith
    qed
    have "refs_ok (R(a \<mapsto> r\<lparr>rte_refs := rte_refs r - 1\<rparr>)) ?V"
      unfolding refs_ok_def
    proof (intro conjI allI impI f)
      fix t' k' a' assume "?V t' k' = Some a'"
      then have "V t' k' = Some a'" by (auto split: if_splits)
      from refs_okD [OF ok this] r show "\<exists>x. (R(a \<mapsto> r\<lparr>rte_refs := rte_refs r - 1\<rparr>)) a' = Some x \<and> rte_key x = k'"
        by auto
    next
      fix a' r' assume a': "(R(a \<mapsto> r\<lparr>rte_refs := rte_refs r - 1\<rparr>)) a' = Some r'"
      have "rte_refs r' = int (card (ref_set ?V a' (rte_key r'))) \<and> ref_set ?V a' (rte_key r') \<noteq> {}"
      proof (cases "a' = a")
        case True
        with a' have r': "r' = r\<lparr>rte_refs := rte_refs r - 1\<rparr>" by simp
        have "ref_set ?V a' (rte_key r') = ?S - {t}" using True r' r ref_set_del by simp
        with r' c1 \<open>?S - {t} \<noteq> {}\<close> show ?thesis by simp
      next
        case False
        with a' have "R a' = Some r'" by simp
        with other [OF False this] refs_ok_cnt [OF ok this] show ?thesis by simp
      qed
      then show "rte_refs r' = int (card (ref_set ?V a' (rte_key r')))" "ref_set ?V a' (rte_key r') \<noteq> {}" by blast+
    qed
    with True r show ?thesis by auto
  next
    case False
    then have e: "?S - {t} = {}" using c1 fin by (metis card_gt_0_iff finite_Diff of_nat_0_less_iff)
    have "refs_ok (R(a := None)) ?V"
      unfolding refs_ok_def
    proof (intro conjI allI impI f)
      fix t' k' a' assume v': "?V t' k' = Some a'"
      then have v'': "V t' k' = Some a'" by (auto split: if_splits)
      have "a' \<noteq> a"
      proof
        assume "a' = a"
        with refs_okD [OF ok v''] v'' r have "k' = k" "t' \<in> ?S" by (auto simp: ref_set_def)
        with e have "t' = t" by blast
        with v' \<open>k' = k\<close> show False by simp
      qed
      with refs_okD [OF ok v''] show "\<exists>x. (R(a := None)) a' = Some x \<and> rte_key x = k'" by auto
    next
      fix a' r' assume "(R(a := None)) a' = Some r'"
      then show "rte_refs r' = int (card (ref_set ?V a' (rte_key r')))" "ref_set ?V a' (rte_key r') \<noteq> {}"
        using refs_ok_cnt [OF ok, of a' r'] other [of a' r'] by (auto split: if_splits)
    qed
    with False r show ?thesis by auto
  qed
qed

text \<open>Adding a reference, to a new entry or to one that exists.\<close>

lemma refs_ok_add:
  assumes ok: "refs_ok R V" and v: "V t k = None" and k: "rte_key r = k"
    and cnt: "rte_refs r = (case R a of None \<Rightarrow> 1 | Some r0 \<Rightarrow> rte_refs r0 + 1)"
    and same: "\<And>r0. R a = Some r0 \<Longrightarrow> rte_key r0 = k"
  shows "refs_ok (R(a \<mapsto> r)) (V(t := (V t)(k \<mapsto> a)))"
proof -
  let ?V = "V(t := (V t)(k \<mapsto> a))"
  have f: "finite {t'. ?V t' \<noteq> Map.empty}" using ok by (intro finite_upd) (simp add: refs_ok_def)
  have none: "ref_set V a k = {}" if "R a = None"
    using that refs_okD [OF ok] by (fastforce simp: ref_set_def)
  have tn: "t \<notin> ref_set V a k" using v by (simp add: ref_set_def)
  have c: "rte_refs r = int (card (insert t (ref_set V a k)))"
  proof (cases "R a")
    case None
    with none cnt show ?thesis by simp
  next
    case (Some r0)
    have "rte_refs r0 = int (card (ref_set V a k))" using refs_ok_cnt [OF ok Some] same [OF Some] by metis
    moreover have "rte_refs r = rte_refs r0 + 1" unfolding cnt Some by simp
    ultimately show ?thesis using card_insert_disjoint [OF refs_ok_finite [OF ok] tn] by linarith
  qed
  show ?thesis unfolding refs_ok_def
  proof (intro conjI allI impI f)
    fix t' k' a' assume v': "?V t' k' = Some a'"
    show "\<exists>x. (R(a \<mapsto> r)) a' = Some x \<and> rte_key x = k'"
    proof (cases "t' = t \<and> k' = k")
      case True
      with v' k show ?thesis by simp
    next
      case False
      with v' have "V t' k' = Some a'" by (cases "t' = t") simp_all
      from refs_okD [OF ok this] obtain x where x: "R a' = Some x" "rte_key x = k'" by blast
      with same [of x] k show ?thesis by (cases "a' = a") simp_all
    qed
  next
    fix a' r' assume a': "(R(a \<mapsto> r)) a' = Some r'"
    have "rte_refs r' = int (card (ref_set ?V a' (rte_key r'))) \<and> ref_set ?V a' (rte_key r') \<noteq> {}"
    proof (cases "a' = a")
      case True
      with a' k have "r' = r" "ref_set ?V a' (rte_key r') = insert t (ref_set V a k)"
        using ref_set_put [where V = V, OF v] by simp_all
      with c show ?thesis by simp
    next
      case False
      with a' have r': "R a' = Some r'" by simp
      have "ref_set ?V a' (rte_key r') = ref_set V a' (rte_key r')" using False ref_set_put [where V = V, OF v] by simp
      with refs_ok_cnt [OF ok r'] show ?thesis by simp
    qed
    then show "rte_refs r' = int (card (ref_set ?V a' (rte_key r')))" "ref_set ?V a' (rte_key r') \<noteq> {}" by blast+
  qed
qed

section \<open>The invariant of the routing state\<close>

definition hget :: "addr sym_tab \<Rightarrow> symkey \<Rightarrow> addr option" where
  "hget h k = fst (rmr_sym_get h k)"

definition hash_ok :: "addr sym_tab \<Rightarrow> bool" where
  "hash_ok h \<longleftrightarrow> sym_wf h \<and> KNum 0 \<notin> sym_keys h"

definition rt_view :: "(addr \<Rightarrow> route_table option) \<Rightarrow> addr \<Rightarrow> u64 \<Rightarrow> addr option" where
  "rt_view T t k = (if k = 0 then None else case T t of None \<Rightarrow> None | Some rt \<Rightarrow> hget (rt_hash rt) (KNum k))"

definition rt_inv :: "'a uta_ctx_scheme \<Rightarrow> bool" where
  "rt_inv c \<longleftrightarrow> refs_ok (h_rtes c) (rt_view (h_rts c)) \<and>
     (\<forall>t rt. h_rts c t = Some rt \<longrightarrow> hash_ok (rt_hash rt)) \<and>
     (\<forall>a \<ge> h_next c. h_rtes c a = None \<and> h_rts c a = None \<and> h_eps c a = None)"

lemma rt_invD:
  assumes "rt_inv c"
  shows "refs_ok (h_rtes c) (rt_view (h_rts c))" and "h_rts c t = Some rt \<Longrightarrow> hash_ok (rt_hash rt)"
    and "h_next c \<le> a \<Longrightarrow> h_rtes c a = None \<and> h_rts c a = None \<and> h_eps c a = None"
  using assms by (auto simp: rt_inv_def)

lemma rt_view_upd:
  "rt_view (T(t \<mapsto> rt)) = (rt_view T)(t := (\<lambda>k. if k = 0 then None else hget (rt_hash rt) (KNum k)))"
  by (auto simp: rt_view_def fun_eq_iff)

lemma rt_view_del: "rt_view (T(t := None)) = (rt_view T)(t := Map.empty)"
  by (auto simp: rt_view_def fun_eq_iff)

text \<open>Replacing a table by one with the same contents.\<close>

lemma rt_view_same:
  assumes "T a = Some t" and "\<And>k. hget (rt_hash t') k = hget (rt_hash t) k"
  shows "rt_view (T(a \<mapsto> t')) = rt_view T"
  using assms by (auto simp: rt_view_def fun_eq_iff)

lemma rt_inv_put:
  assumes inv: "rt_inv c" and t: "h_rts c a = Some t" and "\<And>k. hget (rt_hash t') k = hget (rt_hash t) k"
    and h: "hash_ok (rt_hash t')"
  shows "rt_inv (put_rt c a t')"
  using inv h t rt_view_same [of "h_rts c" a t t'] assms(3) by (auto simp: rt_inv_def put_rt_def)

text \<open>The hash operations on a table of the invariant.\<close>

lemma hash_pull:
  assumes "hash_ok h" and "k \<noteq> 0"
  shows "hash_ok (snd (rmr_sym_pull h k))" and "hget (snd (rmr_sym_pull h k)) k' = hget h k'"
    and "fst (rmr_sym_pull h k) = hget h (KNum k)"
  using assms sym_keys_get [of h "KNum k"] sm.inv_get [of h "KNum k"] sm.get_get [of h "KNum k"]
  by (auto simp: hash_ok_def hget_def rmr_sym_pull_def)

lemma hash_get:
  assumes "hash_ok h" and "key_safe k"
  shows "hash_ok (snd (rmr_sym_get h k))" and "hget (snd (rmr_sym_get h k)) k' = hget h k'"
  using assms sym_keys_get [of h k] sm.inv_get [of h k] sm.get_get [of h k]
  by (auto simp: hash_ok_def hget_def)

lemma hash_putv:
  assumes "hash_ok h" and "key_safe k"
  shows "hash_ok (sym_putv h k v)"
    and "key_safe k' \<Longrightarrow> hget (sym_putv h k v) k' = (if k' = k then v else hget h k')"
proof -
  show "hash_ok (sym_putv h k v)"
    using assms sm.inv_put [of h k v] sym_keys_put [of h k v] by (auto simp: hash_ok_def)
  assume "key_safe k'"
  then show "hget (sym_putv h k v) k' = (if k' = k then v else hget h k')"
    using assms sm.get_put [of h k k' v] by (auto simp: hash_ok_def hget_def)
qed

lemma map_putv: "ok M_symele \<Longrightarrow> snd (rmr_sym_map ok h key v) = sym_putv h (KNum key) v"
  by (simp add: rmr_sym_map_def putin_ok_eq)

lemma put_putv: "ok M_symele \<Longrightarrow> cl \<noteq> 0 \<Longrightarrow> snd (rmr_sym_put ok h n cl v) = sym_putv h (KStr cl n) v"
  by (simp add: rmr_sym_put_def putin_ok_eq)

lemma hash_del:
  assumes "hash_ok h" and "key_safe k"
  shows "hash_ok (rmr_sym_del h k)"
    and "key_safe k' \<Longrightarrow> hget (rmr_sym_del h k) k' = (if k' = k then None else hget h k')"
proof -
  show "hash_ok (rmr_sym_del h k)"
    using assms sm.inv_del [of h k] sym_keys_del [of h k] by (auto simp: hash_ok_def)
  assume "key_safe k'"
  then show "hget (rmr_sym_del h k) k' = (if k' = k then None else hget h k')"
    using assms sm.get_del [of h k k'] by (auto simp: hash_ok_def hget_def)
qed

lemma hash_clear: "hash_ok h \<Longrightarrow> hash_ok (rmr_sym_clear h) \<and> hget (rmr_sym_clear h) k = None"
  using sym_clear_wf [of h k] sym_keys_clear [of h] by (simp add: hash_ok_def hget_def)

lemma hash_alloc: "rmr_sym_alloc ok sz = Some h \<Longrightarrow> hash_ok h \<and> hget h k = None"
  using sym_alloc_wf [of ok sz h] sym_keys_alloc [of ok sz h] by (simp add: hash_ok_def hget_def)

section \<open>Adding an entry\<close>

lemma del_rte_ok:
  assumes ok: "refs_ok (h_rtes c) V" and v: "V t k = v"
  shows "\<exists>R'. del_rte c v = Some (c\<lparr>h_rtes := R'\<rparr>) \<and> refs_ok R' (V(t := (V t)(k := None))) \<and>
     (\<forall>a. h_rtes c a = None \<longrightarrow> R' a = None)"
proof (cases v)
  case None
  with v have "V(t := (V t)(k := None)) = V" by (auto simp: fun_eq_iff)
  then show ?thesis using ok None
    by (intro exI [of _ "h_rtes c"]) (simp add: del_rte_def)
next
  case (Some a)
  from refs_ok_del [OF ok, of t k a] v Some obtain r where r: "h_rtes c a = Some r"
    "refs_ok ((h_rtes c)(a := (if rte_refs r - 1 > 0 then Some (r\<lparr>rte_refs := rte_refs r - 1\<rparr>) else None)))
       (V(t := (V t)(k := None)))" by auto
  then show ?thesis
    by (intro exI [of _ "(h_rtes c)(a := (if rte_refs r - 1 > 0 then Some (r\<lparr>rte_refs := rte_refs r - 1\<rparr>) else None))"])
      (auto simp: del_rte_def Some put_rte_def)
qed

lemma del_rte_frame:
  assumes "del_rte c v = Some (c\<lparr>h_rtes := R'\<rparr>)" and "v \<noteq> Some a"
  shows "del_rte (put_rte (c\<lparr>h_next := n\<rparr>) a r) v = Some (c\<lparr>h_next := n, h_rtes := R'(a \<mapsto> r)\<rparr>)"
proof -
  have R: "h_rtes (the (del_rte c v)) = R'" unfolding assms(1) by simp
  show ?thesis
  proof (cases v)
    case None
    with R have "h_rtes c = R'" by (simp add: del_rte_def)
    then show ?thesis using None by (simp add: del_rte_def put_rte_def)
  next
    case (Some o')
    with assms(1) obtain r' where r': "h_rtes c o' = Some r'" by (cases "h_rtes c o'") (simp_all add: del_rte_def)
    with R Some have R': "R' = (h_rtes c)(o' := (if rte_refs r' - 1 > 0 then Some (r'\<lparr>rte_refs := rte_refs r' - 1\<rparr>) else None))"
      by (simp add: del_rte_def put_rte_def split: if_splits)
    show ?thesis using Some assms(2) r' unfolding R'
      by (auto simp: del_rte_def put_rte_def fun_upd_twist)
  qed
qed

lemma del_rte_put_rt:
  assumes "del_rte c v = Some (c\<lparr>h_rtes := R'\<rparr>)"
  shows "del_rte (put_rt c ta t) v = Some ((put_rt c ta t)\<lparr>h_rtes := R'\<rparr>)"
proof -
  have R: "h_rtes (the (del_rte c v)) = R'" unfolding assms(1) by simp
  show ?thesis
  proof (cases v)
    case None
    with R have "h_rtes c = R'" by (simp add: del_rte_def)
    then show ?thesis using None by (simp add: del_rte_def put_rt_def)
  next
    case (Some o')
    with assms(1) obtain r' where r': "h_rtes c o' = Some r'" by (cases "h_rtes c o'") (simp_all add: del_rte_def)
    with R Some have R': "R' = (h_rtes c)(o' := (if rte_refs r' - 1 > 0 then Some (r'\<lparr>rte_refs := rte_refs r' - 1\<rparr>) else None))"
      by (simp add: del_rte_def put_rte_def split: if_splits)
    show ?thesis using Some r' unfolding R' by (simp add: del_rte_def put_rte_def put_rt_def)
  qed
qed

lemma add_rte_ok:
  assumes inv: "rt_inv c" and t: "h_rts c ta = Some t" and key: "key \<noteq> 0"
    and ok: "ok M_rte" "ok M_rrgroups" "ok M_symele"
  shows "\<exists>c' r. uta_add_rte ok c (Some ta) key nrr = Some (Some (h_next c), c') \<and> rt_inv c' \<and>
     rt_view (h_rts c') = (rt_view (h_rts c))(ta := (rt_view (h_rts c) ta)(key \<mapsto> h_next c)) \<and>
     h_rtes c' (h_next c) = Some r \<and> rte_key r = key \<and> rte_refs r = 1 \<and> h_eps c' = h_eps c \<and>
     rrgroups r = replicate (nat (nrrgroups r)) None \<and> nrrgroups r = (if nrr < 0 then 10 else nrr) \<and>
     (\<exists>h. h_rts c' = (h_rts c)(ta \<mapsto> t\<lparr>rt_hash := h\<rparr>) \<and>
        (\<forall>k. key_safe k \<longrightarrow> hget h k = (if k = KNum key then Some (h_next c) else hget (rt_hash t) k)))"
proof -
  let ?a = "h_next c" and ?V = "rt_view (h_rts c)" and ?n = "if nrr < 0 then 10 else nrr"
  define new where "new = \<lparr>rte_key = key, rte_refs = 1, rte_mtype = 0, nrrgroups = ?n, rrgroups = replicate (nat ?n) None\<rparr>"
  define h1 where "h1 = snd (rmr_sym_pull (rt_hash t) key)"
  define h2 where "h2 = sym_putv h1 (KNum key) (Some ?a)"
  have hk: "hash_ok (rt_hash t)" using rt_invD [OF inv] t by blast
  have ks: "key_safe (KNum key)" using key by simp
  have h1: "hash_ok h1" "hget h1 k' = hget (rt_hash t) k'" for k'
    unfolding h1_def using hash_pull [OF hk key] by auto
  have h2: "hash_ok h2" "key_safe k' \<Longrightarrow> hget h2 k' = (if k' = KNum key then Some ?a else hget (rt_hash t) k')" for k'
    unfolding h2_def using hash_putv [OF h1(1) ks] h1(2) by simp_all
  have old: "fst (rmr_sym_pull (rt_hash t) key) = ?V ta key"
    using hash_pull(3) [OF hk key] key t by (simp add: rt_view_def)
  have fresh: "h_rtes c ?a = None" using rt_invD(3) [OF inv] by simp
  obtain R' where R': "del_rte c (?V ta key) = Some (c\<lparr>h_rtes := R'\<rparr>)" "refs_ok R' (?V(ta := (?V ta)(key := None)))"
      "\<forall>a. h_rtes c a = None \<longrightarrow> R' a = None"
    using del_rte_ok [OF rt_invD(1) [OF inv], of ta key] by blast
  have "?V ta key \<noteq> Some ?a" using refs_okD [OF rt_invD(1) [OF inv], of ta key ?a] fresh by auto
  from del_rte_frame [OF R'(1) this, of "Suc ?a" new]
  have d: "del_rte (put_rte (c\<lparr>h_next := Suc ?a\<rparr>) ?a new) (?V ta key) = Some (c\<lparr>h_next := Suc ?a, h_rtes := R'(?a \<mapsto> new)\<rparr>)" .
  let ?c' = "c\<lparr>h_next := Suc ?a, h_rtes := R'(?a \<mapsto> new), h_rts := (h_rts c)(ta \<mapsto> t\<lparr>rt_hash := h2\<rparr>)\<rparr>"
  have run: "uta_add_rte ok c (Some ta) key nrr = Some (Some ?a, ?c')"
  proof -
    have "rmr_sym_pull (rt_hash t) key = (?V ta key, h1)" using old h1_def by (metis prod.collapse)
    then show ?thesis
      using ok d t by (simp add: uta_add_rte_def Let_def new_addr_def map_putv new_def h2_def put_rt_def)
  qed
  have view: "rt_view (h_rts ?c') = ?V(ta := (?V ta)(key \<mapsto> ?a))"
    using h2(2) key t by (auto simp: rt_view_upd fun_eq_iff rt_view_def)
  have "refs_ok (R'(?a \<mapsto> new)) ((?V(ta := (?V ta)(key := None)))(ta := ((?V(ta := (?V ta)(key := None))) ta)(key \<mapsto> ?a)))"
    by (rule refs_ok_add [OF R'(2)]) (use R'(3) fresh in \<open>simp_all add: new_def\<close>)
  then have "refs_ok (h_rtes ?c') (rt_view (h_rts ?c'))" unfolding view by simp
  then have "rt_inv ?c'"
    using inv h2(1) R'(3) t by (auto simp: rt_inv_def split: if_splits)
  moreover have "\<exists>h. h_rts ?c' = (h_rts c)(ta \<mapsto> t\<lparr>rt_hash := h\<rparr>) \<and>
      (\<forall>k. key_safe k \<longrightarrow> hget h k = (if k = KNum key then Some ?a else hget (rt_hash t) k))"
    using h2(2) by (intro exI [of _ h2]) simp
  ultimately show ?thesis using run view by (intro exI [of _ ?c'] exI [of _ new]) (simp add: new_def)
qed

section \<open>Dropping all the references of a table\<close>

lemma deref_fold:
  assumes "refs_ok (h_rtes c) V" and "\<forall>e\<in>set es. V t (nkey e) = val e" and "distinct (map nkey es)"
  shows "\<exists>R'. fold (\<lambda>e st. do { x \<leftarrow> st; del_rte x (val e) }) es (Some c) = Some (c\<lparr>h_rtes := R'\<rparr>) \<and>
     refs_ok R' (V(t := (\<lambda>k. if k \<in> nkey ` set es then None else V t k))) \<and> (\<forall>a. h_rtes c a = None \<longrightarrow> R' a = None)"
  using assms
proof (induction es arbitrary: c V)
  case Nil
  then show ?case by (intro exI [of _ "h_rtes c"]) simp
next
  case (Cons e es)
  obtain R1 where R1: "del_rte c (val e) = Some (c\<lparr>h_rtes := R1\<rparr>)" "refs_ok R1 (V(t := (V t)(nkey e := None)))"
      "\<forall>a. h_rtes c a = None \<longrightarrow> R1 a = None"
    using del_rte_ok [OF Cons.prems(1), of t "nkey e" "val e"] Cons.prems(2) by auto
  let ?V1 = "V(t := (V t)(nkey e := None))"
  have "\<forall>x\<in>set es. nkey x \<noteq> nkey e" using Cons.prems(3) by (metis distinct.simps(2) image_eqI list.map(2) list.set_map)
  then have "\<forall>x\<in>set es. ?V1 t (nkey x) = val x" using Cons.prems(2) by simp
  then obtain R2 where R2: "fold (\<lambda>e st. do { x \<leftarrow> st; del_rte x (val e) }) es (Some (c\<lparr>h_rtes := R1\<rparr>)) = Some (c\<lparr>h_rtes := R2\<rparr>)"
      "refs_ok R2 (?V1(t := (\<lambda>k. if k \<in> nkey ` set es then None else ?V1 t k)))" "\<forall>a. R1 a = None \<longrightarrow> R2 a = None"
    using Cons.IH [of "c\<lparr>h_rtes := R1\<rparr>" ?V1] R1(2) Cons.prems(3) by (auto simp del: fun_upd_apply)
  have "?V1(t := (\<lambda>k. if k \<in> nkey ` set es then None else ?V1 t k)) = V(t := (\<lambda>k. if k \<in> nkey ` set (e # es) then None else V t k))"
    by (auto simp: fun_eq_iff)
  with R1 R2 show ?case by (auto simp del: fun_upd_apply)
qed

text \<open>What a walk over one class of a table meets.\<close>

lemma num_eles:
  assumes "hash_ok h"
  shows "e \<in> set (class_eles h 0) \<Longrightarrow> hget h (KNum (nkey e)) = val e \<and> nkey e \<noteq> 0"
    and "distinct (map nkey (class_eles h 0))"
    and "k \<noteq> 0 \<Longrightarrow> hget h (KNum k) = Some a \<Longrightarrow> \<exists>e\<in>set (class_eles h 0). nkey e = k \<and> val e = Some a"
proof -
  have wf: "sym_wf h" using assms by (simp add: hash_ok_def)
  { assume e: "e \<in> set (class_eles h 0)"
    then have k: "ele_key e = KNum (nkey e)" "e \<in> set (concat (symlist h))" by (simp_all add: class_eles_def ele_key_def)
    with assms have "nkey e \<noteq> 0" unfolding hash_ok_def sym_keys_def by force
    with eles_get [OF wf k(2)] k show "hget h (KNum (nkey e)) = val e \<and> nkey e \<noteq> 0" by (simp add: hget_def) }
  have "distinct (map ele_key (class_eles h 0))" unfolding class_eles_def by (rule distinct_map_filter [OF eles_distinct [OF wf]])
  moreover have "map ele_key (class_eles h 0) = map (KNum \<circ> nkey) (class_eles h 0)" by (auto simp: class_eles_def ele_key_def)
  ultimately show "distinct (map nkey (class_eles h 0))" by (metis distinct_map map_map)
  { assume "k \<noteq> 0" "hget h (KNum k) = Some a"
    then obtain e where e: "e \<in> set (concat (symlist h))" "ele_key e = KNum k" "val e = Some a"
      using get_eles [OF wf, of "KNum k" a] by (auto simp: hget_def)
    then have "cls e = 0" "nkey e = k" by (auto simp: ele_key_def split: if_splits)
    with e show "\<exists>e\<in>set (class_eles h 0). nkey e = k \<and> val e = Some a" by (auto simp: class_eles_def) }
qed

lemma deref_all_ok:
  assumes inv: "rt_inv c" and t: "h_rts c ta = Some t"
  shows "\<exists>R'. deref_all c (rt_hash t) = Some (c\<lparr>h_rtes := R'\<rparr>) \<and> refs_ok R' ((rt_view (h_rts c))(ta := Map.empty)) \<and>
     (\<forall>a. h_rtes c a = None \<longrightarrow> R' a = None)"
proof -
  let ?V = "rt_view (h_rts c)" and ?es = "class_eles (rt_hash t) 0"
  have hk: "hash_ok (rt_hash t)" using rt_invD [OF inv] t by blast
  have "\<forall>e\<in>set ?es. ?V ta (nkey e) = val e" using num_eles(1) [OF hk] t by (simp add: rt_view_def)
  from deref_fold [OF rt_invD(1) [OF inv] this num_eles(2) [OF hk]] obtain R' where
    R': "deref_all c (rt_hash t) = Some (c\<lparr>h_rtes := R'\<rparr>)" "refs_ok R' (?V(ta := (\<lambda>k. if k \<in> nkey ` set ?es then None else ?V ta k)))"
      "\<forall>a. h_rtes c a = None \<longrightarrow> R' a = None"
    by (auto simp: deref_all_def foreach_class_fold)
  have "(\<lambda>k. if k \<in> nkey ` set ?es then None else ?V ta k) = Map.empty"
  proof
    fix k show "(if k \<in> nkey ` set ?es then None else ?V ta k) = None"
      using num_eles(3) [OF hk, of k] t by (cases "?V ta k") (auto simp: rt_view_def split: if_splits)
  qed
  with R' show ?thesis by auto
qed

lemma rt_drop_ok:
  assumes inv: "rt_inv c" and t: "h_rts c ta = Some t"
  shows "\<exists>c'. uta_rt_drop c (Some ta) = Some c' \<and> rt_inv c' \<and> h_rts c' = (h_rts c)(ta := None)"
proof -
  from deref_all_ok [OF assms] obtain R' where R': "deref_all c (rt_hash t) = Some (c\<lparr>h_rtes := R'\<rparr>)"
    "refs_ok R' ((rt_view (h_rts c))(ta := Map.empty))" "\<forall>a. h_rtes c a = None \<longrightarrow> R' a = None" by blast
  let ?c' = "c\<lparr>h_rtes := R', h_rts := (h_rts c)(ta := None)\<rparr>"
  have "rt_inv ?c'" using R' inv by (auto simp: rt_inv_def rt_view_del)
  with R' t show ?thesis by (intro exI [of _ ?c']) (simp add: uta_rt_drop_def)
qed

lemma prep_clear_ok:
  assumes inv: "rt_inv c" and t: "h_rts c ta = Some t"
  shows "\<exists>c' t'. prep_clear c (Some ta) = Some c' \<and> rt_inv c' \<and> h_rts c' = (h_rts c)(ta \<mapsto> t') \<and>
     (\<forall>k. hget (rt_hash t') k = None) \<and> rt_error t' = False \<and> ref_count t' = 0 \<and> rtable c' = rtable c \<and> old_rtable c' = old_rtable c \<and> h_next c' = h_next c \<and> h_eps c' = h_eps c"
proof -
  from deref_all_ok [OF assms] obtain R' where R': "deref_all c (rt_hash t) = Some (c\<lparr>h_rtes := R'\<rparr>)"
    "refs_ok R' ((rt_view (h_rts c))(ta := Map.empty))" "\<forall>a. h_rtes c a = None \<longrightarrow> R' a = None" by blast
  define t' where "t' = t\<lparr>rt_hash := rmr_sym_clear (rt_hash t), rt_error := False, ref_count := 0\<rparr>"
  let ?c' = "c\<lparr>h_rtes := R', h_rts := (h_rts c)(ta \<mapsto> t')\<rparr>"
  have h: "hash_ok (rt_hash t')" "hget (rt_hash t') k = None" for k
    using hash_clear [OF rt_invD(2) [OF inv t]] by (simp_all add: t'_def)
  have "rt_view (h_rts ?c') = (rt_view (h_rts c))(ta := Map.empty)" by (simp add: rt_view_upd h(2) cong: if_cong)
  then have "rt_inv ?c'" using R' inv h t by (auto simp: rt_inv_def)
  with R' t h show ?thesis by (intro exI [of _ ?c'] exI [of _ t']) (simp add: prep_clear_def put_rt_def t'_def)
qed

section \<open>Sharing entries with a clone\<close>

definition things :: "addr sym_ele list \<Rightarrow> (string option \<times> addr) list" where
  "things es = List.map_filter (\<lambda>e. map_option (\<lambda>a. (se_name e, a)) (val e)) es"

definition kpairs :: "addr sym_ele list \<Rightarrow> (symkey \<times> addr) list" where
  "kpairs es = List.map_filter (\<lambda>e. map_option (\<lambda>a. (ele_key e, a)) (val e)) es"

definition put_pairs :: "(symkey \<times> addr) list \<Rightarrow> addr sym_tab \<Rightarrow> addr sym_tab" where
  "put_pairs ps h = fold (\<lambda>p h. sym_putv h (fst p) (Some (snd p))) ps h"

lemma things_simps [simp]:
  "things [] = []" "val e = None \<Longrightarrow> things (e # es) = things es" "val e = Some a \<Longrightarrow> things (e # es) = (se_name e, a) # things es"
  "kpairs [] = []" "val e = None \<Longrightarrow> kpairs (e # es) = kpairs es" "val e = Some a \<Longrightarrow> kpairs (e # es) = (ele_key e, a) # kpairs es"
  by (simp_all add: things_def kpairs_def map_filter_simps)

lemma collect_fold:
  assumes "ok M_things"
  shows "\<exists>n. fold (\<lambda>e st. do { x \<leftarrow> st; collect_things ok (se_name e) (val e) x }) es
       (Some \<lparr>tl_error = False, tl_nalloc = nal, tl_things = Some xs\<rparr>) =
     Some \<lparr>tl_error = False, tl_nalloc = n, tl_things = Some (xs @ things es)\<rparr>"
proof (induction es arbitrary: nal xs)
  case (Cons e es)
  show ?case
  proof (cases "val e")
    case None
    with Cons [of nal xs] show ?thesis by (simp add: collect_things_def)
  next
    case (Some a)
    obtain n1 where "collect_things ok (se_name e) (val e) \<lparr>tl_error = False, tl_nalloc = nal, tl_things = Some xs\<rparr> =
        Some \<lparr>tl_error = False, tl_nalloc = n1, tl_things = Some (xs @ [(se_name e, a)])\<rparr>"
      using assms Some by (cases "nal \<le> 1 + int (length xs)") (simp_all add: collect_things_def extend_things_def Let_def)
    with Cons [of n1 "xs @ [(se_name e, a)]"] Some show ?thesis by simp
  qed
qed simp

lemma kpairs_in: "(k, a) \<in> set (kpairs es) \<longleftrightarrow> (\<exists>e\<in>set es. ele_key e = k \<and> val e = Some a)"
proof (induction es)
  case (Cons e es)
  then show ?case by (cases "val e") auto
qed simp

lemma kpairs_fst: "fst ` set (kpairs es) \<subseteq> ele_key ` set es"
  using kpairs_in [of _ _ es] by force

lemma kpairs_distinct: "distinct (map ele_key es) \<Longrightarrow> distinct (map fst (kpairs es))"
proof (induction es)
  case (Cons e es)
  then show ?case using kpairs_fst [of es] by (cases "val e") auto
qed simp

lemma put_pairs_ok:
  assumes "hash_ok h" and "distinct (map fst ps)" and "\<forall>p\<in>set ps. key_safe (fst p)"
  shows "hash_ok (put_pairs ps h) \<and>
    (key_safe k \<longrightarrow> hget (put_pairs ps h) k = (case map_of ps k of Some a \<Rightarrow> Some a | None \<Rightarrow> hget h k))"
  using assms
proof (induction ps arbitrary: h)
  case (Cons p ps)
  have h1: "hash_ok (sym_putv h (fst p) (Some (snd p)))"
    and g1: "key_safe k \<Longrightarrow> hget (sym_putv h (fst p) (Some (snd p))) k = (if k = fst p then Some (snd p) else hget h k)"
    using hash_putv [OF Cons.prems(1), of "fst p"] Cons.prems(3) by auto
  have "map_of ps (fst p) = None" using Cons.prems(2) by (simp add: map_of_eq_None_iff)
  with Cons.IH [OF h1] Cons.prems g1 show ?case
    by (cases p) (auto simp: put_pairs_def split: option.splits)
qed (simp add: put_pairs_def)

fun kcls :: "symkey \<Rightarrow> u32" where
  "kcls (KStr c n) = c" | "kcls (KNum k) = 0"

lemma class_pairs:
  assumes "hash_ok h"
  shows "distinct (map fst (kpairs (class_eles h sp)))" and "\<forall>p\<in>set (kpairs (class_eles h sp)). key_safe (fst p)"
    and "key_safe k \<Longrightarrow> map_of (kpairs (class_eles h sp)) k = (if kcls k = sp then hget h k else None)"
proof -
  have wf: "sym_wf h" using assms by (simp add: hash_ok_def)
  have "distinct (map ele_key (class_eles h sp))" unfolding class_eles_def by (rule distinct_map_filter [OF eles_distinct [OF wf]])
  then show d: "distinct (map fst (kpairs (class_eles h sp)))" by (rule kpairs_distinct)
  have safe: "key_safe (ele_key e)" if "e \<in> set (concat (symlist h))" for e
    using assms that unfolding hash_ok_def sym_keys_def ele_key_def by (cases "ele_key e") (force simp: ele_key_def split: if_splits)+
  show "\<forall>p\<in>set (kpairs (class_eles h sp)). key_safe (fst p)"
    using safe by (force simp: kpairs_in class_eles_def)
  have kc: "kcls (ele_key e) = cls e" for e :: "addr sym_ele" by (simp add: ele_key_def)
  assume k: "key_safe k"
  have "map_of (kpairs (class_eles h sp)) k = Some a \<longleftrightarrow> (if kcls k = sp then hget h k else None) = Some a" for a
  proof -
    have "map_of (kpairs (class_eles h sp)) k = Some a \<longleftrightarrow> (\<exists>e\<in>set (class_eles h sp). ele_key e = k \<and> val e = Some a)"
      using map_of_eq_Some_iff [OF d] kpairs_in by metis
    also have "\<dots> \<longleftrightarrow> (kcls k = sp \<and> hget h k = Some a)"
    proof
      assume "\<exists>e\<in>set (class_eles h sp). ele_key e = k \<and> val e = Some a"
      then obtain e where "e \<in> set (concat (symlist h))" "cls e = sp" "ele_key e = k" "val e = Some a" by (auto simp: class_eles_def)
      with eles_get [OF wf, of e] k kc [of e] show "kcls k = sp \<and> hget h k = Some a" by (auto simp: hget_def)
    next
      assume "kcls k = sp \<and> hget h k = Some a"
      with get_eles [OF wf k, of a] kc show "\<exists>e\<in>set (class_eles h sp). ele_key e = k \<and> val e = Some a"
        by (auto simp: hget_def class_eles_def)
    qed
    finally show ?thesis by simp
  qed
  then show "map_of (kpairs (class_eles h sp)) k = (if kcls k = sp then hget h k else None)"
    by (metis option.exhaust)
qed

lemma clone_named:
  assumes "ok M_symele" and "sp \<noteq> 0" and "h_rts c nrt = Some t"
    and "\<forall>e\<in>set es. cls e = sp \<and> se_name e \<noteq> None"
  shows "clone_things ok c nrt sp (things es) = Some (c\<lparr>h_rts := (h_rts c)(nrt \<mapsto> t\<lparr>rt_hash := put_pairs (kpairs es) (rt_hash t)\<rparr>)\<rparr>)"
  using assms(3,4)
proof (induction es arbitrary: c t)
  case Nil
  then show ?case by (simp add: put_pairs_def fun_upd_idem)
next
  case (Cons e es)
  show ?case
  proof (cases "val e")
    case None
    with Cons show ?thesis by simp
  next
    case (Some a)
    from Cons.prems(2) obtain n where n: "se_name e = Some n" "cls e = sp" by auto
    let ?t1 = "t\<lparr>rt_hash := sym_putv (rt_hash t) (KStr sp n) (Some a)\<rparr>"
    have key: "ele_key e = KStr sp n" using n assms(2) by (simp add: ele_key_def)
    have "clone_things ok (put_rt c nrt ?t1) nrt sp (things es) =
        Some (c\<lparr>h_rts := (h_rts c)(nrt \<mapsto> t\<lparr>rt_hash := put_pairs (kpairs es) (sym_putv (rt_hash t) (KStr sp n) (Some a))\<rparr>)\<rparr>)"
      using Cons.IH [of "put_rt c nrt ?t1" ?t1] Cons.prems(2) by (simp add: put_rt_def fun_upd_upd del: fun_upd_apply) (simp add: fun_upd_apply)
    with Some n key assms(1,2) Cons.prems(1) show ?thesis
      by (simp add: put_putv put_pairs_def del: fun_upd_apply)
  qed
qed

lemma clone_numbered:
  assumes "ok M_symele" and "h_rts c nrt = Some t" and "refs_ok (h_rtes c) V" and "s \<noteq> nrt"
    and "\<forall>e\<in>set es. cls e = 0 \<and> V s (nkey e) = val e \<and> V nrt (nkey e) = None" and "distinct (map nkey es)"
  shows "\<exists>R'. clone_things ok c nrt 0 (things es) =
       Some (c\<lparr>h_rtes := R', h_rts := (h_rts c)(nrt \<mapsto> t\<lparr>rt_hash := put_pairs (kpairs es) (rt_hash t)\<rparr>)\<rparr>) \<and>
     refs_ok R' (V(nrt := V nrt ++ (\<lambda>k. map_of (kpairs es) (KNum k)))) \<and> (\<forall>a. h_rtes c a = None \<longrightarrow> R' a = None)"
  using assms(2,3,5,6)
proof (induction es arbitrary: c t V)
  case Nil
  then show ?case by (intro exI [of _ "h_rtes c"]) (simp add: put_pairs_def fun_upd_idem)
next
  case (Cons e es)
  show ?case
  proof (cases "val e")
    case None
    with Cons show ?thesis by simp
  next
    case (Some a)
    let ?k = "nkey e"
    have key: "ele_key e = KNum ?k" using Cons.prems(3) by (simp add: ele_key_def)
    from refs_okD [OF Cons.prems(2), of s ?k a] Some Cons.prems(3) obtain r where r: "h_rtes c a = Some r" "rte_key r = ?k" by auto
    let ?r1 = "r\<lparr>rte_refs := rte_refs r + 1\<rparr>" and ?V1 = "V(nrt := (V nrt)(?k \<mapsto> a))"
      and ?t1 = "t\<lparr>rt_hash := sym_putv (rt_hash t) (KNum ?k) (Some a)\<rparr>"
    let ?c1 = "put_rt (put_rte c a ?r1) nrt ?t1"
    have ok1: "refs_ok ((h_rtes c)(a \<mapsto> ?r1)) ?V1"
      by (rule refs_ok_add [OF Cons.prems(2)]) (use r Cons.prems(3) in auto)
    have ne: "\<forall>x\<in>set es. nkey x \<noteq> ?k" using Cons.prems(4) by (metis distinct.simps(2) image_eqI list.map(2) list.set_map)
    have prem: "\<forall>x\<in>set es. cls x = 0 \<and> ?V1 s (nkey x) = val x \<and> ?V1 nrt (nkey x) = None" "h_rts ?c1 nrt = Some ?t1"
      using Cons.prems(3) ne assms(4) by (simp_all add: put_rt_def)
    obtain R' where R': "clone_things ok ?c1 nrt 0 (things es) =
        Some (c\<lparr>h_rtes := R', h_rts := (h_rts c)(nrt \<mapsto> t\<lparr>rt_hash := put_pairs (kpairs es) (sym_putv (rt_hash t) (KNum ?k) (Some a))\<rparr>)\<rparr>)"
       "refs_ok R' (?V1(nrt := ?V1 nrt ++ (\<lambda>k. map_of (kpairs es) (KNum k))))"
       "\<forall>a'. ((h_rtes c)(a \<mapsto> ?r1)) a' = None \<longrightarrow> R' a' = None"
      using Cons.IH [of ?c1 ?t1 ?V1] prem Cons.prems(4) ok1
      by (auto simp: put_rt_def put_rte_def simp del: fun_upd_apply)
    have "KNum ?k \<notin> ele_key ` set es" using ne Cons.prems(3) by (auto simp: ele_key_def)
    then have "map_of (kpairs es) (KNum ?k) = None" using kpairs_fst [of es] by (auto simp: map_of_eq_None_iff)
    then have "?V1(nrt := ?V1 nrt ++ (\<lambda>k. map_of (kpairs es) (KNum k))) = V(nrt := V nrt ++ (\<lambda>k. map_of (kpairs (e # es)) (KNum k)))"
      using Some key by (auto simp: fun_eq_iff map_add_def split: option.splits)
    moreover have "clone_things ok c nrt 0 (things (e # es)) = clone_things ok ?c1 nrt 0 (things es)"
      using Some r key assms(1) Cons.prems(1) by (simp add: map_putv)
    moreover have "\<forall>a'. h_rtes c a' = None \<longrightarrow> R' a' = None"
    proof (intro allI impI)
      fix a' assume "h_rtes c a' = None"
      moreover from this r have "a' \<noteq> a" by auto
      ultimately show "R' a' = None" using R'(3) by simp
    qed
    moreover have "put_pairs (kpairs (e # es)) (rt_hash t) = put_pairs (kpairs es) (sym_putv (rt_hash t) (KNum ?k) (Some a))"
      using Some key by (simp add: put_pairs_def)
    ultimately show ?thesis using R'(1,2) by (intro exI [of _ R']) (simp del: fun_upd_apply things_simps)
  qed
qed

lemma named_eles: "sym_wf h \<Longrightarrow> sp \<noteq> 0 \<Longrightarrow> \<forall>e\<in>set (class_eles h sp). cls e = sp \<and> se_name e \<noteq> None"
  using in_concat_nth [of _ "symlist h"] unfolding class_eles_def sym_wf_def chain_wf_def ele_wf_def by fastforce

lemma clone_space_ok:
  assumes inv: "rt_inv c" and ts: "h_rts c s = Some ts" and tn: "h_rts c n = Some tn" and sn: "s \<noteq> n"
    and ok: "ok M_things" "ok M_symele" and empty: "sp = 0 \<longrightarrow> (\<forall>k. k \<noteq> 0 \<longrightarrow> hget (rt_hash tn) (KNum k) = None)"
  shows "\<exists>c' t'. clone_space ok c s n sp nf = Some (Some n, c') \<and> rt_inv c' \<and> h_rts c' = (h_rts c)(n \<mapsto> t') \<and>
     (\<forall>k. key_safe k \<longrightarrow> hget (rt_hash t') k =
        (if kcls k = sp \<and> hget (rt_hash ts) k \<noteq> None then hget (rt_hash ts) k else hget (rt_hash tn) k)) \<and>
     rt_error t' = rt_error tn \<and> rtable c' = rtable c \<and> old_rtable c' = old_rtable c"
proof -
  let ?es = "class_eles (rt_hash ts) sp" and ?V = "rt_view (h_rts c)"
  let ?t' = "tn\<lparr>rt_hash := put_pairs (kpairs ?es) (rt_hash tn)\<rparr>"
  have hs: "hash_ok (rt_hash ts)" "hash_ok (rt_hash tn)" using rt_invD(2) [OF inv] ts tn by blast+
  note cp = class_pairs [where sp = sp, OF hs(1)]
  have h': "hash_ok (rt_hash ?t')" and g: "key_safe k \<Longrightarrow> hget (rt_hash ?t') k =
       (if kcls k = sp \<and> hget (rt_hash ts) k \<noteq> None then hget (rt_hash ts) k else hget (rt_hash tn) k)" for k
    using put_pairs_ok [OF hs(2) cp(1,2)] cp(3) [of k] by (auto split: option.splits)
  have run: "clone_space ok c s n sp nf = map_option (\<lambda>c1. (Some n, c1)) (clone_things ok c n sp (things ?es))"
    using collect_fold [where ok = ok and es = ?es and nal = 2048 and xs = "[]", OF ok(1)] ts tn ok
    by (cases "clone_things ok c n sp (things ?es)")
      (auto simp: clone_space_def foreach_class_fold Let_def)
  have view: "rt_view ((h_rts c)(n \<mapsto> ?t')) = ?V(n := ?V n ++ (\<lambda>k. if sp = 0 then map_of (kpairs ?es) (KNum k) else None))"
  proof (rule ext, rule ext)
    fix t k
    have "k \<noteq> 0 \<Longrightarrow> hget (rt_hash ?t') (KNum k) = (?V n ++ (\<lambda>k. if sp = 0 then map_of (kpairs ?es) (KNum k) else None)) k"
      using g [of "KNum k"] cp(3) [of "KNum k"] tn by (auto simp: rt_view_def map_add_def split: option.splits)
    moreover have "sp = 0 \<Longrightarrow> map_of (kpairs ?es) (KNum 0) = None"
      using cp(2) by (fastforce simp: map_of_eq_None_iff)
    ultimately show "rt_view ((h_rts c)(n \<mapsto> ?t')) t k = (?V(n := ?V n ++ (\<lambda>k. if sp = 0 then map_of (kpairs ?es) (KNum k) else None))) t k"
      by (cases "k = 0"; cases "t = n") (auto simp: rt_view_upd rt_view_def map_add_def)
  qed
  have "\<exists>R'. clone_things ok c n sp (things ?es) = Some (c\<lparr>h_rtes := R', h_rts := (h_rts c)(n \<mapsto> ?t')\<rparr>) \<and>
     refs_ok R' (rt_view ((h_rts c)(n \<mapsto> ?t'))) \<and> (\<forall>a. h_rtes c a = None \<longrightarrow> R' a = None)"
  proof (cases "sp = 0")
    case True
    have "\<forall>e\<in>set ?es. cls e = 0 \<and> ?V s (nkey e) = val e \<and> ?V n (nkey e) = None"
      using num_eles(1) [OF hs(1)] ts tn empty True by (auto simp: rt_view_def class_eles_def)
    from clone_numbered [where ok = ok, OF ok(2) tn rt_invD(1) [OF inv] sn this]
    show ?thesis using True num_eles(2) [OF hs(1)] unfolding view by (auto simp del: fun_upd_apply)
  next
    case False
    have "clone_things ok c n sp (things ?es) = Some (c\<lparr>h_rts := (h_rts c)(n \<mapsto> ?t')\<rparr>)"
      using named_eles [of "rt_hash ts" sp] hs(1) False by (intro clone_named [where ok = ok, OF ok(2)] tn) (auto simp: hash_ok_def)
    then show ?thesis using rt_invD(1) [OF inv] False unfolding view
      by (intro exI [of _ "h_rtes c"]) (simp add: map_add_def del: fun_upd_apply)
  qed
  then obtain R' where R': "clone_things ok c n sp (things ?es) = Some (c\<lparr>h_rtes := R', h_rts := (h_rts c)(n \<mapsto> ?t')\<rparr>)"
     "refs_ok R' (rt_view ((h_rts c)(n \<mapsto> ?t')))" "\<forall>a. h_rtes c a = None \<longrightarrow> R' a = None" by blast
  let ?c' = "c\<lparr>h_rtes := R', h_rts := (h_rts c)(n \<mapsto> ?t')\<rparr>"
  have "rt_inv ?c'" using R'(2,3) inv h' tn by (auto simp: rt_inv_def)
  with R'(1) run g show ?thesis by (intro exI [of _ ?c'] exI [of _ ?t']) (simp del: fun_upd_apply)
qed

section \<open>Preparing a new table\<close>

definition all_ok :: mallocs where
  "all_ok m = True"

text \<open>What \<^verbatim>\<open>uta_rt_clone\<close> gets as its destination: a fresh table, or an old one that has been emptied.\<close>

lemma rt_init_ok:
  assumes inv: "rt_inv c" and ok: "ok M_rt" "ok M_symtab" "ok M_symlist"
  shows "\<exists>c' t. uta_rt_init ok c = (Some (h_next c), c') \<and> rt_inv c' \<and> h_rts c' = (h_rts c)(h_next c \<mapsto> t) \<and>
     (\<forall>k. hget (rt_hash t) k = None) \<and> rt_error t = False \<and> rtable c' = rtable c \<and> old_rtable c' = old_rtable c"
proof -
  obtain h :: "addr sym_tab" where h: "rmr_sym_alloc ok RT_SIZE = Some h" using ok by (simp add: rmr_sym_alloc_def Let_def)
  note ha = hash_alloc [OF h]
  let ?t = "\<lparr>rt_error = False, rt_hash = h, rt_updates = 0, rt_mupdates = 0, ref_count = 0\<rparr>"
  let ?c' = "c\<lparr>h_next := Suc (h_next c), h_rts := (h_rts c)(h_next c \<mapsto> ?t)\<rparr>"
  have "rt_view (h_rts c) (h_next c) = Map.empty" using rt_invD(3) [OF inv] by (simp add: rt_view_def fun_eq_iff)
  then have "rt_view (h_rts ?c') = rt_view (h_rts c)" using ha by (simp add: rt_view_upd fun_upd_idem cong: if_cong)
  then have "rt_inv ?c'" using inv ha by (auto simp: rt_inv_def)
  with h ok ha show ?thesis by (intro exI [of _ ?c'] exI [of _ ?t]) (simp add: uta_rt_init_def new_addr_def put_rt_def)
qed

lemma rt_clone_ok:
  assumes inv: "rt_inv c" and ts: "h_rts c s = Some ts" and td: "h_rts c d = Some td" and sd: "s \<noteq> d"
    and ok: "ok M_things" "ok M_symele" and empty: "\<forall>k. hget (rt_hash td) k = None"
  shows "\<exists>c' t'. uta_rt_clone ok c (Some s) (Some d) all_spaces = Some (Some d, c') \<and> rt_inv c' \<and> h_rts c' = (h_rts c)(d \<mapsto> t') \<and>
     (\<forall>k. key_safe k \<longrightarrow> hget (rt_hash t') k =
        (if kcls k = RT_ME_SPACE \<or> all_spaces \<and> kcls k = RT_MT_SPACE then hget (rt_hash ts) k else None)) \<and>
     rt_error t' = rt_error td \<and> rtable c' = rtable c \<and> old_rtable c' = old_rtable c"
proof -
  from clone_space_ok [where ok = ok and sp = RT_ME_SPACE and nf = False, OF inv ts td sd ok] obtain c1 t1 where
    c1: "clone_space ok c s d RT_ME_SPACE False = Some (Some d, c1)" "rt_inv c1" "h_rts c1 = (h_rts c)(d \<mapsto> t1)"
      "\<forall>k. key_safe k \<longrightarrow> hget (rt_hash t1) k = (if kcls k = RT_ME_SPACE then hget (rt_hash ts) k else None)"
      "rt_error t1 = rt_error td" "rtable c1 = rtable c" "old_rtable c1 = old_rtable c"
    using empty by (auto simp del: fun_upd_apply)
  show ?thesis
  proof (cases all_spaces)
    case False
    with c1 show ?thesis by (intro exI [of _ c1] exI [of _ t1]) (simp add: uta_rt_clone_def rt_clone_space_def del: fun_upd_apply)
  next
    case True
    have s1: "h_rts c1 s = Some ts" "h_rts c1 d = Some t1" using c1(3) ts sd by simp_all
    have e1: "\<forall>k. k \<noteq> 0 \<longrightarrow> hget (rt_hash t1) (KNum k) = None" using c1(4) by simp
    from clone_space_ok [where ok = ok and sp = RT_MT_SPACE and nf = False, OF c1(2) s1 sd ok] obtain c2 t2 where
      c2: "clone_space ok c1 s d RT_MT_SPACE False = Some (Some d, c2)" "rt_inv c2" "h_rts c2 = (h_rts c1)(d \<mapsto> t2)"
      "\<forall>k. key_safe k \<longrightarrow> hget (rt_hash t2) k = (if kcls k = RT_MT_SPACE \<and> hget (rt_hash ts) k \<noteq> None then hget (rt_hash ts) k else hget (rt_hash t1) k)"
      "rt_error t2 = rt_error t1" "rtable c2 = rtable c1" "old_rtable c2 = old_rtable c1"
      using e1 by (auto simp del: fun_upd_apply)
    have "\<forall>k. key_safe k \<longrightarrow> hget (rt_hash t2) k =
        (if kcls k = RT_ME_SPACE \<or> all_spaces \<and> kcls k = RT_MT_SPACE then hget (rt_hash ts) k else None)"
      using c2(4) c1(4) True by auto
    with c1 c2 True show ?thesis
      by (intro exI [of _ c2] exI [of _ t2]) (simp add: uta_rt_clone_def rt_clone_space_def del: fun_upd_apply)
  qed
qed

lemma prep_new_rt_ok:
  assumes inv: "rt_inv c" and r: "rtable c = Some s" and ts: "h_rts c s = Some ts"
    and old: "old_rtable c = Some d \<Longrightarrow> d \<noteq> s \<and> h_rts c d \<noteq> None"
    and ok: "ok M_rt" "ok M_symtab" "ok M_symlist" "ok M_things" "ok M_symele"
    and d: "d = (case old_rtable c of Some o' \<Rightarrow> o' | None \<Rightarrow> h_next c)"
  shows "\<exists>c' t'. prep_new_rt ok c all_spaces = Some (d, c') \<and> rt_inv c' \<and> h_rts c' = (h_rts c)(d \<mapsto> t') \<and> d \<noteq> s \<and>
     (\<forall>k. key_safe k \<longrightarrow> hget (rt_hash t') k =
        (if kcls k = RT_ME_SPACE \<or> all_spaces \<and> kcls k = RT_MT_SPACE then hget (rt_hash ts) k else None)) \<and>
     rt_error t' = False \<and> ref_count t' = 0 \<and> rtable c' = Some s \<and> old_rtable c' = None"
proof -
  have inv0: "rt_inv (c\<lparr>old_rtable := None\<rparr>)" using inv by (simp add: rt_inv_def)
  have "\<exists>c1 td. prep_clear (c\<lparr>old_rtable := None\<rparr>) (old_rtable c) \<bind> (\<lambda>c1. uta_rt_clone ok c1 (rtable c1) (old_rtable c) all_spaces)
      = uta_rt_clone ok c1 (Some s) (Some d) all_spaces \<and> rt_inv c1 \<and> h_rts c1 = (h_rts c)(d \<mapsto> td) \<and> (\<forall>k. hget (rt_hash td) k = None) \<and>
      rt_error td = False \<and> rtable c1 = Some s \<and> old_rtable c1 = None \<and> d \<noteq> s"
  proof (cases "old_rtable c")
    case None
    from rt_init_ok [where ok = ok, OF inv0 ok(1-3)] obtain c1 td where
      c1: "uta_rt_init ok (c\<lparr>old_rtable := None\<rparr>) = (Some (h_next c), c1)" "rt_inv c1" "h_rts c1 = (h_rts c)(h_next c \<mapsto> td)"
        "\<forall>k. hget (rt_hash td) k = None" "rt_error td = False" "rtable c1 = Some s" "old_rtable c1 = None" using r by auto
    have "h_next c \<noteq> s" using rt_invD(3) [OF inv, of "h_next c"] ts by auto
    moreover have "uta_rt_clone ok (c\<lparr>old_rtable := None\<rparr>) (Some s) None all_spaces = uta_rt_clone ok c1 (Some s) (Some d) all_spaces"
      using c1 None d by (simp add: uta_rt_clone_def)
    ultimately show ?thesis using c1 None d r
      by (intro exI [of _ c1] exI [of _ td]) (auto simp: prep_clear_def simp del: fun_upd_apply)
  next
    case (Some o')
    with old d have o': "o' = d" "d \<noteq> s" "h_rts c d \<noteq> None" by auto
    then obtain t0 where t0: "h_rts (c\<lparr>old_rtable := None\<rparr>) d = Some t0" by auto
    from prep_clear_ok [OF inv0 t0] obtain c1 td where
      c1: "prep_clear (c\<lparr>old_rtable := None\<rparr>) (Some d) = Some c1" "rt_inv c1" "h_rts c1 = (h_rts c)(d \<mapsto> td)"
        "\<forall>k. hget (rt_hash td) k = None" "rt_error td = False" "rtable c1 = Some s" "old_rtable c1 = None" using r by auto
    with c1 Some o' show ?thesis
      by (intro exI [of _ c1] exI [of _ td]) (simp del: fun_upd_apply)
  qed
  then obtain c1 td where c1: "prep_clear (c\<lparr>old_rtable := None\<rparr>) (old_rtable c) \<bind> (\<lambda>c1. uta_rt_clone ok c1 (rtable c1) (old_rtable c) all_spaces)
      = uta_rt_clone ok c1 (Some s) (Some d) all_spaces" "rt_inv c1" "h_rts c1 = (h_rts c)(d \<mapsto> td)" "\<forall>k. hget (rt_hash td) k = None"
      "rt_error td = False" "rtable c1 = Some s" "old_rtable c1 = None" "d \<noteq> s" by blast
  have "h_rts c1 s = Some ts" "h_rts c1 d = Some td" using c1(3,8) ts by auto
  from rt_clone_ok [where ok = ok and all_spaces = all_spaces, OF c1(2) this _ ok(4,5) c1(4)] c1(8) obtain c2 t2 where
    c2: "uta_rt_clone ok c1 (Some s) (Some d) all_spaces = Some (Some d, c2)" "rt_inv c2" "h_rts c2 = (h_rts c1)(d \<mapsto> t2)"
      "\<forall>k. key_safe k \<longrightarrow> hget (rt_hash t2) k =
        (if kcls k = RT_ME_SPACE \<or> all_spaces \<and> kcls k = RT_MT_SPACE then hget (rt_hash ts) k else None)"
      "rt_error t2 = rt_error td" "rtable c2 = Some s" "old_rtable c2 = None" using c1(6,7) by auto
  let ?t' = "t2\<lparr>ref_count := 0\<rparr>"
  let ?c' = "c2\<lparr>h_rts := (h_rts c)(d \<mapsto> ?t')\<rparr>"
  have hr: "h_rts c2 = (h_rts c)(d \<mapsto> t2)" using c2(3) c1(3) by simp
  have t2: "h_rts c2 d = Some t2" using hr by simp
  from rt_inv_put [OF c2(2) t2, of ?t'] rt_invD(2) [OF c2(2) t2] hr have inv': "rt_inv ?c'" by (simp add: put_rt_def)
  have "prep_new_rt ok c all_spaces = Some (d, ?c')"
    using c1(1) c2(1) hr by (cases "prep_clear (c\<lparr>old_rtable := None\<rparr>) (old_rtable c)") (auto simp: prep_new_rt_def put_rt_def)
  with inv' c2 c1 show ?thesis by (intro exI [of _ ?c'] exI [of _ ?t']) (simp del: fun_upd_apply)
qed

section \<open>Look-up\<close>

lemma key_nonzero: "-(2^31) \<le> s \<Longrightarrow> s < 2^31 \<Longrightarrow> -(2^31) \<le> m \<Longrightarrow> m < 2^31 \<Longrightarrow> (s, m) \<noteq> (0, 0) \<Longrightarrow> build_rt_key s m \<noteq> 0"
  using build_rt_key_eq [of s m 0 0] by (simp add: build_rt_key_def)

definition rt_find :: "'a uta_ctx_scheme \<Rightarrow> addr \<Rightarrow> int \<Rightarrow> int \<Rightarrow> addr option" where
  "rt_find c ta sid mtype = rt_view (h_rts c) ta (build_rt_key sid mtype)"

lemma get_rte_ok:
  assumes inv: "rt_inv c" and t: "h_rts c ta = Some t"
    and rng: "-(2^31) \<le> sid" "sid < 2^31" "-(2^31) \<le> mt" "mt < 2^31" "(sid, mt) \<noteq> (0, 0)"
  shows "\<exists>c'. uta_get_rte c (Some ta) sid mt try_alt =
       Some (if rt_find c ta sid mt \<noteq> None \<or> \<not> try_alt \<or> sid = UNSET_SUBID then rt_find c ta sid mt else rt_find c ta UNSET_SUBID mt, c') \<and>
     rt_inv c' \<and> rt_view (h_rts c') = rt_view (h_rts c) \<and> h_rtes c' = h_rtes c \<and>
     (\<exists>h. c' = put_rt c ta (t\<lparr>rt_hash := h\<rparr>) \<and> hash_ok h \<and> (\<forall>k. hget h k = hget (rt_hash t) k))"
proof -
  let ?k = "build_rt_key sid mt" and ?k' = "build_rt_key UNSET_SUBID mt"
  have nz: "?k \<noteq> 0" "?k' \<noteq> 0" using key_nonzero [OF rng] key_nonzero [of UNSET_SUBID mt] rng by auto
  define h1 where "h1 = snd (rmr_sym_pull (rt_hash t) ?k)"
  define h2 where "h2 = snd (rmr_sym_pull h1 ?k')"
  have p1: "hash_ok h1" "\<And>k. hget h1 k = hget (rt_hash t) k" "rmr_sym_pull (rt_hash t) ?k = (rt_find c ta sid mt, h1)"
    using hash_pull [OF rt_invD(2) [OF inv t] nz(1)] nz(1) t by (simp_all add: h1_def rt_find_def rt_view_def prod_eq_iff)
  have p2: "hash_ok h2" "\<And>k. hget h2 k = hget (rt_hash t) k" "rmr_sym_pull h1 ?k' = (rt_find c ta UNSET_SUBID mt, h2)"
    using hash_pull [OF p1(1) nz(2)] nz(2) t p1(2) by (simp_all add: h2_def rt_find_def rt_view_def prod_eq_iff)
  let ?h = "if rt_find c ta sid mt \<noteq> None \<or> \<not> try_alt \<or> sid = UNSET_SUBID then h1 else h2"
  have h: "hash_ok ?h" "\<And>k. hget ?h k = hget (rt_hash t) k" using p1 p2 by auto
  have "rt_inv (put_rt c ta (t\<lparr>rt_hash := ?h\<rparr>))" using rt_inv_put [OF inv t, of "t\<lparr>rt_hash := ?h\<rparr>"] h by simp
  moreover have "rt_view (h_rts (put_rt c ta (t\<lparr>rt_hash := ?h\<rparr>))) = rt_view (h_rts c)"
    using rt_view_same [of "h_rts c" ta t "t\<lparr>rt_hash := ?h\<rparr>"] t h by (simp add: put_rt_def)
  moreover have "h_rtes (put_rt c ta (t\<lparr>rt_hash := ?h\<rparr>)) = h_rtes c" by (simp add: put_rt_def)
  moreover have "uta_get_rte c (Some ta) sid mt try_alt = Some (if rt_find c ta sid mt \<noteq> None \<or> \<not> try_alt \<or> sid = UNSET_SUBID
      then rt_find c ta sid mt else rt_find c ta UNSET_SUBID mt, put_rt c ta (t\<lparr>rt_hash := ?h\<rparr>))"
    using p1(3) p2(3) t by (cases "sid = UNSET_SUBID") (simp_all add: uta_get_rte_def Let_def)
  ultimately show ?thesis using h by blast
qed

section \<open>A concrete routing state\<close>

definition demo_hash :: "addr sym_tab" where
  "demo_hash = \<lparr>symlist = replicate 11 [], inhabitants = 0, deaths = 0, st_size = 11\<rparr>"

definition demo_uta :: uta_ctx where
  "demo_uta = rcv_ctx.extend demo_rcv \<lparr>h_eps = Map.empty, h_rtes = Map.empty,
     h_rts = [0 \<mapsto> \<lparr>rt_error = False, rt_hash = demo_hash, rt_updates = 0, rt_mupdates = 0, ref_count = 0\<rparr>],
     h_next = 1, ephash = demo_hash, rtable = Some 0, old_rtable = None, new_rtable = None, fd2ep = Some demo_hash, ip_list = None, si_ctx = demo_gi\<rparr>"

lemma demo_hash_ok: "hash_ok demo_hash" "hget demo_hash k = None"
proof -
  have "rmr_sym_alloc all_ok 11 = Some demo_hash" by (simp add: rmr_sym_alloc_def all_ok_def demo_hash_def)
  from hash_alloc [OF this] show "hash_ok demo_hash" "hget demo_hash k = None" by auto
qed

lemma demo_uta_fields:
  "h_rts demo_uta = [0 \<mapsto> \<lparr>rt_error = False, rt_hash = demo_hash, rt_updates = 0, rt_mupdates = 0, ref_count = 0\<rparr>]"
  "h_rtes demo_uta = Map.empty" "h_next demo_uta = 1" "h_eps demo_uta = Map.empty" "rtable demo_uta = Some 0" "old_rtable demo_uta = None"
  by (simp_all add: demo_uta_def rcv_ctx.defs)

lemma demo_uta_inv: "rt_inv demo_uta"
proof -
  have "rt_view (h_rts demo_uta) = (\<lambda>_. Map.empty)" by (auto simp: rt_view_def demo_uta_fields demo_hash_ok fun_eq_iff split: option.splits if_splits)
  then show ?thesis by (auto simp: rt_inv_def demo_uta_fields refs_ok_def demo_hash_ok split: if_splits)
qed

section \<open>Properties\<close>

text \<open>
  C18. Adding an entry and looking it up.  After \<^verbatim>\<open>uta_add_rte\<close> the look-up of the same subscription
  and type finds the new entry; every other look-up finds what it found before, except that a
  look-up which may fall back to the type alone finds an entry that was added without a
  subscription when there is none for its own.  The reference counts stay exact.
\<close>

theorem add_rte_get_rte:
  assumes inv: "rt_inv c" and t: "h_rts c ta = Some t"
    and rng: "-(2^31) \<le> sid" "sid < 2^31" "-(2^31) \<le> mt" "mt < 2^31" "(sid, mt) \<noteq> (0, 0)"
    and rng': "-(2^31) \<le> sid'" "sid' < 2^31" "-(2^31) \<le> mt'" "mt' < 2^31" "(sid', mt') \<noteq> (0, 0)"
  shows "\<exists>a c1 c2. uta_add_rte all_ok c (Some ta) (build_rt_key sid mt) nrr = Some (Some a, c1) \<and> rt_inv c1 \<and> h_rtes c a = None \<and>
     uta_get_rte c1 (Some ta) sid' mt' try_alt =
       Some (if (sid', mt') = (sid, mt) then Some a
             else if rt_find c ta sid' mt' \<noteq> None \<or> \<not> try_alt \<or> sid' = UNSET_SUBID then rt_find c ta sid' mt'
             else if (sid, mt) = (UNSET_SUBID, mt') then Some a else rt_find c ta UNSET_SUBID mt', c2) \<and> rt_inv c2"
proof -
  from add_rte_ok [where ok = all_ok and nrr = nrr, OF inv t key_nonzero [OF rng]]
  obtain c1 where c1: "uta_add_rte all_ok c (Some ta) (build_rt_key sid mt) nrr = Some (Some (h_next c), c1)" "rt_inv c1"
      "rt_view (h_rts c1) = (rt_view (h_rts c))(ta := (rt_view (h_rts c) ta)(build_rt_key sid mt \<mapsto> h_next c))"
    by (auto simp: all_ok_def)
  have f: "rt_find c1 ta s m = (if (s, m) = (sid, mt) then Some (h_next c) else rt_find c ta s m)"
    if "-(2^31) \<le> s" "s < 2^31" "-(2^31) \<le> m" "m < 2^31" for s m
    using build_rt_key_eq [OF that rng(1-4)] c1(3) by (simp add: rt_find_def)
  have "rt_view (h_rts c1) ta (build_rt_key sid mt) \<noteq> None" using c1(3) by simp
  then have "h_rts c1 ta \<noteq> None" unfolding rt_view_def by (rule contrapos_nn) simp
  then obtain t1 where t1: "h_rts c1 ta = Some t1" by blast
  from get_rte_ok [OF c1(2) t1 rng', of try_alt] obtain c2 where c2: "uta_get_rte c1 (Some ta) sid' mt' try_alt =
       Some (if rt_find c1 ta sid' mt' \<noteq> None \<or> \<not> try_alt \<or> sid' = UNSET_SUBID then rt_find c1 ta sid' mt' else rt_find c1 ta UNSET_SUBID mt', c2)"
      "rt_inv c2" by blast
  have fresh: "h_rtes c (h_next c) = None" using rt_invD(3) [OF inv] by simp
  have f1: "rt_find c1 ta sid' mt' = (if (sid', mt') = (sid, mt) then Some (h_next c) else rt_find c ta sid' mt')" using f rng' by blast
  have f2: "rt_find c1 ta UNSET_SUBID mt' = (if (UNSET_SUBID, mt') = (sid, mt) then Some (h_next c) else rt_find c ta UNSET_SUBID mt')"
    by (rule f) (use rng' in simp_all)
  have "(if rt_find c1 ta sid' mt' \<noteq> None \<or> \<not> try_alt \<or> sid' = UNSET_SUBID then rt_find c1 ta sid' mt' else rt_find c1 ta UNSET_SUBID mt') =
      (if (sid', mt') = (sid, mt) then Some (h_next c)
       else if rt_find c ta sid' mt' \<noteq> None \<or> \<not> try_alt \<or> sid' = UNSET_SUBID then rt_find c ta sid' mt'
       else if (sid, mt) = (UNSET_SUBID, mt') then Some (h_next c) else rt_find c ta UNSET_SUBID mt')"
    unfolding f1 f2 by (simp split: if_split)
  from c2(1) [unfolded this] c1(1,2) c2(2) fresh show ?thesis by blast
qed

theorem add_rte_get_rte_witness:
  "\<exists>a c1 c2. uta_add_rte all_ok demo_uta (Some 0) (build_rt_key UNSET_SUBID 7) 2 = Some (Some a, c1) \<and>
     uta_get_rte c1 (Some 0) 5 7 True = Some (Some a, c2)"
proof -
  have "rt_find demo_uta 0 5 7 = None" by (simp add: rt_find_def rt_view_def demo_uta_fields demo_hash_ok)
  then show ?thesis
    using add_rte_get_rte [OF demo_uta_inv, of 0 _ UNSET_SUBID 7 5 7 2 True] by (auto simp: demo_uta_fields)
qed

lemma rte_alive_iff: "rt_inv c \<Longrightarrow> h_rtes c a \<noteq> None \<longleftrightarrow> (\<exists>t k. rt_view (h_rts c) t k = Some a)"
  using rt_invD(1) [of c] unfolding refs_ok_def ref_set_def by fastforce

text \<open>
  C16. Dropping a table.  \<^verbatim>\<open>uta_rt_drop\<close> on a table of a context with exact reference counts never
  touches a freed entry; it keeps the counts exact, removes the table and no other, and frees
  exactly the entries that no remaining table references.
\<close>

theorem rt_drop_frees_unshared:
  assumes "rt_inv c" and "h_rts c ta = Some t"
  shows "\<exists>c'. uta_rt_drop c (Some ta) = Some c' \<and> rt_inv c' \<and> h_rts c' = (h_rts c)(ta := None) \<and>
     (\<forall>a. h_rtes c' a \<noteq> None \<longleftrightarrow> (\<exists>t' k. t' \<noteq> ta \<and> rt_view (h_rts c) t' k = Some a))"
proof -
  from rt_drop_ok [OF assms] obtain c' where c': "uta_rt_drop c (Some ta) = Some c'" "rt_inv c'" "h_rts c' = (h_rts c)(ta := None)" by blast
  have "h_rtes c' a \<noteq> None \<longleftrightarrow> (\<exists>t' k. t' \<noteq> ta \<and> rt_view (h_rts c) t' k = Some a)" for a
    unfolding rte_alive_iff [OF c'(2)] c'(3) rt_view_del by auto
  with c' show ?thesis by blast
qed

theorem rt_drop_frees_unshared_witness:
  "\<exists>c'. uta_rt_drop demo_uta (Some 0) = Some c' \<and> h_rts c' 0 = None \<and> h_rtes c' = Map.empty"
proof -
  have "h_rts demo_uta 0 \<noteq> None" by (simp add: demo_uta_fields)
  then obtain t where t: "h_rts demo_uta 0 = Some t" by blast
  from rt_drop_frees_unshared [OF demo_uta_inv t] obtain c' where c': "uta_rt_drop demo_uta (Some 0) = Some c'" "h_rts c' = (h_rts demo_uta)(0 := None)"
     "\<forall>a. h_rtes c' a \<noteq> None \<longleftrightarrow> (\<exists>t' k. t' \<noteq> 0 \<and> rt_view (h_rts demo_uta) t' k = Some a)" by blast
  then have "h_rtes c' a = None" for a by (auto simp: rt_view_def demo_uta_fields split: if_splits)
  with c' show ?thesis by (auto simp: fun_eq_iff)
qed

text \<open>
  C17. Preparing a new table.  With an active table and, possibly, a retired one, \<^verbatim>\<open>prep_new_rt\<close>
  returns the retired table emptied, or else a fresh one; the active table is unchanged and is
  not the one returned; the new table has the owners of all managed entities of the active table
  and, when all spaces are copied, references its entries as well, and nothing else.  No freed
  entry is touched and the reference counts stay exact.
\<close>

theorem prep_new_rt_shares:
  assumes "rt_inv c" and "rtable c = Some s" and "h_rts c s = Some ts"
    and "\<And>d. old_rtable c = Some d \<Longrightarrow> d \<noteq> s \<and> h_rts c d \<noteq> None"
  shows "\<exists>d c' t'. prep_new_rt all_ok c all_spaces = Some (d, c') \<and> rt_inv c' \<and> d \<noteq> s \<and>
     d = (case old_rtable c of Some o' \<Rightarrow> o' | None \<Rightarrow> h_next c) \<and> h_rts c' = (h_rts c)(d \<mapsto> t') \<and>
     (\<forall>k. key_safe k \<longrightarrow> hget (rt_hash t') k =
        (if kcls k = RT_ME_SPACE \<or> all_spaces \<and> kcls k = RT_MT_SPACE then hget (rt_hash ts) k else None)) \<and>
     rt_error t' = False \<and> ref_count t' = 0 \<and> rtable c' = Some s \<and> old_rtable c' = None"
proof -
  have "\<exists>d. d = (case old_rtable c of Some o' \<Rightarrow> o' | None \<Rightarrow> h_next c)" by blast
  then obtain d where d: "d = (case old_rtable c of Some o' \<Rightarrow> o' | None \<Rightarrow> h_next c)" ..
  have ok: "all_ok M_rt" "all_ok M_symtab" "all_ok M_symlist" "all_ok M_things" "all_ok M_symele" by (simp_all add: all_ok_def)
  show ?thesis using prep_new_rt_ok [where ok = all_ok and all_spaces = all_spaces, OF assms(1-4) ok d] d by blast
qed

theorem prep_new_rt_shares_witness:
  "\<exists>c' t'. prep_new_rt all_ok demo_uta True = Some (1, c') \<and> h_rts c' 1 = Some t' \<and> rtable c' = Some 0"
  using prep_new_rt_shares [OF demo_uta_inv, of 0 _ True] by (auto simp: demo_uta_fields)

section \<open>Round robin\<close>

text \<open>The endpoints that \<open>n\<close> successive calls select.\<close>

fun rr_run :: "rt_env \<Rightarrow> 'a uta_ctx_scheme \<Rightarrow> addr option \<Rightarrow> int \<Rightarrow> nat \<Rightarrow> (addr option \<times> nat) list option" where
  "rr_run env c rte grp 0 = Some []"
| "rr_run env c rte grp (Suc n) = do {
     r \<leftarrow> uta_epsock_rr env c rte grp;
     rest \<leftarrow> rr_run env (snd r) rte grp n;
     Some ((snd (snd (snd (fst r))), fst (fst r)) # rest) }"

definition rr_ready :: "'a uta_ctx_scheme \<Rightarrow> addr \<Rightarrow> int \<Rightarrow> addr list \<Rightarrow> nat \<Rightarrow> bool" where
  "rr_ready c ra grp eps i \<longleftrightarrow> (\<exists>r rrg. h_rtes c ra = Some r \<and> 0 \<le> grp \<and> grp < nrrgroups r \<and> int (length (rrgroups r)) = nrrgroups r \<and>
     rrgroups r ! nat grp = Some rrg \<and> nused rrg = length eps \<and> length eps \<le> length (epts rrg) \<and>
     take (length eps) (epts rrg) = map Some eps \<and> unat (ep_idx rrg) = i) \<and>
     (\<forall>a\<in>set eps. \<exists>e. h_eps c a = Some e \<and> ep_open e)"

text \<open>One call: a group of one endpoint does not use the index, the index of a larger group moves on
  by one and wraps around at 65536.\<close>

lemma rr_step:
  assumes ready: "rr_ready c ra grp eps i" and n: "eps \<noteq> []"
  shows "\<exists>c' more s. uta_epsock_rr env c (Some ra) grp = Some ((i mod length eps + 1, more, Some s, Some (eps ! (i mod length eps))), c') \<and>
     rr_ready c' ra grp eps (if length eps = 1 then i else (i + 1) mod 65536)"
proof -
  from ready obtain r rrg where r: "h_rtes c ra = Some r" "0 \<le> grp" "grp < nrrgroups r" "int (length (rrgroups r)) = nrrgroups r"
     "rrgroups r ! nat grp = Some rrg" "nused rrg = length eps" "length eps \<le> length (epts rrg)"
     "take (length eps) (epts rrg) = map Some eps" "unat (ep_idx rrg) = i"
    and op: "\<forall>a\<in>set eps. \<exists>e. h_eps c a = Some e \<and> ep_open e" unfolding rr_ready_def by blast
  let ?j = "i mod length eps"
  have j: "?j < length eps" using n by simp
  then have j': "\<not> length (epts rrg) \<le> ?j" using r(7) by linarith
  from j have ep: "epts rrg ! ?j = Some (eps ! ?j)" using r(8) by (metis nth_map nth_take)
  from j op obtain e where e: "h_eps c (eps ! ?j) = Some e" "ep_open e" by (meson nth_mem)
  let ?r1 = "r\<lparr>rrgroups := (rrgroups r)[nat grp := Some (rrg\<lparr>ep_idx := ep_idx rrg + 1\<rparr>)]\<rparr>"
  let ?c1 = "if length eps = 1 then c else put_rte c ra ?r1"
  have "h_eps ?c1 (eps ! ?j) = Some e" using e(1) by (auto simp: put_rte_def)
  then have so: "ep_socket env ?c1 (eps ! ?j) True = Some (Some (nn_sock e), ?c1)" unfolding ep_socket_def using e(2) by simp
  have g: "nat grp < length (rrgroups r)" using r(2-4) by linarith
  obtain more where more: "(if grp < nrrgroups r - 1
      then (if nat grp + 1 < length (rrgroups r) then Some (rrgroups r ! (nat grp + 1) \<noteq> None) else None) else Some False) = Some more"
  proof (cases "grp < nrrgroups r - 1")
    case True
    then have "nat grp + 1 < length (rrgroups r)" using r(2,4) by linarith
    with True that show ?thesis by simp
  qed simp
  have "uta_epsock_rr env c (Some ra) grp = Some ((?j + 1, more, Some (nn_sock e), Some (eps ! ?j)), ?c1)"
  proof (cases "length eps = 1")
    case True
    then have "epts rrg \<noteq> []" "epts rrg ! 0 = Some (eps ! 0)" "ep_socket env c (eps ! 0) True = Some (Some (nn_sock e), c)" using ep so j' by auto
    then show ?thesis using r(1-6) g more True unfolding uta_epsock_rr_def by simp
  next
    case False
    then show ?thesis using r(1-6,9) g more so ep n j' unfolding uta_epsock_rr_def Let_def by simp
  qed
  moreover have "rr_ready ?c1 ra grp eps (if length eps = 1 then i else (i + 1) mod 65536)"
  proof -
    have "unat (ep_idx rrg + 1) = (i + 1) mod 65536" using r(9) by (simp add: unat_word_ariths)
    then show ?thesis using ready r g op unfolding rr_ready_def put_rte_def by auto
  qed
  ultimately show ?thesis by blast
qed

lemma rr_run_eq:
  assumes "rr_ready c ra grp eps i" and "eps \<noteq> []"
  shows "\<exists>sel. rr_run env c (Some ra) grp k = Some sel \<and> map fst sel = map (\<lambda>j. Some (eps ! ((i + j) mod 65536 mod length eps))) [0..<k] \<and> 0 \<notin> snd ` set sel"
  using assms(1)
proof (induction k arbitrary: c i)
  case (Suc k)
  obtain w :: u16 where "unat w = i" using Suc.prems by (auto simp: rr_ready_def)
  then have i: "i mod 65536 = i" using unsigned_less [of w, where 'a = nat] by simp
  let ?i = "if length eps = 1 then i else (i + 1) mod 65536"
  from rr_step [OF Suc.prems assms(2), of env] obtain c' more s where
    st: "uta_epsock_rr env c (Some ra) grp = Some ((i mod length eps + 1, more, Some s, Some (eps ! (i mod length eps))), c')" "rr_ready c' ra grp eps ?i" by blast
  from Suc.IH [OF st(2)] obtain sel where
    sel: "rr_run env c' (Some ra) grp k = Some sel" "map fst sel = map (\<lambda>j. Some (eps ! ((?i + j) mod 65536 mod length eps))) [0..<k]" "0 \<notin> snd ` set sel" by blast
  have "(?i + j) mod 65536 mod length eps = (i + Suc j) mod 65536 mod length eps" for j
  proof -
    have "((i + 1) mod 65536 + j) mod 65536 = (i + 1 + j) mod 65536" by (rule mod_add_left_eq)
    then show ?thesis by (cases "length eps = 1") simp_all
  qed
  moreover have "map (\<lambda>j. Some (eps ! ((i + j) mod 65536 mod length eps))) [0..<Suc k] =
      Some (eps ! (i mod length eps)) # map (\<lambda>j. Some (eps ! ((i + Suc j) mod 65536 mod length eps))) [0..<k]"
    using i by (simp add: upt_conv_Cons map_Suc_upt [symmetric] del: upt_Suc map_Suc_upt)
  ultimately show ?case using st(1) sel by auto
qed simp

lemma mset_rotate1: "mset (rotate1 xs) = mset xs"
  by (cases xs) simp_all

text \<open>
  C25. Round robin over a group all of whose endpoints are connected: the \<open>j\<close>-th of any number of
  successive calls of \<^verbatim>\<open>uta_epsock_rr\<close> selects the endpoint whose position is the 16-bit index of
  the group plus \<open>j\<close>, modulo 65536 and then modulo the number of endpoints.  A run of as many
  calls as there are endpoints selects each of them exactly once, provided that the index does
  not wrap around during the run or the number of endpoints divides 65536; for other numbers
  the wrap-around disturbs the turn (see \<open>rr_wrap_repeats\<close>).
\<close>

theorem rr_selects_each_once:
  assumes "rr_ready c ra grp eps i" and "eps \<noteq> []"
  shows "\<exists>sel. rr_run env c (Some ra) grp k = Some sel \<and> 0 \<notin> snd ` set sel \<and>
     map fst sel = map (\<lambda>j. Some (eps ! ((i + j) mod 65536 mod length eps))) [0..<k] \<and>
     (k = length eps \<and> (i + k \<le> 65536 \<or> length eps dvd 65536) \<longrightarrow>
        map fst sel = map Some (rotate i eps) \<and> mset (map fst sel) = mset (map Some eps))"
proof -
  from rr_run_eq [OF assms] obtain sel where sel: "rr_run env c (Some ra) grp k = Some sel"
    "map fst sel = map (\<lambda>j. Some (eps ! ((i + j) mod 65536 mod length eps))) [0..<k]" "0 \<notin> snd ` set sel" by blast
  have "map fst sel = map Some (rotate i eps)" if k: "k = length eps" "i + k \<le> 65536 \<or> length eps dvd 65536"
  proof -
    have "(i + j) mod 65536 mod length eps = (i + j) mod length eps" if "j < length eps" for j
      using k that by (auto simp: mod_mod_cancel)
    then show ?thesis unfolding sel(2) by (intro nth_equalityI) (simp_all add: nth_rotate k(1))
  qed
  moreover have "mset (rotate i eps) = mset eps" by (induction i) (simp_all add: mset_rotate1)
  then have "mset (map Some (rotate i eps)) = mset (map Some eps)" by simp
  ultimately show ?thesis using sel by metis
qed

text \<open>When the index wraps around, a group of three endpoints selects its first endpoint twice in a row.\<close>

lemma rr_wrap_repeats:
  assumes "rr_ready c ra grp [a1, a2, a3] 65535"
  shows "\<exists>sel. rr_run env c (Some ra) grp 2 = Some sel \<and> map fst sel = [Some a1, Some a1]"
proof -
  obtain sel where "rr_run env c (Some ra) grp 2 = Some sel" "map fst sel = map (\<lambda>j. Some ([a1, a2, a3] ! ((65535 + j) mod 65536 mod 3))) [0..<2]"
    using rr_run_eq [OF assms, of env 2] by auto
  moreover have "[0..<2] = [0, Suc 0]" by (simp add: numeral_2_eq_2)
  ultimately show ?thesis by simp
qed

definition demo_rr :: uta_ctx where
  "demo_rr = demo_uta\<lparr>h_rtes := [1 \<mapsto> \<lparr>rte_key = 7, rte_refs = 1, rte_mtype = 7, nrrgroups = 1,
       rrgroups = [Some \<lparr>ep_idx = 4, nused = 3, nendpts = 32, epts = map Some [2, 3, 4] @ replicate 29 None\<rparr>]\<rparr>],
     h_eps := (\<lambda>a. if a \<in> {2, 3, 4} then Some \<lparr>ep_name = ''a:1'', ep_addr = None, nn_sock = int a, ep_open = True,
       sc_good = 0, sc_fail = 0, sc_trans = 0, ep_notify = True\<rparr> else None)\<rparr>"

definition demo_rt_env :: rt_env where
  "demo_rt_env = \<lparr>n_ok = all_ok, n_dns = (\<lambda>_. None), n_sock0 = 0, n_si = demo_si\<rparr>"

theorem rr_selects_each_once_witness:
  "\<exists>sel. rr_run demo_rt_env demo_rr (Some 1) 0 3 = Some sel \<and> map fst sel = [Some 3, Some 4, Some 2]"
proof -
  have "rr_ready demo_rr 1 0 [2, 3, 4] 4" by (simp add: rr_ready_def demo_rr_def)
  from rr_selects_each_once [OF this, of demo_rt_env 3] obtain sel where "rr_run demo_rt_env demo_rr (Some 1) 0 3 = Some sel"
      "map fst sel = map Some (rotate 4 [2, 3, 4])" by auto
  moreover have "rotate 4 [2, 3, 4 :: nat] = [3, 4, 2]" by (simp add: rotate_def numeral_eq_Suc)
  ultimately show ?thesis by simp
qed

end
