(* ===== verification/RtParse.thy ===== *)
theory RtParse
  imports Route_Refs Tools
begin

text \<open>
  The record parser of the route table collector: \<^verbatim>\<open>build_entry\<close>, \<^verbatim>\<open>trash_entry\<close>, the meid
  functions, \<^verbatim>\<open>parse_rt_rec\<close>, \<^verbatim>\<open>read_static_rt\<close> and \<^verbatim>\<open>cycle_snarfed_rt\<close> of
  \<^verbatim>\<open>src/src/rmr/common/src/rt_generic_static.c\<close>.

  A record works on the table under construction of the context.  What the functions do outside
  the context is recorded in the order of the calls in the trace \<open>rt_events\<close>: the calls of
  \<^verbatim>\<open>send_rt_ack\<close> on the private context (modelled in \<open>Rtc\<close>) and the calls on the file
  in which the records are saved.  Log messages are left out.  A null dereference is a fault
  (\<open>None\<close>).
\<close>

section \<open>State\<close>

datatype rt_event = RtAck bool "string option" "string option"
  | FsWrite int string | FsClose int | FsUnlink string | FsRename string string | FsOpen string

record rtc_ctx = uta_ctx +
  cflags :: u32
  rtable_ready :: bool
  table_id :: "string option"
  snarf_rt_fd :: int
  seed_rt_fname :: "string option"
  rt_events :: "rt_event list"

abbreviation (input) CFL_NO_RTACK :: u32 where "CFL_NO_RTACK \<equiv> 2"
abbreviation (input) CFL_FULLRT :: u32 where "CFL_FULLRT \<equiv> 8"

text \<open>The environment: variables, the results of \<^verbatim>\<open>close\<close>, \<^verbatim>\<open>rename\<close> and \<^verbatim>\<open>open\<close> on the
  save file, the contents of files, and the text in an uninitialised work buffer.\<close>

record parse_env = rt_env +
  p_getenv :: "string \<Rightarrow> string option"
  p_close :: "int \<Rightarrow> bool"
  p_open :: "string \<Rightarrow> int"
  p_file :: "string \<Rightarrow> string option"
  p_wbuf :: string

definition emit :: "'a rtc_ctx_scheme \<Rightarrow> rt_event \<Rightarrow> 'a rtc_ctx_scheme" where
  "emit c e = c\<lparr>rt_events := rt_events c @ [e]\<rparr>"

text \<open>A call of \<^verbatim>\<open>send_rt_ack\<close>; it does nothing when there is no private context.\<close>

definition ack :: "bool \<Rightarrow> 'a rtc_ctx_scheme \<Rightarrow> bool \<Rightarrow> string option \<Rightarrow> 'a rtc_ctx_scheme" where
  "ack pctx c ok reason = (if pctx then emit c (RtAck ok (table_id c) reason) else c)"

definition new_table :: "'a rtc_ctx_scheme \<Rightarrow> route_table option" where
  "new_table c = do { a \<leftarrow> new_rtable c; h_rts c a }"

definition upd_new :: "(route_table \<Rightarrow> route_table) \<Rightarrow> 'a rtc_ctx_scheme \<Rightarrow> 'a rtc_ctx_scheme option" where
  "upd_new f c = do { a \<leftarrow> new_rtable c; t \<leftarrow> h_rts c a; Some (put_rt c a (f t)) }"

section \<open>Entries\<close>

text \<open>The test of the sender part of a type field.\<close>

definition ts_for_us :: "mallocs \<Rightarrow> 'a rtc_ctx_scheme \<Rightarrow> string \<Rightarrow> bool" where
  "ts_for_us ok c ts \<longleftrightarrow> CHR '','' \<notin> set ts \<or> uta_has_str ok ts (my_name c) (CHR '','') 127 \<ge> 0 \<or>
     has_myip ok (Some ts) (ip_list c) (CHR '','') 127"

text \<open>The loops over the endpoints of a group and over the groups; \<open>cgidx\<close> is the contiguous group
  index.\<close>

fun add_ep_toks :: "'b parse_env_scheme \<Rightarrow> 'a rtc_ctx_scheme \<Rightarrow> addr option \<Rightarrow> string list \<Rightarrow> int \<Rightarrow> bool \<Rightarrow> (bool \<times> 'a rtc_ctx_scheme) option" where
  "add_ep_toks env c rte [] cgidx has_ep = Some (has_ep, c)"
| "add_ep_toks env c rte (t # ts) cgidx has_ep =
     (if t \<noteq> my_name c
      then do { r \<leftarrow> uta_add_ep (rt_env.truncate env) c (new_rtable c) rte (Some t) cgidx; add_ep_toks env (snd r) rte ts cgidx True }
      else add_ep_toks env c rte ts cgidx has_ep)"

fun add_groups :: "'b parse_env_scheme \<Rightarrow> 'a rtc_ctx_scheme \<Rightarrow> addr option \<Rightarrow> string list \<Rightarrow> int \<Rightarrow> 'a rtc_ctx_scheme option" where
  "add_groups env c rte [] cgidx = Some c"
| "add_groups env c rte (g # gs) cgidx =
     (let toks = uta_rmip_tokenise (Some g) (ip_list c) 64 (CHR '','')
      in if toks = [] then add_groups env c rte gs cgidx
         else do { r \<leftarrow> add_ep_toks env c rte toks cgidx False;
                   add_groups env (snd r) rte gs (if fst r then cgidx + 1 else cgidx) })"

definition build_entry :: "'b parse_env_scheme \<Rightarrow> 'a rtc_ctx_scheme \<Rightarrow> string option \<Rightarrow> int \<Rightarrow> string option \<Rightarrow> 'a rtc_ctx_scheme option" where
  "build_entry env c ts_field subid rr_field = do {
     ts0 \<leftarrow> ts_field; rr0 \<leftarrow> rr_field;
     (let ts = clip ts0; rr = clip rr0
      in if ts_for_us (n_ok env) c ts
         then (let g = uta_tokenise (Some rr) 64 (CHR '';'')
               in if g = [] then Some c
                  else (let ng = (if hd g = ''%meid'' then 0 else length g)
                        in do {
                          r \<leftarrow> uta_add_rte (n_ok env) c (new_rtable c) (build_rt_key subid (atoi ts)) (int ng);
                          a \<leftarrow> fst r;
                          e \<leftarrow> h_rtes (snd r) a;
                          add_groups env (put_rte (snd r) a (e\<lparr>rte_mtype := atoi ts\<rparr>)) (Some a) (take ng g) 0 }))
         else Some c) }"

definition trash_entry :: "'b parse_env_scheme \<Rightarrow> 'a rtc_ctx_scheme \<Rightarrow> string option \<Rightarrow> int \<Rightarrow> 'a rtc_ctx_scheme option" where
  "trash_entry env c ts_field subid =
     (case new_rtable c of None \<Rightarrow> Some c
      | Some ta \<Rightarrow> do {
          t \<leftarrow> h_rts c ta;
          ts0 \<leftarrow> ts_field;
          (let ts = clip ts0
           in if ts_for_us (n_ok env) c ts
              then (let key = build_rt_key subid (atoi ts);
                        (rte, h) = rmr_sym_pull (rt_hash t) key
                    in if rte \<noteq> None
                       then del_rte (put_rt c ta (t\<lparr>rt_hash := rmr_sym_ndel h key\<rparr>)) rte
                       else Some (put_rt c ta (t\<lparr>rt_hash := h\<rparr>)))
              else Some c) })"

section \<open>Managed entities\<close>

fun meid_ar_loop :: "'b parse_env_scheme \<Rightarrow> 'a rtc_ctx_scheme \<Rightarrow> addr \<Rightarrow> string \<Rightarrow> string list \<Rightarrow> 'a rtc_ctx_scheme option" where
  "meid_ar_loop env c ta owner [] = Some c"
| "meid_ar_loop env c ta owner (m # ms) =
     (let (ep, c1) = rt_ensure_ep (rt_env.truncate env) c (Some ta) (Some owner)
      in case ep of None \<Rightarrow> meid_ar_loop env c1 ta owner ms
         | Some e \<Rightarrow> do {
             t \<leftarrow> h_rts c1 ta;
             meid_ar_loop env (put_rt c1 ta (t\<lparr>rt_hash := snd (rmr_sym_put (n_ok env) (rt_hash t) m RT_ME_SPACE (Some e))\<rparr>)) ta owner ms })"

definition parse_meid_ar :: "'b parse_env_scheme \<Rightarrow> 'a rtc_ctx_scheme \<Rightarrow> addr \<Rightarrow> string \<Rightarrow> string \<Rightarrow> 'a rtc_ctx_scheme option" where
  "parse_meid_ar env c ta owner meid_list =
     meid_ar_loop env c ta (clip owner) (uta_tokenise (Some (clip meid_list)) 128 (CHR '' ''))"

definition parse_meid_del :: "'a rtc_ctx_scheme \<Rightarrow> addr \<Rightarrow> string \<Rightarrow> 'a rtc_ctx_scheme option" where
  "parse_meid_del c ta meid_list = do {
     t \<leftarrow> h_rts c ta;
     Some (put_rt c ta (t\<lparr>rt_hash := fold (\<lambda>m h. rmr_sym_del h (KStr RT_ME_SPACE m))
        (uta_tokenise (Some (clip meid_list)) 128 (CHR '' '')) (rt_hash t)\<rparr>)) }"

text \<open>The common steps of the start records: dropping a table in progress, and preparing the new
  one with its counter at zero.\<close>

definition drop_new :: "'a rtc_ctx_scheme \<Rightarrow> 'a rtc_ctx_scheme option" where
  "drop_new c = do { c1 \<leftarrow> uta_rt_drop c (new_rtable c); Some (c1\<lparr>new_rtable := None\<rparr>) }"

definition start_new :: "'b parse_env_scheme \<Rightarrow> bool \<Rightarrow> (route_table \<Rightarrow> route_table) \<Rightarrow> 'a rtc_ctx_scheme \<Rightarrow> 'a rtc_ctx_scheme option" where
  "start_new env all_spaces f c = do {
     r \<leftarrow> prep_new_rt (n_ok env) c all_spaces;
     upd_new f ((snd r)\<lparr>new_rtable := Some (fst r)\<rparr>) }"

definition count_text :: "string \<Rightarrow> int \<Rightarrow> string" where
  "count_text expected got =
     take 1023 (''missing table records: expected '' @ expected @ '' got '' @ (if got < 0 then ''-'' else []) @ dec (nat \<bar>got\<bar>) @ [CHR 0x0A])"

definition meid_parser :: "'b parse_env_scheme \<Rightarrow> bool \<Rightarrow> 'a rtc_ctx_scheme \<Rightarrow> string list \<Rightarrow> 'a rtc_ctx_scheme option" where
  "meid_parser env pctx c tokens =
     (if length tokens < 2 then Some c
      else if tokens ! 0 = ''meid_map'' then
        (let tok1 = clip (tokens ! 1) in
         if tok1 \<noteq> [] \<and> hd tok1 = CHR ''s''
         then do {
           c1 \<leftarrow> (if new_rtable c \<noteq> None
                 then do { d \<leftarrow> drop_new c; Some (ack pctx d False (Some ''table not complete'')) }
                 else Some c);
           start_new env True (\<lambda>t. t\<lparr>rt_mupdates := 0\<rparr>)
             (c1\<lparr>table_id := (if length tokens > 2 then Some (clip (tokens ! 2)) else None)\<rparr>) }
         else if tok1 = ''end''
         then do {
           bad \<leftarrow> (if length tokens > 2 then do { t \<leftarrow> new_table c; Some (rt_mupdates t \<noteq> atoi (tokens ! 2)) } else Some False);
           (if bad
            then do { t \<leftarrow> new_table c;
                      drop_new (ack pctx c False (Some (count_text (tokens ! 2) (rt_updates t)))) }
            else if new_rtable c \<noteq> None
            then do { c1 \<leftarrow> roll_tables c; Some (ack pctx c1 True None) }
            else Some c) }
         else Some c)
      else if new_rtable c = None then Some c
      else if tokens ! 0 = ''mme_ar'' then
        (if length tokens < 3 then Some c
         else do { a \<leftarrow> new_rtable c; c1 \<leftarrow> parse_meid_ar env c a (tokens ! 1) (tokens ! 2);
                   upd_new (\<lambda>t. t\<lparr>rt_mupdates := rt_mupdates t + 1\<rparr>) c1 })
      else if tokens ! 0 = ''mme_del'' then
        do { a \<leftarrow> new_rtable c; c1 \<leftarrow> parse_meid_del c a (tokens ! 1);
             upd_new (\<lambda>t. t\<lparr>rt_mupdates := rt_mupdates t + 1\<rparr>) c1 }
      else Some c)"

section \<open>The save file\<close>

definition cycle_snarfed_rt :: "'b parse_env_scheme \<Rightarrow> 'a rtc_ctx_scheme \<Rightarrow> 'a rtc_ctx_scheme" where
  "cycle_snarfed_rt env c =
     (let snarf_fname = (case p_getenv env ''RMR_STASH_RT'' of Some f \<Rightarrow> Some f
            | None \<Rightarrow> map_option (\<lambda>f. take 510 (f @ ''.stash'')) (p_getenv env ''RMR_SEED_RT''))
      in case snarf_fname of None \<Rightarrow> c
         | Some fname \<Rightarrow>
             let tfname = take 510 (fname @ ''.inc''); fd = snarf_rt_fd c;
                 c1 = (if fd \<ge> 0 then emit (emit c (FsWrite fd (''### captured from route manager'' @ [CHR 0x0A]))) (FsClose fd) else c)
             in if fd \<ge> 0 \<and> \<not> p_close env fd then c1
                else let c2 = (if fd \<ge> 0 then emit (emit c1 (FsUnlink fname)) (FsRename tfname fname) else c1)
                     in (emit c2 (FsOpen tfname))\<lparr>snarf_rt_fd := p_open env tfname\<rparr>)"

section \<open>Records\<close>

text \<open>The record without white space at its ends.\<close>

definition trim_rec :: "string \<Rightarrow> string" where
  "trim_rec buf = trim_end (dropWhile isspace buf)"

definition parse_del :: "'b parse_env_scheme \<Rightarrow> 'a rtc_ctx_scheme \<Rightarrow> string list \<Rightarrow> 'a rtc_ctx_scheme option" where
  "parse_del env c tokens =
     (if new_rtable c = None then Some c
      else if length tokens < 3 then Some c
      else do { c1 \<leftarrow> trash_entry env c (Some (tokens ! 1)) (atoi (tokens ! 2));
                upd_new (\<lambda>t. t\<lparr>rt_updates := rt_updates t + 1\<rparr>) c1 })"

definition parse_newrt :: "'b parse_env_scheme \<Rightarrow> bool \<Rightarrow> 'a rtc_ctx_scheme \<Rightarrow> string list \<Rightarrow> 'a rtc_ctx_scheme option" where
  "parse_newrt env pctx c tokens =
     (if length tokens < 2 then None
      else if clip (tokens ! 1) = ''end''
      then (let c0 = (if snarf_rt_fd c \<ge> 0 then cycle_snarfed_rt env c else c) in do {
         bad \<leftarrow> (if length tokens > 2 then do { t \<leftarrow> new_table c0; Some (rt_updates t \<noteq> atoi (tokens ! 2)) } else Some False);
         (if bad
          then do { t \<leftarrow> new_table c0;
                    drop_new (ack pctx c0 False (Some (count_text (tokens ! 2) (rt_updates t)))) }
          else if new_rtable c0 \<noteq> None
          then do { c1 \<leftarrow> roll_tables c0;
                    Some ((ack pctx c1 True None)\<lparr>rtable_ready := True, cflags := cflags c1 OR CFL_FULLRT\<rparr>) }
          else Some c0) })
      else do {
        c1 \<leftarrow> (if new_rtable c \<noteq> None then drop_new (ack pctx c False (Some ''table not complete'')) else Some c);
        start_new env False (\<lambda>t. t\<lparr>rt_updates := 0\<rparr>)
          (c1\<lparr>table_id := (if length tokens > 2 then Some (clip (tokens ! 2)) else None)\<rparr>) })"

definition parse_update :: "'b parse_env_scheme \<Rightarrow> bool \<Rightarrow> 'a rtc_ctx_scheme \<Rightarrow> string list \<Rightarrow> 'a rtc_ctx_scheme option" where
  "parse_update env pctx c tokens =
     (if cflags c AND CFL_FULLRT = 0 then Some c
      else if length tokens < 2 then None
      else if clip (tokens ! 1) = ''end''
      then (if new_rtable c = None then Some c
       else (let c0 = (if snarf_rt_fd c \<ge> 0 then cycle_snarfed_rt env c else c) in do {
         bad \<leftarrow> (if length tokens > 2 then do { t \<leftarrow> new_table c0; Some (rt_updates t \<noteq> atoi (tokens ! 2)) } else Some False);
         (if bad then drop_new (ack pctx c0 False (Some (p_wbuf env)))
          else do { c1 \<leftarrow> roll_tables c0; Some ((ack pctx c1 True None)\<lparr>rtable_ready := True\<rparr>) }) }))
      else do {
        c1 \<leftarrow> (if new_rtable c \<noteq> None then drop_new (ack pctx c False (Some ''table not complete'')) else Some c);
        start_new env True (\<lambda>t. t\<lparr>rt_updates := 0\<rparr>)
          (if length tokens > 2 then c1\<lparr>table_id := Some (clip (tokens ! 2))\<rparr> else c1) })"

definition parse_mse :: "'b parse_env_scheme \<Rightarrow> 'a rtc_ctx_scheme \<Rightarrow> string list \<Rightarrow> 'a rtc_ctx_scheme option" where
  "parse_mse env c tokens =
     (if new_rtable c = None then Some c
      else if length tokens < 4 then Some c
      else do { c1 \<leftarrow> build_entry env c (Some (tokens ! 1)) (atoi (tokens ! 2)) (Some (tokens ! 3));
                upd_new (\<lambda>t. t\<lparr>rt_updates := rt_updates t + 1\<rparr>) c1 })"

definition parse_rte :: "'b parse_env_scheme \<Rightarrow> 'a rtc_ctx_scheme \<Rightarrow> string list \<Rightarrow> 'a rtc_ctx_scheme option" where
  "parse_rte env c tokens =
     (if new_rtable c = None then Some c
      else do {
        c1 \<leftarrow> upd_new (\<lambda>t. t\<lparr>rt_updates := rt_updates t + 1\<rparr>) c;
        (let tok = (\<lambda>i. if i < length tokens then Some (tokens ! i) else None)
         in if length tokens > 3 then build_entry env c1 (tok 1) (atoi (tokens ! 3)) (tok 2)
            else build_entry env c1 (tok 1) UNSET_SUBID (tok 2)) })"

definition parse_rt_rec :: "'b parse_env_scheme \<Rightarrow> bool \<Rightarrow> 'a rtc_ctx_scheme \<Rightarrow> string option \<Rightarrow> 'a rtc_ctx_scheme option" where
  "parse_rt_rec env pctx c buf0 =
     (case buf0 of None \<Rightarrow> Some c
      | Some buf \<Rightarrow>
          (let c1 = (if snarf_rt_fd c \<ge> 0 then emit (emit c (FsWrite (snarf_rt_fd c) buf)) (FsWrite (snarf_rt_fd c) [CHR 0x0A]) else c);
               toks0 = uta_tokenise (Some (trim_rec buf)) 128 (CHR ''|'')
           in if toks0 = [] then Some c1
              else (let tokens = clip (hd toks0) # tl toks0; tok0 = hd tokens
                    in if tok0 = [] \<or> hd tok0 = CHR ''#'' then Some c1
                       else if hd tok0 = CHR ''d'' then parse_del env c1 tokens
                       else if hd tok0 = CHR ''n'' then parse_newrt env pctx c1 tokens
                       else if hd tok0 = CHR ''m'' then
                         (if tok0 = ''mse'' then parse_mse env c1 tokens else meid_parser env pctx c1 tokens)
                       else if hd tok0 = CHR ''r'' then parse_rte env c1 tokens
                       else if hd tok0 = CHR ''u'' then parse_update env pctx c1 tokens
                       else Some c1)))"

text \<open>The records of a file: every carriage return is a newline, and a record without a newline
  ends the scan.\<close>

function rec_loop :: "'b parse_env_scheme \<Rightarrow> 'a rtc_ctx_scheme \<Rightarrow> string \<Rightarrow> 'a rtc_ctx_scheme option" where
  "rec_loop env c s =
     (if s = [] \<or> CHR 0x0A \<notin> set s then Some c
      else do { c1 \<leftarrow> parse_rt_rec env False c (Some (takeWhile (\<lambda>x. x \<noteq> CHR 0x0A) s));
                rec_loop env c1 (tl (dropWhile (\<lambda>x. x \<noteq> CHR 0x0A) s)) })"
  by pat_completeness auto
termination
proof (relation "measure (\<lambda>(env, c, s). length s)", goal_cases)
  case (2 env c s x)
  have "length (tl (dropWhile (\<lambda>x. x \<noteq> CHR 0x0A) s)) < length s"
    using 2 length_dropWhile_le [of "\<lambda>x. x \<noteq> CHR 0x0A" s] by (cases s) (auto simp: less_Suc_eq_le intro: le_less_trans)
  then show ?case by simp
qed simp

declare rec_loop.simps [simp del]

definition read_static_rt :: "'b parse_env_scheme \<Rightarrow> 'a rtc_ctx_scheme \<Rightarrow> 'a rtc_ctx_scheme option" where
  "read_static_rt env c =
     (let (fname, c1) = (case seed_rt_fname c of Some f \<Rightarrow> (Some f, c)
        | None \<Rightarrow> (case p_getenv env ''RMR_SEED_RT'' of None \<Rightarrow> (None, c) | Some f \<Rightarrow> (Some f, c\<lparr>seed_rt_fname := Some f\<rparr>)))
      in case fname of None \<Rightarrow> Some c1
         | Some f \<Rightarrow> (case ensure_nlterm (n_ok env) (p_file env f) of None \<Rightarrow> Some c1
             | Some fbuf \<Rightarrow> rec_loop env c1 (map (\<lambda>x. if x = CHR 0x0D then CHR 0x0A else x) fbuf)))"

end
