(* ===== verification/RtParse_Inv.thy ===== *)
theory RtParse_Inv
  imports RtParse
begin

text \<open>
  The invariant of the routing state under the records of the route manager.  \<open>rtc_inv\<close> adds to
  the reference counts of \<open>Route_Refs\<close> that the three tables of a context are live and distinct,
  that endpoints are found under their names, and that round robin groups and managed entities
  refer to live endpoints.  Every record that is well formed (\<open>rec_ok\<close>) is parsed without a fault
  and keeps the invariant.
\<close>

section \<open>What the table functions leave alone\<close>

definition rte_sub :: "(addr \<Rightarrow> rtable_ent option) \<Rightarrow> (addr \<Rightarrow> rtable_ent option) \<Rightarrow> bool" where
  "rte_sub R R' \<longleftrightarrow> (\<forall>a r'. R' a = Some r' \<longrightarrow> (\<exists>r. R a = Some r \<and> nrrgroups r' = nrrgroups r \<and> rrgroups r' = rrgroups r))"

definition tframe :: "'a uta_ctx_scheme \<Rightarrow> 'a uta_ctx_scheme \<Rightarrow> bool" where
  "tframe c c' \<longleftrightarrow> c' = c\<lparr>h_rtes := h_rtes c', h_rts := h_rts c', h_next := h_next c'\<rparr> \<and> rte_sub (h_rtes c) (h_rtes c')"

lemma rte_sub_refl [simp]: "rte_sub R R"
  by (simp add: rte_sub_def)

lemma rte_sub_trans: "rte_sub R R' \<Longrightarrow> rte_sub R' R'' \<Longrightarrow> rte_sub R R''"
  unfolding rte_sub_def by metis

lemma tframe_refl [simp]: "tframe c c"
  by (simp add: tframe_def)

lemma tframe_trans:
  assumes "tframe c c'" and "tframe c' c''"
  shows "tframe c c''"
proof -
  have s: "rte_sub (h_rtes c) (h_rtes c'')" using assms rte_sub_trans unfolding tframe_def by blast
  have 1: "c' = c\<lparr>h_rtes := h_rtes c', h_rts := h_rts c', h_next := h_next c'\<rparr>" using assms(1) by (simp add: tframe_def)
  have "c'' = c'\<lparr>h_rtes := h_rtes c'', h_rts := h_rts c'', h_next := h_next c''\<rparr>" using assms(2) by (simp add: tframe_def)
  also have "\<dots> = c\<lparr>h_rtes := h_rtes c'', h_rts := h_rts c'', h_next := h_next c''\<rparr>" by (subst 1) simp
  finally show ?thesis using s unfolding tframe_def by blast
qed

lemma tframe_put_rt [simp]: "tframe c (put_rt c a t)"
  by (simp add: tframe_def put_rt_def)

lemma tframe_del_rt [simp]: "tframe c (c\<lparr>h_rts := T\<rparr>)"
  by (simp add: tframe_def)

lemma tframe_put_rte:
  "h_rtes c a = Some r \<Longrightarrow> nrrgroups r' = nrrgroups r \<Longrightarrow> rrgroups r' = rrgroups r \<Longrightarrow> tframe c (put_rte c a r')"
  by (auto simp: tframe_def put_rte_def rte_sub_def)

lemma tframe_del_rte: "del_rte c v = Some c' \<Longrightarrow> tframe c c'"
  by (auto simp: del_rte_def tframe_put_rte split: option.splits bind_splits if_splits)
    (auto simp: tframe_def rte_sub_def)

lemma tframe_deref_fold:
  fixes c' :: "'a uta_ctx_scheme"
  assumes "fold (\<lambda>e st. do { x \<leftarrow> st; del_rte x (val e) }) es st = Some c'"
  shows "\<exists>c0. st = Some c0 \<and> tframe c0 c'"
  using assms
proof (induction es arbitrary: st)
  case (Cons e es)
  from Cons.IH [of "do { x \<leftarrow> st; del_rte x (val e) }"] Cons.prems obtain c0 c1 where
    "st = Some c0" "del_rte c0 (val e) = Some c1" "tframe c1 c'" by (cases st) auto
  then show ?case using tframe_trans [OF tframe_del_rte] by blast
qed simp

lemma tframe_deref_all: "deref_all c h = Some c' \<Longrightarrow> tframe c c'"
  using tframe_deref_fold [of "class_eles h 0" "Some c" c'] by (simp add: deref_all_def foreach_class_fold)

lemma tframe_drop: "uta_rt_drop c rt = Some c' \<Longrightarrow> tframe c c'"
  by (auto simp: uta_rt_drop_def split: option.splits bind_splits dest!: tframe_deref_all intro: tframe_trans)

lemma tframe_prep_clear: "prep_clear c rt = Some c' \<Longrightarrow> tframe c c'"
  by (auto simp: prep_clear_def split: option.splits bind_splits dest!: tframe_deref_all intro: tframe_trans)

lemma tframe_init: "uta_rt_init ok c = (d, c') \<Longrightarrow> tframe c c'"
  by (auto simp: uta_rt_init_def new_addr_def Let_def put_rt_def tframe_def split: if_splits option.splits)

lemma tframe_clone_things: "clone_things ok c nrt sp xs = Some c' \<Longrightarrow> tframe c c'"
proof (induction ok c nrt sp xs rule: clone_things.induct)
  case (2 ok c nrt sp name a xs)
  show ?case
  proof (cases "sp = 0")
    case True
    with "2.prems" obtain t r where tr: "h_rts c nrt = Some t" "h_rtes c a = Some r"
      "clone_things ok (put_rt (put_rte c a (r\<lparr>rte_refs := rte_refs r + 1\<rparr>)) nrt
         (t\<lparr>rt_hash := snd (rmr_sym_map ok (rt_hash t) (rte_key r) (Some a))\<rparr>)) nrt sp xs = Some c'"
      by (auto split: bind_splits)
    have "tframe c (put_rte c a (r\<lparr>rte_refs := rte_refs r + 1\<rparr>))" by (rule tframe_put_rte [OF tr(2)]) simp_all
    with "2.IH"(2) [OF tr(1) _ tr(2) tr(3)] True show ?thesis using tframe_trans tframe_put_rt by blast
  next
    case False
    with "2.prems" obtain t n where tr: "h_rts c nrt = Some t" "name = Some n"
      "clone_things ok (put_rt c nrt (t\<lparr>rt_hash := snd (rmr_sym_put ok (rt_hash t) n sp (Some a))\<rparr>)) nrt sp xs = Some c'"
      by (auto split: bind_splits)
    with "2.IH"(1) [OF tr(1) False tr(2,3)] show ?thesis using tframe_trans tframe_put_rt by blast
  qed
qed simp

lemma tframe_clone_space: "clone_space ok c s n sp nf = Some (d, c') \<Longrightarrow> tframe c c'"
  by (auto simp: clone_space_def Let_def split: bind_splits if_splits dest: tframe_clone_things)

lemma tframe_rt_clone_space:
  assumes "rt_clone_space ok c s n sp = Some (d, c')"
  shows "tframe c c'"
proof (cases n)
  case None
  obtain d1 c1 where i: "uta_rt_init ok c = (d1, c1)" by fastforce
  with assms None show ?thesis using tframe_init [OF i] tframe_clone_space tframe_trans
    by (auto simp: rt_clone_space_def split: option.splits) blast+
next
  case (Some a)
  with assms show ?thesis using tframe_clone_space by (auto simp: rt_clone_space_def split: option.splits)
qed

lemma tframe_rt_clone:
  assumes "uta_rt_clone ok c s d al = Some (d', c')"
  shows "tframe c c'"
proof -
  obtain d1 c1 where i: "(case d of Some a \<Rightarrow> (Some a, c) | None \<Rightarrow> uta_rt_init ok c) = (d1, c1)" by fastforce
  have f1: "tframe c c1" using i tframe_init [of ok c d1 c1] by (auto split: option.splits)
  show ?thesis
  proof (cases s)
    case None
    with assms i f1 show ?thesis by (simp add: uta_rt_clone_def)
  next
    case (Some s')
    with assms i obtain da r1 where r1: "rt_clone_space ok c1 s (Some da) RT_ME_SPACE = Some r1"
      "al \<Longrightarrow> \<exists>r2. rt_clone_space ok (snd r1) s (Some da) RT_MT_SPACE = Some r2 \<and> c' = snd r2" "\<not> al \<Longrightarrow> c' = snd r1"
      by (cases al) (auto simp: uta_rt_clone_def split: bind_splits)
    have f2: "tframe c1 (snd r1)" using tframe_rt_clone_space [of ok c1 s "Some da" RT_ME_SPACE "fst r1" "snd r1"] r1(1) by simp
    have "tframe (snd r1) c'"
    proof (cases al)
      case True
      with r1(2) obtain r2 where r2: "rt_clone_space ok (snd r1) s (Some da) RT_MT_SPACE = Some r2" "c' = snd r2" by blast
      then show ?thesis using tframe_rt_clone_space [of ok "snd r1" s "Some da" RT_MT_SPACE "fst r2" "snd r2"] by simp
    qed (use r1 in simp)
    with f1 f2 show ?thesis using tframe_trans by blast
  qed
qed

lemma tframe_prep:
  assumes "prep_new_rt ok c al = Some (d, c')"
  shows "tframe (c\<lparr>old_rtable := None\<rparr>) c'"
proof -
  from assms obtain c1 d2 c2 where c1: "prep_clear (c\<lparr>old_rtable := None\<rparr>) (old_rtable c) = Some c1"
    and c2: "uta_rt_clone ok c1 (rtable c1) (old_rtable c) al = Some (d2, c2)"
    and rest: "d2 = Some d \<and> (\<exists>t. h_rts c2 d = Some t \<and> c' = put_rt c2 d (t\<lparr>ref_count := 0\<rparr>)) \<or>
        (\<exists>t c3. uta_rt_init ok c2 = (Some d, c3) \<and> h_rts c3 d = Some t \<and> c' = put_rt c3 d (t\<lparr>rt_error := True\<rparr>))"
    by (auto simp: prep_new_rt_def split: bind_splits option.splits prod.splits)
  have f2: "tframe (c\<lparr>old_rtable := None\<rparr>) c2" using tframe_prep_clear [OF c1] tframe_rt_clone [OF c2] by (rule tframe_trans)
  from rest have "tframe c2 c'" using tframe_init tframe_trans tframe_put_rt by blast
  with f2 show ?thesis by (rule tframe_trans)
qed

section \<open>The invariant\<close>

definition rrg_ok :: "(addr \<Rightarrow> endpoint option) \<Rightarrow> rrgroup \<Rightarrow> bool" where
  "rrg_ok E g \<longleftrightarrow> length (epts g) = nendpts g \<and> nused g \<le> nendpts g \<and>
     (\<forall>j < nused g. \<exists>a. epts g ! j = Some a \<and> E a \<noteq> None)"

definition rte_ok :: "(addr \<Rightarrow> endpoint option) \<Rightarrow> rtable_ent \<Rightarrow> bool" where
  "rte_ok E r \<longleftrightarrow> int (length (rrgroups r)) = nrrgroups r \<and> (\<forall>g. Some g \<in> set (rrgroups r) \<longrightarrow> rrg_ok E g)"

definition ep_inv :: "'a uta_ctx_scheme \<Rightarrow> bool" where
  "ep_inv c \<longleftrightarrow> hash_ok (ephash c) \<and>
     (\<forall>n a. hget (ephash c) (KStr 1 n) = Some a \<longrightarrow> (\<exists>e. h_eps c a = Some e \<and> ep_name e = n)) \<and>
     (\<forall>a r. h_rtes c a = Some r \<longrightarrow> rte_ok (h_eps c) r) \<and>
     (\<forall>t rt m a. h_rts c t = Some rt \<longrightarrow> hget (rt_hash rt) (KStr RT_ME_SPACE m) = Some a \<longrightarrow> h_eps c a \<noteq> None)"

definition tabs_ok :: "'a uta_ctx_scheme \<Rightarrow> bool" where
  "tabs_ok c \<longleftrightarrow> (\<forall>a. Some a \<in> {rtable c, old_rtable c, new_rtable c} \<longrightarrow> h_rts c a \<noteq> None) \<and>
     (\<forall>a. rtable c = Some a \<longrightarrow> old_rtable c \<noteq> Some a \<and> new_rtable c \<noteq> Some a) \<and>
     (new_rtable c \<noteq> None \<longrightarrow> old_rtable c = None) \<and> (rtable c = None \<longrightarrow> old_rtable c = None) \<and>
     (\<forall>a t. h_rts c a = Some t \<longrightarrow> \<not> rt_error t)"

definition rtc_inv :: "'a uta_ctx_scheme \<Rightarrow> bool" where
  "rtc_inv c \<longleftrightarrow> rt_inv c \<and> ep_inv c \<and> tabs_ok c"

lemma rte_ok_mono: "rte_ok E r \<Longrightarrow> (\<And>a. E a \<noteq> None \<Longrightarrow> E' a \<noteq> None) \<Longrightarrow> rte_ok E' r"
  unfolding rte_ok_def rrg_ok_def by blast

lemma rte_ok_groups: "rte_ok E r \<Longrightarrow> nrrgroups r' = nrrgroups r \<Longrightarrow> rrgroups r' = rrgroups r \<Longrightarrow> rte_ok E r'"
  by (simp add: rte_ok_def)

text \<open>The endpoint invariant after a function that works on the tables only.\<close>

lemma ep_inv_tframe:
  assumes inv: "ep_inv c" and f: "tframe c c'"
    and me: "\<And>t rt m a. h_rts c' t = Some rt \<Longrightarrow> hget (rt_hash rt) (KStr RT_ME_SPACE m) = Some a \<Longrightarrow> h_eps c a \<noteq> None"
  shows "ep_inv c'"
proof -
  have e: "c' = c\<lparr>h_rtes := h_rtes c', h_rts := h_rts c', h_next := h_next c'\<rparr>" and s: "rte_sub (h_rtes c) (h_rtes c')"
    using f by (simp_all add: tframe_def)
  have "h_eps c' = h_eps (c\<lparr>h_rtes := h_rtes c', h_rts := h_rts c', h_next := h_next c'\<rparr>)" by (rule arg_cong [OF e])
  then have 1: "h_eps c' = h_eps c" by simp
  have "ephash c' = ephash (c\<lparr>h_rtes := h_rtes c', h_rts := h_rts c', h_next := h_next c'\<rparr>)" by (rule arg_cong [OF e])
  then have 2: "ephash c' = ephash c" by simp
  have "rte_ok (h_eps c) r'" if "h_rtes c' a = Some r'" for a r'
    using that s inv rte_ok_groups unfolding rte_sub_def ep_inv_def by metis
  then show ?thesis using inv me unfolding ep_inv_def 1 2 by blast
qed

lemma tframe_fields:
  assumes "tframe c c'"
  shows "rtable c' = rtable c" "old_rtable c' = old_rtable c" "new_rtable c' = new_rtable c" "h_eps c' = h_eps c"
    "ephash c' = ephash c" "my_name c' = my_name c" "ip_list c' = ip_list c" "fd2ep c' = fd2ep c"
proof -
  have e: "c' = c\<lparr>h_rtes := h_rtes c', h_rts := h_rts c', h_next := h_next c'\<rparr>" using assms by (simp add: tframe_def)
  show "rtable c' = rtable c" "old_rtable c' = old_rtable c" "new_rtable c' = new_rtable c" "h_eps c' = h_eps c"
    "ephash c' = ephash c" "my_name c' = my_name c" "ip_list c' = ip_list c" "fd2ep c' = fd2ep c"
    by (subst e, simp)+
qed

lemma tframe_events:
  assumes "tframe c c'"
  shows "rt_events c' = rt_events c"
proof -
  have e: "c' = c\<lparr>h_rtes := h_rtes c', h_rts := h_rts c', h_next := h_next c'\<rparr>" using assms by (simp add: tframe_def)
  show ?thesis by (subst e) simp
qed

section \<open>Endpoints\<close>

definition eframe :: "'a uta_ctx_scheme \<Rightarrow> 'a uta_ctx_scheme \<Rightarrow> bool" where
  "eframe c c' \<longleftrightarrow> c' = c\<lparr>h_eps := h_eps c', h_next := h_next c', ephash := ephash c'\<rparr> \<and>
     (\<forall>a e. h_eps c a = Some e \<longrightarrow> h_eps c' a = Some e)"

lemma ensure_ep_ok:
  assumes inv: "rt_inv c" and ep: "ep_inv c" and n: "n \<noteq> []" and ok: "n_ok env = all_ok"
  shows "\<exists>a c' e. rt_ensure_ep env c (Some t) (Some n) = (Some a, c') \<and> eframe c c' \<and> h_eps c' a = Some e \<and> ep_name e = n \<and> rt_inv c' \<and> ep_inv c'"
proof -
  define h1 where "h1 = snd (rmr_sym_get (ephash c) (KStr 1 n))"
  have hk: "hash_ok (ephash c)" using ep by (simp add: ep_inv_def)
  have h1: "hash_ok h1" "\<And>k. hget h1 k = hget (ephash c) k" "rmr_sym_get (ephash c) (KStr 1 n) = (hget (ephash c) (KStr 1 n), h1)"
    using hash_get [OF hk, of "KStr 1 n"] by (simp_all add: h1_def hget_def)
  show ?thesis
  proof (cases "hget (ephash c) (KStr 1 n)")
    case (Some a)
    let ?c' = "c\<lparr>ephash := h1\<rparr>"
    from Some ep obtain e where e: "h_eps c a = Some e" "ep_name e = n" by (auto simp: ep_inv_def)
    have "rt_inv ?c'" using inv by (simp add: rt_inv_def)
    moreover have "ep_inv ?c'" using ep h1 by (simp add: ep_inv_def)
    moreover have "rt_ensure_ep env c (Some t) (Some n) = (Some a, ?c')"
      using n h1(3) Some by (simp add: rt_ensure_ep_def uta_get_ep_def)
    moreover have "eframe c ?c'" by (simp add: eframe_def)
    ultimately show ?thesis using e by (intro exI [of _ a] exI [of _ ?c'] exI [of _ e]) simp
  next
    case None
    let ?a = "h_next c"
    define e where "e = \<lparr>ep_name = n, ep_addr = uta_h2ip (n_dns env) n, nn_sock = n_sock0 env, ep_open = False,
        sc_good = 0, sc_fail = 0, sc_trans = 0, ep_notify = True\<rparr>"
    define h2 where "h2 = sym_putv h1 (KStr 1 n) (Some ?a)"
    let ?c' = "c\<lparr>h_eps := (h_eps c)(?a \<mapsto> e), h_next := Suc ?a, ephash := h2\<rparr>"
    have fresh: "h_rtes c ?a = None" "h_rts c ?a = None" "h_eps c ?a = None" using rt_invD(3) [OF inv] by auto
    have h2: "hash_ok h2" "key_safe k \<Longrightarrow> hget h2 k = (if k = KStr 1 n then Some ?a else hget (ephash c) k)" for k
      using hash_putv [OF h1(1), of "KStr 1 n"] h1(2) by (simp_all add: h2_def)
    have run: "rt_ensure_ep env c (Some t) (Some n) = (Some ?a, ?c')"
      using n h1(3) None ok by (simp add: rt_ensure_ep_def uta_get_ep_def new_addr_def put_ep_def e_def put_putv h2_def all_ok_def)
    have ef: "eframe c ?c'" using fresh by (auto simp: eframe_def)
    have "rt_inv ?c'" using inv by (auto simp: rt_inv_def)
    moreover have "ep_inv ?c'"
      unfolding ep_inv_def
    proof (intro conjI allI impI)
      show "hash_ok (ephash ?c')" using h2(1) by simp
      fix n' a assume "hget (ephash ?c') (KStr 1 n') = Some a"
      then have "(if n' = n then Some ?a else hget (ephash c) (KStr 1 n')) = Some a" using h2(2) [of "KStr 1 n'"] by auto
      then show "\<exists>e. h_eps ?c' a = Some e \<and> ep_name e = n'"
        using ep fresh(3) by (cases "n' = n") (fastforce simp: e_def ep_inv_def)+
    next
      fix a r assume "h_rtes ?c' a = Some r"
      then have "rte_ok (h_eps c) r" using ep by (simp add: ep_inv_def)
      then show "rte_ok (h_eps ?c') r" by (rule rte_ok_mono) simp
    next
      fix t rt m a assume "h_rts ?c' t = Some rt" "hget (rt_hash rt) (KStr RT_ME_SPACE m) = Some a"
      then show "h_eps ?c' a \<noteq> None" using ep by (auto simp: ep_inv_def)
    qed
    ultimately show ?thesis using run ef by (intro exI [of _ ?a] exI [of _ ?c'] exI [of _ e]) (simp add: e_def)
  qed
qed

section \<open>Filling the groups of an entry\<close>

lemma rt_inv_put_rte:
  assumes inv: "rt_inv c" and r: "h_rtes c a = Some r" and k: "rte_key r' = rte_key r" "rte_refs r' = rte_refs r"
  shows "rt_inv (put_rte c a r')"
proof -
  have "refs_ok ((h_rtes c)(a \<mapsto> r')) (rt_view (h_rts c))"
    using rt_invD(1) [OF inv] r k unfolding refs_ok_def by (auto split: if_splits) (metis option.inject)
  then show ?thesis using inv r by (auto simp: rt_inv_def put_rte_def)
qed

lemma ep_inv_put_rte: "ep_inv c \<Longrightarrow> rte_ok (h_eps c) r' \<Longrightarrow> ep_inv (put_rte c a r')"
  by (auto simp: ep_inv_def put_rte_def)

text \<open>The steps that build an entry change the entries, the endpoints and nothing else.\<close>

definition bframe :: "'a uta_ctx_scheme \<Rightarrow> 'a uta_ctx_scheme \<Rightarrow> bool" where
  "bframe c c' \<longleftrightarrow> c' = c\<lparr>h_rtes := h_rtes c', h_eps := h_eps c', h_next := h_next c', ephash := ephash c'\<rparr> \<and>
     (\<forall>a e. h_eps c a = Some e \<longrightarrow> h_eps c' a = Some e) \<and> dom (h_rtes c') = dom (h_rtes c)"

lemma bframe_refl [simp]: "bframe c c"
  by (simp add: bframe_def)

lemma bframe_trans:
  assumes "bframe c c'" and "bframe c' c''"
  shows "bframe c c''"
proof -
  have 1: "c' = c\<lparr>h_rtes := h_rtes c', h_eps := h_eps c', h_next := h_next c', ephash := ephash c'\<rparr>" using assms(1) by (simp add: bframe_def)
  have "c'' = c'\<lparr>h_rtes := h_rtes c'', h_eps := h_eps c'', h_next := h_next c'', ephash := ephash c''\<rparr>" using assms(2) by (simp add: bframe_def)
  also have "\<dots> = c\<lparr>h_rtes := h_rtes c'', h_eps := h_eps c'', h_next := h_next c'', ephash := ephash c''\<rparr>" by (subst 1) simp
  finally show ?thesis using assms unfolding bframe_def by blast
qed

lemma bframe_fields:
  assumes "bframe c c'"
  shows "rtable c' = rtable c" "old_rtable c' = old_rtable c" "new_rtable c' = new_rtable c" "h_rts c' = h_rts c"
    "my_name c' = my_name c" "ip_list c' = ip_list c"
proof -
  have e: "c' = c\<lparr>h_rtes := h_rtes c', h_eps := h_eps c', h_next := h_next c', ephash := ephash c'\<rparr>" using assms by (simp add: bframe_def)
  show "rtable c' = rtable c" "old_rtable c' = old_rtable c" "new_rtable c' = new_rtable c" "h_rts c' = h_rts c"
    "my_name c' = my_name c" "ip_list c' = ip_list c" by (subst e, simp)+
qed

lemma bframe_put_rte: "h_rtes c a = Some r \<Longrightarrow> bframe c (put_rte c a r')"
  by (auto simp: bframe_def put_rte_def)

lemma eframe_rtes: "eframe c c' \<Longrightarrow> h_rtes c' = h_rtes c"
proof -
  assume "eframe c c'"
  then have e: "c' = c\<lparr>h_eps := h_eps c', h_next := h_next c', ephash := ephash c'\<rparr>" by (simp add: eframe_def)
  show "h_rtes c' = h_rtes c" by (subst e) simp
qed

lemma bframe_eframe:
  assumes "eframe c c'"
  shows "bframe c c'"
proof -
  have rt: "h_rtes c' = h_rtes c" by (rule eframe_rtes [OF assms])
  then have "c\<lparr>h_rtes := h_rtes c', h_eps := h_eps c', h_next := h_next c', ephash := ephash c'\<rparr> =
      c\<lparr>h_eps := h_eps c', h_next := h_next c', ephash := ephash c'\<rparr>" by simp
  then show ?thesis using assms rt unfolding eframe_def bframe_def by metis
qed

lemma rte_ok_upd:
  assumes "rte_ok E r" and "rrg_ok E g" and "j < length (rrgroups r)"
  shows "rte_ok E (r\<lparr>rrgroups := (rrgroups r)[j := Some g]\<rparr>)"
  using assms set_update_subset_insert [of "rrgroups r" j "Some g"] by (auto simp: rte_ok_def)

lemma rrg_ok_fresh: "rrg_ok E \<lparr>ep_idx = 0, nused = 0, nendpts = MAX_EP_GROUP, epts = replicate MAX_EP_GROUP None\<rparr>"
  by (simp add: rrg_ok_def)

lemma rrg_ok_add:
  assumes "rrg_ok E g" and "nused g < nendpts g" and "E a \<noteq> None"
  shows "rrg_ok E (g\<lparr>epts := (epts g)[nused g := Some a], nused := nused g + 1\<rparr>)"
  using assms by (auto simp: rrg_ok_def nth_list_update less_Suc_eq)

lemma add_ep_ok:
  assumes inv: "rt_inv c" "ep_inv c" and r: "h_rtes c ra = Some r" and n: "n \<noteq> []" and ok: "n_ok env = all_ok"
  shows "\<exists>ep c'. uta_add_ep env c (Some ta) (Some ra) (Some n) grp = Some (ep, c') \<and> rt_inv c' \<and> ep_inv c' \<and> bframe c c'"
proof (cases "nrrgroups r \<le> grp \<or> grp < 0")
  case True
  then show ?thesis using inv r by (auto simp: uta_add_ep_def)
next
  case False
  have rok: "rte_ok (h_eps c) r" using inv(2) r by (auto simp: ep_inv_def)
  with False have g: "nat grp < length (rrgroups r)" by (simp add: rte_ok_def) linarith
  define rrg where "rrg = (case rrgroups r ! nat grp of Some x \<Rightarrow> x
    | None \<Rightarrow> \<lparr>ep_idx = 0, nused = 0, nendpts = MAX_EP_GROUP, epts = replicate MAX_EP_GROUP None\<rparr>)"
  have rrg: "rrg_ok (h_eps c) rrg"
  proof (cases "rrgroups r ! nat grp")
    case (Some x)
    then have "Some x \<in> set (rrgroups r)" using g by (metis nth_mem)
    then show ?thesis using rok Some by (auto simp: rrg_def rte_ok_def)
  qed (simp add: rrg_def rrg_ok_fresh)
  let ?r1 = "r\<lparr>rrgroups := (rrgroups r)[nat grp := Some rrg]\<rparr>"
  let ?c1 = "put_rte c ra ?r1"
  have c1: "rt_inv ?c1" "ep_inv ?c1" "bframe c ?c1" "h_eps ?c1 = h_eps c"
    using rt_inv_put_rte [OF inv(1) r] ep_inv_put_rte [OF inv(2) rte_ok_upd [OF rok rrg g]] bframe_put_rte [OF r]
    by (simp_all add: put_rte_def)
  from ensure_ep_ok [OF c1(1,2) n ok, of ta] obtain a c2 e where
    c2: "rt_ensure_ep env ?c1 (Some ta) (Some n) = (Some a, c2)" "eframe ?c1 c2" "h_eps c2 a = Some e" "rt_inv c2" "ep_inv c2" by blast
  have mono: "h_eps c x \<noteq> None \<Longrightarrow> h_eps c2 x \<noteq> None" for x using c2(2) c1(4) by (auto simp: eframe_def)
  have bf: "bframe c c2" using bframe_trans [OF c1(3) bframe_eframe [OF c2(2)]] .
  have r2: "h_rtes c2 ra = Some ?r1" using eframe_rtes [OF c2(2)] by (simp add: put_rte_def)
  have rrg2: "rrg_ok (h_eps c2) rrg" using rrg mono unfolding rrg_ok_def by blast
  have rok2: "rte_ok (h_eps c2) r" by (rule rte_ok_mono [OF rok mono])
  have run: "uta_add_ep env c (Some ta) (Some ra) (Some n) grp =
      (if nused rrg \<ge> nendpts rrg then Some (None, c2)
       else Some (Some a, put_rte c2 ra (r\<lparr>rrgroups := (rrgroups r)[nat grp := Some (rrg\<lparr>epts := (epts rrg)[nused rrg := Some a], nused := nused rrg + 1\<rparr>)]\<rparr>)))"
  proof -
    have "nused rrg < nendpts rrg \<Longrightarrow> \<not> nused rrg \<ge> length (epts rrg)" using rrg by (simp add: rrg_ok_def)
    then show ?thesis using False r g c2(1) ok by (simp add: uta_add_ep_def rrg_def Let_def all_ok_def)
  qed
  show ?thesis
  proof (cases "nused rrg \<ge> nendpts rrg")
    case True
    then show ?thesis using run c2 bf by auto
  next
    case False
    let ?g = "rrg\<lparr>epts := (epts rrg)[nused rrg := Some a], nused := nused rrg + 1\<rparr>"
    let ?r3 = "r\<lparr>rrgroups := (rrgroups r)[nat grp := Some ?g]\<rparr>"
    have "rrg_ok (h_eps c2) ?g" using rrg_ok_add [OF rrg2] False c2(3) by simp
    then have "ep_inv (put_rte c2 ra ?r3)" using ep_inv_put_rte [OF c2(5) rte_ok_upd [OF rok2 _ g]] by simp
    moreover have "rt_inv (put_rte c2 ra ?r3)" by (rule rt_inv_put_rte [OF c2(4) r2]) simp_all
    moreover have "bframe c (put_rte c2 ra ?r3)" using bframe_trans [OF bf bframe_put_rte [OF r2]] .
    ultimately show ?thesis using run False by auto
  qed
qed

section \<open>Building an entry\<close>

lemma add_rte_frame:
  assumes "uta_add_rte ok c (Some ta) key nrr = Some (Some a, c')"
  shows "\<exists>new. tframe (put_rte (c\<lparr>h_next := Suc (h_next c)\<rparr>) (h_next c) new) c' \<and>
     nrrgroups new = (if nrr < 0 then 10 else nrr) \<and> rrgroups new = replicate (nat (nrrgroups new)) None"
proof -
  let ?n = "if nrr < 0 then 10 else nrr"
  let ?new = "\<lparr>rte_key = key, rte_refs = 1, rte_mtype = 0, nrrgroups = ?n, rrgroups = replicate (nat ?n) None\<rparr>"
  obtain t c3 where c3: "h_rts c ta = Some t"
     "del_rte (put_rte (c\<lparr>h_next := Suc (h_next c)\<rparr>) (h_next c) ?new) (fst (rmr_sym_pull (rt_hash t) key)) = Some c3"
     "c' = put_rt c3 ta (t\<lparr>rt_hash := snd (rmr_sym_map ok (snd (rmr_sym_pull (rt_hash t) key)) key (Some (h_next c)))\<rparr>)"
    using assms by (auto simp: uta_add_rte_def Let_def new_addr_def case_prod_beta split: bind_splits if_splits)
  have "tframe (put_rte (c\<lparr>h_next := Suc (h_next c)\<rparr>) (h_next c) ?new) c'"
    unfolding c3(3) by (rule tframe_trans [OF tframe_del_rte [OF c3(2)] tframe_put_rt])
  then show ?thesis by (intro exI [of _ ?new]) simp
qed

lemma add_rte_inv:
  assumes inv: "rtc_inv c" and ta: "new_rtable c = Some ta" and key: "key \<noteq> 0" and ok: "ok = all_ok" and nrr: "0 \<le> nrr"
  shows "\<exists>a c' r. uta_add_rte ok c (Some ta) key nrr = Some (Some a, c') \<and> rtc_inv c' \<and> h_rtes c' a = Some r \<and>
     new_rtable c' = new_rtable c \<and> my_name c' = my_name c \<and> ip_list c' = ip_list c"
proof -
  have parts: "rt_inv c" "ep_inv c" "tabs_ok c" using inv by (simp_all add: rtc_inv_def)
  from parts(3) ta obtain t where t: "h_rts c ta = Some t" by (auto simp: tabs_ok_def)
  from add_rte_ok [where ok = ok and nrr = nrr, OF parts(1) t key] ok obtain c' r h where
    c': "uta_add_rte ok c (Some ta) key nrr = Some (Some (h_next c), c')" "rt_inv c'" "h_rtes c' (h_next c) = Some r"
      "h_rts c' = (h_rts c)(ta \<mapsto> t\<lparr>rt_hash := h\<rparr>)" "\<forall>k. key_safe k \<longrightarrow> hget h k = (if k = KNum key then Some (h_next c) else hget (rt_hash t) k)"
    by (auto simp: all_ok_def)
  from add_rte_frame [OF c'(1)] nrr obtain new where
    f: "tframe (put_rte (c\<lparr>h_next := Suc (h_next c)\<rparr>) (h_next c) new) c'" "nrrgroups new = nrr" "rrgroups new = replicate (nat (nrrgroups new)) None" by auto
  let ?c0 = "put_rte (c\<lparr>h_next := Suc (h_next c)\<rparr>) (h_next c) new"
  have "rte_ok (h_eps c) new" using f(2,3) nrr by (simp add: rte_ok_def)
  then have "ep_inv ?c0" using ep_inv_put_rte [of "c\<lparr>h_next := Suc (h_next c)\<rparr>"] parts(2) by (simp add: ep_inv_def)
  moreover have "h_eps ?c0 x \<noteq> None" if "h_rts c' t' = Some rt" "hget (rt_hash rt) (KStr RT_ME_SPACE m) = Some x" for t' rt m x
  proof -
    have "hget h (KStr RT_ME_SPACE m) = hget (rt_hash t) (KStr RT_ME_SPACE m)" using c'(5) by simp
    with that c'(4) t parts(2) show ?thesis by (cases "t' = ta") (auto simp: ep_inv_def put_rte_def)
  qed
  ultimately have ep: "ep_inv c'" by (rule ep_inv_tframe [OF _ f(1)])
  note ff = tframe_fields [OF f(1)]
  have "tabs_ok c'" using parts(3) c'(4) t ff(1-3) unfolding tabs_ok_def by (auto simp: put_rte_def)
  with c' ep ff show ?thesis by (auto simp: rtc_inv_def put_rte_def)
qed

lemma rtc_inv_bframe:
  assumes "rtc_inv c" and "rt_inv c'" and "ep_inv c'" and "bframe c c'"
  shows "rtc_inv c'"
  using assms bframe_fields [OF assms(4)] by (simp add: rtc_inv_def tabs_ok_def)

text \<open>No endpoint name in a group is empty.\<close>

definition group_ok :: "string \<Rightarrow> bool" where
  "group_ok g \<longleftrightarrow> [] \<notin> set (uta_tokenise (Some g) 64 (CHR '',''))"

lemma add_ep_toks_ok:
  assumes "rtc_inv c" and "h_rtes c ra \<noteq> None" and "[] \<notin> set toks" and "new_rtable c = Some ta" and "n_ok env = all_ok"
  shows "\<exists>b c'. add_ep_toks env c (Some ra) toks g hs = Some (b, c') \<and> rtc_inv c' \<and> bframe c c'"
  using assms
proof (induction toks arbitrary: c hs)
  case (Cons t ts)
  show ?case
  proof (cases "t = my_name c")
    case True
    with Cons show ?thesis by simp
  next
    case False
    from Cons.prems(2) obtain r where r: "h_rtes c ra = Some r" by blast
    have env: "n_ok (rt_env.truncate env) = all_ok" using Cons.prems(5) by (simp add: rt_env.truncate_def)
    from add_ep_ok [OF _ _ r, of t "rt_env.truncate env" ta g] Cons.prems env obtain ep c1 where
      c1: "uta_add_ep (rt_env.truncate env) c (Some ta) (Some ra) (Some t) g = Some (ep, c1)" "rt_inv c1" "ep_inv c1" "bframe c c1"
      by (auto simp: rtc_inv_def)
    have i1: "rtc_inv c1" by (rule rtc_inv_bframe [OF Cons.prems(1) c1(2-4)])
    have "h_rtes c1 ra \<noteq> None" "new_rtable c1 = Some ta"
      using c1(4) Cons.prems(2,4) bframe_fields [OF c1(4)] by (auto simp: bframe_def dom_def)
    with Cons.IH [OF i1 this(1)] Cons.prems(3,5) obtain b c' where
      "add_ep_toks env c1 (Some ra) ts g True = Some (b, c')" "rtc_inv c'" "bframe c1 c'" by fastforce
    with c1 False Cons.prems(4) show ?thesis using bframe_trans by fastforce
  qed
qed simp

lemma add_groups_ok:
  assumes "rtc_inv c" and "h_rtes c ra \<noteq> None" and "\<forall>g\<in>set gs. group_ok g" and "new_rtable c = Some ta" and "n_ok env = all_ok"
  shows "\<exists>c'. add_groups env c (Some ra) gs cg = Some c' \<and> rtc_inv c' \<and> bframe c c'"
  using assms
proof (induction gs arbitrary: c cg)
  case (Cons g gs)
  let ?toks = "uta_rmip_tokenise (Some g) (ip_list c) 64 (CHR '','')"
  show ?case
  proof (cases "?toks = []")
    case True
    with Cons show ?thesis by simp
  next
    case False
    have "[] \<notin> set ?toks" using Cons.prems(3) by (simp add: group_ok_def uta_rmip_tokenise_def)
    from add_ep_toks_ok [OF Cons.prems(1,2) this Cons.prems(4,5), of cg False] obtain b c1 where
      c1: "add_ep_toks env c (Some ra) ?toks cg False = Some (b, c1)" "rtc_inv c1" "bframe c c1" by blast
    have "h_rtes c1 ra \<noteq> None" "new_rtable c1 = Some ta"
      using c1(3) Cons.prems(2,4) bframe_fields [OF c1(3)] by (auto simp: bframe_def dom_def)
    with Cons.IH [OF c1(2) this(1), of "if b then cg + 1 else cg"] Cons.prems(3,5) obtain c' where
      "add_groups env c1 (Some ra) gs (if b then cg + 1 else cg) = Some c'" "rtc_inv c'" "bframe c1 c'" by fastforce
    with c1 False show ?thesis using bframe_trans by fastforce
  qed
qed simp

definition entry_ok :: "string \<Rightarrow> int \<Rightarrow> string \<Rightarrow> bool" where
  "entry_ok ts sid rr \<longleftrightarrow> (sid, atoi (clip ts)) \<noteq> (0, 0) \<and>
     (let gs = uta_tokenise (Some (clip rr)) 64 (CHR '';'') in gs = [] \<or> hd gs = ''%meid'' \<or> list_all group_ok gs)"

lemma atoi_range: "-(2^31) \<le> atoi s \<and> atoi s < 2^31"
  using sint_greater_eq [of "word_of_int _ :: u32"] sint_less [of "word_of_int _ :: u32"]
  by (simp add: atoi_def Let_def)

lemma build_entry_ok:
  assumes inv: "rtc_inv c" and ta: "new_rtable c = Some ta" and e: "entry_ok ts sid rr"
    and sid: "-(2^31) \<le> sid" "sid < 2^31" and ok: "n_ok env = all_ok"
  shows "\<exists>c'. build_entry env c (Some ts) sid (Some rr) = Some c' \<and> rtc_inv c' \<and> new_rtable c' = new_rtable c"
proof (cases "ts_for_us (n_ok env) c (clip ts) \<and> uta_tokenise (Some (clip rr)) 64 (CHR '';'') \<noteq> []")
  case False
  then show ?thesis using inv by (auto simp: build_entry_def Let_def)
next
  case True
  let ?gs = "uta_tokenise (Some (clip rr)) 64 (CHR '';'')" and ?key = "build_rt_key sid (atoi (clip ts))"
  define ng where "ng = (if hd ?gs = ''%meid'' then 0 else length ?gs)"
  have key: "?key \<noteq> 0" using e atoi_range [of "clip ts"] by (intro key_nonzero sid) (auto simp: entry_ok_def)
  from add_rte_inv [OF inv ta key ok, of "int ng"] obtain a c1 r where
    c1: "uta_add_rte (n_ok env) c (Some ta) ?key (int ng) = Some (Some a, c1)" "rtc_inv c1" "h_rtes c1 a = Some r" "new_rtable c1 = Some ta"
    using ta by auto
  let ?r = "r\<lparr>rte_mtype := atoi (clip ts)\<rparr>"
  let ?c2 = "put_rte c1 a ?r"
  have "rte_ok (h_eps c1) r" using c1(2,3) by (auto simp: rtc_inv_def ep_inv_def)
  then have "rte_ok (h_eps c1) ?r" by (rule rte_ok_groups) simp_all
  then have "ep_inv ?c2" using ep_inv_put_rte c1(2) unfolding rtc_inv_def by blast
  moreover have "rt_inv ?c2" by (rule rt_inv_put_rte [OF _ c1(3)]) (use c1(2) in \<open>simp_all add: rtc_inv_def\<close>)
  ultimately have "rtc_inv ?c2" using rtc_inv_bframe [OF c1(2) _ _ bframe_put_rte [OF c1(3)]] by blast
  moreover have "h_rtes ?c2 a \<noteq> None" "new_rtable ?c2 = Some ta" using c1(4) by (simp_all add: put_rte_def)
  moreover have "\<forall>g\<in>set (take ng ?gs). group_ok g" using e by (auto simp: entry_ok_def ng_def list_all_iff Let_def)
  ultimately obtain c3 where c3: "add_groups env ?c2 (Some a) (take ng ?gs) 0 = Some c3" "rtc_inv c3" "bframe ?c2 c3"
    using add_groups_ok [of ?c2 a "take ng ?gs" ta env 0] ok by blast
  then have "new_rtable c3 = Some ta" using bframe_fields(3) [OF c3(3)] c1(4) by (simp add: put_rte_def)
  moreover have "build_entry env c (Some ts) sid (Some rr) = Some c3"
    using True c1 c3(1) ta by (simp add: build_entry_def Let_def ng_def)
  ultimately show ?thesis using c3(2) ta by simp
qed

section \<open>Deleting an entry\<close>

text \<open>Replacing the hash of a table by one that agrees on the managed entities.\<close>

lemma rtc_inv_table:
  assumes inv: "rtc_inv c" and t: "h_rts c ta = Some t" and rt: "rt_inv (put_rt c ta t')"
    and me: "\<And>m a. hget (rt_hash t') (KStr RT_ME_SPACE m) = Some a \<Longrightarrow> h_eps c a \<noteq> None" and e: "\<not> rt_error t'"
  shows "rtc_inv (put_rt c ta t')"
proof -
  have "ep_inv (put_rt c ta t')"
  proof (rule ep_inv_tframe [OF _ tframe_put_rt])
    show "ep_inv c" using inv by (simp add: rtc_inv_def)
    fix x rt m a assume "h_rts (put_rt c ta t') x = Some rt" "hget (rt_hash rt) (KStr RT_ME_SPACE m) = Some a"
    then show "h_eps c a \<noteq> None" using me inv by (cases "x = ta") (auto simp: put_rt_def rtc_inv_def ep_inv_def)
  qed
  moreover have "tabs_ok (put_rt c ta t')" using inv t e by (auto simp: rtc_inv_def tabs_ok_def put_rt_def)
  ultimately show ?thesis using rt by (simp add: rtc_inv_def)
qed

lemma rtc_inv_same:
  assumes inv: "rtc_inv c" and t: "h_rts c ta = Some t" and h: "hash_ok (rt_hash t')" "\<And>k. hget (rt_hash t') k = hget (rt_hash t) k"
    and e: "\<not> rt_error t'"
  shows "rtc_inv (put_rt c ta t')"
proof (rule rtc_inv_table [OF inv t _ _ e])
  show "rt_inv (put_rt c ta t')" using inv t h by (intro rt_inv_put) (auto simp: rtc_inv_def)
  fix m a assume "hget (rt_hash t') (KStr RT_ME_SPACE m) = Some a"
  then show "h_eps c a \<noteq> None" using inv t h(2) by (auto simp: rtc_inv_def ep_inv_def)
qed

lemma upd_new_ok:
  assumes inv: "rtc_inv c" and ta: "new_rtable c = Some ta" and f: "\<And>t. rt_hash (f t) = rt_hash t \<and> rt_error (f t) = rt_error t"
  shows "\<exists>c'. upd_new f c = Some c' \<and> rtc_inv c' \<and> new_rtable c' = new_rtable c"
proof -
  from inv ta obtain t where t: "h_rts c ta = Some t" by (auto simp: rtc_inv_def tabs_ok_def)
  have "\<not> rt_error t" "hash_ok (rt_hash t)" using inv t rt_invD(2) by (auto simp: rtc_inv_def tabs_ok_def)
  then have "rtc_inv (put_rt c ta (f t))" using f by (intro rtc_inv_same [OF inv t]) simp_all
  then show ?thesis using ta t by (simp add: upd_new_def put_rt_def)
qed

lemma trash_entry_ok:
  assumes inv: "rtc_inv c" and ta: "new_rtable c = Some ta" and e: "(sid, atoi (clip ts)) \<noteq> (0, 0)"
    and sid: "-(2^31) \<le> sid" "sid < 2^31"
  shows "\<exists>c'. trash_entry env c (Some ts) sid = Some c' \<and> rtc_inv c' \<and> new_rtable c' = new_rtable c"
proof -
  from inv ta obtain t where t: "h_rts c ta = Some t" by (auto simp: rtc_inv_def tabs_ok_def)
  have parts: "rt_inv c" "ep_inv c" "tabs_ok c" and ne: "\<not> rt_error t" using inv t by (auto simp: rtc_inv_def tabs_ok_def)
  have hk: "hash_ok (rt_hash t)" using rt_invD(2) [OF parts(1) t] .
  let ?key = "build_rt_key sid (atoi (clip ts))" and ?V = "rt_view (h_rts c)"
  have key: "?key \<noteq> 0" using e atoi_range [of "clip ts"] by (intro key_nonzero sid) auto
  define h1 where "h1 = snd (rmr_sym_pull (rt_hash t) ?key)"
  have p: "hash_ok h1" "\<And>k. hget h1 k = hget (rt_hash t) k" "rmr_sym_pull (rt_hash t) ?key = (?V ta ?key, h1)"
    using hash_pull [OF hk key] key t by (simp_all add: h1_def rt_view_def prod_eq_iff)
  consider "\<not> ts_for_us (n_ok env) c (clip ts)" | "ts_for_us (n_ok env) c (clip ts)" "?V ta ?key = None"
    | a where "ts_for_us (n_ok env) c (clip ts)" "?V ta ?key = Some a" by blast
  then show ?thesis
  proof cases
    case 1
    then show ?thesis using inv ta t by (simp add: trash_entry_def)
  next
    case 2
    have "rtc_inv (put_rt c ta (t\<lparr>rt_hash := h1\<rparr>))" using p ne by (intro rtc_inv_same [OF inv t]) simp_all
    with 2 show ?thesis using ta t p(3) by (simp add: trash_entry_def put_rt_def)
  next
    case 3
    let ?h2 = "rmr_sym_del h1 (KNum ?key)"
    have h2: "hash_ok ?h2" "key_safe k \<Longrightarrow> hget ?h2 k = (if k = KNum ?key then None else hget (rt_hash t) k)" for k
      using hash_del [OF p(1), of "KNum ?key"] key p(2) by simp_all
    let ?c1 = "put_rt c ta (t\<lparr>rt_hash := ?h2\<rparr>)"
    have view: "rt_view (h_rts ?c1) = ?V(ta := (?V ta)(?key := None))"
      using h2(2) key t by (auto simp: put_rt_def rt_view_upd fun_eq_iff rt_view_def)
    from del_rte_ok [OF rt_invD(1) [OF parts(1)] 3(2)] obtain R' where
      R': "del_rte c (Some a) = Some (c\<lparr>h_rtes := R'\<rparr>)" "refs_ok R' (?V(ta := (?V ta)(?key := None)))" "\<forall>a. h_rtes c a = None \<longrightarrow> R' a = None" by blast
    let ?c2 = "?c1\<lparr>h_rtes := R'\<rparr>"
    have d: "del_rte ?c1 (Some a) = Some ?c2"
      by (rule del_rte_put_rt [OF R'(1)])
    have f: "tframe c ?c2" by (rule tframe_trans [OF tframe_put_rt tframe_del_rte [OF d]])
    have "rt_inv ?c2" using R'(2,3) parts(1) h2(1) view t by (auto simp: rt_inv_def put_rt_def)
    moreover have "ep_inv ?c2"
    proof (rule ep_inv_tframe [OF parts(2) f])
      fix x rt m y assume *: "h_rts ?c2 x = Some rt" "hget (rt_hash rt) (KStr RT_ME_SPACE m) = Some y"
      have "hget ?h2 (KStr RT_ME_SPACE m) = hget (rt_hash t) (KStr RT_ME_SPACE m)" using h2(2) by simp
      with * t parts(2) show "h_eps c y \<noteq> None" by (cases "x = ta") (auto simp: ep_inv_def put_rt_def)
    qed
    moreover have "tabs_ok ?c2" using parts(3) t ne unfolding tabs_ok_def by (auto simp: put_rt_def)
    moreover have "trash_entry env c (Some ts) sid = Some ?c2"
      using 3 ta t p(3) d by (simp add: trash_entry_def rmr_sym_ndel_def)
    ultimately show ?thesis by (simp add: rtc_inv_def put_rt_def)
  qed
qed

section \<open>Managed entities\<close>

lemma rtc_inv_eframe:
  assumes "rtc_inv c" and "eframe c c'" and "rt_inv c'" and "ep_inv c'"
  shows "rtc_inv c'"
  using rtc_inv_bframe [OF assms(1,3,4) bframe_eframe [OF assms(2)]] .

lemma rt_inv_putv_str:
  assumes inv: "rt_inv c" and t: "h_rts c ta = Some t" and k: "k = KStr cl m" "cl \<noteq> 0"
    and h: "hash_ok h" "\<And>k'. key_safe k' \<Longrightarrow> k' \<noteq> k \<Longrightarrow> hget h k' = hget (rt_hash t) k'"
  shows "rt_inv (put_rt c ta (t\<lparr>rt_hash := h\<rparr>))"
proof -
  have "rt_view ((h_rts c)(ta \<mapsto> t\<lparr>rt_hash := h\<rparr>)) = rt_view (h_rts c)"
    using h(2) k t by (auto simp: rt_view_def fun_eq_iff)
  then show ?thesis using inv h(1) t by (auto simp: rt_inv_def put_rt_def)
qed

lemma meid_ar_loop_ok:
  assumes "rtc_inv c" and "new_rtable c = Some ta" and "n_ok env = all_ok"
  shows "\<exists>c'. meid_ar_loop env c ta owner ms = Some c' \<and> rtc_inv c' \<and> new_rtable c' = new_rtable c"
  using assms
proof (induction ms arbitrary: c)
  case (Cons m ms)
  show ?case
  proof (cases "owner = []")
    case True
    then have "rt_ensure_ep (rt_env.truncate env) c (Some ta) (Some owner) = (None, c)" by (simp add: rt_ensure_ep_def)
    with Cons show ?thesis by simp
  next
    case False
    have env: "n_ok (rt_env.truncate env) = all_ok" using Cons.prems(3) by (simp add: rt_env.truncate_def)
    have parts: "rt_inv c" "ep_inv c" using Cons.prems(1) by (simp_all add: rtc_inv_def)
    from ensure_ep_ok [OF parts False env, of ta] obtain a c1 e where
      c1: "rt_ensure_ep (rt_env.truncate env) c (Some ta) (Some owner) = (Some a, c1)" "eframe c c1" "h_eps c1 a = Some e" "rt_inv c1" "ep_inv c1" by blast
    have i1: "rtc_inv c1" by (rule rtc_inv_eframe [OF Cons.prems(1) c1(2,4,5)])
    have n1: "new_rtable c1 = Some ta" using bframe_fields(3) [OF bframe_eframe [OF c1(2)]] Cons.prems(2) by simp
    from i1 n1 obtain t where t: "h_rts c1 ta = Some t" by (auto simp: rtc_inv_def tabs_ok_def)
    let ?k = "KStr RT_ME_SPACE m"
    let ?h = "sym_putv (rt_hash t) ?k (Some a)"
    have ht: "hash_ok (rt_hash t)" "\<not> rt_error t" using rt_invD(2) [OF c1(4) t] i1 t by (auto simp: rtc_inv_def tabs_ok_def)
    have h: "hash_ok ?h" "key_safe k' \<Longrightarrow> hget ?h k' = (if k' = ?k then Some a else hget (rt_hash t) k')" for k'
      using hash_putv [OF ht(1), of ?k] by simp_all
    have "rtc_inv (put_rt c1 ta (t\<lparr>rt_hash := ?h\<rparr>))"
    proof (rule rtc_inv_table [OF i1 t])
      show "rt_inv (put_rt c1 ta (t\<lparr>rt_hash := ?h\<rparr>))" by (rule rt_inv_putv_str [where k = ?k and cl = RT_ME_SPACE and m = m, OF c1(4) t refl _ h(1)]) (simp_all add: h(2))
      fix m' x assume "hget (rt_hash (t\<lparr>rt_hash := ?h\<rparr>)) (KStr RT_ME_SPACE m') = Some x"
      then show "h_eps c1 x \<noteq> None" using h(2) [of "KStr RT_ME_SPACE m'"] c1(3,5) t by (auto simp: ep_inv_def split: if_splits)
    qed (use ht in simp)
    moreover have "new_rtable (put_rt c1 ta (t\<lparr>rt_hash := ?h\<rparr>)) = Some ta" using n1 by (simp add: put_rt_def)
    ultimately obtain c' where "meid_ar_loop env (put_rt c1 ta (t\<lparr>rt_hash := ?h\<rparr>)) ta owner ms = Some c'" "rtc_inv c'" "new_rtable c' = Some ta"
      using Cons.IH [of "put_rt c1 ta (t\<lparr>rt_hash := ?h\<rparr>)"] Cons.prems(3) by auto
    then show ?thesis using c1(1) t Cons.prems(2,3) by (simp add: put_putv all_ok_def)
  qed
qed simp

lemma meid_del_fold:
  assumes "hash_ok h"
  shows "hash_ok (fold (\<lambda>m h. rmr_sym_del h (KStr RT_ME_SPACE m)) ms h) \<and>
     (\<forall>k. key_safe k \<longrightarrow> hget (fold (\<lambda>m h. rmr_sym_del h (KStr RT_ME_SPACE m)) ms h) k =
        (if \<exists>m\<in>set ms. k = KStr RT_ME_SPACE m then None else hget h k))"
  using assms
proof (induction ms arbitrary: h)
  case (Cons m ms)
  have "hash_ok (rmr_sym_del h (KStr RT_ME_SPACE m))"
    "\<And>k. key_safe k \<Longrightarrow> hget (rmr_sym_del h (KStr RT_ME_SPACE m)) k = (if k = KStr RT_ME_SPACE m then None else hget h k)"
    using hash_del [OF Cons.prems, of "KStr RT_ME_SPACE m"] by simp_all
  with Cons.IH [OF this(1)] show ?case by auto
qed simp

lemma parse_meid_del_ok:
  assumes inv: "rtc_inv c" and ta: "new_rtable c = Some ta"
  shows "\<exists>c'. parse_meid_del c ta ml = Some c' \<and> rtc_inv c' \<and> new_rtable c' = new_rtable c"
proof -
  from inv ta obtain t where t: "h_rts c ta = Some t" by (auto simp: rtc_inv_def tabs_ok_def)
  have ht: "hash_ok (rt_hash t)" "\<not> rt_error t" "rt_inv c" using rt_invD(2) inv t by (auto simp: rtc_inv_def tabs_ok_def)
  define h where "h = fold (\<lambda>m h. rmr_sym_del h (KStr RT_ME_SPACE m)) (uta_tokenise (Some (clip ml)) 128 (CHR '' '')) (rt_hash t)"
  have h: "hash_ok h" "\<And>k. key_safe k \<Longrightarrow> hget h k = (if \<exists>m\<in>set (uta_tokenise (Some (clip ml)) 128 (CHR '' '')). k = KStr RT_ME_SPACE m then None else hget (rt_hash t) k)"
    using meid_del_fold [OF ht(1)] unfolding h_def by blast+
  have "rt_view ((h_rts c)(ta \<mapsto> t\<lparr>rt_hash := h\<rparr>)) = rt_view (h_rts c)"
    using h(2) t by (auto simp: rt_view_def fun_eq_iff)
  then have rt: "rt_inv (put_rt c ta (t\<lparr>rt_hash := h\<rparr>))" using ht(3) h(1) t by (auto simp: rt_inv_def put_rt_def)
  have "rtc_inv (put_rt c ta (t\<lparr>rt_hash := h\<rparr>))"
  proof (rule rtc_inv_table [OF inv t rt])
    fix m' x assume "hget (rt_hash (t\<lparr>rt_hash := h\<rparr>)) (KStr RT_ME_SPACE m') = Some x"
    then show "h_eps c x \<noteq> None" using h(2) [of "KStr RT_ME_SPACE m'"] inv t by (auto simp: rtc_inv_def ep_inv_def split: if_splits)
  qed (use ht in simp)
  then show ?thesis using t by (simp add: parse_meid_del_def h_def put_rt_def)
qed

section \<open>Starting, ending and dropping a table\<close>

lemma drop_new_ok:
  assumes inv: "rtc_inv c" and ta: "new_rtable c = Some ta"
  shows "\<exists>c'. drop_new c = Some c' \<and> rtc_inv c' \<and> new_rtable c' = None \<and> rtable c' = rtable c \<and>
     (\<forall>a. rtable c = Some a \<longrightarrow> h_rts c' a = h_rts c a)"
proof -
  have parts: "rt_inv c" "ep_inv c" "tabs_ok c" using inv by (simp_all add: rtc_inv_def)
  from parts(3) ta obtain t where t: "h_rts c ta = Some t" by (auto simp: tabs_ok_def)
  from rt_drop_ok [OF parts(1) t] obtain c1 where c1: "uta_rt_drop c (Some ta) = Some c1" "rt_inv c1" "h_rts c1 = (h_rts c)(ta := None)" by blast
  have f: "tframe c c1" by (rule tframe_drop [OF c1(1)])
  note ff = tframe_fields [OF f]
  have "ep_inv c1" by (rule ep_inv_tframe [OF parts(2) f]) (use c1(3) parts(2) in \<open>auto simp: ep_inv_def split: if_splits\<close>)
  then have "ep_inv (c1\<lparr>new_rtable := None\<rparr>)" by (simp add: ep_inv_def)
  moreover have "rt_inv (c1\<lparr>new_rtable := None\<rparr>)" using c1(2) by (simp add: rt_inv_def)
  moreover have "rtable c \<noteq> Some ta" using parts(3) ta by (auto simp: tabs_ok_def)
  then have "tabs_ok (c1\<lparr>new_rtable := None\<rparr>)" using parts(3) ff(1-3) c1(3) ta unfolding tabs_ok_def by auto
  moreover have "\<forall>a. rtable c = Some a \<longrightarrow> h_rts c1 a = h_rts c a" using parts(3) ta c1(3) by (auto simp: tabs_ok_def)
  ultimately show ?thesis using c1(1) ta ff(1) by (simp add: drop_new_def rtc_inv_def)
qed

lemma prep_inv:
  assumes inv: "rtc_inv c" and n: "new_rtable c = None" and ok: "ok = all_ok"
  shows "\<exists>d c' t'. prep_new_rt ok c al = Some (d, c') \<and> rt_inv c' \<and> ep_inv c' \<and> h_rts c' = (h_rts c)(d \<mapsto> t') \<and> \<not> rt_error t' \<and>
     rtable c' = rtable c \<and> old_rtable c' = None \<and> rtable c \<noteq> Some d"
proof -
  have parts: "rt_inv c" "ep_inv c" "tabs_ok c" using inv by (simp_all add: rtc_inv_def)
  have oks: "ok M_rt" "ok M_symtab" "ok M_symlist" "ok M_things" "ok M_symele" using ok by (simp_all add: all_ok_def)
  have ep0: "ep_inv (c\<lparr>old_rtable := None\<rparr>)" using parts(2) by (simp add: ep_inv_def)
  show ?thesis
  proof (cases "rtable c")
    case None
    with parts(3) have old: "old_rtable c = None" by (simp add: tabs_ok_def)
    have inv0: "rt_inv (c\<lparr>old_rtable := None\<rparr>)" using parts(1) by (simp add: rt_inv_def)
    from rt_init_ok [where ok = ok, OF inv0 oks(1-3)] obtain c1 t where
      c1: "uta_rt_init ok (c\<lparr>old_rtable := None\<rparr>) = (Some (h_next c), c1)" "rt_inv c1" "h_rts c1 = (h_rts c)(h_next c \<mapsto> t)"
        "\<forall>k. hget (rt_hash t) k = None" "\<not> rt_error t" "rtable c1 = rtable c" "old_rtable c1 = None" by auto
    let ?c' = "put_rt c1 (h_next c) (t\<lparr>ref_count := 0\<rparr>)"
    have t: "h_rts c1 (h_next c) = Some t" using c1(3) by simp
    have run: "prep_new_rt ok c al = Some (h_next c, ?c')"
      using None old c1(1) t by (simp add: prep_new_rt_def prep_clear_def uta_rt_clone_def)
    have "rt_inv ?c'" using rt_invD(2) [OF c1(2) t] by (intro rt_inv_put [OF c1(2) t]) simp_all
    moreover have "ep_inv ?c'"
    proof (rule ep_inv_tframe [OF ep0 tframe_prep [OF run]])
      fix x rt m a assume "h_rts ?c' x = Some rt" "hget (rt_hash rt) (KStr RT_ME_SPACE m) = Some a"
      then show "h_eps (c\<lparr>old_rtable := None\<rparr>) a \<noteq> None" using c1(3,4) parts(2) by (auto simp: put_rt_def ep_inv_def split: if_splits)
    qed
    ultimately show ?thesis using run c1 None
      by (intro exI [of _ "h_next c"] exI [of _ ?c'] exI [of _ "t\<lparr>ref_count := 0\<rparr>"]) (simp add: put_rt_def)
  next
    case (Some s)
    from Some parts(3) obtain ts where ts: "h_rts c s = Some ts" by (auto simp: tabs_ok_def)
    define d where "d = (case old_rtable c of Some o' \<Rightarrow> o' | None \<Rightarrow> h_next c)"
    have o: "old_rtable c = Some d \<Longrightarrow> d \<noteq> s \<and> h_rts c d \<noteq> None" using parts(3) Some by (auto simp: tabs_ok_def)
    from prep_new_rt_ok [where ok = ok and all_spaces = al, OF parts(1) Some ts o oks d_def] obtain c' t' where
      c': "prep_new_rt ok c al = Some (d, c')" "rt_inv c'" "h_rts c' = (h_rts c)(d \<mapsto> t')" "d \<noteq> s"
        "\<forall>k. key_safe k \<longrightarrow> hget (rt_hash t') k = (if kcls k = RT_ME_SPACE \<or> al \<and> kcls k = RT_MT_SPACE then hget (rt_hash ts) k else None)"
        "rt_error t' = False" "rtable c' = Some s" "old_rtable c' = None" by blast
    have me: "hget (rt_hash t') (KStr RT_ME_SPACE m) = hget (rt_hash ts) (KStr RT_ME_SPACE m)" for m using c'(5) by simp
    have "ep_inv c'"
    proof (rule ep_inv_tframe [OF ep0 tframe_prep [OF c'(1)]])
      fix x rt m a assume "h_rts c' x = Some rt" "hget (rt_hash rt) (KStr RT_ME_SPACE m) = Some a"
      then show "h_eps (c\<lparr>old_rtable := None\<rparr>) a \<noteq> None" using c'(3) me ts parts(2) by (cases "x = d") (auto simp: ep_inv_def)
    qed
    then show ?thesis using c' Some by (intro exI [of _ d] exI [of _ c'] exI [of _ t']) simp
  qed
qed

lemma start_new_ok:
  assumes inv: "rtc_inv c" and n: "new_rtable c = None" and ok: "n_ok env = all_ok"
    and f: "\<And>t. rt_hash (f t) = rt_hash t \<and> rt_error (f t) = rt_error t"
  shows "\<exists>c'. start_new env al f c = Some c' \<and> rtc_inv c' \<and> new_rtable c' \<noteq> None \<and> rtable c' = rtable c"
proof -
  from prep_inv [where ok = "n_ok env" and al = al, OF inv n ok] obtain d c1 t where
    c1: "prep_new_rt (n_ok env) c al = Some (d, c1)" "rt_inv c1" "ep_inv c1" "h_rts c1 = (h_rts c)(d \<mapsto> t)" "\<not> rt_error t"
      "rtable c1 = rtable c" "old_rtable c1 = None" "rtable c \<noteq> Some d" by blast
  let ?c2 = "c1\<lparr>new_rtable := Some d\<rparr>"
  have "tabs_ok ?c2" using c1(4-8) inv unfolding rtc_inv_def tabs_ok_def by auto
  moreover have "rt_inv ?c2" "ep_inv ?c2" using c1(2,3) by (simp_all add: rt_inv_def ep_inv_def)
  ultimately have "rtc_inv ?c2" by (simp add: rtc_inv_def)
  from upd_new_ok [OF this, of d f] f obtain c' where c': "upd_new f ?c2 = Some c'" "rtc_inv c'" "new_rtable c' = Some d" by auto
  moreover from c'(1) c1(4,6) have "rtable c' = rtable c" by (auto simp: upd_new_def put_rt_def)
  ultimately show ?thesis using c1(1) by (simp add: start_new_def)
qed

lemma roll_ok:
  assumes inv: "rtc_inv c" and ta: "new_rtable c = Some ta"
  shows "\<exists>c'. roll_tables c = Some c' \<and> rtc_inv c' \<and> rtable c' = Some ta \<and> old_rtable c' = rtable c \<and> new_rtable c' = None"
proof -
  from inv ta obtain t where t: "h_rts c ta = Some t" "\<not> rt_error t" by (auto simp: rtc_inv_def tabs_ok_def)
  let ?c' = "c\<lparr>old_rtable := rtable c, rtable := new_rtable c, new_rtable := None\<rparr>"
  have "rtc_inv ?c'" using inv ta by (auto simp: rtc_inv_def rt_inv_def ep_inv_def tabs_ok_def)
  moreover have "roll_tables c = Some ?c'" using ta t by (simp add: roll_tables_def)
  ultimately show ?thesis using ta by simp
qed

section \<open>Records\<close>

definition rec_toks :: "string \<Rightarrow> string list" where
  "rec_toks buf = (let t = uta_tokenise (Some (trim_rec buf)) 128 (CHR ''|'') in if t = [] then [] else clip (hd t) # tl t)"

text \<open>What a record has to satisfy: enough fields for its kind, no empty endpoint name, not type 0
  with subscription 0, and no count at the end of a table when no table was started.\<close>

definition rec_ok :: "'a rtc_ctx_scheme \<Rightarrow> string \<Rightarrow> bool" where
  "rec_ok c buf =
     (let toks = rec_toks buf; k = (if toks = [] \<or> hd toks = [] then CHR ''#'' else hd (hd toks)) in
      if k = CHR ''d'' then new_rtable c = None \<or> length toks < 3 \<or> (atoi (toks ! 2), atoi (clip (toks ! 1))) \<noteq> (0, 0)
      else if k = CHR ''n'' then 2 \<le> length toks \<and> (clip (toks ! 1) = ''end'' \<and> length toks > 2 \<longrightarrow> new_rtable c \<noteq> None)
      else if k = CHR ''m'' then
        (if hd toks = ''mse'' then new_rtable c = None \<or> length toks < 4 \<or> entry_ok (toks ! 1) (atoi (toks ! 2)) (toks ! 3)
         else hd toks = ''meid_map'' \<and> clip (toks ! 1) = ''end'' \<and> length toks > 2 \<longrightarrow> new_rtable c \<noteq> None)
      else if k = CHR ''r'' then new_rtable c = None \<or>
        3 \<le> length toks \<and> entry_ok (toks ! 1) (if length toks > 3 then atoi (toks ! 3) else UNSET_SUBID) (toks ! 2)
      else if k = CHR ''u'' then cflags c AND CFL_FULLRT = 0 \<or> 2 \<le> length toks
      else True)"

lemma rtc_inv_ext [simp]:
  "rtc_inv (c\<lparr>rt_events := x1\<rparr>) = rtc_inv c" "rtc_inv (c\<lparr>table_id := x2\<rparr>) = rtc_inv c" "rtc_inv (c\<lparr>snarf_rt_fd := x3\<rparr>) = rtc_inv c"
  "rtc_inv (c\<lparr>rtable_ready := x4\<rparr>) = rtc_inv c" "rtc_inv (c\<lparr>rtable_ready := x4, cflags := x5\<rparr>) = rtc_inv c"
  "rtc_inv (emit c e) = rtc_inv c" "rtc_inv (ack p c b r) = rtc_inv c"
  by (simp_all add: rtc_inv_def rt_inv_def ep_inv_def tabs_ok_def emit_def ack_def)

lemma tables_ext [simp]:
  "new_rtable (emit c e) = new_rtable c" "new_rtable (ack p c b r) = new_rtable c" "new_table (emit c e) = new_table c" "new_table (ack p c b r) = new_table c"
  "rtable (emit c e) = rtable c" "rtable (ack p c b r) = rtable c" "h_rts (emit c e) = h_rts c" "h_rts (ack p c b r) = h_rts c"
  "old_rtable (emit c e) = old_rtable c" "cflags (emit c e) = cflags c" "cflags (ack p c b r) = cflags c"
  by (simp_all add: emit_def ack_def new_table_def)

lemma cycle_ext [simp]:
  "rtc_inv (cycle_snarfed_rt env c) = rtc_inv c" "new_rtable (cycle_snarfed_rt env c) = new_rtable c"
  "new_table (cycle_snarfed_rt env c) = new_table c" "rtable (cycle_snarfed_rt env c) = rtable c" "h_rts (cycle_snarfed_rt env c) = h_rts c"
  by (auto simp: cycle_snarfed_rt_def Let_def new_table_def split: option.splits)

lemma new_table_ok: "rtc_inv c \<Longrightarrow> new_rtable c = Some ta \<Longrightarrow> \<exists>t. new_table c = Some t"
  by (auto simp: new_table_def rtc_inv_def tabs_ok_def)

lemma drop_if_ok:
  assumes "rtc_inv c"
  shows "\<exists>c'. (if new_rtable c \<noteq> None then drop_new (ack p c b r) else Some c) = Some c' \<and> rtc_inv c' \<and> new_rtable c' = None"
  using drop_new_ok [of "ack p c b r"] assms by (cases "new_rtable c") auto

lemma parse_newrt_ok:
  assumes inv: "rtc_inv c" and n: "2 \<le> length toks" and e: "clip (toks ! 1) = ''end'' \<Longrightarrow> length toks > 2 \<Longrightarrow> new_rtable c \<noteq> None"
    and ok: "n_ok env = all_ok"
  shows "\<exists>c'. parse_newrt env pctx c toks = Some c' \<and> rtc_inv c'"
proof (cases "clip (toks ! 1) = ''end''")
  case False
  from drop_if_ok [OF inv] obtain c1 where c1: "(if new_rtable c \<noteq> None then drop_new (ack pctx c False (Some ''table not complete'')) else Some c) = Some c1"
    "rtc_inv c1" "new_rtable c1 = None" by blast
  let ?c2 = "c1\<lparr>table_id := (if length toks > 2 then Some (clip (toks ! 2)) else None)\<rparr>"
  from start_new_ok [of ?c2 env "\<lambda>t. t\<lparr>rt_updates := 0\<rparr>" False] c1(2,3) ok obtain c' where
    "start_new env False (\<lambda>t. t\<lparr>rt_updates := 0\<rparr>) ?c2 = Some c'" "rtc_inv c'" by auto
  with False n c1(1) show ?thesis by (auto simp: parse_newrt_def)
next
  case True
  define c0 where "c0 = (if snarf_rt_fd c \<ge> 0 then cycle_snarfed_rt env c else c)"
  have c0: "rtc_inv c0" "new_rtable c0 = new_rtable c" "new_table c0 = new_table c" using inv by (simp_all add: c0_def)
  show ?thesis
  proof (cases "new_rtable c")
    case None
    with e True have "\<not> length toks > 2" by auto
    then show ?thesis using True n None c0 by (auto simp: parse_newrt_def c0_def [symmetric])
  next
    case (Some ta)
    with c0 obtain t where t: "new_table c0 = Some t" using new_table_ok [OF inv] by auto
    from roll_ok [OF c0(1), of ta] Some c0(2) obtain c1 where c1: "roll_tables c0 = Some c1" "rtc_inv c1" by auto
    from drop_new_ok [of "ack pctx c0 False (Some (count_text (toks ! 2) (rt_updates t)))" ta] c0 Some obtain c2 where
      c2: "drop_new (ack pctx c0 False (Some (count_text (toks ! 2) (rt_updates t)))) = Some c2" "rtc_inv c2" by auto
    show ?thesis using True n Some c0(1,2) t c1 c2
      by (cases "length toks > 2 \<and> rt_updates t \<noteq> atoi (toks ! 2)") (auto simp: parse_newrt_def c0_def [symmetric])
  qed
qed

lemma parse_update_ok:
  assumes inv: "rtc_inv c" and n: "cflags c AND CFL_FULLRT = 0 \<or> 2 \<le> length toks" and ok: "n_ok env = all_ok"
  shows "\<exists>c'. parse_update env pctx c toks = Some c' \<and> rtc_inv c'"
proof (cases "cflags c AND CFL_FULLRT = 0")
  case True
  then show ?thesis using inv by (simp add: parse_update_def)
next
  case full: False
  with n have n: "2 \<le> length toks" by simp
  show ?thesis
  proof (cases "clip (toks ! 1) = ''end''")
    case False
    from drop_if_ok [OF inv] obtain c1 where c1: "(if new_rtable c \<noteq> None then drop_new (ack pctx c False (Some ''table not complete'')) else Some c) = Some c1"
      "rtc_inv c1" "new_rtable c1 = None" by blast
    let ?c2 = "if length toks > 2 then c1\<lparr>table_id := Some (clip (toks ! 2))\<rparr> else c1"
    have "rtc_inv ?c2" "new_rtable ?c2 = None" using c1(2,3) by simp_all
    from start_new_ok [OF this ok, of "\<lambda>t. t\<lparr>rt_updates := 0\<rparr>" True] obtain c' where
      "start_new env True (\<lambda>t. t\<lparr>rt_updates := 0\<rparr>) ?c2 = Some c'" "rtc_inv c'" by auto
    with full False n c1(1) show ?thesis by (auto simp: parse_update_def)
  next
    case True
    define c0 where "c0 = (if snarf_rt_fd c \<ge> 0 then cycle_snarfed_rt env c else c)"
    have c0: "rtc_inv c0" "new_rtable c0 = new_rtable c" "new_table c0 = new_table c" using inv by (simp_all add: c0_def)
    show ?thesis
    proof (cases "new_rtable c")
      case None
      then show ?thesis using True full n inv by (simp add: parse_update_def)
    next
      case (Some ta)
      with c0 obtain t where t: "new_table c0 = Some t" using new_table_ok [OF inv] by auto
      from roll_ok [OF c0(1), of ta] Some c0(2) obtain c1 where c1: "roll_tables c0 = Some c1" "rtc_inv c1" by auto
      from drop_new_ok [of "ack pctx c0 False (Some (p_wbuf env))" ta] c0 Some obtain c2 where
        c2: "drop_new (ack pctx c0 False (Some (p_wbuf env))) = Some c2" "rtc_inv c2" by auto
      show ?thesis using True full n Some c0(1,2) t c1 c2
        by (cases "length toks > 2 \<and> rt_updates t \<noteq> atoi (toks ! 2)") (auto simp: parse_update_def c0_def [symmetric])
    qed
  qed
qed

lemma meid_parser_ok:
  assumes inv: "rtc_inv c" and e: "toks ! 0 = ''meid_map'' \<Longrightarrow> clip (toks ! 1) = ''end'' \<Longrightarrow> length toks > 2 \<Longrightarrow> new_rtable c \<noteq> None"
    and ok: "n_ok env = all_ok"
  shows "\<exists>c'. meid_parser env pctx c toks = Some c' \<and> rtc_inv c'"
proof -
  let ?start = "clip (toks ! 1) \<noteq> [] \<and> hd (clip (toks ! 1)) = CHR ''s''"
  consider "length toks < 2" | "toks ! 0 = ''meid_map''" "?start" "2 \<le> length toks"
    | "toks ! 0 = ''meid_map''" "\<not> ?start" "clip (toks ! 1) = ''end''" "2 \<le> length toks"
    | "toks ! 0 = ''meid_map''" "\<not> ?start" "clip (toks ! 1) \<noteq> ''end''" "2 \<le> length toks"
    | "toks ! 0 \<noteq> ''meid_map''" "2 \<le> length toks" by linarith
  then show ?thesis
  proof cases
    case 2
    have "\<exists>c1. (if new_rtable c \<noteq> None then do { d \<leftarrow> drop_new c; Some (ack pctx d False (Some ''table not complete'')) } else Some c) = Some c1 \<and>
        rtc_inv c1 \<and> new_rtable c1 = None"
      using drop_new_ok [OF inv] inv by (cases "new_rtable c") auto
    then obtain c1 where c1: "(if new_rtable c \<noteq> None then do { d \<leftarrow> drop_new c; Some (ack pctx d False (Some ''table not complete'')) } else Some c) = Some c1"
      "rtc_inv c1" "new_rtable c1 = None" by blast
    let ?c2 = "c1\<lparr>table_id := (if length toks > 2 then Some (clip (toks ! 2)) else None)\<rparr>"
    have "rtc_inv ?c2" "new_rtable ?c2 = None" using c1(2,3) by simp_all
    from start_new_ok [OF this ok, of "\<lambda>t. t\<lparr>rt_mupdates := 0\<rparr>" True] obtain c' where
      "start_new env True (\<lambda>t. t\<lparr>rt_mupdates := 0\<rparr>) ?c2 = Some c'" "rtc_inv c'" by auto
    with 2 c1(1) show ?thesis by (simp add: meid_parser_def Let_def)
  next
    case 3
    show ?thesis
    proof (cases "new_rtable c")
      case None
      have "\<not> length toks > 2" using 3 e None by blast
      with 3 None inv show ?thesis by (simp add: meid_parser_def Let_def)
    next
      case (Some ta)
      from new_table_ok [OF inv Some] obtain t where t: "new_table c = Some t" ..
      from roll_ok [OF inv Some] obtain c1 where c1: "roll_tables c = Some c1" "rtc_inv c1" by auto
      from drop_new_ok [of "ack pctx c False (Some (count_text (toks ! 2) (rt_updates t)))" ta] inv Some obtain c2 where
        c2: "drop_new (ack pctx c False (Some (count_text (toks ! 2) (rt_updates t)))) = Some c2" "rtc_inv c2" by auto
      show ?thesis using 3 Some t c1 c2
        by (cases "length toks > 2 \<and> rt_mupdates t \<noteq> atoi (toks ! 2)") (auto simp: meid_parser_def Let_def)
    qed
  next
    case 5
    show ?thesis
    proof (cases "new_rtable c")
      case None
      with 5 inv show ?thesis by (simp add: meid_parser_def)
    next
      case (Some ta)
      from meid_ar_loop_ok [OF inv Some ok] obtain c1 where
        c1: "parse_meid_ar env c ta (toks ! 1) (toks ! 2) = Some c1" "rtc_inv c1" "new_rtable c1 = Some ta"
        unfolding parse_meid_ar_def using Some by metis
      from upd_new_ok [OF c1(2,3), of "\<lambda>t. t\<lparr>rt_mupdates := rt_mupdates t + 1\<rparr>"] obtain c1' where
        c1': "upd_new (\<lambda>t. t\<lparr>rt_mupdates := rt_mupdates t + 1\<rparr>) c1 = Some c1'" "rtc_inv c1'" by auto
      from parse_meid_del_ok [OF inv Some, of "toks ! 1"] Some obtain c2 where
        c2: "parse_meid_del c ta (toks ! 1) = Some c2" "rtc_inv c2" "new_rtable c2 = Some ta" by auto
      from upd_new_ok [OF c2(2,3), of "\<lambda>t. t\<lparr>rt_mupdates := rt_mupdates t + 1\<rparr>"] obtain c2' where
        c2': "upd_new (\<lambda>t. t\<lparr>rt_mupdates := rt_mupdates t + 1\<rparr>) c2 = Some c2'" "rtc_inv c2'" by auto
      show ?thesis using 5 Some inv c1(1) c1' c2(1) c2' by (simp add: meid_parser_def)
    qed
  qed (use inv in \<open>auto simp: meid_parser_def Let_def\<close>)
qed

lemma entry_rec_ok:
  assumes inv: "rtc_inv c" and ta: "new_rtable c = Some ta" and e: "entry_ok ts sid rr"
    and sid: "-(2^31) \<le> sid" "sid < 2^31" and ok: "n_ok env = all_ok"
  shows "\<exists>c'. do { c1 \<leftarrow> build_entry env c (Some ts) sid (Some rr); upd_new (\<lambda>t. t\<lparr>rt_updates := rt_updates t + 1\<rparr>) c1 } = Some c' \<and> rtc_inv c'"
    and "\<exists>c'. do { c1 \<leftarrow> upd_new (\<lambda>t. t\<lparr>rt_updates := rt_updates t + 1\<rparr>) c; build_entry env c1 (Some ts) sid (Some rr) } = Some c' \<and> rtc_inv c'"
proof -
  let ?f = "\<lambda>t. t\<lparr>rt_updates := rt_updates t + 1\<rparr>"
  from build_entry_ok [OF inv ta e sid ok] ta obtain c1 where
    c1: "build_entry env c (Some ts) sid (Some rr) = Some c1" "rtc_inv c1" "new_rtable c1 = Some ta" by auto
  from upd_new_ok [OF c1(2,3), of ?f] c1(1) show "\<exists>c'. do { c1 \<leftarrow> build_entry env c (Some ts) sid (Some rr); upd_new ?f c1 } = Some c' \<and> rtc_inv c'" by auto
  from upd_new_ok [OF inv ta, of ?f] ta obtain c2 where c2: "upd_new ?f c = Some c2" "rtc_inv c2" "new_rtable c2 = Some ta" by auto
  from build_entry_ok [OF c2(2,3) e sid ok] c2(1) show "\<exists>c'. do { c1 \<leftarrow> upd_new ?f c; build_entry env c1 (Some ts) sid (Some rr) } = Some c' \<and> rtc_inv c'" by auto
qed

lemma parse_del_ok:
  assumes inv: "rtc_inv c" and e: "new_rtable c = None \<or> length toks < 3 \<or> (atoi (toks ! 2), atoi (clip (toks ! 1))) \<noteq> (0, 0)"
  shows "\<exists>c'. parse_del env c toks = Some c' \<and> rtc_inv c'"
proof (cases "new_rtable c = None \<or> length toks < 3")
  case True
  then show ?thesis using inv by (auto simp: parse_del_def)
next
  case False
  then obtain ta where ta: "new_rtable c = Some ta" and l: "\<not> length toks < 3" by auto
  from e ta l have "(atoi (toks ! 2), atoi (clip (toks ! 1))) \<noteq> (0, 0)" by auto
  from trash_entry_ok [where env = env, OF inv ta this] atoi_range [of "toks ! 2"] ta obtain c1 where
    c1: "trash_entry env c (Some (toks ! 1)) (atoi (toks ! 2)) = Some c1" "rtc_inv c1" "new_rtable c1 = Some ta" by auto
  from upd_new_ok [OF c1(2,3), of "\<lambda>t. t\<lparr>rt_updates := rt_updates t + 1\<rparr>"] c1(1) ta l show ?thesis by (auto simp: parse_del_def)
qed

lemma parse_rec_inv:
  assumes inv: "rtc_inv c" and rec: "rec_ok c buf" and ok: "n_ok env = all_ok"
  shows "\<exists>c'. parse_rt_rec env pctx c (Some buf) = Some c' \<and> rtc_inv c'"
proof -
  define c1 where "c1 = (if snarf_rt_fd c \<ge> 0 then emit (emit c (FsWrite (snarf_rt_fd c) buf)) (FsWrite (snarf_rt_fd c) [CHR 0x0A]) else c)"
  have c1: "rtc_inv c1" "new_rtable c1 = new_rtable c" "cflags c1 = cflags c" using inv by (simp_all add: c1_def)
  let ?toks = "rec_toks buf"
  show ?thesis
  proof (cases "?toks = [] \<or> hd ?toks = [] \<or> hd (hd ?toks) \<notin> set ''dnmru''")
    case True
    then have "parse_rt_rec env pctx c (Some buf) = Some c1"
      by (auto simp: parse_rt_rec_def rec_toks_def Let_def c1_def [symmetric])
    with c1(1) show ?thesis by simp
  next
    case False
    have run: "parse_rt_rec env pctx c (Some buf) =
        (let k = hd (hd ?toks) in if k = CHR ''d'' then parse_del env c1 ?toks else if k = CHR ''n'' then parse_newrt env pctx c1 ?toks
         else if k = CHR ''m'' then (if hd ?toks = ''mse'' then parse_mse env c1 ?toks else meid_parser env pctx c1 ?toks)
         else if k = CHR ''r'' then parse_rte env c1 ?toks else parse_update env pctx c1 ?toks)"
      using False by (auto simp: parse_rt_rec_def rec_toks_def Let_def c1_def [symmetric] split: if_splits)
    have hd0: "hd ?toks = ?toks ! 0" using False by (simp add: hd_conv_nth)
    have ne: "?toks \<noteq> []" "hd ?toks \<noteq> []" using False by auto
    have at: "-(2^31) \<le> atoi x \<and> atoi x < 2^31" for x by (rule atoi_range)
    have mse: "\<exists>c'. parse_mse env c1 ?toks = Some c' \<and> rtc_inv c'" if "hd (hd ?toks) = CHR ''m''" "hd ?toks = ''mse''"
    proof (cases "new_rtable c = None \<or> length ?toks < 4")
      case False
      then obtain ta where ta: "new_rtable c1 = Some ta" and l: "\<not> length ?toks < 4" using c1(2) by auto
      with rec that have e: "entry_ok (?toks ! 1) (atoi (?toks ! 2)) (?toks ! 3)" using ne c1(2) by (simp add: rec_ok_def Let_def)
      from entry_rec_ok(1) [OF c1(1) ta e _ _ ok] at show ?thesis using ta l by (simp add: parse_mse_def)
    qed (use c1 in \<open>auto simp: parse_mse_def\<close>)
    have rte: "\<exists>c'. parse_rte env c1 ?toks = Some c' \<and> rtc_inv c'" if k: "hd (hd ?toks) = CHR ''r''"
    proof (cases "new_rtable c")
      case (Some ta)
      then have ta: "new_rtable c1 = Some ta" using c1(2) by simp
      with rec k ne Some have e: "3 \<le> length ?toks" "entry_ok (?toks ! 1) (if length ?toks > 3 then atoi (?toks ! 3) else UNSET_SUBID) (?toks ! 2)"
        by (simp_all add: rec_ok_def Let_def)
      from entry_rec_ok(2) [OF c1(1) ta e(2) _ _ ok] at e(1) ta show ?thesis
        by (cases "length ?toks > 3") (auto simp: parse_rte_def Let_def)
    qed (use c1 in \<open>auto simp: parse_rte_def\<close>)
    consider "hd (hd ?toks) = CHR ''d''" | "hd (hd ?toks) = CHR ''n''" | "hd (hd ?toks) = CHR ''m''" | "hd (hd ?toks) = CHR ''r''" | "hd (hd ?toks) = CHR ''u''"
      using False by auto
    then show ?thesis
    proof cases
      case 1
      with rec ne c1(2) parse_del_ok [OF c1(1), of ?toks env] run show ?thesis by (simp add: rec_ok_def Let_def)
    next
      case 2
      with rec ne c1(2) parse_newrt_ok [OF c1(1), of ?toks env pctx] ok run show ?thesis by (simp add: rec_ok_def Let_def)
    next
      case 3
      with rec ne c1(2) meid_parser_ok [OF c1(1), of ?toks env pctx] ok run mse hd0 show ?thesis
        by (cases "hd ?toks = ''mse''") (simp_all add: rec_ok_def Let_def)
    next
      case 4
      with rte run show ?thesis by simp
    next
      case 5
      with rec ne c1(3) parse_update_ok [OF c1(1), of ?toks env pctx] ok run show ?thesis by (simp add: rec_ok_def Let_def)
    qed
  qed
qed

section \<open>Properties\<close>

abbreviation (input) parse_one :: "'b parse_env_scheme \<Rightarrow> bool \<Rightarrow> 'a rtc_ctx_scheme \<Rightarrow> string \<Rightarrow> 'a rtc_ctx_scheme option" where
  "parse_one env pctx c r \<equiv> parse_rt_rec env pctx c (Some r)"

interpretation rr: safe_ops "parse_one env pctx" rec_ok "\<lambda>c. rtc_inv c \<and> n_ok env = all_ok" for env :: "'b parse_env_scheme" and pctx
  by unfold_locales (use parse_rec_inv in blast)

definition demo_rtc :: rtc_ctx where
  "demo_rtc = uta_ctx.extend demo_uta \<lparr>cflags = 0, rtable_ready = False, table_id = None, snarf_rt_fd = -1, seed_rt_fname = None, rt_events = []\<rparr>"

definition demo_penv :: parse_env where
  "demo_penv = rt_env.extend demo_rt_env \<lparr>p_getenv = (\<lambda>_. None), p_close = (\<lambda>_. True), p_open = (\<lambda>_. -1), p_file = (\<lambda>_. None), p_wbuf = []\<rparr>"

lemma demo_rtc_fields:
  "h_rts demo_rtc = h_rts demo_uta" "h_rtes demo_rtc = h_rtes demo_uta" "h_next demo_rtc = h_next demo_uta" "h_eps demo_rtc = h_eps demo_uta"
  "rtable demo_rtc = rtable demo_uta" "old_rtable demo_rtc = old_rtable demo_uta" "new_rtable demo_rtc = None" "ephash demo_rtc = demo_hash"
  by (simp_all add: demo_rtc_def uta_ctx.defs demo_uta_def rcv_ctx.defs)

lemma demo_rtc_inv: "rtc_inv demo_rtc"
  using demo_uta_inv
  by (auto simp: rtc_inv_def rt_inv_def ep_inv_def tabs_ok_def demo_rtc_fields demo_uta_fields demo_hash_ok split: if_splits)

lemma demo_penv_ok: "n_ok demo_penv = all_ok"
  by (simp add: demo_penv_def rt_env.defs demo_rt_env_def)

text \<open>
  C4. The records of the route manager.  From a context that satisfies the invariant, every
  sequence of well-formed records is parsed without a fault, and the invariant holds at the end:
  reference counts are exact, the active, the retired and the new table are live and distinct,
  endpoints are found under their names, and every round robin group and every managed entity
  refers to live endpoints.
\<close>

theorem records_keep_inv:
  assumes "rtc_inv c" and "ops_guarded (parse_one env pctx) rec_ok c recs" and "n_ok env = all_ok"
  shows "\<exists>c'. run_ops (parse_one env pctx) c recs = Some c' \<and> rtc_inv c'"
  using rr.run_safe [of c env pctx recs] assms by auto

lemma demo_recs:
  "rec_toks ''newrt|start|t1'' = [''newrt'', ''start'', ''t1'']" "rec_toks ''rte|7|h:1;g:2'' = [''rte'', ''7'', ''h:1;g:2'']"
  "rec_toks ''newrt|end'' = [''newrt'', ''end'']" "clip ''start'' = ''start''" "entry_ok ''7'' UNSET_SUBID ''h:1;g:2''"
  by code_simp+

theorem records_keep_inv_witness:
  "\<exists>c'. run_ops (parse_one demo_penv True) demo_rtc [''newrt|start|t1'', ''rte|7|h:1;g:2'', ''newrt|end''] = Some c' \<and> rtc_inv c'"
proof (rule records_keep_inv [OF demo_rtc_inv _ demo_penv_ok])
  have "rec_ok c ''newrt|start|t1''" "rec_ok c ''rte|7|h:1;g:2''" "rec_ok c ''newrt|end''" for c :: rtc_ctx
    by (simp_all add: rec_ok_def demo_recs)
  then show "ops_guarded (parse_one demo_penv True) rec_ok demo_rtc [''newrt|start|t1'', ''rte|7|h:1;g:2'', ''newrt|end'']"
    by (simp split: option.splits)
qed

text \<open>
  C15. The end of a route table.  When the count of the end record agrees with the records received,
  the table under construction becomes the active one, the active one is retired, and the table is
  acknowledged; when it does not, the table under construction is dropped, the active table stays
  as it is, and the table is refused with both counts.  In both cases no table is under
  construction afterwards.
\<close>

theorem newrt_end_switches:
  assumes inv: "rtc_inv c" and ta: "new_rtable c = Some ta" and t: "h_rts c ta = Some t" and fd: "snarf_rt_fd c < 0"
    and toks: "rec_toks buf = [''newrt'', ''end'', n]"
  shows "\<exists>c'. parse_rt_rec env True c (Some buf) = Some c' \<and> new_rtable c' = None \<and>
     (if rt_updates t = atoi n
      then rtable c' = Some ta \<and> old_rtable c' = rtable c \<and> h_rts c' = h_rts c \<and> rtable_ready c' \<and>
        rt_events c' = rt_events c @ [RtAck True (table_id c) None]
      else rtable c' = rtable c \<and> h_rts c' = (h_rts c)(ta := None) \<and>
        rt_events c' = rt_events c @ [RtAck False (table_id c) (Some (count_text n (rt_updates t)))])"
proof -
  have e: "clip ''end'' = ''end''" by code_simp
  have t0: "uta_tokenise (Some (trim_rec buf)) 128 (CHR ''|'') \<noteq> []" using toks by (auto simp: rec_toks_def Let_def)
  have tk: "clip (hd (uta_tokenise (Some (trim_rec buf)) 128 (CHR ''|''))) # tl (uta_tokenise (Some (trim_rec buf)) 128 (CHR ''|'')) =
      [''newrt'', ''end'', n]" using toks t0 by (simp add: rec_toks_def Let_def)
  have run: "parse_rt_rec env True c (Some buf) = parse_newrt env True c [''newrt'', ''end'', n]"
    using fd t0 tk by (simp add: parse_rt_rec_def Let_def)
  have nt: "new_table c = Some t" using ta t by (simp add: new_table_def)
  show ?thesis
  proof (cases "rt_updates t = atoi n")
    case True
    have "\<not> rt_error t" using inv t by (auto simp: rtc_inv_def tabs_ok_def)
    then have "roll_tables c = Some (c\<lparr>old_rtable := rtable c, rtable := new_rtable c, new_rtable := None\<rparr>)"
      using ta t by (simp add: roll_tables_def)
    with run True nt ta e fd show ?thesis by (simp add: parse_newrt_def ack_def emit_def)
  next
    case False
    let ?c = "ack True c False (Some (count_text n (rt_updates t)))"
    have parts: "rt_inv ?c" "h_rts ?c ta = Some t" using inv t by (simp_all add: rtc_inv_def rt_inv_def ack_def emit_def)
    from rt_drop_ok [OF parts] obtain c1 where c1: "uta_rt_drop ?c (Some ta) = Some c1" "h_rts c1 = (h_rts c)(ta := None)" by auto
    note f = tframe_drop [OF c1(1)]
    have ev: "rt_events c1 = rt_events ?c" by (rule tframe_events [OF f])
    show ?thesis using run False nt ta e fd c1 ev tframe_fields(1) [OF f]
      by (auto simp: parse_newrt_def drop_new_def ack_def emit_def)
  qed
qed

theorem newrt_end_switches_witness:
  "\<exists>c'. parse_rt_rec demo_penv True (demo_rtc\<lparr>rtable := None, new_rtable := Some 0\<rparr>) (Some ''newrt|end|0'') = Some c' \<and>
     rtable c' = Some 0 \<and> rt_events c' = [RtAck True None None]"
proof -
  let ?c = "demo_rtc\<lparr>rtable := None, new_rtable := Some 0\<rparr>"
  let ?t = "\<lparr>rt_error = False, rt_hash = demo_hash, rt_updates = 0, rt_mupdates = 0, ref_count = 0\<rparr>"
  have inv: "rtc_inv ?c" using demo_rtc_inv by (auto simp: rtc_inv_def rt_inv_def ep_inv_def tabs_ok_def demo_rtc_fields demo_uta_fields)
  have r: "rec_toks ''newrt|end|0'' = [''newrt'', ''end'', ''0'']" "atoi ''0'' = 0" by code_simp+
  have "snarf_rt_fd ?c < 0" "rt_events ?c = []" "table_id ?c = None" by (simp_all add: demo_rtc_def uta_ctx.defs)
  then show ?thesis
    using newrt_end_switches [OF inv, of 0 ?t "''newrt|end|0''" "''0''" demo_penv] r by (auto simp: demo_rtc_fields demo_uta_fields)
qed

text \<open>
  Records that bring the process down.  A count at the end of a table that was never started,
  a start or end record without its second field, and, while a table is under construction, a
  route entry record with a type but no endpoints: each dereferences a null pointer.
\<close>

theorem malformed_records_fault:
  shows "(new_rtable c = None \<longrightarrow> snarf_rt_fd c < 0 \<longrightarrow> parse_rt_rec env pctx c (Some ''newrt|end|1'') = None) \<and>
    (snarf_rt_fd c < 0 \<longrightarrow> parse_rt_rec env pctx c (Some ''newrt'') = None) \<and>
    (new_rtable c = None \<longrightarrow> snarf_rt_fd c < 0 \<longrightarrow> parse_rt_rec env pctx c (Some ''meid_map|end|1'') = None) \<and>
    (new_rtable c \<noteq> None \<longrightarrow> snarf_rt_fd c < 0 \<longrightarrow> parse_rt_rec env pctx c (Some ''rte|1'') = None)"
proof -
  have tk: "uta_tokenise (Some (trim_rec ''newrt|end|1'')) 128 (CHR ''|'') = [''newrt'', ''end'', ''1'']"
    "uta_tokenise (Some (trim_rec ''newrt'')) 128 (CHR ''|'') = [''newrt'']"
    "uta_tokenise (Some (trim_rec ''meid_map|end|1'')) 128 (CHR ''|'') = [''meid_map'', ''end'', ''1'']"
    "uta_tokenise (Some (trim_rec ''rte|1'')) 128 (CHR ''|'') = [''rte'', ''1'']" by code_simp+
  have cl: "clip ''newrt'' = ''newrt''" "clip ''end'' = ''end''" "clip ''meid_map'' = ''meid_map''" "clip ''rte'' = ''rte''" by code_simp+
  have 1: "snarf_rt_fd c < 0 \<Longrightarrow> parse_rt_rec env pctx c (Some ''newrt|end|1'') = parse_newrt env pctx c [''newrt'', ''end'', ''1'']"
    "snarf_rt_fd c < 0 \<Longrightarrow> parse_rt_rec env pctx c (Some ''newrt'') = parse_newrt env pctx c [''newrt'']"
    "snarf_rt_fd c < 0 \<Longrightarrow> parse_rt_rec env pctx c (Some ''meid_map|end|1'') = meid_parser env pctx c [''meid_map'', ''end'', ''1'']"
    "snarf_rt_fd c < 0 \<Longrightarrow> parse_rt_rec env pctx c (Some ''rte|1'') = parse_rte env c [''rte'', ''1'']"
    by (simp_all add: parse_rt_rec_def tk cl Let_def)
  have 2: "snarf_rt_fd c < 0 \<Longrightarrow> new_rtable c = None \<Longrightarrow> parse_newrt env pctx c [''newrt'', ''end'', ''1''] = None"
    "parse_newrt env pctx c [''newrt''] = None"
    "new_rtable c = None \<Longrightarrow> meid_parser env pctx c [''meid_map'', ''end'', ''1''] = None"
    "new_rtable c \<noteq> None \<Longrightarrow> parse_rte env c [''rte'', ''1''] = None"
    by (simp_all add: parse_newrt_def meid_parser_def parse_rte_def build_entry_def new_table_def cl Let_def)
  show ?thesis using 1 2 by simp
qed

theorem malformed_records_fault_witness: "parse_rt_rec demo_penv True demo_rtc (Some ''newrt|end|1'') = None"
proof -
  have "new_rtable demo_rtc = None" by (rule demo_rtc_fields)
  moreover have "snarf_rt_fd demo_rtc < 0" by (simp add: demo_rtc_def uta_ctx.defs)
  ultimately show ?thesis using malformed_records_fault [of demo_rtc demo_penv True] by blast
qed

text \<open>
  Empty endpoint names.  A group with an empty name (as in a list that ends with a comma)
  gets a null endpoint that counts as one of the group; when the round robin selection
  reaches it, it dereferences the null pointer.
\<close>

theorem empty_endpoint_name_faults:
  assumes "h_rtes c ra = Some r" and "nrrgroups r = int (length (rrgroups r))" and "rrgroups r ! 0 = None" and "rrgroups r \<noteq> []"
    and "n_ok env = all_ok"
  shows "\<exists>c1 r1 g. uta_add_ep env c (Some ta) (Some ra) (Some []) 0 = Some (None, c1) \<and> h_rtes c1 ra = Some r1 \<and>
     rrgroups r1 ! 0 = Some g \<and> nused g = 1 \<and> epts g ! 0 = None \<and> uta_epsock_rr env c1 (Some ra) 0 = None"
proof -
  let ?g = "\<lparr>ep_idx = 0, nused = 1, nendpts = MAX_EP_GROUP, epts = replicate MAX_EP_GROUP None\<rparr>"
  let ?r = "r\<lparr>rrgroups := (rrgroups r)[0 := Some ?g]\<rparr>"
  let ?c = "put_rte c ra ?r"
  have l: "0 < length (rrgroups r)" using assms(4) by simp
  define e where "e = replicate MAX_EP_GROUP (None :: addr option)"
  have e: "length e = MAX_EP_GROUP" "e[0 := None] = e" using list_update_id [of e 0] by (simp_all add: e_def)
  have "uta_add_ep env c (Some ta) (Some ra) (Some []) 0 = Some (None, ?c)"
    using assms(1,3,5) l e(1) unfolding uta_add_ep_def e_def [symmetric] Let_def
    by (simp add: assms(2) all_ok_def rt_ensure_ep_def put_rte_def e(2))
  moreover have "uta_epsock_rr env ?c (Some ra) 0 = None"
    using assms(2) l by (simp add: uta_epsock_rr_def put_rte_def Let_def split: bind_splits)
  ultimately show ?thesis using l by (intro exI [of _ ?c] exI [of _ ?r] exI [of _ ?g]) (simp add: put_rte_def)
qed

theorem empty_endpoint_name_faults_witness:
  "\<exists>c1. uta_add_ep demo_rt_env (demo_rr\<lparr>h_rtes := [1 \<mapsto> \<lparr>rte_key = 7, rte_refs = 1, rte_mtype = 7, nrrgroups = 1, rrgroups = [None]\<rparr>]\<rparr>)
       (Some 0) (Some 1) (Some []) 0 = Some (None, c1) \<and> uta_epsock_rr demo_rt_env c1 (Some 1) 0 = None"
  using empty_endpoint_name_faults [of "demo_rr\<lparr>h_rtes := [1 \<mapsto> \<lparr>rte_key = 7, rte_refs = 1, rte_mtype = 7, nrrgroups = 1, rrgroups = [None]\<rparr>]\<rparr>" 1
      "\<lparr>rte_key = 7, rte_refs = 1, rte_mtype = 7, nrrgroups = 1, rrgroups = [None]\<rparr>" demo_rt_env 0]
  by (auto simp: demo_rt_env_def)

end
