(* ===== verification/Route_Conc.thy ===== *)
theory Route_Conc
  imports RtParse_Inv
begin

text \<open>
  Sending threads and the route table collector share the tables of a context.  A sending thread
  takes the active table with \<^verbatim>\<open>get_rt\<close>, looks entries up in it and returns it with
  \<^verbatim>\<open>release_rt\<close>; the collector retires, drains, empties, refills and activates tables.  The step
  relation \<open>rt_step\<close> interleaves them.  A step is what a thread does in one critical section under
  \<^verbatim>\<open>rtgate\<close>, or on a table that only it can reach: \<^verbatim>\<open>prep_new_rt\<close> is the steps \<open>detach\<close>, \<open>clear\<close>
  (the wait for the reference count is the guard of this step) and \<open>clone\<close>.  A step that would fault is
  not a step of the relation, and allocations succeed; while a table is loaded the collector adds entries to it (the deletion
  of entries, the managed entities and the endpoints, which the parser of \<open>RtParse\<close> also handles, are not
  steps here).
\<close>

section \<open>Steps\<close>

datatype phase = Idle | Draining addr | Cloning "addr option" | Loading

record conc =
  cx :: uta_ctx
  users :: "nat \<Rightarrow> addr option"
  phase :: phase

inductive rt_step :: "conc \<Rightarrow> conc \<Rightarrow> bool" where
  acquire: "users s i = None \<Longrightarrow> get_rt (cx s) = Some (Some a, c') \<Longrightarrow>
     rt_step s (s\<lparr>cx := c', users := (users s)(i \<mapsto> a)\<rparr>)"
| use_rt: "users s i = Some a \<Longrightarrow> -(2^31) \<le> sid \<Longrightarrow> sid < 2^31 \<Longrightarrow> -(2^31) \<le> mt \<Longrightarrow> mt < 2^31 \<Longrightarrow> (sid, mt) \<noteq> (0, 0) \<Longrightarrow>
     uta_get_rte (cx s) (Some a) sid mt alt = Some (r, c') \<Longrightarrow> rt_step s (s\<lparr>cx := c'\<rparr>)"
| release: "users s i = Some a \<Longrightarrow> release_rt (cx s) (Some a) = Some c' \<Longrightarrow>
     rt_step s (s\<lparr>cx := c', users := (users s)(i := None)\<rparr>)"
| detach: "phase s = Idle \<Longrightarrow>
     rt_step s (s\<lparr>cx := (cx s)\<lparr>old_rtable := None\<rparr>,
                  phase := (case old_rtable (cx s) of Some a \<Rightarrow> Draining a | None \<Rightarrow> Cloning None)\<rparr>)"
| clear: "phase s = Draining a \<Longrightarrow> h_rts (cx s) a = Some t \<Longrightarrow> ref_count t \<le> 0 \<Longrightarrow> prep_clear (cx s) (Some a) = Some c' \<Longrightarrow>
     rt_step s (s\<lparr>cx := c', phase := Cloning (Some a)\<rparr>)"
| clone: "phase s = Cloning d \<Longrightarrow> uta_rt_clone all_ok (cx s) (rtable (cx s)) d al = Some (Some a, c1) \<Longrightarrow> h_rts c1 a = Some t \<Longrightarrow>
     rt_step s (s\<lparr>cx := (put_rt c1 a (t\<lparr>ref_count := 0\<rparr>))\<lparr>new_rtable := Some a\<rparr>, phase := Loading\<rparr>)"
| load: "phase s = Loading \<Longrightarrow> key \<noteq> 0 \<Longrightarrow> 0 \<le> nrr \<Longrightarrow> uta_add_rte all_ok (cx s) (new_rtable (cx s)) key nrr = Some (r, c') \<Longrightarrow>
     rt_step s (s\<lparr>cx := c'\<rparr>)"
| drop: "phase s = Loading \<Longrightarrow> uta_rt_drop (cx s) (new_rtable (cx s)) = Some c' \<Longrightarrow>
     rt_step s (s\<lparr>cx := c'\<lparr>new_rtable := None\<rparr>, phase := Idle\<rparr>)"
| roll: "phase s = Loading \<Longrightarrow> roll_tables (cx s) = Some c' \<Longrightarrow> rt_step s (s\<lparr>cx := c', phase := Idle\<rparr>)"

inductive_cases rt_stepE: "rt_step s s'"

text \<open>A context nobody uses, with no table under construction.\<close>

definition conc_init :: "conc \<Rightarrow> bool" where
  "conc_init s \<longleftrightarrow> rt_inv (cx s) \<and> tabs_ok (cx s) \<and> new_rtable (cx s) = None \<and> users s = Map.empty \<and> phase s = Idle \<and>
     (\<forall>a t. h_rts (cx s) a = Some t \<longrightarrow> ref_count t = 0)"

inductive reach :: "conc \<Rightarrow> bool" where
  init: "conc_init s \<Longrightarrow> reach s"
| step: "reach s \<Longrightarrow> rt_step s s' \<Longrightarrow> reach s'"

section \<open>The invariant\<close>

definition holders :: "conc \<Rightarrow> addr \<Rightarrow> nat set" where
  "holders s a = {i. users s i = Some a}"

definition counts_ok :: "(nat \<Rightarrow> addr option) \<Rightarrow> (addr \<Rightarrow> route_table option) \<Rightarrow> bool" where
  "counts_ok U T \<longleftrightarrow> finite (dom U) \<and> (\<forall>i a. U i = Some a \<longrightarrow> T a \<noteq> None) \<and>
     (\<forall>a t. T a = Some t \<longrightarrow> ref_count t = int (card {i. U i = Some a}))"

fun phase_ok :: "phase \<Rightarrow> (nat \<Rightarrow> addr option) \<Rightarrow> 'a uta_ctx_scheme \<Rightarrow> bool" where
  "phase_ok Idle U c = (new_rtable c = None)"
| "phase_ok (Draining a) U c = (new_rtable c = None \<and> old_rtable c = None \<and> h_rts c a \<noteq> None \<and> rtable c \<noteq> Some a \<and> rtable c \<noteq> None)"
| "phase_ok (Cloning d) U c = (new_rtable c = None \<and> old_rtable c = None \<and>
     (\<forall>a. d = Some a \<longrightarrow> rtable c \<noteq> Some a \<and> rtable c \<noteq> None \<and> (\<forall>i. U i \<noteq> Some a) \<and> (\<exists>t. h_rts c a = Some t \<and> (\<forall>k. hget (rt_hash t) k = None))))"
| "phase_ok Loading U c = (\<exists>a. new_rtable c = Some a \<and> (\<forall>i. U i \<noteq> Some a))"

definition cinv :: "conc \<Rightarrow> bool" where
  "cinv s \<longleftrightarrow> rt_inv (cx s) \<and> tabs_ok (cx s) \<and> counts_ok (users s) (h_rts (cx s)) \<and> phase_ok (phase s) (users s) (cx s)"

lemma cinvD:
  assumes "cinv s"
  shows "rt_inv (cx s)" "tabs_ok (cx s)" "counts_ok (users s) (h_rts (cx s))" "phase_ok (phase s) (users s) (cx s)"
  using assms by (simp_all add: cinv_def)

lemma cinv_init: "conc_init s \<Longrightarrow> cinv s"
  by (simp add: conc_init_def cinv_def counts_ok_def)

lemma held_live: "counts_ok U T \<Longrightarrow> U i = Some a \<Longrightarrow> \<exists>t. T a = Some t"
  unfolding counts_ok_def by blast

text \<open>Replacing a table keeps the counts when its own count is right.\<close>

lemma counts_ok_upd:
  assumes "counts_ok U T" and "ref_count t = int (card {i. U i = Some a})"
  shows "counts_ok U (T(a \<mapsto> t))"
  using assms by (auto simp: counts_ok_def)

lemma counts_ok_same: "counts_ok U T \<Longrightarrow> T a = Some t \<Longrightarrow> ref_count t' = ref_count t \<Longrightarrow> counts_ok U (T(a \<mapsto> t'))"
  by (rule counts_ok_upd) (auto simp: counts_ok_def)

lemma counts_ok_unused: "counts_ok U T \<Longrightarrow> (\<And>i. U i \<noteq> Some a) \<Longrightarrow> ref_count t = 0 \<Longrightarrow> counts_ok U (T(a \<mapsto> t))"
  by (rule counts_ok_upd) simp_all

lemma counts_ok_acquire:
  assumes c: "counts_ok U T" and t: "T a = Some t" and u: "U i = None"
  shows "counts_ok (U(i \<mapsto> a)) (T(a \<mapsto> t\<lparr>ref_count := ref_count t + 1\<rparr>))"
proof -
  have fin: "finite {j. U j = Some a}" using c by (auto simp: counts_ok_def dom_def elim: finite_subset [rotated])
  have "{j. (U(i \<mapsto> a)) j = Some a} = insert i {j. U j = Some a}" using u by auto
  moreover have "i \<notin> {j. U j = Some a}" using u by simp
  moreover have "{j. (U(i \<mapsto> a)) j = Some b} = {j. U j = Some b}" if "b \<noteq> a" for b using u that by auto
  ultimately show ?thesis using c t fin by (auto simp: counts_ok_def card_insert_disjoint)
qed

lemma counts_ok_release:
  assumes c: "counts_ok U T" and t: "T a = Some t" and u: "U i = Some a"
  shows "0 < ref_count t" and "counts_ok (U(i := None)) (T(a \<mapsto> t\<lparr>ref_count := ref_count t - 1\<rparr>))"
proof -
  have fin: "finite {j. U j = Some a}" using c by (auto simp: counts_ok_def dom_def elim: finite_subset [rotated])
  have i: "i \<in> {j. U j = Some a}" using u by simp
  have cnt: "ref_count t = int (card {j. U j = Some a})" using c t by (simp add: counts_ok_def)
  show "0 < ref_count t" using cnt fin i card_gt_0_iff [of "{j. U j = Some a}"] by auto
  have "{j. (U(i := None)) j = Some a} = {j. U j = Some a} - {i}" by auto
  then have n: "int (card {j. (U(i := None)) j = Some a}) = ref_count t - 1"
    using cnt fin i \<open>0 < ref_count t\<close> by (simp add: card_Diff_singleton)
  have "{j. (U(i := None)) j = Some b} = {j. U j = Some b}" if "b \<noteq> a" for b using u that by auto
  then show "counts_ok (U(i := None)) (T(a \<mapsto> t\<lparr>ref_count := ref_count t - 1\<rparr>))"
    using c t n by (auto simp: counts_ok_def)
qed

section \<open>Every step keeps the invariant\<close>

lemma phase_ok_put:
  assumes "phase_ok p U c" and "h_rts c a = Some t" and "\<And>k. hget (rt_hash t') k = hget (rt_hash t) k"
  shows "phase_ok p U (put_rt c a t')"
proof (cases p)
  case (Cloning d)
  show ?thesis using assms unfolding Cloning phase_ok.simps put_rt_def by simp (metis option.inject)
qed (use assms in \<open>auto simp: put_rt_def\<close>)

lemma phase_ok_users: "phase_ok p U c \<Longrightarrow> (\<And>i a. U' i = Some a \<Longrightarrow> U i = Some a \<or> rtable c = Some a) \<Longrightarrow>
    (\<And>a. rtable c = Some a \<Longrightarrow> new_rtable c \<noteq> Some a) \<Longrightarrow> phase_ok p U' c"
  by (cases p) fastforce+

lemma tabs_ok_put: "tabs_ok c \<Longrightarrow> h_rts c a = Some t \<Longrightarrow> rt_error t' = rt_error t \<Longrightarrow> tabs_ok (put_rt c a t')"
  by (auto simp: tabs_ok_def put_rt_def)

lemma tabs_new: "tabs_ok c \<Longrightarrow> rtable c = Some a \<Longrightarrow> new_rtable c \<noteq> Some a"
  by (simp add: tabs_ok_def)

lemma acquire_keeps:
  assumes inv: "cinv s" and u: "users s i = None" and g: "get_rt (cx s) = Some (Some a, c')"
  shows "cinv (s\<lparr>cx := c', users := (users s)(i \<mapsto> a)\<rparr>)"
proof -
  note I = cinvD [OF inv]
  from g obtain t where t: "rtable (cx s) = Some a" "h_rts (cx s) a = Some t" "c' = put_rt (cx s) a (t\<lparr>ref_count := ref_count t + 1\<rparr>)"
    by (auto simp: get_rt_def split: option.splits bind_splits)
  have "rt_inv c'" using rt_inv_put [OF I(1) t(2)] rt_invD(2) [OF I(1) t(2)] t(3) by simp
  moreover have "tabs_ok c'" using tabs_ok_put [OF I(2) t(2)] t(3) by simp
  moreover have "counts_ok ((users s)(i \<mapsto> a)) (h_rts c')" using counts_ok_acquire [OF I(3) t(2) u] t(3) by (simp add: put_rt_def)
  moreover have "phase_ok (phase s) ((users s)(i \<mapsto> a)) c'"
    unfolding t(3) by (rule phase_ok_put [OF phase_ok_users [OF I(4)] t(2)]) (use t(1) tabs_new [OF I(2)] in \<open>auto split: if_splits\<close>)
  ultimately show ?thesis by (simp add: cinv_def)
qed

lemma use_rt_keeps:
  assumes inv: "cinv s" and u: "users s i = Some a"
    and rng: "-(2^31) \<le> sid" "sid < 2^31" "-(2^31) \<le> mt" "mt < 2^31" "(sid, mt) \<noteq> (0, 0)"
    and g: "uta_get_rte (cx s) (Some a) sid mt alt = Some (r, c')"
  shows "cinv (s\<lparr>cx := c'\<rparr>)"
proof -
  note I = cinvD [OF inv]
  from held_live [OF I(3) u] obtain t where t: "h_rts (cx s) a = Some t" by blast
  from get_rte_ok [OF I(1) t rng, of alt] g obtain h where h: "rt_inv c'" "c' = put_rt (cx s) a (t\<lparr>rt_hash := h\<rparr>)" "\<forall>k. hget h k = hget (rt_hash t) k" by auto
  have "tabs_ok c'" using tabs_ok_put [OF I(2) t] h(2) by simp
  moreover have "counts_ok (users s) (h_rts c')" using counts_ok_same [OF I(3) t] h(2) by (simp add: put_rt_def)
  moreover have "phase_ok (phase s) (users s) c'" unfolding h(2) by (rule phase_ok_put [OF I(4) t]) (simp add: h(3))
  ultimately show ?thesis using h(1) by (simp add: cinv_def)
qed

lemma release_keeps:
  assumes inv: "cinv s" and u: "users s i = Some a" and g: "release_rt (cx s) (Some a) = Some c'"
  shows "cinv (s\<lparr>cx := c', users := (users s)(i := None)\<rparr>)"
proof -
  note I = cinvD [OF inv]
  from held_live [OF I(3) u] obtain t where t: "h_rts (cx s) a = Some t" by blast
  note R = counts_ok_release [OF I(3) t u]
  have c': "c' = put_rt (cx s) a (t\<lparr>ref_count := ref_count t - 1\<rparr>)" using g t R(1) by (simp add: release_rt_def)
  have "rt_inv c'" using rt_inv_put [OF I(1) t] rt_invD(2) [OF I(1) t] c' by simp
  moreover have "tabs_ok c'" using tabs_ok_put [OF I(2) t] c' by simp
  moreover have "counts_ok ((users s)(i := None)) (h_rts c')" using R(2) c' by (simp add: put_rt_def)
  moreover have "phase_ok (phase s) ((users s)(i := None)) c'"
    unfolding c' by (rule phase_ok_put [OF phase_ok_users [OF I(4)] t]) (use tabs_new [OF I(2)] in \<open>auto split: if_splits\<close>)
  ultimately show ?thesis by (simp add: cinv_def)
qed

lemma detach_keeps:
  assumes inv: "cinv s" and p: "phase s = Idle"
  shows "cinv (s\<lparr>cx := (cx s)\<lparr>old_rtable := None\<rparr>, phase := (case old_rtable (cx s) of Some a \<Rightarrow> Draining a | None \<Rightarrow> Cloning None)\<rparr>)"
  using cinvD [OF inv] p by (cases "old_rtable (cx s)") (auto simp: cinv_def rt_inv_def tabs_ok_def)

lemma clear_keeps:
  assumes inv: "cinv s" and p: "phase s = Draining a" and t: "h_rts (cx s) a = Some t" "ref_count t \<le> 0"
    and c: "prep_clear (cx s) (Some a) = Some c'"
  shows "cinv (s\<lparr>cx := c', phase := Cloning (Some a)\<rparr>)"
proof -
  note I = cinvD [OF inv]
  have fin: "finite {i. users s i = Some a}" using I(3) by (auto simp: counts_ok_def dom_def elim: finite_subset [rotated])
  have "int (card {i. users s i = Some a}) \<le> 0" using I(3) t by (auto simp: counts_ok_def)
  then have nu: "users s i \<noteq> Some a" for i using fin by auto
  from prep_clear_ok [OF I(1) t(1)] c obtain t' where
    t': "rt_inv c'" "h_rts c' = (h_rts (cx s))(a \<mapsto> t')" "\<forall>k. hget (rt_hash t') k = None" "rt_error t' = False" "ref_count t' = 0" by auto
  note ff = tframe_fields [OF tframe_prep_clear [OF c]]
  have "tabs_ok c'" using I(2) t' ff(1-3) t(1) by (auto simp: tabs_ok_def)
  moreover have "counts_ok (users s) (h_rts c')" using counts_ok_unused [OF I(3) nu t'(5)] t'(2) by simp
  moreover have "phase_ok (Cloning (Some a)) (users s) c'" using I(4) p t' ff(1-3) nu by auto
  ultimately show ?thesis using t'(1) by (simp add: cinv_def)
qed

text \<open>The clone step, with or without a table to recycle.\<close>

lemma clone_run:
  assumes rt: "rt_inv c" and tabs: "tabs_ok c" and p: "phase_ok (Cloning d) U c"
  shows "\<exists>a c1 t. uta_rt_clone all_ok c (rtable c) d al = Some (Some a, c1) \<and> rt_inv c1 \<and> h_rts c1 = (h_rts c)(a \<mapsto> t) \<and>
     \<not> rt_error t \<and> rtable c \<noteq> Some a \<and> (d = Some a \<or> h_rts c a = None)"
proof -
  have ok: "all_ok M_things" "all_ok M_symele" "all_ok M_rt" "all_ok M_symtab" "all_ok M_symlist" by (simp_all add: all_ok_def)
  have clone: "\<exists>c1 t. uta_rt_clone all_ok c0 (Some s) (Some a) al = Some (Some a, c1) \<and> rt_inv c1 \<and> h_rts c1 = (h_rts c0)(a \<mapsto> t) \<and> rt_error t = rt_error ta"
    if "rt_inv c0" "h_rts c0 s = Some ts" "h_rts c0 a = Some ta" "s \<noteq> a" "\<forall>k. hget (rt_hash ta) k = None" for c0 :: "'a uta_ctx_scheme" and s a ts ta
    using rt_clone_ok [where ok = all_ok and all_spaces = al, OF that(1-4) ok(1,2) that(5)] by blast
  show ?thesis
  proof (cases d)
    case (Some a)
    with p obtain s ta where s: "rtable c = Some s" "s \<noteq> a" "h_rts c a = Some ta" "\<forall>k. hget (rt_hash ta) k = None" by auto
    with tabs obtain ts where ts: "h_rts c s = Some ts" by (auto simp: tabs_ok_def)
    have "\<not> rt_error ta" using tabs s(3) by (auto simp: tabs_ok_def)
    with clone [OF rt ts s(3,2,4)] Some s(1,2) show ?thesis by auto
  next
    case None
    from rt_init_ok [where ok = all_ok, OF rt ok(3-5)] obtain c0 t0 where
      c0: "uta_rt_init all_ok c = (Some (h_next c), c0)" "rt_inv c0" "h_rts c0 = (h_rts c)(h_next c \<mapsto> t0)" "\<forall>k. hget (rt_hash t0) k = None" "\<not> rt_error t0" by auto
    have fresh: "h_rts c (h_next c) = None" using rt_invD(3) [OF rt] by simp
    show ?thesis
    proof (cases "rtable c")
      case None
      with c0 fresh \<open>d = None\<close> show ?thesis
        by (intro exI [of _ "h_next c"] exI [of _ c0] exI [of _ t0]) (simp add: uta_rt_clone_def)
    next
      case (Some s)
      with tabs obtain ts where ts: "h_rts c s = Some ts" by (auto simp: tabs_ok_def)
      with fresh have ne: "s \<noteq> h_next c" by auto
      have h0: "h_rts c0 s = Some ts" "h_rts c0 (h_next c) = Some t0" using c0(3) ts ne by simp_all
      from clone [OF c0(2) h0 ne c0(4)] obtain c1 t where
        c1: "uta_rt_clone all_ok c0 (Some s) (Some (h_next c)) al = Some (Some (h_next c), c1)" "rt_inv c1" "h_rts c1 = (h_rts c0)(h_next c \<mapsto> t)" "rt_error t = rt_error t0" by blast
      have "uta_rt_clone all_ok c (Some s) None al = uta_rt_clone all_ok c0 (Some s) (Some (h_next c)) al"
        using c0(1) by (simp add: uta_rt_clone_def)
      with c1 c0(3,5) Some \<open>d = None\<close> fresh ne show ?thesis by auto
    qed
  qed
qed

lemma clone_keeps:
  assumes inv: "cinv s" and p: "phase s = Cloning d" and c: "uta_rt_clone all_ok (cx s) (rtable (cx s)) d al = Some (Some a, c1)"
    and t: "h_rts c1 a = Some t"
  shows "cinv (s\<lparr>cx := (put_rt c1 a (t\<lparr>ref_count := 0\<rparr>))\<lparr>new_rtable := Some a\<rparr>, phase := Loading\<rparr>)"
proof -
  note I = cinvD [OF inv]
  let ?c' = "(put_rt c1 a (t\<lparr>ref_count := 0\<rparr>))\<lparr>new_rtable := Some a\<rparr>"
  from clone_run [OF I(1,2) I(4) [unfolded p], of al] c obtain t1 where
    c1: "rt_inv c1" "h_rts c1 = (h_rts (cx s))(a \<mapsto> t1)" "\<not> rt_error t1" "rtable (cx s) \<noteq> Some a" "d = Some a \<or> h_rts (cx s) a = None" by auto
  then have t1: "t1 = t" using t by simp
  have nu: "users s i \<noteq> Some a" for i
    using c1(5) I(4) p held_live [OF I(3), of i a] by auto
  note ff = tframe_fields [OF tframe_rt_clone [OF c]]
  have "rt_inv (put_rt c1 a (t\<lparr>ref_count := 0\<rparr>))" using rt_inv_put [OF c1(1) t] rt_invD(2) [OF c1(1) t] by simp
  then have "rt_inv ?c'" by (simp add: rt_inv_def)
  moreover have "old_rtable (cx s) = None" using I(4) p by simp
  then have "tabs_ok ?c'" using I(2) c1(2-4) ff(1-3) t1 by (auto simp: tabs_ok_def put_rt_def)
  moreover have "counts_ok (users s) (h_rts ?c')" using counts_ok_unused [OF I(3) nu, of "t\<lparr>ref_count := 0\<rparr>"] c1(2) by (simp add: put_rt_def)
  ultimately show ?thesis using nu by (simp add: cinv_def)
qed

lemma load_keeps:
  assumes inv: "cinv s" and p: "phase s = Loading" and key: "key \<noteq> 0"
    and g: "uta_add_rte all_ok (cx s) (new_rtable (cx s)) key nrr = Some (r, c')"
  shows "cinv (s\<lparr>cx := c'\<rparr>)"
proof -
  note I = cinvD [OF inv]
  from I(4) p obtain a where a: "new_rtable (cx s) = Some a" "\<forall>i. users s i \<noteq> Some a" by auto
  from I(2) a(1) obtain t where t: "h_rts (cx s) a = Some t" by (auto simp: tabs_ok_def)
  from add_rte_ok [where ok = all_ok and nrr = nrr, OF I(1) t key] g a(1) obtain h where
    h: "r = Some (h_next (cx s))" "rt_inv c'" "h_rts c' = (h_rts (cx s))(a \<mapsto> t\<lparr>rt_hash := h\<rparr>)" by (auto simp: all_ok_def)
  from add_rte_frame [of all_ok "cx s" a key nrr "h_next (cx s)" c'] g a(1) h(1) obtain new where
    f: "tframe (put_rte ((cx s)\<lparr>h_next := Suc (h_next (cx s))\<rparr>) (h_next (cx s)) new) c'" by auto
  note ff = tframe_fields [OF f]
  have "tabs_ok c'" using I(2) h(3) t ff(1-3) unfolding tabs_ok_def by (auto simp: put_rte_def)
  moreover have "counts_ok (users s) (h_rts c')" using counts_ok_same [OF I(3) t] h(3) by simp
  moreover have "phase_ok Loading (users s) c'" using a ff(3) by (simp add: put_rte_def)
  ultimately show ?thesis using h(2) p by (simp add: cinv_def)
qed

lemma drop_keeps:
  assumes inv: "cinv s" and p: "phase s = Loading" and g: "uta_rt_drop (cx s) (new_rtable (cx s)) = Some c'"
  shows "cinv (s\<lparr>cx := c'\<lparr>new_rtable := None\<rparr>, phase := Idle\<rparr>)"
proof -
  note I = cinvD [OF inv]
  from I(4) p obtain a where a: "new_rtable (cx s) = Some a" "\<forall>i. users s i \<noteq> Some a" by auto
  from I(2) a(1) obtain t where t: "h_rts (cx s) a = Some t" by (auto simp: tabs_ok_def)
  from rt_drop_ok [OF I(1) t] g a(1) have h: "rt_inv c'" "h_rts c' = (h_rts (cx s))(a := None)" by auto
  note ff = tframe_fields [OF tframe_drop [OF g]]
  have "rtable (cx s) \<noteq> Some a" using I(2) a(1) by (auto simp: tabs_ok_def)
  then have "tabs_ok (c'\<lparr>new_rtable := None\<rparr>)" using I(2) h(2) ff(1-3) a(1) unfolding tabs_ok_def by auto
  moreover have "counts_ok (users s) (h_rts c')" using I(3) a(2) h(2) by (auto simp: counts_ok_def)
  moreover have "rt_inv (c'\<lparr>new_rtable := None\<rparr>)" using h(1) by (simp add: rt_inv_def)
  ultimately show ?thesis by (simp add: cinv_def)
qed

lemma roll_keeps:
  assumes inv: "cinv s" and p: "phase s = Loading" and g: "roll_tables (cx s) = Some c'"
  shows "cinv (s\<lparr>cx := c', phase := Idle\<rparr>)"
proof -
  note I = cinvD [OF inv]
  from I(4) p obtain a where a: "new_rtable (cx s) = Some a" by auto
  from I(2) a obtain t where t: "h_rts (cx s) a = Some t" "\<not> rt_error t" by (auto simp: tabs_ok_def)
  have c': "c' = (cx s)\<lparr>old_rtable := rtable (cx s), rtable := new_rtable (cx s), new_rtable := None\<rparr>"
    using g a t by (auto simp: roll_tables_def split: if_splits)
  then show ?thesis using I a by (auto simp: cinv_def rt_inv_def tabs_ok_def)
qed

lemma step_keeps: "rt_step s s' \<Longrightarrow> cinv s \<Longrightarrow> cinv s'"
  by (induction rule: rt_step.induct)
    (blast intro: acquire_keeps use_rt_keeps release_keeps detach_keeps clear_keeps clone_keeps load_keeps drop_keeps roll_keeps)+

lemma reach_cinv: "reach s \<Longrightarrow> cinv s"
  by (induction rule: reach.induct) (auto intro: cinv_init step_keeps)

section \<open>A concrete system\<close>

definition demo_table :: route_table where
  "demo_table = \<lparr>rt_error = False, rt_hash = demo_hash, rt_updates = 0, rt_mupdates = 0, ref_count = 0\<rparr>"

definition demo_conc :: conc where
  "demo_conc = \<lparr>cx = demo_uta\<lparr>h_rts := [0 \<mapsto> demo_table, 1 \<mapsto> demo_table], h_next := 2, old_rtable := Some 1\<rparr>,
     users = Map.empty, phase = Idle\<rparr>"

lemma demo_conc_init: "conc_init demo_conc"
proof -
  have v: "rt_view [0 \<mapsto> demo_table, 1 \<mapsto> demo_table] = (\<lambda>_. Map.empty)"
    by (auto simp: rt_view_def demo_table_def demo_hash_ok fun_eq_iff split: option.splits if_splits)
  have n: "new_rtable demo_uta = None" by (simp add: demo_uta_def rcv_ctx.defs)
  have "rt_inv (cx demo_conc)"
    using v by (auto simp: rt_inv_def demo_conc_def demo_uta_fields refs_ok_def demo_table_def demo_hash_ok split: if_splits)
  moreover have "tabs_ok (cx demo_conc)" using n by (auto simp: tabs_ok_def demo_conc_def demo_uta_fields demo_table_def split: if_splits)
  ultimately show ?thesis using n by (auto simp: conc_init_def demo_conc_def demo_table_def split: if_splits)
qed

section \<open>Properties\<close>

text \<open>
  C3. No thread works with a table that the collector changes.  In every reachable state of the
  interleaved system, a table that a sending thread holds is live and has a positive count; the
  table being refilled or loaded is held by no thread; and when the wait in \<^verbatim>\<open>prep_new_rt\<close> ends,
  because the count of the retired table is zero, no thread holds that table.
\<close>

theorem held_tables_untouched:
  assumes "reach s"
  shows "(\<forall>i a. users s i = Some a \<longrightarrow> (\<exists>t. h_rts (cx s) a = Some t \<and> 0 < ref_count t)) \<and>
    (\<forall>i a. new_rtable (cx s) = Some a \<or> phase s = Cloning (Some a) \<longrightarrow> users s i \<noteq> Some a) \<and>
    (\<forall>i a t. phase s = Draining a \<longrightarrow> h_rts (cx s) a = Some t \<longrightarrow> ref_count t \<le> 0 \<longrightarrow> users s i \<noteq> Some a)"
proof -
  note I = cinvD [OF reach_cinv [OF assms]]
  have pos: "\<exists>t. h_rts (cx s) a = Some t \<and> 0 < ref_count t" if "users s i = Some a" for i a
    using held_live [OF I(3) that] counts_ok_release(1) [OF I(3) _ that] by blast
  have new: "users s i \<noteq> Some a" if "new_rtable (cx s) = Some a \<or> phase s = Cloning (Some a)" for i a
    using that I(4) by (cases "phase s") auto
  have "users s i \<noteq> Some a" if "phase s = Draining a" "h_rts (cx s) a = Some t" "ref_count t \<le> 0" for i a t
    using pos [of i a] that by auto
  with pos new show ?thesis by blast
qed

theorem held_tables_untouched_witness: "\<exists>(s :: conc) t. users s 3 = Some 0 \<and> h_rts (cx s) 0 = Some t \<and> 0 < ref_count t"
proof -
  have "get_rt (cx demo_conc) = Some (Some 0, put_rt (cx demo_conc) 0 (demo_table\<lparr>ref_count := 1\<rparr>))"
    by (simp add: get_rt_def demo_conc_def demo_uta_fields demo_table_def)
  then have "rt_step demo_conc (demo_conc\<lparr>cx := put_rt (cx demo_conc) 0 (demo_table\<lparr>ref_count := 1\<rparr>), users := (users demo_conc)(3 \<mapsto> 0)\<rparr>)"
    by (intro rt_step.acquire) (simp_all add: demo_conc_def)
  with reach.init [OF demo_conc_init] have r: "reach (demo_conc\<lparr>cx := put_rt (cx demo_conc) 0 (demo_table\<lparr>ref_count := 1\<rparr>), users := (users demo_conc)(3 \<mapsto> 0)\<rparr>)"
    by (rule reach.step)
  let ?s = "demo_conc\<lparr>cx := put_rt (cx demo_conc) 0 (demo_table\<lparr>ref_count := 1\<rparr>), users := (users demo_conc)(3 \<mapsto> 0)\<rparr>"
  have "users ?s 3 = Some 0" by simp
  with held_tables_untouched [OF r] show ?thesis by blast
qed

lemma release_enabled:
  assumes inv: "cinv s" and u: "users s i = Some a"
  shows "\<exists>c'. release_rt (cx s) (Some a) = Some c' \<and> rt_step s (s\<lparr>cx := c', users := (users s)(i := None)\<rparr>)"
proof -
  from held_live [OF cinvD(3) [OF inv] u] obtain t where t: "h_rts (cx s) a = Some t" by blast
  then have "\<exists>c'. release_rt (cx s) (Some a) = Some c'" by (simp add: release_rt_def)
  then show ?thesis using rt_step.release [OF u] by blast
qed

lemma clear_enabled:
  assumes inv: "cinv s" and p: "phase s = Draining a" and h: "holders s a = {}"
  shows "\<exists>c'. rt_step s (s\<lparr>cx := c', phase := Cloning (Some a)\<rparr>)"
proof -
  note I = cinvD [OF inv]
  from I(4) p obtain t where t: "h_rts (cx s) a = Some t" by auto
  have "ref_count t \<le> 0" using I(3) t h by (auto simp: counts_ok_def holders_def)
  moreover from prep_clear_ok [OF I(1) t] obtain c' where "prep_clear (cx s) (Some a) = Some c'" by blast
  ultimately show ?thesis using rt_step.clear [OF p t] by blast
qed

text \<open>
  C21. The wait for a retired table can always end.  From every reachable state in which
  \<^verbatim>\<open>prep_new_rt\<close> waits, the system can go on to the point where the table is emptied, by releases of
  the threads that still hold it alone; and while it waits no thread that does not hold the table
  can get it.
\<close>

theorem drain_can_end:
  assumes "reach s" and "phase s = Draining a"
  shows "(\<exists>s'. rt_step\<^sup>*\<^sup>* s s' \<and> phase s' = Cloning (Some a) \<and> (\<forall>i. users s i \<noteq> Some a \<longrightarrow> users s' i = users s i)) \<and>
    (\<forall>s'. rt_step s s' \<longrightarrow> holders s' a \<subseteq> holders s a)"
proof -
  have inv: "cinv s" by (rule reach_cinv [OF assms(1)])
  have fin: "finite (holders s a)" using cinvD(3) [OF inv] by (auto simp: holders_def counts_ok_def dom_def elim: finite_subset [rotated])
  have "\<exists>s'. rt_step\<^sup>*\<^sup>* s s' \<and> phase s' = Cloning (Some a) \<and> (\<forall>i. users s i \<noteq> Some a \<longrightarrow> users s' i = users s i)"
    using inv assms(2) fin
  proof (induction "card (holders s a)" arbitrary: s)
    case 0
    then have "holders s a = {}" by simp
    from clear_enabled [OF 0(2,3) this] obtain c' where "rt_step s (s\<lparr>cx := c', phase := Cloning (Some a)\<rparr>)" ..
    then show ?case by (intro exI [of _ "s\<lparr>cx := c', phase := Cloning (Some a)\<rparr>"]) auto
  next
    case (Suc n)
    then obtain i where i: "i \<in> holders s a" by (metis card.empty ex_in_conv nat.simps(3))
    then have u: "users s i = Some a" by (simp add: holders_def)
    from release_enabled [OF Suc.prems(1) u] obtain c' where st: "rt_step s (s\<lparr>cx := c', users := (users s)(i := None)\<rparr>)" by blast
    let ?s1 = "s\<lparr>cx := c', users := (users s)(i := None)\<rparr>"
    have h: "holders ?s1 a = holders s a - {i}" by (auto simp: holders_def)
    have "n = card (holders ?s1 a)" using Suc.hyps(2) Suc.prems(3) i h by simp
    with Suc.hyps(1) [of ?s1] step_keeps [OF st Suc.prems(1)] Suc.prems(2,3) h obtain s' where
      "rt_step\<^sup>*\<^sup>* ?s1 s'" "phase s' = Cloning (Some a)" "\<forall>j. users ?s1 j \<noteq> Some a \<longrightarrow> users s' j = users ?s1 j" by auto
    with st u show ?case by (intro exI [of _ s']) (auto intro: converse_rtranclp_into_rtranclp split: if_splits)
  qed
  moreover have "holders s' a \<subseteq> holders s a" if "rt_step s s'" for s'
  proof -
    have "rtable (cx s) \<noteq> Some a" using cinvD(4) [OF inv] assms(2) by simp
    with that show ?thesis by (cases rule: rt_step.cases) (auto simp: holders_def get_rt_def split: if_splits option.splits bind_splits)
  qed
  ultimately show ?thesis by blast
qed

theorem drain_can_end_witness: "\<exists>s s'. phase s = Draining 1 \<and> rt_step\<^sup>*\<^sup>* s s' \<and> phase s' = Cloning (Some 1)"
proof -
  let ?s = "demo_conc\<lparr>cx := (cx demo_conc)\<lparr>old_rtable := None\<rparr>, phase := Draining 1\<rparr>"
  have "rt_step demo_conc ?s" using rt_step.detach [of demo_conc] by (simp add: demo_conc_def)
  with reach.init [OF demo_conc_init] have "reach ?s" by (rule reach.step)
  from drain_can_end [OF this, of 1] obtain s' where "rt_step\<^sup>*\<^sup>* ?s s'" "phase s' = Cloning (Some 1)" by auto
  moreover have "phase ?s = Draining 1" by simp
  ultimately show ?thesis by blast
qed

text \<open>
  \<^verbatim>\<open>prep_new_rt\<close> as a whole.  When nobody holds the retired table, the sequential function is
  the composition of the three steps of the collector: from an idle state the system can step
  to the state that the function returns.
\<close>

theorem prep_new_rt_is_steps:
  assumes "reach s" and "phase s = Idle" and "prep_new_rt all_ok (cx s) al = Some (d, c')"
    and "\<And>a. old_rtable (cx s) = Some a \<Longrightarrow> holders s a = {}"
  shows "rt_step\<^sup>*\<^sup>* s (s\<lparr>cx := c'\<lparr>new_rtable := Some d\<rparr>, phase := Loading\<rparr>)"
proof -
  note I = cinvD [OF reach_cinv [OF assms(1)]]
  let ?s1 = "s\<lparr>cx := (cx s)\<lparr>old_rtable := None\<rparr>, phase := (case old_rtable (cx s) of Some a \<Rightarrow> Draining a | None \<Rightarrow> Cloning None)\<rparr>"
  have s1: "rt_step s ?s1" by (rule rt_step.detach [OF assms(2)])
  have inv1: "cinv ?s1" by (rule detach_keeps [OF reach_cinv [OF assms(1)] assms(2)])
  obtain c1 where c1: "prep_clear ((cx s)\<lparr>old_rtable := None\<rparr>) (old_rtable (cx s)) = Some c1"
    using assms(3) by (auto simp: prep_new_rt_def split: bind_splits)
  let ?s2 = "s\<lparr>cx := c1, phase := Cloning (old_rtable (cx s))\<rparr>"
  have s2: "rt_step\<^sup>*\<^sup>* ?s1 ?s2 \<and> cinv ?s2"
  proof (cases "old_rtable (cx s)")
    case None
    with c1 have "c1 = (cx s)\<lparr>old_rtable := None\<rparr>" by (simp add: prep_clear_def)
    with None inv1 show ?thesis by simp
  next
    case (Some a)
    have p: "phase ?s1 = Draining a" using Some by simp
    with cinvD(4) [OF inv1] obtain t where t: "h_rts (cx ?s1) a = Some t" by auto
    have "ref_count t \<le> 0" using cinvD(3) [OF inv1] t assms(4) [OF Some] by (auto simp: counts_ok_def holders_def)
    moreover have "prep_clear (cx ?s1) (Some a) = Some c1" using c1 Some by simp
    ultimately have st: "rt_step ?s1 (?s1\<lparr>cx := c1, phase := Cloning (Some a)\<rparr>)" by (rule rt_step.clear [OF p t])
    with step_keeps [OF st inv1] Some show ?thesis by auto
  qed
  have p2: "phase ?s2 = Cloning (old_rtable (cx s))" by simp
  have "rt_inv c1" "tabs_ok c1" "phase_ok (Cloning (old_rtable (cx s))) (users s) c1"
    using s2 unfolding cinv_def by (simp_all del: phase_ok.simps)
  from clone_run [OF this, of al] obtain a c2 t where c2: "uta_rt_clone all_ok c1 (rtable c1) (old_rtable (cx s)) al = Some (Some a, c2)" "h_rts c2 a = Some t" by auto
  have c': "d = a" "c' = put_rt c2 a (t\<lparr>ref_count := 0\<rparr>)" using assms(3) c1 c2 by (auto simp: prep_new_rt_def)
  have "rt_step ?s2 (?s2\<lparr>cx := (put_rt c2 a (t\<lparr>ref_count := 0\<rparr>))\<lparr>new_rtable := Some a\<rparr>, phase := Loading\<rparr>)"
    using c2 by (intro rt_step.clone [OF p2]) simp_all
  then have "rt_step ?s2 (s\<lparr>cx := c'\<lparr>new_rtable := Some d\<rparr>, phase := Loading\<rparr>)" using c' by simp
  with s1 s2 show ?thesis by (meson converse_rtranclp_into_rtranclp r_into_rtranclp rtranclp_trans)
qed

theorem prep_new_rt_is_steps_witness:
  "\<exists>d c'. prep_new_rt all_ok (cx demo_conc) True = Some (d, c') \<and> rt_step\<^sup>*\<^sup>* demo_conc (demo_conc\<lparr>cx := c'\<lparr>new_rtable := Some d\<rparr>, phase := Loading\<rparr>)"
proof -
  have inv: "rt_inv (cx demo_conc)" "tabs_ok (cx demo_conc)" "phase demo_conc = Idle" using demo_conc_init by (simp_all add: conc_init_def)
  have f: "rtable (cx demo_conc) = Some 0" "h_rts (cx demo_conc) 0 = Some demo_table" "old_rtable (cx demo_conc) = Some 1"
    "h_rts (cx demo_conc) 1 = Some demo_table" by (simp_all add: demo_conc_def demo_uta_fields)
  from prep_new_rt_ok [where ok = all_ok and all_spaces = True and d = 1, OF inv(1) f(1,2)] f obtain c' where
    c': "prep_new_rt all_ok (cx demo_conc) True = Some (1, c')" by (auto simp: all_ok_def)
  have "rt_step\<^sup>*\<^sup>* demo_conc (demo_conc\<lparr>cx := c'\<lparr>new_rtable := Some 1\<rparr>, phase := Loading\<rparr>)"
    by (rule prep_new_rt_is_steps [OF reach.init [OF demo_conc_init] inv(3) c']) (simp add: holders_def demo_conc_def)
  with c' show ?thesis by blast
qed

end
