(* ===== verification/Si95_Inv.thy ===== *)
theory Si95_Inv
  imports Si95
begin

text \<open>
  Correctness of the transport library: the doubly linked list of transport blocks and the map
  from descriptors to blocks stay consistent under every operation, no operation uses a freed
  block, deleted blocks leave the list in the next pass of the wait loop, and a message is sent
  as a whole or its failure is reported.
\<close>

section \<open>Doubly linked lists in the store\<close>

text \<open>A segment of the list: it is entered at \<open>p\<close>, its first block points back to \<open>q\<close>, it is left to
  \<open>r\<close>, and its last block (or \<open>q\<close>) is \<open>l\<close>.\<close>

primrec dseg :: "(tpaddr \<Rightarrow> tp_blk option) \<Rightarrow> tpaddr option \<Rightarrow> tpaddr option \<Rightarrow> tpaddr list \<Rightarrow> tpaddr option \<Rightarrow> tpaddr option \<Rightarrow> bool" where
  "dseg h p q [] r l = (p = r \<and> q = l)"
| "dseg h p q (a # as) r l = (p = Some a \<and> (\<exists>t. h a = Some t \<and> tp_prev t = q \<and> dseg h (tp_next t) (Some a) as r l))"

definition dll :: "'u ginfo_blk \<Rightarrow> tpaddr list \<Rightarrow> bool" where
  "dll g xs = (distinct xs \<and> (\<exists>l. dseg (h_tp g) (tplist g) None xs None l))"

lemma dseg_append:
  "dseg h p q (xs @ ys) r l = (\<exists>m k. dseg h p q xs m k \<and> dseg h m k ys r l)"
  by (induction xs arbitrary: p q) auto

lemma dseg_live: "dseg h p q xs r l \<Longrightarrow> a \<in> set xs \<Longrightarrow> \<exists>t. h a = Some t"
  by (induction xs arbitrary: p q) auto

lemma dseg_notin [simp]: "a \<notin> set xs \<Longrightarrow> dseg (h(a := v)) p q xs r l = dseg h p q xs r l"
  by (induction xs arbitrary: p q) auto

lemma dseg_same_links:
  assumes "h a = Some t" and "tp_next t' = tp_next t" and "tp_prev t' = tp_prev t"
  shows "dseg (h(a \<mapsto> t')) p q xs r l = dseg h p q xs r l"
  using assms by (induction xs arbitrary: p q) auto

lemma dseg_last: "dseg h p q xs r l \<Longrightarrow> l = (if xs = [] then q else Some (last xs))"
  by (induction xs arbitrary: p q) auto

lemma dseg_first: "dseg h p q xs r l \<Longrightarrow> p = (if xs = [] then r else Some (hd xs))"
  by (cases xs) auto

text \<open>Changing the back pointer of the first block, and the forward pointer of the last.\<close>

lemma dseg_set_prev:
  assumes "dseg h p q (a # as) r l" and "h a = Some t" and "a \<notin> set as"
  shows "dseg (h(a \<mapsto> t\<lparr>tp_prev := q'\<rparr>)) p q' (a # as) r l"
  using assms by simp

lemma dseg_set_next:
  assumes "dseg h p q (as @ [a]) r l" and "h a = Some t" and "a \<notin> set as"
  shows "dseg (h(a \<mapsto> t\<lparr>tp_next := r'\<rparr>)) p q (as @ [a]) r' l"
  using assms by (auto simp: dseg_append)

lemma set_prev_Some: "set_prev g (Some a) v = Some g' \<longleftrightarrow> (\<exists>t. h_tp g a = Some t \<and> g' = put_tp g a (t\<lparr>tp_prev := v\<rparr>))"
  by (auto simp: set_prev_def split: bind_splits)

section \<open>The invariant\<close>

text \<open>The list is well linked; blocks come from the supply; the map refers to blocks of the list
  that have the descriptor; a block marked for deletion is closed.\<close>

definition blk_ok :: "tp_blk \<Rightarrow> bool" where
  "blk_ok t = ((tp_flags t AND TPF_DELETE \<noteq> 0 \<longrightarrow> tp_fd t < 0) \<and> tp_squeue t = [])"

definition map_ok :: "'u ginfo_blk \<Rightarrow> tpaddr list \<Rightarrow> bool" where
  "map_ok g xs = (\<forall>fd a. tp_map g fd = Some a \<longrightarrow> a \<in> set xs \<and> 0 \<le> fd \<and> fd < MAX_FDS \<and> (\<exists>t. h_tp g a = Some t \<and> tp_fd t = fd))"

definition si_inv :: "'u ginfo_blk \<Rightarrow> tpaddr list \<Rightarrow> bool" where
  "si_inv g xs = (dll g xs \<and> map_ok g xs \<and> (\<forall>a. tp_fresh g \<le> a \<longrightarrow> h_tp g a = None) \<and>
     (\<forall>a\<in>set xs. \<forall>t. h_tp g a = Some t \<longrightarrow> blk_ok t) \<and> length (cbtab g) = MAX_CBS \<and> magicnum g = MAGICNUM)"

definition tp_live :: "'u ginfo_blk \<Rightarrow> tpaddr \<Rightarrow> bool" where
  "tp_live g a = (case h_tp g a of None \<Rightarrow> False | Some t \<Rightarrow> tp_flags t AND TPF_DELETE = 0)"

lemma dll_live: "dll g xs \<Longrightarrow> a \<in> set xs \<Longrightarrow> \<exists>t. h_tp g a = Some t"
  using dseg_live by (fastforce simp: dll_def)

lemma dll_put:
  assumes "h_tp g a = Some t" and "tp_next t' = tp_next t" and "tp_prev t' = tp_prev t"
    and "h_tp g' = (h_tp g)(a \<mapsto> t')" and "tplist g' = tplist g"
  shows "dll g' xs = dll g xs"
proof -
  have "dseg (h_tp g') p q xs r l = dseg (h_tp g) p q xs r l" for p q r l
    unfolding assms(4) by (rule dseg_same_links [where h = "h_tp g", OF assms(1-3)])
  then show ?thesis unfolding dll_def assms(5) by blast
qed

lemma map_ok_put:
  assumes "map_ok g xs" and "h_tp g a = Some t" and "tp_fd t' = tp_fd t" and "h_tp g' = (h_tp g)(a \<mapsto> t')" and "tp_map g' = tp_map g"
  shows "map_ok g' xs"
  using assms unfolding map_ok_def by fastforce

lemma si_invD:
  assumes "si_inv g xs"
  shows "dll g xs" "map_ok g xs" "\<And>a. tp_fresh g \<le> a \<Longrightarrow> h_tp g a = None"
    "\<And>a t. a \<in> set xs \<Longrightarrow> h_tp g a = Some t \<Longrightarrow> blk_ok t" "length (cbtab g) = MAX_CBS" "magicnum g = MAGICNUM"
  using assms by (auto simp: si_inv_def)

lemma si_inv_live: "si_inv g xs \<Longrightarrow> a \<in> set xs \<Longrightarrow> \<exists>t. h_tp g a = Some t"
  using dll_live [of g xs a] by (simp add: si_inv_def)

lemma si_inv_bound: "si_inv g xs \<Longrightarrow> a \<in> set xs \<Longrightarrow> a < tp_fresh g"
  using si_inv_live [of g xs a] si_invD(3) [of g xs a] by (metis not_le option.distinct(1))

text \<open>Operations that leave the list, the map and the blocks alone.\<close>

lemmas si_frame_defs = tick_def os_do_def os_opts_def siabort_conn_def SIcbstat_def

lemma si_inv_frame:
  assumes "si_inv g xs" and "tplist g' = tplist g" "h_tp g' = h_tp g" "tp_map g' = tp_map g" "tp_fresh g' = tp_fresh g"
    "magicnum g' = magicnum g" "length (cbtab g') = length (cbtab g)"
  shows "si_inv g' xs"
  using assms by (simp add: si_inv_def dll_def map_ok_def)

lemma si_inv_simps [simp]:
  "si_inv (tick g) xs = si_inv g xs" "si_inv (os_do g e) xs = si_inv g xs" "si_inv (os_opts g fd l) xs = si_inv g xs"
  "si_inv (siabort_conn g fd) xs = si_inv g xs" "si_inv (SIcbstat g st ty) xs = si_inv g xs"
  "si_inv (g\<lparr>si_user := u\<rparr>) xs = si_inv g xs"
  "si_inv (g\<lparr>readfds := r, writefds := w, execpfds := x\<rparr>) xs = si_inv g xs"
  "si_inv (g\<lparr>gi_flags := f\<rparr>) xs = si_inv g xs" "si_inv (g\<lparr>fdcount := n\<rparr>) xs = si_inv g xs"
  by (auto simp: si_inv_def dll_def map_ok_def si_frame_defs)

lemma heap_simps [simp]:
  "h_tp (tick g) = h_tp g" "h_tp (os_do g e) = h_tp g" "h_tp (os_opts g fd l) = h_tp g" "h_tp (siabort_conn g fd) = h_tp g"
  "h_tp (SIcbstat g st ty) = h_tp g" "tp_fresh (tick g) = tp_fresh g" "tp_fresh (os_do g e) = tp_fresh g"
  "tp_fresh (os_opts g fd l) = tp_fresh g" "tplist (tick g) = tplist g" "tplist (os_do g e) = tplist g"
  "tplist (os_opts g fd l) = tplist g" "tp_map (tick g) = tp_map g" "tp_map (os_do g e) = tp_map g"
  "tp_map (os_opts g fd l) = tp_map g" "tp_map (siabort_conn g fd) = tp_map g" "tp_map (SIcbstat g st ty) = tp_map g"
  "h_tp (put_tp g a t) = (h_tp g)(a \<mapsto> t)" "tp_fresh (put_tp g a t) = tp_fresh g" "tplist (put_tp g a t) = tplist g"
  "tp_map (put_tp g a t) = tp_map g" "tcp_flags (put_tp g a t) = tcp_flags g" "os_n (put_tp g a t) = os_n g"
  "os_n (tick g) = Suc (os_n g)" "os_n (os_opts g fd l) = os_n g" "os_n (os_do g e) = os_n g"
  by (auto simp: si_frame_defs put_tp_def)

text \<open>An update of a block of the list that keeps its links and its descriptor.\<close>

lemma si_inv_put:
  assumes inv: "si_inv g xs" and t: "h_tp g a = Some t" and links: "tp_next t' = tp_next t" "tp_prev t' = tp_prev t" "tp_fd t' = tp_fd t"
    and ok: "a \<in> set xs \<Longrightarrow> blk_ok t'"
  shows "si_inv (put_tp g a t') xs"
proof -
  have "a < tp_fresh g" using t si_invD(3) [OF inv, of a] by (metis not_le option.distinct(1))
  moreover have "dll (put_tp g a t') xs" using dll_put [OF t links(1,2), of "put_tp g a t'" xs] si_invD(1) [OF inv] by (simp add: put_tp_def)
  moreover have "map_ok (put_tp g a t') xs" using map_ok_put [OF si_invD(2) [OF inv] t links(3), of "put_tp g a t'"] by (simp add: put_tp_def)
  ultimately show ?thesis using si_invD(3-6) [OF inv] ok unfolding si_inv_def by (auto simp: put_tp_def)
qed

text \<open>A block outside of the list is updated without any effect on it.\<close>

lemma si_inv_put_off:
  assumes "si_inv g xs" and "a \<notin> set xs" and "a < tp_fresh g"
  shows "si_inv (put_tp g a t') xs" "si_inv (free_tp g a) xs"
  using assms by (auto simp: si_inv_def dll_def map_ok_def put_tp_def free_tp_def)

section \<open>Every operation keeps the invariant\<close>

text \<open>\<^verbatim>\<open>SIterm\<close> of a block of the list whose flags may just have been changed.\<close>

lemma SIterm_put_inv:
  fixes g :: "'u ginfo_blk"
  assumes inv: "si_inv g xs" and a: "a \<in> set xs" and t: "h_tp g a = Some t"
  shows "\<exists>g'. SIterm (put_tp g a (t\<lparr>tp_flags := f\<rparr>)) (Some a) = Some g' \<and> si_inv g' xs \<and>
    h_tp g' = (h_tp g)(a \<mapsto> t\<lparr>tp_fd := -1, tp_flags := f OR TPF_DELETE\<rparr>) \<and> tp_fresh g' = tp_fresh g \<and> tplist g' = tplist g \<and>
    (\<forall>fd. tp_map g' fd = (if fd = tp_fd t \<and> 0 \<le> fd \<and> fd < MAX_FDS then None else tp_map g fd))"
proof -
  define t1 where "t1 = t\<lparr>tp_flags := f\<rparr>"
  define t2 where "t2 = t\<lparr>tp_fd := -1, tp_flags := f OR TPF_DELETE\<rparr>"
  define g0 where "g0 = (if tp_fd t \<ge> 0 then (if f AND TPF_ABORT \<noteq> 0 then siabort_conn (put_tp g a t1) (tp_fd t)
      else os_do (put_tp g a t1) (OsClose (tp_fd t))) else put_tp g a t1)"
  define g1 where "g1 = (if tp_fd t \<ge> 0 \<and> tp_fd t < MAX_FDS then g0\<lparr>tp_map := (tp_map g0)(tp_fd t := None)\<rparr> else g0)"
  have run: "SIterm (put_tp g a t1) (Some a) = Some (put_tp g1 a t2)"
    by (simp add: SIterm_def Let_def g1_def g0_def t1_def t2_def)
  have f: "h_tp g1 = (h_tp g)(a \<mapsto> t1)" "tp_fresh g1 = tp_fresh g" "tplist g1 = tplist g" "magicnum g1 = magicnum g" "cbtab g1 = cbtab g"
    "tp_map g1 = (\<lambda>fd. if fd = tp_fd t \<and> 0 \<le> fd \<and> fd < MAX_FDS then None else tp_map g fd)"
    by (auto simp: g1_def g0_def si_frame_defs put_tp_def fun_eq_iff)
  note I = si_invD [OF inv]
  let ?g = "put_tp g1 a t2"
  have h: "h_tp ?g = (h_tp g)(a \<mapsto> t2)" by (simp add: f)
  have "map_ok ?g xs" using I(2) t unfolding map_ok_def h by (fastforce simp: f split: if_splits)
  moreover have "dll ?g xs" using I(1) dll_put [OF t, of t2 ?g xs] by (simp add: f t2_def)
  moreover have "blk_ok t2" using I(4) [OF a t] by (simp add: blk_ok_def t2_def)
  ultimately have "si_inv ?g xs" using I(3-6) t unfolding si_inv_def h by (auto simp: put_tp_def f)
  with run show ?thesis unfolding t1_def [symmetric] t2_def [symmetric] by (auto simp: f)
qed

lemma SIterm_inv:
  fixes g :: "'u ginfo_blk"
  assumes inv: "si_inv g xs" and a: "a \<in> set xs" and t: "h_tp g a = Some t"
  shows "\<exists>g'. SIterm g (Some a) = Some g' \<and> si_inv g' xs \<and> h_tp g' = (h_tp g)(a \<mapsto> t\<lparr>tp_fd := -1, tp_flags := tp_flags t OR TPF_DELETE\<rparr>) \<and>
    tp_fresh g' = tp_fresh g \<and> tplist g' = tplist g \<and> (\<forall>fd. tp_map g' fd = (if fd = tp_fd t \<and> 0 \<le> fd \<and> fd < MAX_FDS then None else tp_map g fd))"
proof -
  have "(h_tp g)(a \<mapsto> t) = h_tp g" using t by (rule fun_upd_idem)
  then have "put_tp g a (t\<lparr>tp_flags := tp_flags t\<rparr>) = g" by (simp add: put_tp_def)
  with SIterm_put_inv [OF assms, of "tp_flags t"] show ?thesis by simp
qed

lemma SInew_tp_cases:
  assumes "si_inv g xs"
  obtains (none) "SInew_tp ok g = (None, g)"
  | (blk) a g1 t where "SInew_tp ok g = (Some a, g1)" "a = tp_fresh g" "si_inv g1 xs" "a \<notin> set xs" "h_tp g1 = (h_tp g)(a \<mapsto> t)"
      "tp_next t = None" "tp_prev t = None" "tp_fd t = -1" "tp_flags t = TPF_UNBIND" "tp_squeue t = []" "a < tp_fresh g1"
      "tcp_flags g1 = tcp_flags g" "os_n g1 = os_n g" "tplist g1 = tplist g" "tp_map g1 = tp_map g"
proof (cases "ok M_tpblk")
  case True
  let ?t = "\<lparr>tp_next = None, tp_prev = None, tp_fd = -1, tp_flags = TPF_UNBIND, tp_type = -1, tp_family = 0,
               tp_addr = None, tp_paddr = None, tp_palen = 0, tp_squeue = [], tp_sent = 0, tp_rcvd = 0\<rparr>"
  let ?g = "put_tp (g\<lparr>tp_fresh := Suc (tp_fresh g)\<rparr>) (tp_fresh g) ?t"
  have off: "tp_fresh g \<notin> set xs" using si_inv_bound [OF assms, of "tp_fresh g"] by auto
  have "si_inv (g\<lparr>tp_fresh := Suc (tp_fresh g)\<rparr>) xs" using assms by (auto simp: si_inv_def dll_def map_ok_def)
  then have "si_inv ?g xs" using off by (rule si_inv_put_off(1)) simp
  then show thesis using True off by (intro blk [of "tp_fresh g" ?g ?t]) (simp_all add: SInew_tp_def)
qed (simp add: SInew_tp_def none)

text \<open>A block that is not in the list becomes its head.\<close>

lemma tp_link_inv:
  assumes inv: "si_inv g xs" and a: "a \<notin> set xs" "h_tp g a = Some t" "tp_prev t = None" "blk_ok t"
  shows "\<exists>g'. tp_link g a = Some g' \<and> si_inv g' (a # xs) \<and> h_tp g' a = Some (t\<lparr>tp_next := tplist g\<rparr>) \<and> tp_fresh g' = tp_fresh g \<and>
    tp_map g' = tp_map g \<and> tcp_flags g' = tcp_flags g \<and> os_n g' = os_n g \<and>
    (\<forall>b\<in>set xs. \<forall>u. h_tp g b = Some u \<longrightarrow> (\<exists>p. h_tp g' b = Some (u\<lparr>tp_prev := p\<rparr>)))"
proof -
  note I = si_invD [OF inv]
  let ?t = "t\<lparr>tp_next := tplist g\<rparr>"
  let ?g = "put_tp g a ?t"
  have af: "a < tp_fresh g" using a(2) I(3) [of a] by (metis not_le option.distinct(1))
  obtain l where l: "dseg (h_tp g) (tplist g) None xs None l" and d: "distinct xs" using I(1) by (auto simp: dll_def)
  show ?thesis
  proof (cases xs)
    case Nil
    then have n: "tplist g = None" using l by simp
    let ?g' = "?g\<lparr>tplist := Some a\<rparr>"
    have "tp_link g a = Some ?g'" using a(2) n by (simp add: tp_link_def set_prev_def)
    moreover have "si_inv ?g' [a]"
      using I a(2-4) n Nil unfolding si_inv_def dll_def map_ok_def blk_ok_def by (auto simp: put_tp_def)
    ultimately show ?thesis using Nil by (auto simp: put_tp_def)
  next
    case (Cons b ys)
    then obtain u where b: "tplist g = Some b" "h_tp g b = Some u" and ab: "a \<noteq> b" using l a(1) by auto
    let ?u = "u\<lparr>tp_prev := Some a\<rparr>"
    let ?g' = "(put_tp ?g b ?u)\<lparr>tplist := Some a\<rparr>"
    have run: "tp_link g a = Some ?g'" using a(2) b ab by (simp add: tp_link_def set_prev_def)
    have "dseg (h_tp ?g') (Some b) (Some a) xs None l"
      using dseg_set_prev [of "(h_tp g)(a \<mapsto> ?t)" "Some b" None b ys None l u "Some a"] l Cons b ab a(1) d by simp
    then have "dll ?g' (a # xs)" using a b ab d unfolding dll_def by auto
    moreover have "map_ok ?g' (a # xs)" using I(2) a(1) b ab unfolding map_ok_def by (fastforce simp: put_tp_def)
    moreover have "blk_ok ?t" "blk_ok ?u" using a(4) I(4) [of b u] Cons b by (auto simp: blk_ok_def)
    ultimately have "si_inv ?g' (a # xs)" using I(3-6) af b unfolding si_inv_def by (auto simp: put_tp_def split: if_splits)
    moreover have "\<exists>p. h_tp ?g' c = Some (v\<lparr>tp_prev := p\<rparr>)" if "c \<in> set xs" "h_tp g c = Some v" for c v
      using that a(1) b by (cases "c = b") (auto intro: exI [of _ "tp_prev v"])
    ultimately show ?thesis using run ab by (auto simp: put_tp_def)
  qed
qed

text \<open>Taking a block out of the list; it needs a neighbour.\<close>

lemma dseg_unlink:
  assumes "dseg h p None (xs @ a # ys) None l" and "distinct (xs @ a # ys)" and "h a = Some t"
    and "h1 = (case tp_prev t of Some b \<Rightarrow> (case h b of Some u \<Rightarrow> h(b \<mapsto> u\<lparr>tp_next := tp_next t\<rparr>) | None \<Rightarrow> h) | None \<Rightarrow> h)"
    and "h2 = (case tp_next t of Some b \<Rightarrow> (case h1 b of Some u \<Rightarrow> h1(b \<mapsto> u\<lparr>tp_prev := tp_prev t\<rparr>) | None \<Rightarrow> h1) | None \<Rightarrow> h1)"
  shows "\<exists>l. dseg h2 (if xs = [] then tp_next t else p) None (xs @ ys) None l"
    and "tp_prev t = (if xs = [] then None else Some (last xs))" and "tp_next t = (if ys = [] then None else Some (hd ys))"
proof -
  obtain k where s1: "dseg h p None xs (Some a) k" and s2: "tp_prev t = k" "dseg h (tp_next t) (Some a) ys None l"
    using assms(1,3) by (auto simp: dseg_append)
  show pv: "tp_prev t = (if xs = [] then None else Some (last xs))" using dseg_last [OF s1] s2(1) by simp
  show nx: "tp_next t = (if ys = [] then None else Some (hd ys))" using dseg_first [OF s2(2)] .
  have e1: "dseg h1 (if xs = [] then tp_next t else p) None xs (tp_next t) k"
  proof (cases xs rule: rev_cases)
    case Nil
    then show ?thesis using s1 s2(1) by simp
  next
    case (snoc zs b)
    then obtain u where "h b = Some u" using dseg_live [OF s1] by auto
    then show ?thesis using s1 snoc assms(2,4) pv dseg_set_next [of h p None zs b "Some a" k u "tp_next t"] by simp
  qed
  have e2: "dseg h1 (tp_next t) (Some a) ys None l"
  proof (cases "xs = []")
    case False
    then have "last xs \<notin> set ys" using assms(2) last_in_set [OF False] unfolding distinct_append list.set by blast
    then show ?thesis using s2(2) assms(4) pv False by (simp split: option.split)
  qed (use s2(2) assms(4) pv in simp)
  show "\<exists>l. dseg h2 (if xs = [] then tp_next t else p) None (xs @ ys) None l"
  proof (cases ys)
    case Nil
    then have "h2 = h1" "tp_next t = None" using assms(5) nx by auto
    then show ?thesis using e1 Nil by auto
  next
    case (Cons b zs)
    then obtain u where u: "h1 b = Some u" using dseg_live [OF e2] by auto
    have h2: "h2 = h1(b \<mapsto> u\<lparr>tp_prev := k\<rparr>)" using assms(5) nx Cons u s2(1) by simp
    have "dseg h2 (tp_next t) k ys None l" using dseg_set_prev [of h1 "tp_next t" "Some a" b zs None l u k] e2 u Cons assms(2) h2 by simp
    moreover have "dseg h2 (if xs = [] then tp_next t else p) None xs (tp_next t) k"
      using e1 h2 Cons assms(2) by auto
    ultimately show ?thesis unfolding dseg_append by blast
  qed
qed

lemma SIrm_tpb_inv:
  assumes inv: "si_inv g (xs @ a # ys)" and t: "h_tp g a = Some t" and closed: "tp_fd t < 0" and nb: "xs @ ys \<noteq> []"
  shows "\<exists>g'. SIrm_tpb g (Some a) = Some g' \<and> si_inv g' (xs @ ys) \<and> h_tp g' a = None \<and>
    (\<forall>b u. b \<noteq> a \<longrightarrow> h_tp g b = Some u \<longrightarrow> (\<exists>n p. h_tp g' b = Some (u\<lparr>tp_next := n, tp_prev := p\<rparr>))) \<and>
    (\<forall>b\<in>set ys. \<forall>u. h_tp g b = Some u \<longrightarrow> (\<exists>p. h_tp g' b = Some (u\<lparr>tp_prev := p\<rparr>))) \<and>
    (\<forall>b. h_tp g b = None \<longrightarrow> h_tp g' b = None) \<and>
    readfds g' = readfds g \<and> writefds g' = writefds g \<and> execpfds g' = execpfds g \<and> fdcount g' = fdcount g \<and> tp_map g' = tp_map g"
proof -
  note I = si_invD [OF inv]
  define h where "h = h_tp g"
  define h1 where "h1 = (case tp_prev t of Some b \<Rightarrow> (case h b of Some u \<Rightarrow> h(b \<mapsto> u\<lparr>tp_next := tp_next t\<rparr>) | None \<Rightarrow> h) | None \<Rightarrow> h)"
  define h2 where "h2 = (case tp_next t of Some b \<Rightarrow> (case h1 b of Some u \<Rightarrow> h1(b \<mapsto> u\<lparr>tp_prev := tp_prev t\<rparr>) | None \<Rightarrow> h1) | None \<Rightarrow> h1)"
  obtain l where l: "dseg h (tplist g) None (xs @ a # ys) None l" and d: "distinct (xs @ a # ys)"
    using I(1) by (auto simp: dll_def h_def)
  note U = dseg_unlink [OF l d t [folded h_def] h1_def h2_def]
  have lv: "\<exists>u. h b = Some u" if "b \<in> set (xs @ a # ys)" for b using dseg_live [OF l that] .
  let ?g = "g\<lparr>tplist := (if xs = [] then tp_next t else tplist g), h_tp := h2(a := None)\<rparr>"
  have nonempty: "tp_prev t \<noteq> None \<or> tp_next t \<noteq> None" using U(2,3) nb by auto
  have h1b: "h1 b = (case h b of None \<Rightarrow> None | Some u \<Rightarrow> Some (if tp_prev t = Some b then u\<lparr>tp_next := tp_next t\<rparr> else u))" for b
    by (auto simp: h1_def split: option.splits)
  have h2b: "h2 b = (case h1 b of None \<Rightarrow> None | Some u \<Rightarrow> Some (if tp_next t = Some b then u\<lparr>tp_prev := tp_prev t\<rparr> else u))" for b
    by (auto simp: h2_def split: option.splits)
  have run: "SIrm_tpb g (Some a) = Some ?g"
  proof -
    have p: "tp_prev t = Some b \<Longrightarrow> \<exists>u. h b = Some u" for b using U(2) lv [of b] last_in_set [of xs] by (auto split: if_splits)
    have n: "tp_next t = Some b \<Longrightarrow> \<exists>u. h1 b = Some u" for b
      using U(3) lv [of b] hd_in_set [of ys] by (auto simp: h1b split: if_splits)
    show ?thesis
      using t nonempty p n U(2) unfolding SIrm_tpb_def set_prev_def h2_def h1_def h_def
      by (cases "tp_prev t"; cases "tp_next t") (fastforce simp: put_tp_def free_tp_def split: if_splits)+
  qed
  have keep: "\<exists>n p. h_tp ?g b = Some (u\<lparr>tp_next := n, tp_prev := p\<rparr>) \<and> (tp_prev t \<noteq> Some b \<longrightarrow> n = tp_next u)" if "b \<noteq> a" "h_tp g b = Some u" for b u
    using that by (intro exI [of _ "if tp_prev t = Some b then tp_next t else tp_next u"] exI [of _ "if tp_next t = Some b then tp_prev t else tp_prev u"])
      (simp add: h2b h1b h_def)
  have "dll ?g (xs @ ys)" using U(1) d by (auto simp: dll_def)
  moreover have "map_ok ?g (xs @ ys)" unfolding map_ok_def
  proof (intro allI impI)
    fix fd c assume "tp_map ?g fd = Some c"
    then obtain u where c: "c \<in> set (xs @ a # ys)" "0 \<le> fd" "fd < MAX_FDS" "h_tp g c = Some u" "tp_fd u = fd"
      using I(2) by (auto simp: map_ok_def)
    then have "c \<noteq> a" using t closed by auto
    with keep [OF this c(4)] c show "c \<in> set (xs @ ys) \<and> 0 \<le> fd \<and> fd < MAX_FDS \<and> (\<exists>u. h_tp ?g c = Some u \<and> tp_fd u = fd)" by auto
  qed
  moreover have "blk_ok w" if b: "b \<in> set (xs @ ys)" "h_tp ?g b = Some w" for b w
  proof -
    have "b \<noteq> a" using b(1) d by auto
    obtain u where u: "h_tp g b = Some u" using lv [of b] b(1) by (auto simp: h_def)
    have "blk_ok u" using I(4) [OF _ u] b(1) by simp
    with keep [OF \<open>b \<noteq> a\<close> u] b(2) show ?thesis by (auto simp: blk_ok_def)
  qed
  moreover have "\<forall>b. tp_fresh g \<le> b \<longrightarrow> h_tp ?g b = None" using I(3) by (auto simp: h2b h1b h_def)
  ultimately have "si_inv ?g (xs @ ys)" using I(5,6) by (simp add: si_inv_def)
  moreover have "\<exists>p. h_tp ?g b = Some (u\<lparr>tp_prev := p\<rparr>)" if b: "b \<in> set ys" "h_tp g b = Some u" for b u
  proof -
    have "xs \<noteq> [] \<Longrightarrow> last xs \<notin> set ys" using d last_in_set [of xs] unfolding distinct_append list.set by blast
    then have "b \<noteq> a" "tp_prev t \<noteq> Some b" using b(1) d U(2) by (auto split: if_splits)
    with keep [OF _ b(2)] show ?thesis by fastforce
  qed
  moreover have "h_tp ?g b = None" if "h_tp g b = None" for b using that by (simp add: h2b h1b h_def)
  ultimately show ?thesis using run keep by (intro exI [of _ ?g]) fastforce
qed

definition first :: "tpaddr list \<Rightarrow> tpaddr option" where
  "first xs = (case xs of [] \<Rightarrow> None | a # _ \<Rightarrow> Some a)"

lemma first_simps [simp]: "first [] = None" "first (a # xs) = Some a"
  by (simp_all add: first_def)

lemma si_inv_next:
  assumes "si_inv g (xs @ a # ys)" and "h_tp g a = Some t"
  shows "tp_next t = first ys"
proof -
  obtain l where "dseg (h_tp g) (tplist g) None (xs @ a # ys) None l" using si_invD(1) [OF assms(1)] by (auto simp: dll_def)
  then have "\<exists>k l. dseg (h_tp g) (tp_next t) k ys None l" using assms(2) by (auto simp: dseg_append)
  then show ?thesis by (auto dest: dseg_first simp: first_def split: list.splits)
qed

lemma si_inv_first: "si_inv g xs \<Longrightarrow> tplist g = first xs"
  by (cases xs) (auto simp: si_inv_def dll_def)

text \<open>The descriptors of a list of blocks, and those that are read.\<close>

definition fds_of :: "'u ginfo_blk \<Rightarrow> (tp_blk \<Rightarrow> bool) \<Rightarrow> tpaddr list \<Rightarrow> int set" where
  "fds_of g P xs = {fd. fd \<ge> 0 \<and> (\<exists>a\<in>set xs. \<exists>t. h_tp g a = Some t \<and> tp_fd t = fd \<and> tp_flags t AND TPF_DELETE = 0 \<and> P t)}"

lemma fds_of_Nil [simp]: "fds_of g P [] = {}"
  by (simp add: fds_of_def)

lemma fds_of_Cons:
  assumes "h_tp g a = Some t"
  shows "fds_of g P (a # xs) = (if tp_flags t AND TPF_DELETE = 0 \<and> tp_fd t \<ge> 0 \<and> P t then {tp_fd t} else {}) \<union> fds_of g P xs"
  using assms by (auto simp: fds_of_def)

abbreviation (input) reading :: "tp_blk \<Rightarrow> bool" where
  "reading t \<equiv> tp_flags t AND TPF_DRAIN = 0"

text \<open>Blocks that are the same except for their links.\<close>

definition same_blks :: "'u ginfo_blk \<Rightarrow> 'u ginfo_blk \<Rightarrow> tpaddr set \<Rightarrow> bool" where
  "same_blks g g' S = (\<forall>a\<in>S. \<exists>u n p. h_tp g a = Some u \<and> h_tp g' a = Some (u\<lparr>tp_next := n, tp_prev := p\<rparr>))"

lemma same_blksI: "(\<And>a. a \<in> S \<Longrightarrow> \<exists>u n p. h_tp g a = Some u \<and> h_tp g' a = Some (u\<lparr>tp_next := n, tp_prev := p\<rparr>)) \<Longrightarrow> same_blks g g' S"
  by (simp add: same_blks_def)

lemma same_blks_subset: "same_blks g g' S \<Longrightarrow> T \<subseteq> S \<Longrightarrow> same_blks g g' T"
  by (auto simp: same_blks_def)

lemma same_blks_trans: "same_blks g g' S \<Longrightarrow> same_blks g' g'' S \<Longrightarrow> same_blks g g'' S"
  by (fastforce simp: same_blks_def)

lemma same_blks_eq: "si_inv g xs \<Longrightarrow> h_tp g' = h_tp g \<Longrightarrow> S \<subseteq> set xs \<Longrightarrow> same_blks g g' S"
proof (rule same_blksI)
  fix a assume "si_inv g xs" "h_tp g' = h_tp g" "S \<subseteq> set xs" "a \<in> S"
  then obtain u where "h_tp g a = Some u" "h_tp g' a = Some u" using si_inv_live [of g xs a] by auto
  then show "\<exists>u n p. h_tp g a = Some u \<and> h_tp g' a = Some (u\<lparr>tp_next := n, tp_prev := p\<rparr>)"
    by (intro exI [of _ u] exI [of _ "tp_next u"] exI [of _ "tp_prev u"]) simp
qed

lemma same_blks_live: "same_blks g g' S \<Longrightarrow> a \<in> S \<Longrightarrow> tp_live g' a = tp_live g a"
  by (fastforce simp: same_blks_def tp_live_def)

lemma same_blks_filter: "same_blks g g' S \<Longrightarrow> set xs \<subseteq> S \<Longrightarrow> filter (tp_live g') xs = filter (tp_live g) xs"
  using same_blks_live [of g g' S] by (intro filter_cong) auto

lemma same_blks_fds:
  assumes "same_blks g g' S" and "set xs \<subseteq> S" and "\<And>u n p. P (u\<lparr>tp_next := n, tp_prev := p\<rparr>) = P u"
  shows "fds_of g' P xs = fds_of g P xs"
proof -
  have "(\<exists>t. h_tp g' a = Some t \<and> tp_fd t = fd \<and> tp_flags t AND TPF_DELETE = 0 \<and> P t) =
      (\<exists>t. h_tp g a = Some t \<and> tp_fd t = fd \<and> tp_flags t AND TPF_DELETE = 0 \<and> P t)" if "a \<in> set xs" for a fd
    using assms(1,2) that unfolding same_blks_def by (fastforce simp: assms(3))
  then show ?thesis unfolding fds_of_def by auto
qed

lemma blk_deleted:
  assumes inv: "si_inv g (ds @ a # rest)" and t: "h_tp g a = Some t" and dead: "\<not> tp_live g a" and nb: "ds @ rest \<noteq> []"
  shows "\<exists>g1. bldpoll_blk g a t = Some g1 \<and> si_inv g1 (ds @ rest) \<and> h_tp g1 a = None \<and> same_blks g g1 (set (ds @ rest)) \<and>
    (\<forall>b. h_tp g b = None \<longrightarrow> h_tp g1 b = None) \<and>
    readfds g1 = readfds g \<and> writefds g1 = writefds g \<and> execpfds g1 = execpfds g \<and> fdcount g1 = fdcount g \<and> tp_map g1 = tp_map g"
proof -
  have del: "tp_flags t AND TPF_DELETE \<noteq> 0" and cl: "tp_fd t < 0"
    using t dead si_invD(4) [OF inv _ t] by (auto simp: tp_live_def blk_ok_def)
  from SIrm_tpb_inv [OF inv t cl nb] obtain g1 where
    g1: "SIrm_tpb g (Some a) = Some g1" "si_inv g1 (ds @ rest)" "h_tp g1 a = None" "\<forall>b. h_tp g b = None \<longrightarrow> h_tp g1 b = None"
    and k: "\<And>b u. b \<noteq> a \<Longrightarrow> h_tp g b = Some u \<Longrightarrow> \<exists>n p. h_tp g1 b = Some (u\<lparr>tp_next := n, tp_prev := p\<rparr>)"
    and f: "readfds g1 = readfds g" "writefds g1 = writefds g" "execpfds g1 = execpfds g" "fdcount g1 = fdcount g" "tp_map g1 = tp_map g"
    by blast
  have "same_blks g g1 (set (ds @ rest))"
  proof (rule same_blksI)
    fix b assume b: "b \<in> set (ds @ rest)"
    have "b \<noteq> a" using si_invD(1) [OF inv] b by (auto simp: dll_def)
    moreover obtain u where "h_tp g b = Some u" using si_inv_live [OF inv, of b] b by auto
    ultimately show "\<exists>u n p. h_tp g b = Some u \<and> h_tp g1 b = Some (u\<lparr>tp_next := n, tp_prev := p\<rparr>)" using k by blast
  qed
  with g1 f del cl show ?thesis by (intro exI [of _ g1]) (simp add: bldpoll_blk_def)
qed

lemma blk_live:
  assumes inv: "si_inv g xs" and t: "h_tp g a = Some t" and a: "a \<in> set xs" and live: "tp_live g a" and fd: "tp_fd t < FD_SETSIZE"
    and cnt: "\<forall>x\<in>set (execpfds g). x < fdcount g"
  shows "\<exists>g1. bldpoll_blk g a t = Some g1 \<and> si_inv g1 xs \<and> h_tp g1 = h_tp g \<and> writefds g1 = writefds g \<and> tp_map g1 = tp_map g \<and>
    (\<forall>x\<in>set (execpfds g1). x < fdcount g1) \<and>
    set (execpfds g1) = set (execpfds g) \<union> (if tp_fd t \<ge> 0 then {tp_fd t} else {}) \<and>
    set (readfds g1) = set (readfds g) \<union> (if tp_fd t \<ge> 0 \<and> reading t then {tp_fd t} else {})"
proof -
  have "tp_flags t AND TPF_DELETE = 0" "tp_squeue t = []" using live t si_invD(4) [OF inv a t] by (auto simp: tp_live_def blk_ok_def)
  then show ?thesis using inv fd cnt
    by (auto simp: bldpoll_blk_def FD_SET_def si_inv_def dll_def map_ok_def)
qed

lemma bldpoll_loop_ok:
  assumes "si_inv g (ds @ rest)" and "\<exists>a\<in>set (ds @ rest). tp_live g a"
    and "\<forall>fd\<in>fds_of g (\<lambda>_. True) rest. fd < FD_SETSIZE" and "\<forall>fd\<in>set (execpfds g). fd < fdcount g"
  shows "\<exists>g'. bldpoll_loop g (first rest) = Some g' \<and> si_inv g' (ds @ filter (tp_live g) rest) \<and>
    (\<forall>a\<in>set rest. \<not> tp_live g a \<longrightarrow> h_tp g' a = None) \<and> (\<forall>b. h_tp g b = None \<longrightarrow> h_tp g' b = None) \<and>
    same_blks g g' (set (ds @ filter (tp_live g) rest)) \<and>
    set (readfds g') = set (readfds g) \<union> fds_of g reading rest \<and> set (execpfds g') = set (execpfds g) \<union> fds_of g (\<lambda>_. True) rest \<and>
    writefds g' = writefds g \<and> (\<forall>fd\<in>set (execpfds g'). fd < fdcount g') \<and> tp_map g' = tp_map g"
  using assms
proof (induction rest arbitrary: ds g)
  case Nil
  then show ?case using same_blks_eq [of g ds g "set ds"] by (simp add: bldpoll_loop.simps)
next
  case (Cons a rest)
  obtain t where t: "h_tp g a = Some t" using si_inv_live [OF Cons.prems(1), of a] by auto
  have nx: "tp_next t = first rest" using si_inv_next [OF Cons.prems(1) t] .
  have run: "bldpoll_loop g (first (a # rest)) = bldpoll_blk g a t \<bind> (\<lambda>g1. bldpoll_loop g1 (first rest))"
    using t nx by (subst bldpoll_loop.simps) simp
  show ?case
  proof (cases "tp_live g a")
    case False
    then have "ds @ rest \<noteq> []" using Cons.prems(2) by auto
    from blk_deleted [OF Cons.prems(1) t False this] obtain g1 where
      g1: "bldpoll_blk g a t = Some g1" "si_inv g1 (ds @ rest)" "h_tp g1 a = None" "\<forall>b. h_tp g b = None \<longrightarrow> h_tp g1 b = None"
      and sb: "same_blks g g1 (set (ds @ rest))"
      and f: "readfds g1 = readfds g" "writefds g1 = writefds g" "execpfds g1 = execpfds g" "fdcount g1 = fdcount g" "tp_map g1 = tp_map g"
      by blast
    have e: "fds_of g1 (\<lambda>_. True) rest = fds_of g (\<lambda>_. True) (a # rest)" "fds_of g1 reading rest = fds_of g reading (a # rest)"
      using same_blks_fds [OF sb, of rest] fds_of_Cons [OF t, of _ rest] False t by (auto simp: tp_live_def)
    have fl: "filter (tp_live g1) rest = filter (tp_live g) rest" by (rule same_blks_filter [OF sb]) auto
    have "\<exists>b\<in>set (ds @ rest). tp_live g1 b" using Cons.prems(2) False same_blks_live [OF sb] by auto
    from Cons.IH [OF g1(2) this] obtain g' where
      g': "bldpoll_loop g1 (first rest) = Some g'" "si_inv g' (ds @ filter (tp_live g) rest)"
        "\<forall>a\<in>set rest. \<not> tp_live g1 a \<longrightarrow> h_tp g' a = None" "\<forall>b. h_tp g1 b = None \<longrightarrow> h_tp g' b = None"
        "same_blks g1 g' (set (ds @ filter (tp_live g) rest))"
        "set (readfds g') = set (readfds g) \<union> fds_of g reading (a # rest)" "set (execpfds g') = set (execpfds g) \<union> fds_of g (\<lambda>_. True) (a # rest)"
        "writefds g' = writefds g" "\<forall>fd\<in>set (execpfds g'). fd < fdcount g'" "tp_map g' = tp_map g"
      using Cons.prems(3,4) unfolding e f fl by blast
    have "same_blks g g' (set (ds @ filter (tp_live g) rest))"
      using same_blks_trans [OF same_blks_subset [OF sb] g'(5)] by auto
    moreover have "\<forall>b\<in>set (a # rest). \<not> tp_live g b \<longrightarrow> h_tp g' b = None"
      using g'(3,4) g1(3) same_blks_live [OF sb] by auto
    ultimately show ?thesis using run g1(1,4) g' False by (intro exI [of _ g']) simp
  next
    case True
    have "tp_fd t < FD_SETSIZE" using Cons.prems(3) fds_of_Cons [OF t, of "\<lambda>_. True" rest] True t by (cases "tp_fd t \<ge> 0") (auto simp: tp_live_def)
    from blk_live [OF Cons.prems(1) t _ True this Cons.prems(4)] obtain g1 where
      g1: "bldpoll_blk g a t = Some g1" "si_inv g1 ((ds @ [a]) @ rest)" "h_tp g1 = h_tp g" "writefds g1 = writefds g" "tp_map g1 = tp_map g"
        "\<forall>x\<in>set (execpfds g1). x < fdcount g1"
      and s: "set (execpfds g1) = set (execpfds g) \<union> (if tp_fd t \<ge> 0 then {tp_fd t} else {})"
        "set (readfds g1) = set (readfds g) \<union> (if tp_fd t \<ge> 0 \<and> reading t then {tp_fd t} else {})" by auto
    have lv: "tp_live g1 = tp_live g" by (simp add: tp_live_def g1(3) fun_eq_iff)
    have fo: "fds_of g1 P rest = fds_of g P rest" for P by (simp add: fds_of_def g1(3))
    have e: "set (execpfds g1) \<union> fds_of g (\<lambda>_. True) rest = set (execpfds g) \<union> fds_of g (\<lambda>_. True) (a # rest)"
      "set (readfds g1) \<union> fds_of g reading rest = set (readfds g) \<union> fds_of g reading (a # rest)"
      using s True t by (auto simp: fds_of_Cons [OF t] tp_live_def split: if_splits)
    have p2: "\<exists>b\<in>set ((ds @ [a]) @ rest). tp_live g1 b" using True by (simp add: lv)
    have p3: "\<forall>fd\<in>fds_of g1 (\<lambda>_. True) rest. fd < FD_SETSIZE" using Cons.prems(3) by (auto simp: fo fds_of_Cons [OF t])
    have sb: "same_blks g1 g' S \<longleftrightarrow> same_blks g g' S" for g' S by (simp add: same_blks_def g1(3))
    from Cons.IH [OF g1(2) p2 p3 g1(6)] run g1(1) True show ?thesis
      unfolding lv fo g1(3-5) e sb by auto
  qed
qed

lemma SIbldpoll_inv:
  assumes inv: "si_inv g xs" and live: "\<exists>a\<in>set xs. tp_live g a" and fds: "\<forall>fd\<in>fds_of g (\<lambda>_. True) xs. fd < FD_SETSIZE"
  shows "\<exists>g'. SIbldpoll g = Some g' \<and> si_inv g' (filter (tp_live g) xs) \<and> (\<forall>a\<in>set xs. \<not> tp_live g a \<longrightarrow> h_tp g' a = None) \<and>
    same_blks g g' (set (filter (tp_live g) xs)) \<and> set (readfds g') = fds_of g reading xs \<and> set (execpfds g') = fds_of g (\<lambda>_. True) xs \<and>
    writefds g' = [] \<and> (\<forall>fd\<in>set (execpfds g'). fd < fdcount g') \<and> tp_map g' = tp_map g"
proof -
  let ?g = "g\<lparr>fdcount := -1, readfds := [], writefds := [], execpfds := []\<rparr>"
  have i: "si_inv ?g ([] @ xs)" using inv by (simp add: si_inv_def dll_def map_ok_def)
  have e: "tp_live ?g = tp_live g" "\<And>P. fds_of ?g P xs = fds_of g P xs" "\<And>g' S. same_blks ?g g' S = same_blks g g' S"
    by (auto simp: tp_live_def fds_of_def same_blks_def fun_eq_iff)
  show ?thesis unfolding SIbldpoll_def si_inv_first [OF inv]
    using bldpoll_loop_ok [OF i] live fds unfolding e by auto
qed

section \<open>Sending\<close>

text \<open>What has been written to a descriptor, from a log.\<close>

definition sent_on :: "int \<Rightarrow> os_event list \<Rightarrow> bytes" where
  "sent_on fd l = concat (map (\<lambda>e. case e of OsSend f b \<Rightarrow> if f = fd then b else [] | _ \<Rightarrow> []) l)"

lemma sent_on_append [simp]: "sent_on fd (a @ b) = sent_on fd a @ sent_on fd b"
  by (simp add: sent_on_def)

lemma sent_on_send [simp]: "sent_on fd [OsSend fd b] = b"
  by (simp add: sent_on_def)

text \<open>The contract of \<^verbatim>\<open>send\<close> on a stream socket for a request of at least one byte: a positive
  count, or a failure.\<close>

definition send_progress :: "si_env \<Rightarrow> bool" where
  "send_progress env = (\<forall>n. fst (o_send env n) \<noteq> 0)"

text \<open>The outcome of the loop: everything is written, or a proper prefix and an error.\<close>

definition whole_or_prefix :: "int \<Rightarrow> bytes \<Rightarrow> int \<Rightarrow> os_event list \<Rightarrow> bool" where
  "whole_or_prefix fd want st log = (st = SI_OK \<and> sent_on fd log = want \<or>
     st = SI_ERROR \<and> (\<exists>m. m < length want \<and> sent_on fd log = take m want))"

lemma whole_or_prefix_cons:
  assumes "whole_or_prefix fd (drop n want) st log" and "n \<le> length want"
  shows "whole_or_prefix fd want st (OsSend fd (take n want) # log)"
proof -
  have c: "sent_on fd (OsSend fd (take n want) # log) = take n want @ sent_on fd log" by (simp add: sent_on_def)
  have "take n want @ take m (drop n want) = take (n + m) want" for m by (simp add: take_add)
  with assms c show ?thesis unfolding whole_or_prefix_def by (auto intro!: exI [of _ "n + m" for m])
qed

lemma sendt_loop_ok:
  assumes "send_progress env" and "0 \<le> ulen" and "sidx + nat ulen \<le> length ubuf" and "status = SI_OK \<or> ulen > 0"
  shows "\<exists>st e k log. sendt_loop env g fd ubuf sidx ulen status e0 = Some ((st, e), g\<lparr>os_n := os_n g + k, os_log := os_log g @ log\<rparr>) \<and>
    whole_or_prefix fd (take (nat ulen) (drop sidx ubuf)) st log"
  using assms(2-)
proof (induction "nat ulen" arbitrary: g sidx ulen status rule: less_induct)
  case less
  let ?c = "take (nat ulen) (drop sidx ubuf)"
  obtain n e1 where n: "o_send env (os_n g) = (n, e1)" by (cases "o_send env (os_n g)")
  have c: "mem_rd ubuf sidx (nat ulen) = Some ?c" using less.prems(2) by (simp add: mem_rd_def)
  consider (stop) "ulen \<le> 0" | (err) "ulen > 0" "n < 0" | (ok) "ulen > 0" "n > 0"
    using assms(1) n unfolding send_progress_def by (metis fst_conv linorder_cases not_le)
  then show ?case
  proof cases
    case stop
    then have "sendt_loop env g fd ubuf sidx ulen status e0 = Some ((status, e0), g\<lparr>os_n := os_n g + 0, os_log := os_log g @ []\<rparr>)"
      by (subst sendt_loop.simps) simp
    moreover have "whole_or_prefix fd ?c status []" using stop less.prems by (simp add: whole_or_prefix_def sent_on_def)
    ultimately show ?thesis by blast
  next
    case err
    then have "sendt_loop env g fd ubuf sidx ulen status e0 = Some ((SI_ERROR, e1), g\<lparr>os_n := os_n g + 1, os_log := os_log g @ []\<rparr>)"
      using c n by (subst sendt_loop.simps) (simp add: tick_def)
    moreover have "whole_or_prefix fd ?c SI_ERROR []" using err less.prems(2) by (auto simp: whole_or_prefix_def sent_on_def intro!: exI [of _ 0])
    ultimately show ?thesis by blast
  next
    case ok
    let ?ev = "OsSend fd (take (nat n) ?c)"
    let ?g = "os_do (tick g) ?ev"
    have run: "sendt_loop env g fd ubuf sidx ulen status e0 = sendt_loop env ?g fd ubuf (sidx + nat n) (ulen - n) SI_OK e0"
      using ok c n by (subst sendt_loop.simps) simp
    have fin: "?g\<lparr>os_n := os_n ?g + k, os_log := os_log ?g @ log\<rparr> = g\<lparr>os_n := os_n g + Suc k, os_log := os_log g @ ?ev # log\<rparr>" for k log
      by (simp add: si_frame_defs)
    show ?thesis
    proof (cases "n \<le> ulen")
      case True
      have d: "take (nat (ulen - n)) (drop (sidx + nat n) ubuf) = drop (nat n) ?c"
        using True ok by (simp add: drop_take nat_diff_distrib add.commute)
      have "nat (ulen - n) < nat ulen" "0 \<le> ulen - n" "sidx + nat n + nat (ulen - n) \<le> length ubuf" using ok True less.prems(2) by auto
      from less.hyps [OF this, of SI_OK ?g] obtain st e k log where
        r: "sendt_loop env ?g fd ubuf (sidx + nat n) (ulen - n) SI_OK e0 = Some ((st, e), ?g\<lparr>os_n := os_n ?g + k, os_log := os_log ?g @ log\<rparr>)"
        and o: "whole_or_prefix fd (drop (nat n) ?c) st log" unfolding d by auto
      have "whole_or_prefix fd ?c st (?ev # log)" using whole_or_prefix_cons [OF o] True less.prems(2) by simp
      then show ?thesis unfolding run r fin by blast
    next
      case False
      then have "sendt_loop env ?g fd ubuf (sidx + nat n) (ulen - n) SI_OK e0 = Some ((SI_OK, e0), ?g\<lparr>os_n := os_n ?g + 0, os_log := os_log ?g @ []\<rparr>)"
        by (subst sendt_loop.simps) simp
      moreover have "whole_or_prefix fd ?c SI_OK [?ev]" using False ok by (simp add: whole_or_prefix_def sent_on_def)
      ultimately show ?thesis unfolding run fin by blast
    qed
  qed
qed

text \<open>A search of the list ends, at a block of it with the property or at its end.\<close>

lemma find_tp_list:
  assumes "si_inv g (ys @ xs)"
  shows "\<exists>r. find_tp P g (first xs) = Some r \<and> (r = None \<longrightarrow> (\<forall>a\<in>set xs. \<forall>t. h_tp g a = Some t \<longrightarrow> \<not> P t)) \<and>
    (\<forall>a. r = Some a \<longrightarrow> a \<in> set xs \<and> (\<exists>t. h_tp g a = Some t \<and> P t))"
  using assms
proof (induction xs arbitrary: ys)
  case Nil
  then show ?case by (simp add: find_tp.simps)
next
  case (Cons a xs)
  obtain t where t: "h_tp g a = Some t" using si_inv_live [OF Cons.prems, of a] by auto
  have nx: "tp_next t = first xs" using si_inv_next [OF Cons.prems t] .
  from Cons.IH [of "ys @ [a]"] Cons.prems t nx show ?case by (subst (1) find_tp.simps) (cases "P t", auto)
qed

lemma tp_of_fd_ok:
  assumes inv: "si_inv g xs" and "0 \<le> fd"
  shows "\<exists>r. tp_of_fd g fd = Some r \<and> (\<forall>a. r = Some a \<longrightarrow> a \<in> set xs \<and> (\<exists>t. h_tp g a = Some t \<and> tp_fd t = fd))"
proof (cases "fd < MAX_FDS")
  case True
  then show ?thesis using si_invD(2) [OF inv] by (auto simp: tp_of_fd_def map_ok_def)
next
  case False
  then show ?thesis using find_tp_list [of g "[]" xs "\<lambda>t. tp_fd t = fd"] inv si_inv_first [OF inv] by (auto simp: tp_of_fd_def)
qed

lemma SIsendt_inv:
  assumes inv: "si_inv g xs" and prog: "send_progress env" and len: "0 < ulen" "nat ulen \<le> length ubuf"
  shows "\<exists>st e g' log. SIsendt env g fd ubuf ulen = Some ((st, e), g') \<and> si_inv g' xs \<and> os_log g' = os_log g @ log \<and>
    (st = SI_ERR_BLOCKED \<and> e = EBUSY \<and> log = [] \<or> whole_or_prefix fd (take (nat ulen) ubuf) st log)"
proof (cases "fd < 0")
  case True
  then show ?thesis using inv len by (auto simp: SIsendt_def whole_or_prefix_def sent_on_def intro!: exI [of _ "[]"] exI [of _ 0])
next
  case False
  have wp: "whole_or_prefix fd (take (nat ulen) ubuf) SI_ERROR l" if "sent_on fd l = []" for l
    using that len by (auto simp: whole_or_prefix_def intro!: exI [of _ 0])
  obtain r where r: "tp_of_fd g fd = Some r" and ra: "\<And>a. r = Some a \<Longrightarrow> a \<in> set xs \<and> (\<exists>t. h_tp g a = Some t \<and> tp_fd t = fd)"
    using tp_of_fd_ok [OF inv, of fd] False by auto
  obtain rc e0 rd wr ex where sel: "o_select env (os_n g) = ((rc, e0), rd, wr, ex)" by (metis prod_cases5 surj_pair)
  show ?thesis
  proof (cases r)
    case None
    then show ?thesis using False r inv wp [of "[]"] by (auto simp: SIsendt_def sent_on_def intro!: exI [of _ "[]"])
  next
    case (Some a)
    then obtain t where a: "a \<in> set xs" and t: "h_tp g a = Some t" "tp_fd t = fd" using ra by auto
    let ?t = "t\<lparr>tp_sent := tp_sent t + 1\<rparr>"
    let ?g = "tick (put_tp g a ?t)"
    have i1: "si_inv ?g xs" using si_inv_put [OF inv t(1), of ?t] si_invD(4) [OF inv a t(1)] by (simp add: blk_ok_def)
    have l1: "os_log ?g = os_log g" by (simp add: tick_def put_tp_def)
    consider (big) "fd \<ge> FD_SETSIZE" | (blk) "fd < FD_SETSIZE" "rc \<le> 0" | (ex) "fd < FD_SETSIZE" "rc > 0" "fd \<in> set ex"
      | (go) "fd < FD_SETSIZE" "rc > 0" "fd \<notin> set ex" by linarith
    then show ?thesis
    proof cases
      case big
      then show ?thesis using False r Some t inv wp [of "[]"] by (auto simp: SIsendt_def sent_on_def intro!: exI [of _ "[]"])
    next
      case blk
      then have "SIsendt env g fd ubuf ulen = Some ((SI_ERR_BLOCKED, EBUSY), ?g)" using False r Some t sel by (simp add: SIsendt_def)
      then show ?thesis using i1 l1 by auto
    next
      case ex
      obtain g2 where g2: "SIterm ?g (Some a) = Some g2" "si_inv g2 xs" using SIterm_inv [OF i1 a, of ?t] by auto
      have "\<exists>l. os_log g2 = os_log g @ l \<and> sent_on fd l = []"
        using g2(1) t l1 by (auto simp: SIterm_def si_frame_defs put_tp_def sent_on_def Let_def)
      moreover have "SIsendt env g fd ubuf ulen = Some ((SI_ERROR, EBADFD), g2)" using False r Some t sel ex g2 by (simp add: SIsendt_def)
      ultimately show ?thesis using g2 wp by auto
    next
      case go
      then have "SIsendt env g fd ubuf ulen = sendt_loop env ?g fd ubuf 0 ulen SI_ERROR E0" using False r Some t sel by (simp add: SIsendt_def)
      moreover obtain st e k log where "sendt_loop env ?g fd ubuf 0 ulen SI_ERROR E0 = Some ((st, e), ?g\<lparr>os_n := os_n ?g + k, os_log := os_log ?g @ log\<rparr>)"
        "whole_or_prefix fd (take (nat ulen) ubuf) st log" using sendt_loop_ok [OF prog, of ulen 0 ubuf SI_ERROR ?g fd E0] len by auto
      moreover have "si_inv (?g\<lparr>os_n := os_n ?g + k, os_log := os_log ?g @ log\<rparr>) xs" using i1 by (simp add: si_inv_def dll_def map_ok_def)
      ultimately show ?thesis using l1 by auto
    qed
  qed
qed

text \<open>Nothing is written to another descriptor.\<close>

lemma sendt_loop_only:
  assumes "sendt_loop env g fd ubuf sidx ulen st e0 = Some r" and "fd' \<noteq> fd"
  shows "sent_on fd' (os_log (snd r)) = sent_on fd' (os_log g)"
  using assms(1)
proof (rule sendt_loop.raw_induct [where P = "\<lambda>env g f ubuf sidx ulen st e0 r. f = fd \<longrightarrow> sent_on fd' (os_log (snd r)) = sent_on fd' (os_log g)", THEN mp, rotated])
  fix sl and env :: si_env and g :: "'a ginfo_blk" and f ubuf sidx ulen st e0 r
  assume IH: "\<And>env g f ubuf sidx ulen st e0 r. sl env g f ubuf sidx ulen st e0 = Some r \<Longrightarrow> f = fd \<longrightarrow> sent_on fd' (os_log (snd r)) = sent_on fd' (os_log g)"
    and run: "(if 0 < ulen then mem_rd ubuf sidx (nat ulen) \<bind>
      (\<lambda>chunk. let (n, e1) = o_send env (os_n g); g1 = tick g
               in if n \<ge> 0 then sl env (os_do g1 (OsSend f (take (nat n) chunk))) f ubuf (sidx + nat n) (ulen - n) SI_OK e0
                  else Some ((SI_ERROR, e1), g1))
      else Some ((st, e0), g)) = Some r"
  have w: "sent_on fd' (os_log (os_do (tick g) (OsSend fd b))) = sent_on fd' (os_log g)" for b
    using assms(2) by (simp add: si_frame_defs sent_on_def)
  have t: "os_log (tick g) = os_log g" by (simp add: si_frame_defs)
  show "f = fd \<longrightarrow> sent_on fd' (os_log (snd r)) = sent_on fd' (os_log g)"
  proof
    assume "f = fd"
    obtain n e1 where n: "o_send env (os_n g) = (n, e1)" by fastforce
    show "sent_on fd' (os_log (snd r)) = sent_on fd' (os_log g)"
    proof (cases "0 < ulen \<and> 0 \<le> n")
      case True
      then obtain chunk where "sl env (os_do (tick g) (OsSend f (take (nat n) chunk))) f ubuf (sidx + nat n) (ulen - n) SI_OK e0 = Some r"
        using run n by (auto simp: option_bind_Some_iff)
      then show ?thesis using IH w \<open>f = fd\<close> by metis
    next
      case False
      then show ?thesis using run n t by (auto simp: option_bind_Some_iff split: if_splits)
    qed
  qed
qed simp

lemma SIsendt_only:
  assumes inv: "si_inv g xs" and run: "SIsendt env g fd ubuf ulen = Some (r, g')" and ne: "fd' \<noteq> fd"
  shows "sent_on fd' (os_log g') = sent_on fd' (os_log g)"
proof (cases "fd < 0")
  case True
  then show ?thesis using run by (simp add: SIsendt_def)
next
  case False
  then obtain o' where o: "tp_of_fd g fd = Some o'" "\<And>a. o' = Some a \<Longrightarrow> \<exists>t. h_tp g a = Some t \<and> tp_fd t = fd" using tp_of_fd_ok [OF inv, of fd] by auto
  show ?thesis
  proof (cases o')
    case None
    then show ?thesis using run False o by (simp add: SIsendt_def)
  next
    case (Some a)
    then obtain t where t: "h_tp g a = Some t" "tp_fd t = fd" using o(2) by blast
    let ?g = "tick (put_tp g a (t\<lparr>tp_sent := tp_sent t + 1\<rparr>))"
    have l: "os_log ?g = os_log g" by (simp add: tick_def put_tp_def)
    have tm: "sent_on fd' (os_log g2) = sent_on fd' (os_log g)" if "SIterm ?g (Some a) = Some g2" for g2
      using that t l by (auto simp: SIterm_def si_frame_defs put_tp_def sent_on_def Let_def)
    show ?thesis using run False o(1) Some t tm sendt_loop_only [OF _ ne, of env ?g ubuf 0 ulen SI_ERROR E0] l
      by (fastforce simp: SIsendt_def Let_def option_bind_Some_iff split: if_splits prod.splits)
  qed
qed

section \<open>Connections\<close>

lemma SItrash_inv:
  assumes "si_inv g xs" and "a \<notin> set xs" and "h_tp g a = Some t"
  shows "\<exists>g'. SItrash g (Some a) = Some g' \<and> si_inv g' xs \<and> h_tp g' = (h_tp g)(a := None) \<and> tp_map g' = tp_map g \<and> tplist g' = tplist g"
proof -
  have "a < tp_fresh g" using assms(1,3) si_invD(3) [OF assms(1), of a] by (metis not_le option.distinct(1))
  then show ?thesis using assms si_inv_put_off(2) [of g xs a] si_inv_put_off(2) [of "os_do g (OsClose (tp_fd t))" xs a]
    by (simp add: SItrash_def) (simp add: free_tp_def)
qed

lemma SIgenaddr_cases: "SIgenaddr env target family ty = (alen, sa) \<Longrightarrow> alen > 0 \<Longrightarrow> \<exists>a. sa = Some a"
  by (auto simp: SIgenaddr_def split: option.splits prod.splits)

text \<open>The two preparation functions return a block outside of the list with an open descriptor, or
  nothing and leave no block behind.\<close>

lemma conn_prep_ok:
  assumes inv: "si_inv g xs"
  shows "\<exists>r g'. SIconn_prep env g ty abuf family = Some (r, g') \<and> si_inv g' xs \<and> (\<forall>b. b \<noteq> tp_fresh g \<longrightarrow> h_tp g' b = h_tp g b) \<and>
    tp_map g' = tp_map g \<and> tplist g' = tplist g \<and>
    (case r of None \<Rightarrow> h_tp g' = h_tp g
     | Some a \<Rightarrow> a = tp_fresh g \<and> (\<exists>t. h_tp g' a = Some t \<and> tp_prev t = None \<and> tp_fd t \<ge> 0 \<and> blk_ok t))"
  using inv
proof (cases rule: SInew_tp_cases [of g xs "si_ok env"])
  case none
  then show ?thesis using inv by (simp add: SIconn_prep_def)
next
  case (blk a g1 t)
  obtain alen sa where ga: "SIgenaddr env abuf family (proto_type ty) = (alen, sa)" by (cases "SIgenaddr env abuf family (proto_type ty)")
  have hf: "h_tp g a = None" using si_invD(3) [OF inv, of a] blk(2) by simp
  have fr: "(h_tp g)(a \<mapsto> y, a := None) = h_tp g" for y using hf by (auto simp: fun_eq_iff)
  show ?thesis
  proof (cases "alen \<le> 0")
    case True
    then show ?thesis using blk ga hf fr si_inv_put_off(2) [OF blk(3,4)] by (simp add: SIconn_prep_def) (auto simp: free_tp_def)
  next
    case False
    then obtain addr where sa: "sa = Some addr" using SIgenaddr_cases [OF ga] by auto
    let ?fd = "o_socket env (os_n g1)"
    let ?t = "t\<lparr>tp_type := proto_type ty, tp_family := sa_family addr, tp_palen := alen, tp_fd := ?fd\<rparr>"
    let ?g = "put_tp (tick g1) a ?t"
    have i: "si_inv ?g xs" using si_inv_put_off(1) [of "tick g1" xs a ?t] blk by simp
    show ?thesis
    proof (cases "?fd \<ge> 0")
      case True
      let ?t2 = "?t\<lparr>tp_paddr := Some addr, tp_flags := (if need_smartc abuf then tp_flags ?t OR TPF_SAFEC else tp_flags ?t)\<rparr>"
      let ?g2 = "put_tp (os_opts ?g ?fd (tcp_opts (tcp_flags ?g))) a ?t2"
      have "SIconn_prep env g ty abuf family = Some (Some a, ?g2)" using blk ga sa False True by (simp add: SIconn_prep_def Let_def)
      moreover have "si_inv ?g2 xs" using si_inv_put_off(1) [of "os_opts ?g ?fd (tcp_opts (tcp_flags ?g))" xs a ?t2] i blk by simp
      moreover have "blk_ok ?t2" using blk by (simp add: blk_ok_def)
      ultimately show ?thesis using True blk by auto
    next
      case F: False
      obtain g4 where "SItrash ?g (Some a) = Some g4" "si_inv g4 xs" "h_tp g4 = (h_tp ?g)(a := None)" "tp_map g4 = tp_map ?g" "tplist g4 = tplist ?g"
        using SItrash_inv [OF i blk(4)] by auto
      then show ?thesis using blk ga sa False F fr by (simp add: SIconn_prep_def Let_def)
    qed
  qed
qed

lemma safe_connect_frame:
  assumes "safe_connect env g fd addr alen = (st, g')"
  shows "si_inv g' xs = si_inv g xs" "h_tp g' = h_tp g" "tp_map g' = tp_map g" "tp_fresh g' = tp_fresh g" "tplist g' = tplist g"
  using assms by (auto simp: safe_connect_def Let_def siabort_conn_def split: prod.splits if_splits)

lemma connect_tp_frame:
  assumes "connect_tp env g t = (ok, g')"
  shows "si_inv g' xs = si_inv g xs" "h_tp g' = h_tp g" "tp_map g' = tp_map g" "tp_fresh g' = tp_fresh g" "tplist g' = tplist g"
  using assms by (auto simp: connect_tp_def Let_def safe_connect_frame split: prod.splits if_splits)

text \<open>A block outside of the list is linked and mapped to its descriptor.\<close>

lemma link_map_inv:
  assumes inv: "si_inv g xs" and a: "a \<notin> set xs" "h_tp g a = Some t" "tp_prev t = None" "blk_ok t" "tp_fd t \<ge> 0"
  shows "\<exists>g'. tp_link g a = Some g' \<and> si_inv (SImap_fd g' (tp_fd t) (Some a)) (a # xs) \<and>
    h_tp g' a = Some (t\<lparr>tp_next := tplist g\<rparr>)"
proof -
  obtain g' where g': "tp_link g a = Some g'" "si_inv g' (a # xs)" "h_tp g' a = Some (t\<lparr>tp_next := tplist g\<rparr>)"
    using tp_link_inv [OF inv a(1-4)] by auto
  have "si_inv (SImap_fd g' (tp_fd t) (Some a)) (a # xs)"
    using g'(2,3) a(5) unfolding SImap_fd_def si_inv_def dll_def map_ok_def by auto
  with g' show ?thesis by auto
qed

lemma SIconnect_inv:
  assumes inv: "si_inv g xs"
  shows "\<exists>fd g' xs'. SIconnect env g abuf = Some (fd, g') \<and> si_inv g' xs' \<and>
    (if fd < 0 then xs' = xs \<and> h_tp g' = h_tp g \<and> tp_map g' = tp_map g
     else \<exists>a t. xs' = a # xs \<and> h_tp g' a = Some t \<and> tp_fd t = fd \<and> tp_live g' a \<and> (fd < MAX_FDS \<longrightarrow> tp_map g' fd = Some a))"
proof -
  obtain r g1 where p: "SIconn_prep env g TCP_DEVICE abuf 0 = Some (r, g1)" "si_inv g1 xs" "tp_map g1 = tp_map g" "tplist g1 = tplist g"
    "\<forall>b. b \<noteq> tp_fresh g \<longrightarrow> h_tp g1 b = h_tp g b"
    and rc: "case r of None \<Rightarrow> h_tp g1 = h_tp g
       | Some a \<Rightarrow> a = tp_fresh g \<and> (\<exists>t. h_tp g1 a = Some t \<and> tp_prev t = None \<and> tp_fd t \<ge> 0 \<and> blk_ok t)"
    using conn_prep_ok [OF inv, of env TCP_DEVICE abuf 0] by blast
  show ?thesis
  proof (cases r)
    case None
    then show ?thesis using p rc by (simp add: SIconnect_def)
  next
    case (Some a)
    then obtain t where a: "a = tp_fresh g" "h_tp g1 a = Some t" "tp_prev t = None" "tp_fd t \<ge> 0" "blk_ok t" using rc by auto
    have off: "a \<notin> set xs" using si_inv_bound [OF inv, of a] a(1) by auto
    have hf: "h_tp g a = None" using si_invD(3) [OF inv, of a] a(1) by simp
    define quick where "quick = (tcp_flags g1 AND SI_TF_QUICK \<noteq> 0)"
    define g2 where "g2 = (if quick then os_opts g1 (tp_fd t) [(TcpSyncnt, 2)] else g1)"
    obtain ok g3 where c: "connect_tp env g2 t = (ok, g3)" by (cases "connect_tp env g2 t")
    have f: "si_inv g3 xs" "h_tp g3 = h_tp g1" "tp_map g3 = tp_map g1" "tplist g3 = tplist g1" "tp_fresh g3 = tp_fresh g1"
      using connect_tp_frame [OF c] p(2) unfolding g2_def by simp_all
    have af: "a < tp_fresh g3" using a(2) si_invD(3) [OF p(2), of a] f(5) by (metis not_le option.distinct(1))
    show ?thesis
    proof (cases ok)
      case False
      let ?g = "put_tp g3 a (t\<lparr>tp_fd := -1\<rparr>)"
      have "si_inv ?g xs" using si_inv_put_off(1) [OF f(1) off af] .
      from SItrash_inv [OF this off] obtain g4 where g4: "SItrash ?g (Some a) = Some g4" "si_inv g4 xs"
        "h_tp g4 = (h_tp ?g)(a := None)" "tp_map g4 = tp_map ?g" by auto
      have "h_tp g4 = h_tp g" using g4(3) f(2) p(5) a(1) hf by (auto simp: fun_eq_iff)
      moreover have "SIconnect env g abuf = Some (SI_ERROR, g4)"
        using p(1) Some a(2) c False g4(1) unfolding SIconnect_def g2_def quick_def by (simp add: Let_def cong: if_cong)
      ultimately show ?thesis using g4 f(3) p(3) by simp
    next
      case True
      let ?t = "t\<lparr>tp_flags := tp_flags t OR TPF_SESSION\<rparr>"
      let ?g = "put_tp (if quick then os_opts g3 (tp_fd t) [(TcpSyncnt, o_syncnt env)] else g3) a ?t"
      have "(t1 AND TPF_DELETE = 0) = ((t1 OR TPF_SESSION) AND TPF_DELETE = 0)" for t1 :: u32 by (simp add: bit.conj_disj_distrib2)
      then have bk: "blk_ok ?t" and nd: "tp_flags t AND TPF_DELETE = 0" using a(4,5) by (auto simp: blk_ok_def)
      have "si_inv ?g xs" by (rule si_inv_put_off(1)) (use f(1) off af in auto)
      from link_map_inv [OF this off _ _ bk] a(3,4) obtain g4 where
        g4: "tp_link ?g a = Some g4" "si_inv (SImap_fd g4 (tp_fd t) (Some a)) (a # xs)" "h_tp g4 a = Some (?t\<lparr>tp_next := tplist ?g\<rparr>)" by auto
      have "SIconnect env g abuf = Some (tp_fd t, SImap_fd g4 (tp_fd t) (Some a))"
        using p(1) Some a(2) c True g4(1) unfolding SIconnect_def g2_def quick_def by (simp add: Let_def cong: if_cong)
      then show ?thesis using g4 a(4) nd by (auto simp: SImap_fd_def tp_live_def bit.conj_disj_distrib2)
    qed
  qed
qed

text \<open>The listener is prepared in the same way; its descriptor is not entered in the map.\<close>

lemma listen_prep_ok:
  assumes inv: "si_inv g xs"
  shows "\<exists>r g'. SIlisten_prep env g ty abuf family = Some (r, g') \<and> si_inv g' xs \<and>
    (case r of None \<Rightarrow> h_tp g' = h_tp g
     | Some a \<Rightarrow> a \<notin> set xs \<and> (\<exists>t. h_tp g' a = Some t \<and> tp_prev t = None \<and> tp_fd t \<ge> 0 \<and> blk_ok t \<and> tp_flags t = TPF_UNBIND))"
  using inv
proof (cases rule: SInew_tp_cases [of g xs "si_ok env"])
  case none
  then show ?thesis using inv by (simp add: SIlisten_prep_def)
next
  case (blk a g1 t)
  obtain alen sa where ga: "SIgenaddr env abuf family (proto_type ty) = (alen, sa)" by (cases "SIgenaddr env abuf family (proto_type ty)")
  have hf: "h_tp g a = None" using si_invD(3) [OF inv, of a] blk(2) by simp
  have fr: "(h_tp g)(a \<mapsto> y, a := None) = h_tp g" for y using hf by (auto simp: fun_eq_iff)
  show ?thesis
  proof (cases "alen \<le> 0")
    case True
    then show ?thesis using blk ga hf fr si_inv_put_off(2) [OF blk(3,4)] by (simp add: SIlisten_prep_def) (auto simp: free_tp_def)
  next
    case False
    then obtain addr where sa: "sa = Some addr" using SIgenaddr_cases [OF ga] by auto
    let ?fd = "o_socket env (os_n g1)"
    let ?t = "t\<lparr>tp_type := proto_type ty, tp_family := sa_family addr, tp_fd := ?fd\<rparr>"
    let ?g = "put_tp (tick g1) a ?t"
    let ?g3 = "tick (os_opts ?g ?fd [(SoReuseport, 1)])"
    have i: "si_inv ?g xs" using si_inv_put_off(1) [of "tick g1" xs a ?t] blk by simp
    have tr: "\<exists>g4. SItrash h (Some a) = Some g4 \<and> si_inv g4 xs \<and> h_tp g4 = h_tp g" if "si_inv h xs" "h_tp h = h_tp ?g" for h
      using SItrash_inv [OF that(1) blk(4), of ?t] that(2) blk fr by auto
    consider (bad) "?fd < 0" | (nobind) "?fd \<ge> 0" "o_bind env (Suc (os_n g1)) \<noteq> 0" | (ok) "?fd \<ge> 0" "o_bind env (Suc (os_n g1)) = 0" by linarith
    then show ?thesis
    proof cases
      case bad
      then show ?thesis using tr [of ?g] i blk ga sa False by (auto simp: SIlisten_prep_def Let_def)
    next
      case nobind
      then show ?thesis using tr [of "os_do ?g3 (OsClose ?fd)"] i blk ga sa False by (auto simp: SIlisten_prep_def Let_def)
    next
      case ok
      let ?t2 = "?t\<lparr>tp_addr := Some addr\<rparr>"
      have "si_inv (put_tp ?g3 a ?t2) xs" by (rule si_inv_put_off(1)) (use i blk in auto)
      then show ?thesis using ok blk ga sa False by (auto simp: SIlisten_prep_def Let_def blk_ok_def)
    qed
  qed
qed

lemma SIlistener_inv:
  assumes inv: "si_inv g xs"
  shows "\<exists>fd g' xs'. SIlistener env g ty abuf = Some (fd, g') \<and> si_inv g' xs' \<and>
    (if fd < 0 then xs' = xs else \<exists>a t. xs' = a # xs \<and> h_tp g' a = Some t \<and> tp_fd t = fd \<and> tp_live g' a \<and>
       (ty = TCP_DEVICE \<longrightarrow> tp_flags t AND TPF_LISTENFD \<noteq> 0))"
proof -
  obtain r g1 where p: "SIlisten_prep env g ty abuf 0 = Some (r, g1)" "si_inv g1 xs"
    and rc: "case r of None \<Rightarrow> h_tp g1 = h_tp g
       | Some a \<Rightarrow> a \<notin> set xs \<and> (\<exists>t. h_tp g1 a = Some t \<and> tp_prev t = None \<and> tp_fd t \<ge> 0 \<and> blk_ok t \<and> tp_flags t = TPF_UNBIND)"
    using listen_prep_ok [OF inv, of env ty abuf 0] by blast
  show ?thesis
  proof (cases r)
    case None
    then show ?thesis using p by (simp add: SIlistener_def)
  next
    case (Some a)
    then obtain t where a: "a \<notin> set xs" "h_tp g1 a = Some t" "tp_prev t = None" "tp_fd t \<ge> 0" "blk_ok t" "tp_flags t = TPF_UNBIND" using rc by auto
    show ?thesis
    proof (cases "ty = TCP_DEVICE \<and> o_listen env (os_n g1) < 0")
      case True
      then show ?thesis using p Some a by (simp add: SIlistener_def Let_def)
    next
      case False
      let ?t = "if ty = TCP_DEVICE then t\<lparr>tp_flags := tp_flags t OR TPF_LISTENFD\<rparr> else t"
      let ?g = "if ty = TCP_DEVICE then put_tp (tick g1) a (t\<lparr>tp_flags := tp_flags t OR TPF_LISTENFD\<rparr>) else g1"
      have "a < tp_fresh g1" using a(2) si_invD(3) [OF p(2), of a] by (metis not_le option.distinct(1))
      then have "si_inv ?g xs" using p(2) a(1) si_inv_put_off(1) [of "tick g1" xs a] by simp
      moreover have "h_tp ?g a = Some ?t" "tp_prev ?t = None" "blk_ok ?t" using a by (auto simp: blk_ok_def)
      ultimately obtain g' where
        "tp_link ?g a = Some g'" "si_inv g' (a # xs)" "h_tp g' a = Some (?t\<lparr>tp_next := tplist ?g\<rparr>)" using tp_link_inv [of ?g xs a ?t] a(1) by blast
      then show ?thesis using p(1) Some a False by (auto simp: SIlistener_def Let_def tp_live_def split: if_splits)
    qed
  qed
qed

section \<open>Callbacks, closing and shutdown\<close>

lemma call_cb_ok:
  assumes "si_inv g xs" and "ty < MAX_CBS"
  shows "\<exists>st u. call_cb g ty x = Some (st, g\<lparr>si_user := u\<rparr>)"
proof (cases "cbtab g ! ty")
  case None
  then have "call_cb g ty x = Some (None, g\<lparr>si_user := si_user g\<rparr>)" using assms si_invD(5) [OF assms(1)] by (simp add: call_cb_def)
  then show ?thesis by blast
next
  case (Some f)
  then show ?thesis using assms si_invD(5) [OF assms(1)] by (cases "f x (si_user g)") (auto simp: call_cb_def)
qed

lemma drive_cb_ok:
  assumes "si_inv g xs" and "ty < MAX_CBS"
  shows "\<exists>g'. drive_cb g ty x = Some g' \<and> si_inv g' xs \<and> h_tp g' = h_tp g \<and> tp_map g' = tp_map g \<and> tplist g' = tplist g"
proof -
  obtain st u where "call_cb g ty x = Some (st, g\<lparr>si_user := u\<rparr>)" using call_cb_ok [OF assms] by blast
  then show ?thesis using assms(1) by (cases st) (auto simp: drive_cb_def SIcbstat_def si_inv_def dll_def map_ok_def)
qed

lemma SIclose_inv:
  fixes g :: "'u ginfo_blk"
  assumes inv: "si_inv g xs"
  shows "\<exists>st g'. SIclose (Some g) fd = Some (st, Some g') \<and> si_inv g' xs \<and>
    (st = SI_ERROR \<and> g' = g \<or> st = SI_OK \<and> (\<exists>a\<in>set xs. tp_live g a \<noteq> tp_live g' a \<or> \<not> tp_live g a))"
proof -
  let ?find = "if fd \<ge> 0 then tp_of_fd g fd else if fd = -1 then find_tp (\<lambda>t. tp_flags t \<noteq> 0) g (tplist g)
      else find_tp (\<lambda>t. tp_type t = SOCK_DGRAM) g (tplist g)"
  have "\<exists>r. ?find = Some r \<and> (\<forall>a. r = Some a \<longrightarrow> a \<in> set xs)"
    using find_tp_list [of g "[]" xs "\<lambda>t. tp_flags t \<noteq> 0"] find_tp_list [of g "[]" xs "\<lambda>t. tp_type t = SOCK_DGRAM"]
      tp_of_fd_ok [OF inv, of fd] inv si_inv_first [OF inv] by (cases "fd \<ge> 0"; cases "fd = -1") auto
  then obtain r where r: "?find = Some r" "\<And>a. r = Some a \<Longrightarrow> a \<in> set xs" by blast
  show ?thesis
  proof (cases r)
    case None
    then show ?thesis using r inv unfolding SIclose_def by simp
  next
    case (Some a)
    then obtain t where a: "a \<in> set xs" "h_tp g a = Some t" using r(2) si_inv_live [OF inv] by blast
    let ?f = "tp_flags t OR TPF_UNBIND OR TPF_DELETE"
    let ?g = "os_opts g (tp_fd t) [(SoLinger, 1)]"
    have "tp_squeue t = []" using si_invD(4) [OF inv a] by (simp add: blk_ok_def)
    moreover have "os_opts (put_tp g a x) fd l = put_tp (os_opts g fd l) a x" for x fd l by (simp add: os_opts_def put_tp_def)
    moreover obtain g1 where "SIterm (put_tp ?g a (t\<lparr>tp_flags := ?f\<rparr>)) (Some a) = Some g1" "si_inv g1 xs"
      "h_tp g1 = (h_tp ?g)(a \<mapsto> t\<lparr>tp_fd := -1, tp_flags := ?f OR TPF_DELETE\<rparr>)"
      using SIterm_put_inv [of ?g xs a t ?f] inv a by auto
    ultimately have "SIclose (Some g) fd = Some (SI_OK, Some g1)" "si_inv g1 xs" "\<not> tp_live g1 a"
      using r(1) Some a unfolding SIclose_def by (simp_all add: tp_live_def bit.conj_disj_distrib2)
    with a(1) show ?thesis by blast
  qed
qed

lemma shutdown_loop_inv:
  fixes g :: "'u ginfo_blk"
  assumes "si_inv g (ds @ xs)"
  shows "\<exists>g'. shutdown_loop fl g (first xs) = Some g' \<and> si_inv g' (ds @ xs) \<and> (\<forall>a\<in>set xs. \<exists>t. h_tp g' a = Some t \<and> tp_fd t = -1 \<and> \<not> tp_live g' a) \<and>
    (\<forall>a. a \<notin> set xs \<longrightarrow> h_tp g' a = h_tp g a)"
  using assms
proof (induction xs arbitrary: ds g)
  case Nil
  then show ?case by (simp add: shutdown_loop.simps)
next
  case (Cons a xs)
  obtain t where t: "h_tp g a = Some t" using si_inv_live [OF Cons.prems, of a] by auto
  have nx: "tp_next t = first xs" using si_inv_next [OF Cons.prems t] .
  let ?f = "tp_flags t OR (TPF_UNBIND OR fl)"
  obtain g1 where g1: "SIterm (put_tp g a (t\<lparr>tp_flags := ?f\<rparr>)) (Some a) = Some g1" "si_inv g1 ((ds @ [a]) @ xs)"
    "h_tp g1 = (h_tp g)(a \<mapsto> t\<lparr>tp_fd := -1, tp_flags := ?f OR TPF_DELETE\<rparr>)" using SIterm_put_inv [OF Cons.prems _ t, of ?f] by auto
  obtain g' where g': "shutdown_loop fl g1 (first xs) = Some g'" "si_inv g' ((ds @ [a]) @ xs)"
    "\<forall>a\<in>set xs. \<exists>t. h_tp g' a = Some t \<and> tp_fd t = -1 \<and> \<not> tp_live g' a" "\<forall>b. b \<notin> set xs \<longrightarrow> h_tp g' b = h_tp g1 b"
    using Cons.IH [OF g1(2)] by blast
  have "a \<notin> set xs" using si_invD(1) [OF Cons.prems] by (simp add: dll_def)
  then have "h_tp g' a = Some (t\<lparr>tp_fd := -1, tp_flags := ?f OR TPF_DELETE\<rparr>)" using g'(4) g1(3) by simp
  moreover have "shutdown_loop fl g (first (a # xs)) = Some g'" using t g1 g'(1) nx by (subst shutdown_loop.simps) simp
  ultimately show ?case using g' g1(3) \<open>a \<notin> set xs\<close> by (auto simp: tp_live_def bit.conj_disj_distrib2)
qed

lemma sishutdown_inv:
  fixes g :: "'u ginfo_blk"
  assumes inv: "si_inv g xs"
  shows "\<exists>g'. sishutdown (Some g) fl = Some (Some g') \<and> si_inv g' xs \<and> (\<forall>a\<in>set xs. \<exists>t. h_tp g' a = Some t \<and> tp_fd t = -1 \<and> \<not> tp_live g' a)"
  using shutdown_loop_inv [of "g\<lparr>gi_flags := gi_flags g OR GIF_SHUTDOWN\<rparr>" "[]" xs fl] inv si_inv_first [OF inv] si_invD(6) [OF inv]
  by (auto simp: sishutdown_def)

section \<open>New sessions and the wait loop\<close>

text \<open>\<^verbatim>\<open>accept\<close> and \<^verbatim>\<open>recvfrom\<close> fill a \<^verbatim>\<open>struct sockaddr\<close>, which has 14 bytes after the family.\<close>

definition accept_ok :: "si_env \<Rightarrow> bool" where
  "accept_ok env = (\<forall>n. length (sa_data (snd (o_accept env n))) = 14 \<and> length (sa_data (snd (snd (o_from env n)))) = 14)"

lemma SIaddress_todot_ok: "accept_ok env \<Longrightarrow> \<exists>s. SIaddress_todot (snd (o_accept env n)) = Some s"
  by (simp add: accept_ok_def SIaddress_todot_def)

text \<open>A block that the list has gained.\<close>

definition session_added :: "'u ginfo_blk \<Rightarrow> tpaddr list \<Rightarrow> int \<Rightarrow> bool" where
  "session_added g new fd = (\<exists>a t. new = [a] \<and> h_tp g a = Some t \<and> tp_fd t = fd \<and> tp_live g a \<and> (fd < MAX_FDS \<longrightarrow> tp_map g fd = Some a))"

lemma session_cbs_inv:
  fixes g :: "'u ginfo_blk"
  assumes inv: "si_inv g (a # xs)" and t: "h_tp g a = Some t" "tp_fd t = fd" "fd \<ge> 0"
  shows "\<exists>st g'. session_cbs g a fd buf = Some (st, g') \<and> si_inv g' (a # xs) \<and> (st = SI_OK \<longrightarrow> session_added g' [a] fd)"
proof -
  obtain s u where cs: "call_cb g SI_CB_SECURITY (CbSecurity buf) = Some (s, g\<lparr>si_user := u\<rparr>)"
    using call_cb_ok [OF inv, of SI_CB_SECURITY "CbSecurity buf"] by auto
  show ?thesis
  proof (cases "s = Some SI_RET_ERROR")
    case True
    then show ?thesis using cs SIterm_inv [of "g\<lparr>si_user := u\<rparr>" "a # xs" a t] inv t by (auto simp: session_cbs_def)
  next
    case False
    define g4 where "g4 = (case s of None \<Rightarrow> g\<lparr>si_user := u\<rparr> | Some st \<Rightarrow> SIcbstat (g\<lparr>si_user := u\<rparr>) st SI_CB_SECURITY)"
    have i4: "si_inv g4 (a # xs)" "h_tp g4 a = Some t" using inv t by (auto simp: g4_def split: option.split)
    have ok: "blk_ok t" using si_invD(4) [OF inv _ t(1)] by simp
    let ?t = "t\<lparr>tp_flags := tp_flags t OR TPF_SESSION\<rparr>"
    have fl: "tp_flags ?t AND TPF_DELETE = 0" using ok t by (auto simp: blk_ok_def bit.conj_disj_distrib2)
    have "si_inv (put_tp g4 a ?t) (a # xs)" by (rule si_inv_put [OF i4]) (use ok fl in \<open>auto simp: blk_ok_def\<close>)
    from drive_cb_ok [OF this, of SI_CB_CONN "CbConn fd buf"] obtain g5 where
      g5: "drive_cb (put_tp g4 a ?t) SI_CB_CONN (CbConn fd buf) = Some g5" "si_inv g5 (a # xs)" "h_tp g5 a = Some ?t" by auto
    have "si_inv (SImap_fd g5 fd (Some a)) (a # xs)" using g5(2,3) t unfolding SImap_fd_def si_inv_def dll_def map_ok_def by auto
    moreover have "session_cbs g a fd buf = Some (SI_OK, SImap_fd g5 fd (Some a))"
      using False cs i4(2) g5(1) by (cases s) (simp_all add: session_cbs_def g4_def)
    ultimately show ?thesis using g5(3) t fl by (auto simp: SImap_fd_def tp_live_def session_added_def)
  qed
qed

lemma SInewsession_inv:
  fixes g :: "'u ginfo_blk"
  assumes inv: "si_inv g xs" and l: "l \<in> set xs" and acc: "accept_ok env"
  shows "\<exists>st g' new. SInewsession env g l = Some (st, g') \<and> si_inv g' (new @ xs) \<and>
    (st = SI_OK \<longrightarrow> session_added g' new (fst (o_accept env (os_n g))))"
proof -
  obtain lt where lt: "h_tp g l = Some lt" using si_inv_live [OF inv l] by blast
  obtain fd addr where ac: "o_accept env (os_n g) = (fd, addr)" by (cases "o_accept env (os_n g)")
  obtain buf where buf: "SIaddress_todot addr = Some buf" using SIaddress_todot_ok [OF acc, of "os_n g"] ac by auto
  have inv1: "si_inv (tick g) xs" using inv by simp
  show ?thesis
  proof (cases "fd < 0")
    case True
    then show ?thesis using lt ac inv1 by (auto simp: SInewsession_def intro!: exI [of _ "[]"])
  next
    case fd: False
    from inv1 show ?thesis
    proof (cases rule: SInew_tp_cases [of "tick g" xs "si_ok env"])
      case none
      then show ?thesis using lt ac fd inv1 by (auto simp: SInewsession_def intro!: exI [of _ "[]"])
    next
      case (blk a g1 t)
      have "blk_ok t" using blk by (simp add: blk_ok_def)
      then obtain g2 where g2: "tp_link g1 a = Some g2" "si_inv g2 (a # xs)" "h_tp g2 a = Some (t\<lparr>tp_next := tplist g1\<rparr>)" "tp_map g2 = tp_map g1"
        using tp_link_inv [OF blk(3,4), of t] blk by auto
      let ?t = "t\<lparr>tp_next := tplist g1, tp_paddr := Some addr, tp_fd := fd\<rparr>"
      let ?g3 = "os_opts (put_tp g2 a ?t) (tp_fd lt) (tcp_opts (tcp_flags g2))"
      have unmapped: "tp_map g2 c \<noteq> Some a" for c using si_invD(2) [OF blk(3)] blk(4) g2(4) by (auto simp: map_ok_def)
      have "map_ok (put_tp g2 a ?t) (a # xs)" using si_invD(2) [OF g2(2)] unmapped unfolding map_ok_def by (auto simp: put_tp_def)
      moreover have "dll (put_tp g2 a ?t) (a # xs)" using si_invD(1) [OF g2(2)] dll_put [OF g2(3), of ?t "put_tp g2 a ?t" "a # xs"] by simp
      moreover have "blk_ok ?t" using blk by (simp add: blk_ok_def)
      ultimately have "si_inv (put_tp g2 a ?t) (a # xs)" using si_invD(3-6) [OF g2(2)] g2(3) unfolding si_inv_def by (auto simp: put_tp_def)
      then have "si_inv ?g3 (a # xs)" by simp
      moreover have "SInewsession env g l = session_cbs ?g3 a fd buf" using lt ac fd blk(1) g2(1,3) buf by (simp add: SInewsession_def Let_def)
      ultimately show ?thesis using session_cbs_inv [of ?g3 a xs ?t fd buf] fd ac by (auto intro!: exI [of _ "[a]"])
    qed
  qed
qed

lemma wait_block_inv:
  fixes g :: "'u ginfo_blk"
  assumes inv: "si_inv g xs" and a: "a \<in> set xs" and acc: "accept_ok env"
  shows "\<exists>st g' new. wait_block env g a status = Some (st, g') \<and> si_inv g' (new @ xs)"
proof -
  obtain t where t: "h_tp g a = Some t" using si_inv_live [OF inv a] by blast
  have ok: "blk_ok t" "tp_squeue t = []" using si_invD(4) [OF inv a t] by (auto simp: blk_ok_def)
  let ?t = "t\<lparr>tp_rcvd := tp_rcvd t + 1\<rparr>"
  let ?g = "put_tp g a ?t"
  have i2: "si_inv ?g xs" by (rule si_inv_put [OF inv t]) (use ok in \<open>auto simp: blk_ok_def\<close>)
  obtain n d where nd: "o_recv env (os_n ?g) = (n, d)" by (cases "o_recv env (os_n ?g)")
  have nil: "\<exists>new. si_inv h (new @ xs)" if "si_inv h xs" for h :: "'u ginfo_blk" using that by (auto intro: exI [of _ "[]"])
  consider (idle) "tp_fd t < 0 \<or> tp_fd t \<in> set (execpfds g) \<or> tp_fd t \<notin> set (readfds g)"
    | (lst) "tp_fd t \<ge> 0" "tp_fd t \<notin> set (execpfds g)" "tp_fd t \<in> set (readfds g)" "tp_flags t AND TPF_LISTENFD \<noteq> 0"
    | (rcv) "tp_fd t \<ge> 0" "tp_fd t \<notin> set (execpfds g)" "tp_fd t \<in> set (readfds g)" "tp_flags t AND TPF_LISTENFD = 0" by linarith
  then show ?thesis
  proof cases
    case idle
    then show ?thesis using t ok inv nil [OF inv] by (auto simp: wait_block_def)
  next
    case lst
    then have "wait_block env g a status = SInewsession env ?g a" using t ok by (simp add: wait_block_def)
    then show ?thesis using SInewsession_inv [OF i2 a acc] by auto
  next
    case rcv
    have i3: "si_inv (tick ?g) xs" using i2 by simp
    obtain s1 u1 where c1: "call_cb (tick ?g) SI_CB_CDATA (CbData (tp_fd t) (take (nat n) d)) = Some (s1, (tick ?g)\<lparr>si_user := u1\<rparr>)"
      using call_cb_ok [OF i3, of SI_CB_CDATA "CbData (tp_fd t) (take (nat n) d)"] by auto
    obtain s2 u2 where c2: "call_cb (tick ?g) SI_CB_DISC (CbDisc (tp_fd t)) = Some (s2, (tick ?g)\<lparr>si_user := u2\<rparr>)"
      using call_cb_ok [OF i3, of SI_CB_DISC "CbDisc (tp_fd t)"] by auto
    show ?thesis
    proof (cases "n > 0 \<and> tp_flags t AND TPF_DRAIN = 0")
      case True
      then have "wait_block env g a status = Some (case s1 of None \<Rightarrow> (n, (tick ?g)\<lparr>si_user := u1\<rparr>)
          | Some st \<Rightarrow> (st, SIcbstat ((tick ?g)\<lparr>si_user := u1\<rparr>) st SI_CB_CDATA))" using rcv t ok nd c1 by (cases s1) (simp_all add: wait_block_def)
      then show ?thesis using i3 nil by (cases s1) auto
    next
      case False
      define g4 where "g4 = (case s2 of None \<Rightarrow> (n, (tick ?g)\<lparr>si_user := u2\<rparr>)
          | Some st \<Rightarrow> (st, SIcbstat ((tick ?g)\<lparr>si_user := u2\<rparr>) st SI_CB_DISC))"
      have i4: "si_inv (snd g4) xs" "h_tp (snd g4) a = Some ?t" using i3 by (auto simp: g4_def split: option.split)
      obtain g5 where g5: "SIterm (snd g4) (Some a) = Some g5" "si_inv g5 xs" using SIterm_inv [OF i4(1) a i4(2)] by blast
      have "wait_block env g a status = Some (fst g4, g5)"
        using False rcv t ok nd c2 g5(1) by (cases s2) (auto simp: wait_block_def g4_def)
      then show ?thesis using g5(2) nil by auto
    qed
  qed
qed

lemma wait_blocks_inv:
  fixes g :: "'u ginfo_blk"
  assumes "si_inv g (ds @ rest)" and acc: "accept_ok env"
  shows "\<exists>st g' new. wait_blocks env g (first rest) status = Some (st, g') \<and> si_inv g' (new @ ds @ rest)"
  using assms(1)
proof (induction rest arbitrary: ds g status)
  case Nil
  then show ?case by (auto simp: wait_blocks.simps intro!: exI [of _ "[]"])
next
  case (Cons a rest)
  obtain t where t: "h_tp g a = Some t" using si_inv_live [OF Cons.prems, of a] by auto
  have nx: "tp_next t = first rest" using si_inv_next [OF Cons.prems t] .
  obtain st g1 new where g1: "wait_block env g a status = Some (st, g1)" "si_inv g1 (new @ ds @ a # rest)"
    using wait_block_inv [OF Cons.prems _ acc, of a status] by auto
  obtain st' g' new' where g': "wait_blocks env g1 (first rest) st = Some (st', g')" "si_inv g' (new' @ (new @ ds @ [a]) @ rest)"
    using Cons.IH [of g1 "new @ ds @ [a]" st] g1(2) by auto
  have "wait_blocks env g (first (a # rest)) status = Some (st', g')" using t nx g1(1) g'(1) by (subst wait_blocks.simps) simp
  with g'(2) show ?case by (auto intro!: exI [of _ "new' @ new"])
qed

lemma wait_pass_inv:
  fixes g :: "'u ginfo_blk"
  assumes inv: "si_inv g xs" and live: "\<exists>a\<in>set xs. tp_live g a" and fds: "\<forall>fd\<in>fds_of g (\<lambda>_. True) xs. fd < FD_SETSIZE" and acc: "accept_ok env"
  shows "\<exists>st g' new. wait_pass env g status = Some (st, g') \<and> si_inv g' (new @ filter (tp_live g) xs)"
proof -
  let ?xs = "filter (tp_live g) xs"
  obtain g1 where g1: "SIbldpoll g = Some g1" "si_inv g1 ?xs" using SIbldpoll_inv [OF inv live fds] by blast
  obtain rc e rd wr ex where sel: "o_select env (os_n g1) = ((rc, e), rd, wr, ex)" by (metis prod_cases5 surj_pair)
  let ?g2 = "tick (g1\<lparr>readfds := rd, writefds := wr, execpfds := ex\<rparr>)"
  let ?g3 = "if rc < 0 \<and> e \<noteq> EINTR then ?g2\<lparr>fdcount := 0, gi_flags := gi_flags ?g2 OR GIF_SHUTDOWN\<rparr> else ?g2"
  have i3: "si_inv ?g3 ([] @ ?xs)" using g1(2) by (simp add: si_inv_def dll_def map_ok_def tick_def)
  have "wait_pass env g status = (if rc > 0 \<and> gi_flags ?g3 AND GIF_SHUTDOWN = 0 then wait_blocks env ?g3 (tplist ?g3) status else Some (status, ?g3))"
    using g1(1) sel by (simp add: wait_pass_def Let_def)
  moreover have "tplist ?g3 = first ?xs" using si_inv_first [OF i3] by simp
  ultimately show ?thesis using wait_blocks_inv [OF i3 acc, of status] i3 by (cases "rc > 0 \<and> gi_flags ?g3 AND GIF_SHUTDOWN = 0") (auto intro!: exI [of _ "[]"])
qed

end
