(* ===== verification/Si95_Poll.thy ===== *)
theory Si95_Poll
  imports Si95_Inv
begin

text \<open>
  The polling interface of the transport library: \<^verbatim>\<open>SIpoll\<close>, \<^verbatim>\<open>SIrcv\<close>, \<^verbatim>\<open>SIgetaddr\<close> and \<^verbatim>\<open>SIgetname\<close> of
  \<^verbatim>\<open>src/src/rmr/si/src/si95\<close>, and that they keep the transport blocks consistent.

  The delays only change how long \<^verbatim>\<open>select\<close> waits and are not arguments here.  \<^verbatim>\<open>FD_ISSET\<close> on a descriptor
  outside of the set is a fault.
\<close>

section \<open>Polling\<close>

definition FD_ISSET :: "int \<Rightarrow> fd_set \<Rightarrow> bool option" where
  "FD_ISSET fd s = (if 0 \<le> fd \<and> fd < FD_SETSIZE then Some (fd \<in> set s) else None)"

text \<open>Data on a descriptor that is not a listener: a datagram goes to the raw callback with an
  address, data of a session to the session callback; a session without data has been closed.
  \<^verbatim>\<open>recvfrom\<close> is called with an address length of 0, so the address is that which the environment
  says is in the new buffer.\<close>

definition poll_recv :: "si_env \<Rightarrow> 'u ginfo_blk \<Rightarrow> tpaddr \<Rightarrow> tp_blk \<Rightarrow> 'u ginfo_blk option" where
  "poll_recv env g a t =
     (if tp_type t = SOCK_DGRAM
      then (let (n, d, sa) = o_from env (os_n g); g1 = tick g in
        if n \<ge> 0 \<and> tp_flags t AND TPF_DRAIN = 0
        then (if SI_CB_RDATA \<ge> length (cbtab g1) then None
              else if cbtab g1 ! SI_CB_RDATA = None then Some g1
              else do { buf \<leftarrow> SIaddress_todot sa; drive_cb g1 SI_CB_RDATA (CbRaw (take (nat n) d) buf) })
        else Some g1)
      else (let (n, d) = o_recv env (os_n g); g1 = tick g in
        if n > SI_OK \<and> tp_flags t AND TPF_DRAIN = 0
        then drive_cb g1 SI_CB_CDATA (CbData (tp_fd t) (take (nat n) d))
        else do { g2 \<leftarrow> drive_cb g1 SI_CB_DISC (CbDisc (tp_fd t)); SIterm g2 (Some a) }))"

definition poll_block :: "si_env \<Rightarrow> 'u ginfo_blk \<Rightarrow> tpaddr \<Rightarrow> 'u ginfo_blk option" where
  "poll_block env g a = do {
     t \<leftarrow> h_tp g a;
     w \<leftarrow> (if tp_squeue t \<noteq> [] then FD_ISSET (tp_fd t) (writefds g) else Some False);
     g1 \<leftarrow> (if w then SIsend env g a else Some g);
     t1 \<leftarrow> h_tp g1 a;
     x \<leftarrow> FD_ISSET (tp_fd t1) (execpfds g1);
     r \<leftarrow> FD_ISSET (tp_fd t1) (readfds g1);
     (if x \<or> \<not> r then Some g1
      else if tp_flags t1 AND TPF_LISTENFD \<noteq> 0 then map_option snd (SInewsession env g1 a)
      else poll_recv env g1 a t1) }"

partial_function (option) poll_blocks :: "si_env \<Rightarrow> 'u ginfo_blk \<Rightarrow> tpaddr option \<Rightarrow> 'u ginfo_blk option" where
  "poll_blocks env g tp =
     (case tp of None \<Rightarrow> Some g
      | Some a \<Rightarrow> do { t \<leftarrow> h_tp g a; g1 \<leftarrow> poll_block env g a; poll_blocks env g1 (tp_next t) })"

text \<open>Descriptor 0 is taken for the keyboard.\<close>

definition poll_kbd :: "si_env \<Rightarrow> 'u ginfo_blk \<Rightarrow> 'u ginfo_blk option" where
  "poll_kbd env g = (if 0 \<in> set (readfds g) then drive_cb (tick g) SI_CB_KDATA (CbKbd (o_kbd env (os_n g))) else Some g)"

definition poll_end :: "'u ginfo_blk \<Rightarrow> (int \<times> 'u ginfo_blk) option" where
  "poll_end g =
     (if gi_flags g AND GIF_SHUTDOWN \<noteq> 0 then do { r \<leftarrow> SIshutdown (Some g); g1 \<leftarrow> r; Some (SI_ERROR, g1) }
      else Some (SI_OK, g))"

definition SIpoll :: "si_env \<Rightarrow> 'u ginfo_blk \<Rightarrow> (int \<times> 'u ginfo_blk) option" where
  "SIpoll env g =
     (if gi_flags g AND GIF_SHUTDOWN \<noteq> 0 \<or> magicnum g \<noteq> MAGICNUM then Some (SI_ERROR, g)
      else do {
        g1 \<leftarrow> SIbldpoll g;
        (let (pstat, g2) =
               (if fdcount g1 > 0
                then (let (ps, rd, wr, ex) = o_select env (os_n g1)
                      in (ps, tick (g1\<lparr>readfds := rd, writefds := wr, execpfds := ex\<rparr>)))
                else ((0, E0), g1));
             g3 = (if fst pstat < 0 \<and> snd pstat \<noteq> EINTR
                   then g2\<lparr>fdcount := 0, gi_flags := gi_flags g2 OR GIF_SHUTDOWN\<rparr> else g2)
         in do {
           g4 \<leftarrow> (if fst pstat > 0 \<and> gi_flags g3 AND GIF_SHUTDOWN = 0
                  then do { k \<leftarrow> poll_kbd env g3; poll_blocks env k (tplist k) } else Some g3);
           poll_end g4 }) })"

section \<open>Receiving on one descriptor\<close>

text \<open>The result: the status, the bytes put into the buffer of the caller and the text of the
  address, when the caller wants it and the descriptor is that of a datagram socket.\<close>

definition rcv_data :: "si_env \<Rightarrow> 'u ginfo_blk \<Rightarrow> tpaddr \<Rightarrow> tp_blk \<Rightarrow> bool \<Rightarrow> ((int \<times> bytes \<times> string option) \<times> 'u ginfo_blk) option" where
  "rcv_data env g a t want_addr =
     (if tp_type t = SOCK_DGRAM
      then (let (n, d, sa) = o_from env (os_n g) in do {
        txt \<leftarrow> (if want_addr then do { s \<leftarrow> SIaddress_todot sa; Some (Some (take 64 s)) } else Some None);
        g1 \<leftarrow> (if n < 0 then SIterm (tick g) (Some a) else Some (tick g));
        Some ((n, take (nat n) d, txt), g1) })
      else (let (n, d) = o_recv env (os_n g) in do {
        g1 \<leftarrow> (if n < 0 then SIterm (tick g) (Some a) else Some (tick g));
        Some ((n, take (nat n) d, None), g1) }))"

definition rcv_select :: "si_env \<Rightarrow> 'u ginfo_blk \<Rightarrow> tpaddr \<Rightarrow> bool \<Rightarrow> ((int \<times> bytes \<times> string option) \<times> 'u ginfo_blk) option" where
  "rcv_select env g a want_addr = do {
     t \<leftarrow> h_tp g a;
     _ \<leftarrow> FD_SET (tp_fd t) [];
     (let ((rc, _), rd, _, ex) = o_select env (os_n g); g1 = tick g in
      if rc < 0 then Some ((SI_ERROR, [], None), g1\<lparr>gi_flags := gi_flags g1 OR GIF_SHUTDOWN\<rparr>)
      else if tp_fd t \<in> set ex then do { g2 \<leftarrow> SIterm g1 (Some a); Some ((SI_ERROR, [], None), g2) }
      else if tp_fd t \<in> set rd then rcv_data env g1 a t want_addr
      else Some ((0, [], None), g1)) }"

definition rcv_end :: "int \<times> bytes \<times> string option \<Rightarrow> 'u ginfo_blk \<Rightarrow> ((int \<times> bytes \<times> string option) \<times> 'u ginfo_blk) option" where
  "rcv_end r g =
     (if gi_flags g AND GIF_SHUTDOWN \<noteq> 0 \<and> tplist g \<noteq> None
      then do { s \<leftarrow> SIshutdown (Some g); g1 \<leftarrow> s; Some ((SI_ERROR, snd r), g1) }
      else Some (r, g))"

definition SIrcv :: "si_env \<Rightarrow> 'u ginfo_blk \<Rightarrow> int \<Rightarrow> bool \<Rightarrow> ((int \<times> bytes \<times> string option) \<times> 'u ginfo_blk) option" where
  "SIrcv env g sid want_addr =
     (if magicnum g \<noteq> MAGICNUM then Some ((SI_ERROR, [], None), g)
      else do {
        tp \<leftarrow> find_tp (\<lambda>t. tp_fd t = sid) g (tplist g);
        (case tp of None \<Rightarrow> Some ((SI_ERROR, [], None), g)
         | Some a \<Rightarrow> do {
             r \<leftarrow> (if gi_flags g AND GIF_SHUTDOWN = 0 then rcv_select env g a want_addr else Some ((SI_ERROR, [], None), g));
             rcv_end (fst r) (snd r) }) })"

section \<open>Addresses\<close>

definition SIgetaddr :: "'u ginfo_blk \<Rightarrow> (int \<times> string option) option" where
  "SIgetaddr g = do {
     tp \<leftarrow> find_tp (\<lambda>t. tp_flags t AND TPF_LISTENFD \<noteq> 0) g (tplist g);
     (case tp of None \<Rightarrow> Some (SI_ERROR, None)
      | Some a \<Rightarrow> do { t \<leftarrow> h_tp g a; sa \<leftarrow> tp_addr t; s \<leftarrow> SIaddress_todot sa; Some (SI_OK, Some (take 256 s)) }) }"

definition SIgetname :: "si_env \<Rightarrow> nat \<Rightarrow> int \<Rightarrow> string option option" where
  "SIgetname env n sid =
     (if sid < 0 then Some None
      else (let (rc, len, sa) = o_sockname env n
            in if rc < 0 \<or> len \<noteq> 16 then Some None
               else do { s \<leftarrow> SIaddress_todot sa; Some (if s = [] then None else Some s) }))"

section \<open>The descriptors of the other blocks\<close>

text \<open>What a handler does to its own block and to new ones leaves the descriptors of the others alone.\<close>

definition fd_of :: "'u ginfo_blk \<Rightarrow> tpaddr \<Rightarrow> int option" where
  "fd_of g b = map_option tp_fd (h_tp g b)"

lemma fd_of_simps [simp]:
  "fd_of (tick g) b = fd_of g b" "fd_of (os_do g e) b = fd_of g b" "fd_of (os_opts g fd l) b = fd_of g b"
  "fd_of (g\<lparr>si_user := u\<rparr>) b = fd_of g b" "fd_of (SIcbstat g st ty) b = fd_of g b" "fd_of (SImap_fd g fd tp) b = fd_of g b"
  "fd_of (g\<lparr>tplist := tl0\<rparr>) b = fd_of g b" "fd_of (put_tp g a t) b = (if b = a then Some (tp_fd t) else fd_of g b)"
  by (simp_all add: fd_of_def SImap_fd_def)

lemma SIterm_fd: "SIterm g (Some a) = Some g' \<Longrightarrow> b \<noteq> a \<Longrightarrow> fd_of g' b = fd_of g b"
  by (auto simp: SIterm_def option_bind_Some_iff Let_def fd_of_def put_tp_def siabort_conn_def os_do_def os_opts_def)

lemma call_cb_fd: "call_cb g ty x = Some (st, g') \<Longrightarrow> fd_of g' b = fd_of g b"
  by (auto simp: call_cb_def split: if_splits option.splits prod.splits)

lemma drive_cb_fd: "drive_cb g ty x = Some g' \<Longrightarrow> fd_of g' b = fd_of g b"
  by (auto simp: drive_cb_def option_bind_Some_iff dest!: call_cb_fd [of _ _ _ _ _ b] split: option.splits)

lemma tp_link_fd: "tp_link g a = Some g' \<Longrightarrow> b \<noteq> a \<Longrightarrow> fd_of g' b = fd_of g b"
  by (auto simp: tp_link_def set_prev_def option_bind_Some_iff fd_of_def put_tp_def split: option.splits if_splits)

lemma session_cbs_fd:
  assumes "session_cbs g a fd buf = Some (st, g')" and "b \<noteq> a"
  shows "fd_of g' b = fd_of g b"
  using assms by (auto simp: session_cbs_def option_bind_Some_iff Let_def split: if_splits option.splits
      dest!: call_cb_fd [of _ _ _ _ _ b] SIterm_fd [of _ _ _ b] drive_cb_fd [of _ _ _ _ b])

lemma SInew_tp_fd: "SInew_tp ok g = (r, g') \<Longrightarrow> b \<noteq> tp_fresh g \<Longrightarrow> fd_of g' b = fd_of g b \<and> r \<noteq> Some b"
  by (auto simp: SInew_tp_def fd_of_def put_tp_def split: if_splits)

lemma SInewsession_fd:
  assumes "SInewsession env g l = Some (st, g')" and b: "b \<noteq> tp_fresh g"
  shows "fd_of g' b = fd_of g b"
proof -
  obtain fd addr where ac: "o_accept env (os_n g) = (fd, addr)" by (cases "o_accept env (os_n g)")
  obtain r g1 where n: "SInew_tp (si_ok env) (tick g) = (r, g1)" by (cases "SInew_tp (si_ok env) (tick g)")
  have f: "fd_of g1 b = fd_of g b \<and> r \<noteq> Some b" using SInew_tp_fd [OF n, of b] b by simp
  show ?thesis using assms(1) ac n f
    by (cases r) (auto simp: SInewsession_def option_bind_Some_iff Let_def split: if_splits
        dest!: session_cbs_fd [of _ _ _ _ _ _ b] tp_link_fd [of _ _ _ b])
qed

lemma poll_recv_fd:
  assumes "poll_recv env g a t = Some g'" and "b \<noteq> a"
  shows "fd_of g' b = fd_of g b"
proof (cases "tp_type t = SOCK_DGRAM")
  case True
  obtain n d sa where "o_from env (os_n g) = (n, d, sa)" by (metis prod_cases3)
  then show ?thesis using assms(1) True
    by (auto simp: poll_recv_def Let_def option_bind_Some_iff split: if_splits dest!: drive_cb_fd [of _ _ _ _ b])
next
  case False
  obtain n d where "o_recv env (os_n g) = (n, d)" by (cases "o_recv env (os_n g)")
  then show ?thesis using assms False
    by (auto simp: poll_recv_def Let_def option_bind_Some_iff split: if_splits dest!: drive_cb_fd [of _ _ _ _ b] SIterm_fd [of _ _ _ b])
qed

lemma poll_block_fd:
  assumes p: "poll_block env g a = Some g'" and b: "b \<noteq> a" "b \<noteq> tp_fresh g" and q: "\<forall>t. h_tp g a = Some t \<longrightarrow> tp_squeue t = []"
  shows "fd_of g' b = fd_of g b"
proof -
  obtain t where t: "h_tp g a = Some t" "tp_squeue t = []" using p q by (cases "h_tp g a") (auto simp: poll_block_def)
  have o: "(if x \<or> \<not> r then Some g else if tp_flags t AND TPF_LISTENFD \<noteq> 0 then map_option snd (SInewsession env g a)
      else poll_recv env g a t) = Some g'" if "FD_ISSET (tp_fd t) (execpfds g) = Some x" "FD_ISSET (tp_fd t) (readfds g) = Some r" for x r
    using p t that by (simp add: poll_block_def)
  have "\<exists>x r. FD_ISSET (tp_fd t) (execpfds g) = Some x \<and> FD_ISSET (tp_fd t) (readfds g) = Some r"
    using p t by (cases "FD_ISSET (tp_fd t) (execpfds g)"; cases "FD_ISSET (tp_fd t) (readfds g)") (simp_all add: poll_block_def)
  then obtain x r where "FD_ISSET (tp_fd t) (execpfds g) = Some x" "FD_ISSET (tp_fd t) (readfds g) = Some r" by blast
  from o [OF this] consider "g' = g" | "map_option snd (SInewsession env g a) = Some g'" | "poll_recv env g a t = Some g'"
    by (cases "x \<or> \<not> r"; cases "tp_flags t AND TPF_LISTENFD \<noteq> 0") simp_all
  then show ?thesis using SInewsession_fd [of env g a _ g' b] poll_recv_fd [of env g a t g' b] b by cases (simp_all, force)
qed

section \<open>Consistency\<close>

lemma poll_recv_inv:
  fixes g :: "'u ginfo_blk"
  assumes inv: "si_inv g xs" and a: "a \<in> set xs" "h_tp g a = Some t" and acc: "accept_ok env"
  shows "\<exists>g'. poll_recv env g a t = Some g' \<and> si_inv g' xs"
proof (cases "tp_type t = SOCK_DGRAM")
  case True
  obtain n d sa where r: "o_from env (os_n g) = (n, d, sa)" by (metis prod_cases3)
  have "length (sa_data sa) = 14" using acc r unfolding accept_ok_def by (metis snd_conv)
  then have "\<exists>buf. SIaddress_todot sa = Some buf" by (simp add: SIaddress_todot_def)
  then obtain buf where "SIaddress_todot sa = Some buf" by blast
  moreover obtain g2 where "drive_cb (tick g) SI_CB_RDATA (CbRaw (take (nat n) d) buf) = Some g2" "si_inv g2 xs"
    using drive_cb_ok [of "tick g" xs SI_CB_RDATA "CbRaw (take (nat n) d) buf"] inv by auto
  ultimately show ?thesis using True r inv si_invD(5) [of "tick g" xs]
    by (cases "cbtab (tick g) ! SI_CB_RDATA = None") (auto simp: poll_recv_def Let_def)
next
  case False
  obtain n d where r: "o_recv env (os_n g) = (n, d)" by (cases "o_recv env (os_n g)")
  obtain g2 where g2: "drive_cb (tick g) SI_CB_CDATA (CbData (tp_fd t) (take (nat n) d)) = Some g2" "si_inv g2 xs"
    using drive_cb_ok [of "tick g" xs SI_CB_CDATA "CbData (tp_fd t) (take (nat n) d)"] inv by auto
  obtain g3 where g3: "drive_cb (tick g) SI_CB_DISC (CbDisc (tp_fd t)) = Some g3" "si_inv g3 xs" "h_tp g3 a = Some t"
    using drive_cb_ok [of "tick g" xs SI_CB_DISC "CbDisc (tp_fd t)"] inv a by auto
  obtain g4 where "SIterm g3 (Some a) = Some g4" "si_inv g4 xs" using SIterm_inv [OF g3(2) a(1) g3(3)] by blast
  then show ?thesis using False r g2 g3(1) by (cases "n > SI_OK \<and> tp_flags t AND TPF_DRAIN = 0") (auto simp: poll_recv_def)
qed

lemma poll_block_inv:
  fixes g :: "'u ginfo_blk"
  assumes inv: "si_inv g xs" and a: "a \<in> set xs" "h_tp g a = Some t" "0 \<le> tp_fd t" "tp_fd t < FD_SETSIZE" and acc: "accept_ok env"
  shows "\<exists>g' new. poll_block env g a = Some g' \<and> si_inv g' (new @ xs)"
proof -
  have q: "tp_squeue t = []" using si_invD(4) [OF inv a(1,2)] by (simp add: blk_ok_def)
  obtain g1 where g1: "poll_recv env g a t = Some g1" "si_inv g1 ([] @ xs)" using poll_recv_inv [OF inv a(1,2) acc] by auto
  obtain st g2 new where g2: "SInewsession env g a = Some (st, g2)" "si_inv g2 (new @ xs)" using SInewsession_inv [OF inv a(1) acc] by blast
  consider "tp_fd t \<in> set (execpfds g) \<or> tp_fd t \<notin> set (readfds g)" | "tp_flags t AND TPF_LISTENFD \<noteq> 0" "tp_fd t \<notin> set (execpfds g)" "tp_fd t \<in> set (readfds g)"
    | "tp_flags t AND TPF_LISTENFD = 0" "tp_fd t \<notin> set (execpfds g)" "tp_fd t \<in> set (readfds g)" by blast
  then show ?thesis
  proof cases
    case 1
    then show ?thesis using q a inv by (auto simp: poll_block_def FD_ISSET_def intro!: exI [of _ "[]"])
  next
    case 2
    then show ?thesis using q a g2 by (auto simp: poll_block_def FD_ISSET_def)
  next
    case 3
    then show ?thesis using q a g1 by (auto simp: poll_block_def FD_ISSET_def intro!: exI [of _ "[]"])
  qed
qed

lemma poll_blocks_inv:
  fixes g :: "'u ginfo_blk"
  assumes "si_inv g (ds @ rest)" and acc: "accept_ok env" and "\<forall>b\<in>set rest. \<exists>fd. fd_of g b = Some fd \<and> 0 \<le> fd \<and> fd < FD_SETSIZE"
  shows "\<exists>g' new. poll_blocks env g (first rest) = Some g' \<and> si_inv g' (new @ ds @ rest)"
  using assms(1,3)
proof (induction rest arbitrary: ds g)
  case Nil
  then show ?case by (auto simp: poll_blocks.simps intro!: exI [of _ "[]"])
next
  case (Cons a rest)
  obtain t where t: "h_tp g a = Some t" "0 \<le> tp_fd t" "tp_fd t < FD_SETSIZE" using Cons.prems(2) by (auto simp: fd_of_def)
  have nx: "tp_next t = first rest" using si_inv_next [OF Cons.prems(1) t(1)] .
  obtain g1 new where g1: "poll_block env g a = Some g1" "si_inv g1 (new @ ds @ a # rest)"
    using poll_block_inv [OF Cons.prems(1) _ t acc] by auto
  have q: "\<forall>t. h_tp g a = Some t \<longrightarrow> tp_squeue t = []" using si_invD(4) [OF Cons.prems(1), of a] by (auto simp: blk_ok_def)
  have "fd_of g1 b = fd_of g b" if "b \<in> set rest" for b
    using poll_block_fd [OF g1(1) _ _ q, of b] si_invD(1) [OF Cons.prems(1)] si_inv_bound [OF Cons.prems(1), of b] that by (auto simp: dll_def)
  then obtain g' new' where g': "poll_blocks env g1 (first rest) = Some g'" "si_inv g' (new' @ (new @ ds @ [a]) @ rest)"
    using Cons.IH [of g1 "new @ ds @ [a]"] g1(2) Cons.prems(2) by auto
  have "poll_blocks env g (first (a # rest)) = Some g'" using t(1) nx g1(1) g'(1) by (subst poll_blocks.simps) simp
  with g'(2) show ?case by (auto intro!: exI [of _ "new' @ new"])
qed

lemma poll_end_inv: "si_inv g xs \<Longrightarrow> \<exists>st g'. poll_end g = Some (st, g') \<and> si_inv g' xs"
  using sishutdown_inv [of g xs 0] by (auto simp: poll_end_def SIshutdown_def)

lemma poll_kbd_inv:
  fixes g :: "'u ginfo_blk"
  assumes "si_inv g xs"
  shows "\<exists>g'. poll_kbd env g = Some g' \<and> si_inv g' xs \<and> h_tp g' = h_tp g"
proof (cases "0 \<in> set (readfds g)")
  case True
  then show ?thesis using drive_cb_ok [of "tick g" xs SI_CB_KDATA "CbKbd (o_kbd env (os_n g))"] assms by (auto simp: poll_kbd_def)
next
  case False
  then show ?thesis using assms by (simp add: poll_kbd_def)
qed

lemma SIpoll_inv:
  fixes g :: "'u ginfo_blk"
  assumes inv: "si_inv g xs" and live: "\<exists>a\<in>set xs. tp_live g a" and acc: "accept_ok env"
    and fds: "\<forall>a\<in>set xs. tp_live g a \<longrightarrow> (\<exists>fd. fd_of g a = Some fd \<and> 0 \<le> fd \<and> fd < FD_SETSIZE)"
  shows "\<exists>st g' xs'. SIpoll env g = Some (st, g') \<and> si_inv g' xs'"
proof -
  let ?xs = "filter (tp_live g) xs"
  have "\<forall>fd\<in>fds_of g (\<lambda>_. True) xs. fd < FD_SETSIZE" using fds by (fastforce simp: fds_of_def fd_of_def tp_live_def)
  then obtain g1 where g1: "SIbldpoll g = Some g1" "si_inv g1 ?xs" "same_blks g g1 (set ?xs)" using SIbldpoll_inv [OF inv live] by blast
  have f1: "\<forall>b\<in>set ?xs. \<exists>fd. fd_of g1 b = Some fd \<and> 0 \<le> fd \<and> fd < FD_SETSIZE"
    using g1(3) fds unfolding same_blks_def fd_of_def by (fastforce simp del: fun_upd_apply)
  define p where "p = (if fdcount g1 > 0 then (let (ps, rd, wr, ex) = o_select env (os_n g1) in (ps, tick (g1\<lparr>readfds := rd, writefds := wr, execpfds := ex\<rparr>))) else ((0, E0), g1))"
  define g3 where "g3 = (if fst (fst p) < 0 \<and> snd (fst p) \<noteq> EINTR then (snd p)\<lparr>fdcount := 0, gi_flags := gi_flags (snd p) OR GIF_SHUTDOWN\<rparr> else snd p)"
  have p: "si_inv (snd p) ?xs" "h_tp (snd p) = h_tp g1" using g1(2) by (auto simp: p_def split: prod.splits)
  have i3: "si_inv g3 ?xs" "h_tp g3 = h_tp g1" using p by (simp_all add: g3_def si_inv_def dll_def map_ok_def)
  obtain k where k: "poll_kbd env g3 = Some k" "si_inv k ([] @ ?xs)" "h_tp k = h_tp g1" using poll_kbd_inv [OF i3(1), of env] i3(2) by auto
  obtain g4 new where g4: "poll_blocks env k (first ?xs) = Some g4" "si_inv g4 (new @ ?xs)"
    using poll_blocks_inv [OF k(2) acc] f1 k(3) by (auto simp: fd_of_def)
  have tk: "tplist k = first ?xs" using si_inv_first [OF k(2)] by simp
  obtain g5 xs5 where g5: "(if fst (fst p) > 0 \<and> gi_flags g3 AND GIF_SHUTDOWN = 0 then do { k \<leftarrow> poll_kbd env g3; poll_blocks env k (tplist k) } else Some g3) = Some g5"
    "si_inv g5 xs5" using k(1) g4 tk i3(1) by (cases "fst (fst p) > 0 \<and> gi_flags g3 AND GIF_SHUTDOWN = 0") auto
  obtain st g6 where g6: "poll_end g5 = Some (st, g6)" "si_inv g6 xs5" using poll_end_inv [OF g5(2)] by blast
  show ?thesis
  proof (cases "gi_flags g AND GIF_SHUTDOWN \<noteq> 0 \<or> magicnum g \<noteq> MAGICNUM")
    case True
    then show ?thesis using inv by (auto simp: SIpoll_def)
  next
    case False
    then have "SIpoll env g = poll_end g5" using g1(1) g5(1) unfolding SIpoll_def g3_def p_def by (simp add: Let_def case_prod_beta)
    then show ?thesis using g6 by auto
  qed
qed

lemma rcv_data_inv:
  fixes g :: "'u ginfo_blk"
  assumes inv: "si_inv g xs" and a: "a \<in> set xs" "h_tp g a = Some t" and acc: "accept_ok env"
  shows "\<exists>r g'. rcv_data env g a t w = Some (r, g') \<and> si_inv g' xs"
proof -
  obtain g1 where g1: "SIterm (tick g) (Some a) = Some g1" "si_inv g1 xs" using SIterm_inv [of "tick g" xs a t] inv a by auto
  obtain n d sa where f: "o_from env (os_n g) = (n, d, sa)" by (metis prod_cases3)
  obtain m e where r: "o_recv env (os_n g) = (m, e)" by (cases "o_recv env (os_n g)")
  have "length (sa_data sa) = 14" using acc f unfolding accept_ok_def by (metis snd_conv)
  then have "\<exists>buf. SIaddress_todot sa = Some buf" by (simp add: SIaddress_todot_def)
  then obtain buf where "SIaddress_todot sa = Some buf" by blast
  then show ?thesis using g1 f r inv by (cases w) (auto simp: rcv_data_def)
qed

lemma rcv_select_inv:
  fixes g :: "'u ginfo_blk"
  assumes inv: "si_inv g xs" and a: "a \<in> set xs" "h_tp g a = Some t" "0 \<le> tp_fd t" "tp_fd t < FD_SETSIZE" and acc: "accept_ok env"
  shows "\<exists>r g'. rcv_select env g a w = Some (r, g') \<and> si_inv g' xs"
proof -
  obtain rc e rd wr ex where sel: "o_select env (os_n g) = ((rc, e), rd, wr, ex)" by (metis prod_cases5 surj_pair)
  obtain g1 where g1: "SIterm (tick g) (Some a) = Some g1" "si_inv g1 xs" using SIterm_inv [of "tick g" xs a t] inv a by auto
  obtain r2 g2 where g2: "rcv_data env (tick g) a t w = Some (r2, g2)" "si_inv g2 xs" using rcv_data_inv [of "tick g" xs a t env w] inv a acc by auto
  have g3: "si_inv ((tick g)\<lparr>gi_flags := gi_flags (tick g) OR GIF_SHUTDOWN\<rparr>) xs" using inv by (simp add: si_inv_def dll_def map_ok_def tick_def)
  show ?thesis using sel a g1 g2 g3 inv
    by (cases r2; cases "rc < 0"; cases "tp_fd t \<in> set ex"; cases "tp_fd t \<in> set rd") (simp_all add: rcv_select_def FD_SET_def Let_def)
qed

lemma rcv_end_inv:
  fixes g :: "'u ginfo_blk"
  assumes "si_inv g xs"
  shows "\<exists>r' g'. rcv_end r g = Some (r', g') \<and> si_inv g' xs"
  using sishutdown_inv [OF assms, of 0] assms by (cases r) (auto simp: rcv_end_def SIshutdown_def)

text \<open>A block that is to be deleted has descriptor -1, so the caller must not ask for that one.\<close>

lemma SIrcv_inv:
  fixes g :: "'u ginfo_blk"
  assumes inv: "si_inv g xs" and sid: "0 \<le> sid" "sid < FD_SETSIZE" and acc: "accept_ok env"
  shows "\<exists>r g'. SIrcv env g sid w = Some (r, g') \<and> si_inv g' xs"
proof -
  have i: "si_inv g ([] @ xs)" using inv by simp
  from find_tp_list [OF i, of "\<lambda>t. tp_fd t = sid"] obtain tp where tp: "find_tp (\<lambda>t. tp_fd t = sid) g (tplist g) = Some tp"
    "\<forall>a. tp = Some a \<longrightarrow> a \<in> set xs \<and> (\<exists>t. h_tp g a = Some t \<and> tp_fd t = sid)" using si_inv_first [OF inv] by auto
  show ?thesis
  proof (cases tp)
    case None
    then show ?thesis using tp(1) inv by (simp add: SIrcv_def)
  next
    case (Some a)
    obtain t where t: "a \<in> set xs" "h_tp g a = Some t" "tp_fd t = sid" using tp(2) Some by blast
    obtain r g' where g': "rcv_select env g a w = Some (r, g')" "si_inv g' xs" using rcv_select_inv [OF inv t(1,2) _ _ acc, of w] sid t(3) by auto
    show ?thesis using rcv_end_inv [OF g'(2), of r] rcv_end_inv [OF inv, of "(SI_ERROR, [], None)"] g'(1) tp(1) Some inv
      by (cases "gi_flags g AND GIF_SHUTDOWN = 0") (simp_all add: SIrcv_def)
  qed
qed

end
