(* ===== verification/Si95_Api.thy ===== *)
theory Si95_Api
  imports Si95_Poll
begin

text \<open>
  The properties of the transport library: sequences of calls keep the list of transport blocks
  and the descriptor map consistent and never use a freed block, a pass of the wait loop takes
  the closed blocks out of the list, a message is written as a whole or its failure is
  reported; and the cases in which the library does not do what it means to.
\<close>

section \<open>Sequences of calls\<close>

datatype si_op = OpListen string | OpConnect string | OpSend int bytes | OpClose int | OpWait | OpPoll | OpRcv int bool | OpShutdown | OpAbort

fun si_call :: "si_env \<Rightarrow> 'u ginfo_blk \<Rightarrow> si_op \<Rightarrow> 'u ginfo_blk option" where
  "si_call env g (OpListen a) = map_option snd (SIlistener env g TCP_DEVICE a)"
| "si_call env g (OpConnect a) = map_option snd (SIconnect env g a)"
| "si_call env g (OpSend fd b) = map_option snd (SIsendt env g fd b (int (length b)))"
| "si_call env g (OpClose fd) = do { r \<leftarrow> SIclose (Some g) fd; snd r }"
| "si_call env g OpWait = map_option snd (wait_pass env g SI_OK)"
| "si_call env g OpPoll = map_option snd (SIpoll env g)"
| "si_call env g (OpRcv fd w) = map_option snd (SIrcv env g fd w)"
| "si_call env g OpShutdown = do { r \<leftarrow> SIshutdown (Some g); r }"
| "si_call env g OpAbort = do { r \<leftarrow> SIabort (Some g); r }"

text \<open>A pass of the wait loop needs a block that stays in the list, and descriptors that fit an
  \<^verbatim>\<open>fd_set\<close>; so does a poll, which in addition needs a descriptor in every block that stays;
  a receive is for a descriptor that fits the set; a message is not empty.\<close>

fun op_ok :: "'u ginfo_blk \<Rightarrow> si_op \<Rightarrow> bool" where
  "op_ok g OpWait = (find_tp (\<lambda>t. tp_flags t AND TPF_DELETE = 0) g (tplist g) \<noteq> Some None \<and>
     find_tp (\<lambda>t. tp_flags t AND TPF_DELETE = 0 \<and> tp_fd t \<ge> FD_SETSIZE) g (tplist g) = Some None)"
| "op_ok g OpPoll = (find_tp (\<lambda>t. tp_flags t AND TPF_DELETE = 0) g (tplist g) \<noteq> Some None \<and>
     find_tp (\<lambda>t. tp_flags t AND TPF_DELETE = 0 \<and> (tp_fd t < 0 \<or> tp_fd t \<ge> FD_SETSIZE)) g (tplist g) = Some None)"
| "op_ok g (OpRcv fd w) = (0 \<le> fd \<and> fd < FD_SETSIZE)"
| "op_ok g (OpSend fd b) = (b \<noteq> [])"
| "op_ok g _ = True"

lemma op_ok_wait:
  assumes inv: "si_inv g xs" and "op_ok g OpWait"
  shows "\<exists>a\<in>set xs. tp_live g a" "\<forall>fd\<in>fds_of g (\<lambda>_. True) xs. fd < FD_SETSIZE"
proof -
  have i: "si_inv g ([] @ xs)" using inv by simp
  show "\<exists>a\<in>set xs. tp_live g a"
    using find_tp_list [OF i, of "\<lambda>t. tp_flags t AND TPF_DELETE = 0"] assms(2) si_inv_first [OF inv] by (force simp: tp_live_def)
  show "\<forall>fd\<in>fds_of g (\<lambda>_. True) xs. fd < FD_SETSIZE"
    using find_tp_list [OF i, of "\<lambda>t. tp_flags t AND TPF_DELETE = 0 \<and> tp_fd t \<ge> FD_SETSIZE"] assms(2) si_inv_first [OF inv]
    by (fastforce simp: fds_of_def)
qed

lemma op_ok_poll:
  assumes inv: "si_inv g xs" and "op_ok g OpPoll"
  shows "\<exists>a\<in>set xs. tp_live g a" "\<forall>a\<in>set xs. tp_live g a \<longrightarrow> (\<exists>fd. fd_of g a = Some fd \<and> 0 \<le> fd \<and> fd < FD_SETSIZE)"
proof -
  have i: "si_inv g ([] @ xs)" using inv by simp
  show "\<exists>a\<in>set xs. tp_live g a"
    using find_tp_list [OF i, of "\<lambda>t. tp_flags t AND TPF_DELETE = 0"] assms(2) si_inv_first [OF inv] by (force simp: tp_live_def)
  have o: "\<forall>a\<in>set xs. \<forall>t. h_tp g a = Some t \<longrightarrow> \<not> (tp_flags t AND TPF_DELETE = 0 \<and> (tp_fd t < 0 \<or> tp_fd t \<ge> FD_SETSIZE))"
    using find_tp_list [OF i, of "\<lambda>t. tp_flags t AND TPF_DELETE = 0 \<and> (tp_fd t < 0 \<or> tp_fd t \<ge> FD_SETSIZE)"] assms(2) si_inv_first [OF inv] by auto
  show "\<forall>a\<in>set xs. tp_live g a \<longrightarrow> (\<exists>fd. fd_of g a = Some fd \<and> 0 \<le> fd \<and> fd < FD_SETSIZE)"
  proof (intro ballI impI)
    fix a
    assume a: "a \<in> set xs" "tp_live g a"
    then obtain t where "h_tp g a = Some t" "tp_flags t AND TPF_DELETE = 0" by (auto simp: tp_live_def split: option.splits)
    with o a(1) have "fd_of g a = Some (tp_fd t)" "0 \<le> tp_fd t" "tp_fd t < FD_SETSIZE" by (auto simp: fd_of_def)
    then show "\<exists>fd. fd_of g a = Some fd \<and> 0 \<le> fd \<and> fd < FD_SETSIZE" by simp
  qed
qed

lemma si_call_inv:
  fixes g :: "'u ginfo_blk"
  assumes inv: "si_inv g xs" and ok: "op_ok g x" and env: "send_progress env" "accept_ok env"
  shows "\<exists>g' xs'. si_call env g x = Some g' \<and> si_inv g' xs'"
proof (cases x)
  case (OpListen a)
  then show ?thesis using SIlistener_inv [OF inv, of env TCP_DEVICE a] by (auto split: if_splits)
next
  case (OpConnect a)
  then show ?thesis using SIconnect_inv [OF inv, of env a] by auto
next
  case (OpSend fd b)
  then show ?thesis using SIsendt_inv [OF inv env(1), of "int (length b)" b fd] ok by auto
next
  case (OpClose fd)
  then show ?thesis using SIclose_inv [OF inv, of fd] by auto
next
  case OpWait
  with ok have "op_ok g OpWait" by simp
  from wait_pass_inv [OF inv op_ok_wait [OF inv this] env(2), of SI_OK] OpWait show ?thesis by auto
next
  case OpPoll
  with ok have "op_ok g OpPoll" by simp
  from SIpoll_inv [OF inv op_ok_poll(1) [OF inv this] env(2) op_ok_poll(2) [OF inv this]] OpPoll show ?thesis by auto
next
  case (OpRcv fd w)
  then show ?thesis using SIrcv_inv [OF inv _ _ env(2), of fd w] ok by auto
next
  case OpShutdown
  then show ?thesis using sishutdown_inv [OF inv, of 0] by (auto simp: SIshutdown_def)
next
  case OpAbort
  then show ?thesis using sishutdown_inv [OF inv, of TPF_ABORT] by (auto simp: SIabort_def)
qed

interpretation so: safe_ops "si_call env" op_ok "\<lambda>g :: 'u ginfo_blk. (\<exists>xs. si_inv g xs) \<and> send_progress env \<and> accept_ok env" for env
  by unfold_locales (use si_call_inv in blast)

lemma demo_gi_inv: "si_inv demo_gi []"
  by (simp add: demo_gi_def si_inv_def dll_def map_ok_def)

lemma demo_si_ok: "send_progress demo_si" "accept_ok demo_si"
  by (simp_all add: demo_si_def send_progress_def accept_ok_def)

text \<open>
  C5. Consistency of the transport blocks.  From a consistent state, a sequence of listen,
  connect, send, close, poll, receive, shutdown and abort calls and of passes of the wait loop, each
  made when its condition \<open>op_ok\<close> holds, ends without a use of a freed block, and at the end the list is
  doubly linked, the map from descriptors leads only to blocks of the list that have that descriptor, and
  blocks marked for deletion are closed.  The condition of a send is that its buffer is not empty;
  that of a poll or a pass of the wait loop is that the list has a block that is not marked for deletion (when all are
  marked the code does use a freed block, see \<open>last_block_dangles\<close>) and that the descriptors of such blocks are
  less than FD_SETSIZE (and, for a poll, not negative); that of a receive is a descriptor from 0 to FD_SETSIZE - 1; the other
  calls have no condition.
\<close>

theorem si_calls_keep_inv:
  assumes "si_inv g xs" and "ops_guarded (si_call env) op_ok g ops" and "send_progress env" and "accept_ok env"
  shows "\<exists>g' xs'. run_ops (si_call env) g ops = Some g' \<and> si_inv g' xs'"
  using so.run_safe [of g env ops] assms by auto

theorem si_calls_keep_inv_witness:
  "\<exists>g' xs'. run_ops (si_call demo_si) demo_gi [OpListen '':1'', OpSend 3 [1]] = Some g' \<and> si_inv g' xs'"
proof -
  have "ops_guarded (si_call demo_si) op_ok demo_gi [OpListen '':1'', OpSend 3 [1]]" by (auto split: option.splits)
  from si_calls_keep_inv [OF demo_gi_inv this demo_si_ok] show ?thesis .
qed

text \<open>
  C27. The pass over the list before a wait, when at least one block is not marked for deletion and the
  open descriptors are less than FD_SETSIZE (otherwise see \<open>last_block_dangles\<close>).  The blocks marked for deletion, and only they, leave
  the list and are freed; of the others all open descriptors are watched for exceptions, and those
  that do not drain for input; the count given to \<^verbatim>\<open>select\<close> is above every watched descriptor.
\<close>

theorem bldpoll_collects:
  fixes g :: "'u ginfo_blk"
  assumes "si_inv g xs" and "\<exists>a\<in>set xs. tp_live g a" and "\<forall>fd\<in>fds_of g (\<lambda>_. True) xs. fd < FD_SETSIZE"
  shows "\<exists>g'. SIbldpoll g = Some g' \<and> si_inv g' (filter (tp_live g) xs) \<and>
    (\<forall>a\<in>set xs. if tp_live g a then h_tp g' a \<noteq> None else h_tp g' a = None) \<and>
    set (readfds g') = fds_of g (\<lambda>t. tp_flags t AND TPF_DRAIN = 0) xs \<and> set (execpfds g') = fds_of g (\<lambda>_. True) xs \<and>
    writefds g' = [] \<and> (\<forall>fd\<in>set (readfds g') \<union> set (execpfds g'). fd < fdcount g')"
proof -
  obtain g' where g': "SIbldpoll g = Some g'" "si_inv g' (filter (tp_live g) xs)" "\<forall>a\<in>set xs. \<not> tp_live g a \<longrightarrow> h_tp g' a = None"
    "same_blks g g' (set (filter (tp_live g) xs))" "set (readfds g') = fds_of g reading xs" "set (execpfds g') = fds_of g (\<lambda>_. True) xs"
    "writefds g' = []" "\<forall>fd\<in>set (execpfds g'). fd < fdcount g'" using SIbldpoll_inv [OF assms] by blast
  have "fds_of g reading xs \<subseteq> fds_of g (\<lambda>_. True) xs" by (auto simp: fds_of_def)
  moreover have "h_tp g' a \<noteq> None" if "a \<in> set xs" "tp_live g a" for a using g'(4) that unfolding same_blks_def by fastforce
  ultimately show ?thesis using g' by (intro exI [of _ g']) auto
qed

text \<open>Two blocks: a session with descriptor 5 and one that is to be deleted.\<close>

definition demo_blk :: "int \<Rightarrow> u32 \<Rightarrow> tpaddr option \<Rightarrow> tpaddr option \<Rightarrow> tp_blk" where
  "demo_blk fd fl n p = \<lparr>tp_next = n, tp_prev = p, tp_fd = fd, tp_flags = fl, tp_type = 1, tp_family = 2, tp_addr = None, tp_paddr = None,
     tp_palen = 0, tp_squeue = [], tp_sent = 0, tp_rcvd = 0\<rparr>"

definition demo_two :: "unit ginfo_blk" where
  "demo_two = demo_gi\<lparr>tplist := Some 0, tp_fresh := 2, tp_map := (\<lambda>_. None)(5 \<mapsto> 0),
     h_tp := (\<lambda>_. None)(0 \<mapsto> demo_blk 5 2 (Some 1) None, 1 \<mapsto> demo_blk (-1) 18 None (Some 0))\<rparr>"

lemma demo_two_inv: "si_inv demo_two [0, 1]"
  by (simp add: demo_two_def demo_gi_def demo_blk_def si_inv_def dll_def map_ok_def blk_ok_def)

theorem bldpoll_collects_witness:
  "\<exists>g'. SIbldpoll demo_two = Some g' \<and> h_tp g' 1 = None \<and> h_tp g' 0 \<noteq> None"
proof -
  have l: "tp_live demo_two 0" "\<not> tp_live demo_two 1" by (simp_all add: demo_two_def demo_blk_def tp_live_def)
  have "\<forall>fd\<in>fds_of demo_two (\<lambda>_. True) [0, 1]. fd < FD_SETSIZE" by (auto simp: fds_of_def demo_two_def demo_blk_def)
  from bldpoll_collects [OF demo_two_inv _ this] l show ?thesis by auto
qed

text \<open>
  C26. Sending on a connection.  For a message of at least one byte \<^verbatim>\<open>SIsendt\<close> returns, given that
  \<^verbatim>\<open>send\<close> makes progress or fails.  The status is \<^verbatim>\<open>SI_OK\<close> when the whole message has been written,
  \<^verbatim>\<open>SI_ERR_BLOCKED\<close> when nothing has, and \<^verbatim>\<open>SI_ERROR\<close> when a proper prefix has been written, which
  may be empty.  The list of transport blocks stays consistent.
\<close>

theorem sendt_whole_or_fails:
  fixes g :: "'u ginfo_blk"
  assumes "si_inv g xs" and "send_progress env" and "0 < ulen" and "nat ulen \<le> length ubuf"
  shows "\<exists>st e g' log. SIsendt env g fd ubuf ulen = Some ((st, e), g') \<and> si_inv g' xs \<and> os_log g' = os_log g @ log \<and>
    (st = SI_OK \<and> sent_on fd log = take (nat ulen) ubuf \<or>
     st = SI_ERR_BLOCKED \<and> log = [] \<or>
     st = SI_ERROR \<and> (\<exists>m. m < nat ulen \<and> sent_on fd log = take m ubuf))"
proof -
  obtain st e g' log where "SIsendt env g fd ubuf ulen = Some ((st, e), g')" "si_inv g' xs" "os_log g' = os_log g @ log"
    "st = SI_ERR_BLOCKED \<and> e = EBUSY \<and> log = [] \<or> whole_or_prefix fd (take (nat ulen) ubuf) st log" using SIsendt_inv [OF assms] by blast
  moreover have "whole_or_prefix fd (take (nat ulen) ubuf) st log \<Longrightarrow> st = SI_OK \<and> sent_on fd log = take (nat ulen) ubuf \<or>
      st = SI_ERROR \<and> (\<exists>m. m < nat ulen \<and> sent_on fd log = take m ubuf)"
    unfolding whole_or_prefix_def using assms(4) by (fastforce simp: min_absorb1 min_absorb2 less_imp_le)
  ultimately show ?thesis by blast
qed

theorem sendt_whole_or_fails_witness:
  "\<exists>st e g' log. SIsendt demo_si demo_two 5 [1, 2, 3, 4] 4 = Some ((st, e), g') \<and> os_log g' = log \<and> (st = SI_OK \<longrightarrow> sent_on 5 log = [1, 2, 3, 4])"
  using sendt_whole_or_fails [OF demo_two_inv demo_si_ok(1), of 4 "[1, 2, 3, 4]" 5] by (auto simp: demo_two_def demo_gi_def)

text \<open>
  A write that is cut short.  When a part of a message has been written and the next call of
  \<^verbatim>\<open>send\<close> fails, \<^verbatim>\<open>SIsendt\<close> gives up even for \<^verbatim>\<open>EINTR\<close> and \<^verbatim>\<open>EAGAIN\<close>, and leaves the connection open
  and mapped: what is sent on it next follows a truncated message in the byte stream.
\<close>

theorem sendt_cut_short:
  fixes g :: "'u ginfo_blk"
  assumes "si_inv g xs" and "tp_map g fd = Some a" and "fd < FD_SETSIZE" and "o_select env (os_n g) = ((1, E0), rd, wr, [])"
    and "o_send env (Suc (os_n g)) = (n, E0)" and "0 < n" and "n < ulen" and "nat ulen \<le> length ubuf"
    and "o_send env (Suc (Suc (os_n g))) = (-1, e)"
  shows "\<exists>g'. SIsendt env g fd ubuf ulen = Some ((SI_ERROR, e), g') \<and> sent_on fd (os_log g') = sent_on fd (os_log g) @ take (nat n) ubuf \<and>
    tp_map g' fd = Some a \<and> si_inv g' xs"
proof -
  obtain t where t: "a \<in> set xs" "0 \<le> fd" "h_tp g a = Some t" "tp_fd t = fd" using si_invD(2) [OF assms(1)] assms(2) by (auto simp: map_ok_def)
  let ?g = "tick (put_tp g a (t\<lparr>tp_sent := tp_sent t + 1\<rparr>))"
  let ?g1 = "os_do (tick ?g) (OsSend fd (take (nat n) ubuf))"
  have lp: "sendt_loop env ?g fd ubuf 0 ulen SI_ERROR E0 = sendt_loop env ?g1 fd ubuf (nat n) (ulen - n) SI_OK E0"
    using assms(5-8) by (subst sendt_loop.simps) (simp add: mem_rd_def min_def)
  have "mem_rd ubuf (nat n) (nat (ulen - n)) \<noteq> None" using assms(6-8) by (simp add: mem_rd_def)
  then have "sendt_loop env ?g1 fd ubuf (nat n) (ulen - n) SI_OK E0 = Some ((SI_ERROR, e), tick ?g1)"
    using assms(7,9) by (subst sendt_loop.simps) auto
  moreover have "SIsendt env g fd ubuf ulen = sendt_loop env ?g fd ubuf 0 ulen SI_ERROR E0"
    using assms(2-4) t by (simp add: SIsendt_def tp_of_fd_def)
  moreover have "si_inv ?g xs" using si_inv_put [OF assms(1) t(3)] si_invD(4) [OF assms(1) t(1,3)] by (simp add: blk_ok_def)
  ultimately show ?thesis using lp assms(2) by (intro exI [of _ "tick ?g1"]) (simp, simp add: tick_def os_do_def put_tp_def)
qed

theorem sendt_cut_short_witness:
  "\<exists>g'. SIsendt (demo_si\<lparr>o_send := (\<lambda>n. if n = 1 then (2, E0) else (-1, EAGAIN))\<rparr>) demo_two 5 [1, 2, 3] 3 = Some ((SI_ERROR, EAGAIN), g') \<and>
     sent_on 5 (os_log g') = [1, 2] \<and> tp_map g' 5 = Some 0"
  using sendt_cut_short [OF demo_two_inv, of 5 0 "demo_si\<lparr>o_send := (\<lambda>n. if n = 1 then (2, E0) else (-1, EAGAIN))\<rparr>" "[]" "[]" 2 3 "[1, 2, 3]" EAGAIN]
  by (auto simp: demo_two_def demo_gi_def demo_si_def sent_on_def)

text \<open>
  The last block.  When the list consists of one block and that block is marked for deletion,
  the pass over the list frees it but leaves the head of the list pointing at it, so that the
  next use of the list is a use of a freed block.
\<close>

theorem last_block_dangles:
  fixes g :: "'u ginfo_blk"
  assumes "si_inv g [a]" and "\<not> tp_live g a"
  shows "\<exists>g'. SIbldpoll g = Some g' \<and> h_tp g' a = None \<and> tplist g' = Some a \<and> SIbldpoll g' = None"
proof -
  obtain t where t: "h_tp g a = Some t" using si_inv_live [OF assms(1), of a] by auto
  have ln: "tp_next t = None" "tp_prev t = None" "tplist g = Some a" using si_invD(1) [OF assms(1)] t by (auto simp: dll_def)
  have fl: "tp_flags t AND TPF_DELETE \<noteq> 0" "tp_fd t < 0" using assms(2) t si_invD(4) [OF assms(1) _ t] by (auto simp: tp_live_def blk_ok_def)
  let ?g0 = "g\<lparr>fdcount := -1, readfds := [], writefds := [], execpfds := []\<rparr>"
  have "SIbldpoll g = Some (free_tp ?g0 a)" using t ln fl
    by (simp add: SIbldpoll_def bldpoll_loop.simps bldpoll_blk_def SIrm_tpb_def)
  moreover have "SIbldpoll (free_tp ?g0 a) = None" using ln by (simp add: SIbldpoll_def bldpoll_loop.simps free_tp_def)
  ultimately show ?thesis using ln by (intro exI [of _ "free_tp ?g0 a"]) (simp add: free_tp_def)
qed

theorem last_block_dangles_witness:
  "\<exists>g'. SIbldpoll (demo_gi\<lparr>tplist := Some 0, tp_fresh := 1, h_tp := (\<lambda>_. None)(0 \<mapsto> demo_blk (-1) 18 None None)\<rparr>) = Some g' \<and> SIbldpoll g' = None"
proof -
  let ?g = "demo_gi\<lparr>tplist := Some 0, tp_fresh := 1, h_tp := (\<lambda>_. None)(0 \<mapsto> demo_blk (-1) 18 None None)\<rparr>"
  have "si_inv ?g [0]" by (simp add: demo_gi_def demo_blk_def si_inv_def dll_def map_ok_def blk_ok_def)
  moreover have "\<not> tp_live ?g 0" by (simp add: demo_blk_def tp_live_def)
  ultimately show ?thesis using last_block_dangles [of ?g 0] by blast
qed

text \<open>
  Targets of connections.  \<^verbatim>\<open>SIgenaddr\<close> splits a name or IPv4 address with a port, an IPv6
  address in brackets with a port, and a port alone, which is the form for listening, into the
  host and the port it was made of.
\<close>

theorem target_roundtrip:
  assumes "host \<noteq> []" and "\<not> isspace (hd host)" and "hd host \<noteq> CHR ''[''" and "CHR '':'' \<notin> set host" and "CHR '']'' \<notin> set v6"
  shows "split_target (host @ '':'' @ port) = Some (host, Some port, False) \<and>
    split_target (''['' @ v6 @ '']:'' @ port) = Some (v6, Some port, False) \<and>
    split_target ('':'' @ port) = Some ([], Some port, True) \<and> split_target host = Some (host, None, False)"
proof -
  obtain c cs where h: "host = c # cs" using assms(1) by (cases host) auto
  have sp: "\<not> isspace (CHR '':'')" "\<not> isspace (CHR ''['')" by (simp_all add: isspace_def)
  have tw: "takeWhile (\<lambda>x. x \<noteq> y) (s @ y # p) = s" "dropWhile (\<lambda>x. x \<noteq> y) (s @ y # p) = y # p"
    if "y \<notin> set s" for y :: char and s p using that by (auto simp: takeWhile_append dropWhile_append)
  have al: "takeWhile (\<lambda>x. x \<noteq> CHR '':'') cs = cs" "dropWhile (\<lambda>x. x \<noteq> CHR '':'') cs = []"
    using assms(4) h by (auto simp: takeWhile_eq_all_conv dropWhile_eq_Nil_conv)
  have 1: "split_target (host @ '':'' @ port) = Some (host, Some port, False)"
    using assms(2-4) tw [of "CHR '':''" cs port] by (auto simp: split_target_def h Let_def)
  have 2: "split_target (''['' @ v6 @ '']:'' @ port) = Some (v6, Some port, False)"
    using sp assms(5) tw [of "CHR '']''" v6 "CHR '':'' # port"] by (simp add: split_target_def)
  have "split_target ('':'' @ port) = Some ([], Some port, True)" "split_target host = Some (host, None, False)"
    using sp assms(2-4) by (simp_all add: split_target_def h Let_def al) auto
  with 1 2 show ?thesis by blast
qed

theorem target_roundtrip_witness: "split_target ''h:4560'' = Some (''h'', Some ''4560'', False)"
  using target_roundtrip [of "''h''" "''::1''" "''4560''"] by (simp add: isspace_def)

end
