(* ===== verification/Send.thy ===== *)
theory Send
  imports RtParse_Inv Si95_Api
begin

text \<open>
  The send side: \<^verbatim>\<open>send_msg\<close>, \<^verbatim>\<open>mtosend_msg\<close> and \<^verbatim>\<open>send2ep\<close> of
  \<^verbatim>\<open>src/src/rmr/si/src/sr_si_static.c\<close> and the send functions of \<^verbatim>\<open>rmr_si.c\<close>.

  Messages are passed by value.  A returned message that is NULL in the code is \<open>None\<close>; with it
  the functions return the value of \<^verbatim>\<open>errno\<close>.  The transport is the context of \<open>Si95\<close>; its
  callbacks are not used by the functions here.  A null dereference, an access outside of a
  buffer and \<^verbatim>\<open>abort\<close> are faults (\<open>None\<close>).
\<close>

section \<open>State\<close>

record wh_mgt =
  wh_nalloc :: int
  wh_eps :: "addr option list option"

record snd_ctx = rtc_ctx +
  send_retries :: int
  wormholes :: "wh_mgt option"

record snd_env =
  s_rt :: rt_env
  s_junk :: "nat \<Rightarrow> byte"
  s_lock :: bool

abbreviation (input) CFL_MTC_ENABLED :: u32 where "CFL_MTC_ENABLED \<equiv> 1"

type_synonym 'a sent = "((mbuf option \<times> errno) \<times> 'a snd_ctx_scheme) option"

section \<open>Sending on a descriptor\<close>

text \<open>The states that are not \<^verbatim>\<open>SI_ERR_NONE\<close> differ in the error number: 1 to 17 are those of
  the list in the code.\<close>

definition xlate_si_state :: "int \<Rightarrow> int \<Rightarrow> int \<times> errno" where
  "xlate_si_state state def_state =
     (if state = 0 then (RMR_OK, E0)
      else if 1 \<le> state \<and> state \<le> 17 then (def_state, ENOTSUP)
      else (def_state, EAGAIN))"

text \<open>The retry loop of \<^verbatim>\<open>send_msg\<close> over a transport \<open>f\<close>: the result is the loop variable \<^verbatim>\<open>state\<close>,
  the state stored in the message, the error number and the state of the transport.\<close>

function send_loop :: "('s \<Rightarrow> ((int \<times> errno) \<times> 's) option) \<Rightarrow> 's \<Rightarrow> int \<Rightarrow> int \<Rightarrow> ((int \<times> int \<times> errno) \<times> 's) option" where
  "send_loop f s spin_retries retries = do {
     r \<leftarrow> f s;
     (let ((st, e), s1) = r in
      if st \<noteq> SI_OK
      then (if retries > 0 \<and> st = SI_ERR_BLOCKED
            then (if spin_retries - 1 \<le> 0
                  then (if retries - 1 > 0 then send_loop f s1 1000 (retries - 1) else Some ((st, st, e), s1))
                  else send_loop f s1 (spin_retries - 1) retries)
            else Some ((0, st, e), s1))
      else Some ((0, RMR_OK, e), s1)) }"
  by pat_completeness auto
termination
  by (relation "measures [\<lambda>(f, s, spin, retries). nat retries, \<lambda>(f, s, spin, retries). nat spin]") auto

declare send_loop.simps [simp del]

text \<open>What the loop writes into the message before each attempt is the same every time: the total
  length, at most the allocated length, in the transport header.\<close>

definition PAYLOAD_OFFSET :: "bytes \<Rightarrow> nat \<Rightarrow> u32 option" where
  "PAYLOAD_OFFSET b h = RMR_HDR_LEN b h"

definition tot_len :: "mbuf \<Rightarrow> u32 \<Rightarrow> int" where
  "tot_len m po = (let n = sint (word_of_int (m_len m) + po + 50 :: u32) in if n > m_alloc_len m then m_alloc_len m else n)"

text \<open>The header of a message that is about to be sent.\<close>

definition send_hdr :: "'a snd_ctx_scheme \<Rightarrow> mbuf \<Rightarrow> nat \<Rightarrow> bytes \<Rightarrow> bytes option" where
  "send_hdr ctx m h b = do {
     b1 \<leftarrow> set32 b (h + H_MTYPE) (word_of_int (m_mtype m));
     b2 \<leftarrow> set32 b1 (h + H_SUBID) (word_of_int (m_sub_id m));
     b3 \<leftarrow> set32 b2 (h + H_PLEN) (word_of_int (m_len m));
     (if m_flags m AND MFL_ADDSRC \<noteq> 0
      then do {
        r1 \<leftarrow> zt_buf_fill (Some b3) (h + H_SRC) (Some (str_bytes (my_name ctx) @ [0])) (int RMR_MAX_SRC);
        r2 \<leftarrow> zt_buf_fill (snd r1) (h + H_SRCIP) (Some (str_bytes (my_ip ctx) @ [0])) (int RMR_MAX_SRC);
        snd r2 }
      else Some b3) }"

text \<open>The outcome of the loop: a new message, nothing when the sender does not want one, or the
  message with an error state.\<close>

definition send_done :: "snd_env \<Rightarrow> 'a snd_ctx_scheme \<Rightarrow> mbuf \<Rightarrow> int \<Rightarrow> int \<times> int \<times> errno \<Rightarrow> 'a sent" where
  "send_done env ctx m tr_len r =
     (let (state, mstate, e) = r in
      if mstate = RMR_OK
      then (if m_flags m AND MFL_NOALLOC = 0
            then do { x \<leftarrow> alloc_zcmsg (n_ok (s_rt env)) (s_junk env) (s_lock env) ctx (Some (m\<lparr>m_state := RMR_OK\<rparr>)) 0 RMR_OK tr_len;
                      Some ((fst x, e), snd x) }
            else Some ((None, e), ctx))
      else if state = SI_ERR_BLOCKED \<or> e = EAGAIN
      then Some ((Some (m\<lparr>m_state := RMR_ERR_RETRY\<rparr>), EAGAIN), ctx)
      else Some ((Some (m\<lparr>m_state := RMR_ERR_SENDFAILED\<rparr>), e), ctx))"

definition send_msg :: "snd_env \<Rightarrow> 'a snd_ctx_scheme \<Rightarrow> mbuf \<Rightarrow> int \<Rightarrow> int \<Rightarrow> 'a sent" where
  "send_msg env ctx m fd retries = do {
     b \<leftarrow> m_tp_buf m; h \<leftarrow> m_header m;
     b1 \<leftarrow> send_hdr ctx m h b;
     tr \<leftarrow> RMR_TR_LEN b1 h;
     po \<leftarrow> PAYLOAD_OFFSET b1 h;
     b2 \<leftarrow> insert_mlen (word_of_int (tot_len m po)) b1;
     r \<leftarrow> send_loop (\<lambda>g. SIsendt (n_si (s_rt env)) g fd b2 (tot_len m po)) (si_ctx ctx)
            (if retries = 0 then 100 else 1000) (if retries = 0 then 1 else retries);
     send_done env (ctx\<lparr>si_ctx := snd r\<rparr>) (m\<lparr>m_tp_buf := Some b2\<rparr>) (sint tr) (fst r) }"

definition send2ep :: "snd_env \<Rightarrow> 'a snd_ctx_scheme \<Rightarrow> addr \<Rightarrow> mbuf \<Rightarrow> 'a sent" where
  "send2ep env ctx ep m = do { e \<leftarrow> h_eps ctx ep; send_msg env ctx m (nn_sock e) (-1) }"

section \<open>Sending by route\<close>

definition incr_ep_counts :: "'a snd_ctx_scheme \<Rightarrow> int \<Rightarrow> addr option \<Rightarrow> 'a snd_ctx_scheme option" where
  "incr_ep_counts ctx state ep =
     (case ep of None \<Rightarrow> Some ctx
      | Some a \<Rightarrow> do {
          e \<leftarrow> h_eps ctx a;
          Some (put_ep ctx a (if state = RMR_OK then e\<lparr>sc_good := sc_good e + 1\<rparr>
                              else if state = RMR_ERR_RETRY then e\<lparr>sc_trans := sc_trans e + 1\<rparr>
                              else e\<lparr>sc_fail := sc_fail e + 1\<rparr>)) })"

text \<open>The choice of the endpoint for a group: whether the socket is good, whether there are more
  groups, the socket and the endpoint.\<close>

definition pick_ep :: "snd_env \<Rightarrow> 'a snd_ctx_scheme \<Rightarrow> addr option \<Rightarrow> addr \<Rightarrow> mbuf \<Rightarrow> int
    \<Rightarrow> ((bool \<times> int option \<times> addr option) \<times> 'a snd_ctx_scheme) option" where
  "pick_ep env ctx rt ra m grp = do {
     rte \<leftarrow> h_rtes ctx ra;
     (if nrrgroups rte > 0
      then do { r \<leftarrow> uta_epsock_rr (s_rt env) ctx (Some ra) grp;
                (case fst r of (ok, again, sock, ep) \<Rightarrow> Some ((again, if ok = 0 then None else sock, ep), snd r)) }
      else do { r \<leftarrow> epsock_meid (s_rt env) ctx rt (Some m); Some ((False, fst (fst r), snd (fst r)), snd r) }) }"

text \<open>One turn of the loop of \<^verbatim>\<open>mtosend_msg\<close>: the message for the next turn, the count of good
  sends and the error number.  The clone that is sent on is the copy made before the send.\<close>

definition send_group :: "snd_env \<Rightarrow> 'a snd_ctx_scheme \<Rightarrow> mbuf \<Rightarrow> bool \<Rightarrow> int option \<Rightarrow> addr option \<Rightarrow> int \<Rightarrow> errno \<Rightarrow> int
    \<Rightarrow> ((mbuf option \<times> errno \<times> int) \<times> 'a snd_ctx_scheme) option" where
  "send_group env ctx m again sock ep max_to e ok_sends =
     (case sock of
        None \<Rightarrow> Some ((Some (m\<lparr>m_state := RMR_ERR_NOENDPT\<rparr>), ENXIO, ok_sends), ctx)
      | Some fd \<Rightarrow>
          if again
          then do {
            cm \<leftarrow> clone_msg (n_ok (s_rt env)) (s_junk env) m;
            r \<leftarrow> send_msg env ctx (m\<lparr>m_flags := m_flags m OR MFL_NOALLOC\<rparr>) fd max_to;
            (let cm1 = (if fst (fst r) = None then cm\<lparr>m_state := RMR_OK\<rparr> else cm) in do {
             c1 \<leftarrow> incr_ep_counts (snd r) (m_state cm1) ep;
             Some ((Some cm1, snd (fst r), if fst (fst r) = None then ok_sends + 1 else ok_sends), c1) }) }
          else do {
            r \<leftarrow> send_msg env ctx m fd max_to;
            c1 \<leftarrow> (case fst (fst r) of None \<Rightarrow> Some (snd r) | Some m1 \<Rightarrow> incr_ep_counts (snd r) (m_state m1) ep);
            Some ((fst (fst r), snd (fst r), ok_sends), c1) })"

partial_function (option) group_loop :: "snd_env \<Rightarrow> 'a snd_ctx_scheme \<Rightarrow> addr option \<Rightarrow> addr \<Rightarrow> mbuf \<Rightarrow> int \<Rightarrow> int \<Rightarrow> errno \<Rightarrow> int
    \<Rightarrow> ((mbuf option \<times> errno \<times> int) \<times> 'a snd_ctx_scheme) option" where
  "group_loop env ctx rt ra m grp max_to e ok_sends = do {
     p \<leftarrow> pick_ep env ctx rt ra m grp;
     r \<leftarrow> send_group env (snd p) m (fst (fst p)) (fst (snd (fst p))) (snd (snd (fst p))) max_to e ok_sends;
     (if fst (fst p)
      then (case fst (fst r) of None \<Rightarrow> None
            | Some m1 \<Rightarrow> group_loop env (snd r) rt ra m1 (grp + 1) max_to (fst (snd (fst r))) (snd (snd (fst r))))
      else Some r) }"

text \<open>The end of \<^verbatim>\<open>mtosend_msg\<close>.\<close>

definition send_result :: "mbuf option \<Rightarrow> errno \<Rightarrow> int \<Rightarrow> mbuf option" where
  "send_result mo e ok_sends =
     map_option (\<lambda>m. m\<lparr>m_flags := m_flags m AND NOT MFL_NOALLOC, m_state := (if ok_sends \<noteq> 0 then RMR_OK else m_state m), m_tp_state := e\<rparr>) mo"

definition mtosend_msg :: "snd_env \<Rightarrow> 'a snd_ctx_scheme option \<Rightarrow> mbuf option \<Rightarrow> int
    \<Rightarrow> ((mbuf option \<times> errno) \<times> 'a snd_ctx_scheme option) option" where
  "mtosend_msg env vctx msg max_to =
     (case (vctx, msg) of
        (_, None) \<Rightarrow> Some ((None, EINVAL), vctx)
      | (None, Some m) \<Rightarrow> Some ((Some (m\<lparr>m_state := RMR_ERR_BADARG, m_tp_state := EINVAL\<rparr>), EINVAL), None)
      | (Some ctx, Some m) \<Rightarrow>
          if m_header m = None then Some ((Some (m\<lparr>m_state := RMR_ERR_NOHDR, m_tp_state := EBADMSG\<rparr>), EBADMSG), vctx)
          else do {
            rt \<leftarrow> get_rt ctx;
            rte \<leftarrow> uta_get_rte (snd rt) (fst rt) (m_sub_id m) (m_mtype m) True;
            (case fst rte of
               None \<Rightarrow> do { c1 \<leftarrow> release_rt (snd rte) (fst rt);
                           Some ((Some (m\<lparr>m_state := RMR_ERR_NOENDPT, m_tp_state := ENXIO\<rparr>), ENXIO), Some c1) }
             | Some ra \<Rightarrow> do {
                 r \<leftarrow> group_loop env (snd rte) (fst rt) ra m 0 (if max_to < 0 then send_retries ctx else max_to) E0 0;
                 c1 \<leftarrow> release_rt (snd r) (fst rt);
                 Some ((send_result (fst (fst r)) (fst (snd (fst r))) (snd (snd (fst r))), fst (snd (fst r))), Some c1) }) })"

text \<open>The public functions clear the call flag and the call id in the header.\<close>

definition set_hdr_flags :: "bytes \<Rightarrow> nat \<Rightarrow> u32 \<Rightarrow> bytes option" where
  "set_hdr_flags b h fl = mem_wr b (h + H_FLAGS) (put_le32 fl)"

definition set_call :: "mbuf \<Rightarrow> (u32 \<Rightarrow> u32) \<Rightarrow> byte \<Rightarrow> mbuf option" where
  "set_call m f cid = do {
     b \<leftarrow> m_tp_buf m; h \<leftarrow> m_header m;
     fl \<leftarrow> hdr_flags b h;
     b1 \<leftarrow> set_hdr_flags b h (f fl);
     a \<leftarrow> DATA1_ADDR b1 h;
     b2 \<leftarrow> mem_wr b1 a [cid];
     Some (m\<lparr>m_tp_buf := Some b2\<rparr>) }"

definition rmr_mtosend_msg :: "snd_env \<Rightarrow> 'a snd_ctx_scheme option \<Rightarrow> mbuf option \<Rightarrow> int
    \<Rightarrow> ((mbuf option \<times> errno) \<times> 'a snd_ctx_scheme option) option" where
  "rmr_mtosend_msg env vctx msg max_to =
     (case msg of None \<Rightarrow> mtosend_msg env vctx None max_to
      | Some m \<Rightarrow> do { m1 \<leftarrow> set_call m (\<lambda>fl. fl AND NOT HFL_CALL_MSG) 0; mtosend_msg env vctx (Some m1) max_to })"

definition rmr_send_msg :: "snd_env \<Rightarrow> 'a snd_ctx_scheme option \<Rightarrow> mbuf option
    \<Rightarrow> ((mbuf option \<times> errno) \<times> 'a snd_ctx_scheme option) option" where
  "rmr_send_msg env vctx msg =
     (case msg of None \<Rightarrow> rmr_mtosend_msg env vctx None (-1)
      | Some m \<Rightarrow> do { m1 \<leftarrow> set_call m (\<lambda>fl. fl AND NOT HFL_CALL_MSG) 0; rmr_mtosend_msg env vctx (Some m1) (-1) })"

section \<open>Return to sender\<close>

definition field_str :: "bytes \<Rightarrow> nat \<Rightarrow> bytes option" where
  "field_str b off = do { n \<leftarrow> strlen (drop off b); Some (take n (drop off b)) }"

text \<open>The descriptor that a message is returned on: that of the source name, of the connection it
  came in on, or of the source address.\<close>

definition rts_fd :: "snd_env \<Rightarrow> 'a snd_ctx_scheme \<Rightarrow> mbuf \<Rightarrow> bytes \<Rightarrow> nat \<Rightarrow> ((int option \<times> addr option) \<times> 'a snd_ctx_scheme) option" where
  "rts_fd env ctx m b h = do {
     src \<leftarrow> field_str b (h + H_SRC);
     r \<leftarrow> uta_epsock_byname (s_rt env) ctx (bytes_str src);
     (if fst (fst r) \<noteq> None then Some r
      else if m_rts_fd m \<ge> 0 then Some ((Some (m_rts_fd m), snd (fst r)), snd r)
      else do {
        v \<leftarrow> HDR_VERSION b h;
        (if sint v > 2
         then do { ip \<leftarrow> field_str b (h + H_SRCIP); uta_epsock_byname (s_rt env) (snd r) (bytes_str ip) }
         else Some r) }) }"

text \<open>The original source is put back into whatever message comes back.\<close>

definition rts_restore :: "mbuf \<Rightarrow> bytes \<Rightarrow> bytes \<Rightarrow> mbuf option" where
  "rts_restore m src ip = do {
     b \<leftarrow> m_tp_buf m; h \<leftarrow> m_header m;
     r1 \<leftarrow> zt_buf_fill (Some b) (h + H_SRC) (Some (src @ [0])) (int RMR_MAX_SRC);
     r2 \<leftarrow> zt_buf_fill (snd r1) (h + H_SRCIP) (Some (ip @ [0])) (int RMR_MAX_SRC);
     Some (m\<lparr>m_tp_buf := snd r2, m_flags := m_flags m OR MFL_ADDSRC\<rparr>) }"

definition rmr_rts_msg :: "snd_env \<Rightarrow> 'a snd_ctx_scheme option \<Rightarrow> mbuf option \<Rightarrow> (mbuf option \<times> 'a snd_ctx_scheme option) option" where
  "rmr_rts_msg env vctx msg =
     (case (vctx, msg) of
        (_, None) \<Rightarrow> Some (None, vctx)
      | (None, Some m) \<Rightarrow> Some (Some (m\<lparr>m_state := RMR_ERR_BADARG, m_tp_state := EINVAL\<rparr>), None)
      | (Some ctx, Some m) \<Rightarrow>
          (case m_header m of
             None \<Rightarrow> Some (Some (m\<lparr>m_state := RMR_ERR_NOHDR, m_tp_state := E0\<rparr>), vctx)
           | Some h \<Rightarrow> do {
               b \<leftarrow> m_tp_buf m;
               fl \<leftarrow> hdr_flags b h;
               b1 \<leftarrow> set_hdr_flags b h (fl AND NOT HFL_CALL_MSG);
               p \<leftarrow> rts_fd env ctx m b1 h;
               (case fst (fst p) of
                  None \<Rightarrow> Some (Some (m\<lparr>m_tp_buf := Some b1, m_state := RMR_ERR_NOENDPT\<rparr>), Some (snd p))
                | Some fd \<Rightarrow> do {
                    src \<leftarrow> field_str b1 (h + H_SRC);
                    ip \<leftarrow> field_str b1 (h + H_SRCIP);
                    r1 \<leftarrow> zt_buf_fill (Some b1) (h + H_SRC) (Some (str_bytes (my_name ctx) @ [0])) (int RMR_MAX_SRC);
                    r \<leftarrow> send_msg env (snd p) (m\<lparr>m_tp_buf := snd r1, m_state := RMR_OK\<rparr>) fd (-1);
                    (case fst (fst r) of
                       None \<Rightarrow> Some (None, Some (snd r))
                     | Some m1 \<Rightarrow> do {
                         c1 \<leftarrow> incr_ep_counts (snd r) (m_state m1) (snd (fst p));
                         m2 \<leftarrow> rts_restore m1 src ip;
                         Some (Some m2, Some c1) }) }) }))"

section \<open>Settings\<close>

definition rmr_set_stimeout :: "'a snd_ctx_scheme option \<Rightarrow> int \<Rightarrow> int \<times> 'a snd_ctx_scheme option" where
  "rmr_set_stimeout vctx time =
     (case vctx of None \<Rightarrow> (-1, None)
      | Some ctx \<Rightarrow> (RMR_OK, Some (ctx\<lparr>send_retries := (if time < 0 then 0 else time)\<rparr>)))"

definition rmr_init_trace :: "'a snd_ctx_scheme option \<Rightarrow> int \<Rightarrow> (int \<times> errno) \<times> 'a snd_ctx_scheme option" where
  "rmr_init_trace vctx tr_len =
     (case vctx of None \<Rightarrow> ((0, EINVAL), None)
      | Some ctx \<Rightarrow> ((1, E0), Some (ctx\<lparr>trace_data_len := tr_len\<rparr>)))"

definition rmr_ready :: "'a snd_ctx_scheme option \<Rightarrow> bool" where
  "rmr_ready vctx = (case vctx of None \<Rightarrow> False | Some ctx \<Rightarrow> rtable_ready ctx)"

definition rmr_set_low_latency :: "'a snd_ctx_scheme option \<Rightarrow> 'a snd_ctx_scheme option" where
  "rmr_set_low_latency vctx = map_option (\<lambda>ctx. ctx\<lparr>si_ctx := the (SIset_tflags (Some (si_ctx ctx)) SI_TF_NODELAY)\<rparr>) vctx"

definition rmr_set_fack :: "'a snd_ctx_scheme option \<Rightarrow> 'a snd_ctx_scheme option" where
  "rmr_set_fack vctx = map_option (\<lambda>ctx. ctx\<lparr>si_ctx := the (SIset_tflags (Some (si_ctx ctx)) SI_TF_FASTACK)\<rparr>) vctx"

section \<open>The retry loop over a transport\<close>

text \<open>What the loop relies on: an attempt either writes all of the message, or nothing and reports
  that the connection is blocked (with the error number EBUSY), or a proper prefix and reports another failure.\<close>

locale transport =
  fixes sendt :: "'s \<Rightarrow> int \<Rightarrow> bytes \<Rightarrow> int \<Rightarrow> ((int \<times> errno) \<times> 's) option"
    and tinv :: "'s \<Rightarrow> bool"
    and wire :: "'s \<Rightarrow> int \<Rightarrow> bytes"
  assumes attempt: "tinv s \<Longrightarrow> 0 < n \<Longrightarrow> nat n \<le> length b \<Longrightarrow>
    \<exists>st e s'. sendt s fd b n = Some ((st, e), s') \<and> tinv s' \<and> (\<forall>fd'. fd' \<noteq> fd \<longrightarrow> wire s' fd' = wire s fd') \<and>
      (st = SI_OK \<and> wire s' fd = wire s fd @ take (nat n) b \<or>
       st = SI_ERR_BLOCKED \<and> e = EBUSY \<and> wire s' fd = wire s fd \<or>
       st = SI_ERROR \<and> (\<exists>m. m < nat n \<and> wire s' fd = wire s fd @ take m b))"
begin

lemma loop_step:
  assumes "tinv s" and "0 < n" and "nat n \<le> length b"
  obtains (ok) e s' where "sendt s fd b n = Some ((SI_OK, e), s')" "tinv s'" "\<forall>fd'. fd' \<noteq> fd \<longrightarrow> wire s' fd' = wire s fd'" "wire s' fd = wire s fd @ take (nat n) b"
  | (blocked) s' where "sendt s fd b n = Some ((SI_ERR_BLOCKED, EBUSY), s')" "tinv s'" "\<forall>fd'. fd' \<noteq> fd \<longrightarrow> wire s' fd' = wire s fd'" "wire s' fd = wire s fd"
  | (failed) e s' m where "sendt s fd b n = Some ((SI_ERROR, e), s')" "tinv s'" "\<forall>fd'. fd' \<noteq> fd \<longrightarrow> wire s' fd' = wire s fd'" "m < nat n" "wire s' fd = wire s fd @ take m b"
  using attempt [OF assms, of fd] by blast

lemma loop_writes_once:
  assumes "tinv s" and "0 < n" and "nat n \<le> length b"
  shows "\<exists>state mstate e s'. send_loop (\<lambda>s. sendt s fd b n) s spin retries = Some ((state, mstate, e), s') \<and> tinv s' \<and>
    (\<forall>fd'. fd' \<noteq> fd \<longrightarrow> wire s' fd' = wire s fd') \<and>
    (mstate = RMR_OK \<and> state = 0 \<and> wire s' fd = wire s fd @ take (nat n) b \<or>
     mstate = SI_ERR_BLOCKED \<and> e = EBUSY \<and> state = (if retries > 0 then SI_ERR_BLOCKED else 0) \<and> wire s' fd = wire s fd \<or>
     mstate = SI_ERROR \<and> state = 0 \<and> (\<exists>m. m < nat n \<and> wire s' fd = wire s fd @ take m b))"
  using assms(1)
proof (induction "\<lambda>s. sendt s fd b n" s spin retries rule: send_loop.induct)
  case (1 s spin retries)
  from "1.prems" assms(2,3) show ?case
  proof (cases rule: loop_step [where fd = fd])
    case (ok e s')
    then show ?thesis by (subst send_loop.simps) auto
  next
    case (failed e s' m)
    then show ?thesis by (subst send_loop.simps) auto
  next
    case (blocked s')
    show ?thesis
    proof (cases "retries > 0")
      case False
      then show ?thesis using blocked by (subst send_loop.simps) auto
    next
      case True
      consider "spin - 1 \<le> 0" "retries - 1 > 0" | "spin - 1 \<le> 0" "retries - 1 \<le> 0" | "spin - 1 > 0" by linarith
      then show ?thesis
      proof cases
        case 1
        then show ?thesis using "1.hyps"(1) [OF blocked(1) refl refl refl _ _ _ _ blocked(2)] blocked True
          by (subst send_loop.simps) simp
      next
        case 2
        then show ?thesis using blocked True by (subst send_loop.simps) auto
      next
        case 3
        then show ?thesis using "1.hyps"(2) [OF blocked(1) refl refl refl _ _ _ blocked(2)] blocked True
          by (subst send_loop.simps) simp
      qed
    qed
  qed
qed

end

end
