(* ===== verification/Send_Inv.thy ===== *)
theory Send_Inv
  imports Send
begin

text \<open>
  Correctness of the send side: how often a send is tried, that a message is written to a
  connection at most once however often it is tried, what the returned message says about the
  outcome, and that the receive side of \<open>Receive\<close> rebuilds the message from what was written.
\<close>

section \<open>The transport library as a transport\<close>

interpretation tp: transport "SIsendt env" "\<lambda>g. send_progress env \<and> (\<exists>xs. si_inv g xs)" "\<lambda>g fd. sent_on fd (os_log g)" for env :: si_env
proof
  fix s :: "'u ginfo_blk" and n :: int and b :: bytes and fd :: int
  assume a: "send_progress env \<and> (\<exists>xs. si_inv s xs)" "0 < n" "nat n \<le> length b"
  then obtain xs where i: "si_inv s xs" by blast
  from SIsendt_inv [OF this _ a(2,3), of env fd] a(1) obtain st e g' log where
    r: "SIsendt env s fd b n = Some ((st, e), g')" "si_inv g' xs" "os_log g' = os_log s @ log"
      "st = SI_ERR_BLOCKED \<and> e = EBUSY \<and> log = [] \<or> whole_or_prefix fd (take (nat n) b) st log" by blast
  have "whole_or_prefix fd (take (nat n) b) st log \<Longrightarrow> st = SI_OK \<and> sent_on fd log = take (nat n) b \<or>
      st = SI_ERROR \<and> (\<exists>m. m < nat n \<and> sent_on fd log = take m b)"
    unfolding whole_or_prefix_def using a(3) by (fastforce simp: min_absorb1 min_absorb2 less_imp_le)
  moreover have "\<forall>fd'. fd' \<noteq> fd \<longrightarrow> sent_on fd' (os_log g') = sent_on fd' (os_log s)" using SIsendt_only [OF i r(1)] by blast
  ultimately show "\<exists>st e s'. SIsendt env s fd b n = Some ((st, e), s') \<and> (send_progress env \<and> (\<exists>xs. si_inv s' xs)) \<and>
      (\<forall>fd'. fd' \<noteq> fd \<longrightarrow> sent_on fd' (os_log s') = sent_on fd' (os_log s)) \<and>
      (st = SI_OK \<and> sent_on fd (os_log s') = sent_on fd (os_log s) @ take (nat n) b \<or>
       st = SI_ERR_BLOCKED \<and> e = EBUSY \<and> sent_on fd (os_log s') = sent_on fd (os_log s) \<or>
       st = SI_ERROR \<and> (\<exists>m. m < nat n \<and> sent_on fd (os_log s') = sent_on fd (os_log s) @ take m b))"
    using r a(1) by (intro exI [of _ st] exI [of _ e] exI [of _ g']) (auto simp: sent_on_def)
qed

section \<open>The number of attempts\<close>

text \<open>The largest number of attempts of the loop, and the state after \<open>k\<close> attempts that were all blocked.\<close>

definition max_tries :: "int \<Rightarrow> int \<Rightarrow> nat" where
  "max_tries spin retries = (if retries \<le> 0 then 1 else nat (max 1 spin) + nat (1000 * (retries - 1)))"

fun blocked_run :: "('s \<Rightarrow> ((int \<times> errno) \<times> 's) option) \<Rightarrow> 's \<Rightarrow> nat \<Rightarrow> 's option" where
  "blocked_run f s 0 = Some s"
| "blocked_run f s (Suc k) = (case f s of Some ((st, e), s1) \<Rightarrow> if st = SI_ERR_BLOCKED then blocked_run f s1 k else None | None \<Rightarrow> None)"

lemma max_tries_step:
  assumes "retries > 0" and "spin - 1 \<le> 0 \<Longrightarrow> retries - 1 > 0"
  shows "max_tries spin retries = Suc (if spin - 1 \<le> 0 then max_tries 1000 (retries - 1) else max_tries (spin - 1) retries)"
  using assms by (auto simp: max_tries_def max_def)

lemma loop_goes_on:
  assumes "f s = Some ((SI_ERR_BLOCKED, e), s1)" and "max_tries spin retries = Suc (Suc n)"
  shows "\<exists>spin' retries'. send_loop f s spin retries = send_loop f s1 spin' retries' \<and> max_tries spin' retries' = Suc n \<and> 0 < retries \<and> 0 < retries'"
proof -
  have r: "retries > 0" and c: "spin - 1 \<le> 0 \<Longrightarrow> retries - 1 > 0" using assms(2) by (auto simp: max_tries_def split: if_splits)
  show ?thesis
  proof (cases "spin - 1 \<le> 0")
    case True
    then show ?thesis using assms r c max_tries_step [OF r c] by (intro exI [of _ 1000] exI [of _ "retries - 1"]) (simp add: send_loop.simps [of f s])
  next
    case False
    then show ?thesis using assms r c max_tries_step [OF r c] by (intro exI [of _ "spin - 1"] exI [of _ retries]) (simp add: send_loop.simps [of f s])
  qed
qed

text \<open>The loop stops at the first attempt that is not blocked, and after the largest number of attempts.\<close>

lemma loop_stops:
  assumes "blocked_run f s k = Some s1" and "f s1 = Some ((st, e), s2)" and "st \<noteq> SI_ERR_BLOCKED" and "k < max_tries spin retries"
  shows "send_loop f s spin retries = Some ((0, if st = SI_OK then RMR_OK else st, e), s2)"
  using assms(1,4)
proof (induction k arbitrary: s spin retries)
  case 0
  then show ?case using assms(2,3) by (subst send_loop.simps) simp
next
  case (Suc k)
  from Suc.prems(1) obtain e1 s0 where f: "f s = Some ((SI_ERR_BLOCKED, e1), s0)" "blocked_run f s0 k = Some s1"
    by (auto split: option.splits prod.splits if_splits)
  define n where "n = max_tries spin retries - 2"
  then have n: "max_tries spin retries = Suc (Suc n)" using Suc.prems(2) by simp
  from loop_goes_on [of f s e1 s0 spin retries, OF f(1) n] obtain spin' retries' where "send_loop f s spin retries = send_loop f s0 spin' retries'" "max_tries spin' retries' = Suc n" by blast
  then show ?case using Suc.IH [OF f(2), of spin' retries'] Suc.prems(2) n by simp
qed

lemma loop_exhausted:
  assumes "blocked_run f s k = Some s1" and "k = max_tries spin retries"
  shows "\<exists>e. send_loop f s spin retries = Some ((if retries > 0 then SI_ERR_BLOCKED else 0, SI_ERR_BLOCKED, e), s1)"
  using assms
proof (induction k arbitrary: s spin retries)
  case 0
  then show ?case by (auto simp: max_tries_def split: if_splits)
next
  case (Suc k)
  from Suc.prems(1) obtain e1 s0 where f: "f s = Some ((SI_ERR_BLOCKED, e1), s0)" "blocked_run f s0 k = Some s1"
    by (auto split: option.splits prod.splits if_splits)
  show ?case
  proof (cases k)
    case 0
    then have "retries \<le> 0 \<or> spin - 1 \<le> 0 \<and> retries - 1 \<le> 0" using Suc.prems(2) by (auto simp: max_tries_def split: if_splits)
    then show ?thesis using f 0 by (auto simp: send_loop.simps [of f s])
  next
    case (Suc n)
    then have n: "max_tries spin retries = Suc (Suc n)" using Suc.prems(2) by simp
    from loop_goes_on [of f s e1 s0 spin retries, OF f(1) n] obtain spin' retries' where
      "send_loop f s spin retries = send_loop f s0 spin' retries'" "max_tries spin' retries' = Suc n" "0 < retries" "0 < retries'" by blast
    then show ?thesis using Suc.IH [OF f(2), of spin' retries'] Suc by auto
  qed
qed

text \<open>A descriptor with an open session.\<close>

definition connected :: "'u ginfo_blk \<Rightarrow> int \<Rightarrow> bool" where
  "connected g fd \<longleftrightarrow> 0 \<le> fd \<and> fd < FD_SETSIZE \<and> (\<exists>a t. tp_map g fd = Some a \<and> h_tp g a = Some t \<and> tp_fd t = fd)"

definition select_rc :: "si_env \<Rightarrow> nat \<Rightarrow> int" where
  "select_rc env k = fst (fst (o_select env k))"

definition select_ex :: "si_env \<Rightarrow> nat \<Rightarrow> int list" where
  "select_ex env k = snd (snd (snd (o_select env k)))"

lemma sendt_blocked:
  assumes "connected g fd" and "select_rc env (os_n g) \<le> 0"
  shows "\<exists>g'. SIsendt env g fd b n = Some ((SI_ERR_BLOCKED, EBUSY), g') \<and> connected g' fd \<and> os_n g' = Suc (os_n g) \<and> os_log g' = os_log g"
  using assms by (auto simp: SIsendt_def connected_def select_rc_def tp_of_fd_def tick_def put_tp_def split: prod.splits)

lemma sendt_blocked_run:
  assumes "connected g fd" and "\<And>j. j < k \<Longrightarrow> select_rc env (os_n g + j) \<le> 0"
  shows "\<exists>g'. blocked_run (\<lambda>g. SIsendt env g fd b n) g k = Some g' \<and> connected g' fd \<and> os_n g' = os_n g + k \<and> os_log g' = os_log g"
  using assms
proof (induction k arbitrary: g)
  case (Suc k)
  from sendt_blocked [OF Suc.prems(1), of env b n] Suc.prems(2) [of 0] obtain g1 where
    g1: "SIsendt env g fd b n = Some ((SI_ERR_BLOCKED, EBUSY), g1)" "connected g1 fd" "os_n g1 = Suc (os_n g)" "os_log g1 = os_log g" by auto
  have "select_rc env (os_n g1 + j) \<le> 0" if "j < k" for j using Suc.prems(2) [of "Suc j"] g1(3) that by simp
  from Suc.IH [OF g1(2) this] g1 show ?case by auto
qed simp

text \<open>An attempt on a writable connection whose first write takes everything or fails.\<close>

lemma sendt_writable:
  assumes "connected g fd" and "0 < select_rc env (os_n g)" and "fd \<notin> set (select_ex env (os_n g))" and "0 < n" and "nat n \<le> length b"
    and x: "o_send env (Suc (os_n g)) = (x, e)" "x = n \<or> x < 0"
  shows "\<exists>g'. SIsendt env g fd b n = Some ((if x < 0 then SI_ERROR else SI_OK, if x < 0 then e else E0), g') \<and> os_n g' = os_n g + 2 \<and>
    sent_on fd (os_log g') = sent_on fd (os_log g) @ (if x < 0 then [] else take (nat n) b)"
proof -
  obtain a t where t: "tp_map g fd = Some a" "h_tp g a = Some t" "tp_fd t = fd" "0 \<le> fd" "fd < FD_SETSIZE" using assms(1) by (auto simp: connected_def)
  let ?g = "tick (put_tp g a (t\<lparr>tp_sent := tp_sent t + 1\<rparr>))"
  have n1: "os_n ?g = Suc (os_n g)" "os_log ?g = os_log g" by (simp_all add: tick_def put_tp_def)
  have "SIsendt env g fd b n = sendt_loop env ?g fd b 0 n SI_ERROR E0"
    using t assms(2,3) by (auto simp: SIsendt_def select_rc_def select_ex_def tp_of_fd_def split: prod.splits)
  also have "\<dots> = (if x < 0 then Some ((SI_ERROR, e), tick ?g) else sendt_loop env (os_do (tick ?g) (OsSend fd (take (nat n) (take (nat n) b)))) fd b (nat n) 0 SI_OK E0)"
    using assms(4,5) x n1 by (subst sendt_loop.simps) (auto simp: mem_rd_def)
  finally show ?thesis using n1 by (auto simp: sendt_loop.simps tick_def os_do_def sent_on_def)
qed

section \<open>The buffer that is sent\<close>

text \<open>The buffer of a message as it is written: the header describes the message, and everything
  the sender has put into the message is as it was.\<close>

definition sent_buf :: "mbuf \<Rightarrow> bytes \<Rightarrow> bytes \<Rightarrow> nat \<Rightarrow> nat \<Rightarrow> nat \<Rightarrow> int \<Rightarrow> bool" where
  "sent_buf m b b2 l1 l2 l3 n \<longleftrightarrow> length b2 = length b \<and> lens b2 l1 l2 l3 \<and> extract_mlen b2 = Some (word_of_int n) \<and>
     get32 b2 50 = Some (word_of_int (m_mtype m)) \<and> get32 b2 54 = Some (word_of_int (m_len m)) \<and>
     get32 b2 262 = Some (word_of_int (m_sub_id m)) \<and> hdr_flags b2 50 = hdr_flags b 50 \<and>
     mem_rd b2 58 68 = mem_rd b 58 68 \<and> mem_rd b2 190 52 = mem_rd b 190 52 \<and> (\<forall>p k. 330 \<le> p \<longrightarrow> mem_rd b2 p k = mem_rd b p k)"

lemma send_hdr_fields:
  assumes "330 \<le> length b"
  shows "\<exists>b3. set32 b 50 mt \<bind> (\<lambda>b1. set32 b1 262 sid \<bind> (\<lambda>b2. set32 b2 54 pl)) = Some b3 \<and> length b3 = length b \<and>
    get32 b3 50 = Some mt \<and> get32 b3 262 = Some sid \<and> get32 b3 54 = Some pl \<and>
    (\<forall>p k. p + k \<le> 50 \<or> 58 \<le> p \<and> p + k \<le> 262 \<or> 266 \<le> p \<longrightarrow> mem_rd b3 p k = mem_rd b p k)"
proof -
  obtain b1 where 1: "set32 b 50 mt = Some b1" "frame b b1 50 54" "get32 b1 50 = Some mt" "length b1 = length b"
    using set32_step [of 50 b mt] assms by auto
  obtain b2 where 2: "set32 b1 262 sid = Some b2" "frame b1 b2 262 266" "get32 b2 262 = Some sid" "length b2 = length b"
    using set32_step [of 262 b1 sid] assms 1(4) by auto
  obtain b3 where 3: "set32 b2 54 pl = Some b3" "frame b2 b3 54 58" "get32 b3 54 = Some pl" "length b3 = length b"
    using set32_step [of 54 b2 pl] assms 2(4) by auto
  have "mem_rd b3 p k = mem_rd b p k" if "p + k \<le> 50 \<or> 58 \<le> p \<and> p + k \<le> 262 \<or> 266 \<le> p" for p k
    using that frame_rd [OF 1(2), of p k] frame_rd [OF 2(2), of p k] frame_rd [OF 3(2), of p k] by auto
  then show ?thesis using 1 2 3 by (auto simp: frame_get32)
qed

lemma send_hdr_ok:
  assumes "330 \<le> length b"
  shows "\<exists>b1. send_hdr ctx m 50 b = Some b1 \<and> length b1 = length b \<and> get32 b1 50 = Some (word_of_int (m_mtype m)) \<and>
    get32 b1 262 = Some (word_of_int (m_sub_id m)) \<and> get32 b1 54 = Some (word_of_int (m_len m)) \<and>
    (\<forall>p k. p + k \<le> 50 \<or> 58 \<le> p \<and> p + k \<le> 126 \<or> 190 \<le> p \<and> p + k \<le> 262 \<or> 330 \<le> p \<longrightarrow> mem_rd b1 p k = mem_rd b p k)"
proof -
  obtain b3 where 3: "set32 b 50 (word_of_int (m_mtype m)) \<bind> (\<lambda>b1. set32 b1 262 (word_of_int (m_sub_id m)) \<bind> (\<lambda>b2. set32 b2 54 (word_of_int (m_len m)))) = Some b3"
    "length b3 = length b" "get32 b3 50 = Some (word_of_int (m_mtype m))" "get32 b3 262 = Some (word_of_int (m_sub_id m))"
    "get32 b3 54 = Some (word_of_int (m_len m))"
    and r: "\<And>p k. p + k \<le> 50 \<or> 58 \<le> p \<and> p + k \<le> 262 \<or> 266 \<le> p \<Longrightarrow> mem_rd b3 p k = mem_rd b p k"
    using send_hdr_fields [OF assms] by blast
  show ?thesis
  proof (cases "m_flags m AND MFL_ADDSRC = 0")
    case True
    then have "send_hdr ctx m 50 b = Some b3" using 3(1) by (auto simp: send_hdr_def split: bind_splits)
    then show ?thesis using 3 r by auto
  next
    case False
    obtain x b4 where 4: "zt_buf_fill (Some b3) 126 (Some (str_bytes (my_name ctx) @ [0])) 64 = Some (x, Some b4)" "frame b3 b4 126 190" "length b4 = length b"
      using zt_field_step [of 126 b3 "my_name ctx"] assms 3(2) by auto
    obtain y b5 where 5: "zt_buf_fill (Some b4) 266 (Some (str_bytes (my_ip ctx) @ [0])) 64 = Some (y, Some b5)" "frame b4 b5 266 330" "length b5 = length b"
      using zt_field_step [of 266 b4 "my_ip ctx"] assms 4(3) by auto
    have "send_hdr ctx m 50 b = Some b5" using 3(1) 4(1) 5(1) False by (auto simp: send_hdr_def split: bind_splits)
    moreover have "mem_rd b5 p k = mem_rd b p k" if "p + k \<le> 50 \<or> 58 \<le> p \<and> p + k \<le> 126 \<or> 190 \<le> p \<and> p + k \<le> 262 \<or> 330 \<le> p" for p k
      using that frame_rd [OF 4(2), of p k] frame_rd [OF 5(2), of p k] r [of p k] by auto
    ultimately show ?thesis using 3 5(3) frame_get32 [OF 4(2)] frame_get32 [OF 5(2)] by auto
  qed
qed

lemma prepare_ok:
  assumes ok: "mbuf_ok m b l1 l2 l3"
  shows "\<exists>b1 b2. send_hdr ctx m 50 b = Some b1 \<and> RMR_TR_LEN b1 50 = Some (of_nat l1) \<and>
    PAYLOAD_OFFSET b1 50 = Some (word_of_int (280 + int l1 + int l2 + int l3)) \<and>
    insert_mlen (word_of_int n) b1 = Some b2 \<and> sent_buf m b b2 l1 l2 l3 n"
proof -
  have len: "330 \<le> length b" using mbuf_ok_bound [OF ok] by simp
  have L: "lens b l1 l2 l3" using ok by (simp add: mbuf_ok_def)
  obtain b1 where 1: "send_hdr ctx m 50 b = Some b1" "length b1 = length b" "get32 b1 50 = Some (word_of_int (m_mtype m))"
    "get32 b1 262 = Some (word_of_int (m_sub_id m))" "get32 b1 54 = Some (word_of_int (m_len m))"
    and r: "\<And>p k. p + k \<le> 50 \<or> 58 \<le> p \<and> p + k \<le> 126 \<or> 190 \<le> p \<and> p + k \<le> 262 \<or> 330 \<le> p \<Longrightarrow> mem_rd b1 p k = mem_rd b p k"
    using send_hdr_ok [OF len, of ctx m] by blast
  have L1: "lens b1 l1 l2 l3" using L r [of 246 4] r [of 250 4] r [of 254 4] r [of 258 4] by (simp add: lens_def get32_def)
  obtain b2 where 2: "insert_mlen (word_of_int n) b1 = Some b2" "extract_mlen b2 = Some (word_of_int n)" "frame b1 b2 0 13" "length b2 = length b"
    using insert_mlen_step [of b1 "word_of_int n"] len 1(2) by auto
  have r2: "mem_rd b2 p k = mem_rd b1 p k" if "13 \<le> p" for p k using frame_rd [OF 2(3), of p k] that by simp
  have L2: "lens b2 l1 l2 l3" using lens_frame [OF L1 2(3)] by simp
  have "sent_buf m b b2 l1 l2 l3 n" unfolding sent_buf_def hdr_flags_def
    using 1 2 L2 r2 r [of 242 4] r [of 58 68] r [of 190 52] r frame_get32 [OF 2(3)] by simp
  then show ?thesis using 1(1) 2(1) lens_rd(1,6) [OF L1] by (auto simp: PAYLOAD_OFFSET_def)
qed

lemma tot_len_ok:
  assumes "mbuf_ok m b l1 l2 l3" and "0 \<le> m_len m" and "330 + int l1 + int l2 + int l3 + m_len m < 2 ^ 31"
  shows "tot_len m (word_of_int (280 + int l1 + int l2 + int l3)) = min (330 + int l1 + int l2 + int l3 + m_len m) (m_alloc_len m)"
proof -
  have w: "(word_of_int (m_len m) + word_of_int (280 + int l1 + int l2 + int l3) + 50 :: u32) = word_of_int (330 + int l1 + int l2 + int l3 + m_len m)"
    by simp
  have "sint (word_of_int (330 + int l1 + int l2 + int l3 + m_len m) :: u32) = 330 + int l1 + int l2 + int l3 + m_len m"
    by (rule sint_word_of_int_small) (use assms(2,3) in simp_all)
  then show ?thesis unfolding tot_len_def w by (simp add: min_def)
qed

section \<open>Sending a message\<close>

text \<open>What the sender needs: a consistent transport, allocations that succeed, and a context whose
  messages fit the trace data of this one.\<close>

definition can_send :: "snd_env \<Rightarrow> 'a snd_ctx_scheme \<Rightarrow> nat \<Rightarrow> bool" where
  "can_send env ctx l1 \<longleftrightarrow> send_progress (n_si (s_rt env)) \<and> (\<exists>xs. si_inv (si_ctx ctx) xs) \<and> n_ok (s_rt env) = all_ok \<and> ctx_ok ctx \<and> pool_ok ctx \<and>
     330 + trace_data_len ctx + d1_len ctx \<le> zc_mlen ctx 0 (int l1) \<and> zc_mlen ctx 0 (int l1) < 2 ^ 31"

lemma alloc_next_ok:
  assumes c: "ctx_ok ctx" and r: "330 + trace_data_len ctx + d1_len ctx \<le> zc_mlen ctx 0 tr" and lt: "zc_mlen ctx 0 tr < 2 ^ 31" and m: "mbuf_wf m"
  shows "\<exists>m' b. alloc_zcmsg all_ok junk tk ctx (Some m) 0 RMR_OK tr = Some (Some m', ctx) \<and> m_state m' = RMR_OK \<and> m_len m' = 0 \<and>
    mbuf_ok m' b (nat (trace_data_len ctx)) (nat (d1_len ctx)) 0"
  using zc_reuse_ok [OF c r lt _ m, of all_ok junk RMR_OK]
  by (auto simp: alloc_zcmsg_def Let_def all_ok_def fresh_msg_def split: if_splits)

lemma si_ctx_upd [simp]:
  fixes ctx :: "'a snd_ctx_scheme"
  shows "zc_mlen (ctx\<lparr>si_ctx := g\<rparr>) sz tr = zc_mlen ctx sz tr" "ctx_ok (ctx\<lparr>si_ctx := g\<rparr>) = ctx_ok ctx" "pool_ok (ctx\<lparr>si_ctx := g\<rparr>) = pool_ok ctx"
  by (simp_all add: zc_mlen_def ctx_ok_def pool_ok_def cong: if_cong)

text \<open>The outcome of a send, by what has been written.\<close>

datatype outcome = Sent | Blocked | Failed errno

definition after_send :: "'a snd_ctx_scheme \<Rightarrow> mbuf \<Rightarrow> int \<Rightarrow> outcome \<Rightarrow> mbuf option \<Rightarrow> errno \<Rightarrow> bool" where
  "after_send ctx m retries oc mo e = (case oc of
      Sent \<Rightarrow> if m_flags m AND MFL_NOALLOC \<noteq> 0 then mo = None
             else (\<exists>m' b. mo = Some m' \<and> m_state m' = RMR_OK \<and> m_len m' = 0 \<and> mbuf_ok m' b (nat (trace_data_len ctx)) (nat (d1_len ctx)) 0)
    | Blocked \<Rightarrow> if retries < 0 then mo = Some (m\<lparr>m_state := RMR_ERR_SENDFAILED\<rparr>) \<and> e = EBUSY
                else mo = Some (m\<lparr>m_state := RMR_ERR_RETRY\<rparr>) \<and> e = EAGAIN
    | Failed er \<Rightarrow> mo = Some (m\<lparr>m_state := (if er = EAGAIN then RMR_ERR_RETRY else RMR_ERR_SENDFAILED)\<rparr>) \<and> e = er)"

definition on_wire :: "outcome \<Rightarrow> bytes \<Rightarrow> bytes \<Rightarrow> bool" where
  "on_wire oc msg w = (case oc of Sent \<Rightarrow> w = msg | Blocked \<Rightarrow> w = [] | Failed _ \<Rightarrow> (\<exists>k. k < length msg \<and> w = take k msg))"

definition others_quiet :: "int \<Rightarrow> 'u ginfo_blk \<Rightarrow> 'u ginfo_blk \<Rightarrow> bool" where
  "others_quiet fd g g' \<longleftrightarrow> (\<forall>fd'. fd' \<noteq> fd \<longrightarrow> sent_on fd' (os_log g') = sent_on fd' (os_log g))"

lemma after_send_good: "after_send ctx m retries oc mo e \<Longrightarrow> oc = Sent \<longleftrightarrow> map_option m_state mo \<in> {None, Some RMR_OK}"
  by (auto simp: after_send_def split: outcome.splits if_splits)

text \<open>The message that is sent, and what the end of \<^verbatim>\<open>send_msg\<close> makes of the result of the loop.\<close>

lemma send_msg_run:
  assumes ok: "mbuf_ok m b l1 l2 l3" and len: "0 \<le> m_len m" "330 + int l1 + int l2 + int l3 + m_len m < 2 ^ 31"
    and n: "n = min (330 + int l1 + int l2 + int l3 + m_len m) (m_alloc_len m)"
  shows "\<exists>b2. sent_buf m b b2 l1 l2 l3 n \<and> 0 < n \<and> nat n \<le> length b2 \<and> mbuf_wf (m\<lparr>m_tp_buf := Some b2, m_state := RMR_OK\<rparr>) \<and>
    send_msg env ctx m fd retries = do {
      r \<leftarrow> send_loop (\<lambda>g. SIsendt (n_si (s_rt env)) g fd b2 n) (si_ctx ctx) (if retries = 0 then 100 else 1000) (if retries = 0 then 1 else retries);
      send_done env (ctx\<lparr>si_ctx := snd r\<rparr>) (m\<lparr>m_tp_buf := Some b2\<rparr>) (int l1) (fst r) }"
proof -
  note t = tot_len_ok [OF ok len, folded n]
  obtain b1 b2 where p: "send_hdr ctx m 50 b = Some b1" "RMR_TR_LEN b1 50 = Some (of_nat l1)"
    "PAYLOAD_OFFSET b1 50 = Some (word_of_int (280 + int l1 + int l2 + int l3))" "insert_mlen (word_of_int n) b1 = Some b2" and sb: "sent_buf m b b2 l1 l2 l3 n"
    using prepare_ok [OF ok, of ctx n] by blast
  have M: "m_tp_buf m = Some b" "m_header m = Some 50" "m_alloc_len m \<le> int (length b)" "330 \<le> m_alloc_len m" using ok by (auto simp: mbuf_ok_def)
  have nb: "0 < n" "nat n \<le> length b2" using n len M sb by (auto simp: sent_buf_def)
  have tr: "sint (of_nat l1 :: u32) = int l1" using ok by (intro sint_of_nat_small) (simp add: mbuf_ok_def lens_def)
  have wf: "mbuf_wf (m\<lparr>m_tp_buf := Some b2, m_state := RMR_OK\<rparr>)" using ok sb unfolding mbuf_wf_def mbuf_ok_def sent_buf_def by auto
  have "send_msg env ctx m fd retries = do {
      r \<leftarrow> send_loop (\<lambda>g. SIsendt (n_si (s_rt env)) g fd b2 n) (si_ctx ctx) (if retries = 0 then 100 else 1000) (if retries = 0 then 1 else retries);
      send_done env (ctx\<lparr>si_ctx := snd r\<rparr>) (m\<lparr>m_tp_buf := Some b2\<rparr>) (int l1) (fst r) }"
    using p M t tr by (simp add: send_msg_def)
  with sb nb wf show ?thesis by blast
qed

lemma send_done_ok:
  assumes "can_send env ctx l1" and "mbuf_wf (m\<lparr>m_state := RMR_OK\<rparr>)"
  shows "\<exists>mo. send_done env (ctx\<lparr>si_ctx := g\<rparr>) m (int l1) (state, RMR_OK, e) = Some ((mo, e), ctx\<lparr>si_ctx := g\<rparr>) \<and> after_send ctx m retries Sent mo e"
proof -
  obtain m' b where "alloc_zcmsg all_ok (s_junk env) (s_lock env) (ctx\<lparr>si_ctx := g\<rparr>) (Some (m\<lparr>m_state := RMR_OK\<rparr>)) 0 RMR_OK (int l1) = Some (Some m', ctx\<lparr>si_ctx := g\<rparr>)"
    "m_state m' = RMR_OK" "m_len m' = 0" "mbuf_ok m' b (nat (trace_data_len ctx)) (nat (d1_len ctx)) 0"
    using alloc_next_ok [of "ctx\<lparr>si_ctx := g\<rparr>" "int l1" "m\<lparr>m_state := RMR_OK\<rparr>" "s_junk env" "s_lock env"] assms by (auto simp: can_send_def)
  then show ?thesis using assms(1) by (auto simp: after_send_def send_done_def can_send_def)
qed

lemma send_done_blocked:
  "\<exists>mo e. send_done env ctx' m tr (if (if retries = 0 then 1 else retries) > 0 then SI_ERR_BLOCKED else 0, SI_ERR_BLOCKED, EBUSY) = Some ((mo, e), ctx') \<and>
     after_send ctx m retries Blocked mo e"
  by (cases "retries < 0") (auto simp: send_done_def after_send_def)

lemma send_done_failed:
  "\<exists>mo. send_done env ctx' m tr (0, SI_ERROR, e) = Some ((mo, e), ctx') \<and> after_send ctx m retries (Failed e) mo e"
  by (auto simp: send_done_def after_send_def)

lemma send_msg_ok:
  assumes ok: "mbuf_ok m b l1 l2 l3" and len: "0 \<le> m_len m" "330 + int l1 + int l2 + int l3 + m_len m < 2 ^ 31" and can: "can_send env ctx l1"
    and n: "n = min (330 + int l1 + int l2 + int l3 + m_len m) (m_alloc_len m)"
  shows "\<exists>b2 oc mo e g w. send_msg env ctx m fd retries = Some ((mo, e), ctx\<lparr>si_ctx := g\<rparr>) \<and> sent_buf m b b2 l1 l2 l3 n \<and> (\<exists>xs. si_inv g xs) \<and>
    sent_on fd (os_log g) = sent_on fd (os_log (si_ctx ctx)) @ w \<and> on_wire oc (take (nat n) b2) w \<and> after_send ctx (m\<lparr>m_tp_buf := Some b2\<rparr>) retries oc mo e \<and>
    others_quiet fd (si_ctx ctx) g"
proof -
  let ?spin = "if retries = 0 then 100 else 1000 :: int" and ?r = "if retries = 0 then 1 else retries"
  obtain b2 where sb: "sent_buf m b b2 l1 l2 l3 n" and nb: "0 < n" "nat n \<le> length b2" and wf: "mbuf_wf (m\<lparr>m_tp_buf := Some b2, m_state := RMR_OK\<rparr>)"
    and run: "send_msg env ctx m fd retries = do { r \<leftarrow> send_loop (\<lambda>g. SIsendt (n_si (s_rt env)) g fd b2 n) (si_ctx ctx) ?spin ?r;
      send_done env (ctx\<lparr>si_ctx := snd r\<rparr>) (m\<lparr>m_tp_buf := Some b2\<rparr>) (int l1) (fst r) }"
    using send_msg_run [OF ok len n, of env ctx fd retries] by blast
  let ?m = "m\<lparr>m_tp_buf := Some b2\<rparr>"
  obtain state ms e g where lp: "send_loop (\<lambda>g. SIsendt (n_si (s_rt env)) g fd b2 n) (si_ctx ctx) ?spin ?r = Some ((state, ms, e), g)"
    and gi: "\<exists>xs. si_inv g xs" and oq: "others_quiet fd (si_ctx ctx) g" and
    out: "ms = RMR_OK \<and> state = 0 \<and> sent_on fd (os_log g) = sent_on fd (os_log (si_ctx ctx)) @ take (nat n) b2 \<or>
     ms = SI_ERR_BLOCKED \<and> e = EBUSY \<and> state = (if ?r > 0 then SI_ERR_BLOCKED else 0) \<and> sent_on fd (os_log g) = sent_on fd (os_log (si_ctx ctx)) \<or>
     ms = SI_ERROR \<and> state = 0 \<and> (\<exists>k. k < nat n \<and> sent_on fd (os_log g) = sent_on fd (os_log (si_ctx ctx)) @ take k b2)"
    using tp.loop_writes_once [of "n_si (s_rt env)" "si_ctx ctx" n b2 fd ?spin ?r] can nb unfolding can_send_def others_quiet_def by blast
  have run: "send_msg env ctx m fd retries = send_done env (ctx\<lparr>si_ctx := g\<rparr>) ?m (int l1) (state, ms, e)" using run lp by simp
  from out show ?thesis
  proof (elim disjE conjE exE)
    assume o: "ms = RMR_OK" "sent_on fd (os_log g) = sent_on fd (os_log (si_ctx ctx)) @ take (nat n) b2"
    moreover have "on_wire Sent (take (nat n) b2) (take (nat n) b2)" by (simp add: on_wire_def)
    ultimately show ?thesis using send_done_ok [OF can wf, of g state e retries] run [unfolded o(1)] gi oq sb by metis
  next
    assume o: "ms = SI_ERR_BLOCKED" "e = EBUSY" "state = (if ?r > 0 then SI_ERR_BLOCKED else 0)" "sent_on fd (os_log g) = sent_on fd (os_log (si_ctx ctx))"
    then have "sent_on fd (os_log g) = sent_on fd (os_log (si_ctx ctx)) @ []" "on_wire Blocked (take (nat n) b2) []" by (simp_all add: on_wire_def)
    then show ?thesis using send_done_blocked [of env "ctx\<lparr>si_ctx := g\<rparr>" ?m "int l1" retries ctx] run [unfolded o(1-3)] gi oq sb by metis
  next
    fix k
    assume o: "ms = SI_ERROR" "state = 0" "k < nat n" "sent_on fd (os_log g) = sent_on fd (os_log (si_ctx ctx)) @ take k b2"
    have "on_wire (Failed e) (take (nat n) b2) (take k b2)" unfolding on_wire_def
      using o(3) nb by (auto intro!: exI [of _ k] simp: min_absorb2 less_imp_le)
    then show ?thesis using send_done_failed [of env "ctx\<lparr>si_ctx := g\<rparr>" ?m "int l1" e ctx retries] run [unfolded o(1,2)] o(4) gi oq sb by metis
  qed
qed

text \<open>
  C14. One call of \<^verbatim>\<open>send_msg\<close>, with all of its retries, writes the message to the connection at most
  once, and nothing to any other connection.  The state of the returned message is RMR_OK (or no
  message is returned, when none is wanted) exactly when all of the message was written.  When
  nothing could be written because every attempt was blocked, the message comes back with
  RMR_ERR_RETRY and EAGAIN, or, for a negative number of retries, with RMR_ERR_SENDFAILED and EBUSY.
  After a failed attempt a proper prefix has been written, which may be empty, and the message
  comes back with RMR_ERR_SENDFAILED, or with RMR_ERR_RETRY when the error was EAGAIN: the state does
  not separate a blocked send from one that was cut short.  The transport header announces the
  bytes that are written, the rest of the message is as the caller made it.
\<close>

theorem send_msg_once:
  assumes "mbuf_ok m b l1 l2 l3" and "0 \<le> m_len m" and "330 + int l1 + int l2 + int l3 + m_len m < 2 ^ 31" and "can_send env ctx l1"
  shows "\<exists>b2 oc mo e g w. send_msg env ctx m fd retries = Some ((mo, e), ctx\<lparr>si_ctx := g\<rparr>) \<and>
    sent_buf m b b2 l1 l2 l3 (min (330 + int l1 + int l2 + int l3 + m_len m) (m_alloc_len m)) \<and> (\<exists>xs. si_inv g xs) \<and>
    sent_on fd (os_log g) = sent_on fd (os_log (si_ctx ctx)) @ w \<and> others_quiet fd (si_ctx ctx) g \<and>
    on_wire oc (take (nat (min (330 + int l1 + int l2 + int l3 + m_len m) (m_alloc_len m))) b2) w \<and>
    after_send ctx (m\<lparr>m_tp_buf := Some b2\<rparr>) retries oc mo e \<and> (oc = Sent \<longleftrightarrow> map_option m_state mo \<in> {None, Some RMR_OK})"
  using send_msg_ok [OF assms refl, of fd retries] after_send_good by blast

definition demo_snd :: snd_ctx where
  "demo_snd = rtc_ctx.extend (demo_rtc\<lparr>si_ctx := demo_two\<rparr>) \<lparr>send_retries = 1, wormholes = None\<rparr>"

definition demo_senv :: snd_env where
  "demo_senv = \<lparr>s_rt = demo_rt_env, s_junk = (\<lambda>_. 0), s_lock = True\<rparr>"

lemma demo_can_send: "can_send demo_senv demo_snd 4" "si_ctx demo_snd = demo_two"
proof -
  have "pool_ok demo_snd = pool_ok demo_ctx"
    by (simp add: pool_ok_def demo_snd_def rtc_ctx.defs demo_rtc_def uta_ctx.defs demo_uta_def rcv_ctx.defs demo_rcv_def)
  then show "can_send demo_senv demo_snd 4" using demo_si_ok(1) demo_two_inv demo_ctx_ok(2)
    by (auto simp: can_send_def demo_senv_def demo_rt_env_def demo_snd_def rtc_ctx.defs demo_rtc_def uta_ctx.defs demo_uta_def rcv_ctx.defs
        demo_rcv_def zc_mlen_def ctx_ok_def)
qed (simp add: demo_snd_def rtc_ctx.defs demo_rtc_def uta_ctx.defs)

section \<open>From the sender to the receiver\<close>

lemma carries_rd: "carries raw (take n b) \<Longrightarrow> n \<le> length b \<Longrightarrow> p + k \<le> n \<Longrightarrow> mem_rd raw p k = mem_rd b p k"
proof -
  assume a: "carries raw (take n b)" "n \<le> length b" "p + k \<le> n"
  then have "take n raw = take n b" "n \<le> length raw" by (simp_all add: carries_def min_absorb2)
  then have "take k (drop p (take n raw)) = take k (drop p (take n b))" by simp
  then have "take k (drop p raw) = take k (drop p b)" using a(3) by (simp add: drop_take min_absorb1)
  with a \<open>n \<le> length raw\<close> show ?thesis by (simp add: mem_rd_def)
qed

text \<open>The bytes of a sent message are one complete message of the stream.\<close>

lemma sent_framed:
  assumes "sent_buf m b b2 l1 l2 l3 n" and "n = int N" and "330 \<le> N" "N \<le> length b" "N < 2 ^ 31 - 128"
  shows "split_msgs (take N b2) = ([take N b2], []) \<and> sizes_ok (take N b2)"
proof -
  have l: "length (take N b2) = N" using assms by (simp add: sent_buf_def)
  have "extract_mlen b2 = Some (of_nat N)" using assms by (simp add: sent_buf_def)
  moreover have "extract_mlen (take N b2) = extract_mlen b2" by (rule extract_mlen_cong) (use l assms(3) in \<open>auto intro!: carries_rd simp: carries_def mem_rd_def drop_take\<close>)
  ultimately have m: "mlen_of (take N b2) = N" using assms(5) by (simp add: mlen_of_def unat_of_nat_small)
  have "split_msgs (drop N (take N b2)) = ([], [])" "sizes_ok (drop N (take N b2))" using l by (simp_all add: split_msgs_short sizes_ok.simps)
  then show ?thesis using l m assms(3,5) by (simp add: split_msgs.simps [of "take N b2"] sizes_ok.simps [of "take N b2"] Let_def)
qed

lemma word_of_int_inj32:
  assumes "(word_of_int a :: u32) = word_of_int b" and "- (2 ^ 31) \<le> a" "a < 2 ^ 31" "- (2 ^ 31) \<le> b" "b < 2 ^ 31"
  shows "a = b"
  using sint_word_of_int_small [of a] sint_word_of_int_small [of b] assms by metis

text \<open>What the receiver makes of a buffer that starts with the bytes of message \<open>m\<close>.\<close>

definition same_message :: "mbuf \<Rightarrow> bytes \<Rightarrow> mbuf \<Rightarrow> bytes \<Rightarrow> nat \<Rightarrow> nat \<Rightarrow> nat \<Rightarrow> bool" where
  "same_message m b mb raw l1 l2 l3 \<longleftrightarrow> mbuf_ok mb raw l1 l2 l3 \<and> m_state mb = RMR_OK \<and> m_mtype mb = m_mtype m \<and> m_sub_id mb = m_sub_id m \<and>
     m_len mb = m_len m \<and> mem_rd raw 58 68 = mem_rd b 58 68 \<and> mem_rd raw 190 52 = mem_rd b 190 52 \<and>
     (\<forall>p k. 330 \<le> p \<longrightarrow> p + k \<le> 330 + l1 + l2 + l3 + nat (m_len m) \<longrightarrow> mem_rd raw p k = mem_rd b p k)"

lemma receive_sent:
  assumes sb: "sent_buf m b b2 l1 l2 l3 (int N)" and N: "N = 330 + l1 + l2 + l3 + nat (m_len m)" "N \<le> length b" and len: "0 \<le> m_len m"
    and i32: "- (2 ^ 31) \<le> m_mtype m" "m_mtype m < 2 ^ 31" "- (2 ^ 31) \<le> m_sub_id m" "m_sub_id m < 2 ^ 31"
    and raw: "carries raw (take N b2)" "length raw < 2 ^ 31" and ok: "e_ok renv M_mbuf"
  shows "\<exists>mb rctx1. same_message m b mb raw l1 l2 l3 \<and> m_rts_fd mb = rfd \<and> mring rctx1 = mring rctx \<and> chutes rctx1 = chutes rctx \<and>
    buf2mbuf renv rctx (Some raw) (int (length raw)) rfd = deliver_mbuf renv rctx1 mb \<and> hdr_flags raw 50 = hdr_flags b 50"
proof -
  note sbs = sb [unfolded sent_buf_def]
  have b2: "N \<le> length b2" using sbs N by simp
  have rd: "mem_rd raw p k = mem_rd b2 p k" if "p + k \<le> N" for p k by (rule carries_rd [OF raw(1) b2 that])
  have L: "lens raw l1 l2 l3" using sbs rd [of 246 4] rd [of 250 4] rd [of 254 4] rd [of 258 4] N(1) by (simp add: lens_def get32_def)
  have g: "get32 raw 50 = Some (word_of_int (m_mtype m))" "get32 raw 262 = Some (word_of_int (m_sub_id m))" "get32 raw 54 = Some (of_nat (nat (m_len m)))"
    using sbs rd [of 50 4] rd [of 262 4] rd [of 54 4] N(1) len by (simp_all add: get32_def)
  have fit: "330 + l1 + l2 + l3 + nat (m_len m) \<le> length raw" using raw(1) b2 N(1) by (simp add: carries_def min_absorb2)
  obtain mb rctx1 where mb: "mbuf_ok mb raw l1 l2 l3" "m_len mb = int (nat (m_len m))" "m_state mb = RMR_OK" "m_rts_fd mb = rfd"
    "get32 raw 50 = Some (word_of_int (m_mtype mb))" "get32 raw 262 = Some (word_of_int (m_sub_id mb))"
    "- (2 ^ 31) \<le> m_mtype mb" "m_mtype mb < 2 ^ 31" "- (2 ^ 31) \<le> m_sub_id mb" "m_sub_id mb < 2 ^ 31"
    "mring rctx1 = mring rctx" "chutes rctx1 = chutes rctx" "buf2mbuf renv rctx (Some raw) (int (length raw)) rfd = deliver_mbuf renv rctx1 mb"
    using buf2mbuf_builds [OF L refl _ g(3) ok fit, of rfd rctx] raw(2) by auto
  have "m_mtype mb = m_mtype m" "m_sub_id mb = m_sub_id m"
    using word_of_int_inj32 [of "m_mtype mb" "m_mtype m"] word_of_int_inj32 [of "m_sub_id mb" "m_sub_id m"] g mb i32 by auto
  then have "same_message m b mb raw l1 l2 l3" unfolding same_message_def
    using mb(1-3) len sbs rd [of 58 68] rd [of 190 52] rd N(1) by simp
  moreover have "hdr_flags raw 50 = hdr_flags b 50" using sbs rd [of 242 4] N(1) by (simp add: hdr_flags_def)
  ultimately show ?thesis using mb by blast
qed

text \<open>A plain message: it is for the receive ring.\<close>

definition plain_msg :: "bytes \<Rightarrow> nat \<Rightarrow> nat \<Rightarrow> bool" where
  "plain_msg b l1 l2 \<longleftrightarrow> (\<exists>fl. hdr_flags b 50 = Some fl \<and> (fl AND HFL_CALL_MSG \<noteq> 0 \<or> l2 = 0 \<or> b ! (330 + l1) = 0))"

definition has_room :: "rcv_env \<Rightarrow> 'a rcv_ctx_scheme \<Rightarrow> bool" where
  "has_room renv rctx \<longleftrightarrow> e_ok renv M_mbuf \<and> ring_wf (mring rctx) \<and> (wgate (mring rctx) \<longrightarrow> e_lock renv) \<and> length (chutes rctx) = 256 \<and>
     length (ring_list (mring rctx)) < ring_capacity (mring rctx)"

lemma receive_plain:
  assumes sb: "sent_buf m b b2 l1 l2 l3 (int N)" and N: "N = 330 + l1 + l2 + l3 + nat (m_len m)" "N \<le> length b" and len: "0 \<le> m_len m"
    and i32: "- (2 ^ 31) \<le> m_mtype m" "m_mtype m < 2 ^ 31" "- (2 ^ 31) \<le> m_sub_id m" "m_sub_id m < 2 ^ 31"
    and raw: "carries raw (take N b2)" "length raw < 2 ^ 31" and pl: "plain_msg b l1 l2" and room: "has_room renv rctx"
  shows "\<exists>mb rctx'. buf2mbuf renv rctx (Some raw) (int (length raw)) rfd = Some rctx' \<and>
    ring_list (mring rctx') = ring_list (mring rctx) @ [Some mb] \<and> same_message m b mb raw l1 l2 l3 \<and> m_rts_fd mb = rfd"
proof -
  note R = room [unfolded has_room_def]
  obtain mb rctx1 where mb: "same_message m b mb raw l1 l2 l3" "m_rts_fd mb = rfd" "mring rctx1 = mring rctx" "chutes rctx1 = chutes rctx"
    "buf2mbuf renv rctx (Some raw) (int (length raw)) rfd = deliver_mbuf renv rctx1 mb" "hdr_flags raw 50 = hdr_flags b 50"
    using receive_sent [OF sb N len i32 raw, of renv rfd rctx] R by blast
  have ok: "mbuf_ok mb raw l1 l2 l3" using mb(1) by (simp add: same_message_def)
  have "l2 = 0 \<or> raw ! (330 + l1) = b ! (330 + l1)"
  proof (rule disjCI)
    assume "raw ! (330 + l1) \<noteq> b ! (330 + l1)"
    moreover have "mem_rd raw (330 + l1) 1 = mem_rd b (330 + l1) 1" if "l2 \<noteq> 0" using mb(1) that by (simp add: same_message_def)
    moreover have "330 + l1 + l2 \<le> length raw" "330 + l1 + l2 \<le> length b" using mbuf_ok_bound [OF ok] N by simp_all
    ultimately show "l2 = 0" by (auto simp: mem_rd_def take_Suc hd_drop_conv_nth neq_Nil_conv Cons_nth_drop_Suc [symmetric])
  qed
  then have "deliver_mbuf renv rctx1 mb = queue_normal renv rctx1 mb"
    using deliver_mbuf_routes [OF ok _ _ refl, of _ rctx1 renv] mb pl R by (auto simp: plain_msg_def)
  moreover obtain c cs where "chutes rctx1 = c # cs" using R mb(4) by (metis length_0_conv list.exhaust zero_neq_numeral)
  ultimately show ?thesis using queue_normal_accounts [of rctx1 renv c cs mb] R mb by auto
qed

text \<open>A send that is reported as good has put one framed message on the connection.\<close>

lemma send_ok_bytes:
  assumes "mbuf_ok m b l1 l2 l3" and "0 \<le> m_len m" and "330 + int l1 + int l2 + int l3 + m_len m \<le> m_alloc_len m" and "m_alloc_len m < 2 ^ 31 - 128"
    and "can_send env ctx l1" and "send_msg env ctx m fd retries = Some ((mo, e), ctx')" and "map_option m_state mo \<in> {None, Some RMR_OK}"
    and "sent_on fd (os_log (si_ctx ctx')) = sent_on fd (os_log (si_ctx ctx)) @ w" and N: "N = 330 + l1 + l2 + l3 + nat (m_len m)"
  shows "\<exists>b2. sent_buf m b b2 l1 l2 l3 (int N) \<and> N \<le> length b \<and> w = take N b2 \<and> split_msgs w = ([w], []) \<and> sizes_ok w"
proof -
  have n: "N \<le> length b" "int N = min (330 + int l1 + int l2 + int l3 + m_len m) (m_alloc_len m)" "330 \<le> N" "N < 2 ^ 31 - 128"
    using assms(1-4) by (auto simp: mbuf_ok_def N)
  have lt: "330 + int l1 + int l2 + int l3 + m_len m < 2 ^ 31" using assms(3,4) by simp
  obtain b2 oc g w' where s: "ctx' = ctx\<lparr>si_ctx := g\<rparr>" "sent_buf m b b2 l1 l2 l3 (int N)"
    "sent_on fd (os_log g) = sent_on fd (os_log (si_ctx ctx)) @ w'" "on_wire oc (take (nat (int N)) b2) w'" "after_send ctx (m\<lparr>m_tp_buf := Some b2\<rparr>) retries oc mo e"
    using send_msg_ok [OF assms(1,2) lt assms(5) n(2), of fd retries] assms(6) by auto
  have "oc = Sent" using assms(7) after_send_good [OF s(5)] by blast
  then have "w = take N b2" using s(1,3,4) assms(8) by (simp add: on_wire_def)
  then show ?thesis using s(2) n(1) sent_framed [OF s(2) refl n(3,1,4)] by blast
qed

text \<open>
  C2. From sender to receiver: when \<^verbatim>\<open>send_msg\<close> reports success for a plain message, the bytes on the
  connection are one complete message of the stream, and a receiver whose callback hands them
  to \<^verbatim>\<open>buf2mbuf\<close> in any accumulator finds as the new last element of its receive ring a message
  with the same type, subscription id, length, transaction id, managed entity id, trace data and
  payload.
\<close>

theorem send_receive_roundtrip:
  assumes "mbuf_ok m b l1 l2 l3" and "0 \<le> m_len m" and "330 + int l1 + int l2 + int l3 + m_len m \<le> m_alloc_len m" and "m_alloc_len m < 2 ^ 31 - 128"
    and "- (2 ^ 31) \<le> m_mtype m" "m_mtype m < 2 ^ 31" "- (2 ^ 31) \<le> m_sub_id m" "m_sub_id m < 2 ^ 31" and "can_send env ctx l1"
    and "plain_msg b l1 l2" and "has_room renv rctx"
  shows "\<exists>mo e g w. send_msg env ctx m fd retries = Some ((mo, e), ctx\<lparr>si_ctx := g\<rparr>) \<and>
    sent_on fd (os_log g) = sent_on fd (os_log (si_ctx ctx)) @ w \<and>
    (map_option m_state mo \<in> {None, Some RMR_OK} \<longrightarrow>
      int (length w) = 330 + int l1 + int l2 + int l3 + m_len m \<and> split_msgs w = ([w], []) \<and> sizes_ok w \<and>
      (\<forall>raw. carries raw w \<and> length raw < 2 ^ 31 \<longrightarrow>
        (\<exists>mb rctx'. buf2mbuf renv rctx (Some raw) (int (length raw)) rfd = Some rctx' \<and>
          ring_list (mring rctx') = ring_list (mring rctx) @ [Some mb] \<and> same_message m b mb raw l1 l2 l3 \<and> m_rts_fd mb = rfd)))"
proof -
  define N where "N = 330 + l1 + l2 + l3 + nat (m_len m)"
  have lt: "330 + int l1 + int l2 + int l3 + m_len m < 2 ^ 31" using assms(3,4) by simp
  obtain mo e g w where s: "send_msg env ctx m fd retries = Some ((mo, e), ctx\<lparr>si_ctx := g\<rparr>)"
    "sent_on fd (os_log g) = sent_on fd (os_log (si_ctx ctx)) @ w"
    using send_msg_ok [OF assms(1,2) lt assms(9) refl, of fd retries] by blast
  have "int (length w) = 330 + int l1 + int l2 + int l3 + m_len m \<and> split_msgs w = ([w], []) \<and> sizes_ok w \<and> (\<forall>raw. carries raw w \<and> length raw < 2 ^ 31 \<longrightarrow>
      (\<exists>mb rctx'. buf2mbuf renv rctx (Some raw) (int (length raw)) rfd = Some rctx' \<and>
        ring_list (mring rctx') = ring_list (mring rctx) @ [Some mb] \<and> same_message m b mb raw l1 l2 l3 \<and> m_rts_fd mb = rfd))"
    if st: "map_option m_state mo \<in> {None, Some RMR_OK}"
  proof -
    obtain b2 where b2: "sent_buf m b b2 l1 l2 l3 (int N)" "N \<le> length b" "w = take N b2" "split_msgs w = ([w], [])" "sizes_ok w"
      using send_ok_bytes [OF assms(1-4,9) s(1) st _ N_def, of w] s(2) by auto
    moreover have "int (length w) = 330 + int l1 + int l2 + int l3 + m_len m" using b2 assms(2) by (simp add: sent_buf_def N_def)
    ultimately show ?thesis using receive_plain [OF b2(1) N_def b2(2) assms(2,5-8) _ _ assms(10,11)] by blast
  qed
  with s show ?thesis by blast
qed

text \<open>The example message has no call flag and call id 0.\<close>

lemma demo_plain: "plain_msg demo_buf 4 4"
proof -
  have z: "get_le32 (replicate 4 0) = 0" by (simp add: get_le32_def numeral_eq_Suc)
  have "hdr_flags demo_buf 50 = Some 0" by (simp add: demo_buf_def hdr_flags_def mem_rd_def z)
  moreover have "demo_buf ! 334 = 0" by (simp add: demo_buf_def nth_append)
  ultimately show ?thesis by (simp add: plain_msg_def)
qed

text \<open>A send whose first attempt succeeds.\<close>

lemma send_msg_first_try:
  assumes "mbuf_ok m b l1 l2 l3" "0 \<le> m_len m" "330 + int l1 + int l2 + int l3 + m_len m < 2 ^ 31" and can: "can_send env ctx l1"
    and "n = min (330 + int l1 + int l2 + int l3 + m_len m) (m_alloc_len m)"
    and fst_try: "\<And>b2. length b2 = length b \<Longrightarrow> \<exists>e g. SIsendt (n_si (s_rt env)) (si_ctx ctx) fd b2 n = Some ((SI_OK, e), g)"
    and r: "send_msg env ctx m fd retries = Some ((mo, e), ctx')"
  shows "map_option m_state mo \<in> {None, Some RMR_OK}"
proof -
  obtain b2 where b2: "sent_buf m b b2 l1 l2 l3 n" "mbuf_wf (m\<lparr>m_tp_buf := Some b2, m_state := RMR_OK\<rparr>)"
    "send_msg env ctx m fd retries = do {
      r \<leftarrow> send_loop (\<lambda>g. SIsendt (n_si (s_rt env)) g fd b2 n) (si_ctx ctx) (if retries = 0 then 100 else 1000) (if retries = 0 then 1 else retries);
      send_done env (ctx\<lparr>si_ctx := snd r\<rparr>) (m\<lparr>m_tp_buf := Some b2\<rparr>) (int l1) (fst r) }"
    using send_msg_run [OF assms(1-3,5), of env ctx fd retries] by blast
  obtain e1 g where "SIsendt (n_si (s_rt env)) (si_ctx ctx) fd b2 n = Some ((SI_OK, e1), g)" using fst_try [of b2] b2(1) by (auto simp: sent_buf_def)
  then have "send_msg env ctx m fd retries = send_done env (ctx\<lparr>si_ctx := g\<rparr>) (m\<lparr>m_tp_buf := Some b2\<rparr>) (int l1) (0, RMR_OK, e1)"
    unfolding b2(3) by (simp add: send_loop.simps)
  with send_done_ok [OF can b2(2), of g 0 e1 retries] r show ?thesis using after_send_good by fastforce
qed

definition demo_fast :: snd_env where
  "demo_fast = demo_senv\<lparr>s_rt := demo_rt_env\<lparr>n_si := demo_si\<lparr>o_send := (\<lambda>_. (338, E0))\<rparr>\<rparr>\<rparr>"

lemma demo_fast_sends:
  assumes "length b2 = length demo_buf"
  shows "\<exists>e g. SIsendt (n_si (s_rt demo_fast)) (si_ctx demo_snd) 5 b2 338 = Some ((SI_OK, e), g)"
  using assms length_demo_buf demo_can_send(2)
  by (simp add: SIsendt_def demo_fast_def demo_si_def demo_two_def demo_gi_def demo_blk_def tp_of_fd_def sendt_loop.simps mem_rd_def)

lemma demo_fast_can: "can_send demo_fast demo_snd 4"
  using demo_can_send by (simp add: can_send_def demo_fast_def demo_senv_def send_progress_def)

theorem send_msg_once_witness:
  "\<exists>mo e g. send_msg demo_fast demo_snd demo_msg 5 1 = Some ((mo, e), demo_snd\<lparr>si_ctx := g\<rparr>) \<and>
     length (sent_on 5 (os_log g)) = 338 \<and> sent_on 6 (os_log g) = [] \<and> map_option m_state mo = Some RMR_OK"
proof -
  have z: "sent_on fd (os_log demo_two) = []" for fd by (simp add: demo_two_def demo_gi_def sent_on_def)
  from send_msg_once [OF demo_msg_ok _ _ demo_fast_can, of 5 1]
  obtain b2 oc mo e g w where r: "send_msg demo_fast demo_snd demo_msg 5 1 = Some ((mo, e), demo_snd\<lparr>si_ctx := g\<rparr>)"
    "sent_buf demo_msg demo_buf b2 4 4 0 338" "sent_on 5 (os_log g) = w" "others_quiet 5 demo_two g" "on_wire oc (take 338 b2) w"
    "after_send demo_snd (demo_msg\<lparr>m_tp_buf := Some b2\<rparr>) 1 oc mo e" "oc = Sent \<longleftrightarrow> map_option m_state mo \<in> {None, Some RMR_OK}"
    unfolding demo_can_send(2) z append_Nil demo_msg_fields by (simp add: min_def del: insert_iff) blast
  have "map_option m_state mo \<in> {None, Some RMR_OK}"
    by (rule send_msg_first_try [OF demo_msg_ok _ _ demo_fast_can _ _ r(1)]) (use demo_fast_sends in \<open>simp_all add: min_def\<close>)
  then have "oc = Sent" using r(7) by blast
  moreover have "m_flags demo_msg = 0" by (simp add: demo_msg_def zero_mbuf_def)
  ultimately have "w = take 338 b2" "map_option m_state mo = Some RMR_OK" using r(5,6) by (auto simp: on_wire_def after_send_def)
  moreover have "sent_on 6 (os_log g) = []" using r(4) z by (simp add: others_quiet_def)
  ultimately show ?thesis using r(1-3) length_demo_buf by (auto simp: sent_buf_def)
qed

theorem send_receive_roundtrip_witness:
  "\<exists>(g :: unit ginfo_blk) w. sent_on 5 (os_log g) = w \<and> split_msgs w = ([w], []) \<and>
     (\<exists>mb. same_message demo_msg demo_buf mb w 4 4 0 \<and> m_rts_fd mb = 7)"
proof -
  let ?rctx = "demo_rcv\<lparr>chutes := replicate 256 \<lparr>ch_mbuf = None, ch_barrier = 0, ch_expect = []\<rparr>\<rparr>"
  have room: "has_room demo_env ?rctx"
    using demo_ctx_ok(2) by (simp add: has_room_def demo_rcv_def demo_env_def demo_ctx_def pool_ok_def ring_list_def ring_count_def ring_capacity_def)
  have f: "m_mtype demo_msg = 0" "m_sub_id demo_msg = 0" by (simp_all add: demo_msg_def zero_mbuf_def)
  note can = demo_fast_can
  obtain mo e g w where r: "send_msg demo_fast demo_snd demo_msg 5 1 = Some ((mo, e), demo_snd\<lparr>si_ctx := g\<rparr>)"
    "sent_on 5 (os_log g) = sent_on 5 (os_log (si_ctx demo_snd)) @ w"
    "map_option m_state mo \<in> {None, Some RMR_OK} \<longrightarrow> int (length w) = 338 \<and> split_msgs w = ([w], []) \<and> sizes_ok w \<and>
      (\<forall>raw. carries raw w \<and> length raw < 2 ^ 31 \<longrightarrow>
        (\<exists>mb rctx'. buf2mbuf demo_env ?rctx (Some raw) (int (length raw)) 7 = Some rctx' \<and>
          ring_list (mring rctx') = ring_list (mring ?rctx) @ [Some mb] \<and> same_message demo_msg demo_buf mb raw 4 4 0 \<and> m_rts_fd mb = 7))"
    using send_receive_roundtrip [OF demo_msg_ok _ _ _ _ _ _ _ can demo_plain room, of 5 1 7] f unfolding demo_msg_fields by (simp, blast)
  have w: "sent_on 5 (os_log g) = w" using r(2) demo_can_send(2) by (simp add: demo_two_def demo_gi_def sent_on_def)
  have "map_option m_state mo \<in> {None, Some RMR_OK}"
    by (rule send_msg_first_try [OF demo_msg_ok _ _ can _ _ r(1)]) (use demo_fast_sends in \<open>simp_all add: min_def\<close>)
  then have "int (length w) = 338" "split_msgs w = ([w], [])" and q: "carries w w \<and> length w < 2 ^ 31 \<longrightarrow> (\<exists>mb. same_message demo_msg demo_buf mb w 4 4 0 \<and> m_rts_fd mb = 7)"
    using r(3) by blast+
  then show ?thesis using w by (intro exI [of _ g] exI [of _ w]) (auto simp: carries_def)
qed

section \<open>The number of attempts of a send\<close>

text \<open>
  C33. How often a send is tried, on a connected descriptor.  Let \<open>N\<close> be 1000 for each retry when
  \<^verbatim>\<open>retries > 0\<close>, 100 for \<^verbatim>\<open>retries = 0\<close> and 1 for a negative number of retries.  When the connection is
  not writable for the first \<open>k < N\<close> attempts and writable for the next, \<^verbatim>\<open>send_msg\<close> makes exactly
  \<open>k + 1\<close> attempts and reports the outcome of that write (one that takes all of the message, or fails).
  When it is not writable for \<open>N\<close> attempts, exactly \<open>N\<close> are made, nothing is written, and the
  message is returned as blocked.  Each attempt is one \<^verbatim>\<open>select\<close>; \<open>os_n\<close> counts the system calls.
  (The manual of \<^verbatim>\<open>rmr_set_stimeout\<close> promises a single attempt for 0, where the code makes up to 100.)
\<close>

theorem send_attempts:
  assumes "mbuf_ok m b l1 l2 l3" and "0 \<le> m_len m" and "330 + int l1 + int l2 + int l3 + m_len m < 2 ^ 31" and can: "can_send env ctx l1"
    and n: "n = min (330 + int l1 + int l2 + int l3 + m_len m) (m_alloc_len m)"
    and N: "N = (if retries = 0 then 100 else if retries < 0 then 1 else nat (1000 * retries))"
    and si: "si = n_si (s_rt env)" and k0: "k0 = os_n (si_ctx ctx)" and c: "connected (si_ctx ctx) fd"
    and k: "k \<le> N" "\<forall>j < k. select_rc si (k0 + j) \<le> 0"
    and x: "o_send si (k0 + k + 1) = (x, ex)"
    and w: "k < N \<longrightarrow> 0 < select_rc si (k0 + k) \<and> fd \<notin> set (select_ex si (k0 + k)) \<and> (x = n \<or> x < 0)"
  shows "\<exists>b2 oc mo e g. send_msg env ctx m fd retries = Some ((mo, e), ctx\<lparr>si_ctx := g\<rparr>) \<and> sent_buf m b b2 l1 l2 l3 n \<and>
    after_send ctx (m\<lparr>m_tp_buf := Some b2\<rparr>) retries oc mo e \<and>
    (if k = N then oc = Blocked \<and> os_n g = k0 + N \<and> sent_on fd (os_log g) = sent_on fd (os_log (si_ctx ctx))
     else oc = (if x < 0 then Failed ex else Sent) \<and> os_n g = k0 + k + 2 \<and>
          sent_on fd (os_log g) = sent_on fd (os_log (si_ctx ctx)) @ (if x < 0 then [] else take (nat n) b2))"
proof -
  let ?spin = "if retries = 0 then 100 else 1000 :: int" and ?r = "if retries = 0 then 1 else retries"
  have Nt: "N = max_tries ?spin ?r" by (auto simp: N max_tries_def)
  obtain b2 where sb: "sent_buf m b b2 l1 l2 l3 n" and nb: "0 < n" "nat n \<le> length b2" and wf: "mbuf_wf (m\<lparr>m_tp_buf := Some b2, m_state := RMR_OK\<rparr>)"
    and run: "send_msg env ctx m fd retries = do { r \<leftarrow> send_loop (\<lambda>g. SIsendt si g fd b2 n) (si_ctx ctx) ?spin ?r;
      send_done env (ctx\<lparr>si_ctx := snd r\<rparr>) (m\<lparr>m_tp_buf := Some b2\<rparr>) (int l1) (fst r) }"
    using send_msg_run [OF assms(1-3) n, of env ctx fd retries] unfolding si by blast
  let ?m = "m\<lparr>m_tp_buf := Some b2\<rparr>"
  obtain g1 where g1: "blocked_run (\<lambda>g. SIsendt si g fd b2 n) (si_ctx ctx) k = Some g1" "connected g1 fd" "os_n g1 = k0 + k" "os_log g1 = os_log (si_ctx ctx)"
    using sendt_blocked_run [OF c, of k si b2 n] k(2) unfolding k0 by blast
  show ?thesis
  proof (cases "k = N")
    case True
    obtain e where "send_loop (\<lambda>g. SIsendt si g fd b2 n) (si_ctx ctx) ?spin ?r = Some ((if ?r > 0 then SI_ERR_BLOCKED else 0, SI_ERR_BLOCKED, e), g1)"
      using loop_exhausted [OF g1(1)] True Nt by blast
    moreover have "e = EBUSY"
      using tp.loop_writes_once [of si "si_ctx ctx" n b2 fd ?spin ?r] calculation can nb unfolding can_send_def si by auto
    ultimately have "send_msg env ctx m fd retries = send_done env (ctx\<lparr>si_ctx := g1\<rparr>) ?m (int l1) (if ?r > 0 then SI_ERR_BLOCKED else 0, SI_ERR_BLOCKED, EBUSY)"
      using run by simp
    then obtain mo e where "send_msg env ctx m fd retries = Some ((mo, e), ctx\<lparr>si_ctx := g1\<rparr>)" "after_send ctx ?m retries Blocked mo e"
      using send_done_blocked [of env "ctx\<lparr>si_ctx := g1\<rparr>" ?m "int l1" retries ctx] by metis
    then show ?thesis using True g1 sb by (intro exI [of _ b2] exI [of _ Blocked] exI [of _ mo] exI [of _ e] exI [of _ g1]) simp
  next
    case False
    then have kN: "k < N" using k(1) by simp
    obtain g2 where g2: "SIsendt si g1 fd b2 n = Some ((if x < 0 then SI_ERROR else SI_OK, if x < 0 then ex else E0), g2)" "os_n g2 = os_n g1 + 2"
      "sent_on fd (os_log g2) = sent_on fd (os_log g1) @ (if x < 0 then [] else take (nat n) b2)"
      using sendt_writable [OF g1(2) _ _ nb, of si x ex] w kN x g1(3) by auto
    have "send_loop (\<lambda>g. SIsendt si g fd b2 n) (si_ctx ctx) ?spin ?r = Some ((0, if x < 0 then SI_ERROR else RMR_OK, if x < 0 then ex else E0), g2)"
      using loop_stops [OF g1(1) g2(1), of ?spin ?r] kN Nt by (auto split: if_splits)
    then have "send_msg env ctx m fd retries = send_done env (ctx\<lparr>si_ctx := g2\<rparr>) ?m (int l1) (0, if x < 0 then SI_ERROR else RMR_OK, if x < 0 then ex else E0)"
      using run by simp
    then obtain mo e where "send_msg env ctx m fd retries = Some ((mo, e), ctx\<lparr>si_ctx := g2\<rparr>)" "after_send ctx ?m retries (if x < 0 then Failed ex else Sent) mo e"
      using send_done_ok [OF can wf, of g2 0 E0 retries] send_done_failed [of env "ctx\<lparr>si_ctx := g2\<rparr>" ?m "int l1" ex ctx retries] by (cases "x < 0") auto
    then show ?thesis using False g1 g2 sb
      by (intro exI [of _ b2] exI [of _ "if x < 0 then Failed ex else Sent"] exI [of _ mo] exI [of _ e] exI [of _ g2]) simp
  qed
qed

text \<open>An example: blocked twice, then writable.\<close>

definition demo_slow :: snd_env where
  "demo_slow = demo_fast\<lparr>s_rt := demo_rt_env\<lparr>n_si := demo_si\<lparr>o_send := (\<lambda>_. (338, E0)), o_select := (\<lambda>k. ((if k < 2 then 0 else 1, E0), [], [], []))\<rparr>\<rparr>\<rparr>"

theorem send_attempts_witness:
  "\<exists>mo e g. send_msg demo_slow demo_snd demo_msg 5 0 = Some ((mo, e), demo_snd\<lparr>si_ctx := g\<rparr>) \<and> os_n g = 4 \<and> length (sent_on 5 (os_log g)) = 338"
proof -
  have can: "can_send demo_slow demo_snd 4" using demo_can_send by (simp add: can_send_def demo_slow_def demo_fast_def demo_senv_def send_progress_def)
  have c: "connected demo_two 5" "os_n demo_two = 0" "sent_on 5 (os_log demo_two) = []"
    by (simp_all add: connected_def demo_two_def demo_gi_def demo_blk_def sent_on_def)
  have "\<exists>b2 oc mo e g. send_msg demo_slow demo_snd demo_msg 5 0 = Some ((mo, e), demo_snd\<lparr>si_ctx := g\<rparr>) \<and> sent_buf demo_msg demo_buf b2 4 4 0 338 \<and>
     after_send demo_snd (demo_msg\<lparr>m_tp_buf := Some b2\<rparr>) 0 oc mo e \<and>
     (if 2 = (100 :: nat) then oc = Blocked \<and> os_n g = 0 + 100 \<and> sent_on 5 (os_log g) = sent_on 5 (os_log (si_ctx demo_snd))
      else oc = (if (338 :: int) < 0 then Failed E0 else Sent) \<and> os_n g = 0 + 2 + 2 \<and>
           sent_on 5 (os_log g) = sent_on 5 (os_log (si_ctx demo_snd)) @ (if (338 :: int) < 0 then [] else take (nat 338) b2))"
    by (rule send_attempts [OF demo_msg_ok _ _ can _ _ refl])
      (use c demo_can_send(2) in \<open>simp_all add: demo_slow_def select_rc_def select_ex_def demo_rt_env_def\<close>)
  then obtain b2 mo e g where "send_msg demo_slow demo_snd demo_msg 5 0 = Some ((mo, e), demo_snd\<lparr>si_ctx := g\<rparr>)" "length b2 = 354" "os_n g = 4"
    "sent_on 5 (os_log g) = take 338 b2" using c demo_can_send(2) length_demo_buf by (auto simp: sent_buf_def)
  then show ?thesis by (intro exI [of _ mo] exI [of _ e] exI [of _ g]) simp
qed

end
