(* ===== verification/Mtosend.thy ===== *)
theory Mtosend
  imports Send_Inv
begin

text \<open>
  Correctness of \<^verbatim>\<open>mtosend_msg\<close>: the composition of the route table, the round robin choice of an
  endpoint, the send on its connection and the counters of the endpoint.
\<close>

section \<open>What does not touch the sender\<close>

lemma can_send_upd [simp]:
  fixes ctx :: "'a snd_ctx_scheme"
  shows "can_send env (put_rt ctx a t) l1 = can_send env ctx l1" "can_send env (ctx\<lparr>h_rtes := R\<rparr>) l1 = can_send env ctx l1"
  by (simp_all add: can_send_def zc_mlen_def ctx_ok_def pool_ok_def put_rt_def cong: if_cong)

lemma put_rt_fields [simp]:
  "h_rtes (put_rt c a t) = h_rtes c" "h_eps (put_rt c a t) = h_eps c" "si_ctx (put_rt c a t) = si_ctx c" "h_rts (put_rt c a t) = (h_rts c)(a \<mapsto> t)"
  by (simp_all add: put_rt_def)

lemma rr_ready_put_rt [simp]: "rr_ready (put_rt c a t) ra grp eps i = rr_ready c ra grp eps i"
  by (simp add: rr_ready_def)

section \<open>The choice of the endpoint\<close>

definition one_group :: "'a uta_ctx_scheme \<Rightarrow> addr \<Rightarrow> addr list \<Rightarrow> nat \<Rightarrow> bool" where
  "one_group c ra eps i \<longleftrightarrow> eps \<noteq> [] \<and> rr_ready c ra 0 eps i \<and> map_option nrrgroups (h_rtes c ra) = Some 1"

lemma one_group_put_rt [simp]: "one_group (put_rt c a t) ra eps i = one_group c ra eps i"
  by (simp add: one_group_def)

lemma pick_ep_one:
  fixes c :: "'a snd_ctx_scheme"
  assumes "one_group c ra eps i" and "h_eps c (eps ! (i mod length eps)) = Some e"
  shows "\<exists>R. pick_ep env c rt ra m 0 = Some ((False, Some (nn_sock e), Some (eps ! (i mod length eps))), c\<lparr>h_rtes := R\<rparr>)"
proof -
  from assms obtain r rrg where r: "h_rtes c ra = Some r" "nrrgroups r = 1" "length (rrgroups r) = 1" "rrgroups r ! 0 = Some rrg"
     "nused rrg = length eps" "length eps \<le> length (epts rrg)" "take (length eps) (epts rrg) = map Some eps" "unat (ep_idx rrg) = i" "eps \<noteq> []"
    and op: "\<forall>a\<in>set eps. \<exists>e. h_eps c a = Some e \<and> ep_open e" unfolding one_group_def rr_ready_def by auto
  let ?j = "i mod length eps"
  have j: "?j < length eps" using r(9) by simp
  then have ep: "epts rrg ! ?j = Some (eps ! ?j)" using r(7) by (metis nth_map nth_take)
  have e: "ep_open e" using op j assms(2) by (metis nth_mem option.inject)
  have so: "ep_socket (s_rt env) (c\<lparr>h_rtes := R\<rparr>) (eps ! ?j) True = Some (Some (nn_sock e), c\<lparr>h_rtes := R\<rparr>)" for R
    using e assms(2) by (simp add: ep_socket_def)
  have "c\<lparr>h_rtes := h_rtes c\<rparr> = c" by simp
  then have so0: "ep_socket (s_rt env) c (eps ! ?j) True = Some (Some (nn_sock e), c\<lparr>h_rtes := h_rtes c\<rparr>)" using so by metis
  show ?thesis
  proof (cases "length eps = 1")
    case True
    then show ?thesis using r ep j so0 by (intro exI [of _ "h_rtes c"]) (auto simp: pick_ep_def uta_epsock_rr_def)
  next
    case False
    then have n: "length eps \<noteq> Suc 0" "\<not> length (epts rrg) \<le> ?j" using j r(6) by linarith+
    show ?thesis using r ep j n so
      by (intro exI [of _ "(h_rtes c)(ra \<mapsto> r\<lparr>rrgroups := (rrgroups r)[0 := Some (rrg\<lparr>ep_idx := ep_idx rrg + 1\<rparr>)]\<rparr>)"])
        (simp add: pick_ep_def uta_epsock_rr_def put_rte_def Let_def)
  qed
qed

section \<open>The result and the counters\<close>

definition reported :: "mbuf \<Rightarrow> outcome \<Rightarrow> mbuf option \<Rightarrow> bool" where
  "reported m oc mo = (case oc of
      Sent \<Rightarrow> if m_flags m AND MFL_NOALLOC \<noteq> 0 then mo = None else map_option m_state mo = Some RMR_OK
    | _ \<Rightarrow> map_option m_state mo \<in> {Some RMR_ERR_RETRY, Some RMR_ERR_SENDFAILED})"

definition counted :: "endpoint \<Rightarrow> mbuf option \<Rightarrow> endpoint" where
  "counted e mo = (case mo of None \<Rightarrow> e
     | Some m \<Rightarrow> if m_state m = RMR_OK then e\<lparr>sc_good := sc_good e + 1\<rparr>
               else if m_state m = RMR_ERR_RETRY then e\<lparr>sc_trans := sc_trans e + 1\<rparr> else e\<lparr>sc_fail := sc_fail e + 1\<rparr>)"

lemma after_send_reported: "after_send ctx m retries oc mo e \<Longrightarrow> reported m oc mo"
  by (auto simp: after_send_def reported_def split: outcome.splits if_splits)

lemma reported_flags [simp]: "reported (m\<lparr>m_tp_buf := b\<rparr>) oc mo = reported m oc mo"
  by (simp add: reported_def cong: outcome.case_cong if_cong)

lemma reported_result: "reported m oc (send_result mo e 0) = reported m oc mo"
  by (cases mo) (simp_all add: reported_def send_result_def split: outcome.splits)

text \<open>One group: a single pass through the loop.\<close>

lemma group_loop_one:
  fixes c :: "'a snd_ctx_scheme"
  assumes og: "one_group c ra eps i" and a: "a = eps ! (i mod length eps)" and e: "h_eps c a = Some ep"
    and send: "\<And>R. \<exists>mo er g. send_msg env (c\<lparr>h_rtes := R\<rparr>) m (nn_sock ep) max_to = Some ((mo, er), c\<lparr>h_rtes := R, si_ctx := g\<rparr>) \<and> P mo er g"
  shows "\<exists>mo er g R. group_loop env c rt ra m 0 max_to e0 0 =
    Some ((mo, er, 0), c\<lparr>h_rtes := R, si_ctx := g, h_eps := (h_eps c)(a \<mapsto> counted ep mo)\<rparr>) \<and> P mo er g"
proof -
  obtain R where R: "pick_ep env c rt ra m 0 = Some ((False, Some (nn_sock ep), Some a), c\<lparr>h_rtes := R\<rparr>)"
    using pick_ep_one [OF og e [unfolded a], of env rt m] a by blast
  obtain mo er g where s: "send_msg env (c\<lparr>h_rtes := R\<rparr>) m (nn_sock ep) max_to = Some ((mo, er), c\<lparr>h_rtes := R, si_ctx := g\<rparr>)" "P mo er g"
    using send [of R] by blast
  have "(h_eps c)(a \<mapsto> ep) = h_eps c" using e by auto
  then have "send_group env (c\<lparr>h_rtes := R\<rparr>) m False (Some (nn_sock ep)) (Some a) max_to e0 0 =
      Some ((mo, er, 0), c\<lparr>h_rtes := R, si_ctx := g, h_eps := (h_eps c)(a \<mapsto> counted ep mo)\<rparr>)"
    using s(1) e by (cases mo) (simp_all add: send_group_def incr_ep_counts_def counted_def put_ep_def)
  with R s(2) show ?thesis by (subst group_loop.simps) auto
qed

section \<open>Sending by route\<close>

text \<open>The entry that a message is routed by: that of its subscription id and type, or that of its type
  alone.\<close>

definition route_of :: "'a uta_ctx_scheme \<Rightarrow> addr \<Rightarrow> int \<Rightarrow> int \<Rightarrow> addr option" where
  "route_of c ta sid mt = (if rt_find c ta sid mt \<noteq> None then rt_find c ta sid mt else rt_find c ta UNSET_SUBID mt)"

definition in_range :: "mbuf \<Rightarrow> bool" where
  "in_range m \<longleftrightarrow> - (2 ^ 31) \<le> m_sub_id m \<and> m_sub_id m < 2 ^ 31 \<and> - (2 ^ 31) \<le> m_mtype m \<and> m_mtype m < 2 ^ 31 \<and> (m_sub_id m, m_mtype m) \<noteq> (0, 0)"

text \<open>The look-up as \<^verbatim>\<open>mtosend_msg\<close> does it, between \<^verbatim>\<open>get_rt\<close> and \<^verbatim>\<open>release_rt\<close>.\<close>

lemma find_route:
  assumes inv: "rt_inv c" and t: "rtable c = Some ta" "h_rts c ta = Some t" and rng: "in_range m"
  shows "\<exists>h. get_rt c = Some (Some ta, put_rt c ta (t\<lparr>ref_count := ref_count t + 1\<rparr>)) \<and>
    uta_get_rte (put_rt c ta (t\<lparr>ref_count := ref_count t + 1\<rparr>)) (Some ta) (m_sub_id m) (m_mtype m) True =
      Some (route_of c ta (m_sub_id m) (m_mtype m), put_rt c ta (t\<lparr>ref_count := ref_count t + 1, rt_hash := h\<rparr>)) \<and>
    hash_ok h \<and> (\<forall>k. hget h k = hget (rt_hash t) k)"
proof -
  let ?t = "t\<lparr>ref_count := ref_count t + 1\<rparr>"
  have i: "rt_inv (put_rt c ta ?t)" using rt_inv_put [OF inv t(2), of ?t] rt_invD(2) [OF inv t(2)] by simp
  have v: "rt_find (put_rt c ta ?t) ta s y = rt_find c ta s y" for s y
    using rt_view_same [of "h_rts c" ta t ?t] t(2) by (simp add: rt_find_def)
  note R = rng [unfolded in_range_def]
  obtain h where "uta_get_rte (put_rt c ta ?t) (Some ta) (m_sub_id m) (m_mtype m) True =
      Some (if rt_find c ta (m_sub_id m) (m_mtype m) \<noteq> None \<or> \<not> True \<or> m_sub_id m = UNSET_SUBID then rt_find c ta (m_sub_id m) (m_mtype m)
            else rt_find c ta UNSET_SUBID (m_mtype m), put_rt (put_rt c ta ?t) ta (?t\<lparr>rt_hash := h\<rparr>))"
    "hash_ok h" "\<forall>k. hget h k = hget (rt_hash t) k"
    using get_rte_ok [OF i, of ta ?t "m_sub_id m" "m_mtype m" True, unfolded v] R by auto
  then show ?thesis using t by (intro exI [of _ h]) (auto simp: get_rt_def route_of_def put_rt_def)
qed

lemma release_held: "0 \<le> ref_count t \<Longrightarrow> h_rts c ta = Some (t\<lparr>ref_count := ref_count t + 1, rt_hash := h\<rparr>) \<Longrightarrow>
    release_rt c (Some ta) = Some (put_rt c ta (t\<lparr>rt_hash := h\<rparr>))"
  by (simp add: release_rt_def)

text \<open>
  C7. Sending by route, for an entry with exactly one round robin group, all of whose endpoints are
  connected (an entry with more groups fans out to one endpoint of each).  \<^verbatim>\<open>mtosend_msg\<close> on a message
  with such an entry (that of its subscription id and type, or of its type alone) makes one send to
  the endpoint whose turn it is: all of the message, a proper prefix or nothing goes to that endpoint's
  descriptor, according to the outcome, and nothing to any other descriptor; the returned message reports the outcome,
  exactly that endpoint's counter for the reported state goes up, and the reference count of the
  route table is what it was.
\<close>

theorem mtosend_by_route:
  assumes "rt_inv ctx" and "rtable ctx = Some ta" and "h_rts ctx ta = Some t" and "0 \<le> ref_count t"
    and "route_of ctx ta (m_sub_id m) (m_mtype m) = Some ra" and "in_range m"
    and "one_group ctx ra eps i" and "a = eps ! (i mod length eps)" and "h_eps ctx a = Some ep"
    and "mbuf_ok m b l1 l2 l3" and "0 \<le> m_len m" and "330 + int l1 + int l2 + int l3 + m_len m < 2 ^ 31" and "can_send env ctx l1"
  shows "\<exists>b2 oc mo e w ctx' h. mtosend_msg env (Some ctx) (Some m) max_to = Some ((mo, e), Some ctx') \<and>
    sent_buf m b b2 l1 l2 l3 (min (330 + int l1 + int l2 + int l3 + m_len m) (m_alloc_len m)) \<and>
    sent_on (nn_sock ep) (os_log (si_ctx ctx')) = sent_on (nn_sock ep) (os_log (si_ctx ctx)) @ w \<and> others_quiet (nn_sock ep) (si_ctx ctx) (si_ctx ctx') \<and>
    on_wire oc (take (nat (min (330 + int l1 + int l2 + int l3 + m_len m) (m_alloc_len m))) b2) w \<and> reported m oc mo \<and>
    h_eps ctx' = (h_eps ctx)(a \<mapsto> counted ep mo) \<and>
    h_rts ctx' = (h_rts ctx)(ta \<mapsto> t\<lparr>rt_hash := h\<rparr>) \<and> (\<forall>k. hget h k = hget (rt_hash t) k)"
proof -
  define n where "n = min (330 + int l1 + int l2 + int l3 + m_len m) (m_alloc_len m)"
  define fd where "fd = nn_sock ep"
  define P where "P mo (er :: errno) (g :: unit ginfo_blk) = (\<exists>b2 oc w. sent_buf m b b2 l1 l2 l3 n \<and> sent_on fd (os_log g) = sent_on fd (os_log (si_ctx ctx)) @ w \<and>
      on_wire oc (take (nat n) b2) w \<and> reported m oc mo \<and> others_quiet fd (si_ctx ctx) g)" for mo er g
  obtain h where h: "get_rt ctx = Some (Some ta, put_rt ctx ta (t\<lparr>ref_count := ref_count t + 1\<rparr>))"
    "uta_get_rte (put_rt ctx ta (t\<lparr>ref_count := ref_count t + 1\<rparr>)) (Some ta) (m_sub_id m) (m_mtype m) True =
      Some (Some ra, put_rt ctx ta (t\<lparr>ref_count := ref_count t + 1, rt_hash := h\<rparr>))" "\<forall>k. hget h k = hget (rt_hash t) k"
    using find_route [OF assms(1-3,6)] assms(5) by auto
  let ?c = "put_rt ctx ta (t\<lparr>ref_count := ref_count t + 1, rt_hash := h\<rparr>)"
  let ?to = "if max_to < 0 then send_retries ctx else max_to"
  have "\<exists>mo er g. send_msg env (?c\<lparr>h_rtes := R\<rparr>) m (nn_sock ep) ?to = Some ((mo, er), ?c\<lparr>h_rtes := R, si_ctx := g\<rparr>) \<and> P mo er g" for R
  proof -
    have can: "can_send env (?c\<lparr>h_rtes := R\<rparr>) l1" using assms(13) by simp
    have si: "si_ctx (?c\<lparr>h_rtes := R\<rparr>) = si_ctx ctx" by simp
    from send_msg_ok [OF assms(10-12) can n_def, of fd ?to, unfolded si]
    show ?thesis unfolding P_def fd_def using after_send_reported reported_flags by blast
  qed
  from group_loop_one [OF _ assms(8) _ this, of ra "Some ta" E0] assms(7,9)
  obtain mo er g R where gl: "group_loop env ?c (Some ta) ra m 0 ?to E0 0 =
    Some ((mo, er, 0), ?c\<lparr>h_rtes := R, si_ctx := g, h_eps := (h_eps ctx)(a \<mapsto> counted ep mo)\<rparr>)" and P: "P mo er g" by auto
  let ?c2 = "?c\<lparr>h_rtes := R, si_ctx := g, h_eps := (h_eps ctx)(a \<mapsto> counted ep mo)\<rparr>"
  have rel: "release_rt ?c2 (Some ta) = Some (put_rt ?c2 ta (t\<lparr>rt_hash := h\<rparr>))" by (rule release_held [OF assms(4)]) simp
  have hd: "m_header m = Some 50" using assms(10) by (simp add: mbuf_ok_def)
  have "mtosend_msg env (Some ctx) (Some m) max_to = Some ((send_result mo er 0, er), Some (put_rt ?c2 ta (t\<lparr>rt_hash := h\<rparr>)))"
    using h gl rel hd by (simp add: mtosend_msg_def)
  moreover have "counted ep (send_result mo er 0) = counted ep mo" by (cases mo) (simp_all add: counted_def send_result_def)
  moreover obtain b2 oc w where "sent_buf m b b2 l1 l2 l3 n" "sent_on fd (os_log g) = sent_on fd (os_log (si_ctx ctx)) @ w"
      "on_wire oc (take (nat n) b2) w" "reported m oc (send_result mo er 0)" "others_quiet fd (si_ctx ctx) g"
    using P by (auto simp: P_def reported_result)
  ultimately show ?thesis using h(3) unfolding n_def [symmetric] fd_def [symmetric]
    by (intro exI [of _ b2] exI [of _ oc] exI [of _ "send_result mo er 0"] exI [of _ er] exI [of _ w] exI [of _ "put_rt ?c2 ta (t\<lparr>rt_hash := h\<rparr>)"] exI [of _ h]) simp
qed

text \<open>
  C34. A message without a route is not sent: when the active table has no entry for the
  subscription id and type nor for the type alone (or there is no active table),
  \<^verbatim>\<open>mtosend_msg\<close> returns the same message with RMR_ERR_NOENDPT and ENXIO, the transport and the
  endpoints are untouched and the reference count of the table is what it was.
\<close>

theorem mtosend_no_route:
  assumes "rt_inv ctx" and "case rtable ctx of None \<Rightarrow> True | Some ta \<Rightarrow> route_of ctx ta (m_sub_id m) (m_mtype m) = None \<and> (\<exists>t. h_rts ctx ta = Some t \<and> 0 \<le> ref_count t)"
    and "in_range m" and "m_header m \<noteq> None"
  shows "\<exists>ctx'. mtosend_msg env (Some ctx) (Some m) max_to = Some ((Some (m\<lparr>m_state := RMR_ERR_NOENDPT, m_tp_state := ENXIO\<rparr>), ENXIO), Some ctx') \<and>
    si_ctx ctx' = si_ctx ctx \<and> h_eps ctx' = h_eps ctx \<and> h_rtes ctx' = h_rtes ctx \<and>
    (\<forall>ta. map_option ref_count (h_rts ctx' ta) = map_option ref_count (h_rts ctx ta))"
proof -
  obtain hd where hd: "m_header m = Some hd" using assms(4) by auto
  show ?thesis
  proof (cases "rtable ctx")
    case None
    then show ?thesis using hd by (simp add: mtosend_msg_def get_rt_def uta_get_rte_def release_rt_def)
  next
    case (Some ta)
    then obtain t where t: "h_rts ctx ta = Some t" "0 \<le> ref_count t" "route_of ctx ta (m_sub_id m) (m_mtype m) = None" using assms(2) by auto
    obtain h where h: "get_rt ctx = Some (Some ta, put_rt ctx ta (t\<lparr>ref_count := ref_count t + 1\<rparr>))"
      "uta_get_rte (put_rt ctx ta (t\<lparr>ref_count := ref_count t + 1\<rparr>)) (Some ta) (m_sub_id m) (m_mtype m) True =
        Some (None, put_rt ctx ta (t\<lparr>ref_count := ref_count t + 1, rt_hash := h\<rparr>))"
      using find_route [OF assms(1) Some t(1) assms(3)] t(3) by auto
    let ?c = "put_rt ctx ta (t\<lparr>ref_count := ref_count t + 1, rt_hash := h\<rparr>)"
    have rel: "release_rt ?c (Some ta) = Some (put_rt ?c ta (t\<lparr>rt_hash := h\<rparr>))" by (rule release_held [OF t(2)]) simp
    show ?thesis using h rel hd t(1) by (intro exI [of _ "put_rt ?c ta (t\<lparr>rt_hash := h\<rparr>)"]) (simp add: mtosend_msg_def)
  qed
qed

text \<open>An example: message type 7 goes to endpoint 2, which is connected on descriptor 5.\<close>

definition demo_ep :: endpoint where
  "demo_ep = \<lparr>ep_name = ''a:1'', ep_addr = None, nn_sock = 5, ep_open = True, sc_good = 0, sc_fail = 0, sc_trans = 0, ep_notify = True\<rparr>"

definition demo_routed :: snd_ctx where
  "demo_routed = demo_snd\<lparr>h_rts := [0 \<mapsto> \<lparr>rt_error = False, rt_hash = snd (rmr_sym_map all_ok demo_hash (build_rt_key (-1) 7) (Some 1)),
       rt_updates = 0, rt_mupdates = 0, ref_count = 0\<rparr>],
     h_rtes := [1 \<mapsto> \<lparr>rte_key = build_rt_key (-1) 7, rte_refs = 1, rte_mtype = 7, nrrgroups = 1,
       rrgroups = [Some \<lparr>ep_idx = 0, nused = 1, nendpts = 32, epts = Some 2 # replicate 31 None\<rparr>]\<rparr>],
     h_eps := [2 \<mapsto> demo_ep], h_next := 3\<rparr>"

lemma demo_routed_fields:
  "rtable demo_routed = Some 0" "si_ctx demo_routed = demo_two" "h_next demo_routed = 3" "h_eps demo_routed = [2 \<mapsto> demo_ep]"
  "h_rtes demo_routed = [1 \<mapsto> \<lparr>rte_key = build_rt_key (-1) 7, rte_refs = 1, rte_mtype = 7, nrrgroups = 1,
       rrgroups = [Some \<lparr>ep_idx = 0, nused = 1, nendpts = 32, epts = Some 2 # replicate 31 None\<rparr>]\<rparr>]"
  "h_rts demo_routed = [0 \<mapsto> \<lparr>rt_error = False, rt_hash = snd (rmr_sym_map all_ok demo_hash (build_rt_key (-1) 7) (Some 1)),
       rt_updates = 0, rt_mupdates = 0, ref_count = 0\<rparr>]"
  by (simp_all add: demo_routed_def demo_snd_def rtc_ctx.defs demo_rtc_def uta_ctx.defs demo_uta_def rcv_ctx.defs)

lemma demo_routed_view: "rt_view (h_rts demo_routed) = (\<lambda>t k. if t = 0 \<and> k = build_rt_key (-1) 7 then Some 1 else None)"
  and demo_routed_hash: "hash_ok (snd (rmr_sym_map all_ok demo_hash (build_rt_key (-1) 7) (Some 1)))"
proof -
  have nz: "build_rt_key (-1) 7 \<noteq> 0" using key_nonzero [of "-1" 7] by simp
  let ?h = "snd (rmr_sym_map all_ok demo_hash (build_rt_key (-1) 7) (Some 1))"
  have p: "?h = sym_putv demo_hash (KNum (build_rt_key (-1) 7)) (Some 1)" by (rule map_putv) (simp add: all_ok_def)
  show "hash_ok ?h" unfolding p by (rule hash_putv(1) [OF demo_hash_ok(1)]) (simp add: nz)
  have "hget ?h (KNum k) = (if k = build_rt_key (-1) 7 then Some 1 else None)" if "k \<noteq> 0" for k
    unfolding p using hash_putv(2) [OF demo_hash_ok(1), of "KNum (build_rt_key (-1) 7)" "KNum k" "Some 1"] that nz demo_hash_ok(2)
    by simp
  then show "rt_view (h_rts demo_routed) = (\<lambda>t k. if t = 0 \<and> k = build_rt_key (-1) 7 then Some 1 else None)"
    using nz by (auto simp: rt_view_def demo_routed_fields fun_eq_iff)
qed

lemma demo_routed_ok:
  shows "rt_inv demo_routed" and "one_group demo_routed 1 [2] 0" and "can_send demo_senv demo_routed 4"
    and "route_of demo_routed 0 (-1) 7 = Some 1" and "route_of demo_routed 0 (-1) 8 = None"
proof -
  let ?K = "build_rt_key (-1) 7"
  have rs: "ref_set (\<lambda>t k. if t = 0 \<and> k = ?K then Some 1 else None) 1 ?K = {0}" by (auto simp: ref_set_def)
  have "{t. (\<lambda>k. if t = 0 \<and> k = ?K then Some 1 else None) \<noteq> (Map.empty :: u64 \<Rightarrow> addr option)} \<subseteq> {0}" by auto
  then have "finite {t. (\<lambda>k. if t = 0 \<and> k = ?K then Some 1 else None) \<noteq> (Map.empty :: u64 \<Rightarrow> addr option)}" by (rule finite_subset) simp
  then have "refs_ok (h_rtes demo_routed) (rt_view (h_rts demo_routed))"
    unfolding refs_ok_def demo_routed_view by (auto simp: demo_routed_fields rs [simplified] split: if_splits)
  then show "rt_inv demo_routed" using demo_routed_hash by (auto simp: rt_inv_def demo_routed_fields split: if_splits)
  show "one_group demo_routed 1 [2] 0" by (simp add: one_group_def rr_ready_def demo_routed_fields demo_ep_def)
  have "can_send demo_senv demo_routed 4 = can_send demo_senv demo_snd 4"
    by (simp add: can_send_def demo_routed_def zc_mlen_def ctx_ok_def pool_ok_def cong: if_cong)
  then show "can_send demo_senv demo_routed 4" using demo_can_send(1) by simp
  show "route_of demo_routed 0 (-1) 7 = Some 1" by (simp add: route_of_def rt_find_def demo_routed_view)
  show "route_of demo_routed 0 (-1) 8 = None"
    using build_rt_key_eq [of "-1" 8 "-1" 7] by (simp add: route_of_def rt_find_def demo_routed_view)
qed

definition demo_typed :: "int \<Rightarrow> mbuf" where
  "demo_typed mt = demo_msg\<lparr>m_mtype := mt, m_sub_id := -1\<rparr>"

lemma demo_typed_ok: "mbuf_ok (demo_typed mt) demo_buf 4 4 0" "in_range (demo_typed 7)" "in_range (demo_typed 8)"
  using demo_msg_ok by (simp_all add: mbuf_ok_def demo_typed_def in_range_def)

declare sendt_loop.simps [code]
declare group_loop.simps [code]

lemma demo_routed_sent:
  "(case mtosend_msg demo_fast (Some demo_routed) (Some (demo_typed 7)) 1 of Some ((Some m, e), Some c) \<Rightarrow> m_state m = RMR_OK | _ \<Rightarrow> False)"
  by code_simp

theorem mtosend_by_route_witness:
  "\<exists>mo e ctx'. mtosend_msg demo_fast (Some demo_routed) (Some (demo_typed 7)) 1 = Some ((mo, e), Some ctx') \<and> map_option m_state mo = Some RMR_OK \<and>
     length (sent_on 5 (os_log (si_ctx ctx'))) = 338 \<and> sent_on 6 (os_log (si_ctx ctx')) = [] \<and>
     map_option sc_good (h_eps ctx' 2) = Some 1 \<and> map_option ref_count (h_rts ctx' 0) = Some 0"
proof -
  have l: "sent_on fd (os_log demo_two) = []" for fd by (simp add: demo_two_def demo_gi_def sent_on_def)
  have f: "m_mtype (demo_typed 7) = 7" "m_sub_id (demo_typed 7) = -1" "m_len (demo_typed 7) = 0" "m_alloc_len (demo_typed 7) = 354" "nn_sock demo_ep = 5" "sc_good demo_ep = 0"
    by (simp_all add: demo_typed_def demo_ep_def)
  have can: "can_send demo_fast demo_routed 4" using demo_routed_ok(3) by (simp add: can_send_def demo_fast_def demo_senv_def send_progress_def)
  obtain b2 oc mo e w ctx' h where r: "mtosend_msg demo_fast (Some demo_routed) (Some (demo_typed 7)) 1 = Some ((mo, e), Some ctx')"
    "sent_buf (demo_typed 7) demo_buf b2 4 4 0 338" "sent_on 5 (os_log (si_ctx ctx')) = w" "others_quiet 5 demo_two (si_ctx ctx')"
    "on_wire oc (take 338 b2) w" "reported (demo_typed 7) oc mo" "h_eps ctx' = (h_eps demo_routed)(2 \<mapsto> counted demo_ep mo)"
    "h_rts ctx' = (h_rts demo_routed)(0 \<mapsto> \<lparr>rt_error = False, rt_hash = h, rt_updates = 0, rt_mupdates = 0, ref_count = 0\<rparr>)"
    using mtosend_by_route [OF demo_routed_ok(1) demo_routed_fields(1) _ _ _ demo_typed_ok(2) demo_routed_ok(2) refl _ demo_typed_ok(1) _ _ can, of _ demo_ep 1]
      demo_routed_ok(4) f l by (auto simp: demo_routed_fields)
  have ok: "map_option m_state mo = Some RMR_OK" using demo_routed_sent r(1) by (auto split: option.splits)
  then have "oc = Sent" using r(6) by (auto simp: reported_def split: outcome.splits)
  then have "length w = 338" using r(2,5) length_demo_buf by (simp add: on_wire_def sent_buf_def)
  moreover have "map_option sc_good (h_eps ctx' 2) = Some 1" using r(7) ok f(6) by (auto simp: counted_def)
  moreover have "sent_on 6 (os_log (si_ctx ctx')) = []" using r(4) l by (simp add: others_quiet_def)
  ultimately show ?thesis using r(1,3,8) ok by simp
qed

theorem mtosend_no_route_witness:
  "\<exists>ctx'. mtosend_msg demo_senv (Some demo_routed) (Some (demo_typed 8)) 1 =
      Some ((Some (demo_typed 8\<lparr>m_state := RMR_ERR_NOENDPT, m_tp_state := ENXIO\<rparr>), ENXIO), Some ctx') \<and>
     os_log (si_ctx ctx') = [] \<and> map_option ref_count (h_rts ctx' 0) = Some 0"
proof -
  have f: "m_mtype (demo_typed 8) = 8" "m_sub_id (demo_typed 8) = -1" "m_header (demo_typed 8) = Some 50" by (simp_all add: demo_typed_def demo_msg_def)
  obtain ctx' where r: "mtosend_msg demo_senv (Some demo_routed) (Some (demo_typed 8)) 1 =
      Some ((Some (demo_typed 8\<lparr>m_state := RMR_ERR_NOENDPT, m_tp_state := ENXIO\<rparr>), ENXIO), Some ctx')"
    "si_ctx ctx' = demo_two" "\<forall>ta. map_option ref_count (h_rts ctx' ta) = map_option ref_count (h_rts demo_routed ta)"
    using mtosend_no_route [OF demo_routed_ok(1) _ demo_typed_ok(3), of demo_senv 1] demo_routed_ok(5) f by (auto simp: demo_routed_fields)
  have "map_option ref_count (h_rts ctx' 0) = Some 0" using r(3) [rule_format, of 0] by (simp add: demo_routed_fields)
  with r(1,2) show ?thesis by (intro exI [of _ ctx']) (simp add: demo_two_def demo_gi_def)
qed

end
