(* ===== verification/Wormhole.thy ===== *)
theory Wormhole
  imports Mtosend
begin

text \<open>
  Wormholes, \<^verbatim>\<open>src/src/rmr/common/src/wormholes.c\<close>: direct connections to an endpoint that a
  sender names by an id, the index in a table of endpoints.  \<^verbatim>\<open>rmr_wh_call\<close> is in \<open>Call\<close>.

  The table pointer is \<open>None\<close> after a failed reallocation.  The value of \<^verbatim>\<open>errno\<close> is not part of the
  results.  Shown here: an id that \<^verbatim>\<open>rmr_wh_open\<close> returns belongs to an open connection to the
  target and to no other, opening a target again gives the same id, other ids keep their
  endpoint, and a closed id is refused by all functions.
\<close>

section \<open>Model\<close>

definition wh_can_open :: "'a snd_ctx_scheme \<Rightarrow> string \<Rightarrow> bool" where
  "wh_can_open ctx target = True"

definition wh_init :: "mallocs \<Rightarrow> 'a snd_ctx_scheme option \<Rightarrow> int \<times> 'a snd_ctx_scheme option" where
  "wh_init ok vctx =
     (case vctx of None \<Rightarrow> (0, None)
      | Some ctx \<Rightarrow>
          if wormholes ctx \<noteq> None then (1, vctx)
          else if \<not> ok M_whm \<or> \<not> ok M_wheps then (0, vctx)
          else (1, Some (ctx\<lparr>wormholes := Some \<lparr>wh_nalloc = 16, wh_eps = Some (replicate 16 None)\<rparr>\<rparr>)))"

text \<open>The number of slots is raised before the reallocation; when it fails the table pointer is lost.\<close>

definition wh_extend :: "mallocs \<Rightarrow> wh_mgt \<Rightarrow> (int \<times> wh_mgt) option" where
  "wh_extend ok whm = do {
     eps \<leftarrow> wh_eps whm;
     (if ok M_wheps
      then Some (1, whm\<lparr>wh_nalloc := wh_nalloc whm + 16, wh_eps := Some (take (nat (wh_nalloc whm)) eps @ replicate 16 None)\<rparr>)
      else Some (0, whm\<lparr>wh_nalloc := wh_nalloc whm + 16, wh_eps := None\<rparr>)) }"

definition wh_nuke :: "'a snd_ctx_scheme option \<Rightarrow> 'a snd_ctx_scheme option" where
  "wh_nuke vctx = map_option (\<lambda>ctx. ctx\<lparr>wormholes := None\<rparr>) vctx"

text \<open>The loop over the slots from slot \<open>i\<close> on: whether the endpoint was found open (and the
  function returns), and the id.\<close>

fun wh_search :: "(addr \<Rightarrow> endpoint option) \<Rightarrow> addr \<Rightarrow> int \<Rightarrow> addr option list \<Rightarrow> int \<Rightarrow> int \<Rightarrow> (bool \<times> int) option" where
  "wh_search E ep nalloc [] i whid = (if i < nalloc then None else Some (False, whid))"
| "wh_search E ep nalloc (x # xs) i whid =
     (if i < nalloc
      then (let whid1 = (if whid = nalloc \<and> x = None then i else whid)
            in if x = Some ep then do { e \<leftarrow> E ep; Some (ep_open e, i) }
               else wh_search E ep nalloc xs (i + 1) whid1)
      else Some (False, whid))"

text \<open>The slots of the table as the functions access them: an index outside is a fault.\<close>

definition wh_slot :: "wh_mgt \<Rightarrow> int \<Rightarrow> addr option option" where
  "wh_slot whm i = do { eps \<leftarrow> wh_eps whm; if 0 \<le> i \<and> nat i < length eps then Some (eps ! nat i) else None }"

definition wh_store :: "wh_mgt \<Rightarrow> int \<Rightarrow> addr option \<Rightarrow> wh_mgt option" where
  "wh_store whm i v = do { eps \<leftarrow> wh_eps whm; if 0 \<le> i \<and> nat i < length eps then Some (whm\<lparr>wh_eps := Some (eps[nat i := v])\<rparr>) else None }"

text \<open>The end of \<^verbatim>\<open>rmr_wh_open\<close>, with the endpoint at hand.\<close>

definition wh_open_ep :: "snd_env \<Rightarrow> 'a snd_ctx_scheme \<Rightarrow> addr \<Rightarrow> (int \<times> 'a snd_ctx_scheme) option" where
  "wh_open_ep env ctx ep = do {
     whm \<leftarrow> wormholes ctx; eps \<leftarrow> wh_eps whm;
     f \<leftarrow> wh_search (h_eps ctx) ep (wh_nalloc whm) eps 0 (wh_nalloc whm);
     (if fst f then Some (snd f, ctx)
      else do {
        x \<leftarrow> (if snd f \<ge> wh_nalloc whm then wh_extend (n_ok (s_rt env)) whm else Some (1, whm));
        (if fst x = 0 then Some (-1, ctx\<lparr>wormholes := Some (snd x)\<rparr>)
         else do {
           l \<leftarrow> rt_link2_ep (s_rt env) (ctx\<lparr>wormholes := Some (snd x)\<rparr>) (Some ep);
           (if \<not> fst l then Some (-1, snd l)
            else do { w \<leftarrow> wh_store (snd x) (snd f) (Some ep); Some (snd f, (snd l)\<lparr>wormholes := Some w\<rparr>) }) }) }) }"

definition rmr_wh_open :: "snd_env \<Rightarrow> 'a snd_ctx_scheme option \<Rightarrow> string option \<Rightarrow> (int \<times> 'a snd_ctx_scheme option) option" where
  "rmr_wh_open env vctx target =
     (case (vctx, target) of
        (Some ctx, Some tg) \<Rightarrow>
          if tg = [] then Some (-1, vctx)
          else if \<not> wh_can_open ctx tg then Some (-1, vctx)
          else (case wh_init (n_ok (s_rt env)) vctx of
                  (rc, Some ctx1) \<Rightarrow>
                    if rc = 0 then Some (-1, Some ctx1)
                    else do {
                      rt \<leftarrow> get_rt ctx1;
                      (let (ep, c2) = rt_ensure_ep (s_rt env) (snd rt) (fst rt) (Some tg)
                       in do {
                         c3 \<leftarrow> release_rt c2 (fst rt);
                         (case ep of None \<Rightarrow> Some (-1, Some c3)
                          | Some a \<Rightarrow> do { r \<leftarrow> wh_open_ep env c3 a; Some (fst r, Some (snd r)) }) }) }
                | (rc, None) \<Rightarrow> Some (-1, None))
      | _ \<Rightarrow> Some (-1, vctx))"

text \<open>The checks that \<^verbatim>\<open>rmr_wh_send_msg\<close> and \<^verbatim>\<open>rmr_wh_call\<close> share: the state to report, or the
  endpoint of the id.\<close>

definition wh_check :: "'a snd_ctx_scheme \<Rightarrow> int \<Rightarrow> mbuf \<Rightarrow> (int + addr) option" where
  "wh_check ctx whid m =
     (case wormholes ctx of None \<Rightarrow> Some (Inl RMR_ERR_NOWHOPEN)
      | Some whm \<Rightarrow>
          if whid < 0 \<or> whid \<ge> wh_nalloc whm then Some (Inl RMR_ERR_WHID)
          else do {
            s \<leftarrow> wh_slot whm whid;
            (case s of None \<Rightarrow> Some (Inl RMR_ERR_WHID)
             | Some a \<Rightarrow> Some (if m_header m = None then Inl RMR_ERR_NOHDR else Inr a)) })"

text \<open>The endpoint is connected again when it is not open; the outcome is not looked at.\<close>

definition wh_reopen :: "snd_env \<Rightarrow> 'a snd_ctx_scheme \<Rightarrow> addr \<Rightarrow> 'a snd_ctx_scheme option" where
  "wh_reopen env ctx a = do {
     e \<leftarrow> h_eps ctx a;
     (if ep_open e then Some ctx else do { r \<leftarrow> rmr_wh_open env (Some ctx) (Some (ep_name e)); snd r }) }"

definition blot_call_id :: "mbuf \<Rightarrow> mbuf option" where
  "blot_call_id m = do {
     b \<leftarrow> m_tp_buf m; h \<leftarrow> m_header m; a \<leftarrow> DATA1_ADDR b h; b1 \<leftarrow> mem_wr b a [0];
     Some (m\<lparr>m_tp_buf := Some b1\<rparr>) }"

definition rmr_wh_send_msg :: "snd_env \<Rightarrow> 'a snd_ctx_scheme option \<Rightarrow> int \<Rightarrow> mbuf option \<Rightarrow> (mbuf option \<times> 'a snd_ctx_scheme option) option" where
  "rmr_wh_send_msg env vctx whid msg =
     (case (vctx, msg) of
        (_, None) \<Rightarrow> Some (None, vctx)
      | (None, Some m) \<Rightarrow> Some (Some (m\<lparr>m_state := RMR_ERR_BADARG\<rparr>), None)
      | (Some ctx, Some m) \<Rightarrow> do {
          k \<leftarrow> wh_check ctx whid m;
          (case k of Inl st \<Rightarrow> Some (Some (m\<lparr>m_state := st\<rparr>), vctx)
           | Inr a \<Rightarrow> do {
               m1 \<leftarrow> blot_call_id (m\<lparr>m_state := RMR_OK\<rparr>);
               c1 \<leftarrow> wh_reopen env ctx a;
               r \<leftarrow> send2ep env c1 a m1;
               Some (fst (fst r), Some (snd r)) }) })"

definition rmr_wh_close :: "'a snd_ctx_scheme option \<Rightarrow> int \<Rightarrow> 'a snd_ctx_scheme option option" where
  "rmr_wh_close vctx whid =
     (case vctx of None \<Rightarrow> Some None
      | Some ctx \<Rightarrow>
          (case wormholes ctx of None \<Rightarrow> Some vctx
           | Some whm \<Rightarrow>
               if wh_eps whm = None \<or> whid \<ge> wh_nalloc whm \<or> whid < 0 then Some vctx
               else do { w \<leftarrow> wh_store whm whid None; Some (Some (ctx\<lparr>wormholes := Some w\<rparr>)) }))"

definition rmr_wh_state :: "'a snd_ctx_scheme option \<Rightarrow> int \<Rightarrow> int option" where
  "rmr_wh_state vctx whid =
     (case vctx of None \<Rightarrow> Some RMR_ERR_BADARG
      | Some ctx \<Rightarrow>
          (case wormholes ctx of None \<Rightarrow> Some RMR_ERR_NOWHOPEN
           | Some whm \<Rightarrow>
               if whid < 0 \<or> whid \<ge> wh_nalloc whm then Some RMR_ERR_WHID
               else do {
                 s \<leftarrow> wh_slot whm whid;
                 (case s of None \<Rightarrow> Some RMR_ERR_WHID
                  | Some a \<Rightarrow> do { e \<leftarrow> h_eps ctx a; Some (if ep_open e then RMR_OK else RMR_ERR_NOENDPT) }) }))"

section \<open>Invariant\<close>

text \<open>The table has as many slots as it says, refers to live endpoints, and to each of them once.\<close>

definition eps_ok :: "(addr \<Rightarrow> endpoint option) \<Rightarrow> addr option list \<Rightarrow> bool" where
  "eps_ok E eps \<longleftrightarrow> (\<forall>a. Some a \<in> set eps \<longrightarrow> E a \<noteq> None) \<and>
     (\<forall>i j a. i < length eps \<longrightarrow> j < length eps \<longrightarrow> eps ! i = Some a \<longrightarrow> eps ! j = Some a \<longrightarrow> i = j)"

definition wh_inv :: "'a snd_ctx_scheme \<Rightarrow> bool" where
  "wh_inv ctx = (case wormholes ctx of None \<Rightarrow> True
     | Some whm \<Rightarrow> (\<exists>eps. wh_eps whm = Some eps \<and> wh_nalloc whm = int (length eps) \<and> eps_ok (h_eps ctx) eps))"

definition wh_ep :: "'a snd_ctx_scheme \<Rightarrow> int \<Rightarrow> addr option" where
  "wh_ep ctx i = (case wormholes ctx of None \<Rightarrow> None
     | Some whm \<Rightarrow> (case wh_slot whm i of None \<Rightarrow> None | Some s \<Rightarrow> s))"

lemma wh_search_ok:
  assumes "E ep = Some e" and "n = i + int (length xs)"
  shows "\<exists>f k. wh_search E ep n xs i w = Some (f, k) \<and>
    (if Some ep \<in> set xs then f = ep_open e \<and> i \<le> k \<and> nat (k - i) < length xs \<and> xs ! nat (k - i) = Some ep
     else \<not> f \<and> (if w \<noteq> n then k = w else k = n \<or> i \<le> k \<and> nat (k - i) < length xs \<and> xs ! nat (k - i) = None))"
  using assms(2)
proof (induction xs arbitrary: i w)
  case (Cons x xs)
  show ?case
  proof (cases "x = Some ep")
    case True
    then show ?thesis using assms(1) Cons.prems by simp
  next
    case False
    define w1 where "w1 = (if w = n \<and> x = None then i else w)"
    obtain f k where k: "wh_search E ep n xs (i + 1) w1 = Some (f, k)"
      "if Some ep \<in> set xs then f = ep_open e \<and> i + 1 \<le> k \<and> nat (k - (i + 1)) < length xs \<and> xs ! nat (k - (i + 1)) = Some ep
       else \<not> f \<and> (if w1 \<noteq> n then k = w1 else k = n \<or> i + 1 \<le> k \<and> nat (k - (i + 1)) < length xs \<and> xs ! nat (k - (i + 1)) = None)"
      using Cons.IH [of "i + 1" w1] Cons.prems by auto
    have s: "nat (k - i) = Suc (nat (k - (i + 1)))" if "i + 1 \<le> k" using that by linarith
    have "wh_search E ep n (x # xs) i w = Some (f, k)" using False k(1) Cons.prems by (simp add: w1_def)
    then show ?thesis using k(2) s False Cons.prems by (auto simp: w1_def split: if_splits)
  qed
qed auto

lemma link_ok:
  assumes "\<exists>xs. si_inv (si_ctx c) xs" and "h_eps c a = Some e"
  shows "\<exists>r e' g F. rt_link2_ep env c (Some a) = Some (r, c\<lparr>si_ctx := g, h_eps := (h_eps c)(a \<mapsto> e'), fd2ep := F\<rparr>) \<and>
    (\<exists>xs. si_inv g xs) \<and> ep_name e' = ep_name e \<and> r = ep_open e'"
proof -
  have id: "(h_eps c)(a \<mapsto> e) = h_eps c" using assms(2) by auto
  have upd: "c\<lparr>si_ctx := si_ctx c, h_eps := (h_eps c)(a \<mapsto> e), fd2ep := fd2ep c\<rparr> = c" unfolding id by simp
  show ?thesis
  proof (cases "ep_open e")
    case True
    then show ?thesis using assms upd
      by (intro exI [of _ True] exI [of _ e] exI [of _ "si_ctx c"] exI [of _ "fd2ep c"]) (simp add: rt_link2_ep_def)
  next
    case False
    obtain fd g where g: "SIconnect (n_si env) (si_ctx c) (take 511 (ep_name e)) = Some (fd, g)" "\<exists>xs. si_inv g xs"
      using assms(1) SIconnect_inv [of "si_ctx c" _ "n_si env" "take 511 (ep_name e)"] by blast
    show ?thesis
    proof (cases "CHR '':'' \<in> set (ep_name e)")
      case nocolon: False
      then show ?thesis using assms False
        by (intro exI [of _ False] exI [of _ "e\<lparr>ep_notify := False\<rparr>"] exI [of _ "si_ctx c"] exI [of _ "fd2ep c"])
          (simp add: rt_link2_ep_def uta_link2_def put_ep_def)
    next
      case True
      show ?thesis
      proof (cases "fd < 0")
        case neg: True
        then show ?thesis using assms False True g
          by (intro exI [of _ False] exI [of _ "e\<lparr>nn_sock := fd, ep_notify := False\<rparr>"] exI [of _ g] exI [of _ "fd2ep c"])
            (simp add: rt_link2_ep_def uta_link2_def put_ep_def)
      next
        case pos: False
        let ?F = "map_option (\<lambda>h. snd (rmr_sym_map (n_ok env) h (fd_key fd) (Some a))) (fd2ep c)"
        show ?thesis using assms False True g pos
          by (intro exI [of _ True] exI [of _ "e\<lparr>nn_sock := fd, ep_open := True, ep_notify := True\<rparr>"] exI [of _ g] exI [of _ ?F])
            (cases "fd2ep c"; simp add: rt_link2_ep_def uta_link2_def put_ep_def fd2ep_add_def)
      qed
    qed
  qed
qed

lemma wh_ep_nth:
  "wormholes ctx = Some whm \<Longrightarrow> wh_eps whm = Some eps \<Longrightarrow> wh_ep ctx i = (if 0 \<le> i \<and> nat i < length eps then eps ! nat i else None)"
  by (simp add: wh_ep_def wh_slot_def)

lemma eps_ok_mono: "eps_ok E eps \<Longrightarrow> (\<And>a. E a \<noteq> None \<Longrightarrow> E' a \<noteq> None) \<Longrightarrow> eps_ok E' eps"
  by (simp add: eps_ok_def)

lemma eps_ok_store:
  assumes "eps_ok E eps" and "k < length eps" and "Some a \<in> set eps \<longrightarrow> eps ! k = Some a" and "E a \<noteq> None"
  shows "eps_ok E (eps[k := Some a])"
  unfolding eps_ok_def
proof (intro conjI allI impI)
  fix b assume "Some b \<in> set (eps[k := Some a])"
  then have "b = a \<or> Some b \<in> set eps" using set_update_subset_insert [of eps k "Some a"] by blast
  then show "E b \<noteq> None" using assms by (auto simp: eps_ok_def)
next
  fix i j b assume ij: "i < length (eps[k := Some a])" "j < length (eps[k := Some a])" "eps[k := Some a] ! i = Some b" "eps[k := Some a] ! j = Some b"
  have other: "eps ! i \<noteq> Some a" if "i \<noteq> k" "i < length eps" for i
    using that assms(1-3) nth_mem [of i eps] unfolding eps_ok_def by metis
  from ij have l: "i < length eps" "j < length eps" by simp_all
  show "i = j"
  proof (cases "i = k \<or> j = k")
    case True
    then show ?thesis using ij l other by (metis nth_list_update_eq nth_list_update_neq)
  next
    case False
    then show ?thesis using ij l assms(1) unfolding eps_ok_def by (metis nth_list_update_neq)
  qed
qed

lemma eps_ok_clear: "eps_ok E eps \<Longrightarrow> eps_ok E (eps[k := None])"
proof -
  assume ok: "eps_ok E eps"
  have old: "eps ! i = Some a" if "i < length eps" "eps[k := None] ! i = Some a" for i a
    using that by (cases "i = k") simp_all
  have "Some a \<in> set (eps[k := None]) \<Longrightarrow> Some a \<in> set eps" for a using set_update_subset_insert [of eps k None] by blast
  with ok old show ?thesis unfolding eps_ok_def by simp
qed

lemma eps_ok_extend: "eps_ok E eps \<Longrightarrow> eps_ok E (eps @ replicate n None)"
  unfolding eps_ok_def by (auto simp: nth_append split: if_splits)

text \<open>The rest of \<^verbatim>\<open>rmr_wh_open\<close>: the endpoint gets a slot of its own and is connected, or nothing changes
  in the table.\<close>

definition opened :: "'a snd_ctx_scheme \<Rightarrow> addr \<Rightarrow> string \<Rightarrow> int \<Rightarrow> 'a snd_ctx_scheme \<Rightarrow> bool" where
  "opened ctx a name wid ctx' \<longleftrightarrow> wh_inv ctx' \<and>
     (if wid < 0 then wh_ep ctx' = wh_ep ctx
      else wh_ep ctx' = (wh_ep ctx)(wid := Some a) \<and> (\<exists>e. h_eps ctx' a = Some e \<and> ep_name e = name \<and> ep_open e))"

lemma wh_open_ep_ok:
  assumes inv: "wh_inv ctx" and W: "wormholes ctx = Some whm" and e: "h_eps ctx a = Some e" and ok: "n_ok (s_rt env) = all_ok"
    and si: "\<exists>xs. si_inv (si_ctx ctx) xs"
  shows "\<exists>id e' g F W'. wh_open_ep env ctx a = Some (id, ctx\<lparr>si_ctx := g, h_eps := (h_eps ctx)(a \<mapsto> e'), fd2ep := F, wormholes := W'\<rparr>) \<and>
    (\<exists>xs. si_inv g xs) \<and> ep_name e' = ep_name e \<and>
    opened ctx a (ep_name e) id (ctx\<lparr>si_ctx := g, h_eps := (h_eps ctx)(a \<mapsto> e'), fd2ep := F, wormholes := W'\<rparr>)"
proof -
  obtain eps where E: "wh_eps whm = Some eps" "wh_nalloc whm = int (length eps)" "eps_ok (h_eps ctx) eps" using inv W by (auto simp: wh_inv_def)
  obtain f k where k: "wh_search (h_eps ctx) a (wh_nalloc whm) eps 0 (wh_nalloc whm) = Some (f, k)"
    and kc: "if Some a \<in> set eps then f = ep_open e \<and> 0 \<le> k \<and> nat (k - 0) < length eps \<and> eps ! nat (k - 0) = Some a
       else \<not> f \<and> (if wh_nalloc whm \<noteq> wh_nalloc whm then k = wh_nalloc whm
         else k = wh_nalloc whm \<or> 0 \<le> k \<and> nat (k - 0) < length eps \<and> eps ! nat (k - 0) = None)"
    using wh_search_ok [of "h_eps ctx" a e "wh_nalloc whm" 0 eps "wh_nalloc whm", OF e] E(2) by (metis add_0)
  have id: "(h_eps ctx)(a \<mapsto> e) = h_eps ctx" using e by auto
  show ?thesis
  proof (cases f)
    case True
    have same: "ctx\<lparr>si_ctx := si_ctx ctx, h_eps := (h_eps ctx)(a \<mapsto> e), fd2ep := fd2ep ctx, wormholes := wormholes ctx\<rparr> = ctx" unfolding id by simp
    have "opened ctx a (ep_name e) k ctx" using True kc e inv wh_ep_nth [OF W E(1)] by (auto simp: opened_def fun_eq_iff split: if_splits)
    then show ?thesis using True k W E(1) si same
      by (intro exI [of _ k] exI [of _ e] exI [of _ "si_ctx ctx"] exI [of _ "fd2ep ctx"] exI [of _ "wormholes ctx"]) (simp add: wh_open_ep_def)
  next
    case False
    define eps1 where "eps1 = (if k \<ge> wh_nalloc whm then eps @ replicate 16 None else eps)"
    define whm1 where "whm1 = (if k \<ge> wh_nalloc whm then whm\<lparr>wh_nalloc := wh_nalloc whm + 16, wh_eps := Some eps1\<rparr> else whm)"
    have x: "(if k \<ge> wh_nalloc whm then wh_extend (n_ok (s_rt env)) whm else Some (1, whm)) = Some (1, whm1)"
      using E ok by (simp add: wh_extend_def whm1_def eps1_def all_ok_def)
    have w1: "wh_eps whm1 = Some eps1" "wh_nalloc whm1 = int (length eps1)" "eps_ok (h_eps ctx) eps1"
      using E eps_ok_extend [OF E(3), of 16] by (simp_all add: whm1_def eps1_def)
    have kr: "0 \<le> k" "nat k < length eps1" "Some a \<in> set eps1 \<longrightarrow> eps1 ! nat k = Some a"
      using kc False E(2) by (auto simp: eps1_def nth_append split: if_splits)
    have slots: "(if 0 \<le> i \<and> nat i < length eps1 then eps1 ! nat i else None) = wh_ep ctx i" for i
      unfolding wh_ep_nth [OF W E(1)] by (auto simp: eps1_def nth_append)
    have hw: "h_eps (ctx\<lparr>wormholes := Some whm1\<rparr>) = h_eps ctx" "si_ctx (ctx\<lparr>wormholes := Some whm1\<rparr>) = si_ctx ctx" by simp_all
    obtain r e' g F where l: "rt_link2_ep (s_rt env) (ctx\<lparr>wormholes := Some whm1\<rparr>) (Some a) =
        Some (r, ctx\<lparr>wormholes := Some whm1, si_ctx := g, h_eps := (h_eps ctx)(a \<mapsto> e'), fd2ep := F\<rparr>)"
      "\<exists>xs. si_inv g xs" "ep_name e' = ep_name e" "r = ep_open e'"
      using link_ok [of "ctx\<lparr>wormholes := Some whm1\<rparr>" a e "s_rt env", unfolded hw, OF si e] by blast
    let ?c = "\<lambda>W. ctx\<lparr>si_ctx := g, h_eps := (h_eps ctx)(a \<mapsto> e'), fd2ep := F, wormholes := Some W\<rparr>"
    have mono: "eps_ok ((h_eps ctx)(a \<mapsto> e')) xs" if "eps_ok (h_eps ctx) xs" for xs by (rule eps_ok_mono [OF that]) simp
    show ?thesis
    proof (cases r)
      case no: False
      have "opened ctx a (ep_name e) (-1) (?c whm1)"
        using w1 mono slots by (auto simp: opened_def wh_inv_def wh_ep_nth [of "?c whm1" whm1 eps1] fun_eq_iff)
      then show ?thesis using no False k W E(1) x l
        by (intro exI [of _ "-1"] exI [of _ e'] exI [of _ g] exI [of _ F] exI [of _ "Some whm1"]) (simp add: wh_open_ep_def)
    next
      case True
      define whm2 where "whm2 = whm1\<lparr>wh_eps := Some (eps1[nat k := Some a])\<rparr>"
      have st: "wh_store whm1 k (Some a) = Some whm2" using kr w1 by (simp add: wh_store_def whm2_def)
      have w2: "eps_ok (h_eps ctx) (eps1[nat k := Some a])" using eps_ok_store [OF w1(3) kr(2,3)] e by simp
      have ep2: "wh_ep (?c whm2) i = (if 0 \<le> i \<and> nat i < length eps1 then eps1[nat k := Some a] ! nat i else None)" for i
        by (simp add: wh_ep_def wh_slot_def whm2_def)
      have "wh_ep (?c whm2) = (wh_ep ctx)(k := Some a)"
      proof
        fix i show "wh_ep (?c whm2) i = ((wh_ep ctx)(k := Some a)) i"
          unfolding ep2 slots [symmetric] using kr(1,2) by (cases "i = k") (auto simp: nth_list_update eq_nat_nat_iff)
      qed
      then have "opened ctx a (ep_name e) k (?c whm2)"
        using kr(1) w1 w2 mono True l by (simp add: opened_def wh_inv_def whm2_def)
      then show ?thesis using True False k W E(1) x l st
        by (intro exI [of _ k] exI [of _ e'] exI [of _ g] exI [of _ F] exI [of _ "Some whm2"]) (simp add: wh_open_ep_def)
    qed
  qed
qed

section \<open>Opening a wormhole\<close>

text \<open>The endpoint of a name: after \<^verbatim>\<open>rt_ensure_ep\<close> the name stays mapped to the endpoint that was returned.\<close>

lemma ensure_ep_known:
  assumes "hget (ephash c) (KStr 1 n) = Some a" and "hash_ok (ephash c)" and "n \<noteq> []"
  shows "\<exists>h. rt_ensure_ep env c (Some t) (Some n) = (Some a, c\<lparr>ephash := h\<rparr>) \<and> hash_ok h \<and> (\<forall>k. hget h k = hget (ephash c) k)"
  using assms hash_get [OF assms(2), of "KStr 1 n"] by (auto simp: rt_ensure_ep_def uta_get_ep_def hget_def split: prod.splits)

lemma ensure_ep_maps:
  assumes inv: "rt_inv c" and ep: "ep_inv c" and n: "n \<noteq> []" and ok: "n_ok env = all_ok" and r: "rt_ensure_ep env c (Some t) (Some n) = (Some a, c')"
  shows "hget (ephash c') (KStr 1 n) = Some a"
proof (cases "hget (ephash c) (KStr 1 n)")
  case (Some b)
  have "hash_ok (ephash c)" using ep by (simp add: ep_inv_def)
  with ensure_ep_known [OF Some this n, of env t] Some r show ?thesis by auto
next
  case None
  have hk: "hash_ok (ephash c)" using ep by (simp add: ep_inv_def)
  obtain h1 where h1: "rmr_sym_get (ephash c) (KStr 1 n) = (None, h1)" "hash_ok h1"
    using hash_get [OF hk, of "KStr 1 n"] None by (cases "rmr_sym_get (ephash c) (KStr 1 n)") (auto simp: hget_def)
  then have "ephash c' = sym_putv h1 (KStr 1 n) (Some a)"
    using r n ok by (auto simp: rt_ensure_ep_def uta_get_ep_def new_addr_def put_ep_def put_putv all_ok_def)
  then show ?thesis using hash_putv(2) [OF h1(2), of "KStr 1 n" "KStr 1 n" "Some a"] by simp
qed

text \<open>The state in which wormholes are used: a route table is active and the routing state, the
  transport and the wormhole table are consistent.\<close>

definition wh_ready :: "'a snd_ctx_scheme \<Rightarrow> bool" where
  "wh_ready ctx \<longleftrightarrow> wh_inv ctx \<and> rt_inv ctx \<and> ep_inv ctx \<and> (\<exists>xs. si_inv (si_ctx ctx) xs) \<and>
     (\<exists>ta t. rtable ctx = Some ta \<and> h_rts ctx ta = Some t \<and> 0 \<le> ref_count t)"

lemma wh_init_ready:
  assumes "wh_ready ctx"
  shows "\<exists>W. wh_init all_ok (Some ctx) = (1, Some (ctx\<lparr>wormholes := Some W\<rparr>)) \<and> wh_ready (ctx\<lparr>wormholes := Some W\<rparr>) \<and> wh_ep (ctx\<lparr>wormholes := Some W\<rparr>) = wh_ep ctx"
proof (cases "wormholes ctx")
  case None
  let ?W = "\<lparr>wh_nalloc = 16, wh_eps = Some (replicate 16 None)\<rparr>"
  have "wh_inv (ctx\<lparr>wormholes := Some ?W\<rparr>)" by (simp add: wh_inv_def eps_ok_def)
  moreover have "wh_ep (ctx\<lparr>wormholes := Some ?W\<rparr>) = wh_ep ctx" using None by (auto simp: wh_ep_def wh_slot_def fun_eq_iff)
  ultimately show ?thesis using assms None
    by (intro exI [of _ ?W]) (simp add: wh_init_def all_ok_def wh_ready_def rt_inv_def ep_inv_def)
next
  case (Some W)
  then have "ctx\<lparr>wormholes := Some W\<rparr> = ctx" "wh_init all_ok (Some ctx) = (1, Some ctx)" by (simp_all add: wh_init_def)
  then show ?thesis using assms by metis
qed

lemma ready_put:
  assumes r: "wh_ready ctx" and a: "h_eps ctx a = Some e" "ep_name e' = ep_name e" and si: "\<exists>xs. si_inv g xs"
    and w: "wh_inv (ctx\<lparr>si_ctx := g, h_eps := (h_eps ctx)(a \<mapsto> e'), fd2ep := F, wormholes := W\<rparr>)"
  shows "wh_ready (ctx\<lparr>si_ctx := g, h_eps := (h_eps ctx)(a \<mapsto> e'), fd2ep := F, wormholes := W\<rparr>)"
proof -
  let ?c = "ctx\<lparr>si_ctx := g, h_eps := (h_eps ctx)(a \<mapsto> e'), fd2ep := F, wormholes := W\<rparr>"
  have R: "rt_inv ctx" "ep_inv ctx" using r by (simp_all add: wh_ready_def)
  have "a < h_next ctx" using rt_invD(3) [OF R(1), of a] a(1) by fastforce
  then have "rt_inv ?c" using R(1) by (auto simp: rt_inv_def)
  moreover have "ep_inv ?c" unfolding ep_inv_def
  proof (intro conjI allI impI)
    show "hash_ok (ephash ?c)" using R(2) by (simp add: ep_inv_def)
    fix n b assume "hget (ephash ?c) (KStr 1 n) = Some b"
    then obtain x where "h_eps ctx b = Some x" "ep_name x = n" using R(2) by (auto simp: ep_inv_def)
    then show "\<exists>e. h_eps ?c b = Some e \<and> ep_name e = n" using a by (cases "b = a") auto
  next
    fix b r assume "h_rtes ?c b = Some r"
    then have "rte_ok (h_eps ctx) r" using R(2) by (simp add: ep_inv_def)
    then show "rte_ok (h_eps ?c) r" by (rule rte_ok_mono) simp
  next
    fix t rt m b assume "h_rts ?c t = Some rt" "hget (rt_hash rt) (KStr RT_ME_SPACE m) = Some b"
    then show "h_eps ?c b \<noteq> None" using R(2) by (auto simp: ep_inv_def)
  qed
  ultimately show ?thesis using r si w by (simp add: wh_ready_def)
qed

text \<open>The first half of \<^verbatim>\<open>rmr_wh_open\<close>: the endpoint of the target, the route table held and released.\<close>

lemma wh_find_ep:
  assumes r: "wh_ready ctx" and tg: "tg \<noteq> []" and ok: "n_ok env = all_ok"
  shows "\<exists>ta rt c2 c3 a e. get_rt ctx = Some (Some ta, rt) \<and> rt_ensure_ep env rt (Some ta) (Some tg) = (Some a, c2) \<and>
    release_rt c2 (Some ta) = Some c3 \<and> wh_ready c3 \<and> wormholes c3 = wormholes ctx \<and> h_eps c3 a = Some e \<and> ep_name e = tg \<and>
    hget (ephash c3) (KStr 1 tg) = Some a \<and> (\<forall>b x. h_eps ctx b = Some x \<longrightarrow> h_eps c3 b = Some x) \<and>
    (\<forall>b. hget (ephash ctx) (KStr 1 tg) = Some b \<longrightarrow> a = b)"
proof -
  obtain ta t where t: "rtable ctx = Some ta" "h_rts ctx ta = Some t" "0 \<le> ref_count t" using r by (auto simp: wh_ready_def)
  let ?t = "t\<lparr>ref_count := ref_count t + 1\<rparr>"
  let ?c1 = "put_rt ctx ta ?t"
  have R: "rt_inv ctx" "ep_inv ctx" "wh_inv ctx" using r by (simp_all add: wh_ready_def)
  have i1: "rt_inv ?c1" using rt_inv_put [OF R(1) t(2), of ?t] rt_invD(2) [OF R(1) t(2)] by simp
  have e1: "ep_inv ?c1" using R(2) t(2) unfolding ep_inv_def by (auto simp: put_rt_def)
  obtain a c2 e where n: "rt_ensure_ep env ?c1 (Some ta) (Some tg) = (Some a, c2)" "eframe ?c1 c2" "h_eps c2 a = Some e" "ep_name e = tg" "rt_inv c2" "ep_inv c2"
    using ensure_ep_ok [OF i1 e1 tg ok, of ta] by blast
  have m: "hget (ephash c2) (KStr 1 tg) = Some a" by (rule ensure_ep_maps [OF i1 e1 tg ok n(1)])
  have un: "a = b" if b: "hget (ephash ctx) (KStr 1 tg) = Some b" for b
    using ensure_ep_known [of ?c1 tg b env ta] b e1 tg n(1) by (auto simp: ep_inv_def put_rt_def)
  have c2: "c2 = ?c1\<lparr>h_eps := h_eps c2, h_next := h_next c2, ephash := ephash c2\<rparr>" and up: "\<forall>b x. h_eps ctx b = Some x \<longrightarrow> h_eps c2 b = Some x"
    using n(2) by (simp_all add: eframe_def)
  have f: "h_rts c2 ta = Some ?t" "wormholes c2 = wormholes ctx" "si_ctx c2 = si_ctx ctx" "rtable c2 = rtable ctx"
    by (subst c2, simp add: put_rt_def)+
  let ?c3 = "put_rt c2 ta t"
  have "release_rt c2 (Some ta) = Some ?c3" using f(1) t(3) by (simp add: release_rt_def)
  moreover have "rt_inv ?c3" using rt_inv_put [OF n(5) f(1), of t] rt_invD(2) [OF R(1) t(2)] by simp
  moreover have "ep_inv ?c3" using n(6) f(1) unfolding ep_inv_def by (auto simp: put_rt_def)
  moreover have "wh_inv ?c3" using R(3) f(2) up unfolding wh_inv_def by (auto simp: put_rt_def split: option.splits elim!: eps_ok_mono)
  ultimately have "release_rt c2 (Some ta) = Some ?c3 \<and> wh_ready ?c3"
    using r t f by (simp add: wh_ready_def put_rt_def)
  then show ?thesis using n m t up f un by (intro exI [of _ ta] exI [of _ ?c1] exI [of _ c2] exI [of _ ?c3] exI [of _ a] exI [of _ e])
      (simp add: get_rt_def put_rt_def)
qed

lemma wh_open_run:
  assumes r: "wh_ready ctx" and tg: "tg \<noteq> []" and ok: "n_ok (s_rt env) = all_ok"
  shows "\<exists>c3 a e whm. rmr_wh_open env (Some ctx) (Some tg) = do { x \<leftarrow> wh_open_ep env c3 a; Some (fst x, Some (snd x)) } \<and>
    wh_ready c3 \<and> wormholes c3 = Some whm \<and> wh_ep c3 = wh_ep ctx \<and> h_eps c3 a = Some e \<and> ep_name e = tg \<and>
    hget (ephash c3) (KStr 1 tg) = Some a \<and> (\<forall>b x. h_eps ctx b = Some x \<longrightarrow> h_eps c3 b = Some x) \<and>
    (\<forall>b. hget (ephash ctx) (KStr 1 tg) = Some b \<longrightarrow> a = b)"
proof -
  obtain W where W: "wh_init all_ok (Some ctx) = (1, Some (ctx\<lparr>wormholes := Some W\<rparr>))" "wh_ready (ctx\<lparr>wormholes := Some W\<rparr>)"
    "wh_ep (ctx\<lparr>wormholes := Some W\<rparr>) = wh_ep ctx" using wh_init_ready [OF r] by blast
  let ?c = "ctx\<lparr>wormholes := Some W\<rparr>"
  have u: "h_eps ?c = h_eps ctx" "ephash ?c = ephash ctx" "wormholes ?c = Some W" by simp_all
  from wh_find_ep [OF W(2) tg ok, unfolded u] obtain ta rt c2 c3 a e where f: "get_rt ?c = Some (Some ta, rt)"
    "rt_ensure_ep (s_rt env) rt (Some ta) (Some tg) = (Some a, c2)" "release_rt c2 (Some ta) = Some c3" "wh_ready c3" "wormholes c3 = Some W"
    "h_eps c3 a = Some e" "ep_name e = tg" "hget (ephash c3) (KStr 1 tg) = Some a" "\<forall>b x. h_eps ctx b = Some x \<longrightarrow> h_eps c3 b = Some x"
    "\<forall>b. hget (ephash ctx) (KStr 1 tg) = Some b \<longrightarrow> a = b" by blast
  have "rmr_wh_open env (Some ctx) (Some tg) = do { x \<leftarrow> wh_open_ep env c3 a; Some (fst x, Some (snd x)) }"
    using tg ok W(1) f(1-3) by (simp add: rmr_wh_open_def wh_can_open_def)
  moreover have "wh_ep c3 = wh_ep ctx" using f(5) W(3) by (simp add: wh_ep_def fun_eq_iff)
  ultimately show ?thesis using f by blast
qed

lemma wh_open_ep_again:
  assumes "wh_inv c" and "wh_ep c wid = Some a" and "h_eps c a = Some e" and "ep_open e"
  shows "wh_open_ep env c a = Some (wid, c)"
proof -
  obtain whm where W: "wormholes c = Some whm" using assms(2) by (auto simp: wh_ep_def split: option.splits)
  obtain eps where E: "wh_eps whm = Some eps" "wh_nalloc whm = int (length eps)" "eps_ok (h_eps c) eps" using assms(1) W by (auto simp: wh_inv_def)
  have wid: "0 \<le> wid" "nat wid < length eps" "eps ! nat wid = Some a" using assms(2) wh_ep_nth [OF W E(1), of wid] by (auto split: if_splits)
  then have "Some a \<in> set eps" by (metis nth_mem)
  then obtain k where k: "wh_search (h_eps c) a (wh_nalloc whm) eps 0 (wh_nalloc whm) = Some (True, k)" "0 \<le> k" "nat k < length eps" "eps ! nat k = Some a"
    using wh_search_ok [of "h_eps c" a e "wh_nalloc whm" 0 eps "wh_nalloc whm", OF assms(3)] E(2) assms(4) by auto
  have "nat k = nat wid" using E(3) k(3,4) wid(2,3) unfolding eps_ok_def by blast
  then have "k = wid" using k(2) wid(1) by linarith
  then show ?thesis using k(1) W E(1) by (simp add: wh_open_ep_def)
qed

text \<open>
  C23. Opening a wormhole.  In a consistent state \<^verbatim>\<open>rmr_wh_open\<close> ends in a consistent state and returns
  either a negative number and leaves every id as it was, or an id whose endpoint has the name
  of the target and is connected; every other id keeps its endpoint, \<^verbatim>\<open>rmr_wh_state\<close> reports the
  id as good, and opening the same target again gives the same id and changes no id.
\<close>

theorem wh_open_gives_open_id:
  assumes "wh_ready ctx" and "tg \<noteq> []" and "n_ok (s_rt env) = all_ok"
  shows "\<exists>wid ctx'. rmr_wh_open env (Some ctx) (Some tg) = Some (wid, Some ctx') \<and> wh_ready ctx' \<and>
    (if wid < 0 then wh_ep ctx' = wh_ep ctx
     else (\<exists>a e ctx2. wh_ep ctx' = (wh_ep ctx)(wid := Some a) \<and> h_eps ctx' a = Some e \<and> ep_name e = tg \<and> ep_open e \<and>
       rmr_wh_state (Some ctx') wid = Some RMR_OK \<and> rmr_wh_open env (Some ctx') (Some tg) = Some (wid, Some ctx2) \<and> wh_ep ctx2 = wh_ep ctx'))"
proof -
  obtain c3 a e whm where o: "rmr_wh_open env (Some ctx) (Some tg) = do { x \<leftarrow> wh_open_ep env c3 a; Some (fst x, Some (snd x)) }"
    "wh_ready c3" "wormholes c3 = Some whm" "wh_ep c3 = wh_ep ctx" "h_eps c3 a = Some e" "ep_name e = tg" "hget (ephash c3) (KStr 1 tg) = Some a"
    using wh_open_run [OF assms] by blast
  have "wh_inv c3" "\<exists>xs. si_inv (si_ctx c3) xs" using o(2) by (simp_all add: wh_ready_def)
  then obtain wid e' g F W where p: "wh_open_ep env c3 a = Some (wid, c3\<lparr>si_ctx := g, h_eps := (h_eps c3)(a \<mapsto> e'), fd2ep := F, wormholes := W\<rparr>)"
    "\<exists>xs. si_inv g xs" "ep_name e' = ep_name e" "opened c3 a tg wid (c3\<lparr>si_ctx := g, h_eps := (h_eps c3)(a \<mapsto> e'), fd2ep := F, wormholes := W\<rparr>)"
    using wh_open_ep_ok [OF _ o(3,5) assms(3)] o(6) by blast
  define ctx' where "ctx' = c3\<lparr>si_ctx := g, h_eps := (h_eps c3)(a \<mapsto> e'), fd2ep := F, wormholes := W\<rparr>"
  note q = p(4) [folded ctx'_def, unfolded opened_def]
  have rdy: "wh_ready ctx'" unfolding ctx'_def by (rule ready_put [OF o(2,5) p(3,2)]) (use q in \<open>simp add: ctx'_def\<close>)
  have run: "rmr_wh_open env (Some ctx) (Some tg) = Some (wid, Some ctx')" using o(1) p(1) by (simp add: ctx'_def)
  show ?thesis
  proof (cases "wid < 0")
    case True
    then show ?thesis using run rdy q o(4) by auto
  next
    case False
    then obtain x where x: "wh_ep ctx' = (wh_ep ctx)(wid := Some a)" "h_eps ctx' a = Some x" "ep_name x = tg" "ep_open x" using q o(4) by auto
    obtain c4 a2 where 4: "rmr_wh_open env (Some ctx') (Some tg) = do { x \<leftarrow> wh_open_ep env c4 a2; Some (fst x, Some (snd x)) }"
      "wh_ready c4" "wh_ep c4 = wh_ep ctx'" "\<forall>b x. h_eps ctx' b = Some x \<longrightarrow> h_eps c4 b = Some x" "\<forall>b. hget (ephash ctx') (KStr 1 tg) = Some b \<longrightarrow> a2 = b"
      using wh_open_run [OF rdy assms(2,3)] by blast
    have "a2 = a" using 4(5) o(7) by (simp add: ctx'_def)
    then have "rmr_wh_open env (Some ctx') (Some tg) = Some (wid, Some c4)"
      using 4 x wh_open_ep_again [of c4 wid a x env] by (simp add: wh_ready_def)
    moreover have "rmr_wh_state (Some ctx') wid = Some RMR_OK"
    proof -
      have wi: "wh_inv ctx'" using rdy by (simp add: wh_ready_def)
      obtain W' where W': "wormholes ctx' = Some W'" "wh_slot W' wid = Some (Some a)" using x(1) by (auto simp: wh_ep_def split: option.splits dest: fun_cong [of _ _ wid])
      then have "wid < wh_nalloc W'" "0 \<le> wid" using wi by (auto simp: wh_inv_def wh_slot_def split: if_splits)
      then show ?thesis using W' x by (simp add: rmr_wh_state_def)
    qed
    ultimately show ?thesis using run rdy False x 4(3) by auto
  qed
qed

section \<open>Sending and closing\<close>

lemma wh_ep_checked:
  assumes "wh_inv ctx"
  shows "wh_check ctx wid m = Some (case wh_ep ctx wid of
      None \<Rightarrow> Inl (if wormholes ctx = None then RMR_ERR_NOWHOPEN else RMR_ERR_WHID)
    | Some a \<Rightarrow> if m_header m = None then Inl RMR_ERR_NOHDR else Inr a)"
  using assms by (auto simp: wh_check_def wh_inv_def wh_ep_def wh_slot_def split: option.splits if_splits)

lemma blot_call_id_ok:
  assumes ok: "mbuf_ok m b l1 l2 l3" and d1: "0 < l2"
  shows "\<exists>b1. blot_call_id m = Some (m\<lparr>m_tp_buf := Some b1\<rparr>) \<and> mbuf_ok (m\<lparr>m_tp_buf := Some b1\<rparr>) b1 l1 l2 l3 \<and> length b1 = length b \<and>
    b1 ! (330 + l1) = 0 \<and> (\<forall>p n. p + n \<le> 330 + l1 \<or> 331 + l1 \<le> p \<longrightarrow> mem_rd b1 p n = mem_rd b p n)"
proof -
  have M: "m_tp_buf m = Some b" "m_header m = Some 50" and L: "lens b l1 l2 l3" using ok by (simp_all add: mbuf_ok_def)
  have len: "331 + l1 \<le> length b" using mbuf_ok_bound [OF ok] d1 by simp
  then obtain b1 where b1: "mem_wr b (330 + l1) [0] = Some b1" by (simp add: mem_wr_def)
  then have "length b1 = length b" "b1 ! (330 + l1) = 0" using len by (auto simp: mem_wr_def nth_append split: if_splits)
  moreover have f: "frame b b1 (330 + l1) (331 + l1)" using mem_wr_frame [OF b1] by simp
  moreover have "lens b1 l1 l2 l3" using lens_frame [OF L f] by simp
  ultimately show ?thesis using M ok b1 lens_rd(4) [OF L] frame_rd [OF f]
    by (intro exI [of _ b1]) (auto simp: blot_call_id_def mbuf_ok_def)
qed

text \<open>
  C24. Sending through an open wormhole writes the message at most once to the descriptor of the
  endpoint of the id, with no route involved: the call id is blotted out, everything else of the
  message is as the sender made it, nothing but the transport changes in the context, and the
  returned message reports the outcome.
\<close>

theorem wh_send_direct:
  assumes "wh_inv ctx" and "wh_ep ctx wid = Some a" and "h_eps ctx a = Some e" and "ep_open e"
    and "mbuf_ok m b l1 l2 l3" and "0 < l2" and "0 \<le> m_len m" and "330 + int l1 + int l2 + int l3 + m_len m < 2 ^ 31" and "can_send env ctx l1"
  shows "\<exists>b1 b2 oc mo g w. rmr_wh_send_msg env (Some ctx) wid (Some m) = Some (mo, Some (ctx\<lparr>si_ctx := g\<rparr>)) \<and>
    b1 ! (330 + l1) = 0 \<and> (\<forall>p n. p + n \<le> 330 + l1 \<or> 331 + l1 \<le> p \<longrightarrow> mem_rd b1 p n = mem_rd b p n) \<and>
    sent_buf m b1 b2 l1 l2 l3 (min (330 + int l1 + int l2 + int l3 + m_len m) (m_alloc_len m)) \<and>
    sent_on (nn_sock e) (os_log g) = sent_on (nn_sock e) (os_log (si_ctx ctx)) @ w \<and>
    on_wire oc (take (nat (min (330 + int l1 + int l2 + int l3 + m_len m) (m_alloc_len m))) b2) w \<and> reported m oc mo"
proof -
  have ok: "mbuf_ok (m\<lparr>m_state := RMR_OK\<rparr>) b l1 l2 l3" using assms(5) by (simp add: mbuf_ok_def)
  obtain b1 where b1: "blot_call_id (m\<lparr>m_state := RMR_OK\<rparr>) = Some (m\<lparr>m_state := RMR_OK, m_tp_buf := Some b1\<rparr>)"
    "mbuf_ok (m\<lparr>m_state := RMR_OK, m_tp_buf := Some b1\<rparr>) b1 l1 l2 l3" "b1 ! (330 + l1) = 0"
    "\<forall>p n. p + n \<le> 330 + l1 \<or> 331 + l1 \<le> p \<longrightarrow> mem_rd b1 p n = mem_rd b p n"
    using blot_call_id_ok [OF ok assms(6)] by blast
  let ?m = "m\<lparr>m_state := RMR_OK, m_tp_buf := Some b1\<rparr>"
  define n where "n = min (330 + int l1 + int l2 + int l3 + m_len m) (m_alloc_len m)"
  have n: "0 \<le> m_len ?m" "330 + int l1 + int l2 + int l3 + m_len ?m < 2 ^ 31" "n = min (330 + int l1 + int l2 + int l3 + m_len ?m) (m_alloc_len ?m)"
    using assms(7,8) by (simp_all add: n_def)
  obtain b2 oc mo er g w where s: "send_msg env ctx ?m (nn_sock e) (-1) = Some ((mo, er), ctx\<lparr>si_ctx := g\<rparr>)" "sent_buf ?m b1 b2 l1 l2 l3 n"
    "sent_on (nn_sock e) (os_log g) = sent_on (nn_sock e) (os_log (si_ctx ctx)) @ w" "on_wire oc (take (nat n) b2) w"
    "after_send ctx (?m\<lparr>m_tp_buf := Some b2\<rparr>) (-1) oc mo er"
    using send_msg_ok [OF b1(2) n(1,2) assms(9) n(3), of "nn_sock e" "-1"] by blast
  have "m_header m = Some 50" using assms(5) by (simp add: mbuf_ok_def)
  then have "rmr_wh_send_msg env (Some ctx) wid (Some m) = Some (mo, Some (ctx\<lparr>si_ctx := g\<rparr>))"
    using assms(2-4) wh_ep_checked [OF assms(1), of wid m] b1(1) s(1) by (simp add: rmr_wh_send_msg_def wh_reopen_def send2ep_def)
  moreover have "sent_buf m b1 b2 l1 l2 l3 n" using s(2) by (simp add: sent_buf_def)
  moreover have "reported m oc mo" using after_send_reported [OF s(5)] by (simp add: reported_def cong: outcome.case_cong if_cong)
  ultimately show ?thesis using b1(3,4) s(3,4) unfolding n_def [symmetric] by blast
qed

text \<open>
  C38. A closed id is refused.  \<^verbatim>\<open>rmr_wh_close\<close> frees the id and no other and keeps the table
  consistent; afterwards \<^verbatim>\<open>rmr_wh_state\<close> reports RMR_ERR_WHID for it, and \<^verbatim>\<open>rmr_wh_send_msg\<close> gives
  the message back with that state and changes nothing else.
\<close>

theorem wh_closed_refused:
  assumes "wh_inv ctx" and "wormholes ctx \<noteq> None"
  shows "\<exists>ctx'. rmr_wh_close (Some ctx) wid = Some (Some ctx') \<and> wh_inv ctx' \<and> wh_ep ctx' = (wh_ep ctx)(wid := None) \<and>
    rmr_wh_state (Some ctx') wid = Some RMR_ERR_WHID \<and>
    rmr_wh_send_msg env (Some ctx') wid (Some m) = Some (Some (m\<lparr>m_state := RMR_ERR_WHID\<rparr>), Some ctx')"
proof -
  obtain whm where W: "wormholes ctx = Some whm" using assms(2) by auto
  obtain eps where E: "wh_eps whm = Some eps" "wh_nalloc whm = int (length eps)" "eps_ok (h_eps ctx) eps" using assms(1) W by (auto simp: wh_inv_def)
  obtain ctx' where c: "rmr_wh_close (Some ctx) wid = Some (Some ctx')" "wh_inv ctx'" "wh_ep ctx' = (wh_ep ctx)(wid := None)" "wormholes ctx' \<noteq> None"
  proof (cases "0 \<le> wid \<and> wid < wh_nalloc whm")
    case True
    then have k: "nat wid < length eps" using E(2) by linarith
    let ?c = "ctx\<lparr>wormholes := Some (whm\<lparr>wh_eps := Some (eps[nat wid := None])\<rparr>)\<rparr>"
    have "wh_inv ?c" using E eps_ok_clear by (simp add: wh_inv_def)
    moreover have "wh_ep ?c i = ((wh_ep ctx)(wid := None)) i" for i
      using True W E k by (cases "i = wid") (auto simp: wh_ep_def wh_slot_def nth_list_update eq_nat_nat_iff)
    then have "wh_ep ?c = (wh_ep ctx)(wid := None)" ..
    ultimately show ?thesis using that [of ?c] True W E k by (auto simp: rmr_wh_close_def wh_store_def)
  next
    case False
    then have "wh_ep ctx wid = None" using wh_ep_nth [OF W E(1), of wid] E(2) by auto
    then have "(wh_ep ctx)(wid := None) = wh_ep ctx" by auto
    then show ?thesis using that [of ctx] False W assms(1) by (auto simp: rmr_wh_close_def)
  qed
  have none: "wh_ep ctx' wid = None" using c(3) by simp
  then have "rmr_wh_state (Some ctx') wid = Some RMR_ERR_WHID"
    using c(2,4) by (auto simp: rmr_wh_state_def wh_ep_def wh_inv_def wh_slot_def split: option.splits if_splits)
  moreover have "rmr_wh_send_msg env (Some ctx') wid (Some m) = Some (Some (m\<lparr>m_state := RMR_ERR_WHID\<rparr>), Some ctx')"
    using wh_ep_checked [OF c(2), of wid m] none c(4) by (simp add: rmr_wh_send_msg_def)
  ultimately show ?thesis using c by blast
qed

text \<open>An example: id 1 belongs to the endpoint with descriptor 5.\<close>

definition demo_wh :: snd_ctx where
  "demo_wh = demo_routed\<lparr>wormholes := Some \<lparr>wh_nalloc = 2, wh_eps = Some [None, Some 2]\<rparr>\<rparr>"

lemma demo_wh_ok: "wh_inv demo_wh" "wh_ep demo_wh 1 = Some 2" "h_eps demo_wh 2 = Some demo_ep" "ep_open demo_ep" "can_send demo_senv demo_wh 4"
  "wormholes demo_wh \<noteq> None" "si_ctx demo_wh = demo_two"
proof -
  show "wh_inv demo_wh" by (auto simp: wh_inv_def demo_wh_def eps_ok_def demo_routed_fields less_Suc_eq nth_Cons')
  have "can_send demo_senv demo_wh 4 = can_send demo_senv demo_routed 4"
    by (simp add: can_send_def demo_wh_def zc_mlen_def ctx_ok_def pool_ok_def cong: if_cong)
  then show "can_send demo_senv demo_wh 4" using demo_routed_ok(3) by simp
qed (simp_all add: demo_wh_def wh_ep_def wh_slot_def demo_routed_fields demo_ep_def)

theorem wh_send_direct_witness:
  "\<exists>oc mo g w. rmr_wh_send_msg demo_senv (Some demo_wh) 1 (Some demo_msg) = Some (mo, Some (demo_wh\<lparr>si_ctx := g\<rparr>)) \<and>
     sent_on 5 (os_log g) = w \<and> (oc = Sent \<longrightarrow> length w = 338) \<and> reported demo_msg oc mo"
proof -
  have l: "sent_on 5 (os_log demo_two) = []" by (simp add: demo_two_def demo_gi_def sent_on_def)
  have f: "nn_sock demo_ep = 5" by (simp add: demo_ep_def)
  obtain b1 b2 oc mo g w where r: "rmr_wh_send_msg demo_senv (Some demo_wh) 1 (Some demo_msg) = Some (mo, Some (demo_wh\<lparr>si_ctx := g\<rparr>))"
    "\<forall>p n. p + n \<le> 334 \<or> 335 \<le> p \<longrightarrow> mem_rd b1 p n = mem_rd demo_buf p n"
    "sent_buf demo_msg b1 b2 4 4 0 338" "sent_on 5 (os_log g) = w" "on_wire oc (take 338 b2) w" "reported demo_msg oc mo"
    using wh_send_direct [OF demo_wh_ok(1-4) demo_msg_ok _ _ _ demo_wh_ok(5)] demo_wh_ok(7) l f by auto
  have "mem_rd b1 353 1 = mem_rd demo_buf 353 1" using r(2) by simp
  then have "354 \<le> length b1" using length_demo_buf by (simp add: mem_rd_def split: if_splits)
  then have "length (take 338 b2) = 338" using r(3) by (simp add: sent_buf_def)
  with r show ?thesis by (intro exI [of _ oc] exI [of _ mo] exI [of _ g] exI [of _ w]) (auto simp: on_wire_def)
qed

theorem wh_closed_refused_witness:
  "\<exists>ctx'. rmr_wh_close (Some demo_wh) 1 = Some (Some ctx') \<and> wh_ep demo_wh 1 = Some 2 \<and> wh_ep ctx' 1 = None \<and>
     rmr_wh_state (Some ctx') 1 = Some RMR_ERR_WHID"
  using wh_closed_refused [OF demo_wh_ok(1,6), of 1 demo_senv demo_msg] demo_wh_ok(2) by auto

lemma demo_snd_ready: "wh_ready demo_snd"
proof -
  have f: "h_rts demo_snd = h_rts demo_rtc" "h_rtes demo_snd = h_rtes demo_rtc" "h_next demo_snd = h_next demo_rtc" "h_eps demo_snd = h_eps demo_rtc"
    "ephash demo_snd = ephash demo_rtc" "rtable demo_snd = rtable demo_rtc" "wormholes demo_snd = None"
    by (simp_all add: demo_snd_def rtc_ctx.defs)
  have "rt_inv demo_snd" "ep_inv demo_snd" using demo_rtc_inv by (simp_all add: rtc_inv_def rt_inv_def ep_inv_def f)
  then show ?thesis using demo_can_send(2) demo_two_inv f by (auto simp: wh_ready_def wh_inv_def demo_rtc_fields demo_uta_fields)
qed

lemma demo_open_id: "map_option fst (rmr_wh_open demo_senv (Some demo_snd) (Some ''b:2'')) = Some 0"
  by code_simp

theorem wh_open_gives_open_id_witness:
  "\<exists>ctx'. rmr_wh_open demo_senv (Some demo_snd) (Some ''b:2'') = Some (0, Some ctx') \<and> wh_ready ctx' \<and>
     rmr_wh_state (Some ctx') 0 = Some RMR_OK"
proof -
  have "n_ok (s_rt demo_senv) = all_ok" by (simp add: demo_senv_def demo_rt_env_def)
  from wh_open_gives_open_id [OF demo_snd_ready _ this, of "''b:2''"] obtain wid ctx' where
    r: "rmr_wh_open demo_senv (Some demo_snd) (Some ''b:2'') = Some (wid, Some ctx')" "wh_ready ctx'"
      "wid < 0 \<or> rmr_wh_state (Some ctx') wid = Some RMR_OK" by (auto split: if_splits)
  have "wid = 0" using demo_open_id r(1) by simp
  with r show ?thesis by auto
qed

end
