(* ===== verification/Call.thy ===== *)
theory Call
  imports Wormhole
begin

text \<open>
  Receiving and calling: \<^verbatim>\<open>rmr_mt_rcv\<close>, \<^verbatim>\<open>mt_call\<close> and the functions over them in
  \<^verbatim>\<open>src/src/rmr/si/src/rmr_si.c\<close>, and \<^verbatim>\<open>rmr_wh_call\<close> of \<^verbatim>\<open>wormholes.c\<close>.

  These functions wait on the semaphore of a chute while the receive thread delivers messages.
  A script says what happens at each call of \<^verbatim>\<open>sem_wait\<close> or \<^verbatim>\<open>sem_timedwait\<close>: the messages that the
  receive thread delivers before the call returns, the error the call reports when the
  semaphore cannot be taken even then, and the messages delivered between its return and the next
  look at the chute.  \<^verbatim>\<open>mt_call\<close> looks at the pointer in its chute several times without a lock; its
  script has the messages that the receive thread delivers in each of the windows: between the
  emptying of the chute and the first look, between the check of a transaction id and what follows from it (the
  chute is emptied, or the loop is left), from there to the test of the loop, between the loop and
  the pick-up of the pointer, and between the pick-up and the emptying of the chute.  A call of a function
  that is still waiting at the end of the script is \<open>Some None\<close>; a fault is \<open>None\<close>.  The receive
  thread stores a message in a chute and posts its semaphore in one step.
\<close>

section \<open>Time\<close>

type_synonym timespec = "int \<times> int"

text \<open>The expiry time of \<^verbatim>\<open>max_wait\<close> milliseconds from now, as both functions compute it.\<close>

definition expiry :: "timespec \<Rightarrow> int \<Rightarrow> timespec" where
  "expiry now max_wait =
     (let (sec, nsec) = now;
          seconds = (if max_wait > 999 then max_wait div 1000 else 0);
          ms = max_wait - seconds * 1000;
          sec1 = sec + seconds;
          nsec1 = (if ms > 0 then nsec + ms * 1000000 else nsec)
      in if ms > 0 \<and> nsec1 > 999999999 then (sec1 + 1, nsec1 - 999999999) else (sec1, nsec1))"

section \<open>Semaphores\<close>

type_synonym wait_step = "mbuf list \<times> errno \<times> mbuf list"

fun feed :: "rcv_env \<Rightarrow> 'a rcv_ctx_scheme \<Rightarrow> mbuf list \<Rightarrow> 'a rcv_ctx_scheme option" where
  "feed env c [] = Some c"
| "feed env c (m # ms) = do { c1 \<leftarrow> deliver_mbuf env c m; feed env c1 ms }"

definition get_chute :: "'a rcv_ctx_scheme \<Rightarrow> int \<Rightarrow> chute option" where
  "get_chute c i = (if 0 \<le> i \<and> nat i < length (chutes c) then Some (chutes c ! nat i) else None)"

definition put_chute :: "'a rcv_ctx_scheme \<Rightarrow> int \<Rightarrow> chute \<Rightarrow> 'a rcv_ctx_scheme" where
  "put_chute c i ch = c\<lparr>chutes := (chutes c)[nat i := ch]\<rparr>"

text \<open>One call: the return code, the error number (kept on success) and the context.\<close>

definition sem_wait :: "rcv_env \<Rightarrow> 'a rcv_ctx_scheme \<Rightarrow> int \<Rightarrow> errno \<Rightarrow> wait_step \<Rightarrow> ((int \<times> errno) \<times> 'a rcv_ctx_scheme) option" where
  "sem_wait env c i e w =
     (case w of (before, err, after) \<Rightarrow> do {
        c1 \<leftarrow> feed env c before;
        ch \<leftarrow> get_chute c1 i;
        (let ok = (ch_barrier ch > 0);
             c2 = (if ok then put_chute c1 i (ch\<lparr>ch_barrier := ch_barrier ch - 1\<rparr>) else c1)
         in do { c3 \<leftarrow> feed env c2 after; Some (if ok then (0, e) else (-1, err), c3) }) })"

section \<open>Receiving\<close>

text \<open>The wait loop of \<^verbatim>\<open>rmr_mt_rcv\<close>: interrupted calls are repeated.\<close>

fun rcv_wait :: "rcv_env \<Rightarrow> 'a rcv_ctx_scheme \<Rightarrow> wait_step list
    \<Rightarrow> (((int \<times> errno) \<times> 'a rcv_ctx_scheme) \<times> wait_step list) option option" where
  "rcv_wait env c [] = Some None"
| "rcv_wait env c (w # ws) = do {
     r \<leftarrow> sem_wait env c 0 EINTR w;
     (if fst (fst r) < 0 \<and> snd (fst r) = EINTR then rcv_wait env (snd r) ws else Some (Some (r, ws))) }"

text \<open>The one shot poll.\<close>

definition rcv_poll :: "rcv_env \<Rightarrow> 'a rcv_ctx_scheme \<Rightarrow> mbuf option \<Rightarrow> (mbuf option \<times> 'a rcv_ctx_scheme) option" where
  "rcv_poll env c ombuf =
     (case uta_ring_extract (e_lock env) (e_lock env) (mring c) of
        (Some m, r) \<Rightarrow> do {
          ch \<leftarrow> get_chute c 0;
          (let c1 = c\<lparr>mring := r\<rparr>;
               c2 = (if ch_barrier ch > 0 then put_chute c1 0 (ch\<lparr>ch_barrier := ch_barrier ch - 1\<rparr>) else c1)
           in Some (Some (m\<lparr>m_flags := m_flags m OR MFL_ADDSRC\<rparr>), c2)) }
      | (None, r) \<Rightarrow>
          Some (map_option (\<lambda>m. m\<lparr>m_state := RMR_ERR_TIMEOUT, m_len := 0, m_flags := m_flags m OR MFL_ADDSRC\<rparr>) ombuf, c\<lparr>mring := r\<rparr>))"

text \<open>The end of the receive function, after the wait.\<close>

definition rcv_take :: "rcv_env \<Rightarrow> mbuf option \<Rightarrow> (int \<times> errno) \<times> 'a rcv_ctx_scheme \<Rightarrow> mbuf option \<times> 'a rcv_ctx_scheme" where
  "rcv_take env ombuf r =
     (let ((state, e), c) = r
      in if state < 0 then (map_option (\<lambda>m. m\<lparr>m_tp_state := e\<rparr>) ombuf, c)
         else (case uta_ring_extract (e_lock env) (e_lock env) (mring c) of
                 (Some m, q) \<Rightarrow> (Some (m\<lparr>m_state := RMR_OK, m_flags := m_flags m OR MFL_ADDSRC, m_tp_state := E0\<rparr>), c\<lparr>mring := q\<rparr>)
               | (None, q) \<Rightarrow> (map_option (\<lambda>m. m\<lparr>m_tp_state := ETIMEDOUT\<rparr>) ombuf, c\<lparr>mring := q\<rparr>)))"

definition rmr_mt_rcv :: "rcv_env \<Rightarrow> wait_step list \<Rightarrow> 'a rcv_ctx_scheme option \<Rightarrow> mbuf option \<Rightarrow> int
    \<Rightarrow> ((mbuf option \<times> 'a rcv_ctx_scheme option) \<times> wait_step list) option option" where
  "rmr_mt_rcv env ws vctx mbuf max_wait =
     (case vctx of
        None \<Rightarrow> Some (Some ((map_option (\<lambda>m. m\<lparr>m_state := RMR_ERR_BADARG, m_tp_state := EINVAL\<rparr>) mbuf, None), ws))
      | Some c \<Rightarrow>
          if max_wait = 0 then do { r \<leftarrow> rcv_poll env c mbuf; Some (Some ((fst r, Some (snd r)), ws)) }
          else (let ombuf = map_option (\<lambda>m. m\<lparr>m_state := RMR_ERR_TIMEOUT, m_len := 0\<rparr>) mbuf
                in do {
                  w \<leftarrow> rcv_wait env c ws;
                  (case w of None \<Rightarrow> Some None
                   | Some (r, ws1) \<Rightarrow> (let (m, c1) = rcv_take env ombuf r in Some (Some ((m, Some c1), ws1)))) }))"

definition rmr_rcv_msg :: "rcv_env \<Rightarrow> wait_step list \<Rightarrow> 'a rcv_ctx_scheme option \<Rightarrow> mbuf option
    \<Rightarrow> ((mbuf option \<times> 'a rcv_ctx_scheme option) \<times> wait_step list) option option" where
  "rmr_rcv_msg env ws vctx old_msg = rmr_mt_rcv env ws vctx old_msg (-1)"

definition rmr_torcv_msg :: "rcv_env \<Rightarrow> wait_step list \<Rightarrow> 'a rcv_ctx_scheme option \<Rightarrow> mbuf option \<Rightarrow> int
    \<Rightarrow> ((mbuf option \<times> 'a rcv_ctx_scheme option) \<times> wait_step list) option option" where
  "rmr_torcv_msg env ws vctx old_msg ms_to = rmr_mt_rcv env ws vctx old_msg ms_to"

text \<open>\<^verbatim>\<open>rmr_rcv_specific\<close>: messages with another transaction id go back to the ring (the semaphore is not
  posted for them).\<close>

definition xid_is :: "mbuf \<Rightarrow> bytes \<Rightarrow> bool option" where
  "xid_is m expect = do {
     b \<leftarrow> m_tp_buf m; x \<leftarrow> m_xaction m;
     id \<leftarrow> mem_rd b x (min (length expect) RMR_MAX_XID);
     Some (id = take RMR_MAX_XID expect) }"

partial_function (option) specific_loop :: "rcv_env \<Rightarrow> wait_step list \<Rightarrow> 'a rcv_ctx_scheme \<Rightarrow> mbuf option \<Rightarrow> bytes \<Rightarrow> int \<Rightarrow> int
    \<Rightarrow> ((mbuf option \<times> errno) \<times> 'a rcv_ctx_scheme) option option" where
  "specific_loop env ws c msg expect queued allow2queue =
     (if queued < allow2queue
      then do {
        r \<leftarrow> rmr_rcv_msg env ws (Some c) msg;
        (case r of None \<Rightarrow> Some None
         | Some ((mo, co), ws1) \<Rightarrow>
             do { c1 \<leftarrow> co;
               (case mo of None \<Rightarrow> specific_loop env ws1 c1 None expect queued allow2queue
                | Some m \<Rightarrow>
                    if m_state m = RMR_OK
                    then do {
                      hit \<leftarrow> xid_is m expect;
                      (if hit then Some (Some ((Some m, E0), c1))
                       else (let (rc, q) = uta_ring_insert (e_lock env) (mring c1) (Some m)
                             in if rc \<noteq> R_ok then Some (Some ((None, ENOBUFS), c1\<lparr>mring := q\<rparr>))
                                else specific_loop env ws1 (c1\<lparr>mring := q\<rparr>) None expect (queued + 1) allow2queue)) }
                    else specific_loop env ws1 c1 (Some m) expect queued allow2queue) }) }
      else Some (Some ((None, ETIMEDOUT), c)))"

definition rmr_rcv_specific :: "rcv_env \<Rightarrow> wait_step list \<Rightarrow> 'a rcv_ctx_scheme option \<Rightarrow> mbuf option \<Rightarrow> bytes option \<Rightarrow> int
    \<Rightarrow> (mbuf option \<times> 'a rcv_ctx_scheme option) option option" where
  "rmr_rcv_specific env ws vctx msg expect allow2queue =
     (case vctx of None \<Rightarrow> Some (Some (map_option (\<lambda>m. m\<lparr>m_state := RMR_ERR_BADARG, m_tp_state := EINVAL\<rparr>) msg, None))
      | Some c \<Rightarrow>
          if expect = None \<or> expect = Some []
          then do { r \<leftarrow> rmr_rcv_msg env ws vctx msg; Some (map_option fst r) }
          else do { r \<leftarrow> specific_loop env ws c msg (the expect) 0 allow2queue;
                    Some (map_option (\<lambda>x. (fst (fst x), Some (snd x))) r) })"

definition rmr_get_rcvfd :: "int \<Rightarrow> 'a rcv_ctx_scheme option \<Rightarrow> int \<times> 'a rcv_ctx_scheme option" where
  "rmr_get_rcvfd efd vctx =
     (case vctx of None \<Rightarrow> (-1, None)
      | Some c \<Rightarrow> (let (fd, q) = uta_ring_getpfd efd (mring c) in (fd, Some (c\<lparr>mring := q\<rparr>))))"

definition rmr_set_rtimeout :: "'a rcv_ctx_scheme option \<Rightarrow> int \<Rightarrow> int" where
  "rmr_set_rtimeout vctx time = 0"

section \<open>Calling\<close>

text \<open>One turn of the wait loop of \<^verbatim>\<open>mt_call\<close>: the wait, the messages delivered after the check of the
  transaction id, and those delivered before the test of the loop.  Between the two looks at an empty chute there is one
  window only.\<close>

type_synonym call_wait = "wait_step \<times> mbuf list \<times> mbuf list"

definition call_step :: "rcv_env \<Rightarrow> 'a rcv_ctx_scheme \<Rightarrow> int \<Rightarrow> errno \<Rightarrow> call_wait \<Rightarrow> ((int \<times> errno) \<times> 'a rcv_ctx_scheme) option" where
  "call_step env c i e w =
     (case w of (s, mid, late) \<Rightarrow> do {
        r \<leftarrow> sem_wait env c i e s;
        ch \<leftarrow> get_chute (snd r) i;
        (let e1 = (if fst (fst r) < 0 \<and> snd (fst r) = EINTR then E0 else snd (fst r))
         in case ch_mbuf ch of
              None \<Rightarrow> do { c1 \<leftarrow> feed env (snd r) (mid @ late); Some ((fst (fst r), e1), c1) }
            | Some m \<Rightarrow> do {
                same \<leftarrow> xid_is m (ch_expect ch);
                c1 \<leftarrow> feed env (snd r) mid;
                ch1 \<leftarrow> get_chute c1 i;
                c2 \<leftarrow> feed env (if same then c1 else put_chute c1 i (ch1\<lparr>ch_mbuf := None\<rparr>)) late;
                Some ((fst (fst r), if same then e1 else E0), c2) }) })"

text \<open>The wait loop: the last state, the error number and the context.\<close>

fun call_loop :: "rcv_env \<Rightarrow> 'a rcv_ctx_scheme \<Rightarrow> int \<Rightarrow> int \<Rightarrow> errno \<Rightarrow> call_wait list \<Rightarrow> ((int \<times> errno) \<times> 'a rcv_ctx_scheme) option option" where
  "call_loop env c i state e [] = do {
     ch \<leftarrow> get_chute c i;
     Some (if ch_mbuf ch = None \<and> e = E0 then None else Some ((state, e), c)) }"
| "call_loop env c i state e (w # ws) = do {
     ch \<leftarrow> get_chute c i;
     (if ch_mbuf ch = None \<and> e = E0
      then do { r \<leftarrow> call_step env c i e w; call_loop env (snd r) i (fst (fst r)) (snd (fst r)) ws }
      else Some (Some ((state, e), c))) }"

text \<open>The end of \<^verbatim>\<open>mt_call\<close>, with the messages delivered before the pointer is picked up and those
  delivered before the chute is emptied.\<close>

definition call_end :: "rcv_env \<Rightarrow> 'a rcv_ctx_scheme \<Rightarrow> int \<Rightarrow> int \<Rightarrow> mbuf list \<Rightarrow> mbuf list \<Rightarrow> (mbuf option \<times> 'a rcv_ctx_scheme) option" where
  "call_end env c i state pick clear =
     (if state < 0 then Some (None, c)
      else do {
        c1 \<leftarrow> feed env c pick;
        ch \<leftarrow> get_chute c1 i;
        c2 \<leftarrow> feed env c1 clear;
        ch2 \<leftarrow> get_chute c2 i;
        Some (map_option (\<lambda>m. m\<lparr>m_state := RMR_OK\<rparr>) (ch_mbuf ch), put_chute c2 i (ch2\<lparr>ch_mbuf := None\<rparr>)) })"

text \<open>The preparation: the chute is emptied and gets the transaction id to wait for, the message gets
  the call flag and the call id and is not to be replaced.\<close>

definition call_prep :: "'a rcv_ctx_scheme \<Rightarrow> mbuf \<Rightarrow> int \<Rightarrow> (mbuf \<times> 'a rcv_ctx_scheme) option" where
  "call_prep c m i = do {
     ch \<leftarrow> get_chute c i;
     b \<leftarrow> m_tp_buf m; x \<leftarrow> m_xaction m;
     ex \<leftarrow> mem_rd b x RMR_MAX_XID;
     m1 \<leftarrow> set_call m (\<lambda>fl. fl OR HFL_CALL_MSG) (word_of_int i);
     Some (m1\<lparr>m_flags := m_flags m1 OR MFL_NOALLOC\<rparr>, put_chute c i (ch\<lparr>ch_mbuf := None, ch_expect := ex\<rparr>)) }"

record call_env =
  k_snd :: snd_env
  k_rcv :: rcv_env
  k_pre :: "mbuf list"
  k_ws :: "call_wait list"
  k_end :: "mbuf list"
  k_clear :: "mbuf list"

text \<open>\<open>k_pre\<close> are the messages that arrive between the emptying of the chute and the first look at it (the
  send does not look at the chutes), \<open>k_end\<close> those between the loop and the pick-up, \<open>k_clear\<close> those between the pick-up
  and the emptying of the chute.\<close>

definition mt_call :: "call_env \<Rightarrow> 'a snd_ctx_scheme option \<Rightarrow> mbuf option \<Rightarrow> int \<Rightarrow> int \<Rightarrow> addr option
    \<Rightarrow> (mbuf option \<times> 'a snd_ctx_scheme option) option option" where
  "mt_call env vctx mbuf call_id max_wait ep =
     (case (vctx, mbuf) of
        (_, None) \<Rightarrow> Some (Some (None, vctx))
      | (None, Some m) \<Rightarrow> Some (Some (Some (m\<lparr>m_tp_state := EINVAL, m_state := RMR_ERR_BADARG\<rparr>), None))
      | (Some ctx, Some m) \<Rightarrow>
          if cflags ctx AND CFL_MTC_ENABLED = 0
          then Some (Some (Some (m\<lparr>m_state := RMR_ERR_NOTSUPP, m_tp_state := EINVAL\<rparr>), vctx))
          else do {
            p \<leftarrow> call_prep ctx m call_id;
            s \<leftarrow> (case ep of
                   None \<Rightarrow> mtosend_msg (k_snd env) (Some (snd p)) (Some (fst p)) 0
                 | Some a \<Rightarrow> do { e \<leftarrow> h_eps (snd p) a;
                                r \<leftarrow> send_msg (k_snd env) (snd p) (fst p) (nn_sock e) (-1); Some (fst r, Some (snd r)) });
            c1 \<leftarrow> snd s;
            (if (case fst (fst s) of None \<Rightarrow> False | Some m1 \<Rightarrow> m_state m1 \<noteq> RMR_OK)
             then Some (Some (map_option (\<lambda>m1. m1\<lparr>m_tp_state := snd (fst s)\<rparr>) (fst (fst s)), Some c1))
             else do {
               c2 \<leftarrow> feed (k_rcv env) c1 (k_pre env);
               w \<leftarrow> call_loop (k_rcv env) c2 call_id 0 E0 (k_ws env);
               (case w of None \<Rightarrow> Some None
                | Some r \<Rightarrow> do { x \<leftarrow> call_end (k_rcv env) (snd r) call_id (fst (fst r)) (k_end env) (k_clear env); Some (Some (fst x, Some (snd x))) }) }) })"

definition rmr_mt_call :: "call_env \<Rightarrow> 'a snd_ctx_scheme option \<Rightarrow> mbuf option \<Rightarrow> int \<Rightarrow> int
    \<Rightarrow> (mbuf option \<times> 'a snd_ctx_scheme option) option option" where
  "rmr_mt_call env vctx mbuf call_id max_wait =
     (if call_id > int MAX_CALL_ID \<or> call_id < 2
      then Some (Some (map_option (\<lambda>m. m\<lparr>m_state := RMR_ERR_BADARG, m_tp_state := EINVAL\<rparr>) mbuf, vctx))
      else mt_call env vctx mbuf call_id max_wait None)"

definition rmr_call :: "call_env \<Rightarrow> 'a snd_ctx_scheme option \<Rightarrow> mbuf option
    \<Rightarrow> (mbuf option \<times> 'a snd_ctx_scheme option) option option" where
  "rmr_call env vctx msg =
     (case (vctx, msg) of
        (_, None) \<Rightarrow> Some (Some (None, vctx))
      | (None, Some m) \<Rightarrow> Some (Some (Some (m\<lparr>m_state := RMR_ERR_BADARG\<rparr>), None))
      | _ \<Rightarrow> mt_call env vctx msg 1 1000 None)"

definition rmr_wh_call :: "call_env \<Rightarrow> 'a snd_ctx_scheme option \<Rightarrow> int \<Rightarrow> mbuf option \<Rightarrow> int \<Rightarrow> int
    \<Rightarrow> (mbuf option \<times> 'a snd_ctx_scheme option) option option" where
  "rmr_wh_call env vctx whid msg call_id max_wait =
     (case (vctx, msg) of
        (_, None) \<Rightarrow> Some (Some (None, vctx))
      | (None, Some m) \<Rightarrow> Some (Some (Some (m\<lparr>m_state := RMR_ERR_BADARG\<rparr>), None))
      | (Some ctx, Some m) \<Rightarrow> do {
          k \<leftarrow> wh_check ctx whid m;
          (case k of Inl st \<Rightarrow> Some (Some (Some (m\<lparr>m_state := st\<rparr>), vctx))
           | Inr a \<Rightarrow> do {
               c1 \<leftarrow> wh_reopen (k_snd env) ctx a;
               mt_call env (Some c1) (Some (m\<lparr>m_state := RMR_OK\<rparr>)) call_id max_wait (Some a) }) })"

end
