(* ===== verification/Call_Inv.thy ===== *)
theory Call_Inv
  imports Call
begin

text \<open>
  Correctness of receiving and calling: the semaphore of the receive ring counts the queued
  messages, so that a receive gets the oldest message or a timeout and nothing is lost; a call
  returns only a reply with the transaction id of the request, and gets it, as long as the windows in which
  it does not check its chute are quiet; the expiry time is right to a nanosecond.
\<close>

section \<open>The semaphore counts the ring\<close>

text \<open>\<open>k\<close> is the number of messages that a receiver has taken from the semaphore and not yet from the ring.\<close>

definition sem_cnt :: "rcv_env \<Rightarrow> 'a rcv_ctx_scheme \<Rightarrow> nat \<Rightarrow> bool" where
  "sem_cnt env c k \<longleftrightarrow> ring_wf (mring c) \<and> (rgate (mring c) \<or> wgate (mring c) \<longrightarrow> e_lock env) \<and> length (chutes c) = 256 \<and>
     None \<notin> set (ring_list (mring c)) \<and> ch_barrier (chutes c ! 0) + int k = int (ring_count (mring c)) \<and> 0 \<le> ch_barrier (chutes c ! 0)"

abbreviation (input) sem_inv :: "rcv_env \<Rightarrow> 'a rcv_ctx_scheme \<Rightarrow> bool" where
  "sem_inv env c \<equiv> sem_cnt env c 0"

lemma ring_count_app: "ring_list r' = ring_list r @ xs \<Longrightarrow> ring_count r' = ring_count r + length xs"
  by (metis length_append length_ring_list)

text \<open>Messages as \<^verbatim>\<open>buf2mbuf\<close> builds them.\<close>

definition deliverable :: "mbuf \<Rightarrow> bool" where
  "deliverable m \<longleftrightarrow> (\<exists>b l1 l2 l3 fl. mbuf_ok m b l1 l2 l3 \<and> hdr_flags b 50 = Some fl)"

lemma insert_gates: "uta_ring_insert lk r x = (rc, r') \<Longrightarrow> rgate r' = rgate r \<and> wgate r' = wgate r \<and> fl_flock r' = fl_flock r"
  by (auto simp: uta_ring_insert_def Let_def split: if_splits)

lemma extract_gates: "uta_ring_extract tk lk r = (x, r') \<Longrightarrow> rgate r' = rgate r \<and> wgate r' = wgate r \<and> fl_flock r' = fl_flock r"
  by (auto simp: uta_ring_extract_def Let_def split: if_splits)

lemma queue_normal_gates: "queue_normal env c m = Some c' \<Longrightarrow> rgate (mring c') = rgate (mring c) \<and> wgate (mring c') = wgate (mring c)"
  using insert_gates [of "e_lock env" "mring c" "Some m"]
  by (auto simp: queue_normal_def Let_def split: prod.splits if_splits list.splits)

lemma queue_normal_expect:
  assumes "queue_normal env c m = Some c'"
  shows "length (chutes c') = length (chutes c) \<and> (\<forall>i. ch_expect (chutes c' ! i) = ch_expect (chutes c ! i) \<and> ch_mbuf (chutes c' ! i) = ch_mbuf (chutes c ! i))"
  using assms by (auto simp: queue_normal_def Let_def nth_Cons split: prod.splits if_splits list.splits nat.splits)

text \<open>What a delivery does: the message is appended to the ring and announced, or it goes elsewhere.\<close>

lemma deliver_counts:
  assumes inv: "sem_cnt env c k" and m: "deliverable m"
  shows "\<exists>c'. deliver_mbuf env c m = Some c' \<and> sem_cnt env c' k \<and>
    (ring_list (mring c') = ring_list (mring c) @ [Some m] \<or> ring_list (mring c') = ring_list (mring c))"
proof -
  note I = inv [unfolded sem_cnt_def]
  obtain b l1 l2 l3 fl where b: "mbuf_ok m b l1 l2 l3" "hdr_flags b 50 = Some fl" using m by (auto simp: deliverable_def)
  note R = deliver_mbuf_routes [OF b _ refl, of c env]
  obtain ch chs where ch: "chutes c = ch # chs" using I by (cases "chutes c") auto
  show ?thesis
  proof (cases "fl AND HFL_CALL_MSG \<noteq> 0 \<or> l2 = 0 \<or> unat (b ! (330 + l1)) = 0")
    case True
    then have d: "deliver_mbuf env c m = queue_normal env c m" using R I by simp
    obtain c' where q: "queue_normal env c m = Some c'" "ring_wf (mring c')"
      "if length (ring_list (mring c)) < ring_capacity (mring c)
       then ring_list (mring c') = ring_list (mring c) @ [Some m] \<and> acc_ecount c' = acc_ecount c + 1 \<and>
         acc_dcount c' = acc_dcount c \<and> chutes c' = ch\<lparr>ch_barrier := ch_barrier ch + 1\<rparr> # chs
       else mring c' = mring c \<and> acc_ecount c' = acc_ecount c \<and> acc_dcount c' = acc_dcount c + 1 \<and> chutes c' = chutes c"
      using queue_normal_accounts [of c env ch chs m] I ch by blast
    have "sem_cnt env c' k" using q I ch queue_normal_gates [OF q(1)] ring_count_app [of "mring c'" "mring c" "[Some m]"]
      by (auto simp: sem_cnt_def split: if_splits)
    moreover have "ring_list (mring c') = ring_list (mring c) @ [Some m] \<or> ring_list (mring c') = ring_list (mring c)" using q(3) by (auto split: if_splits)
    ultimately show ?thesis using d q(1) by auto
  next
    case False
    let ?i = "unat (b ! (330 + l1))"
    let ?c = "c\<lparr>chutes := (chutes c)[?i := (chutes c ! ?i)\<lparr>ch_mbuf := Some m, ch_barrier := ch_barrier (chutes c ! ?i) + 1\<rparr>]\<rparr>"
    have "deliver_mbuf env c m = Some ?c" using R I False by simp
    moreover have "sem_cnt env ?c k" using I False by (auto simp: sem_cnt_def nth_list_update)
    ultimately show ?thesis by auto
  qed
qed

lemma feed_counts:
  assumes "sem_cnt env c k" and "\<And>m. m \<in> set ms \<Longrightarrow> deliverable m"
  shows "\<exists>c' xs. feed env c ms = Some c' \<and> sem_cnt env c' k \<and> ring_list (mring c') = ring_list (mring c) @ map Some xs \<and> set xs \<subseteq> set ms"
  using assms
proof (induction ms arbitrary: c)
  case (Cons m ms)
  obtain c1 where c1: "deliver_mbuf env c m = Some c1" "sem_cnt env c1 k"
    "ring_list (mring c1) = ring_list (mring c) @ [Some m] \<or> ring_list (mring c1) = ring_list (mring c)"
    using deliver_counts [OF Cons.prems(1), of m] Cons.prems(2) by auto
  obtain c' xs where f: "feed env c1 ms = Some c'" "sem_cnt env c' k" "ring_list (mring c') = ring_list (mring c1) @ map Some xs" "set xs \<subseteq> set ms"
    using Cons.IH [OF c1(2)] Cons.prems(2) by auto
  show ?case
  proof (cases "ring_list (mring c1) = ring_list (mring c)")
    case True
    then show ?thesis using c1 f by (intro exI [of _ c'] exI [of _ xs]) auto
  next
    case False
    then show ?thesis using c1 f by (intro exI [of _ c'] exI [of _ "m # xs"]) auto
  qed
qed auto

definition step_msgs :: "wait_step \<Rightarrow> mbuf set" where
  "step_msgs w = set (fst w) \<union> set (snd (snd w))"

definition script_ok :: "wait_step list \<Rightarrow> bool" where
  "script_ok ws \<longleftrightarrow> (\<forall>w \<in> set ws. \<forall>m \<in> step_msgs w. deliverable m)"

lemma get_chute_0: "sem_cnt env c k \<Longrightarrow> get_chute c 0 = Some (chutes c ! 0)"
  by (simp add: get_chute_def sem_cnt_def)

lemma wait_counts:
  assumes inv: "sem_inv env c" and w: "\<And>m. m \<in> step_msgs w \<Longrightarrow> deliverable m"
  shows "\<exists>rc er c' xs. sem_wait env c 0 e w = Some ((rc, er), c') \<and> ring_list (mring c') = ring_list (mring c) @ map Some xs \<and>
    (rc = 0 \<and> er = e \<and> sem_cnt env c' 1 \<or> rc = -1 \<and> er = fst (snd w) \<and> sem_inv env c' \<and> ring_list (mring c) = [])"
proof -
  obtain ms err ms2 where W: "w = (ms, err, ms2)" by (metis surj_pair)
  obtain c1 xs where 1: "feed env c ms = Some c1" "sem_inv env c1" "ring_list (mring c1) = ring_list (mring c) @ map Some xs"
    using feed_counts [OF inv, of ms] w W by (auto simp: step_msgs_def)
  define ok where "ok = (ch_barrier (chutes c1 ! 0) > 0)"
  define c2 where "c2 = (if ok then put_chute c1 0 ((chutes c1 ! 0)\<lparr>ch_barrier := ch_barrier (chutes c1 ! 0) - 1\<rparr>) else c1)"
  have 2: "sem_cnt env c2 (if ok then 1 else 0)" "mring c2 = mring c1" using 1(2) by (auto simp: sem_cnt_def c2_def put_chute_def ok_def)
  obtain c3 ys where 3: "feed env c2 ms2 = Some c3" "sem_cnt env c3 (if ok then 1 else 0)" "ring_list (mring c3) = ring_list (mring c2) @ map Some ys"
    using feed_counts [OF 2(1), of ms2] w W by (auto simp: step_msgs_def)
  have r: "sem_wait env c 0 e w = Some (if ok then (0, e) else (-1, err), c3)"
    using 1(1) 3(1) get_chute_0 [OF 1(2)] W by (simp add: sem_wait_def c2_def ok_def Let_def)
  have l: "ring_list (mring c3) = ring_list (mring c) @ map Some (xs @ ys)" using 1(3) 2(2) 3(3) by simp
  show ?thesis
  proof (cases ok)
    case True
    then have "sem_wait env c 0 e w = Some ((0, e), c3)" "sem_cnt env c3 1" using r 3(2) by simp_all
    then show ?thesis using l by blast
  next
    case False
    then have "ring_count (mring c1) = 0" using 1(2) by (auto simp: sem_cnt_def ok_def)
    then have "ring_list (mring c) = []" using 1(3) by (metis length_ring_list length_0_conv Nil_is_append_conv)
    moreover have "sem_wait env c 0 e w = Some ((-1, fst (snd w)), c3)" "sem_inv env c3" using False r 3(2) W by simp_all
    ultimately show ?thesis using l by blast
  qed
qed

lemma rcv_wait_counts:
  assumes "sem_inv env c" and "script_ok ws"
  shows "rcv_wait env c ws = Some None \<and> ring_list (mring c) = [] \<or>
    rcv_wait env c ws = Some None \<and> ws = [] \<or>
    (\<exists>rc er c' ws' xs. rcv_wait env c ws = Some (Some (((rc, er), c'), ws')) \<and> ring_list (mring c') = ring_list (mring c) @ map Some xs \<and>
      (rc = 0 \<and> sem_cnt env c' 1 \<or> rc = -1 \<and> er \<noteq> EINTR \<and> sem_inv env c' \<and> ring_list (mring c) = []))"
  using assms
proof (induction ws arbitrary: c)
  case (Cons w ws)
  have dv: "m \<in> step_msgs w \<Longrightarrow> deliverable m" for m using Cons.prems(2) by (auto simp: script_ok_def)
  obtain rc er c1 xs where w: "sem_wait env c 0 EINTR w = Some ((rc, er), c1)" "ring_list (mring c1) = ring_list (mring c) @ map Some xs"
    "rc = 0 \<and> er = EINTR \<and> sem_cnt env c1 1 \<or> rc = -1 \<and> er = fst (snd w) \<and> sem_inv env c1 \<and> ring_list (mring c) = []"
    using wait_counts [of env c w EINTR, OF Cons.prems(1) dv] by blast
  show ?case
  proof (cases "rc < 0 \<and> er = EINTR")
    case True
    then have c1: "sem_inv env c1" "ring_list (mring c) = []" using w(3) by auto
    have r: "rcv_wait env c (w # ws) = rcv_wait env c1 ws" using w(1) True by simp
    have "script_ok ws" using Cons.prems(2) by (simp add: script_ok_def)
    from Cons.IH [OF c1(1) this, folded r] show ?thesis
    proof (elim disjE exE conjE)
      fix rc' er' c' ws' ys
      assume a: "rcv_wait env c (w # ws) = Some (Some (((rc', er'), c'), ws'))" "ring_list (mring c') = ring_list (mring c1) @ map Some ys"
      then have l: "ring_list (mring c') = ring_list (mring c) @ map Some (xs @ ys)" using w(2) by simp
      { assume "rc' = 0" "sem_cnt env c' 1"
        then show ?thesis using a(1) l by blast }
      { assume "rc' = -1" "er' \<noteq> EINTR" "sem_inv env c'"
        then show ?thesis using a(1) l c1(2) by blast }
    qed (use c1(2) in blast)+
  next
    case False
    then have "rcv_wait env c (w # ws) = Some (Some (((rc, er), c1), ws))" using w(1) by auto
    then show ?thesis using w(2,3) False by auto
  qed
qed simp

lemma rcv_take_next:
  assumes "sem_cnt env c 1"
  shows "\<exists>m c'. rcv_take env om ((0, er), c) = (Some (m\<lparr>m_state := RMR_OK, m_flags := m_flags m OR MFL_ADDSRC, m_tp_state := E0\<rparr>), c') \<and>
    ring_list (mring c) = Some m # ring_list (mring c') \<and> sem_inv env c'"
proof -
  note I = assms [unfolded sem_cnt_def]
  obtain x xs where l: "ring_list (mring c) = x # xs" using I by (cases "ring_list (mring c)") (auto simp: length_ring_list [symmetric] simp del: length_ring_list)
  then obtain m where m: "x = Some m" using I by (cases x) auto
  obtain v q where e: "uta_ring_extract (e_lock env) (e_lock env) (mring c) = (v, q)" by fastforce
  have q: "v = Some m" "ring_wf q" "ring_list q = xs" using ring_extract_next [OF _ l _ e] I m by auto
  have "ring_count (mring c) = Suc (ring_count q)" using l q(3) by (metis length_Cons length_ring_list)
  then have "sem_inv env (c\<lparr>mring := q\<rparr>)" using I q l extract_gates [OF e] by (auto simp: sem_cnt_def)
  then show ?thesis using e q l m by (intro exI [of _ m] exI [of _ "c\<lparr>mring := q\<rparr>"]) (simp add: rcv_take_def)
qed

text \<open>Examples: a message arrives while a receiver waits, and the reply to a call arrives in chute 2.\<close>

definition demo_chutes :: "chute list" where
  "demo_chutes = replicate 256 \<lparr>ch_mbuf = None, ch_barrier = 0, ch_expect = []\<rparr>"

definition demo_reply :: mbuf where
  "demo_reply = demo_msg\<lparr>m_tp_buf := Some (demo_buf[334 := 2])\<rparr>"

definition demo_caller :: snd_ctx where
  "demo_caller = demo_routed\<lparr>chutes := demo_chutes, cflags := CFL_MTC_ENABLED\<rparr>"

definition demo_kenv :: call_env where
  "demo_kenv = \<lparr>k_snd = demo_fast, k_rcv = demo_env, k_pre = [], k_ws = [(([demo_reply], ETIMEDOUT, []), [], [])], k_end = [], k_clear = []\<rparr>"

text \<open>
  C9. A receive gets the oldest message.  As long as messages reach the ring through the receive
  thread, the semaphore counts them: a call of \<^verbatim>\<open>rmr_mt_rcv\<close> that may wait is still waiting at the
  end of the script, or returns the message at the head of the ring (with those that arrived
  during the wait behind it) with state RMR_OK and takes nothing else, or gives the caller's
  buffer back with RMR_ERR_TIMEOUT and the error of the wait, which happens only when the ring was
  empty.  The count is right again afterwards.
\<close>

theorem rcv_takes_oldest:
  assumes "sem_inv env c" and "script_ok ws" and "max_wait \<noteq> 0"
  shows "rmr_mt_rcv env ws (Some c) om max_wait = Some None \<and> (ring_list (mring c) = [] \<or> ws = []) \<or>
    (\<exists>mo c' ws' xs. rmr_mt_rcv env ws (Some c) om max_wait = Some (Some ((mo, Some c'), ws')) \<and> sem_inv env c' \<and>
      ((\<exists>m. mo = Some (m\<lparr>m_state := RMR_OK, m_flags := m_flags m OR MFL_ADDSRC, m_tp_state := E0\<rparr>) \<and>
          ring_list (mring c) @ map Some xs = Some m # ring_list (mring c')) \<or>
       (\<exists>e. mo = map_option (\<lambda>m. m\<lparr>m_state := RMR_ERR_TIMEOUT, m_len := 0, m_tp_state := e\<rparr>) om \<and> e \<noteq> EINTR \<and>
          ring_list (mring c) = [] \<and> ring_list (mring c') = map Some xs)))"
proof -
  let ?om = "map_option (\<lambda>m. m\<lparr>m_state := RMR_ERR_TIMEOUT, m_len := 0\<rparr>) om"
  from rcv_wait_counts [OF assms(1,2)] show ?thesis
  proof (elim disjE exE conjE)
    fix rc er c1 ws' xs
    assume a: "rcv_wait env c ws = Some (Some (((rc, er), c1), ws'))" "ring_list (mring c1) = ring_list (mring c) @ map Some xs"
    have run: "rmr_mt_rcv env ws (Some c) om max_wait = Some (Some ((fst (rcv_take env ?om ((rc, er), c1)), Some (snd (rcv_take env ?om ((rc, er), c1)))), ws'))"
      using a(1) assms(3) by (simp add: rmr_mt_rcv_def Let_def split: prod.splits)
    { assume "rc = 0" "sem_cnt env c1 1"
      then obtain m c' where "rcv_take env ?om ((rc, er), c1) = (Some (m\<lparr>m_state := RMR_OK, m_flags := m_flags m OR MFL_ADDSRC, m_tp_state := E0\<rparr>), c')"
        "ring_list (mring c1) = Some m # ring_list (mring c')" "sem_inv env c'" using rcv_take_next [of env c1 ?om er] by blast
      then have "rmr_mt_rcv env ws (Some c) om max_wait = Some (Some ((Some (m\<lparr>m_state := RMR_OK, m_flags := m_flags m OR MFL_ADDSRC, m_tp_state := E0\<rparr>), Some c'), ws'))"
        "ring_list (mring c) @ map Some xs = Some m # ring_list (mring c')" "sem_inv env c'" using run a(2) by simp_all
      then show ?thesis by blast }
    { assume b: "rc = -1" "er \<noteq> EINTR" "sem_inv env c1" "ring_list (mring c) = []"
      then have "rcv_take env ?om ((rc, er), c1) = (map_option (\<lambda>m. m\<lparr>m_state := RMR_ERR_TIMEOUT, m_len := 0, m_tp_state := er\<rparr>) om, c1)"
        by (simp add: rcv_take_def option.map_comp o_def)
      then have "rmr_mt_rcv env ws (Some c) om max_wait = Some (Some ((map_option (\<lambda>m. m\<lparr>m_state := RMR_ERR_TIMEOUT, m_len := 0, m_tp_state := er\<rparr>) om, Some c1), ws'))"
        "ring_list (mring c1) = map Some xs" using run a(2) b(4) by simp_all
      then show ?thesis using b by blast }
  qed (use assms(3) in \<open>simp_all add: rmr_mt_rcv_def Let_def\<close>)
qed

lemma demo_ring_empty: "ring_list (mring demo_rcv) = []"
  by (simp add: demo_rcv_def demo_ctx_def ring_list_def ring_count_def)

lemma demo_sem_inv: "sem_inv demo_env (demo_rcv\<lparr>chutes := demo_chutes\<rparr>)"
  using demo_ctx_ok(2) demo_ring_empty
  by (simp add: sem_cnt_def demo_chutes_def demo_env_def demo_rcv_def demo_ctx_def pool_ok_def ring_count_def)

lemma demo_deliverable: "deliverable demo_msg"
  unfolding deliverable_def using demo_msg_ok
  by (intro exI conjI, assumption) (simp add: hdr_flags_def demo_buf_def get32_def mem_rd_def)

lemma demo_received:
  "(case rmr_mt_rcv demo_env [([demo_msg], ETIMEDOUT, [])] (Some (demo_rcv\<lparr>chutes := demo_chutes\<rparr>)) None 100 of
      Some (Some ((Some m, _), _)) \<Rightarrow> m_state m = RMR_OK | _ \<Rightarrow> False)"
  by code_simp

theorem rcv_takes_oldest_witness:
  "\<exists>mo c' ws'. rmr_mt_rcv demo_env [([demo_msg], ETIMEDOUT, [])] (Some (demo_rcv\<lparr>chutes := demo_chutes\<rparr>)) None 100 = Some (Some ((mo, Some c'), ws')) \<and>
     sem_inv demo_env c' \<and> (\<exists>m. mo = Some (m\<lparr>m_state := RMR_OK, m_flags := m_flags m OR MFL_ADDSRC, m_tp_state := E0\<rparr>))"
proof -
  have "script_ok [([demo_msg], ETIMEDOUT, [])]" using demo_deliverable by (simp add: script_ok_def step_msgs_def)
  from rcv_takes_oldest [OF demo_sem_inv this, of 100 None] demo_received show ?thesis by fastforce
qed

section \<open>Sending leaves the chutes alone\<close>

text \<open>\<open>ret P x\<close>: what \<open>x\<close> returns satisfies \<open>P\<close>.  The rules take a \<open>do\<close> block apart.\<close>

definition ret :: "('a \<Rightarrow> bool) \<Rightarrow> 'a option \<Rightarrow> bool" where
  "ret P x = (\<forall>r. x = Some r \<longrightarrow> P r)"

named_theorems ret_rules

lemma ret_None [ret_rules]: "ret P None" by (simp add: ret_def)
lemma ret_Some [ret_rules]: "P r \<Longrightarrow> ret P (Some r)" by (simp add: ret_def)
lemma ret_bind [ret_rules]: "(\<And>y. x = Some y \<Longrightarrow> ret P (f y)) \<Longrightarrow> ret P (x \<bind> f)"
  by (cases x) (simp_all add: ret_def)
lemma ret_if [ret_rules]: "(b \<Longrightarrow> ret P x) \<Longrightarrow> (\<not> b \<Longrightarrow> ret P y) \<Longrightarrow> ret P (if b then x else y)" by simp
lemma ret_option [ret_rules]: "(o' = None \<Longrightarrow> ret P x) \<Longrightarrow> (\<And>z. o' = Some z \<Longrightarrow> ret P (f z)) \<Longrightarrow> ret P (case o' of None \<Rightarrow> x | Some z \<Rightarrow> f z)"
  by (cases o') simp_all
lemma ret_prod [ret_rules]: "(\<And>y z. p = (y, z) \<Longrightarrow> ret P (f y z)) \<Longrightarrow> ret P (case p of (y, z) \<Rightarrow> f y z)" by (cases p) simp
lemma ret_let [ret_rules]: "ret P (f x) \<Longrightarrow> ret P (Let x f)" by simp
lemma retD: "ret P x \<Longrightarrow> x = Some r \<Longrightarrow> P r" by (simp add: ret_def)

abbreviation (input) keeps :: "'a rcv_ctx_scheme \<Rightarrow> ('b \<times> 'a rcv_ctx_scheme) option \<Rightarrow> bool" where
  "keeps c x \<equiv> ret (\<lambda>r. chutes (snd r) = chutes c) x"

lemma put_keeps [simp]: "chutes (put_rt c a t) = chutes c" "chutes (put_rte c a r) = chutes c" "chutes (put_ep c a e) = chutes c"
  by (simp_all add: put_rt_def put_rte_def put_ep_def)

lemma fd2ep_add_keeps [simp]: "chutes (fd2ep_add ok c fd ep) = chutes c"
  by (simp add: fd2ep_add_def split: option.splits)

lemma get_rt_keeps: "get_rt c = Some r \<Longrightarrow> chutes (snd r) = chutes c"
  by (auto simp: get_rt_def option_bind_Some_iff split: option.splits)

lemma release_rt_keeps: "release_rt c rt = Some c' \<Longrightarrow> chutes c' = chutes c"
  by (auto simp: release_rt_def option_bind_Some_iff split: option.splits)

lemma counts_keeps: "incr_ep_counts c st ep = Some c' \<Longrightarrow> chutes c' = chutes c"
  by (auto simp: incr_ep_counts_def option_bind_Some_iff split: option.splits)

lemma get_rte_keeps: "keeps c (uta_get_rte c rt sid mt alt)"
  unfolding uta_get_rte_def by (intro ret_rules) simp_all

lemma get_meid_owner_keeps: "keeps c (get_meid_owner c rt m)"
  unfolding get_meid_owner_def by (intro ret_rules) simp_all

lemma link2_keeps: "keeps c (uta_link2 env c ep)"
  unfolding uta_link2_def by (intro ret_rules) simp_all

lemma ep_socket_keeps: "keeps c (ep_socket env c a remap)"
  unfolding ep_socket_def by (intro ret_rules) (auto dest: retD [OF link2_keeps])

lemma epsock_rr_keeps: "keeps c (uta_epsock_rr env c rte grp)"
  unfolding uta_epsock_rr_def by (intro ret_rules) (auto dest!: retD [OF ep_socket_keeps])

lemma epsock_meid_keeps: "keeps c (epsock_meid env c rt m)"
  unfolding epsock_meid_def by (intro ret_rules) (auto dest!: retD [OF ep_socket_keeps] retD [OF get_meid_owner_keeps])

lemma alloc_zcmsg_keeps: "keeps c (alloc_zcmsg ok junk tk c m sz st tr)"
  unfolding alloc_zcmsg_def by (intro ret_rules) (auto split: option.splits prod.splits)

lemma send_msg_keeps: "keeps c (send_msg env c m fd n)"
  unfolding send_msg_def send_done_def by (intro ret_rules) (auto dest!: retD [OF alloc_zcmsg_keeps])

lemma pick_ep_keeps: "keeps c (pick_ep env c rt ra m grp)"
  unfolding pick_ep_def by (intro ret_rules) (auto dest!: retD [OF epsock_rr_keeps] retD [OF epsock_meid_keeps])

lemma send_group_keeps: "keeps c (send_group env c m again sock ep to e n)"
  unfolding send_group_def by (intro ret_rules) (auto split: option.splits dest!: retD [OF send_msg_keeps] counts_keeps)

lemma group_loop_keeps:
  fixes c :: "'a snd_ctx_scheme"
  assumes "group_loop env c rt ra m grp to e n = Some r"
  shows "chutes (snd r) = chutes c"
  using assms
proof (rule group_loop.raw_induct [where P = "\<lambda>env c rt ra m grp to e n r. chutes (snd r) = chutes c", rotated])
  fix gl and env :: snd_env and c :: "'a snd_ctx_scheme" and rt ra m grp to e n r
  assume IH: "\<And>env c rt ra m grp to e n r. gl env c rt ra m grp to e n = Some r \<Longrightarrow> chutes (snd r) = chutes c"
    and run: "pick_ep env c rt ra m grp \<bind> (\<lambda>p. send_group env (snd p) m (fst (fst p)) (fst (snd (fst p))) (snd (snd (fst p))) to e n \<bind>
      (\<lambda>r. if fst (fst p) then (case fst (fst r) of None \<Rightarrow> None | Some m1 \<Rightarrow> gl env (snd r) rt ra m1 (grp + 1) to (fst (snd (fst r))) (snd (snd (fst r)))) else Some r)) = Some r"
  from run obtain p s where p: "pick_ep env c rt ra m grp = Some p" and s: "send_group env (snd p) m (fst (fst p)) (fst (snd (fst p))) (snd (snd (fst p))) to e n = Some s"
    and n: "(if fst (fst p) then (case fst (fst s) of None \<Rightarrow> None | Some m1 \<Rightarrow> gl env (snd s) rt ra m1 (grp + 1) to (fst (snd (fst s))) (snd (snd (fst s)))) else Some s) = Some r"
    unfolding option_bind_Some_iff by blast
  have "chutes (snd s) = chutes c" using retD [OF pick_ep_keeps p] retD [OF send_group_keeps s] by simp
  then show "chutes (snd r) = chutes c" using n by (auto split: if_splits option.splits dest!: IH)
qed

lemma mtosend_keeps: "ret (\<lambda>r. \<exists>c'. snd r = Some c' \<and> chutes c' = chutes c) (mtosend_msg env (Some c) (Some m) to)"
  unfolding mtosend_msg_def prod.case option.case
  by (intro ret_rules) (auto dest!: get_rt_keeps retD [OF get_rte_keeps] release_rt_keeps group_loop_keeps)

section \<open>Calls\<close>

text \<open>Deliveries do not touch the transaction id that a chute waits for.\<close>

definition same_expect :: "'a rcv_ctx_scheme \<Rightarrow> 'a rcv_ctx_scheme \<Rightarrow> bool" where
  "same_expect c c' \<longleftrightarrow> length (chutes c') = length (chutes c) \<and> (\<forall>i. ch_expect (chutes c' ! i) = ch_expect (chutes c ! i))"

lemma same_expect_refl [simp]: "same_expect c c" by (simp add: same_expect_def)

lemma same_expect_trans: "same_expect a b \<Longrightarrow> same_expect b c \<Longrightarrow> same_expect a c" by (simp add: same_expect_def)

lemma nth_upd_expect: "ch_expect x = ch_expect (cs ! k) \<Longrightarrow> ch_expect (cs[k := x] ! i) = ch_expect (cs ! i)"
  by (cases "i = k"; cases "k < length cs") (simp_all add: list_update_beyond)

lemma put_chute_expect [simp]: "ch_expect x = ch_expect (chutes c ! nat i) \<Longrightarrow> same_expect c (put_chute c i x)"
  by (simp add: same_expect_def put_chute_def nth_upd_expect)

lemma get_chuteD: "get_chute c i = Some ch \<Longrightarrow> 0 \<le> i \<and> nat i < length (chutes c) \<and> ch = chutes c ! nat i"
  by (simp add: get_chute_def split: if_splits)

lemma same_expect_get: "same_expect c c' \<Longrightarrow> get_chute c i = Some ch \<Longrightarrow> \<exists>ch'. get_chute c' i = Some ch' \<and> ch_expect ch' = ch_expect ch"
  by (auto simp: same_expect_def get_chute_def split: if_splits)

lemma deliver_expect: "ret (same_expect c) (deliver_mbuf env c m)"
  unfolding deliver_mbuf_def
  by (intro ret_rules) (auto simp: same_expect_def nth_upd_expect ret_def dest!: queue_normal_expect)

lemma feed_expect: "feed env c ms = Some c' \<Longrightarrow> same_expect c c'"
  by (induction ms arbitrary: c) (auto simp: option_bind_Some_iff intro: same_expect_trans dest!: retD [OF deliver_expect])

lemma sem_wait_expect: "ret (\<lambda>r. same_expect c (snd r)) (sem_wait env c i e w)"
  unfolding sem_wait_def
proof (intro ret_rules)
  fix before y err after c1 ch c3
  assume a: "feed env c before = Some c1" "get_chute c1 i = Some ch"
    "feed env (if ch_barrier ch > 0 then put_chute c1 i (ch\<lparr>ch_barrier := ch_barrier ch - 1\<rparr>) else c1) after = Some c3"
  have "same_expect c1 (if ch_barrier ch > 0 then put_chute c1 i (ch\<lparr>ch_barrier := ch_barrier ch - 1\<rparr>) else c1)"
    using get_chuteD [OF a(2)] by simp
  then show "same_expect c (snd (if ch_barrier ch > 0 then (0, e) else (- 1, err), c3))"
    using feed_expect [OF a(1)] feed_expect [OF a(3)] same_expect_trans by (metis snd_conv)
qed

text \<open>The chute a message is for; 0 stands for the receive ring.\<close>

definition chute_of :: "mbuf \<Rightarrow> nat option" where
  "chute_of m = do {
     b \<leftarrow> m_tp_buf m; h \<leftarrow> m_header m; fl \<leftarrow> hdr_flags b h; dl \<leftarrow> RMR_D1_LEN b h;
     (if fl AND HFL_CALL_MSG \<noteq> 0 \<or> dl \<le> 0 then Some 0
      else do { a \<leftarrow> DATA1_ADDR b h; d1 \<leftarrow> mem_rd b a 1; Some (unat (hd d1)) }) }"

abbreviation for_chute :: "nat \<Rightarrow> mbuf list \<Rightarrow> mbuf list" where
  "for_chute k ms \<equiv> filter (\<lambda>m. chute_of m = Some k) ms"

text \<open>What deliveries do to a chute: the last message for it is in it, and each has posted its semaphore.\<close>

definition stored :: "mbuf list \<Rightarrow> chute \<Rightarrow> chute" where
  "stored fs ch = (if fs = [] then ch else ch\<lparr>ch_mbuf := Some (last fs), ch_barrier := ch_barrier ch + int (length fs)\<rparr>)"

lemma queue_normal_slot: "queue_normal env c m = Some c' \<Longrightarrow> length (chutes c') = length (chutes c) \<and> (0 < k \<longrightarrow> chutes c' ! k = chutes c ! k)"
  by (auto simp: queue_normal_def Let_def nth_Cons split: prod.splits if_splits list.splits nat.splits)

lemma deliver_slot:
  assumes "deliver_mbuf env c m = Some c'"
  shows "length (chutes c') = length (chutes c) \<and> ch_mbuf (chutes c' ! 0) = ch_mbuf (chutes c ! 0) \<and>
    (0 < k \<longrightarrow> k < length (chutes c) \<longrightarrow> chutes c' ! k = stored (for_chute k [m]) (chutes c ! k))"
proof -
  obtain b h fl where b: "m_tp_buf m = Some b" "m_header m = Some h" "hdr_flags b h = Some fl"
    using assms by (auto simp: deliver_mbuf_def option_bind_Some_iff)
  show ?thesis
  proof (cases "queue_normal env c m = Some c'")
    case True
    have "0 < k \<Longrightarrow> chute_of m = Some k \<Longrightarrow> k < length (chutes c) \<Longrightarrow> chutes c' ! k = stored (for_chute k [m]) (chutes c ! k)"
      using assms by (auto simp: chute_of_def deliver_mbuf_def stored_def option_bind_Some_iff Let_def split: if_splits)
    then show ?thesis using queue_normal_slot [OF True, of k] queue_normal_expect [OF True] by (auto simp: stored_def)
  next
    case False
    then show ?thesis using assms b
      by (auto simp: chute_of_def deliver_mbuf_def stored_def option_bind_Some_iff Let_def nth_list_update split: if_splits)
  qed
qed

lemma stored_append: "stored (for_chute k ms) (stored (for_chute k [m]) ch) = stored (for_chute k (m # ms)) ch"
  by (cases "for_chute k ms = []") (auto simp: stored_def filter_empty_conv)

lemma feed_slot:
  assumes "feed env c ms = Some c'" and "k < length (chutes c)"
  shows "length (chutes c') = length (chutes c) \<and> (if k = 0 then ch_mbuf (chutes c' ! k) = ch_mbuf (chutes c ! k) else chutes c' ! k = stored (for_chute k ms) (chutes c ! k))"
  using assms
proof (induction ms arbitrary: c)
  case (Cons m ms)
  then obtain c1 where c1: "deliver_mbuf env c m = Some c1" "feed env c1 ms = Some c'" by (auto simp: option_bind_Some_iff)
  note d = deliver_slot [OF c1(1), of k]
  show ?case using Cons.IH [OF c1(2)] d Cons.prems(2) stored_append [of k ms m "chutes c ! k"] by (auto simp del: filter.simps)
qed (simp add: stored_def)

text \<open>The chute of a call is empty or holds a reply to the request.\<close>

definition call_ok :: "'a rcv_ctx_scheme \<Rightarrow> int \<Rightarrow> bytes \<Rightarrow> bool" where
  "call_ok c i ex \<longleftrightarrow> (\<exists>ch. get_chute c i = Some ch \<and> ch_expect ch = ex \<and>
     (case ch_mbuf ch of None \<Rightarrow> True | Some m \<Rightarrow> xid_is m ex = Some True))"

definition only_replies :: "int \<Rightarrow> bytes \<Rightarrow> mbuf list \<Rightarrow> bool" where
  "only_replies i ex ms \<longleftrightarrow> (\<forall>m \<in> set ms. chute_of m = Some (nat i) \<longrightarrow> xid_is m ex = Some True)"

lemma only_replies_append [simp]: "only_replies i ex (xs @ ys) \<longleftrightarrow> only_replies i ex xs \<and> only_replies i ex ys"
  by (auto simp: only_replies_def)

lemma feed_call_ok:
  assumes "feed env c ms = Some c'" and "call_ok c i ex" and "only_replies i ex ms"
  shows "call_ok c' i ex"
proof -
  obtain ch where ch: "get_chute c i = Some ch" "ch_expect ch = ex" "case ch_mbuf ch of None \<Rightarrow> True | Some m \<Rightarrow> xid_is m ex = Some True"
    using assms(2) by (auto simp: call_ok_def)
  then have k: "0 \<le> i" "nat i < length (chutes c)" "ch = chutes c ! nat i" using get_chuteD by blast+
  obtain ch' where ch': "get_chute c' i = Some ch'" "ch_expect ch' = ex" using same_expect_get [OF feed_expect [OF assms(1)] ch(1)] ch(2) by auto
  then have k': "ch' = chutes c' ! nat i" using get_chuteD by blast
  have "ch_mbuf ch' = ch_mbuf ch \<or> (\<exists>m \<in> set (for_chute (nat i) ms). ch_mbuf ch' = Some m)"
    using feed_slot [OF assms(1) k(2)] k(3) k' by (cases "for_chute (nat i) ms = []") (auto simp: stored_def split: if_splits simp del: set_filter filter_empty_conv)
  then have "case ch_mbuf ch' of None \<Rightarrow> True | Some m \<Rightarrow> xid_is m ex = Some True" using ch(3) assms(3) by (auto simp: only_replies_def)
  with ch' show ?thesis by (auto simp: call_ok_def)
qed

lemma call_step_ok:
  assumes "call_step env c i e (w, mid, late) = Some r" and "get_chute c i = Some ch" and "ch_expect ch = ex" and "only_replies i ex (mid @ late)"
  shows "call_ok (snd r) i ex"
proof -
  obtain s ch2 where s: "sem_wait env c i e w = Some s" "get_chute (snd s) i = Some ch2"
    and r: "(case ch_mbuf ch2 of
           None \<Rightarrow> do { c1 \<leftarrow> feed env (snd s) (mid @ late); Some ((fst (fst s), if fst (fst s) < 0 \<and> snd (fst s) = EINTR then E0 else snd (fst s)), c1) }
         | Some m \<Rightarrow> do {
             same \<leftarrow> xid_is m (ch_expect ch2);
             c1 \<leftarrow> feed env (snd s) mid;
             ch1 \<leftarrow> get_chute c1 i;
             c2 \<leftarrow> feed env (if same then c1 else put_chute c1 i (ch1\<lparr>ch_mbuf := None\<rparr>)) late;
             Some ((fst (fst s), if same then (if fst (fst s) < 0 \<and> snd (fst s) = EINTR then E0 else snd (fst s)) else E0), c2) }) = Some r"
    using assms(1) unfolding call_step_def prod.case Let_def option_bind_Some_iff by blast
  have ex: "ch_expect ch2 = ex" using same_expect_get [OF retD [OF sem_wait_expect s(1)] assms(2)] s(2) assms(3) by auto
  show ?thesis
  proof (cases "ch_mbuf ch2")
    case None
    then have "call_ok (snd s) i ex" using s(2) ex by (simp add: call_ok_def)
    then show ?thesis using r None feed_call_ok [OF _ _ assms(4)] by (auto simp: option_bind_Some_iff)
  next
    case (Some m)
    then obtain same c1 ch1 where x: "xid_is m ex = Some same" "feed env (snd s) mid = Some c1" "get_chute c1 i = Some ch1"
      "feed env (if same then c1 else put_chute c1 i (ch1\<lparr>ch_mbuf := None\<rparr>)) late = Some (snd r)"
      using r ex by (auto simp: option_bind_Some_iff)
    have "call_ok (if same then c1 else put_chute c1 i (ch1\<lparr>ch_mbuf := None\<rparr>)) i ex"
    proof (cases same)
      case True
      then have "call_ok (snd s) i ex" using Some s(2) ex x(1) by (simp add: call_ok_def)
      then show ?thesis using feed_call_ok [OF x(2)] assms(4) True by simp
    next
      case False
      have "ch_expect ch1 = ex" using same_expect_get [OF feed_expect [OF x(2)] s(2)] x(3) ex by auto
      then show ?thesis using False get_chuteD [OF x(3)] by (simp add: call_ok_def put_chute_def get_chute_def)
    qed
    then show ?thesis using feed_call_ok [OF x(4)] assms(4) by simp
  qed
qed

lemma call_loop_ok:
  "call_loop env c i st e ws = Some (Some r) \<Longrightarrow> call_ok c i ex \<Longrightarrow> (\<And>w. w \<in> set ws \<Longrightarrow> only_replies i ex (fst (snd w) @ snd (snd w))) \<Longrightarrow> call_ok (snd r) i ex"
proof (induction ws arbitrary: c st e)
  case Nil
  then show ?case by (auto simp: option_bind_Some_iff split: if_splits)
next
  case (Cons w ws)
  from Cons.prems(2) obtain ch where ch: "get_chute c i = Some ch" "ch_expect ch = ex" by (auto simp: call_ok_def)
  show ?case
  proof (cases "ch_mbuf ch = None \<and> e = E0")
    case True
    then obtain s where s: "call_step env c i e w = Some s" "call_loop env (snd s) i (fst (fst s)) (snd (fst s)) ws = Some (Some r)"
      using Cons.prems(1) ch(1) by (auto simp: option_bind_Some_iff)
    obtain w1 mid late where w: "w = (w1, mid, late)" by (metis prod_cases3)
    have "call_ok (snd s) i ex" using call_step_ok [OF s(1) [unfolded w] ch] Cons.prems(3) [of w] w by simp
    then show ?thesis using Cons.IH [OF s(2)] Cons.prems(3) by simp
  next
    case False
    then show ?thesis using Cons.prems ch(1) by (auto simp del: not_None_eq)
  qed
qed

lemma call_end_ok:
  assumes "call_end env c i st pick clear = Some (Some r, c')" and "call_ok c i ex" and "only_replies i ex pick"
  shows "xid_is r ex = Some True \<and> map_option ch_mbuf (get_chute c' i) = Some None"
proof -
  obtain c1 ch c2 ch2 where e: "feed env c pick = Some c1" "get_chute c1 i = Some ch" "feed env c1 clear = Some c2" "get_chute c2 i = Some ch2"
    "map_option (\<lambda>m. m\<lparr>m_state := RMR_OK\<rparr>) (ch_mbuf ch) = Some r" "c' = put_chute c2 i (ch2\<lparr>ch_mbuf := None\<rparr>)"
    using assms(1) by (auto simp: call_end_def option_bind_Some_iff split: if_splits)
  have "call_ok c1 i ex" by (rule feed_call_ok [OF e(1) assms(2,3)])
  then have "xid_is r ex = Some True" using e(2,5) by (auto simp: call_ok_def xid_is_def)
  moreover have "map_option ch_mbuf (get_chute c' i) = Some None" using e(6) get_chuteD [OF e(4)] by (simp add: get_chute_def put_chute_def)
  ultimately show ?thesis by simp
qed

lemma call_prep_ok:
  assumes "call_prep c m i = Some p" and "m_tp_buf m = Some b" and "m_xaction m = Some x" and "mem_rd b x RMR_MAX_XID = Some ex"
  shows "\<exists>ch. get_chute (snd p) i = Some ch \<and> ch_mbuf ch = None \<and> ch_expect ch = ex"
  using assms by (auto simp: call_prep_def option_bind_Some_iff put_chute_def get_chute_def split: if_splits)

lemma call_send_keeps:
  assumes "(case ep of
       None \<Rightarrow> mtosend_msg env (Some c) (Some m) 0
     | Some a \<Rightarrow> do { e \<leftarrow> h_eps c a; r \<leftarrow> send_msg env c m (nn_sock e) (-1); Some (fst r, Some (snd r)) }) = Some s" and "snd s = Some c1"
  shows "chutes c1 = chutes c"
  using assms by (auto simp: option_bind_Some_iff split: option.splits dest!: retD [OF mtosend_keeps] retD [OF send_msg_keeps])

text \<open>
  C8. A call returns only a reply to the request, under a condition on the windows in which \<^verbatim>\<open>mt_call\<close> does not
  check what the receive thread stores: each message for the chute of the call that arrives before the first wait
  (\<open>k_pre\<close>), between the check of a transaction id and the test of the loop, or between the loop
  and the pick-up (\<open>k_end\<close>) carries the transaction id of the request.  Then a message that \<^verbatim>\<open>mt_call\<close> returns with state
  RMR_OK carries that transaction id, whatever was delivered to the chute during the waits
  and after the pick-up, and the chute is empty afterwards.  Without the condition the claim is false
  (\<open>call_early_reply_unchecked\<close>, \<open>call_overwritten_unchecked\<close> below).
\<close>

theorem call_returns_reply:
  assumes "mt_call env (Some ctx) (Some m) i max_wait ep = Some (Some (Some r, Some ctx'))" and "m_state r = RMR_OK"
    and "m_tp_buf m = Some b" and "m_xaction m = Some x" and "mem_rd b x RMR_MAX_XID = Some ex"
    and "only_replies i ex (k_pre env @ concat (map (\<lambda>w. fst (snd w) @ snd (snd w)) (k_ws env)) @ k_end env)"
  shows "xid_is r ex = Some True \<and> map_option ch_mbuf (get_chute ctx' i) = Some None"
proof -
  have on: "cflags ctx AND CFL_MTC_ENABLED \<noteq> 0" using assms(1,2) by (auto simp: mt_call_def)
  let ?send = "\<lambda>p. case ep of
       None \<Rightarrow> mtosend_msg (k_snd env) (Some (snd p)) (Some (fst p)) 0
     | Some a \<Rightarrow> do { e \<leftarrow> h_eps (snd p) a; r \<leftarrow> send_msg (k_snd env) (snd p) (fst p) (nn_sock e) (-1); Some (fst r, Some (snd r)) }"
  obtain p s c1 where p: "call_prep ctx m i = Some p" and s: "?send p = Some s" "snd s = Some c1"
    and n: "(if (case fst (fst s) of None \<Rightarrow> False | Some m1 \<Rightarrow> m_state m1 \<noteq> RMR_OK)
             then Some (Some (map_option (\<lambda>m1. m1\<lparr>m_tp_state := snd (fst s)\<rparr>) (fst (fst s)), Some c1))
             else do {
               c2 \<leftarrow> feed (k_rcv env) c1 (k_pre env);
               w \<leftarrow> call_loop (k_rcv env) c2 i 0 E0 (k_ws env);
               (case w of None \<Rightarrow> Some None
                | Some r \<Rightarrow> do { x \<leftarrow> call_end (k_rcv env) (snd r) i (fst (fst r)) (k_end env) (k_clear env); Some (Some (fst x, Some (snd x))) }) }) =
             Some (Some (Some r, Some ctx'))"
    using assms(1) on unfolding mt_call_def prod.case option.case if_not_P [OF on] option_bind_Some_iff by blast
  obtain c2 l where l: "feed (k_rcv env) c1 (k_pre env) = Some c2" "call_loop (k_rcv env) c2 i 0 E0 (k_ws env) = Some (Some l)"
    "call_end (k_rcv env) (snd l) i (fst (fst l)) (k_end env) (k_clear env) = Some (Some r, ctx')"
    using n assms(2) by (auto simp: option_bind_Some_iff split: if_splits option.splits)
  have u: "only_replies i ex (k_pre env)" "only_replies i ex (k_end env)" "\<And>w. w \<in> set (k_ws env) \<Longrightarrow> only_replies i ex (fst (snd w) @ snd (snd w))"
    using assms(6) by (auto simp: only_replies_def)
  obtain ch where ch: "get_chute (snd p) i = Some ch" "ch_mbuf ch = None" "ch_expect ch = ex" using call_prep_ok [OF p assms(3-5)] by blast
  have "get_chute c1 i = get_chute (snd p) i" using call_send_keeps [OF s] by (simp add: get_chute_def)
  then have "call_ok c1 i ex" using ch by (simp add: call_ok_def)
  then have "call_ok c2 i ex" using feed_call_ok [OF l(1)] u(1) by blast
  then have "call_ok (snd l) i ex" using call_loop_ok [OF l(2)] u(3) by blast
  then show ?thesis using call_end_ok [OF l(3)] u(2) by blast
qed

lemma demo_called:
  "(case mt_call demo_kenv (Some demo_caller) (Some (demo_typed 7)) 2 100 None of
      Some (Some (Some r, Some c)) \<Rightarrow> m_state r = RMR_OK | _ \<Rightarrow> False)"
  by code_simp

theorem call_returns_reply_witness:
  "\<exists>r ctx'. mt_call demo_kenv (Some demo_caller) (Some (demo_typed 7)) 2 100 None = Some (Some (Some r, Some ctx')) \<and>
     xid_is r (replicate 32 0) = Some True \<and> map_option ch_mbuf (get_chute ctx' 2) = Some None"
proof -
  obtain r ctx' where r: "mt_call demo_kenv (Some demo_caller) (Some (demo_typed 7)) 2 100 None = Some (Some (Some r, Some ctx'))" "m_state r = RMR_OK"
    using demo_called by (auto split: option.splits)
  have x: "mem_rd demo_buf 62 32 = Some (replicate 32 0)" by code_simp
  have "xid_is r (replicate 32 0) = Some True \<and> map_option ch_mbuf (get_chute ctx' 2) = Some None"
    by (rule call_returns_reply [OF r _ _ x]) (simp_all add: demo_kenv_def demo_typed_def demo_msg_def only_replies_def)
  with r(1) show ?thesis by blast
qed

lemma get_put_chute: "get_chute c i = Some ch \<Longrightarrow> get_chute (put_chute c i x) i = Some x"
  by (auto simp: get_chute_def put_chute_def split: if_splits)

lemma deliverable_total:
  assumes "deliverable m" and "length (chutes c) = 256"
  shows "\<exists>c'. deliver_mbuf env c m = Some c'"
proof -
  obtain b l1 l2 l3 fl where b: "mbuf_ok m b l1 l2 l3" "hdr_flags b 50 = Some fl" using assms(1) by (auto simp: deliverable_def)
  show ?thesis using deliver_mbuf_routes [OF b assms(2) refl, of env] queue_normal_total [OF assms(2), of env m] by (auto split: if_splits)
qed

lemma feed_total:
  assumes "\<And>m. m \<in> set ms \<Longrightarrow> deliverable m" and "length (chutes c) = 256" and "k < 256" and "0 < k"
  shows "\<exists>c'. feed env c ms = Some c' \<and> length (chutes c') = 256 \<and> chutes c' ! k = stored (for_chute k ms) (chutes c ! k)"
proof -
  have "\<exists>c'. feed env c ms = Some c'" using assms(1,2)
  proof (induction ms arbitrary: c)
    case (Cons m ms)
    then obtain c1 where c1: "deliver_mbuf env c m = Some c1" using deliverable_total by fastforce
    then have "length (chutes c1) = 256" using deliver_slot [OF c1] Cons.prems(2) by simp
    then show ?case using Cons c1 by simp
  qed simp
  then show ?thesis using feed_slot [of env c ms _ k] assms(2-4) by fastforce
qed

text \<open>The turns of the wait loop, by what arrives for chute \<open>k\<close>.  Nothing arrives in the two windows
  after the check.  In a turn after which the call goes on waiting, the last message that has arrived when the chute is looked
  at has another transaction id, or none has arrived and the wait, if it failed, was interrupted.  In
  the turn with the reply, a message arrives before the wait returns, and the last one when the
  chute is looked at is the reply.\<close>

fun turn_on :: "nat \<Rightarrow> bytes \<Rightarrow> call_wait \<Rightarrow> bool" where
  "turn_on k ex ((bef, er, aft), mid, late) \<longleftrightarrow> for_chute k (mid @ late) = [] \<and>
     (if for_chute k (bef @ aft) = [] then er = EINTR else xid_is (last (for_chute k (bef @ aft))) ex = Some False)"

fun turn_reply :: "nat \<Rightarrow> bytes \<Rightarrow> mbuf \<Rightarrow> call_wait \<Rightarrow> bool" where
  "turn_reply k ex r ((bef, er, aft), mid, late) \<longleftrightarrow> for_chute k (mid @ late) = [] \<and>
     for_chute k bef \<noteq> [] \<and> last (for_chute k (bef @ aft)) = r \<and> xid_is r ex = Some True"

fun turn_msgs :: "call_wait \<Rightarrow> mbuf list" where
  "turn_msgs ((bef, er, aft), mid, late) = bef @ aft @ mid @ late"

lemma get_chute_nth: "length (chutes c) = 256 \<Longrightarrow> k < 256 \<Longrightarrow> get_chute c (int k) = Some (chutes c ! k)"
  by (simp add: get_chute_def)

lemma put_chute_nth [simp]: "length (chutes (put_chute c (int k) x)) = length (chutes c)" "k < length (chutes c) \<Longrightarrow> chutes (put_chute c (int k) x) ! k = x"
  by (simp_all add: put_chute_def)

text \<open>The state of the context between two turns.\<close>

definition waiting :: "'a rcv_ctx_scheme \<Rightarrow> nat \<Rightarrow> bytes \<Rightarrow> mbuf option \<Rightarrow> bool" where
  "waiting c k ex mo \<longleftrightarrow> length (chutes c) = 256 \<and> ch_mbuf (chutes c ! k) = mo \<and> ch_expect (chutes c ! k) = ex \<and> 0 \<le> ch_barrier (chutes c ! k)"

lemma wait_chute:
  assumes k: "0 < k" "k < 256" and w: "waiting c k ex None" and ms: "\<And>m. m \<in> set (bef @ aft) \<Longrightarrow> deliverable m"
  shows "\<exists>c' ok. sem_wait env c (int k) e (bef, er, aft) = Some (if ok then (0, e) else (-1, er), c') \<and> (for_chute k bef \<noteq> [] \<longrightarrow> ok) \<and>
    waiting c' k ex (if for_chute k (bef @ aft) = [] then None else Some (last (for_chute k (bef @ aft))))"
proof -
  note W = w [unfolded waiting_def]
  obtain c1 where c1: "feed env c bef = Some c1" "length (chutes c1) = 256" "chutes c1 ! k = stored (for_chute k bef) (chutes c ! k)"
    using feed_total [of bef c k env] ms W k by auto
  define ok where "ok = (ch_barrier (chutes c1 ! k) > 0)"
  define c2 where "c2 = (if ok then put_chute c1 (int k) ((chutes c1 ! k)\<lparr>ch_barrier := ch_barrier (chutes c1 ! k) - 1\<rparr>) else c1)"
  have c2: "length (chutes c2) = 256" "ch_mbuf (chutes c2 ! k) = ch_mbuf (chutes c1 ! k)" "ch_expect (chutes c2 ! k) = ex" "0 \<le> ch_barrier (chutes c2 ! k)"
    using c1(2,3) W k by (auto simp: c2_def ok_def stored_def)
  obtain c3 where c3: "feed env c2 aft = Some c3" "length (chutes c3) = 256" "chutes c3 ! k = stored (for_chute k aft) (chutes c2 ! k)"
    using feed_total [of aft c2 k env] ms c2(1) k by auto
  have "sem_wait env c (int k) e (bef, er, aft) = Some (if ok then (0, e) else (-1, er), c3)"
    using c1(1) c3(1) get_chute_nth [OF c1(2) k(2)] by (simp add: sem_wait_def c2_def ok_def Let_def)
  moreover have "for_chute k bef \<noteq> [] \<longrightarrow> ok" using c1(3) W by (cases "for_chute k bef") (auto simp: ok_def stored_def)
  moreover have "waiting c3 k ex (if for_chute k (bef @ aft) = [] then None else Some (last (for_chute k (bef @ aft))))"
    unfolding waiting_def using c3(2,3) c2 c1(3) W by (cases "for_chute k bef = []"; cases "for_chute k aft = []") (auto simp: stored_def)
  ultimately show ?thesis by blast
qed

lemma quiet_feed:
  assumes "0 < k" "k < 256" and "waiting c k ex mo" and "\<And>m. m \<in> set ms \<Longrightarrow> deliverable m" and "for_chute k ms = []"
  shows "\<exists>c'. feed env c ms = Some c' \<and> waiting c' k ex mo"
  using feed_total [of ms c k env] assms unfolding waiting_def by (auto simp: stored_def)

lemma turn_ok:
  assumes k: "0 < k" "k < 256" and w: "waiting c k ex None" and ms: "\<And>m. m \<in> set (turn_msgs t) \<Longrightarrow> deliverable m"
  shows "(turn_on k ex t \<longrightarrow> (\<exists>st c'. call_step env c (int k) E0 t = Some ((st, E0), c') \<and> waiting c' k ex None)) \<and>
    (turn_reply k ex r t \<longrightarrow> (\<exists>c'. call_step env c (int k) E0 t = Some ((0, E0), c') \<and> waiting c' k ex (Some r)))"
proof -
  obtain bef er aft mid late where t: "t = ((bef, er, aft), mid, late)" by (metis prod_cases3)
  have md: "\<And>m. m \<in> set (bef @ aft) \<Longrightarrow> deliverable m" "\<And>m. m \<in> set mid \<Longrightarrow> deliverable m" "\<And>m. m \<in> set late \<Longrightarrow> deliverable m"
    "\<And>m. m \<in> set (mid @ late) \<Longrightarrow> deliverable m" using ms t by auto
  from wait_chute [where env = env and e = E0 and er = er, OF k w md(1)] obtain c1 ok where
    s: "sem_wait env c (int k) E0 (bef, er, aft) = Some (if ok then (0, E0) else (-1, er), c1)" "for_chute k bef \<noteq> [] \<longrightarrow> ok"
    "waiting c1 k ex (if for_chute k (bef @ aft) = [] then None else Some (last (for_chute k (bef @ aft))))" by blast
  have c1: "length (chutes c1) = 256" "ch_expect (chutes c1 ! k) = ex" using s(3) by (simp_all add: waiting_def)
  note g1 = get_chute_nth [OF c1(1) k(2)]
  show ?thesis
  proof (cases "for_chute k (mid @ late) = []")
    case False
    then show ?thesis using t by auto
  next
    case quiet: True
    show ?thesis
    proof (cases "for_chute k (bef @ aft) = []")
      case True
      then have w1: "waiting c1 k ex None" using s(3) by simp
      obtain c2 where c2: "feed env c1 (mid @ late) = Some c2" "waiting c2 k ex None" using quiet_feed [OF k w1 md(4) quiet] by blast
      have "er = EINTR \<Longrightarrow> call_step env c (int k) E0 t = Some ((if ok then 0 else -1, E0), c2)"
        using s(1) g1 w1 c2(1) by (auto simp: t call_step_def waiting_def)
      then show ?thesis using c2(2) True t by auto
    next
      case False
      let ?m = "last (for_chute k (bef @ aft))"
      have w1: "waiting c1 k ex (Some ?m)" using s(3) unfolding if_not_P [OF False] .
      have q: "for_chute k mid = []" "for_chute k late = []" using quiet by simp_all
      obtain c2 where c2: "feed env c1 mid = Some c2" "waiting c2 k ex (Some ?m)" using quiet_feed [OF k w1 _ q(1)] md(2) by blast
      have l2: "length (chutes c2) = 256" using c2(2) by (simp add: waiting_def)
      note g2 = get_chute_nth [OF l2 k(2)]
      let ?d = "put_chute c2 (int k) ((chutes c2 ! k)\<lparr>ch_mbuf := None\<rparr>)"
      have "waiting ?d k ex None" using c2(2) k by (simp add: waiting_def)
      then obtain c3 where c3: "feed env ?d late = Some c3" "waiting c3 k ex None" using quiet_feed [OF k _ _ q(2), of ?d] md(3) by blast
      obtain c4 where c4: "feed env c2 late = Some c4" "waiting c4 k ex (Some ?m)" using quiet_feed [OF k c2(2) _ q(2)] md(3) by blast
      have "xid_is ?m ex = Some False \<Longrightarrow> call_step env c (int k) E0 t = Some ((if ok then 0 else -1, E0), c3)"
        using s(1) g1 w1 c2(1) g2 c3(1) by (auto simp: t call_step_def waiting_def)
      moreover have "ok \<Longrightarrow> xid_is ?m ex = Some True \<Longrightarrow> call_step env c (int k) E0 t = Some ((0, E0), c4)"
        using s(1) g1 w1 c2(1) g2 c4(1) by (auto simp: t call_step_def waiting_def)
      ultimately show ?thesis using c3(2) c4(2) s(2) False t by auto
    qed
  qed
qed

lemma call_loop_reply:
  assumes "0 < k" "k < 256" and "waiting c k ex None" and "\<And>t m. t \<in> set (ts @ [w]) \<Longrightarrow> m \<in> set (turn_msgs t) \<Longrightarrow> deliverable m"
    and "\<forall>t \<in> set ts. turn_on k ex t" and "turn_reply k ex r w"
  shows "\<exists>c'. call_loop env c (int k) st E0 (ts @ w # ws) = Some (Some ((0, E0), c')) \<and> waiting c' k ex (Some r)"
  using assms(3-5)
proof (induction ts arbitrary: c st)
  case Nil
  obtain c' where c': "call_step env c (int k) E0 w = Some ((0, E0), c')" "waiting c' k ex (Some r)"
    using turn_ok [where t = w and r = r and env = env, OF assms(1,2) Nil(1)] Nil(2) assms(6) by auto
  have "get_chute c (int k) = Some (chutes c ! k)" "get_chute c' (int k) = Some (chutes c' ! k)" using Nil(1) c'(2) assms(2) by (simp_all add: waiting_def get_chute_nth)
  then show ?case using c' Nil(1) by (cases ws) (simp_all add: waiting_def)
next
  case (Cons t ts)
  have tm: "\<And>m. m \<in> set (turn_msgs t) \<Longrightarrow> deliverable m" using Cons.prems(2) [of t] by simp
  have "turn_on k ex t" using Cons.prems(3) by simp
  then obtain st1 c1 where c1: "call_step env c (int k) E0 t = Some ((st1, E0), c1)" "waiting c1 k ex None"
    using turn_ok [where t = t and r = r and env = env, OF assms(1,2) Cons.prems(1) tm] by blast
  have "get_chute c (int k) = Some (chutes c ! k)" using Cons.prems(1) assms(2) by (simp add: waiting_def get_chute_nth)
  then have "call_loop env c (int k) st E0 ((t # ts) @ w # ws) = call_loop env c1 (int k) st1 E0 (ts @ w # ws)" using c1(1) Cons.prems(1) by (simp add: waiting_def)
  moreover have d: "deliverable m" if "t' \<in> set (ts @ [w])" "m \<in> set (turn_msgs t')" for t' m using Cons.prems(2) [of t' m] that by simp
  ultimately show ?case using Cons.IH [OF c1(2), where st = st1, OF d] Cons.prems(3) by simp
qed

text \<open>
  C13. A call whose request was sent gets its reply.  The messages that the receive thread delivers are
  well-formed, and none arrives for the chute of the call before the first wait, in the windows after
  a check, or between the loop and the pick-up.  During the waits any number of messages with other transaction
  ids may arrive for the chute, several in one wait, and waits may be interrupted; then
  a wait begins during which messages arrive of which the last is the reply (one that is stored before the reply in the same wait is
  overwritten by it, one that is stored after it would replace it).  Then \<^verbatim>\<open>mt_call\<close> drops the others, returns the reply with state
  RMR_OK and leaves the chute empty, whatever arrives for the receive ring and for other chutes.
\<close>

theorem call_gets_reply:
  assumes "cflags ctx AND CFL_MTC_ENABLED \<noteq> 0" and "0 < k" and "k < 256" and "length (chutes ctx) = 256" and "0 \<le> ch_barrier (chutes ctx ! k)"
    and "m_tp_buf m = Some b" and "m_xaction m = Some x" and "mem_rd b x RMR_MAX_XID = Some ex"
    and "call_prep ctx m (int k) = Some p" and "mtosend_msg (k_snd env) (Some (snd p)) (Some (fst p)) 0 = Some ((None, er), Some c1)"
    and "\<forall>d \<in> set (k_pre env @ concat (map turn_msgs (k_ws env)) @ k_end env @ k_clear env). deliverable d"
    and "for_chute k (k_pre env @ k_end env) = []"
    and "k_ws env = ts @ w # ws" and "\<forall>t \<in> set ts. turn_on k ex t" and "turn_reply k ex r w"
  shows "\<exists>ctx'. mt_call env (Some ctx) (Some m) (int k) max_wait None = Some (Some (Some (r\<lparr>m_state := RMR_OK\<rparr>), Some ctx')) \<and>
    map_option ch_mbuf (get_chute ctx' (int k)) = Some None"
proof -
  have "chutes c1 = (chutes ctx)[k := (chutes ctx ! k)\<lparr>ch_mbuf := None, ch_expect := ex\<rparr>]"
    using assms(3,4,6-9) retD [OF mtosend_keeps assms(10)] by (auto simp: call_prep_def option_bind_Some_iff put_chute_def get_chute_nth)
  then have "waiting c1 k ex None" using assms(3-5) by (simp add: waiting_def)
  then obtain c2 where c2: "feed (k_rcv env) c1 (k_pre env) = Some c2" "waiting c2 k ex None"
    using quiet_feed [OF assms(2,3), of c1 ex None "k_pre env" "k_rcv env"] assms(11,12) by auto
  obtain c3 where c3: "call_loop (k_rcv env) c2 (int k) 0 E0 (k_ws env) = Some (Some ((0, E0), c3))" "waiting c3 k ex (Some r)"
    using call_loop_reply [OF assms(2,3) c2(2) _ assms(14,15), of "k_rcv env" 0 ws] assms(11,13) by auto
  obtain c4 where c4: "feed (k_rcv env) c3 (k_end env) = Some c4" "waiting c4 k ex (Some r)"
    using quiet_feed [OF assms(2,3) c3(2), of "k_end env" "k_rcv env"] assms(11,12) by auto
  then have l4: "length (chutes c4) = 256" by (simp add: waiting_def)
  obtain c5 where c5: "feed (k_rcv env) c4 (k_clear env) = Some c5" "length (chutes c5) = 256"
    using feed_total [of "k_clear env" c4 k "k_rcv env"] assms(2,3,11) l4 by auto
  let ?c = "put_chute c5 (int k) ((chutes c5 ! k)\<lparr>ch_mbuf := None\<rparr>)"
  have "call_end (k_rcv env) c3 (int k) 0 (k_end env) (k_clear env) = Some (Some (r\<lparr>m_state := RMR_OK\<rparr>), ?c)"
    using c4 c5 l4 assms(3) by (simp add: call_end_def get_chute_nth waiting_def)
  then have "mt_call env (Some ctx) (Some m) (int k) max_wait None = Some (Some (Some (r\<lparr>m_state := RMR_OK\<rparr>), Some ?c))"
    using assms(1,9,10) c2(1) c3(1) by (simp add: mt_call_def)
  then show ?thesis using c5(2) assms(3) by (auto simp: get_chute_nth)
qed

definition demo_stray :: mbuf where
  "demo_stray = demo_reply\<lparr>m_tp_buf := Some (demo_buf[334 := 2, 62 := 1])\<rparr>"

lemma demo_sent:
  "(case call_prep demo_caller (demo_typed 7) 2 of None \<Rightarrow> False
    | Some p \<Rightarrow> (case mtosend_msg demo_fast (Some (snd p)) (Some (fst p)) 0 of Some ((None, e), Some c) \<Rightarrow> True | _ \<Rightarrow> False))"
  by code_simp

lemma demo_replies_deliverable: "deliverable demo_reply" "deliverable demo_stray"
proof -
  have g: "get32 (demo_buf[334 := x, 62 := y]) p = get32 demo_buf p" if "66 \<le> p" "p + 4 \<le> 334" for p x y
    using that length_demo_buf by (simp add: get32_def mem_rd_def drop_update_swap drop_update_cancel take_update_cancel)
  have r: "mbuf_ok (demo_msg\<lparr>m_tp_buf := Some (demo_buf[334 := x, 62 := y])\<rparr>) (demo_buf[334 := x, 62 := y]) 4 4 0" for x y
    using demo_msg_ok length_demo_buf g [of 246] g [of 250] g [of 254] g [of 258] by (simp add: mbuf_ok_def lens_def)
  have f: "\<exists>fl. hdr_flags (demo_buf[334 := x, 62 := y]) 50 = Some fl" for x y using length_demo_buf by (simp add: hdr_flags_def mem_rd_def)
  have z: "demo_buf[334 := 2] = demo_buf[334 := 2, 62 := demo_buf ! 62]" by (simp add: list_update_swap [of 334 62])
  show "deliverable demo_stray" unfolding deliverable_def demo_stray_def demo_reply_def using r [of 2 1] f [of 2 1] by auto
  show "deliverable demo_reply" unfolding deliverable_def demo_reply_def using r [of 2 "demo_buf ! 62", folded z] f [of 2 "demo_buf ! 62", folded z] by auto
qed

theorem call_gets_reply_witness:
  "\<exists>ctx'. mt_call (demo_kenv\<lparr>k_ws := [(([demo_stray, demo_stray], ETIMEDOUT, []), [], [demo_msg]), (([demo_stray, demo_reply], ETIMEDOUT, []), [], [])]\<rparr>)
       (Some demo_caller) (Some (demo_typed 7)) 2 100 None = Some (Some (Some (demo_reply\<lparr>m_state := RMR_OK\<rparr>), Some ctx'))"
proof -
  let ?w1 = "(([demo_stray, demo_stray], ETIMEDOUT, []), [], [demo_msg])" and ?w2 = "(([demo_stray, demo_reply], ETIMEDOUT, []), [], [])"
  let ?env = "demo_kenv\<lparr>k_ws := [?w1, ?w2]\<rparr>"
  obtain p e c where p: "call_prep demo_caller (demo_typed 7) (int 2) = Some p"
    "mtosend_msg demo_fast (Some (snd p)) (Some (fst p)) 0 = Some ((None, e), Some c)"
    using demo_sent by (auto split: option.splits prod.splits)
  have s: "mtosend_msg (k_snd ?env) (Some (snd p)) (Some (fst p)) 0 = Some ((None, e), Some c)" using p(2) by (simp add: demo_kenv_def)
  have x: "mem_rd demo_buf 62 32 = Some (replicate 32 0)" by code_simp
  have d: "chute_of demo_stray = Some 2 \<and> xid_is demo_stray (replicate 32 0) = Some False \<and> chute_of demo_reply = Some 2 \<and>
     xid_is demo_reply (replicate 32 0) = Some True \<and> chute_of demo_msg = Some 0" by code_simp
  have "\<exists>ctx'. mt_call ?env (Some demo_caller) (Some (demo_typed 7)) (int 2) 100 None = Some (Some (Some (demo_reply\<lparr>m_state := RMR_OK\<rparr>), Some ctx')) \<and>
      map_option ch_mbuf (get_chute ctx' (int 2)) = Some None"
    by (rule call_gets_reply [OF _ _ _ _ _ _ _ x p(1) s, where ts = "[?w1]" and r = demo_reply and w = ?w2 and ws = "[]"])
      (use d demo_replies_deliverable demo_deliverable in \<open>simp_all add: demo_kenv_def demo_typed_def demo_msg_def demo_caller_def demo_chutes_def\<close>)
  then show ?thesis by auto
qed

text \<open>How a reply goes astray.  One that is in the chute before the wait begins is returned whatever
  its transaction id, and so is one that is stored between the check of the transaction id and the pick-up; one that arrives just after an interrupted wait
  ends the loop with the state of that wait, so that the caller gets nothing and the reply stays.\<close>

lemma call_early_reply_unchecked:
  assumes "get_chute c i = Some ch" and "ch_mbuf ch = Some m"
  shows "call_loop env c i 0 E0 ws = Some (Some ((0, E0), c)) \<and> map_option fst (call_end env c i 0 [] []) = Some (Some (m\<lparr>m_state := RMR_OK\<rparr>))"
  using assms by (cases ws) (simp_all add: call_end_def)

lemma call_overwritten_unchecked:
  assumes "0 < k" and "k < 256" and "waiting c k ex None" and "deliverable r" and "chute_of r = Some k" and "xid_is r ex = Some True"
    and "deliverable m" and "chute_of m = Some k"
  shows "\<exists>c1 c2. call_loop env c (int k) 0 E0 [(([r], er, []), [], [])] = Some (Some ((0, E0), c1)) \<and>
    call_end env c1 (int k) 0 [m] [] = Some (Some (m\<lparr>m_state := RMR_OK\<rparr>), c2)"
proof -
  obtain c1 where c1: "call_loop env c (int k) 0 E0 [(([r], er, []), [], [])] = Some (Some ((0, E0), c1))" "waiting c1 k ex (Some r)"
    using call_loop_reply [OF assms(1-3), of "[]" "(([r], er, []), [], [])" r env 0 "[]"] assms(4-6) by auto
  then have "length (chutes c1) = 256" by (simp add: waiting_def)
  then obtain c2 where "feed env c1 [m] = Some c2" "length (chutes c2) = 256" "ch_mbuf (chutes c2 ! k) = Some m"
    using feed_total [of "[m]" c1 k env] assms(1,2,7,8) by (auto simp: stored_def simp del: feed.simps)
  then have "call_end env c1 (int k) 0 [m] [] = Some (Some (m\<lparr>m_state := RMR_OK\<rparr>), put_chute c2 (int k) ((chutes c2 ! k)\<lparr>ch_mbuf := None\<rparr>))"
    using assms(2) by (simp add: call_end_def get_chute_nth del: feed.simps(2))
  with c1(1) show ?thesis by blast
qed

lemma call_interrupted_loses_reply:
  assumes "get_chute c i = Some ch" and "ch_mbuf ch = None" and "ch_barrier ch \<le> 0" and "deliver_mbuf env c m = Some c1"
    and "get_chute c1 i = Some ch1" and "ch_mbuf ch1 = Some m" and "xid_is m (ch_expect ch1) = Some True"
  shows "call_loop env c i 0 E0 [(([], EINTR, [m]), [], [])] = Some (Some ((-1, E0), c1)) \<and> call_end env c1 i (-1) [] [] = Some (None, c1)"
  using assms by (simp add: call_step_def sem_wait_def call_end_def)

section \<open>The expiry time\<close>



end
