(* ===== verification/Init.thy ===== *)
theory Init
  imports Call_Inv
begin

text \<open>
  Making and closing a context: \<^verbatim>\<open>init\<close>, \<^verbatim>\<open>rmr_init\<close> and \<^verbatim>\<open>rmr_close\<close> of
  \<^verbatim>\<open>src/src/rmr/si/src/rmr_si.c\<close>, and that a new context satisfies the invariants on which the
  other theories rest.

  The threads that \<^verbatim>\<open>init\<close> starts are returned with the context.  An error is \<open>Inl\<close> with the error
  number, or with nothing when \<^verbatim>\<open>errno\<close> stays as a system call left it.  A fault is \<open>None\<close>; so is going
  on with a message ring or a table of chutes that could not be allocated, which the first message
  dereferences.
\<close>

section \<open>State\<close>

record col_ctx = snd_ctx +
  rtg_whid :: int
  shut :: bool
  seed_freed :: bool

datatype thread = Th_rtc | Th_rtc_file | Th_mt_receive

record init_env =
  i_snd :: snd_env
  i_getenv :: "string \<Rightarrow> string option"
  i_hostname :: "string option"
  i_ifs :: "(string \<times> ifaddr) list"
  i_efd :: int
  i_slot :: "mbuf option"
  i_sem :: "nat \<Rightarrow> bool"
  i_raw :: "nat \<Rightarrow> chute"

abbreviation (input) RMRFL_NOTHREAD :: u32 where "RMRFL_NOTHREAD \<equiv> 1"
abbreviation (input) RMRFL_NAME_ONLY :: u32 where "RMRFL_NAME_ONLY \<equiv> 4"
abbreviation (input) RMRFL_NOLOCK :: u32 where "RMRFL_NOLOCK \<equiv> 8"
abbreviation (input) UFL_MASK :: u32 where "UFL_MASK \<equiv> 0xff"
abbreviation (input) CFL_WARN :: u32 where "CFL_WARN \<equiv> 4"
abbreviation (input) MAX_RIVERS :: nat where "MAX_RIVERS \<equiv> 1024"

section \<open>The parts of a new context\<close>

text \<open>The protocol and the port of a listen specification.\<close>

definition split_port :: "string \<Rightarrow> string \<times> string" where
  "split_port s =
     (case dropWhile (\<lambda>c. c \<noteq> CHR '':'') s of
        [] \<Rightarrow> (''tcp'', s)
      | _ # p \<Rightarrow> (if hd s = CHR '':'' then ''tcp'' else takeWhile (\<lambda>c. c \<noteq> CHR '':'') s, p))"

text \<open>The host part of the name: the source id of the environment without a port, or the host name
  without its domain.  A bracket that is not closed is a fault.\<close>

definition src_host :: "init_env \<Rightarrow> string option option" where
  "src_host env =
     (case i_getenv env ''RMR_SRC_ID'' of
        Some tok \<Rightarrow>
          if tok \<noteq> [] \<and> hd tok = CHR ''[''
          then (if CHR '']'' \<in> set tok then Some (Some (take (RMR_MAX_SRC - 1) (takeWhile (\<lambda>c. c \<noteq> CHR '']'') tok @ '']''))) else None)
          else Some (Some (take (RMR_MAX_SRC - 1) (takeWhile (\<lambda>c. c \<noteq> CHR '':'') tok)))
      | None \<Rightarrow> Some (map_option (takeWhile (\<lambda>c. c \<noteq> CHR ''.'')) (i_hostname env)))"

text \<open>The two rings; the locks are configured unless the user does not want them.\<close>

definition mk_rings :: "init_env \<Rightarrow> u32 \<Rightarrow> (mbuf ring \<times> mbuf ring) option" where
  "mk_rings env flags =
     (let ok = n_ok (s_rt (i_snd env));
          mr = uta_mk_ring ok (i_slot env) (i_efd env) 4096;
          zr = uta_mk_ring ok (i_slot env) (i_efd env) 128
      in if flags AND RMRFL_NOLOCK = 0
         then do { m \<leftarrow> snd (uta_ring_config ok mr 1);
                   z \<leftarrow> snd (uta_ring_config ok (snd (uta_ring_config ok zr 2)) 4);
                   Some (m, z) }
         else do { m \<leftarrow> mr; z \<leftarrow> zr; Some (m, z) })"

text \<open>The context after \<^verbatim>\<open>memset\<close>; an empty list of chains stands for the NULL endpoint hash.\<close>

definition zero_ctx :: "mbuf ring \<Rightarrow> mbuf ring \<Rightarrow> unit ginfo_blk \<Rightarrow> col_ctx" where
  "zero_ctx mr zr g =
     \<lparr>my_name = [], my_ip = [], max_plen = 0, trace_data_len = 0, d1_len = 0, d2_len = 0, zcb_mring = zr,
      mring = mr, dcount = 0, acc_dcount = 0, acc_ecount = 0, chutes = [], nrivers = 0, rivers = [],
      river_hash = (\<lambda>_. None), max_ibm = 0, q_last_warning = 0,
      h_eps = (\<lambda>_. None), h_rtes = (\<lambda>_. None), h_rts = (\<lambda>_. None), h_next = 0,
      ephash = \<lparr>symlist = [], inhabitants = 0, deaths = 0, st_size = 0\<rparr>, rtable = None, old_rtable = None,
      new_rtable = None, fd2ep = None, ip_list = None, si_ctx = g,
      cflags = 0, rtable_ready = False, table_id = None, snarf_rt_fd = 0, seed_rt_fname = None, rt_events = [],
      send_retries = 0, wormholes = None, rtg_whid = 0, shut = False, seed_freed = False\<rparr>"

text \<open>The sizes, rivers and rings.\<close>

definition init_sizes :: "int \<Rightarrow> col_ctx \<Rightarrow> col_ctx" where
  "init_sizes def_msg_size c =
     c\<lparr>snarf_rt_fd := -1, nrivers := int MAX_RIVERS, rivers := replicate MAX_RIVERS (zero_river\<lparr>r_state := RS_NEW\<rparr>),
       send_retries := 1, d1_len := 4,
       max_ibm := (if def_msg_size < 1024 then 1024 else def_msg_size) + int SIZEOF_MHDR + 4 + d2_len c + int TP_HDR_LEN + 64,
       max_plen := (if def_msg_size > 0 then def_msg_size else 2048)\<rparr>"

text \<open>The names: what the context is called, its addresses and the address it puts into messages.\<close>

definition init_names :: "init_env \<Rightarrow> u32 \<Rightarrow> string \<Rightarrow> string \<Rightarrow> col_ctx \<Rightarrow> string \<times> col_ctx" where
  "init_names env flags host port c =
     (let name = host @ '':'' @ port;
          ips = mk_ip_list (n_ok (s_rt (i_snd env))) (i_getenv env ''RMR_BIND_IF'') (i_ifs env) port;
          ip = (case get_default_ip ips of Some a \<Rightarrow> a | None \<Rightarrow> name);
          name_only = (flags AND RMRFL_NAME_ONLY \<noteq> 0 \<or> (case i_getenv env ''RMR_SRC_NAMEONLY'' of Some t \<Rightarrow> atoi t > 0 | None \<Rightarrow> False));
          warn = (case i_getenv env ''RMR_WARNINGS'' of Some (x # _) \<Rightarrow> x = CHR ''1'' | _ \<Rightarrow> False)
      in (ip, c\<lparr>my_name := name, ip_list := ips, my_ip := (if name_only then name else ip),
                cflags := (if warn then cflags c OR CFL_WARN else cflags c)\<rparr>))"

definition bind_info :: "init_env \<Rightarrow> string \<Rightarrow> string \<Rightarrow> string" where
  "bind_info env ip port =
     take 255 ((case i_getenv env ''RMR_BIND_IF'' of Some i \<Rightarrow> i
        | None \<Rightarrow> if ip \<noteq> [] \<and> hd ip = CHR ''['' then ''[::]'' else ''0.0.0.0'') @ '':'' @ port)"

text \<open>The threads: the collector reads a file only when the port of the route manager is negative.\<close>

definition init_threads :: "init_env \<Rightarrow> u32 \<Rightarrow> thread list" where
  "init_threads env flags =
     (if flags AND RMRFL_NOTHREAD \<noteq> 0 then []
      else if (case i_getenv env ''RMR_RTG_SVC'' of Some t \<Rightarrow> atoi t < 0 | None \<Rightarrow> False) then [Th_rtc_file] else [Th_rtc]) @ [Th_mt_receive]"

section \<open>The function\<close>

text \<open>After the listener: the flag for calls, the endpoint hash, an empty route table and the threads.\<close>

definition init_tables :: "init_env \<Rightarrow> u32 \<Rightarrow> col_ctx \<Rightarrow> (errno option + col_ctx \<times> thread list) option" where
  "init_tables env flags c =
     (case rmr_sym_alloc (n_ok (s_rt (i_snd env))) 129 of
        None \<Rightarrow> Some (Inl (Some ENOMEM))
      | Some eph \<Rightarrow> do {
          r \<leftarrow> rt_clone_space (n_ok (s_rt (i_snd env))) (c\<lparr>cflags := cflags c OR CFL_MTC_ENABLED, ephash := eph\<rparr>) None None 0;
          Some (Inr ((snd r)\<lparr>rtable := fst r, rtable_ready := (flags AND RMRFL_NOTHREAD \<noteq> 0)\<rparr>, init_threads env flags)) })"

definition init :: "init_env \<Rightarrow> string option \<Rightarrow> int \<Rightarrow> u32 \<Rightarrow> (errno option + col_ctx \<times> thread list) option" where
  "init env uproto_port def_msg_size flags =
     (let ok = n_ok (s_rt (i_snd env)); port = snd (split_port (case uproto_port of Some p \<Rightarrow> p | None \<Rightarrow> ''tcp:4560''))
      in if \<not> ok M_strdup \<or> \<not> ok M_ctx then Some (Inl (Some ENOMEM))
         else if \<not> ok M_river \<or> \<not> ok M_chutes then None
         else do {
           rings \<leftarrow> mk_rings env flags;
           (case SIset_tflags (SIinitialise (si_ok (n_si (s_rt (i_snd env)))) ()) SI_TF_QUICK of
              None \<Rightarrow> Some (Inl None)
            | Some g \<Rightarrow> do {
                h \<leftarrow> src_host env;
                (case h of None \<Rightarrow> Some (Inl None)
                 | Some host \<Rightarrow>
                     if length host + 1 + length port \<ge> RMR_MAX_SRC then Some (Inl (Some EINVAL))
                     else do {
                       c1 \<leftarrow> snd (init_mtcall ok (i_sem env) (i_raw env) (Some (init_sizes def_msg_size (zero_ctx (fst rings) (snd rings) g))));
                       c2 \<leftarrow> fd2ep_init ok (Some c1);
                       (let (ip, c3) = init_names env flags host port c2 in do {
                          l \<leftarrow> SIlistener (n_si (s_rt (i_snd env))) g TCP_DEVICE (bind_info env ip port);
                          (if fst l < 0 then Some (Inl None) else init_tables env flags (c3\<lparr>si_ctx := snd l\<rparr>)) }) }) }) })"

definition rmr_init :: "init_env \<Rightarrow> string option \<Rightarrow> int \<Rightarrow> u32 \<Rightarrow> (errno option + col_ctx \<times> thread list) option" where
  "rmr_init env uproto_port def_msg_size flags = init env uproto_port def_msg_size (flags AND UFL_MASK)"

text \<open>Closing only asks the threads to stop; the file name is freed and still referenced.\<close>

definition rmr_close :: "col_ctx option \<Rightarrow> col_ctx option" where
  "rmr_close vctx = map_option (\<lambda>ctx. ctx\<lparr>seed_freed := (seed_rt_fname ctx \<noteq> None), shut := True\<rparr>) vctx"

section \<open>The new context\<close>

lemma ring_config_ring:
  "\<exists>r'. snd (uta_ring_config ok (Some r) n) = Some r' \<and> ring_wf r' = ring_wf r \<and> ring_list r' = ring_list r"
  by (auto simp: uta_ring_config_def Let_def ring_wf_def ring_list_def ring_count_def)

lemma mk_rings_new:
  assumes "n_ok (s_rt (i_snd env)) = all_ok"
  shows "\<exists>m z. mk_rings env fl = Some (m, z) \<and> ring_wf m \<and> ring_wf z \<and> ring_list m = [] \<and> ring_list z = []"
proof -
  have "\<exists>r :: mbuf ring. uta_mk_ring all_ok (i_slot env) (i_efd env) sz = Some r" if "0 < sz" for sz
    using that by (simp add: uta_mk_ring_def Let_def all_ok_def)
  from this [of 4096] this [of 128] obtain m z :: "mbuf ring" where r: "uta_mk_ring all_ok (i_slot env) (i_efd env) 4096 = Some m"
    "uta_mk_ring all_ok (i_slot env) (i_efd env) 128 = Some z" by auto
  have wf: "ring_wf m" "ring_list m = []" "ring_wf z" "ring_list z = []" using mk_ring_wf [OF _ _ r(1)] mk_ring_wf [OF _ _ r(2)] by simp_all
  obtain m1 z1 z2 where "snd (uta_ring_config all_ok (Some m) 1) = Some m1" "ring_wf m1" "ring_list m1 = []"
    "snd (uta_ring_config all_ok (Some z) 2) = Some z1" "snd (uta_ring_config all_ok (Some z1) 4) = Some z2" "ring_wf z2" "ring_list z2 = []"
    using ring_config_ring [of all_ok m 1] ring_config_ring [of all_ok z 2] ring_config_ring [of all_ok _ 4] wf by metis
  then show ?thesis using r wf assms by (simp add: mk_rings_def Let_def)
qed

lemma gi_new: "SIset_tflags (SIinitialise ok u) fl = Some g \<Longrightarrow> si_inv g []"
  by (auto simp: SIset_tflags_def SIinitialise_def SInew_gi_def si_inv_def dll_def map_ok_def split: if_splits)

text \<open>What every new context has before its tables are made.\<close>

definition bare_ctx :: "rcv_env \<Rightarrow> col_ctx \<Rightarrow> bool" where
  "bare_ctx renv c \<longleftrightarrow> h_eps c = (\<lambda>_. None) \<and> h_rtes c = (\<lambda>_. None) \<and> h_rts c = (\<lambda>_. None) \<and>
     rtable c = None \<and> old_rtable c = None \<and> new_rtable c = None \<and> wormholes c = None \<and>
     (\<exists>xs. si_inv (si_ctx c) xs) \<and> sem_inv renv c \<and> ctx_ok c \<and> pool_ok c \<and> length (my_name c) < RMR_MAX_SRC"

lemma tables_new:
  assumes b: "bare_ctx renv c" and ok: "n_ok (s_rt (i_snd env)) = all_ok"
  shows "\<exists>c'. init_tables env fl c = Some (Inr (c', init_threads env fl)) \<and> wh_ready c' \<and> rtc_inv c' \<and> sem_inv renv c' \<and> ctx_ok c' \<and> pool_ok c' \<and>
    my_name c' = my_name c \<and> max_plen c' = max_plen c \<and> d1_len c' = d1_len c \<and> d2_len c' = d2_len c \<and> trace_data_len c' = trace_data_len c \<and>
    rtable_ready c' = (fl AND RMRFL_NOTHREAD \<noteq> 0)"
proof -
  obtain eph :: "addr sym_tab" where e: "rmr_sym_alloc all_ok 129 = Some eph" by (simp add: rmr_sym_alloc_def all_ok_def Let_def)
  obtain h :: "addr sym_tab" where h: "rmr_sym_alloc all_ok RT_SIZE = Some h" by (simp add: rmr_sym_alloc_def all_ok_def Let_def)
  note H = hash_alloc [OF e] hash_alloc [OF h]
  let ?t = "\<lparr>rt_error = False, rt_hash = h, rt_updates = 0, rt_mupdates = 0, ref_count = 0\<rparr>"
  let ?c = "c\<lparr>cflags := cflags c OR CFL_MTC_ENABLED, ephash := eph, h_next := Suc (h_next c), h_rts := [h_next c \<mapsto> ?t],
    rtable := Some (h_next c), rtable_ready := (fl AND RMRFL_NOTHREAD \<noteq> 0)\<rparr>"
  have run: "init_tables env fl c = Some (Inr (?c, init_threads env fl))"
    using b e h ok by (simp add: init_tables_def rt_clone_space_def uta_rt_init_def new_addr_def put_rt_def bare_ctx_def all_ok_def)
  have v: "rt_view (h_rts ?c) = (\<lambda>_. Map.empty)" using H by (auto simp: rt_view_def fun_eq_iff split: option.splits if_splits)
  then have rt: "rt_inv ?c" using b H by (auto simp: rt_inv_def refs_ok_def bare_ctx_def split: if_splits)
  have ep: "ep_inv ?c" using b H by (auto simp: ep_inv_def bare_ctx_def split: if_splits)
  have tb: "tabs_ok ?c" using b by (auto simp: tabs_ok_def bare_ctx_def split: if_splits)
  have wh: "wh_inv ?c" using b by (simp add: wh_inv_def bare_ctx_def)
  have "sem_inv renv ?c" "ctx_ok ?c" "pool_ok ?c" "\<exists>xs. si_inv (si_ctx ?c) xs"
    using b by (simp_all add: bare_ctx_def sem_cnt_def ctx_ok_def pool_ok_def)
  with rt ep tb wh run show ?thesis by (intro exI [of _ ?c]) (simp add: wh_ready_def rtc_inv_def)
qed

lemma bare_new:
  assumes ok: "n_ok (s_rt (i_snd env)) = all_ok" and sem: "\<forall>i. i_sem env i" and lk: "e_lock renv"
    and r: "ring_wf m" "ring_wf z" "ring_list m = []" "ring_list z = []" and len: "length host + 1 + length port < RMR_MAX_SRC"
  obtains c1 c2 ip c3 where
    "snd (init_mtcall all_ok (i_sem env) (i_raw env) (Some (init_sizes sz (zero_ctx m z g)))) = Some c1" and "fd2ep_init all_ok (Some c1) = Some c2"
    and "init_names env fl host port c2 = (ip, c3)" and "\<And>g' xs. si_inv g' xs \<Longrightarrow> bare_ctx renv (c3\<lparr>si_ctx := g'\<rparr>)"
    and "max_plen c3 = (if sz > 0 then sz else 2048)" and "d1_len c3 = 4" and "d2_len c3 = 0" and "trace_data_len c3 = 0"
    and "my_name c3 = host @ '':'' @ port"
proof -
  let ?c0 = "init_sizes sz (zero_ctx m z g)"
  let ?c1 = "?c0\<lparr>chutes := map (\<lambda>i. if i < MAX_CALL_ID then (i_raw env i)\<lparr>ch_mbuf := None, ch_barrier := 0\<rparr> else i_raw env i) [0..<MAX_CALL_ID + 1]\<rparr>"
  let ?c2 = "?c1\<lparr>fd2ep := rmr_sym_alloc all_ok 129\<rparr>"
  have 1: "snd (init_mtcall all_ok (i_sem env) (i_raw env) (Some ?c0)) = Some ?c1"
    using sem by (simp add: init_mtcall_def all_ok_def del: upt_Suc cong: map_cong if_cong)
  have 2: "fd2ep_init all_ok (Some ?c1) = Some ?c2" by (simp add: fd2ep_init_def init_sizes_def zero_ctx_def)
  obtain ip c3 where 3: "init_names env fl host port ?c2 = (ip, c3)" by fastforce
  have n: "c3 = ?c2\<lparr>my_name := host @ '':'' @ port, ip_list := ip_list c3, my_ip := my_ip c3, cflags := cflags c3\<rparr>"
    using 3 by (auto simp: init_names_def Let_def)
  have f: "max_plen c3 = (if sz > 0 then sz else 2048)" "d1_len c3 = 4" "d2_len c3 = 0" "trace_data_len c3 = 0"
    "my_name c3 = host @ '':'' @ port"
    by (subst n, simp add: init_sizes_def zero_ctx_def)+
  have "ring_count m = 0" using r(3) by (metis length_ring_list list.size(3))
  then have "bare_ctx renv (c3\<lparr>si_ctx := g'\<rparr>)" if "si_inv g' xs" for g' xs
    by (subst n) (use that r lk len in \<open>auto simp: bare_ctx_def sem_cnt_def ctx_ok_def pool_ok_def init_sizes_def zero_ctx_def simp del: upt_Suc\<close>)
  with 1 2 3 f show thesis by (intro that)
qed

text \<open>\<^verbatim>\<open>init\<close> once the transport is there and the name is short enough.\<close>

lemma init_run:
  assumes ok: "n_ok (s_rt (i_snd env)) = all_ok" and sem: "\<forall>i. i_sem env i" and lk: "e_lock renv"
    and g: "SIset_tflags (SIinitialise (si_ok (n_si (s_rt (i_snd env)))) ()) SI_TF_QUICK = Some g"
    and h: "src_host env = Some (Some host)" and port: "port = snd (split_port (case p of Some x \<Rightarrow> x | None \<Rightarrow> ''tcp:4560''))"
    and len: "length host + 1 + length port < RMR_MAX_SRC"
  obtains c2 ip c3 fd g' where "init_names env fl host port c2 = (ip, c3)"
    and "SIlistener (n_si (s_rt (i_snd env))) g TCP_DEVICE (bind_info env ip port) = Some (fd, g')"
    and "init env p sz fl = (if fd < 0 then Some (Inl None) else init_tables env fl (c3\<lparr>si_ctx := g'\<rparr>))"
    and "bare_ctx renv (c3\<lparr>si_ctx := g'\<rparr>)" and "max_plen c3 = (if sz > 0 then sz else 2048)" and "d1_len c3 = 4" and "d2_len c3 = 0"
    and "trace_data_len c3 = 0" and "my_name c3 = host @ '':'' @ port"
proof -
  obtain m z where r: "mk_rings env fl = Some (m, z)" "ring_wf m" "ring_wf z" "ring_list m = []" "ring_list z = []" using mk_rings_new [OF ok] by blast
  obtain c1 c2 ip c3 where c: "snd (init_mtcall all_ok (i_sem env) (i_raw env) (Some (init_sizes sz (zero_ctx m z g)))) = Some c1"
    "fd2ep_init all_ok (Some c1) = Some c2" "init_names env fl host port c2 = (ip, c3)" "\<And>g' xs. si_inv g' xs \<Longrightarrow> bare_ctx renv (c3\<lparr>si_ctx := g'\<rparr>)"
    "max_plen c3 = (if sz > 0 then sz else 2048)" "d1_len c3 = 4" "d2_len c3 = 0" "trace_data_len c3 = 0" "my_name c3 = host @ '':'' @ port"
    using bare_new [OF ok sem lk r(2-5) len, of sz g fl] by blast
  obtain fd g' xs where l: "SIlistener (n_si (s_rt (i_snd env))) g TCP_DEVICE (bind_info env ip port) = Some (fd, g')" "si_inv g' xs"
    using SIlistener_inv [OF gi_new [OF g]] by blast
  have "init env p sz fl = (if fd < 0 then Some (Inl None) else init_tables env fl (c3\<lparr>si_ctx := g'\<rparr>))"
    using r(1) h g len c(1-3) l(1) ok port by (simp add: init_def Let_def all_ok_def [symmetric]) (simp add: all_ok_def)
  with l c(3,4,5-9) show thesis by (intro that)
qed

text \<open>
  C10. A new context is in order.  When memory can be had and the semaphores work, \<^verbatim>\<open>init\<close> returns an
  error or a context in which the semaphore counts the (empty) receive ring, the route tables,
  endpoints, transport blocks and wormholes satisfy their invariants, messages can be allocated
  and sent, and the name fits into the source field of a message.  Until a table arrives the
  context is ready only when no collector runs.
\<close>

theorem init_establishes:
  assumes ok: "n_ok (s_rt (i_snd env)) = all_ok" and sem: "\<forall>i. i_sem env i" and lk: "e_lock renv"
    and src: "\<And>t. i_getenv env ''RMR_SRC_ID'' = Some t \<Longrightarrow> t \<noteq> [] \<Longrightarrow> hd t = CHR ''['' \<Longrightarrow> CHR '']'' \<in> set t"
    and sp: "send_progress (n_si (s_rt (i_snd env)))" and sz: "sz < 2 ^ 31 - 334"
  shows "\<exists>r. init env p sz fl = Some r \<and>
    (case r of Inl e \<Rightarrow> True
     | Inr (c, ths) \<Rightarrow> wh_ready c \<and> rtc_inv c \<and> sem_inv renv c \<and> can_send (i_snd env) c 0 \<and> length (my_name c) < RMR_MAX_SRC \<and>
         rmr_ready (Some c) = (Th_rtc \<notin> set ths \<and> Th_rtc_file \<notin> set ths))"
proof -
  have "src_host env \<noteq> None" using src by (auto simp: src_host_def split: option.splits)
  then obtain h where h: "src_host env = Some h" by blast
  obtain port where port: "port = snd (split_port (case p of Some x \<Rightarrow> x | None \<Rightarrow> ''tcp:4560''))" by blast
  obtain m z where r: "mk_rings env fl = Some (m, z)" using mk_rings_new [OF ok] by blast
  show ?thesis
  proof (cases "\<exists>g host. SIset_tflags (SIinitialise (si_ok (n_si (s_rt (i_snd env)))) ()) SI_TF_QUICK = Some g \<and>
      h = Some host \<and> length host + 1 + length port < RMR_MAX_SRC")
    case False
    then show ?thesis using r h ok port by (auto simp: init_def Let_def all_ok_def split: option.splits)
  next
    case True
    then obtain g host where gh: "SIset_tflags (SIinitialise (si_ok (n_si (s_rt (i_snd env)))) ()) SI_TF_QUICK = Some g"
      "h = Some host" "length host + 1 + length port < RMR_MAX_SRC" by blast
    obtain c2 ip c3 fd g' where R: "init_names env fl host port c2 = (ip, c3)"
      "SIlistener (n_si (s_rt (i_snd env))) g TCP_DEVICE (bind_info env ip port) = Some (fd, g')"
      and run: "init env p sz fl = (if fd < 0 then Some (Inl None) else init_tables env fl (c3\<lparr>si_ctx := g'\<rparr>))" "bare_ctx renv (c3\<lparr>si_ctx := g'\<rparr>)"
      "max_plen c3 = (if sz > 0 then sz else 2048)" "d1_len c3 = 4" "d2_len c3 = 0" "trace_data_len c3 = 0" "my_name c3 = host @ '':'' @ port"
      by (rule init_run [OF ok sem lk gh(1) h [unfolded gh(2)] port gh(3), where sz = sz and fl = fl])
    obtain c' where c': "init_tables env fl (c3\<lparr>si_ctx := g'\<rparr>) = Some (Inr (c', init_threads env fl))" "wh_ready c'" "rtc_inv c'" "sem_inv renv c'"
      "ctx_ok c'" "pool_ok c'" "my_name c' = my_name c3" "max_plen c' = max_plen c3" "d1_len c' = 4" "d2_len c' = 0" "trace_data_len c' = 0"
      "rtable_ready c' = (fl AND RMRFL_NOTHREAD \<noteq> 0)"
      using tables_new [OF run(2) ok, of fl] run(4-6) by auto
    have "can_send (i_snd env) c' 0" using c' run(3) sz sp ok by (auto simp: can_send_def zc_mlen_def wh_ready_def)
    moreover have "length (my_name c') < RMR_MAX_SRC" using run(2) c'(7) by (simp add: bare_ctx_def)
    ultimately show ?thesis using run(1) c' by (cases "fd < 0") (auto simp: rmr_ready_def init_threads_def)
  qed
qed

text \<open>An example: a host called \<^verbatim>\<open>a.b\<close> that listens on port 4560.\<close>

definition demo_ienv :: init_env where
  "demo_ienv = \<lparr>i_snd = demo_senv, i_getenv = (\<lambda>_. None), i_hostname = Some ''a.b'', i_ifs = [], i_efd = 3, i_slot = None,
     i_sem = (\<lambda>_. True), i_raw = (\<lambda>_. \<lparr>ch_mbuf = None, ch_barrier = 7, ch_expect = []\<rparr>)\<rparr>"

lemma demo_ienv_ok: "n_ok (s_rt (i_snd demo_ienv)) = all_ok" "send_progress (n_si (s_rt (i_snd demo_ienv)))" "i_snd demo_ienv = demo_senv"
  "\<forall>i. i_sem demo_ienv i" "e_lock demo_env" "src_host demo_ienv = Some (Some ''a'')"
  using demo_can_send(1) by (simp_all add: demo_ienv_def can_send_def demo_env_def src_host_def)

lemma demo_init: "\<exists>c. init demo_ienv None 4096 0 = Some (Inr (c, [Th_rtc, Th_mt_receive])) \<and> my_name c = ''a:4560''"
proof -
  let ?g = "\<lparr>magicnum = MAGICNUM, tplist = None, readfds = [], writefds = [], execpfds = [], cbtab = replicate MAX_CBS None,
     fdcount = 0, gi_flags = 0, tcp_flags = SI_TF_QUICK, tp_map = (\<lambda>_. None), h_tp = (\<lambda>_. None), tp_fresh = 0, os_n = 0, os_log = [], si_user = ()\<rparr>"
  have g: "SIset_tflags (SIinitialise (si_ok (n_si (s_rt (i_snd demo_ienv)))) ()) SI_TF_QUICK = Some ?g"
    by (simp add: demo_ienv_def demo_senv_def demo_rt_env_def demo_si_def SIset_tflags_def SIinitialise_def SInew_gi_def all_ok_def)
  have p: "''4560'' = snd (split_port (case None of Some x \<Rightarrow> x | None \<Rightarrow> ''tcp:4560''))" by (simp add: split_port_def)
  have l: "map_option fst (SIlistener (n_si (s_rt (i_snd demo_ienv))) ?g TCP_DEVICE (bind_info demo_ienv ''a:4560'' ''4560'')) = Some 0"
    by code_simp
  obtain c2 ip c3 fd g' where r: "init_names demo_ienv 0 ''a'' ''4560'' c2 = (ip, c3)"
    "SIlistener (n_si (s_rt (i_snd demo_ienv))) ?g TCP_DEVICE (bind_info demo_ienv ip ''4560'') = Some (fd, g')"
    "init demo_ienv None 4096 0 = (if fd < 0 then Some (Inl None) else init_tables demo_ienv 0 (c3\<lparr>si_ctx := g'\<rparr>))"
    "bare_ctx demo_env (c3\<lparr>si_ctx := g'\<rparr>)" "max_plen c3 = (if (4096 :: int) > 0 then 4096 else 2048)" "d1_len c3 = 4" "d2_len c3 = 0" "trace_data_len c3 = 0"
    "my_name c3 = ''a'' @ '':'' @ ''4560''"
    by (rule init_run [OF demo_ienv_ok(1,4,5) g demo_ienv_ok(6) p, where sz = 4096 and fl = 0]) simp
  have "ip = ''a:4560''" using r(1) by (simp add: init_names_def Let_def mk_ip_list_def get_default_ip_def demo_ienv_def split: if_splits)
  then have "fd = 0" using l r(2) by simp
  then show ?thesis using tables_new [OF r(4) demo_ienv_ok(1), of 0] r(3,9) by (auto simp: init_threads_def demo_ienv_def)
qed

theorem init_establishes_witness:
  "\<exists>c. init demo_ienv None 4096 0 = Some (Inr (c, [Th_rtc, Th_mt_receive])) \<and> wh_ready c \<and> rtc_inv c \<and> sem_inv demo_env c \<and>
     can_send demo_senv c 0 \<and> my_name c = ''a:4560'' \<and> \<not> rmr_ready (Some c)"
proof -
  obtain c where c: "init demo_ienv None 4096 0 = Some (Inr (c, [Th_rtc, Th_mt_receive]))" "my_name c = ''a:4560''"
    using demo_init by blast
  have "\<exists>r. init demo_ienv None 4096 0 = Some r \<and> (case r of Inl e \<Rightarrow> True
     | Inr (c, ths) \<Rightarrow> wh_ready c \<and> rtc_inv c \<and> sem_inv demo_env c \<and> can_send (i_snd demo_ienv) c 0 \<and> length (my_name c) < RMR_MAX_SRC \<and>
         rmr_ready (Some c) = (Th_rtc \<notin> set ths \<and> Th_rtc_file \<notin> set ths))"
    by (rule init_establishes [OF demo_ienv_ok(1,4,5) _ demo_ienv_ok(2)]) (simp_all add: demo_ienv_def)
  with c demo_ienv_ok(3) show ?thesis by auto
qed

text \<open>A source id with a bracket that is not closed ends in a fault.\<close>

lemma init_open_bracket_faults:
  assumes "n_ok (s_rt (i_snd env)) = all_ok" and "i_getenv env ''RMR_SRC_ID'' = Some (CHR ''['' # t)" and "CHR '']'' \<notin> set t"
    and "SIinitialise (si_ok (n_si (s_rt (i_snd env)))) () = Some g"
  shows "init env p sz fl = None"
proof -
  have "src_host env = None" using assms(2,3) by (simp add: src_host_def)
  then show ?thesis using assms(1,4) by (simp add: init_def Let_def SIset_tflags_def all_ok_def split: bind_splits)
qed

end
