(* ===== verification/Rtc.thy ===== *)
theory Rtc
  imports Init
begin

text \<open>
  The route table collector: \<^verbatim>\<open>src/src/rmr/common/src/rtc_static.c\<close>, the messages to the route
  manager (\<^verbatim>\<open>send_update_req\<close>, \<^verbatim>\<open>send_rt_ack\<close>) and \<^verbatim>\<open>alarm_if_drops\<close> of
  \<^verbatim>\<open>rt_generic_static.c\<close>, and \<^verbatim>\<open>alarm.c\<close>.

  The collector is a thread with a context of its own, the private one, beside the context of the
  application.  A pass through its inner loop is a function of the state of the thread and of what
  the pass finds outside: the times, the messages that arrive during the timed receive, and the
  results on the verbosity file.  Static variables are part of the state.  Log messages and the
  print of the endpoint counts are left out; the reference to the route table that the print takes
  and returns is not.
\<close>

section \<open>State\<close>

abbreviation (input) RMRRM_TABLE_DATA :: int where "RMRRM_TABLE_DATA \<equiv> 20"
abbreviation (input) RMRRM_REQ_TABLE :: int where "RMRRM_REQ_TABLE \<equiv> 21"
abbreviation (input) RMRRM_TABLE_STATE :: int where "RMRRM_TABLE_STATE \<equiv> 22"
abbreviation (input) RIC_ALARM :: int where "RIC_ALARM \<equiv> 110"
abbreviation (input) RTCFL_HAVE_UPDATE :: u32 where "RTCFL_HAVE_UPDATE \<equiv> 1"
abbreviation (input) MAX_RTC_BUF :: int where "MAX_RTC_BUF \<equiv> 5 * 1024"
abbreviation (input) DEF_CTL_PORT :: string where "DEF_CTL_PORT \<equiv> ''4561''"
abbreviation (input) DEF_RTG_WK_ADDR :: string where "DEF_RTG_WK_ADDR \<equiv> ''routemgr:4561''"
abbreviation (input) DEF_RTREQ_FREQ :: int where "DEF_RTREQ_FREQ \<equiv> 5"

text \<open>The static variables of \<^verbatim>\<open>alarm_if_drops\<close> and \<^verbatim>\<open>uta_alarm_send\<close>.\<close>

record alarm_st =
  alarm_raised :: bool
  ok2clear :: int
  lastd :: int
  prob_id :: int
  al_whid :: int
  ok2log :: int

definition alarm0 :: alarm_st where
  "alarm0 = \<lparr>alarm_raised = False, ok2clear = 0, lastd = 0, prob_id = 0, al_whid = -1, ok2log = 0\<rparr>"

record rtc_st =
  t_ctx :: col_ctx
  t_pvt :: col_ctx
  t_msg :: "mbuf option"
  t_flags :: u32
  t_next :: int
  t_blabber :: int
  t_delay :: int
  t_bump :: int
  t_freq :: int
  t_addr :: string
  t_vfd :: int
  t_pbuf :: int
  t_alarm :: alarm_st

text \<open>The environment: what the sends, the parser, the receive and the initialisation need, the name
  of the program, and the verbosity file.\<close>

record rtc_env =
  c_snd :: snd_env
  c_parse :: parse_env
  c_rcv :: rcv_env
  c_init :: init_env
  c_prog :: string
  c_vopen :: "string \<Rightarrow> int"
  c_vread :: "int \<Rightarrow> string option"

text \<open>What one pass sees: the values of \<^verbatim>\<open>time\<close> at its calls, the time in milliseconds for an alarm,
  and the script of the timed receive.\<close>

record pass_env =
  y_now :: "nat \<Rightarrow> int"
  y_ms :: int
  y_ws :: "wait_step list"

section \<open>Messages to the route manager\<close>

text \<open>\<^verbatim>\<open>snprintf\<close> into the payload, and the length of the result.\<close>

definition put_text :: "mbuf \<Rightarrow> nat \<Rightarrow> string \<Rightarrow> (mbuf \<times> int) option" where
  "put_text m n text = do {
     b \<leftarrow> m_tp_buf m; p \<leftarrow> m_payload m;
     b1 \<leftarrow> mem_wr b p (str_bytes (take (n - 1) text) @ [0]);
     l \<leftarrow> strlen (drop p b1);
     Some (m\<lparr>m_tp_buf := Some b1\<rparr>, int l) }"

definition int_text :: "int \<Rightarrow> string" where
  "int_text n = (if n < 0 then ''-'' else []) @ dec (nat \<bar>n\<bar>)"

text \<open>The wormhole is one of the private context; a failed send closes the id in the other one.\<close>

definition send_update_req :: "snd_env \<Rightarrow> int \<Rightarrow> col_ctx \<Rightarrow> col_ctx \<Rightarrow> (int \<times> col_ctx \<times> col_ctx) option" where
  "send_update_req env now pctx ctx =
     (if rtg_whid ctx < 0 then Some (0, pctx, ctx)
      else do {
        a \<leftarrow> rmr_alloc_msg (n_ok (s_rt env)) (s_junk env) (s_lock env) (Some pctx) 1024;
        p1 \<leftarrow> snd a;
        (case fst a of None \<Rightarrow> Some (0, p1, ctx)
         | Some m0 \<Rightarrow> do {
             t \<leftarrow> put_text (m0\<lparr>m_mtype := RMRRM_REQ_TABLE, m_sub_id := 0\<rparr>) 1024 (my_name ctx @ '' ts='' @ int_text now @ [CHR 0x0A]);
             r \<leftarrow> rmr_wh_send_msg env (Some p1) (rtg_whid ctx) (Some ((fst t)\<lparr>m_len := snd t + 1\<rparr>));
             p2 \<leftarrow> snd r; m \<leftarrow> fst r;
             (if m_state m \<noteq> RMR_OK
              then do { c \<leftarrow> rmr_wh_close (Some ctx) (rtg_whid ctx); ctx1 \<leftarrow> c; Some (m_state m, p2, ctx1\<lparr>rtg_whid := -1\<rparr>) }
              else Some (m_state m, p2, ctx)) }) })"

definition ack_text :: "bool \<Rightarrow> string option \<Rightarrow> string option \<Rightarrow> string" where
  "ack_text ok tid reason =
     (if ok then ''OK'' else ''ERR'') @ '' '' @ (case tid of None \<Rightarrow> ''<id-missing>'' | Some t \<Rightarrow> t) @ '' '' @
     (case reason of None \<Rightarrow> [] | Some t \<Rightarrow> t) @ [CHR 0x0A]"

text \<open>The context here is the private one; the result has the message of the caller, which is used for
  the answer when there is one.\<close>

definition send_rt_ack :: "snd_env \<Rightarrow> col_ctx option \<Rightarrow> mbuf option \<Rightarrow> string option \<Rightarrow> bool \<Rightarrow> string option
    \<Rightarrow> (col_ctx option \<times> mbuf option) option" where
  "send_rt_ack env vctx smsg tid ok reason =
     (case vctx of None \<Rightarrow> Some (None, smsg)
      | Some ctx \<Rightarrow>
          if rtg_whid ctx < 0 \<or> cflags ctx AND CFL_NO_RTACK \<noteq> 0 then Some (vctx, smsg)
          else do {
            a \<leftarrow> (case smsg of
                    Some m \<Rightarrow> do { r \<leftarrow> rmr_realloc_payload (n_ok (s_rt env)) (s_junk env) (Some m) 1024 False False; Some (fst r, vctx) }
                  | None \<Rightarrow> rmr_alloc_msg (n_ok (s_rt env)) (s_junk env) (s_lock env) vctx 1024);
            (case fst a of None \<Rightarrow> Some (snd a, smsg)
             | Some m0 \<Rightarrow> do {
                 t \<leftarrow> put_text (m0\<lparr>m_mtype := RMRRM_TABLE_STATE, m_sub_id := -1\<rparr>) 1023 (ack_text ok tid reason);
                 r \<leftarrow> (if smsg \<noteq> None then rmr_rts_msg env (snd a) (Some ((fst t)\<lparr>m_len := snd t + 1\<rparr>))
                      else rmr_wh_send_msg env (snd a) (rtg_whid ctx) (Some ((fst t)\<lparr>m_len := snd t + 1\<rparr>)));
                 c1 \<leftarrow> snd r; m \<leftarrow> fst r;
                 c2 \<leftarrow> (if m_state m \<noteq> RMR_OK
                       then do { c \<leftarrow> rmr_wh_close (Some c1) (rtg_whid c1); c3 \<leftarrow> c; Some (c3\<lparr>rtg_whid := -1\<rparr>) }
                       else Some c1);
                 Some (Some c2, if smsg \<noteq> None then Some m else None) }) })"

section \<open>Alarms\<close>

definition uta_alarm_endpt :: "(string \<Rightarrow> string option) \<Rightarrow> string" where
  "uta_alarm_endpt getenv =
     take 298 ((case getenv ''ALARM_MGR_SERVICE_NAME'' of Some a \<Rightarrow> a | None \<Rightarrow> ''service-ricplt-alarmmanager-rmr'') @ '':'' @
               (case getenv ''ALARM_MGR_SERVICE_PORT'' of Some p \<Rightarrow> p | None \<Rightarrow> ''4560''))"

definition uta_alarm_send :: "rtc_env \<Rightarrow> int \<Rightarrow> col_ctx \<Rightarrow> alarm_st \<Rightarrow> mbuf option \<Rightarrow> (col_ctx \<times> alarm_st) option" where
  "uta_alarm_send env now ctx al msg = do {
     o1 \<leftarrow> (if al_whid al < 0
           then do { r \<leftarrow> rmr_wh_open (c_snd env) (Some ctx) (Some (uta_alarm_endpt (i_getenv (c_init env)))); c1 \<leftarrow> snd r; Some (fst r, c1) }
           else Some (al_whid al, ctx));
     (if fst o1 < 0
      then Some (snd o1, al\<lparr>al_whid := fst o1, ok2log := (if now > ok2log al then now + 60 else ok2log al)\<rparr>)
      else case msg of None \<Rightarrow> Some (snd o1, al\<lparr>al_whid := fst o1\<rparr>)
           | Some m \<Rightarrow> do { r \<leftarrow> rmr_wh_send_msg (c_snd env) (Some (snd o1)) (fst o1) (Some m); c2 \<leftarrow> snd r;
                           Some (c2, al\<lparr>al_whid := fst o1\<rparr>) }) }"

definition alarm_text :: "string \<Rightarrow> int \<Rightarrow> string \<Rightarrow> bool \<Rightarrow> int \<Rightarrow> string" where
  "alarm_text prog pid info raise ms =
     ''{  \"managedObjectId\": null, \"applicationId\": \"'' @ prog @ ''\", \"specificProblem\": '' @ int_text pid @
     '', \"perceivedSeverity\": \"WARNING\", \"identifyingInfo\": \"'' @ info @
     ''\", \"additionalInfo\": null, \"AlarmAction\": \"'' @ (if raise then ''RAISE'' else ''CLEAR'') @
     ''\", \"AlarmTime\": '' @ int_text ms @ '' }''"

definition uta_alarm :: "rtc_env \<Rightarrow> pass_env \<Rightarrow> col_ctx \<Rightarrow> alarm_st \<Rightarrow> bool \<Rightarrow> int \<Rightarrow> string option \<Rightarrow> (col_ctx \<times> alarm_st) option" where
  "uta_alarm env y ctx al raise pid info = do {
     a \<leftarrow> rmr_alloc_msg (n_ok (s_rt (c_snd env))) (s_junk (c_snd env)) (s_lock (c_snd env)) (Some ctx) 2048;
     c1 \<leftarrow> snd a;
     (case fst a of None \<Rightarrow> Some (c1, al)
      | Some m0 \<Rightarrow> do {
          t \<leftarrow> put_text m0 2047 (alarm_text (c_prog env) pid (case info of Some i \<Rightarrow> i | None \<Rightarrow> ''unspecific RMR issue'') raise (y_ms y));
          uta_alarm_send env (y_now y 6) c1 al
            (Some ((fst t)\<lparr>m_len := snd t, m_state := RMR_OK, m_sub_id := -1, m_mtype := RIC_ALARM\<rparr>)) }) }"

text \<open>The decision of \<^verbatim>\<open>alarm_if_drops\<close> from the drop counter: the alarm to send, if any, and the new
  static variables.  At most one of its two calls of \<^verbatim>\<open>time\<close> is made.\<close>

datatype alarm_act = Raise int | Clear int

definition drop_check :: "alarm_st \<Rightarrow> int \<Rightarrow> int \<Rightarrow> alarm_act option \<times> alarm_st" where
  "drop_check al dc now =
     (if \<not> alarm_raised al
      then (if dc - lastd al = 0 then (None, al) else (Some (Raise (prob_id al)), al\<lparr>alarm_raised := True\<rparr>))
      else if dc - lastd al \<noteq> 0 then (None, al\<lparr>lastd := dc, ok2clear := 0\<rparr>)
      else if ok2clear al = 0 then (None, al\<lparr>ok2clear := now + 60\<rparr>)
      else if now > ok2clear al then (Some (Clear (prob_id al)), al\<lparr>alarm_raised := False, prob_id := prob_id al + 1\<rparr>)
      else (None, al))"

definition alarm_if_drops :: "rtc_env \<Rightarrow> pass_env \<Rightarrow> col_ctx \<Rightarrow> col_ctx \<Rightarrow> alarm_st \<Rightarrow> (col_ctx \<times> alarm_st) option" where
  "alarm_if_drops env y uctx pctx al =
     (case drop_check al (dcount uctx) (y_now y 5) of
        (None, al1) \<Rightarrow> Some (pctx, al1)
      | (Some (Raise i), al1) \<Rightarrow> uta_alarm env y pctx al1 True i (Some ''application running slow; RMR is dropping messages'')
      | (Some (Clear i), al1) \<Rightarrow> uta_alarm env y pctx al1 False i (Some ''RMR message dropping has stopped''))"

section \<open>Messages from the route manager\<close>

text \<open>The answers that the parser asked for, in order.\<close>

fun run_acks :: "snd_env \<Rightarrow> col_ctx \<Rightarrow> mbuf option \<Rightarrow> rt_event list \<Rightarrow> (col_ctx \<times> mbuf option) option" where
  "run_acks env p m [] = Some (p, m)"
| "run_acks env p m (RtAck ok tid reason # es) = do {
     r \<leftarrow> send_rt_ack env (Some p) m tid ok reason; p1 \<leftarrow> fst r; run_acks env p1 (snd r) es }"
| "run_acks env p m (_ # es) = run_acks env p m es"

text \<open>One record: the parser, then its answers on the message that the record came in.\<close>

definition rtc_rec :: "rtc_env \<Rightarrow> string \<Rightarrow> col_ctx \<times> col_ctx \<times> mbuf \<Rightarrow> (col_ctx \<times> col_ctx \<times> mbuf) option" where
  "rtc_rec env rec s =
     (case s of (c, p, m) \<Rightarrow> do {
        c1 \<leftarrow> parse_rt_rec (c_parse env) True (c\<lparr>rt_events := []\<rparr>) (Some rec);
        r \<leftarrow> run_acks (c_snd env) p (Some m) (rt_events c1);
        m1 \<leftarrow> snd r;
        Some (c1\<lparr>rt_events := rt_events c @ rt_events c1\<rparr>, fst r, m1) })"

text \<open>The loop over the records of the work buffer; there is always a last one, without a newline.\<close>

function rtc_recs :: "rtc_env \<Rightarrow> string \<Rightarrow> col_ctx \<times> col_ctx \<times> mbuf \<Rightarrow> (col_ctx \<times> col_ctx \<times> mbuf) option" where
  "rtc_recs env s st =
     (if CHR 0x0A \<in> set s
      then do { st1 \<leftarrow> rtc_rec env (takeWhile (\<lambda>x. x \<noteq> CHR 0x0A) s) st;
                rtc_recs env (tl (dropWhile (\<lambda>x. x \<noteq> CHR 0x0A) s)) st1 }
      else rtc_rec env s st)"
  by pat_completeness auto
termination
proof (relation "measure (\<lambda>(env, s, st). length s)", goal_cases)
  case (2 env s st x)
  have "length (tl (dropWhile (\<lambda>x. x \<noteq> CHR 0x0A) s)) < length s"
    using 2 length_dropWhile_le [of "\<lambda>x. x \<noteq> CHR 0x0A" s] by (cases s) (auto simp: less_Suc_eq_le intro: le_less_trans)
  then show ?case by simp
qed simp

declare rtc_recs.simps [simp del]

text \<open>The work buffer grows when the message does not fit with its terminator.\<close>

definition grow_pbuf :: "int \<Rightarrow> int \<Rightarrow> int" where
  "grow_pbuf sz mlen = (if sz \<le> mlen then (if mlen < 512 then 1024 else mlen * 2) else sz)"

definition rtc_parse_msg :: "rtc_env \<Rightarrow> mbuf \<Rightarrow> rtc_st \<Rightarrow> rtc_st option" where
  "rtc_parse_msg env m s =
     (if m_mtype m = RMRRM_TABLE_DATA
      then (let sz = grow_pbuf (t_pbuf s) (m_len m)
            in if m_len m < 0 \<or> sz \<noteq> t_pbuf s \<and> \<not> n_ok (s_rt (c_snd env)) M_user then None
               else do {
                 b \<leftarrow> m_tp_buf m; p \<leftarrow> m_payload m;
                 text \<leftarrow> mem_rd b p (nat (m_len m));
                 r \<leftarrow> rtc_recs env (bytes_str (cstr text)) (t_ctx s, t_pvt s, m);
                 (case r of (c1, p1, m1) \<Rightarrow>
                   Some (s\<lparr>t_ctx := c1, t_pvt := p1, t_msg := Some (m1\<lparr>m_len := 0\<rparr>), t_flags := t_flags s OR RTCFL_HAVE_UPDATE, t_pbuf := sz\<rparr>)) })
      else Some (s\<lparr>t_msg := Some m\<rparr>))"

section \<open>The thread\<close>

definition refresh_vlevel :: "rtc_env \<Rightarrow> bool \<Rightarrow> int \<Rightarrow> int \<times> int" where
  "refresh_vlevel env close_file vfd =
     (if close_file then (0, if vfd \<ge> 0 then -1 else vfd)
      else let fd = (if vfd < 0 then c_vopen env (case i_getenv (c_init env) ''RMR_VCTL_FILE'' of Some f \<Rightarrow> f | None \<Rightarrow> ''/tmp/rmr.v'') else vfd)
           in if fd < 0 then (0, fd)
              else (case c_vread env fd of Some (x # xs) \<Rightarrow> atoi (take 10 (x # xs)) | _ \<Rightarrow> 0, fd))"

text \<open>The port to listen on, the address of the route manager and whether requests are left out.\<close>

definition rtc_ports :: "(string \<Rightarrow> string option) \<Rightarrow> string \<times> string \<times> bool" where
  "rtc_ports getenv =
     (let (port0, daddr) = (case getenv ''RMR_CTL_PORT'' of
             Some (x # xs) \<Rightarrow> (x # xs, DEF_RTG_WK_ADDR)
           | _ \<Rightarrow> (DEF_CTL_PORT, DEF_CTL_PORT));
          addr = (case getenv ''RMR_RTG_SVC'' of Some (x # xs) \<Rightarrow> x # xs | _ \<Rightarrow> daddr);
          tokens = uta_tokenise (Some addr) 120 (CHR '':'')
      in if tokens = [] then (port0, addr, False)
         else if length tokens = 1 then (hd tokens, addr, True)
         else if hd tokens = ''tcp'' then (tokens ! 1, addr, True)
         else (port0, addr, False))"

definition req_freq :: "(string \<Rightarrow> string option) \<Rightarrow> int" where
  "req_freq getenv =
     (case getenv ''RMR_RTREQ_FREQ'' of None \<Rightarrow> DEF_RTREQ_FREQ
      | Some e \<Rightarrow> if atoi e < 1 \<or> atoi e > 300 then DEF_RTREQ_FREQ else atoi e)"

text \<open>The start of \<^verbatim>\<open>rtc\<close>: the seed table, the private context and the first file for the records.
  \<open>Inl\<close> is the context of a thread that cannot listen and only prints counts from then on.\<close>

definition rtc_start :: "rtc_env \<Rightarrow> int \<Rightarrow> int \<Rightarrow> col_ctx \<Rightarrow> (col_ctx + rtc_st) option" where
  "rtc_start env now vfd0 ctx = do {
     c1 \<leftarrow> read_static_rt (c_parse env) (ctx\<lparr>cflags := cflags ctx OR CFL_NO_RTACK\<rparr>);
     (let c2 = c1\<lparr>cflags := cflags c1 AND NOT CFL_NO_RTACK AND NOT CFL_FULLRT\<rparr>;
          (port, addr, quiet) = rtc_ports (i_getenv (c_init env))
      in do {
        r \<leftarrow> init (c_init env) (Some port) MAX_RTC_BUF RMRFL_NOTHREAD;
        (case r of Inl e \<Rightarrow> Some (Inl c2)
         | Inr (p, ths) \<Rightarrow>
             Some (Inr \<lparr>t_ctx = cycle_snarfed_rt (c_parse env) (c2\<lparr>rtg_whid := -1\<rparr>), t_pvt = p, t_msg = None,
                        t_flags = (if quiet then RTCFL_HAVE_UPDATE else 0), t_next = 0, t_blabber = 0, t_delay = 30,
                        t_bump = now + 300, t_freq = req_freq (i_getenv (c_init env)), t_addr = addr,
                        t_vfd = snd (refresh_vlevel env False vfd0), t_pbuf = 0, t_alarm = alarm0\<rparr>)) }) }"

text \<open>A request for a table when none has come and it is time.\<close>

definition rtc_request :: "rtc_env \<Rightarrow> pass_env \<Rightarrow> rtc_st \<Rightarrow> rtc_st option" where
  "rtc_request env y s =
     (if t_flags s AND RTCFL_HAVE_UPDATE = 0 \<and> y_now y 0 \<ge> t_next s
      then do {
        o1 \<leftarrow> (if rtg_whid (t_ctx s) < 0
              then do { r \<leftarrow> rmr_wh_open (c_snd env) (Some (t_pvt s)) (Some (t_addr s)); p1 \<leftarrow> snd r; Some ((t_ctx s)\<lparr>rtg_whid := fst r\<rparr>, p1) }
              else Some (t_ctx s, t_pvt s));
        u \<leftarrow> send_update_req (c_snd env) (y_now y 1) (snd o1) (fst o1);
        Some (s\<lparr>t_ctx := snd (snd u), t_pvt := fst (snd u), t_next := y_now y 2 + t_freq s\<rparr>) }
      else Some s)"

text \<open>The periodic print of the counts.\<close>

definition rtc_blabber :: "rtc_env \<Rightarrow> pass_env \<Rightarrow> rtc_st \<Rightarrow> rtc_st option" where
  "rtc_blabber env y s =
     (if y_now y 3 > t_blabber s
      then (let (vlevel, vfd) = refresh_vlevel env False (t_vfd s);
                blab = y_now y 4 + t_delay s;
                s1 = s\<lparr>t_vfd := vfd, t_blabber := blab, t_delay := (if blab > t_bump s then 300 else t_delay s)\<rparr>
            in if vlevel \<ge> 0
               then do { r \<leftarrow> get_rt (t_ctx s1); c \<leftarrow> release_rt (snd r) (fst r); Some (s1\<lparr>t_ctx := c\<rparr>) }
               else Some s1)
      else Some s)"

text \<open>A pass through the inner loop without a message.  The result is \<open>Some None\<close> when the receive has
  not returned at the end of its script.\<close>

definition rtc_idle :: "rtc_env \<Rightarrow> pass_env \<Rightarrow> rtc_st \<Rightarrow> rtc_st option option" where
  "rtc_idle env y s = do {
     s1 \<leftarrow> rtc_request env y s;
     w \<leftarrow> rmr_torcv_msg (c_rcv env) (y_ws y) (Some (t_pvt s1)) (t_msg s1) 1000;
     (case w of None \<Rightarrow> Some None
      | Some ((mo, po), ws) \<Rightarrow> do {
          p1 \<leftarrow> po;
          s2 \<leftarrow> rtc_blabber env y (s1\<lparr>t_pvt := p1, t_msg := mo\<rparr>);
          (if shut (t_ctx s2) then Some (Some s2)
           else do { r \<leftarrow> alarm_if_drops env y (t_ctx s2) (t_pvt s2) (t_alarm s2);
                     Some (Some (s2\<lparr>t_pvt := fst r, t_alarm := snd r\<rparr>)) }) }) }"

text \<open>What follows the inner loop: a message is parsed; the thread ends when it was asked to.\<close>

definition rtc_parse :: "rtc_env \<Rightarrow> rtc_st \<Rightarrow> (bool \<times> rtc_st) option" where
  "rtc_parse env s = do {
     s1 \<leftarrow> (let s0 = s\<lparr>t_vfd := snd (refresh_vlevel env False (t_vfd s))\<rparr>
           in case t_msg s of Some m \<Rightarrow> if m_len m > 0 then rtc_parse_msg env m s0 else Some s0 | None \<Rightarrow> Some s0);
     Some (shut (t_ctx s1), s1) }"

text \<open>One pass of the thread: whether it ends, and its state.\<close>

definition has_msg :: "rtc_st \<Rightarrow> bool" where
  "has_msg s = (case t_msg s of Some m \<Rightarrow> m_len m > 0 | None \<Rightarrow> False)"

definition rtc_pass :: "rtc_env \<Rightarrow> pass_env \<Rightarrow> rtc_st \<Rightarrow> (bool \<times> rtc_st) option option" where
  "rtc_pass env y s =
     (if has_msg s then do { r \<leftarrow> rtc_parse env s; Some (Some r) }
      else do {
        i \<leftarrow> rtc_idle env y s;
        (case i of None \<Rightarrow> Some None
         | Some s1 \<Rightarrow> if shut (t_ctx s1) then do { r \<leftarrow> rtc_parse env s1; Some (Some r) } else Some (Some (False, s1))) })"

text \<open>A pass of the thread that only reads the file, and its start.\<close>

definition rtc_file_start :: "col_ctx \<Rightarrow> col_ctx" where
  "rtc_file_start ctx = ctx\<lparr>cflags := cflags ctx OR CFL_NO_RTACK\<rparr>"

definition rtc_file_pass :: "rtc_env \<Rightarrow> int \<times> col_ctx \<Rightarrow> (bool \<times> int \<times> col_ctx) option" where
  "rtc_file_pass env s =
     (case s of (vfd, ctx) \<Rightarrow> do {
        c1 \<leftarrow> read_static_rt (c_parse env) ctx;
        Some (if shut c1 then (True, snd (refresh_vlevel env True (snd (refresh_vlevel env False vfd))), c1)
              else (False, snd (refresh_vlevel env False vfd), c1)) })"

end
