(* ===== verification/Rtc_Inv.thy ===== *)
theory Rtc_Inv
  imports Rtc
begin

text \<open>
  Correctness of the route table collector: the records of a message are parsed in order, the alarms
  for dropped messages alternate and are cleared after a quiet minute, the mode follows from the
  environment; and two faults of the thread: a message of another type stops it, and a request that
  cannot be sent closes a wormhole of the application.
\<close>

section \<open>Records\<close>

lemma recs_of_join:
  assumes "recs \<noteq> []" and "\<forall>r \<in> set recs. CHR 0x0A \<notin> set r"
  shows "rtc_recs env (join (CHR 0x0A) recs) st = run_ops (\<lambda>st r. rtc_rec env r st) st recs"
  using assms
proof (induction recs arbitrary: st)
  case (Cons r rs)
  have n: "CHR 0x0A \<notin> set r" using Cons.prems(2) by simp
  show ?case
  proof (cases "rs = []")
    case True
    then show ?thesis using n by (cases "rtc_rec env r st") (simp_all add: rtc_recs.simps)
  next
    case False
    then have j: "join (CHR 0x0A) (r # rs) = r @ CHR 0x0A # join (CHR 0x0A) rs" by (cases rs) simp_all
    have t: "takeWhile (\<lambda>x. x \<noteq> CHR 0x0A) (r @ CHR 0x0A # w) = r" "dropWhile (\<lambda>x. x \<noteq> CHR 0x0A) (r @ CHR 0x0A # w) = CHR 0x0A # w" for w
      using n by (induction r) auto
    show ?thesis using Cons.IH False Cons.prems unfolding j by (subst rtc_recs.simps, cases "rtc_rec env r st") (simp_all add: t)
  qed
qed simp

text \<open>Examples: a message with two comments, and one of another type.\<close>

definition demo_col :: col_ctx where
  "demo_col = zero_ctx (mring demo_rcv) (mring demo_rcv) demo_gi"

definition demo_cenv :: rtc_env where
  "demo_cenv = \<lparr>c_snd = demo_senv, c_parse = demo_penv, c_rcv = demo_env, c_init = demo_ienv, c_prog = ''x'', c_vopen = (\<lambda>_. -1), c_vread = (\<lambda>_. None)\<rparr>"

definition demo_rst :: rtc_st where
  "demo_rst = \<lparr>t_ctx = demo_col, t_pvt = demo_col, t_msg = None, t_flags = 0, t_next = 0, t_blabber = 0, t_delay = 30, t_bump = 300,
     t_freq = 5, t_addr = ''b:2'', t_vfd = -1, t_pbuf = 0, t_alarm = alarm0\<rparr>"

definition demo_tmsg :: mbuf where
  "demo_tmsg = demo_msg\<lparr>m_tp_buf := Some (take 338 demo_buf @ str_bytes ''#a\<newline>#b'' @ replicate 11 0), m_mtype := RMRRM_TABLE_DATA, m_len := 6\<rparr>"

text \<open>
  C20. A message of the route manager is its records.  When the payload of a table message holds
  records separated by newlines (and is cut off at a zero byte, if it has one), \<^verbatim>\<open>rtc_parse_msg\<close>
  parses them one after the other, each followed by the answers it asks for; afterwards the
  message is empty, so that the thread receives again, and no more requests are made.
\<close>

theorem rtc_parse_msg_records:
  assumes "m_mtype m = RMRRM_TABLE_DATA" and "m_tp_buf m = Some b" and "m_payload m = Some p" and "mem_rd b p (nat (m_len m)) = Some w"
    and "0 < m_len m" and "bytes_str (cstr w) = join (CHR 0x0A) recs" and "recs \<noteq> []" and "\<forall>r \<in> set recs. CHR 0x0A \<notin> set r"
    and "n_ok (s_rt (c_snd env)) M_user"
  shows "rtc_parse_msg env m s =
    (case run_ops (\<lambda>st r. rtc_rec env r st) (t_ctx s, t_pvt s, m) recs of None \<Rightarrow> None
     | Some (c1, p1, m1) \<Rightarrow> Some (s\<lparr>t_ctx := c1, t_pvt := p1, t_msg := Some (m1\<lparr>m_len := 0\<rparr>), t_flags := t_flags s OR RTCFL_HAVE_UPDATE,
         t_pbuf := grow_pbuf (t_pbuf s) (m_len m)\<rparr>)) \<and>
    m_len m < grow_pbuf (t_pbuf s) (m_len m)"
proof -
  have "m_len m < grow_pbuf (t_pbuf s) (m_len m)" using assms(5) by (auto simp: grow_pbuf_def)
  moreover have "rtc_parse_msg env m s =
    (case run_ops (\<lambda>st r. rtc_rec env r st) (t_ctx s, t_pvt s, m) recs of None \<Rightarrow> None
     | Some (c1, p1, m1) \<Rightarrow> Some (s\<lparr>t_ctx := c1, t_pvt := p1, t_msg := Some (m1\<lparr>m_len := 0\<rparr>), t_flags := t_flags s OR RTCFL_HAVE_UPDATE,
         t_pbuf := grow_pbuf (t_pbuf s) (m_len m)\<rparr>))"
    using assms recs_of_join [OF assms(7,8), of env "(t_ctx s, t_pvt s, m)"]
    by (simp add: rtc_parse_msg_def Let_def split: option.splits)
  ultimately show ?thesis by simp
qed

lemma demo_table:
  "mem_rd (take 338 demo_buf @ str_bytes ''#a\<newline>#b'' @ replicate 11 0) 338 6 = Some [35, 97, 10, 35, 98, 0]"
  "bytes_str (cstr [35, 97, 10, 35, 98, 0]) = join (CHR 0x0A) [''#a'', ''#b'']"
  "(case run_ops (\<lambda>st r. rtc_rec demo_cenv r st) (demo_col, demo_col, demo_tmsg) [''#a'', ''#b''] of None \<Rightarrow> False | _ \<Rightarrow> True)"
  by code_simp+

theorem rtc_parse_msg_records_witness:
  "\<exists>s. rtc_parse_msg demo_cenv demo_tmsg demo_rst = Some s \<and> \<not> has_msg s \<and> t_flags s = RTCFL_HAVE_UPDATE \<and> t_pbuf s = 1024"
proof -
  have f: "m_mtype demo_tmsg = RMRRM_TABLE_DATA" "m_tp_buf demo_tmsg = Some (take 338 demo_buf @ str_bytes ''#a\<newline>#b'' @ replicate 11 0)"
    "m_payload demo_tmsg = Some 338" "nat (m_len demo_tmsg) = 6" "0 < m_len demo_tmsg" "n_ok (s_rt (c_snd demo_cenv)) M_user"
    by (simp_all add: demo_tmsg_def demo_msg_def demo_cenv_def demo_senv_def demo_rt_env_def all_ok_def)
  obtain c1 p1 m1 where r: "run_ops (\<lambda>st r. rtc_rec demo_cenv r st) (demo_col, demo_col, demo_tmsg) [''#a'', ''#b''] = Some (c1, p1, m1)"
    using demo_table(3) by (auto split: option.splits)
  from rtc_parse_msg_records [OF f(1-3) _ f(5) demo_table(2) _ _ f(6), of demo_rst] demo_table(1) f(4) r show ?thesis
    by (simp add: demo_rst_def has_msg_def grow_pbuf_def demo_tmsg_def)
qed

section \<open>Alarms\<close>

text \<open>A sequence of checks: each sees a drop counter and a time.\<close>

fun drop_run :: "alarm_st \<Rightarrow> (int \<times> int) list \<Rightarrow> alarm_act list \<times> alarm_st" where
  "drop_run al [] = ([], al)"
| "drop_run al ((d, t) # obs) =
     (let (a, al1) = drop_check al d t; (as, al2) = drop_run al1 obs
      in (case a of None \<Rightarrow> as | Some x \<Rightarrow> x # as, al2))"

fun alternates :: "bool \<Rightarrow> int \<Rightarrow> alarm_act list \<Rightarrow> bool" where
  "alternates raised p [] = True"
| "alternates False p (Raise q # as) = (q = p \<and> alternates True p as)"
| "alternates True p (Clear q # as) = (q = p \<and> alternates False (p + 1) as)"
| "alternates _ _ _ = False"

lemma run_alternates: "alternates (alarm_raised al) (prob_id al) (fst (drop_run al obs))"
proof (induction obs arbitrary: al)
  case (Cons x obs)
  obtain d t where x: "x = (d, t)" by fastforce
  have IH: "alternates (alarm_raised al1) (prob_id al1) (fst (drop_run al1 obs))" for al1 using Cons.IH .
  show ?case unfolding x using IH [of "snd (drop_check al d t)"]
    by (cases "alarm_raised al") (auto simp: drop_check_def Let_def split: prod.splits if_splits)
qed simp

lemma drop_run_app: "snd (drop_run al (obs @ [(d, t)])) = snd (drop_check (snd (drop_run al obs)) d t)"
  by (induction obs arbitrary: al) (auto simp: Let_def case_prod_beta)

text \<open>What the static variables remember of the checks so far: a check at time \<open>t0\<close> saw the counter \<open>d\<close>, and
  so did every check since then that found the alarm raised.\<close>

definition quiet_since :: "(int \<times> int) list \<Rightarrow> (int \<times> int) list \<Rightarrow> int \<Rightarrow> int \<Rightarrow> (int \<times> int) list \<Rightarrow> bool" where
  "quiet_since obs pre d t0 mid \<longleftrightarrow> obs = pre @ (d, t0) # mid \<and>
     (\<forall>p x q. mid = p @ x # q \<longrightarrow> alarm_raised (snd (drop_run alarm0 (pre @ (d, t0) # p))) \<longrightarrow> fst x = d)"

definition alarm_inv :: "alarm_st \<Rightarrow> (int \<times> int) list \<Rightarrow> bool" where
  "alarm_inv al obs \<longleftrightarrow> (ok2clear al \<noteq> 0 \<longrightarrow> (\<exists>pre mid. quiet_since obs pre (lastd al) (ok2clear al - 60) mid))"

lemma quiet_extend:
  assumes "quiet_since obs pre d0 t0 mid" and "alarm_raised (snd (drop_run alarm0 obs)) \<Longrightarrow> d = d0"
  shows "quiet_since (obs @ [(d, t)]) pre d0 t0 (mid @ [(d, t)])"
proof -
  have "fst x = d0" if m: "mid @ [(d, t)] = p @ x # q" and r: "alarm_raised (snd (drop_run alarm0 (pre @ (d0, t0) # p)))" for p x q
  proof (cases q rule: rev_cases)
    case Nil
    then have "p = mid" "x = (d, t)" using m by simp_all
    then show ?thesis using r assms by (simp add: quiet_since_def)
  next
    case (snoc q' y)
    then have "mid = p @ x # q'" using m by simp
    then show ?thesis using r assms(1) unfolding quiet_since_def by blast
  qed
  then show ?thesis using assms(1) by (simp add: quiet_since_def)
qed

lemma quiet_now: "quiet_since (obs @ [(d, t)]) obs d t []"
  by (simp add: quiet_since_def)

lemma run_alarm_inv: "\<forall>x \<in> set obs. 0 < snd x \<Longrightarrow> alarm_inv (snd (drop_run alarm0 obs)) obs"
proof (induction obs rule: rev_induct)
  case Nil
  then show ?case by (simp add: alarm_inv_def alarm0_def)
next
  case (snoc x obs)
  obtain d t where x: "x = (d, t)" by fastforce
  let ?al = "snd (drop_run alarm0 obs)"
  have t: "0 < t" and inv: "alarm_inv ?al obs" using snoc by (simp_all add: x)
  have "alarm_inv (snd (drop_check ?al d t)) (obs @ [(d, t)])"
  proof (cases "alarm_raised ?al \<and> (d \<noteq> lastd ?al \<or> ok2clear ?al = 0)")
    case True
    then show ?thesis using t quiet_now [of obs d t] by (auto simp: alarm_inv_def drop_check_def)
  next
    case False
    then have "lastd (snd (drop_check ?al d t)) = lastd ?al" "ok2clear (snd (drop_check ?al d t)) = ok2clear ?al" by (auto simp: drop_check_def)
    then show ?thesis using inv False quiet_extend [of obs _ "lastd ?al" "ok2clear ?al - 60" _ d t] unfolding alarm_inv_def by metis
  qed
  then show ?case by (simp add: x drop_run_app)
qed

lemma sorted_constant:
  assumes "sorted (map fst (pre @ (d, t0) # mid @ [(d, t)]))" and "x \<in> set mid"
  shows "fst x = (d :: int)"
proof -
  have "sorted (d # map fst mid @ [d])" using assms(1) by (simp add: sorted_append)
  then have "d \<le> fst x" "fst x \<le> d" using assms(2) by (auto simp: sorted_append)
  then show ?thesis by simp
qed

text \<open>
  C35. The alarms for dropped messages.  In every sequence of checks the alarms sent are raised and
  cleared in turn, each pair with a problem id one higher than the last.  An alarm is cleared only
  when an earlier check, more than 60 seconds before, saw the same drop counter, and so did every
  check in between that found the alarm raised.  This does not mean that nothing was dropped: the receive thread
  sets the counter back with each of its warnings (see \<open>drop_alarm_reset\<close>).  If the counter never goes back,
  it did not change at all in the meantime.
\<close>

theorem drop_alarms:
  assumes "\<forall>x \<in> set (obs @ [(d, t)]). 0 < snd x"
  shows "alternates False 0 (fst (drop_run alarm0 (obs @ [(d, t)]))) \<and>
    (\<forall>i. fst (drop_check (snd (drop_run alarm0 obs)) d t) = Some (Clear i) \<longrightarrow>
      (\<exists>pre mid t0. t0 + 60 < t \<and> obs = pre @ (d, t0) # mid \<and>
        (\<forall>p x q. mid = p @ x # q \<longrightarrow> alarm_raised (snd (drop_run alarm0 (pre @ (d, t0) # p))) \<longrightarrow> fst x = d) \<and>
        (sorted (map fst (obs @ [(d, t)])) \<longrightarrow> (\<forall>x \<in> set mid. fst x = d))))"
proof -
  let ?al = "snd (drop_run alarm0 obs)"
  have inv: "alarm_inv ?al obs" using assms by (intro run_alarm_inv) simp
  have "\<exists>pre mid t0. t0 + 60 < t \<and> quiet_since obs pre d t0 mid \<and> (sorted (map fst (obs @ [(d, t)])) \<longrightarrow> (\<forall>x \<in> set mid. fst x = d))"
    if "fst (drop_check ?al d t) = Some (Clear i)" for i
  proof -
    have a: "lastd ?al = d" "ok2clear ?al \<noteq> 0" "t > ok2clear ?al" using that by (auto simp: drop_check_def split: if_splits)
    then obtain pre mid where q: "quiet_since obs pre d (ok2clear ?al - 60) mid" using inv by (auto simp: alarm_inv_def)
    then have "obs @ [(d, t)] = pre @ (d, ok2clear ?al - 60) # mid @ [(d, t)]" by (simp add: quiet_since_def)
    then have "sorted (map fst (obs @ [(d, t)])) \<longrightarrow> (\<forall>x \<in> set mid. fst x = d)" using sorted_constant [of pre d "ok2clear ?al - 60" mid t] by metis
    then show ?thesis using q a(3) by (intro exI [of _ pre] exI [of _ mid] exI [of _ "ok2clear ?al - 60"]) simp
  qed
  then show ?thesis using run_alternates [of alarm0] unfolding quiet_since_def by (simp add: alarm0_def)
qed

theorem drop_alarms_witness:
  "fst (drop_run alarm0 ([(3, 1), (4, 2), (4, 3), (4, 50)] @ [(4, 64)])) = [Raise 0, Clear 0] \<and>
   (\<exists>pre mid t0. [(3 :: int, 1 :: int), (4, 2), (4, 3), (4, 50)] = pre @ (4, t0) # mid \<and> (\<forall>x \<in> set mid. fst x = 4) \<and> t0 + 60 < 64)"
proof -
  have "fst (drop_check (snd (drop_run alarm0 [(3, 1), (4, 2), (4, 3), (4, 50)])) 4 64) = Some (Clear 0)"
    "fst (drop_run alarm0 ([(3, 1), (4, 2), (4, 3), (4, 50)] @ [(4, 64)])) = [Raise 0, Clear 0]" by code_simp+
  then show ?thesis using drop_alarms [of "[(3, 1), (4, 2), (4, 3), (4, 50)]" 4 64] by auto
qed

text \<open>The receive thread sets the counter back to zero with each of its warnings.  Then an alarm may be
  cleared at the next check, or drops may pass unnoticed.\<close>

lemma drop_alarm_reset:
  "fst (drop_run alarm0 [(5, 1), (5, 2), (5, 3), (5, 64), (6, 70), (5, 71)]) = [Raise 0, Clear 0, Raise 1, Clear 1]"
  by (simp add: drop_check_def alarm0_def)

section \<open>The mode\<close>

text \<open>Which port the collector listens on, whom it asks for a table, and whether it asks at all.\<close>

lemma rtc_ports_modes:
  shows "getenv ''RMR_CTL_PORT'' = None \<Longrightarrow> getenv ''RMR_RTG_SVC'' = None \<Longrightarrow> rtc_ports getenv = (''4561'', ''4561'', True)"
    and "getenv ''RMR_CTL_PORT'' = Some (x # xs) \<Longrightarrow> getenv ''RMR_RTG_SVC'' = None \<Longrightarrow> rtc_ports getenv = (x # xs, ''routemgr:4561'', False)"
    and "getenv ''RMR_RTG_SVC'' = Some (y # ys) \<Longrightarrow> CHR '':'' \<notin> set (y # ys) \<Longrightarrow> rtc_ports getenv = (y # ys, y # ys, True)"
  by (auto simp: rtc_ports_def uta_tokenise_def tok_loop.simps Let_def split: option.splits list.splits)

section \<open>A message of another type\<close>

fun rtc_run :: "rtc_env \<Rightarrow> pass_env list \<Rightarrow> rtc_st \<Rightarrow> (bool \<times> rtc_st) option option" where
  "rtc_run env [] s = Some (Some (False, s))"
| "rtc_run env (y # ys) s = do {
     r \<leftarrow> rtc_pass env y s;
     (case r of None \<Rightarrow> Some None | Some (stop, s1) \<Rightarrow> if stop then Some (Some (True, s1)) else rtc_run env ys s1) }"

text \<open>
  A message that is not a table stops the collector.  Once the thread has received a message of
  another type, every further pass looks at the same message again: nothing is received, no table
  is requested and no alarm is sent, whatever arrives, until the context is shut down.
\<close>

theorem rtc_other_message_spins:
  assumes "t_msg s = Some m" and "0 < m_len m" and "m_mtype m \<noteq> RMRRM_TABLE_DATA" and "\<not> shut (t_ctx s)"
  shows "\<exists>fd. rtc_run env ys s = Some (Some (False, s\<lparr>t_vfd := fd\<rparr>))"
  using assms
proof (induction ys arbitrary: s)
  case Nil
  then show ?case by (intro exI [of _ "t_vfd s"]) simp
next
  case (Cons y ys)
  let ?s1 = "s\<lparr>t_vfd := snd (refresh_vlevel env False (t_vfd s))\<rparr>"
  have "?s1\<lparr>t_msg := Some m\<rparr> = ?s1" using Cons.prems(1) by simp
  then have "rtc_pass env y s = Some (Some (False, ?s1))"
    using Cons.prems by (simp add: rtc_pass_def has_msg_def rtc_parse_def rtc_parse_msg_def Let_def)
  with Cons.IH [of ?s1] Cons.prems show ?case by simp
qed

theorem rtc_other_message_spins_witness:
  "\<exists>fd. rtc_run demo_cenv (replicate 100 \<lparr>y_now = (\<lambda>_. 9), y_ms = 0, y_ws = [([demo_tmsg], ETIMEDOUT, [])]\<rparr>)
     (demo_rst\<lparr>t_msg := Some (demo_tmsg\<lparr>m_mtype := 7\<rparr>)\<rparr>) =
     Some (Some (False, demo_rst\<lparr>t_msg := Some (demo_tmsg\<lparr>m_mtype := 7\<rparr>), t_vfd := fd\<rparr>))"
  using rtc_other_message_spins [of "demo_rst\<lparr>t_msg := Some (demo_tmsg\<lparr>m_mtype := 7\<rparr>)\<rparr>" "demo_tmsg\<lparr>m_mtype := 7\<rparr>" demo_cenv]
  by (simp add: demo_tmsg_def demo_rst_def demo_col_def zero_ctx_def)

section \<open>A failed request\<close>

text \<open>The id of the wormhole to the route manager belongs to the private context.  When the request
  cannot be sent, the same id of the application's context is closed, with whatever endpoint the
  application has opened it for.\<close>

lemma failed_request_closes_users_wormhole:
  assumes "rmr_alloc_msg (n_ok (s_rt env)) (s_junk env) (s_lock env) (Some pctx) 1024 = Some (Some m0, Some p1)"
    and "put_text (m0\<lparr>m_mtype := RMRRM_REQ_TABLE, m_sub_id := 0\<rparr>) 1024 (my_name ctx @ '' ts='' @ int_text now @ [CHR 0x0A]) = Some (m1, n)"
    and "rmr_wh_send_msg env (Some p1) (rtg_whid ctx) (Some (m1\<lparr>m_len := n + 1\<rparr>)) = Some (Some m2, Some p2)" and "m_state m2 \<noteq> RMR_OK"
    and "wh_inv ctx" and "wh_ep ctx (rtg_whid ctx) = Some a" and "0 \<le> rtg_whid ctx"
  shows "\<exists>ctx'. send_update_req env now pctx ctx = Some (m_state m2, p2, ctx') \<and> wh_ep ctx' (rtg_whid ctx) = None"
proof -
  obtain whm eps where w: "wormholes ctx = Some whm" "wh_eps whm = Some eps" "wh_nalloc whm = int (length eps)"
    using assms(5,6) by (auto simp: wh_inv_def wh_ep_def split: option.splits)
  have k: "nat (rtg_whid ctx) < length eps" using assms(6,7) w by (auto simp: wh_ep_def wh_slot_def split: option.splits if_splits)
  let ?c = "ctx\<lparr>wormholes := Some (whm\<lparr>wh_eps := Some (eps[nat (rtg_whid ctx) := None])\<rparr>), rtg_whid := -1\<rparr>"
  have "send_update_req env now pctx ctx = Some (m_state m2, p2, ?c)"
    using assms(1-4,7) w k by (simp add: send_update_req_def rmr_wh_close_def wh_store_def)
  moreover have "wh_ep ?c (rtg_whid ctx) = None" using k assms(7) by (simp add: wh_ep_def wh_slot_def)
  ultimately show ?thesis by blast
qed

text \<open>With the id that the private context has after a failed acknowledgement, none is sent any more.\<close>

lemma no_more_acks: "rtg_whid p < 0 \<Longrightarrow> run_acks env p m es = Some (p, m)"
proof (induction es)
  case (Cons e es)
  then show ?case by (cases e) (simp_all add: send_rt_ack_def)
qed simp

end
