(* ===== verification/Mt_Receive.thy ===== *)
theory Mt_Receive
  imports Route_Refs Si95_Api
begin

text \<open>
  The receive thread: \<^verbatim>\<open>mt_receive\<close> of \<^verbatim>\<open>src/src/rmr/si/src/mt_call_si_static.c\<close> over the wait loop of the
  transport, and that the bytes that arrive on a connection reach the context as the messages of
  the stream.

  The user state of the transport is the context behind two options, as the data callback has it:
  \<open>None\<close> is a fault, \<open>Some None\<close> a callback that has not returned.  The transport state that the
  context holds for the send side is not used by the callbacks.
\<close>

section \<open>The thread\<close>

type_synonym rcv_user = "uta_ctx option option"

definition data_cb :: "nat \<Rightarrow> rcv_env \<Rightarrow> rcv_user callback" where
  "data_cb fuel env x u =
     (SI_RET_OK, case (u, x) of (Some (Some c), CbData fd d) \<Rightarrow> mt_data_cb fuel env c fd d (int (length d)) | _ \<Rightarrow> u)"

definition disc_cb :: "rcv_user callback" where
  "disc_cb x u = (SI_RET_OK, case (u, x) of (Some (Some c), CbDisc fd) \<Rightarrow> mt_disc_cb (Some c) fd | _ \<Rightarrow> u)"

definition mt_receive :: "nat \<Rightarrow> rcv_env \<Rightarrow> si_env \<Rightarrow> rcv_user ginfo_blk \<Rightarrow> (int \<times> rcv_user ginfo_blk) option" where
  "mt_receive fuel renv env g = do {
     g1 \<leftarrow> SIcbreg (Some g) (int SI_CB_CDATA) (Some (data_cb fuel renv));
     g2 \<leftarrow> SIcbreg (Some g1) (int SI_CB_DISC) (Some disc_cb);
     SIwait env g2 }"

section \<open>A pass with data on one connection\<close>

text \<open>All blocks of the list are in use, and one of them is a session with a descriptor of its own.\<close>

definition session_at :: "'u ginfo_blk \<Rightarrow> tpaddr list \<Rightarrow> tpaddr \<Rightarrow> int \<Rightarrow> bool" where
  "session_at g xs a fd \<longleftrightarrow> si_inv g xs \<and> a \<in> set xs \<and> gi_flags g AND GIF_SHUTDOWN = 0 \<and> 0 \<le> fd \<and>
     (\<exists>t. h_tp g a = Some t \<and> tp_fd t = fd \<and> tp_flags t AND TPF_LISTENFD = 0 \<and> tp_flags t AND TPF_DRAIN = 0) \<and>
     (\<forall>b \<in> set xs. \<forall>t. h_tp g b = Some t \<longrightarrow> tp_flags t AND TPF_DELETE = 0 \<and> tp_fd t < FD_SETSIZE \<and> (b \<noteq> a \<longrightarrow> tp_fd t \<noteq> fd))"

text \<open>\<^verbatim>\<open>SIbldpoll\<close> then changes the descriptor sets only.\<close>

lemma bldpoll_loop_live:
  assumes "si_inv g (ds @ rest)" and "\<forall>b \<in> set rest. \<forall>t. h_tp g b = Some t \<longrightarrow> tp_flags t AND TPF_DELETE = 0 \<and> tp_fd t < FD_SETSIZE"
  shows "\<exists>n r w x. bldpoll_loop g (first rest) = Some (g\<lparr>fdcount := n, readfds := r, writefds := w, execpfds := x\<rparr>)"
  using assms
proof (induction rest arbitrary: ds g)
  case Nil
  show ?case by (intro exI [of _ "fdcount g"] exI [of _ "readfds g"] exI [of _ "writefds g"] exI [of _ "execpfds g"]) (simp add: bldpoll_loop.simps)
next
  case (Cons a rest)
  obtain t where t: "h_tp g a = Some t" using si_inv_live [OF Cons.prems(1), of a] by auto
  have nx: "tp_next t = first rest" using si_inv_next [OF Cons.prems(1) t] .
  have f: "tp_flags t AND TPF_DELETE = 0" "tp_fd t < FD_SETSIZE" using Cons.prems(2) t by auto
  obtain n r w x where b: "bldpoll_blk g a t = Some (g\<lparr>fdcount := n, readfds := r, writefds := w, execpfds := x\<rparr>)"
  proof (cases "0 \<le> tp_fd t")
    case True
    then have "FD_SET (tp_fd t) y = Some (List.insert (tp_fd t) y)" for y using f by (simp add: FD_SET_def)
    then have "bldpoll_blk g a t = Some (g\<lparr>fdcount := (if tp_fd t \<ge> fdcount g then tp_fd t + 1 else fdcount g),
        readfds := (if tp_flags t AND TPF_DRAIN = 0 then List.insert (tp_fd t) (readfds g) else readfds g),
        writefds := (if tp_squeue t \<noteq> [] then List.insert (tp_fd t) (writefds g) else writefds g),
        execpfds := List.insert (tp_fd t) (execpfds g)\<rparr>)" using True f by (simp add: bldpoll_blk_def)
    then show thesis by (rule that)
  next
    case False
    then have "bldpoll_blk g a t = Some (g\<lparr>fdcount := fdcount g, readfds := readfds g, writefds := writefds g, execpfds := execpfds g\<rparr>)"
      using f by (simp add: bldpoll_blk_def)
    then show thesis by (rule that)
  qed
  let ?g = "g\<lparr>fdcount := n, readfds := r, writefds := w, execpfds := x\<rparr>"
  have "si_inv ?g ((ds @ [a]) @ rest)" using Cons.prems(1) by (simp add: si_inv_def dll_def map_ok_def)
  from Cons.IH [OF this] Cons.prems(2) obtain n' r' w' x' where
    "bldpoll_loop ?g (first rest) = Some (?g\<lparr>fdcount := n', readfds := r', writefds := w', execpfds := x'\<rparr>)" by auto
  then show ?case using t nx b by (subst bldpoll_loop.simps) auto
qed

lemma bldpoll_live:
  assumes "session_at g xs a fd"
  shows "\<exists>n r w x. SIbldpoll g = Some (g\<lparr>fdcount := n, readfds := r, writefds := w, execpfds := x\<rparr>)"
proof -
  let ?g = "g\<lparr>fdcount := -1, readfds := [], writefds := [], execpfds := []\<rparr>"
  have "si_inv ?g ([] @ xs)" using assms by (simp add: session_at_def si_inv_def dll_def map_ok_def)
  from bldpoll_loop_live [OF this] assms si_inv_first [of g xs] show ?thesis by (auto simp: SIbldpoll_def session_at_def)
qed

text \<open>Blocks without data are passed over.\<close>

lemma wait_block_idle:
  assumes "si_inv g xs" and "b \<in> set xs" and "h_tp g b = Some t" and "tp_fd t \<notin> set (readfds g)"
  shows "wait_block env g b st = Some (st, g)"
proof -
  have "tp_squeue t = []" using si_invD(4) [OF assms(1-3)] by (simp add: blk_ok_def)
  then show ?thesis using assms(3,4) by (simp add: wait_block_def)
qed

lemma wait_blocks_idle:
  assumes "si_inv g (ds @ rest)" and "\<forall>b \<in> set rest. \<forall>t. h_tp g b = Some t \<longrightarrow> tp_fd t \<notin> set (readfds g)"
  shows "wait_blocks env g (first rest) st = Some (st, g)"
  using assms
proof (induction rest arbitrary: ds)
  case (Cons b rest)
  obtain t where t: "h_tp g b = Some t" using si_inv_live [OF Cons.prems(1), of b] by auto
  have "wait_block env g b st = Some (st, g)" using wait_block_idle [OF Cons.prems(1) _ t] Cons.prems(2) t by simp
  then show ?case using Cons.IH [of "ds @ [b]"] Cons.prems t si_inv_next [OF Cons.prems(1) t] by (subst wait_blocks.simps) simp
qed (simp add: wait_blocks.simps)

lemma wait_blocks_skip:
  assumes "si_inv g (ds @ pre @ rest)" and "\<forall>b \<in> set pre. \<forall>t. h_tp g b = Some t \<longrightarrow> tp_fd t \<notin> set (readfds g)"
  shows "wait_blocks env g (first (pre @ rest)) st = wait_blocks env g (first rest) st"
  using assms
proof (induction pre arbitrary: ds)
  case (Cons b pre)
  obtain t where t: "h_tp g b = Some t" using si_inv_live [OF Cons.prems(1), of b] by auto
  have "wait_block env g b st = Some (st, g)" using wait_block_idle [OF Cons.prems(1) _ t] Cons.prems(2) t by simp
  then show ?case using Cons.IH [of "ds @ [b]"] Cons.prems t si_inv_next [of g ds b "pre @ rest" t] by (subst wait_blocks.simps) simp
qed simp

lemma wait_pass_data:
  assumes s: "session_at g xs a fd" and sel: "o_select env (os_n g) = ((rc, e), [fd], [], [])" "0 < rc"
    and rcv: "o_recv env (Suc (os_n g)) = (int (length d), d)" "d \<noteq> []"
    and cb: "cbtab g ! SI_CB_CDATA = Some f" "f (CbData fd d) (si_user g) = (SI_RET_OK, u)"
  shows "\<exists>g'. wait_pass env g st = Some (SI_RET_OK, g') \<and> session_at g' xs a fd \<and> si_user g' = u \<and> cbtab g' = cbtab g \<and> os_n g' = os_n g + 2"
proof -
  note S = s [unfolded session_at_def]
  obtain t where t: "h_tp g a = Some t" "tp_fd t = fd" "tp_flags t AND TPF_LISTENFD = 0" "tp_flags t AND TPF_DRAIN = 0" and fd: "0 \<le> fd" using S by blast
  obtain n r w x where b: "SIbldpoll g = Some (g\<lparr>fdcount := n, readfds := r, writefds := w, execpfds := x\<rparr>)" using bldpoll_live [OF s] by blast
  let ?g2 = "tick (g\<lparr>fdcount := n, readfds := [fd], writefds := [], execpfds := []\<rparr>)"
  let ?t = "t\<lparr>tp_rcvd := tp_rcvd t + 1\<rparr>"
  let ?g3 = "(tick (put_tp ?g2 a ?t))\<lparr>si_user := u\<rparr>"
  obtain pre post where xs: "xs = pre @ a # post" using S by (meson split_list)
  have i2: "si_inv ?g2 xs" using S by (simp add: si_inv_def dll_def map_ok_def tick_def)
  have t2: "h_tp ?g2 a = Some t" using t by (simp add: tick_def)
  have bl: "blk_ok t" "tp_squeue t = []" using si_invD(4) [of g xs a t] S t by (auto simp: blk_ok_def)
  have i3: "si_inv ?g3 xs" using si_inv_put [OF i2 t2, of ?t] bl by (simp add: blk_ok_def)
  have d: "distinct xs" using S by (simp add: si_inv_def dll_def)
  have o: "\<forall>b \<in> set pre \<union> set post. \<forall>u. h_tp ?g2 b = Some u \<longrightarrow> tp_fd u \<notin> set (readfds ?g2)"
    using S d by (auto simp: xs tick_def)
  have "wait_pass env g st = wait_blocks env ?g2 (first xs) st"
    using b sel S si_inv_first [OF i2] by (simp add: wait_pass_def Let_def tick_def)
  also have "\<dots> = wait_blocks env ?g2 (first (a # post)) st"
    using wait_blocks_skip [of ?g2 "[]" pre "a # post" env st] i2 o by (simp add: xs ball_Un)
  also have "wait_block env ?g2 a st = Some (SI_RET_OK, ?g3)"
    using t2 t fd bl rcv cb S by (simp add: wait_block_def call_cb_def SIcbstat_def tick_def put_tp_def si_inv_def)
  then have "wait_blocks env ?g2 (first (a # post)) st = wait_blocks env ?g3 (first post) SI_RET_OK"
    using t2 si_inv_next [of ?g2 pre a post t] i2 by (subst wait_blocks.simps) (simp add: xs)
  also have "\<dots> = Some (SI_RET_OK, ?g3)"
    by (rule wait_blocks_idle [of _ "pre @ [a]"]) (use i3 o d in \<open>auto simp: xs tick_def put_tp_def\<close>)
  finally have run: "wait_pass env g st = Some (SI_RET_OK, ?g3)" .
  have "session_at ?g3 xs a fd" using i3 S t fd by (auto simp: session_at_def tick_def put_tp_def)
  with run show ?thesis by (intro exI [of _ ?g3]) (simp add: tick_def put_tp_def)
qed

section \<open>The stream\<close>

text \<open>The system calls for a sequence of chunks: each pass finds the descriptor readable and reads the
  next chunk.\<close>

definition arrives :: "si_env \<Rightarrow> nat \<Rightarrow> int \<Rightarrow> bytes list \<Rightarrow> bool" where
  "arrives env n fd chunks \<longleftrightarrow> (\<forall>k < length chunks. o_select env (n + 2 * k) = ((1, E0), [fd], [], []) \<and>
     o_recv env (n + 2 * k + 1) = (int (length (chunks ! k)), chunks ! k) \<and> chunks ! k \<noteq> [])"

lemma arrives_Cons:
  "arrives env n fd (d # ds) \<longleftrightarrow> o_select env n = ((1, E0), [fd], [], []) \<and> o_recv env (Suc n) = (int (length d), d) \<and> d \<noteq> [] \<and> arrives env (n + 2) fd ds"
  unfolding arrives_def by (auto simp: less_Suc_eq_0_disj add_ac)

text \<open>A sequence of data callbacks on a user state; a fault stays one.\<close>

definition feed_user :: "nat \<Rightarrow> rcv_env \<Rightarrow> int \<Rightarrow> bytes list \<Rightarrow> rcv_user \<Rightarrow> rcv_user" where
  "feed_user fuel env fd chunks u = (case u of Some (Some c) \<Rightarrow> cb_feed fuel env c fd chunks | _ \<Rightarrow> u)"

lemma feed_user_Cons: "feed_user fuel env fd (d # ds) u = feed_user fuel env fd ds (snd (data_cb fuel env (CbData fd d) u))"
  by (auto simp: feed_user_def data_cb_def split: option.splits bind_splits)

lemma wait_loop_feeds:
  assumes "session_at g xs a fd" and "arrives env (os_n g) fd chunks" and "cbtab g ! SI_CB_CDATA = Some (data_cb fuel renv)"
  shows "\<exists>g'. wait_loop env g st = wait_loop env g' (if chunks = [] then st else SI_RET_OK) \<and> session_at g' xs a fd \<and>
    si_user g' = feed_user fuel renv fd chunks (si_user g)"
  using assms
proof (induction chunks arbitrary: g st)
  case Nil
  show ?case by (intro exI [of _ g]) (use Nil in \<open>auto simp: feed_user_def split: option.splits\<close>)
next
  case (Cons d ds)
  note A = Cons.prems(2) [unfolded arrives_Cons]
  let ?u = "snd (data_cb fuel renv (CbData fd d) (si_user g))"
  have "data_cb fuel renv (CbData fd d) (si_user g) = (SI_RET_OK, ?u)" by (simp add: data_cb_def)
  from wait_pass_data [OF Cons.prems(1) _ _ _ _ Cons.prems(3) this, of env 1 E0 st] A obtain g1 where
    g1: "wait_pass env g st = Some (SI_RET_OK, g1)" "session_at g1 xs a fd" "si_user g1 = ?u" "cbtab g1 = cbtab g" "os_n g1 = os_n g + 2" by auto
  have "tplist g1 \<noteq> None" using g1(2) si_inv_first [of g1 xs] by (auto simp: session_at_def split: list.splits) (cases xs; simp)
  then have "wait_loop env g st = wait_loop env g1 SI_RET_OK" using g1(1,2) by (subst wait_loop.simps) (simp add: session_at_def)
  moreover have "arrives env (os_n g1) fd ds" "cbtab g1 ! SI_CB_CDATA = Some (data_cb fuel renv)" using A g1(4,5) Cons.prems(3) by simp_all
  ultimately show ?case using Cons.IH [OF g1(2), of SI_RET_OK] g1(3) by (simp add: feed_user_Cons split: if_splits)
qed

text \<open>
  What arrives on a connection is delivered.  While the chunks of a stream arrive on the
  descriptor of a session, the wait loop of the receive thread hands each to the data callback:
  the thread goes on waiting in a state in which every complete message of the stream has been
  handed to \<^verbatim>\<open>buf2mbuf\<close> once and in order, and the incomplete rest is kept for the session.
\<close>

theorem mt_receive_stream:
  assumes s: "session_at g xs a fd" and ar: "arrives env (os_n g) fd chunks" and u: "si_user g = Some (Some ctx)"
    and rv: "find_river renv ctx fd = Some rv0" "r_state rv0 = RS_NEW" "river_slot ctx fd"
    and ok: "e_ok renv M_accum" and ne: "chunks \<noteq> []" and fuel: "\<forall>d \<in> set chunks. length d \<le> fuel"
    and sz: "sizes_ok (concat chunks)" "split_msgs (concat chunks) = (msgs, rest)"
  shows "\<exists>raws rv g'. list_all2 held raws msgs \<and> river_inv rv rest \<and>
    mt_receive fuel renv env g = wait_loop env g' SI_RET_OK \<and> session_at g' xs a fd \<and>
    si_user g' = do { c \<leftarrow> deliver_all (\<lambda>c raw n. buf2mbuf renv c raw n fd) ctx raws; Some (Some (put_river c fd rv)) }"
proof -
  let ?cb = "((cbtab g)[SI_CB_CDATA := Some (data_cb fuel renv)])[SI_CB_DISC := Some disc_cb]"
  let ?g = "g\<lparr>cbtab := ?cb\<rparr>"
  have i: "si_inv g xs" "length (cbtab g) = MAX_CBS" "magicnum g = MAGICNUM" "gi_flags g AND GIF_SHUTDOWN = 0" using s by (simp_all add: session_at_def si_inv_def)
  have s2: "session_at ?g xs a fd" using s by (simp add: session_at_def si_inv_def dll_def map_ok_def)
  have run: "mt_receive fuel renv env g = wait_loop env ?g SI_OK" using i by (simp add: mt_receive_def SIcbreg_def SIwait_def)
  have cb: "cbtab ?g ! SI_CB_CDATA = Some (data_cb fuel renv)" using i by simp
  from wait_loop_feeds [OF s2 _ cb, of env chunks SI_OK] ar ne u run obtain g' where
    g': "mt_receive fuel renv env g = wait_loop env g' SI_RET_OK" "session_at g' xs a fd" "si_user g' = cb_feed fuel renv ctx fd chunks"
    by (auto simp: feed_user_def)
  have "d \<noteq> []" if "d \<in> set chunks" for d using ar that by (auto simp: arrives_def in_set_conv_nth)
  then have "\<forall>d \<in> set chunks. d \<noteq> [] \<and> length d \<le> fuel" using fuel by blast
  from cb_feed_stream [OF rv ok ne this sz] obtain raws rv1 where "list_all2 held raws msgs" "river_inv rv1 rest"
    "cb_feed fuel renv ctx fd chunks = do { c \<leftarrow> deliver_all (\<lambda>c raw n. buf2mbuf renv c raw n fd) ctx raws; Some (Some (put_river c fd rv1)) }" by blast
  with g' show ?thesis by (intro exI [of _ raws] exI [of _ rv1] exI [of _ g']) simp
qed

text \<open>An example context of the transport: a session on descriptor 5.\<close>

definition demo_rgi :: "rcv_user ginfo_blk" where
  "demo_rgi = \<lparr>magicnum = MAGICNUM, tplist = Some 0, readfds = [], writefds = [], execpfds = [], cbtab = replicate MAX_CBS None,
     fdcount = 0, gi_flags = 0, tcp_flags = 0, tp_map = (\<lambda>_. None)(5 \<mapsto> 0), h_tp = (\<lambda>_. None)(0 \<mapsto> demo_blk 5 2 None None), tp_fresh = 1,
     os_n = 0, os_log = [], si_user = Some (Some demo_uta)\<rparr>"

end
