(* ===== verification/Nng.thy ===== *)
theory Nng
  imports Send
begin

text \<open>
  The NNG transport, \<^verbatim>\<open>src/src/rmr/nng/src\<close>: the message buffers, the receive and the send functions of
  \<^verbatim>\<open>sr_nng_static.c\<close>, the links to endpoints of \<^verbatim>\<open>rtable_nng_static.c\<close>, and the functions of \<^verbatim>\<open>rmr_nng.c\<close>
  over them for a context without the receive thread.

  The NNG library is not part of the repository.  What it answers to the n-th call is given by the
  environment; the messages that it allocates are blocks in a store of the context, so that a block
  that has been handed over to the library or freed is no longer there, and a use of it is a fault
  (\<open>None\<close>), like an access outside of a block, \<^verbatim>\<open>exit\<close> and \<^verbatim>\<open>abort\<close>.  The pointers of a message are a block
  and an offset, since the payload of a message can be in the block of another one.

  Route tables, entries and endpoints are those of \<open>Route\<close>: the code that builds them is common to the
  transports.  The fields of the context that only the SI95 transport has are not used here.
\<close>

section \<open>State\<close>

text \<open>The results of the library that the code tells apart.\<close>

datatype nng_rc = NNG_OK | NNG_EAGAIN | NNG_ETIMEDOUT | NNG_ENOTSUP | NNG_EINVAL | NNG_ENOMEM
  | NNG_ESTATE | NNG_ECONNSHUT | NNG_ECLOSED | NNG_EOTHER

record nmsg =
  nm_state :: int
  nm_mtype :: int
  nm_len :: int
  nm_payload :: "(addr \<times> nat) option"
  nm_xaction :: "(addr \<times> nat) option"
  nm_sub_id :: int
  nm_tp_state :: errno
  nm_tp_buf :: "addr option"
  nm_header :: "addr option"
  nm_flags :: u32
  nm_alloc_len :: int

definition zero_nmsg :: nmsg where
  "zero_nmsg = \<lparr>nm_state = 0, nm_mtype = 0, nm_len = 0, nm_payload = None, nm_xaction = None, nm_sub_id = 0,
     nm_tp_state = E0, nm_tp_buf = None, nm_header = None, nm_flags = 0, nm_alloc_len = 0\<rparr>"

record nchute =
  nc_mbuf :: "nmsg option"
  nc_sem :: nat

record nng_ctx = snd_ctx +
  nn_heap :: "addr \<Rightarrow> bytes option"
  nn_next :: addr
  nn_calls :: nat
  nn_sent :: "(int \<times> bytes) list"
  nn_ring :: "nmsg ring"
  nn_eps :: bool
  nn_chutes :: "nchute list"

record nng_env =
  ng_rt :: rt_env
  ng_junk :: "nat \<Rightarrow> byte"
  ng_alloc :: "nat \<Rightarrow> bool"
  ng_send :: "nat \<Rightarrow> nng_rc"
  ng_recv :: "nat \<Rightarrow> nng_rc \<times> bytes option"
  ng_push0 :: "nat \<Rightarrow> int option"
  ng_dialer :: "nat \<Rightarrow> bool"
  ng_epoll :: "nat \<Rightarrow> int \<times> errno"

abbreviation (input) SIZEOF_V1MHDR :: nat where "SIZEOF_V1MHDR \<equiv> 144"
abbreviation (input) RMR_MAX_RCV_BYTES :: int where "RMR_MAX_RCV_BYTES \<equiv> 2048"
abbreviation (input) EBADE :: errno where "EBADE \<equiv> EOther 52"

definition nn_tick :: "nng_ctx \<Rightarrow> nng_ctx" where
  "nn_tick c = c\<lparr>nn_calls := Suc (nn_calls c)\<rparr>"

definition nn_put :: "nng_ctx \<Rightarrow> addr \<Rightarrow> bytes \<Rightarrow> nng_ctx" where
  "nn_put c a b = c\<lparr>nn_heap := (nn_heap c)(a \<mapsto> b)\<rparr>"

definition nn_free :: "nng_ctx \<Rightarrow> addr \<Rightarrow> nng_ctx option" where
  "nn_free c a = do { _ \<leftarrow> nn_heap c a; Some (c\<lparr>nn_heap := (nn_heap c)(a := None)\<rparr>) }"

text \<open>A new block; what it holds is not specified.\<close>

definition nn_new :: "nng_ctx \<Rightarrow> bytes \<Rightarrow> addr \<times> nng_ctx" where
  "nn_new c b = (nn_next c, c\<lparr>nn_heap := (nn_heap c)(nn_next c \<mapsto> b), nn_next := Suc (nn_next c)\<rparr>)"

definition nng_msg_alloc :: "nng_env \<Rightarrow> nng_ctx \<Rightarrow> nat \<Rightarrow> addr option \<times> nng_ctx" where
  "nng_msg_alloc env c n =
     (if ng_alloc env (nn_calls c)
      then (let (a, c1) = nn_new (nn_tick c) (malloc_bytes (ng_junk env) n) in (Some a, c1))
      else (None, nn_tick c))"

definition strncpy_bytes :: "bytes \<Rightarrow> nat \<Rightarrow> bytes" where
  "strncpy_bytes s n = take n (s @ replicate n 0)"

definition xlate_nng_state :: "nng_rc \<Rightarrow> int \<Rightarrow> int \<times> errno" where
  "xlate_nng_state state def_state =
     (case state of
        NNG_OK \<Rightarrow> (RMR_OK, E0)
      | NNG_EAGAIN \<Rightarrow> (RMR_ERR_RETRY, EAGAIN)
      | NNG_ETIMEDOUT \<Rightarrow> (RMR_ERR_RETRY, EAGAIN)
      | NNG_ENOTSUP \<Rightarrow> (def_state, ENOTSUP)
      | NNG_EINVAL \<Rightarrow> (def_state, EINVAL)
      | NNG_ENOMEM \<Rightarrow> (def_state, ENOMEM)
      | NNG_ESTATE \<Rightarrow> (def_state, EBADFD)
      | NNG_ECONNSHUT \<Rightarrow> (def_state, EBADFD)
      | NNG_ECLOSED \<Rightarrow> (def_state, EBADFD)
      | NNG_EOTHER \<Rightarrow> (def_state, EBADE))"

section \<open>Message buffers\<close>

text \<open>The header of a new message.\<close>

definition nng_zc_hdr :: "nng_ctx \<Rightarrow> bytes \<Rightarrow> bytes option" where
  "nng_zc_hdr c b = do {
     b1 \<leftarrow> mem_wr b 0 (replicate SIZEOF_MHDR 0);
     b2 \<leftarrow> set32 b1 H_VER (word_of_int RMR_MSG_VER);
     b3 \<leftarrow> set32 b2 H_SUBID (word_of_int UNSET_SUBID);
     b4 \<leftarrow> SET_HDR_LEN b3 0;
     b5 \<leftarrow> SET_HDR_TR_LEN b4 0 (trace_data_len c);
     b6 \<leftarrow> SET_HDR_D1_LEN b5 0 (d1_len c);
     b7 \<leftarrow> mem_wr b6 H_SRC (strncpy_bytes (str_bytes (my_name c)) RMR_MAX_SRC);
     mem_wr b7 H_SRCIP (strncpy_bytes (str_bytes (my_ip c)) RMR_MAX_SRC) }"

text \<open>The state that the caller passes in is overwritten with that of the allocation.\<close>

definition nng_alloc_zcmsg :: "nng_env \<Rightarrow> nng_ctx \<Rightarrow> nmsg option \<Rightarrow> int \<Rightarrow> int \<Rightarrow> (nmsg \<times> nng_ctx) option" where
  "nng_alloc_zcmsg env c msg sz trlo =
     (let tr_len = (if trlo > 0 then trlo else trace_data_len c);
          mlen = (case msg of
              None \<Rightarrow> int SIZEOF_MHDR + tr_len + d1_len c + d2_len c + (if sz > 0 then sz else max_plen c)
            | Some m \<Rightarrow> nm_alloc_len m)
      in if msg = None \<and> \<not> n_ok (ng_rt env) M_mbuf then None
         else do {
           r \<leftarrow> (let (a, c1) = nng_msg_alloc env c (nat mlen) in do { x \<leftarrow> a; Some (x, c1) });
           b \<leftarrow> nn_heap (snd r) (fst r);
           b1 \<leftarrow> nng_zc_hdr c b;
           pay \<leftarrow> PAYLOAD_ADDR b1 0;
           Some (zero_nmsg\<lparr>nm_tp_buf := Some (fst r), nm_header := Some (fst r), nm_alloc_len := sint (word_of_int mlen :: u32),
                   nm_sub_id := UNSET_SUBID, nm_mtype := UNSET_MSGTYPE, nm_payload := Some (fst r, pay),
                   nm_xaction := Some (fst r, H_XID), nm_flags := MFL_ZEROCOPY\<rparr>, nn_put (snd r) (fst r) b1) })"

definition nng_alloc_mbuf :: "nng_env \<Rightarrow> nmsg option" where
  "nng_alloc_mbuf env =
     (if n_ok (ng_rt env) M_mbuf
      then Some (zero_nmsg\<lparr>nm_sub_id := UNSET_SUBID, nm_mtype := UNSET_MSGTYPE, nm_len := -1, nm_alloc_len := -1, nm_state := RMR_ERR_UNSET\<rparr>)
      else None)"

text \<open>The version of the header.  Version 1 was once sent in the byte order of the host; it is put
  right in the buffer.\<close>

definition nng_hdr_ver :: "bytes \<Rightarrow> (u32 \<times> bytes) option" where
  "nng_hdr_ver b = do {
     v \<leftarrow> mem_rd b H_VER 4;
     (if get_le32 v = 1 then do { b1 \<leftarrow> set32 b H_VER 1; Some (1, b1) } else Some (get_be32 v, b)) }"

definition nng_ref_tpbuf :: "nng_ctx \<Rightarrow> nmsg \<Rightarrow> int \<Rightarrow> (nmsg \<times> nng_ctx) option" where
  "nng_ref_tpbuf c m alen = do {
     a \<leftarrow> nm_tp_buf m;
     b \<leftarrow> nn_heap c a;
     v \<leftarrow> nng_hdr_ver b;
     (let b1 = snd v; alen' = sint (word_of_int alen :: u32) in do {
      plen \<leftarrow> get32 b1 H_PLEN;
      mt \<leftarrow> get32 b1 H_MTYPE;
      x \<leftarrow> (if fst v = 1 then Some (SIZEOF_V1MHDR, UNSET_SUBID, int SIZEOF_V1MHDR)
           else do { pay \<leftarrow> PAYLOAD_ADDR b1 0; sid \<leftarrow> get32 b1 H_SUBID; hl \<leftarrow> RMR_HDR_LEN b1 0; Some (pay, sint sid, sint hl) });
      (case x of (pay, sid, hlen) \<Rightarrow>
        let room = alen' - hlen; trunc = sint plen > room
        in Some (m\<lparr>nm_header := Some a, nm_len := (if trunc then room else sint plen), nm_alloc_len := alen',
                   nm_payload := Some (a, pay), nm_xaction := Some (a, H_XID), nm_flags := nm_flags m OR MFL_ZEROCOPY,
                   nm_mtype := sint mt, nm_sub_id := sid, nm_state := (if trunc then RMR_ERR_TRUNC else RMR_OK)\<rparr>,
                 nn_put c a b1)) }) }"

text \<open>The copy of the payload at the end of the clone and reallocation functions: from block and offset
  to block and offset.\<close>

definition nn_copy :: "nng_ctx \<Rightarrow> addr \<times> nat \<Rightarrow> addr \<times> nat \<Rightarrow> int \<Rightarrow> nng_ctx option" where
  "nn_copy c dst src n = do {
     sb \<leftarrow> nn_heap c (fst src);
     bs \<leftarrow> (if n < 0 then None else mem_rd sb (snd src) (nat n));
     db \<leftarrow> nn_heap c (fst dst);
     db1 \<leftarrow> mem_wr db (snd dst) bs;
     Some (nn_put c (fst dst) db1) }"

text \<open>For a version 1 message the payload pointer of the clone is computed from the old header.\<close>

definition nng_clone_msg :: "nng_env \<Rightarrow> nng_ctx \<Rightarrow> nmsg \<Rightarrow> (nmsg \<times> nng_ctx) option" where
  "nng_clone_msg env c om = do {
     _ \<leftarrow> (if n_ok (ng_rt env) M_mbuf then Some () else None);
     r \<leftarrow> (let (a, c1) = nng_msg_alloc env c (nat (nm_alloc_len om)) in do { x \<leftarrow> a; Some (x, c1) });
     (let a = fst r; c1 = snd r in do {
      oa \<leftarrow> nm_header om;
      ob \<leftarrow> nn_heap c1 oa;
      b \<leftarrow> nn_heap c1 a;
      ver \<leftarrow> HDR_VERSION ob 0;
      x \<leftarrow> (if ver = 1
           then do { hb \<leftarrow> mem_rd ob 0 SIZEOF_V1MHDR; b1 \<leftarrow> mem_wr b 0 hb; Some (b1, (oa, SIZEOF_V1MHDR)) }
           else do { hl \<leftarrow> RMR_HDR_LEN ob 0; hb \<leftarrow> mem_rd ob 0 (unat hl); b1 \<leftarrow> mem_wr b 0 hb; pay \<leftarrow> PAYLOAD_ADDR b1 0; Some (b1, (a, pay)) });
      opay \<leftarrow> nm_payload om;
      c2 \<leftarrow> nn_copy (nn_put c1 a (fst x)) (snd x) opay (nm_len om);
      Some (zero_nmsg\<lparr>nm_tp_buf := Some a, nm_header := Some a, nm_payload := Some (snd x), nm_mtype := nm_mtype om,
              nm_sub_id := nm_sub_id om, nm_len := nm_len om, nm_alloc_len := nm_alloc_len om,
              nm_xaction := Some (a, H_XID), nm_state := nm_state om, nm_flags := nm_flags om OR MFL_ZEROCOPY\<rparr>, c2) }) }"

text \<open>For a version 1 message nothing is written to the new block: the header is copied onto itself, and
  payload and transaction id stay in the old block.\<close>

definition nng_realloc_msg :: "nng_env \<Rightarrow> nng_ctx \<Rightarrow> nmsg \<Rightarrow> int \<Rightarrow> (nmsg \<times> nng_ctx) option" where
  "nng_realloc_msg env c om tr_len = do {
     _ \<leftarrow> (if n_ok (ng_rt env) M_mbuf then Some () else None);
     oa \<leftarrow> nm_header om;
     ob \<leftarrow> nn_heap c oa;
     otl \<leftarrow> RMR_TR_LEN ob 0;
     (let mlen = nm_alloc_len om + (tr_len - sint otl) in do {
      r \<leftarrow> (let (a, c1) = nng_msg_alloc env c (nat mlen) in do { x \<leftarrow> a; Some (x, c1) });
      b \<leftarrow> nn_heap (snd r) (fst r);
      ver \<leftarrow> HDR_VERSION ob 0;
      x \<leftarrow> (if ver = 1
           then do { _ \<leftarrow> mem_rd ob 0 SIZEOF_V1MHDR; Some (b, (oa, SIZEOF_V1MHDR), (oa, H_XID)) }
           else do {
             hb \<leftarrow> mem_rd ob 0 SIZEOF_MHDR;
             b1 \<leftarrow> mem_wr b 0 hb;
             b2 \<leftarrow> SET_HDR_TR_LEN b1 0 tr_len;
             dl1 \<leftarrow> RMR_D1_LEN b2 0;
             b3 \<leftarrow> copy_area ob (DATA1_ADDR ob 0) b2 (DATA1_ADDR b2 0) dl1;
             dl2 \<leftarrow> RMR_D2_LEN b3 0;
             b4 \<leftarrow> copy_area ob (DATA2_ADDR ob 0) b3 (DATA2_ADDR b3 0) dl2;
             pay \<leftarrow> PAYLOAD_ADDR b4 0;
             Some (b4, (fst r, pay), (fst r, H_XID)) });
      opay \<leftarrow> nm_payload om;
      c2 \<leftarrow> nn_copy (nn_put (snd r) (fst r) (fst x)) (fst (snd x)) opay (nm_len om);
      Some (zero_nmsg\<lparr>nm_tp_buf := Some (fst r), nm_header := Some (fst r), nm_payload := Some (fst (snd x)), nm_mtype := nm_mtype om,
              nm_sub_id := nm_sub_id om, nm_len := nm_len om, nm_alloc_len := sint (word_of_int mlen :: u32),
              nm_xaction := Some (snd (snd x)), nm_state := nm_state om, nm_flags := nm_flags om OR MFL_ZEROCOPY\<rparr>, c2) }) }"

text \<open>The old block is released with \<^verbatim>\<open>free\<close>, not by the library; after it the block is not used.\<close>

definition nng_realloc_payload :: "nng_env \<Rightarrow> nng_ctx \<Rightarrow> nmsg option \<Rightarrow> int \<Rightarrow> bool \<Rightarrow> bool
    \<Rightarrow> ((nmsg option \<times> errno) \<times> nng_ctx) option" where
  "nng_realloc_payload env c omsg payload_len copy clone =
     (case omsg of None \<Rightarrow> Some ((None, EINVAL), c)
      | Some om \<Rightarrow>
     if payload_len \<le> 0 then Some ((None, EINVAL), c)
     else do {
       oa \<leftarrow> nm_header om;
       ob \<leftarrow> nn_heap c oa;
       hl \<leftarrow> RMR_HDR_LEN ob 0;
       (let old_psize = sint (word_of_int (nm_alloc_len om) - hl :: u32);
            mlen = sint hl + (if payload_len > old_psize then payload_len else old_psize);
            nm0 = (if clone then zero_nmsg else om)
        in if \<not> clone \<and> payload_len \<le> old_psize then Some ((Some om, E0), c)
           else if clone \<and> \<not> n_ok (ng_rt env) M_mbuf then Some ((None, E0), c)
           else (case nng_msg_alloc env c (nat mlen) of
               (None, c1) \<Rightarrow> Some ((None, E0), c1)
             | (Some a, c1) \<Rightarrow> do {
                 b \<leftarrow> nn_heap c1 a;
                 b1 \<leftarrow> SET_HDR_LEN b 0;
                 hb \<leftarrow> mem_rd ob 0 (if copy then unat (word_of_int old_psize + hl) else unat hl);
                 b2 \<leftarrow> mem_wr b1 0 hb;
                 r \<leftarrow> nng_ref_tpbuf (nn_put c1 a b2) (nm0\<lparr>nm_tp_buf := Some a\<rparr>) mlen;
                 c2 \<leftarrow> (if clone then Some (snd r) else case nm_tp_buf om of None \<Rightarrow> Some (snd r) | Some x \<Rightarrow> nn_free (snd r) x);
                 Some ((Some (if copy then (fst r)\<lparr>nm_len := nm_len om, nm_mtype := nm_mtype om, nm_sub_id := nm_sub_id om\<rparr>
                              else (fst r)\<lparr>nm_mtype := -1, nm_sub_id := -1, nm_len := 0\<rparr>), E0), c2) })) })"

definition nng_free_msg :: "nng_ctx \<Rightarrow> nmsg option \<Rightarrow> nng_ctx option" where
  "nng_free_msg c mo =
     (case mo of None \<Rightarrow> Some c
      | Some m \<Rightarrow> if nm_header m \<noteq> None \<and> nm_flags m AND MFL_ZEROCOPY \<noteq> 0
                 then (case nm_tp_buf m of None \<Rightarrow> Some c | Some a \<Rightarrow> nn_free c a)
                 else Some c)"

definition nng_payload_size :: "nng_ctx \<Rightarrow> nmsg option \<Rightarrow> (int \<times> errno) option" where
  "nng_payload_size c mo =
     (case mo of None \<Rightarrow> Some (-1, EINVAL)
      | Some m \<Rightarrow> (case nm_header m of None \<Rightarrow> Some (-1, EINVAL)
        | Some a \<Rightarrow> do { b \<leftarrow> nn_heap c a; hl \<leftarrow> RMR_HDR_LEN b 0; Some (sint (word_of_int (nm_alloc_len m) - hl :: u32), E0) }))"

definition nng_alloc_msg :: "nng_env \<Rightarrow> nng_ctx option \<Rightarrow> int \<Rightarrow> (nmsg option \<times> nng_ctx option) option" where
  "nng_alloc_msg env vctx sz =
     (case vctx of None \<Rightarrow> Some (None, None)
      | Some c \<Rightarrow> do { r \<leftarrow> nng_alloc_zcmsg env c None sz (-1); Some (Some (fst r), Some (snd r)) })"

section \<open>Receiving\<close>

text \<open>\<^verbatim>\<open>nng_recvmsg\<close>: a received message is a new block.\<close>

definition nng_recvmsg :: "nng_env \<Rightarrow> nng_ctx \<Rightarrow> (nng_rc \<times> addr option) \<times> nng_ctx" where
  "nng_recvmsg env c =
     (case ng_recv env (nn_calls c) of
        (NNG_OK, Some b) \<Rightarrow> (let (a, c1) = nn_new (nn_tick c) b in ((NNG_OK, Some a), c1))
      | (rc, _) \<Rightarrow> ((rc, None), nn_tick c))"

definition nng_rcv_msg :: "nng_env \<Rightarrow> nng_ctx \<Rightarrow> nmsg option \<Rightarrow> (nmsg \<times> nng_ctx) option" where
  "nng_rcv_msg env c old_msg = do {
     r0 \<leftarrow> (case old_msg of
             Some m \<Rightarrow> do { c1 \<leftarrow> (case nm_tp_buf m of None \<Rightarrow> Some c | Some a \<Rightarrow> nn_free c a); Some (m, c1) }
           | None \<Rightarrow> do { m \<leftarrow> nng_alloc_mbuf env; Some (m, c) });
     (let m1 = (fst r0)\<lparr>nm_alloc_len := 0, nm_len := 0, nm_payload := None, nm_xaction := None, nm_tp_buf := None\<rparr>;
          ((rc, a), c1) = nng_recvmsg env (snd r0);
          (st, e) = xlate_nng_state rc RMR_ERR_RCVFAILED;
          m2 = m1\<lparr>nm_tp_buf := a, nm_state := st\<rparr>
      in if st \<noteq> RMR_OK then Some (m2\<lparr>nm_tp_state := e\<rparr>, c1)
         else case a of None \<Rightarrow> Some (m2\<lparr>nm_tp_state := E0, nm_state := RMR_ERR_EMPTY\<rparr>, c1)
           | Some x \<Rightarrow> do {
               b \<leftarrow> nn_heap c1 x;
               (if length b \<ge> SIZEOF_V1MHDR
                then do { r \<leftarrow> nng_ref_tpbuf c1 (m2\<lparr>nm_tp_state := E0\<rparr>) (int (length b));
                          Some ((fst r)\<lparr>nm_flags := nm_flags (fst r) OR MFL_ADDSRC\<rparr>, snd r) }
                else Some (m2\<lparr>nm_tp_state := E0, nm_state := RMR_ERR_EMPTY, nm_alloc_len := sint (word_of_int (int (length b)) :: u32),
                              nm_flags := nm_flags m2 OR MFL_ZEROCOPY, nm_mtype := UNSET_MSGTYPE, nm_sub_id := UNSET_SUBID\<rparr>, c1)) }) }"

text \<open>The block of an old message is not freed here.\<close>

definition nng_rcv_payload :: "nng_env \<Rightarrow> nng_ctx \<Rightarrow> nmsg option \<Rightarrow> (nmsg \<times> nng_ctx) option" where
  "nng_rcv_payload env c old_msg = do {
     r0 \<leftarrow> (case old_msg of Some m \<Rightarrow> Some (m, c) | None \<Rightarrow> nng_alloc_zcmsg env c None RMR_MAX_RCV_BYTES (-1));
     (let ((rc, a), c1) = nng_recvmsg env (snd r0);
          (st, e) = xlate_nng_state rc RMR_ERR_RCVFAILED;
          m1 = (fst r0)\<lparr>nm_state := st\<rparr>
      in if st \<noteq> RMR_OK then Some (m1, c1)
         else do {
           x \<leftarrow> a;
           b \<leftarrow> nn_heap c1 x;
           (let n = sint (word_of_int (int (length b)) :: u32)
            in Some (m1\<lparr>nm_tp_buf := Some x, nm_header := Some x, nm_len := n, nm_alloc_len := n, nm_mtype := UNSET_MSGTYPE,
                        nm_sub_id := UNSET_SUBID, nm_state := RMR_OK, nm_flags := MFL_RAW, nm_payload := Some (x, 0), nm_xaction := None\<rparr>, c1)) }) }"

section \<open>The receive thread\<close>

definition nn_post :: "nng_ctx \<Rightarrow> nat \<Rightarrow> (nchute \<Rightarrow> nchute) \<Rightarrow> nng_ctx option" where
  "nn_post c i f =
     (if i < length (nn_chutes c)
      then (let ch = f (nn_chutes c ! i) in Some (c\<lparr>nn_chutes := (nn_chutes c)[i := ch\<lparr>nc_sem := Suc (nc_sem ch)\<rparr>]\<rparr>))
      else None)"

definition nng_queue_normal :: "nng_ctx \<Rightarrow> nmsg \<Rightarrow> nng_ctx option" where
  "nng_queue_normal c m =
     (case uta_ring_insert True (nn_ring c) (Some m) of
        (R_ok, q) \<Rightarrow> nn_post (c\<lparr>nn_ring := q\<rparr>) 0 (\<lambda>ch. ch)
      | (_, q) \<Rightarrow> nng_free_msg (c\<lparr>nn_ring := q\<rparr>) (Some m))"

text \<open>One pass of \<^verbatim>\<open>mt_receive\<close>: messages of calls and messages without a call id go to the ring, the others
  to the chute of the id, over whatever is there.\<close>

definition nng_mt_receive :: "nng_env \<Rightarrow> nng_ctx \<Rightarrow> nng_ctx option" where
  "nng_mt_receive env c = do {
     r \<leftarrow> nng_rcv_msg env c None;
     (let m = fst r; c1 = snd r in
      case nm_header m of None \<Rightarrow> Some c1
      | Some a \<Rightarrow>
          if nm_payload m = None then Some c1
          else do {
            b \<leftarrow> nn_heap c1 a;
            fl \<leftarrow> hdr_flags b 0;
            dl \<leftarrow> RMR_D1_LEN b 0;
            (if fl AND HFL_CALL_MSG \<noteq> 0 \<or> dl = 0 then nng_queue_normal c1 m
             else do {
               d \<leftarrow> DATA1_ADDR b 0;
               cid \<leftarrow> mem_rd b d 1;
               (if hd cid = 0 then nng_queue_normal c1 m else nn_post c1 (unat (hd cid)) (\<lambda>ch. ch\<lparr>nc_mbuf := Some m\<rparr>)) }) }) }"

section \<open>Sending\<close>

text \<open>The retry loop.  The library takes the block over when it accepts the message.\<close>

function nng_send_loop :: "nng_env \<Rightarrow> nng_ctx \<Rightarrow> int \<Rightarrow> addr \<Rightarrow> int \<Rightarrow> int \<Rightarrow> (nng_rc \<times> nng_ctx) option" where
  "nng_send_loop env c sock a spin_retries retries = do {
     b \<leftarrow> nn_heap c a;
     (let rc = ng_send env (nn_calls c); c1 = nn_tick c in
      if rc \<noteq> NNG_OK
      then (if retries > 0 \<and> (rc = NNG_EAGAIN \<or> rc = NNG_ETIMEDOUT)
            then (if spin_retries - 1 \<le> 0
                  then (if retries - 1 > 0 then nng_send_loop env c1 sock a 1000 (retries - 1) else Some (rc, c1))
                  else nng_send_loop env c1 sock a (spin_retries - 1) retries)
            else Some (rc, c1))
      else Some (NNG_OK, c1\<lparr>nn_heap := (nn_heap c1)(a := None), nn_sent := nn_sent c1 @ [(sock, b)]\<rparr>)) }"
  by pat_completeness auto
termination
  by (relation "measures [\<lambda>(env, c, sock, a, spin, retries). nat retries, \<lambda>(env, c, sock, a, spin, retries). nat spin]") auto

declare nng_send_loop.simps [simp del]

definition nng_send_hdr :: "nng_ctx \<Rightarrow> nmsg \<Rightarrow> bytes \<Rightarrow> bytes option" where
  "nng_send_hdr c m b = do {
     b1 \<leftarrow> set32 b H_MTYPE (word_of_int (nm_mtype m));
     b2 \<leftarrow> set32 b1 H_SUBID (word_of_int (nm_sub_id m));
     b3 \<leftarrow> set32 b2 H_PLEN (word_of_int (nm_len m));
     (if nm_flags m AND MFL_ADDSRC \<noteq> 0
      then do {
        b4 \<leftarrow> mem_wr b3 H_SRC (strncpy_bytes (str_bytes (my_name c)) RMR_MAX_SRC);
        mem_wr b4 H_SRCIP (strncpy_bytes (str_bytes (my_ip c)) RMR_MAX_SRC) }
      else Some b3) }"

text \<open>The result: the message, if any, and the error number.  A failed send does not set the transport
  state of the message, except for a buffer that is not zero copy.\<close>

definition nng_send_msg :: "nng_env \<Rightarrow> nng_ctx \<Rightarrow> nmsg \<Rightarrow> int \<Rightarrow> int \<Rightarrow> ((nmsg option \<times> errno) \<times> nng_ctx) option" where
  "nng_send_msg env c m sock retries = do {
     a \<leftarrow> nm_header m;
     b \<leftarrow> nn_heap c a;
     b1 \<leftarrow> nng_send_hdr c m b;
     tr \<leftarrow> RMR_TR_LEN b1 0;
     (let c1 = nn_put c a b1 in
      if nm_flags m AND MFL_ZEROCOPY = 0
      then Some ((Some (m\<lparr>nm_state := RMR_ERR_SENDFAILED, nm_tp_state := ENOTSUP\<rparr>), ENOTSUP), c1)
      else do {
        t \<leftarrow> nm_tp_buf m;
        r \<leftarrow> nng_send_loop env c1 sock t (if retries = 0 then 100 else 1000) (if retries = 0 then 1 else retries);
        (let rc = fst r in
         if rc = NNG_OK
         then (if nm_flags m AND MFL_NOALLOC = 0
               then do { x \<leftarrow> nng_alloc_zcmsg env (snd r) (Some m) 0 (sint tr); Some ((Some (fst x), E0), snd x) }
               else Some ((None, E0), snd r))
         else let p = (if rc = NNG_EAGAIN \<or> rc = NNG_ETIMEDOUT then (RMR_ERR_RETRY, EAGAIN) else xlate_nng_state rc RMR_ERR_SENDFAILED)
              in Some ((Some (m\<lparr>nm_state := fst p\<rparr>), snd p), snd r)) }) }"

section \<open>Links to endpoints\<close>

text \<open>\<^verbatim>\<open>uta_link2\<close>: the socket stays in the endpoint also when the dialer fails.\<close>

definition nng_link2 :: "nng_env \<Rightarrow> nng_ctx \<Rightarrow> addr option \<Rightarrow> (bool \<times> nng_ctx) option" where
  "nng_link2 env c ep =
     (case ep of None \<Rightarrow> Some (False, c)
      | Some a \<Rightarrow> do {
          e \<leftarrow> h_eps c a;
          (if CHR '':'' \<notin> set (ep_name e) then Some (False, c)
           else if ep_open e then Some (True, c)
           else case ng_push0 env (nn_calls c) of
                  None \<Rightarrow> Some (False, nn_tick c)
                | Some s \<Rightarrow>
                    (let e1 = e\<lparr>nn_sock := s\<rparr>; c1 = nn_tick (put_ep (nn_tick c) a e1) in
                     if \<not> ng_dialer env (Suc (nn_calls c)) then Some (False, c1)
                     else if \<not> ng_dialer env (nn_calls c1) then Some (False, nn_tick c1)
                     else Some (True, nn_tick (put_ep c1 a (e1\<lparr>ep_open := True\<rparr>))))) })"

definition nng_link2_ep :: "nng_env \<Rightarrow> nng_ctx \<Rightarrow> addr option \<Rightarrow> (bool \<times> nng_ctx) option" where
  "nng_link2_ep env c ep =
     (case ep of None \<Rightarrow> Some (False, c)
      | Some a \<Rightarrow> do {
          e \<leftarrow> h_eps c a;
          (if ep_open e then Some (True, c)
           else do { r \<leftarrow> nng_link2 env c (Some a); e1 \<leftarrow> h_eps (snd r) a; Some (ep_open e1, snd r) }) })"

text \<open>The socket of an endpoint, which is linked now if it is not open.\<close>

definition nng_ep_sock :: "nng_env \<Rightarrow> nng_ctx \<Rightarrow> addr \<Rightarrow> (int option \<times> nng_ctx) option" where
  "nng_ep_sock env c a = do {
     e \<leftarrow> h_eps c a;
     (if ep_open e then Some (Some (nn_sock e), c)
      else do {
        r \<leftarrow> nng_link2 env (if ep_addr e = None then put_ep c a (e\<lparr>ep_addr := Some (ep_name e)\<rparr>) else c) (Some a);
        e1 \<leftarrow> h_eps (snd r) a;
        (if fst r then Some (Some (nn_sock e1), put_ep (snd r) a (e1\<lparr>ep_open := True\<rparr>)) else Some (None, snd r)) }) }"

text \<open>A negative group is not refused.\<close>

definition nng_add_ep :: "rt_env \<Rightarrow> 'a uta_ctx_scheme \<Rightarrow> addr option \<Rightarrow> addr option \<Rightarrow> string option \<Rightarrow> int
    \<Rightarrow> (addr option \<times> 'a uta_ctx_scheme) option" where
  "nng_add_ep env c rt rte name grp =
     (if grp \<ge> 0 \<or> rte = None \<or> rt = None then uta_add_ep env c rt rte name grp
      else do { ra \<leftarrow> rte; r \<leftarrow> h_rtes c ra; (if nrrgroups r \<le> grp then Some (None, c) else None) })"

text \<open>The endpoint for the counts is what the look-up in the hash of the table gave.\<close>

definition nng_epsock_byname :: "nng_env \<Rightarrow> nng_ctx \<Rightarrow> addr option \<Rightarrow> string option \<Rightarrow> ((int option \<times> addr option) \<times> nng_ctx) option" where
  "nng_epsock_byname env c rt name =
     (case rt of None \<Rightarrow> Some ((None, None), c)
      | Some ta \<Rightarrow> do {
          t \<leftarrow> h_rts c ta;
          n \<leftarrow> name;
          (let (v, h) = rmr_sym_get (rt_hash t) (KStr 1 n);
               c1 = put_rt c ta (t\<lparr>rt_hash := h\<rparr>);
               (ep, c2) = (if v = None then rt_ensure_ep (ng_rt env) c1 rt name else (v, c1))
           in case ep of None \<Rightarrow> Some ((None, v), c2)
              | Some a \<Rightarrow> do { s \<leftarrow> nng_ep_sock env c2 a; Some ((fst s, v), snd s) }) })"

definition nng_epsock_rr :: "nng_env \<Rightarrow> nng_ctx \<Rightarrow> addr option \<Rightarrow> int \<Rightarrow> ((nat \<times> bool \<times> int option \<times> addr option) \<times> nng_ctx) option" where
  "nng_epsock_rr env c rte grp =
     (case rte of None \<Rightarrow> Some ((0, False, None, None), c)
      | Some ra \<Rightarrow> do {
          r \<leftarrow> h_rtes c ra;
          (if grp < 0 \<or> grp \<ge> nrrgroups r then Some ((0, False, None, None), c)
           else if nat grp \<ge> length (rrgroups r) then None
           else (case rrgroups r ! nat grp of None \<Rightarrow> Some ((0, False, None, None), c)
             | Some rrg \<Rightarrow> do {
                 again \<leftarrow> (if grp < nrrgroups r - 1
                          then (if nat grp + 1 < length (rrgroups r) then Some (rrgroups r ! (nat grp + 1) \<noteq> None) else None)
                          else Some False);
                 (if nused rrg = 0 then Some ((0, again, None, None), c)
                  else (let idx = (if nused rrg = 1 then 0 else unat (ep_idx rrg) mod nused rrg);
                            st = (if nused rrg = 1 then 1 else idx + 1);
                            c1 = (if nused rrg = 1 then c
                                  else put_rte c ra (r\<lparr>rrgroups := (rrgroups r)[nat grp := Some (rrg\<lparr>ep_idx := ep_idx rrg + 1\<rparr>)]\<rparr>))
                        in if idx \<ge> length (epts rrg) then None
                           else do {
                             a \<leftarrow> epts rrg ! idx;
                             s \<leftarrow> nng_ep_sock env c1 a;
                             Some ((if fst s = None then 0 else st, again, fst s, Some a), snd s) })) })) })"

definition nng_epsock_meid :: "nng_env \<Rightarrow> nng_ctx \<Rightarrow> addr option \<Rightarrow> nmsg option \<Rightarrow> ((int option \<times> addr option) \<times> nng_ctx) option" where
  "nng_epsock_meid env c rt msg =
     (case (rt, msg) of
        (Some ta, Some m) \<Rightarrow> do {
          a \<leftarrow> nm_header m; b \<leftarrow> nn_heap c a;
          meid \<leftarrow> field_str b H_MEID;
          r \<leftarrow> get_meid_owner c rt (Some (bytes_str meid));
          (case fst r of None \<Rightarrow> Some ((None, None), snd r)
           | Some x \<Rightarrow> do { s \<leftarrow> nng_ep_sock env (snd r) x; Some ((fst s, Some x), snd s) }) }
      | _ \<Rightarrow> Some ((None, None), c))"

section \<open>Sending by route\<close>

text \<open>The choice of the endpoint: more groups, the socket if it is good, the endpoint.\<close>

definition nng_pick_ep :: "nng_env \<Rightarrow> nng_ctx \<Rightarrow> addr \<Rightarrow> nmsg \<Rightarrow> int \<Rightarrow> ((bool \<times> int option \<times> addr option) \<times> nng_ctx) option" where
  "nng_pick_ep env c ra m grp = do {
     rte \<leftarrow> h_rtes c ra;
     (if nrrgroups rte > 0
      then do { r \<leftarrow> nng_epsock_rr env c (Some ra) grp;
                (case fst r of (ok, again, sock, ep) \<Rightarrow> Some ((again, if ok = 0 then None else sock, ep), snd r)) }
      else do { r \<leftarrow> nng_epsock_meid env c (rtable c) (Some m); Some ((False, fst (fst r), snd (fst r)), snd r) }) }"

text \<open>One turn of the loop.  After a failed send of a message with a clone the message is freed and the
  clone, with the state it was made with, is what is counted and sent on.\<close>

definition nng_send_group :: "nng_env \<Rightarrow> nng_ctx \<Rightarrow> nmsg \<Rightarrow> bool \<Rightarrow> int option \<Rightarrow> addr option \<Rightarrow> int \<Rightarrow> int
    \<Rightarrow> ((nmsg option \<times> errno \<times> int) \<times> nng_ctx) option" where
  "nng_send_group env c m again sock ep max_to ok_sends =
     (case sock of
        None \<Rightarrow> Some ((Some (m\<lparr>nm_state := RMR_ERR_NOENDPT\<rparr>), ENXIO, ok_sends), c)
      | Some s \<Rightarrow>
          if again
          then do {
            x \<leftarrow> nng_clone_msg env c m;
            r \<leftarrow> nng_send_msg env (snd x) (m\<lparr>nm_flags := nm_flags m OR MFL_NOALLOC\<rparr>) s max_to;
            c1 \<leftarrow> nng_free_msg (snd r) (fst (fst r));
            c2 \<leftarrow> incr_ep_counts c1 (nm_state (fst x)) ep;
            Some ((Some (fst x), snd (fst r), if fst (fst r) = None then ok_sends + 1 else ok_sends), c2) }
          else do {
            r \<leftarrow> nng_send_msg env c m s max_to;
            c1 \<leftarrow> (case fst (fst r) of None \<Rightarrow> Some (snd r) | Some m1 \<Rightarrow> incr_ep_counts (snd r) (nm_state m1) ep);
            Some ((fst (fst r), snd (fst r), ok_sends), c1) })"

partial_function (option) nng_group_loop :: "nng_env \<Rightarrow> nng_ctx \<Rightarrow> addr \<Rightarrow> nmsg \<Rightarrow> int \<Rightarrow> int \<Rightarrow> int
    \<Rightarrow> ((nmsg option \<times> errno \<times> int) \<times> nng_ctx) option" where
  "nng_group_loop env c ra m grp max_to ok_sends = do {
     p \<leftarrow> nng_pick_ep env c ra m grp;
     r \<leftarrow> nng_send_group env (snd p) m (fst (fst p)) (fst (snd (fst p))) (snd (snd (fst p))) max_to ok_sends;
     (if fst (fst p)
      then (case fst (fst r) of None \<Rightarrow> None | Some m1 \<Rightarrow> nng_group_loop env (snd r) ra m1 (grp + 1) max_to (snd (snd (fst r))))
      else Some r) }"

definition nng_send_result :: "nmsg option \<Rightarrow> errno \<Rightarrow> int \<Rightarrow> nmsg option" where
  "nng_send_result mo e ok_sends =
     map_option (\<lambda>m. m\<lparr>nm_flags := nm_flags m AND NOT MFL_NOALLOC, nm_state := (if ok_sends \<noteq> 0 then RMR_OK else nm_state m), nm_tp_state := e\<rparr>) mo"

text \<open>The route table is used without a reference.\<close>

definition nng_mtosend_msg :: "nng_env \<Rightarrow> nng_ctx option \<Rightarrow> nmsg option \<Rightarrow> int \<Rightarrow> ((nmsg option \<times> errno) \<times> nng_ctx option) option" where
  "nng_mtosend_msg env vctx msg max_to =
     (case (vctx, msg) of
        (_, None) \<Rightarrow> Some ((None, EINVAL), vctx)
      | (None, Some m) \<Rightarrow> Some ((Some (m\<lparr>nm_state := RMR_ERR_BADARG, nm_tp_state := EINVAL\<rparr>), EINVAL), None)
      | (Some c, Some m) \<Rightarrow>
          if nm_header m = None then Some ((Some (m\<lparr>nm_state := RMR_ERR_NOHDR, nm_tp_state := EBADMSG\<rparr>), EBADMSG), vctx)
          else do {
            rte \<leftarrow> uta_get_rte c (rtable c) (nm_sub_id m) (nm_mtype m) True;
            (case fst rte of
               None \<Rightarrow> Some ((Some (m\<lparr>nm_state := RMR_ERR_NOENDPT, nm_tp_state := ENXIO\<rparr>), ENXIO), Some (snd rte))
             | Some ra \<Rightarrow> do {
                 r \<leftarrow> nng_group_loop env (snd rte) ra m 0 (if max_to < 0 then send_retries c else max_to) 0;
                 Some ((nng_send_result (fst (fst r)) (fst (snd (fst r))) (snd (snd (fst r))), fst (snd (fst r))), Some (snd r)) }) })"

definition nng_send2ep :: "nng_env \<Rightarrow> nng_ctx \<Rightarrow> addr \<Rightarrow> nmsg \<Rightarrow> ((nmsg option \<times> errno) \<times> nng_ctx) option" where
  "nng_send2ep env c ep m = do { e \<leftarrow> h_eps c ep; nng_send_msg env c m (nn_sock e) (-1) }"

text \<open>The public functions clear the call flag and the call id before they look at their arguments.\<close>

definition nng_clear_call :: "nng_ctx \<Rightarrow> nmsg \<Rightarrow> nng_ctx option" where
  "nng_clear_call c m = do {
     a \<leftarrow> nm_header m; b \<leftarrow> nn_heap c a;
     fl \<leftarrow> hdr_flags b 0;
     b1 \<leftarrow> set_hdr_flags b 0 (fl AND NOT HFL_CALL_MSG);
     d \<leftarrow> DATA1_ADDR b1 0;
     b2 \<leftarrow> mem_wr b1 d [0];
     Some (nn_put c a b2) }"

definition nng_rmr_mtosend :: "nng_env \<Rightarrow> nng_ctx \<Rightarrow> nmsg option \<Rightarrow> int \<Rightarrow> ((nmsg option \<times> errno) \<times> nng_ctx option) option" where
  "nng_rmr_mtosend env c msg max_to =
     (case msg of None \<Rightarrow> nng_mtosend_msg env (Some c) None max_to
      | Some m \<Rightarrow> do { c1 \<leftarrow> nng_clear_call c m; nng_mtosend_msg env (Some c1) msg max_to })"

definition nng_rmr_send :: "nng_env \<Rightarrow> nng_ctx \<Rightarrow> nmsg option \<Rightarrow> ((nmsg option \<times> errno) \<times> nng_ctx option) option" where
  "nng_rmr_send env c msg =
     (case msg of None \<Rightarrow> nng_rmr_mtosend env c None (-1)
      | Some m \<Rightarrow> do { c1 \<leftarrow> nng_clear_call c m; nng_rmr_mtosend env c1 msg (-1) })"

section \<open>Return to sender\<close>

definition nng_rts_sock :: "nng_env \<Rightarrow> nng_ctx \<Rightarrow> bytes \<Rightarrow> ((int option \<times> addr option) \<times> nng_ctx) option" where
  "nng_rts_sock env c b = do {
     src \<leftarrow> field_str b H_SRC;
     r \<leftarrow> nng_epsock_byname env c (rtable c) (Some (bytes_str src));
     v \<leftarrow> HDR_VERSION b 0;
     (if fst (fst r) \<noteq> None \<or> \<not> v > 2 then Some r
      else do { ip \<leftarrow> field_str b H_SRCIP; nng_epsock_byname env (snd r) (rtable (snd r)) (Some (bytes_str ip)) }) }"

definition nng_rts_restore :: "nng_ctx \<Rightarrow> nmsg \<Rightarrow> bytes \<Rightarrow> bytes \<Rightarrow> (nmsg \<times> nng_ctx) option" where
  "nng_rts_restore c m src ip = do {
     a \<leftarrow> nm_header m; b \<leftarrow> nn_heap c a;
     b1 \<leftarrow> mem_wr b H_SRC (strncpy_bytes src RMR_MAX_SRC);
     b2 \<leftarrow> mem_wr b1 H_SRCIP (strncpy_bytes ip RMR_MAX_SRC);
     Some (m\<lparr>nm_flags := nm_flags m OR MFL_ADDSRC\<rparr>, nn_put c a b2) }"

definition nng_rts_msg :: "nng_env \<Rightarrow> nng_ctx option \<Rightarrow> nmsg option \<Rightarrow> (nmsg option \<times> nng_ctx option) option" where
  "nng_rts_msg env vctx msg =
     (case (vctx, msg) of
        (_, None) \<Rightarrow> Some (None, vctx)
      | (None, Some m) \<Rightarrow> Some (Some (m\<lparr>nm_state := RMR_ERR_BADARG, nm_tp_state := EINVAL\<rparr>), None)
      | (Some c, Some m) \<Rightarrow>
          (case nm_header m of
             None \<Rightarrow> Some (Some (m\<lparr>nm_state := RMR_ERR_NOHDR, nm_tp_state := E0\<rparr>), vctx)
           | Some a \<Rightarrow> do {
               b \<leftarrow> nn_heap c a;
               fl \<leftarrow> hdr_flags b 0;
               b1 \<leftarrow> set_hdr_flags b 0 (fl AND NOT HFL_CALL_MSG);
               p \<leftarrow> nng_rts_sock env (nn_put c a b1) b1;
               (case fst (fst p) of
                  None \<Rightarrow> Some (Some (m\<lparr>nm_state := RMR_ERR_NOENDPT\<rparr>), Some (snd p))
                | Some s \<Rightarrow> do {
                    src \<leftarrow> field_str b1 H_SRC;
                    ip \<leftarrow> field_str b1 H_SRCIP;
                    b2 \<leftarrow> mem_wr b1 H_SRC (strncpy_bytes (str_bytes (my_name c)) RMR_MAX_SRC);
                    r \<leftarrow> nng_send_msg env (nn_put (snd p) a b2) (m\<lparr>nm_state := RMR_OK\<rparr>) s (-1);
                    (case fst (fst r) of
                       None \<Rightarrow> Some (None, Some (snd r))
                     | Some m1 \<Rightarrow> do {
                         c1 \<leftarrow> incr_ep_counts (snd r) (nm_state m1) (snd (fst p));
                         x \<leftarrow> nng_rts_restore c1 m1 src ip;
                         Some (Some (fst x), Some (snd x)) }) }) }))"

section \<open>The receive and call functions without the receive thread\<close>

text \<open>What \<^verbatim>\<open>rmr_rcv_msg\<close> does after the checks: a queued message, or the next one from the socket.\<close>

definition nng_rcv_queued :: "nng_env \<Rightarrow> nng_ctx \<Rightarrow> nmsg option \<Rightarrow> (nmsg \<times> nng_ctx) option" where
  "nng_rcv_queued env c old_msg =
     (case uta_ring_extract True True (nn_ring c) of
        (Some qm, r) \<Rightarrow> do { c1 \<leftarrow> nng_free_msg (c\<lparr>nn_ring := r\<rparr>) old_msg; Some (qm, c1) }
      | (None, r) \<Rightarrow> nng_rcv_msg env (c\<lparr>nn_ring := r\<rparr>) old_msg)"

text \<open>The set-up of \<^verbatim>\<open>epoll\<close> on the first call: the descriptor, that of the socket, the registration.\<close>

definition nng_epoll_setup :: "nng_env \<Rightarrow> nng_ctx \<Rightarrow> errno option \<times> nng_ctx" where
  "nng_epoll_setup env c =
     (if nn_eps c then (None, c)
      else let (fd, e) = ng_epoll env (nn_calls c); c1 = nn_tick c
           in if fd < 0 then (Some e, c1)
              else let (st, e2) = ng_epoll env (nn_calls c1)
                   in if st \<noteq> 0 then (Some e2, nn_tick c1) else (None, (nn_tick c1)\<lparr>nn_eps := True\<rparr>))"

definition nng_torcv :: "nng_env \<Rightarrow> nng_ctx \<Rightarrow> nmsg option \<Rightarrow> (nmsg option \<times> nng_ctx) option" where
  "nng_torcv env c old_msg =
     (case uta_ring_extract True True (nn_ring c) of
        (Some qm, r) \<Rightarrow> do { c1 \<leftarrow> nng_free_msg (c\<lparr>nn_ring := r\<rparr>) old_msg; Some (Some qm, c1) }
      | (None, r) \<Rightarrow>
          (case nng_epoll_setup env (c\<lparr>nn_ring := r\<rparr>) of
             (Some e, c1) \<Rightarrow> Some (map_option (\<lambda>m. m\<lparr>nm_state := RMR_ERR_INITFAILED, nm_tp_state := e\<rparr>) old_msg, c1)
           | (None, c1) \<Rightarrow> do {
               x \<leftarrow> (case old_msg of Some m \<Rightarrow> Some (m, c1) | None \<Rightarrow> nng_alloc_zcmsg env c1 None RMR_MAX_RCV_BYTES (-1));
               (let (nready, e) = ng_epoll env (nn_calls (snd x)); c2 = nn_tick (snd x)
                in if nready \<le> 0 then Some (Some ((fst x)\<lparr>nm_state := RMR_ERR_TIMEOUT, nm_tp_state := e\<rparr>), c2)
                   else do { r \<leftarrow> nng_rcv_msg env c2 (Some (fst x)); Some (Some (fst r), snd r) }) }))"

text \<open>The loop of \<^verbatim>\<open>rmr_rcv_specific\<close>; a receive that fails is not counted.\<close>

partial_function (option) nng_specific_loop :: "nng_env \<Rightarrow> nng_ctx \<Rightarrow> nmsg option \<Rightarrow> bytes \<Rightarrow> int \<Rightarrow> int
    \<Rightarrow> ((nmsg option \<times> errno) \<times> nng_ctx) option" where
  "nng_specific_loop env c msg expect queued allow2queue =
     (if queued < allow2queue
      then do {
        r \<leftarrow> nng_rcv_msg env c msg;
        (if nm_state (fst r) = RMR_OK
         then do {
           x \<leftarrow> nm_xaction (fst r);
           b \<leftarrow> nn_heap (snd r) (fst x);
           xid \<leftarrow> mem_rd b (snd x) (length expect);
           (if xid = expect then Some ((Some (fst r), E0), snd r)
            else (case uta_ring_insert True (nn_ring (snd r)) (Some (fst r)) of
                (R_ok, q) \<Rightarrow> nng_specific_loop env ((snd r)\<lparr>nn_ring := q\<rparr>) None expect (queued + 1) allow2queue
              | (_, q) \<Rightarrow> Some ((None, ENOBUFS), (snd r)\<lparr>nn_ring := q\<rparr>))) }
         else nng_specific_loop env (snd r) (Some (fst r)) expect queued allow2queue) }
      else Some ((None, ETIMEDOUT), c))"

definition nng_rcv_specific :: "nng_env \<Rightarrow> nng_ctx \<Rightarrow> nmsg option \<Rightarrow> bytes option \<Rightarrow> int \<Rightarrow> ((nmsg option \<times> errno) \<times> nng_ctx) option" where
  "nng_rcv_specific env c msg expect allow2queue =
     (case expect of
        Some (x # xs) \<Rightarrow> nng_specific_loop env c msg (take RMR_MAX_XID (x # xs)) 0 allow2queue
      | _ \<Rightarrow> do { r \<leftarrow> nng_rcv_queued env c msg; Some ((Some (fst r), E0), snd r) })"

definition nng_call :: "nng_env \<Rightarrow> nng_ctx \<Rightarrow> nmsg \<Rightarrow> ((nmsg option \<times> errno) \<times> nng_ctx) option" where
  "nng_call env c m = do {
     x \<leftarrow> nm_xaction m; b \<leftarrow> nn_heap c (fst x);
     expected \<leftarrow> mem_rd b (snd x) RMR_MAX_XID;
     r \<leftarrow> nng_rmr_send env c (Some (m\<lparr>nm_flags := nm_flags m OR MFL_NOALLOC\<rparr>));
     c1 \<leftarrow> snd r;
     (case fst (fst r) of
        Some m1 \<Rightarrow> Some ((Some (m1\<lparr>nm_state := (if nm_state m1 \<noteq> RMR_ERR_RETRY then RMR_ERR_CALLFAILED else nm_state m1),
                               nm_tp_state := snd (fst r)\<rparr>), snd (fst r)), c1)
      | None \<Rightarrow> nng_rcv_specific env c1 None (Some (cstr expected)) 20) }"

end
