(* ===== verification/Nng_Inv.thy ===== *)
theory Nng_Inv
  imports Nng Send_Inv
begin

text \<open>
  Properties of the NNG transport: a message that the library accepts is handed over once and not used
  afterwards, a message that is sent and received has the same fields and payload, and a receive for one
  transaction keeps the messages that arrive before it; and inputs on which the code fails.
\<close>

section \<open>Headers\<close>

text \<open>A current header at the start of a block, with the lengths of the areas that follow it.\<close>

definition nhdr :: "bytes \<Rightarrow> nat \<Rightarrow> nat \<Rightarrow> nat \<Rightarrow> bool" where
  "nhdr b l1 l2 l3 \<longleftrightarrow> get32 b H_VER = Some 3 \<and> get32 b H_LEN0 = Some 280 \<and> get32 b H_LEN1 = Some (of_nat l1) \<and>
     get32 b H_LEN2 = Some (of_nat l2) \<and> get32 b H_LEN3 = Some (of_nat l3) \<and>
     280 + l1 + l2 + l3 \<le> length b \<and> length b < 2 ^ 31"

lemma nhdr_frame: "nhdr b l1 l2 l3 \<Longrightarrow> frame b b' lo hi \<Longrightarrow> hi \<le> 8 \<or> 12 \<le> lo \<and> hi \<le> 196 \<or> 212 \<le> lo \<Longrightarrow> nhdr b' l1 l2 l3"
  by (auto simp: nhdr_def frame_get32 frame_length)

lemma nhdr_rd:
  assumes "nhdr b l1 l2 l3"
  shows "PAYLOAD_ADDR b 0 = Some (280 + l1 + l2 + l3)" and "RMR_HDR_LEN b 0 = Some (word_of_int (280 + int l1 + int l2 + int l3))"
    and "RMR_TR_LEN b 0 = Some (of_nat l1)" and "nng_hdr_ver b = Some (3, b)"
proof -
  have l: "l1 < 2 ^ 31" "l2 < 2 ^ 31" "l3 < 2 ^ 31" using assms by (auto simp: nhdr_def)
  show "PAYLOAD_ADDR b 0 = Some (280 + l1 + l2 + l3)" using assms l by (simp add: nhdr_def PAYLOAD_ADDR_def unat_of_nat_small)
  show "RMR_HDR_LEN b 0 = Some (word_of_int (280 + int l1 + int l2 + int l3))" using assms by (simp add: nhdr_def RMR_HDR_LEN_def)
  show "RMR_TR_LEN b 0 = Some (of_nat l1)" using assms by (simp add: nhdr_def RMR_TR_LEN_def)
  obtain v where v: "mem_rd b 8 4 = Some v" "get_be32 v = 3" using assms by (auto simp: nhdr_def get32_def)
  then have "length v = 4" by (auto dest: mem_rd_length)
  then obtain v0 v1 v2 v3 where vs: "v = [v0, v1, v2, v3]" by (auto simp: numeral_eq_Suc length_Suc_conv)
  have "get_le32 v \<noteq> 1"
  proof
    assume "get_le32 v = 1"
    moreover have "bit (get_le32 v) 24 = bit v3 0" "bit (get_be32 v) 0 = bit v3 0"
      using vs by (auto simp: get_be32_def get_le32_def bit_simps dest: bit_imp_le_length)
    ultimately show False using v(2) by simp
  qed
  then show "nng_hdr_ver b = Some (3, b)" using v by (simp add: nng_hdr_ver_def)
qed

lemma strncpy_bytes_length [simp]: "length (strncpy_bytes s n) = n"
  by (simp add: strncpy_bytes_def)

text \<open>What a send writes into the header: the three fields, and the source when it is asked to.\<close>

lemma nng_send_hdr_ok:
  assumes "280 \<le> length b"
  shows "\<exists>b1. nng_send_hdr c m b = Some b1 \<and> length b1 = length b \<and> get32 b1 H_MTYPE = Some (word_of_int (nm_mtype m)) \<and>
    get32 b1 H_SUBID = Some (word_of_int (nm_sub_id m)) \<and> get32 b1 H_PLEN = Some (word_of_int (nm_len m)) \<and>
    (\<forall>l1 l2 l3. nhdr b l1 l2 l3 \<longrightarrow> nhdr b1 l1 l2 l3) \<and> (\<forall>p n. 280 \<le> p \<longrightarrow> mem_rd b1 p n = mem_rd b p n) \<and>
    mem_rd b1 H_XID RMR_MAX_XID = mem_rd b H_XID RMR_MAX_XID"
proof -
  obtain b1 where b1: "set32 b 0 (word_of_int (nm_mtype m)) = Some b1" "frame b b1 0 4" "get32 b1 0 = Some (word_of_int (nm_mtype m))" "length b1 = length b"
    using set32_step [of 0 b "word_of_int (nm_mtype m)"] assms by auto
  obtain b2 where b2: "set32 b1 212 (word_of_int (nm_sub_id m)) = Some b2" "frame b1 b2 212 216" "get32 b2 212 = Some (word_of_int (nm_sub_id m))" "length b2 = length b"
    using set32_step [of 212 b1 "word_of_int (nm_sub_id m)"] assms b1(4) by auto
  obtain b3 where b3: "set32 b2 4 (word_of_int (nm_len m)) = Some b3" "frame b2 b3 4 8" "get32 b3 4 = Some (word_of_int (nm_len m))" "length b3 = length b"
    using set32_step [of 4 b2 "word_of_int (nm_len m)"] assms b2(4) by auto
  obtain b4 where b4: "mem_wr b3 76 (strncpy_bytes (str_bytes (my_name c)) 64) = Some b4" "frame b3 b4 76 140" "length b4 = length b"
    using mem_wr_step [of "strncpy_bytes (str_bytes (my_name c)) 64" 64 76 b3] assms b3(4) by auto
  obtain b5 where b5: "mem_wr b4 216 (strncpy_bytes (str_bytes (my_ip c)) 64) = Some b5" "frame b4 b5 216 280" "length b5 = length b"
    using mem_wr_step [of "strncpy_bytes (str_bytes (my_ip c)) 64" 64 216 b4] assms b4(3) by auto
  note fr = b1(2) b2(2) b3(2)
  have 3: "get32 b3 0 = get32 b1 0" "get32 b3 212 = get32 b2 212" using frame_get32 [OF b3(2)] frame_get32 [OF b2(2)] by auto
  have h3: "nhdr b3 l1 l2 l3" if "nhdr b l1 l2 l3" for l1 l2 l3
    using nhdr_frame [OF nhdr_frame [OF nhdr_frame [OF that b1(2)] b2(2)] b3(2)] by simp
  have p3: "mem_rd b3 p n = mem_rd b p n" if "280 \<le> p" for p n using that frame_rd [OF b1(2)] frame_rd [OF b2(2)] frame_rd [OF b3(2)] by simp
  have x3: "mem_rd b3 12 32 = mem_rd b 12 32" using frame_rd [OF b1(2)] frame_rd [OF b2(2)] frame_rd [OF b3(2)] by simp
  show ?thesis
  proof (cases "nm_flags m AND MFL_ADDSRC \<noteq> 0")
    case False
    then show ?thesis using b1 b2 b3 3 h3 p3 x3 by (simp add: nng_send_hdr_def)
  next
    case True
    have 5: "get32 b5 0 = get32 b3 0" "get32 b5 4 = get32 b3 4" "get32 b5 212 = get32 b3 212"
      using frame_get32 [OF b4(2)] frame_get32 [OF b5(2)] by auto
    have h5: "nhdr b5 l1 l2 l3" if "nhdr b l1 l2 l3" for l1 l2 l3 using nhdr_frame [OF nhdr_frame [OF h3 [OF that] b4(2)] b5(2)] by simp
    have p5: "mem_rd b5 p n = mem_rd b p n" if "280 \<le> p" for p n using that p3 frame_rd [OF b4(2)] frame_rd [OF b5(2)] by simp
    have x5: "mem_rd b5 12 32 = mem_rd b 12 32" using x3 frame_rd [OF b4(2)] frame_rd [OF b5(2)] by simp
    show ?thesis using True b1 b2 b3 b4 b5 3 5 h5 p5 x5 by (simp add: nng_send_hdr_def)
  qed
qed

section \<open>Handing a message over\<close>

definition nn_ok :: "nng_ctx \<Rightarrow> bool" where
  "nn_ok c \<longleftrightarrow> (\<forall>a \<ge> nn_next c. nn_heap c a = None)"

lemma nn_tick_simps [simp]:
  "nn_heap (nn_tick c) = nn_heap c" "nn_next (nn_tick c) = nn_next c" "nn_sent (nn_tick c) = nn_sent c" "nn_ring (nn_tick c) = nn_ring c"
  "nn_calls (nn_tick c) = Suc (nn_calls c)" "nn_ok (nn_tick c) = nn_ok c" "my_name (nn_tick c) = my_name c" "my_ip (nn_tick c) = my_ip c"
  "trace_data_len (nn_tick c) = trace_data_len c" "d1_len (nn_tick c) = d1_len c"
  by (simp_all add: nn_tick_def nn_ok_def)

lemma nn_put_simps [simp]:
  "nn_heap (nn_put c a b) = (nn_heap c)(a \<mapsto> b)" "nn_next (nn_put c a b) = nn_next c" "nn_sent (nn_put c a b) = nn_sent c"
  "nn_calls (nn_put c a b) = nn_calls c" "nn_ring (nn_put c a b) = nn_ring c" "my_name (nn_put c a b) = my_name c" "my_ip (nn_put c a b) = my_ip c"
  by (simp_all add: nn_put_def)

text \<open>The number of attempts is bounded as that of the SI95 loop; the message is handed over at the last
  attempt or not at all.\<close>

lemma nng_send_loop_once:
  assumes "nn_heap c a = Some b"
  shows "\<exists>rc c'. nng_send_loop env c sock a spin retries = Some (rc, c') \<and> nn_next c' = nn_next c \<and> nn_ring c' = nn_ring c \<and>
    nn_calls c < nn_calls c' \<and> my_name c' = my_name c \<and> my_ip c' = my_ip c \<and>
    (if rc = NNG_OK then nn_heap c' = (nn_heap c)(a := None) \<and> nn_sent c' = nn_sent c @ [(sock, b)]
     else nn_heap c' = nn_heap c \<and> nn_sent c' = nn_sent c)"
  using assms
proof (induction env c sock a spin retries rule: nng_send_loop.induct)
  case (1 env c sock a spin retries)
  define rc where "rc = ng_send env (nn_calls c)"
  consider "rc = NNG_OK" | "rc \<noteq> NNG_OK" "\<not> (retries > 0 \<and> (rc = NNG_EAGAIN \<or> rc = NNG_ETIMEDOUT))"
    | "rc \<noteq> NNG_OK" "retries > 0 \<and> (rc = NNG_EAGAIN \<or> rc = NNG_ETIMEDOUT)" "spin - 1 \<le> 0" "retries - 1 > 0"
    | "rc \<noteq> NNG_OK" "retries > 0 \<and> (rc = NNG_EAGAIN \<or> rc = NNG_ETIMEDOUT)" "spin - 1 \<le> 0" "\<not> retries - 1 > 0"
    | "rc \<noteq> NNG_OK" "retries > 0 \<and> (rc = NNG_EAGAIN \<or> rc = NNG_ETIMEDOUT)" "\<not> spin - 1 \<le> 0" by blast
  then show ?case
  proof cases
    case 1
    then show ?thesis using "1.prems" by (subst nng_send_loop.simps) (simp add: rc_def)
  next
    case 2
    then have "nng_send_loop env c sock a spin retries = Some (rc, nn_tick c)" using "1.prems" by (subst nng_send_loop.simps) (auto simp: rc_def Let_def)
    then show ?thesis using 2 by simp
  next
    case 3
    then have "nng_send_loop env c sock a spin retries = nng_send_loop env (nn_tick c) sock a 1000 (retries - 1)"
      using "1.prems" by (subst nng_send_loop.simps) (simp add: rc_def Let_def)
    with "1.IH"(1) [OF "1.prems" rc_def refl 3] "1.prems" show ?thesis by fastforce
  next
    case 4
    then have "nng_send_loop env c sock a spin retries = Some (rc, nn_tick c)" using "1.prems" by (subst nng_send_loop.simps) (simp add: rc_def Let_def)
    then show ?thesis using 4 by simp
  next
    case 5
    then have "nng_send_loop env c sock a spin retries = nng_send_loop env (nn_tick c) sock a (spin - 1) retries"
      using "1.prems" by (subst nng_send_loop.simps) (simp add: rc_def Let_def)
    with "1.IH"(2) [OF "1.prems" rc_def refl 5] "1.prems" show ?thesis by fastforce
  qed
qed

text \<open>A message with a block of its own, which is large enough for a header.\<close>

definition nng_mine :: "nng_ctx \<Rightarrow> nmsg \<Rightarrow> addr \<Rightarrow> bytes \<Rightarrow> bool" where
  "nng_mine c m a b \<longleftrightarrow> nm_header m = Some a \<and> nm_tp_buf m = Some a \<and> nn_heap c a = Some b \<and> nm_flags m AND MFL_ZEROCOPY \<noteq> 0 \<and>
     nm_alloc_len m = int (length b) \<and> SIZEOF_MHDR \<le> length b \<and> length b < 2 ^ 31"

text \<open>A message that can be sent: its block holds a current header and the payload.\<close>

definition nng_sendable :: "nng_ctx \<Rightarrow> nmsg \<Rightarrow> addr \<Rightarrow> bytes \<Rightarrow> nat \<Rightarrow> nat \<Rightarrow> nat \<Rightarrow> bool" where
  "nng_sendable c m a b l1 l2 l3 \<longleftrightarrow> nng_mine c m a b \<and> nhdr b l1 l2 l3 \<and> nm_payload m = Some (a, 280 + l1 + l2 + l3) \<and>
     0 \<le> nm_len m \<and> 280 + int (l1 + l2 + l3) + nm_len m \<le> int (length b)"

lemma nng_zc_hdr_ok: "280 \<le> length b \<Longrightarrow> \<exists>b1. nng_zc_hdr c b = Some b1 \<and> length b1 = length b \<and> (\<exists>p. PAYLOAD_ADDR b1 0 = Some p)"
  by (auto simp: nng_zc_hdr_def mem_wr_def set32_def SET_HDR_LEN_def SET_HDR_TR_LEN_def SET_HDR_D1_LEN_def PAYLOAD_ADDR_def get32_def mem_rd_def)

lemma nng_new_block:
  assumes ok: "nn_ok c" and al: "ng_alloc env (nn_calls c)" and n: "280 \<le> n" "n < 2 ^ 31"
    and mlen: "(case msg of None \<Rightarrow> int SIZEOF_MHDR + (if tr > 0 then tr else trace_data_len c) + d1_len c + d2_len c + (if sz > 0 then sz else max_plen c)
      | Some m \<Rightarrow> nm_alloc_len m) = int n" and mb: "msg \<noteq> None \<or> n_ok (ng_rt env) M_mbuf"
  shows "\<exists>m' c' b'. nng_alloc_zcmsg env c msg sz tr = Some (m', c') \<and> nm_state m' = RMR_OK \<and> nng_mine c' m' (nn_next c) b' \<and> length b' = n \<and>
    nn_heap c' = (nn_heap c)(nn_next c \<mapsto> b') \<and> nn_next c' = Suc (nn_next c) \<and> nn_sent c' = nn_sent c \<and> nn_ring c' = nn_ring c"
proof -
  obtain b1 p where b1: "nng_zc_hdr c (malloc_bytes (ng_junk env) n) = Some b1" "length b1 = n" "PAYLOAD_ADDR b1 0 = Some p"
    using nng_zc_hdr_ok [of "malloc_bytes (ng_junk env) n" c] n(1) by (auto simp: malloc_bytes_def)
  have "sint (word_of_int (int n) :: u32) = int n" by (rule sint_word_of_int_small) (use n in simp_all)
  then show ?thesis using b1 al ok mlen mb n
    by (simp add: nng_alloc_zcmsg_def nng_msg_alloc_def nn_new_def zero_nmsg_def nng_mine_def Let_def)
qed

lemma xlate_nng_state_fail: "rc \<noteq> NNG_OK \<Longrightarrow> def \<noteq> RMR_OK \<Longrightarrow> xlate_nng_state rc def = (st, e) \<Longrightarrow> st \<noteq> RMR_OK \<and> e \<noteq> E0"
  by (cases rc) (auto simp: xlate_nng_state_def)

text \<open>The two outcomes of a send.\<close>

definition nng_handed :: "nng_ctx \<Rightarrow> nng_ctx \<Rightarrow> nmsg \<Rightarrow> addr \<Rightarrow> int \<Rightarrow> bytes \<Rightarrow> nmsg option \<Rightarrow> errno \<Rightarrow> bool" where
  "nng_handed c c' m a sock b1 mo e \<longleftrightarrow> e = E0 \<and> nn_sent c' = nn_sent c @ [(sock, b1)] \<and> nn_ring c' = nn_ring c \<and>
     (case mo of None \<Rightarrow> nm_flags m AND MFL_NOALLOC \<noteq> 0 \<and> nn_heap c' = (nn_heap c)(a := None) \<and> nn_next c' = nn_next c
      | Some m' \<Rightarrow> nm_flags m AND MFL_NOALLOC = 0 \<and> nm_state m' = RMR_OK \<and> nn_next c' = Suc (nn_next c) \<and>
          (\<exists>b'. nng_mine c' m' (nn_next c) b' \<and> length b' = length b1 \<and> nn_heap c' = (nn_heap c)(a := None, nn_next c \<mapsto> b')))"

definition nng_kept :: "nng_ctx \<Rightarrow> nng_ctx \<Rightarrow> nmsg \<Rightarrow> addr \<Rightarrow> bytes \<Rightarrow> nmsg option \<Rightarrow> errno \<Rightarrow> bool" where
  "nng_kept c c' m a b1 mo e \<longleftrightarrow> e \<noteq> E0 \<and> nn_sent c' = nn_sent c \<and> nn_heap c' = (nn_heap c)(a \<mapsto> b1) \<and> nn_next c' = nn_next c \<and> nn_ring c' = nn_ring c \<and>
     (\<exists>st. st \<noteq> RMR_OK \<and> mo = Some (m\<lparr>nm_state := st\<rparr>))"

lemma nng_send_msg_outcome:
  assumes s: "nng_mine c m a b" and ok: "nn_ok c" and al: "\<forall>n. ng_alloc env n" and b1: "nng_send_hdr c m b = Some b1" "length b1 = length b"
  shows "\<exists>mo e c'. nng_send_msg env c m sock retries = Some ((mo, e), c') \<and> (nng_handed c c' m a sock b1 mo e \<or> nng_kept c c' m a b1 mo e)"
proof -
  let ?c = "nn_put c a b1"
  have an: "a < nn_next c" and lb: "280 \<le> length b" using s ok by (auto simp: nng_mine_def nn_ok_def not_le [symmetric])
  then obtain tr where tr: "RMR_TR_LEN b1 0 = Some tr" using b1(2) by (auto simp: RMR_TR_LEN_def get32_def mem_rd_def)
  obtain rc c2 where c2: "nng_send_loop env ?c sock a (if retries = 0 then 100 else 1000) (if retries = 0 then 1 else retries) = Some (rc, c2)"
    "nn_next c2 = nn_next c" "nn_ring c2 = nn_ring c" "if rc = NNG_OK then nn_heap c2 = (nn_heap ?c)(a := None) \<and> nn_sent c2 = nn_sent ?c @ [(sock, b1)]
     else nn_heap c2 = nn_heap ?c \<and> nn_sent c2 = nn_sent ?c"
    using nng_send_loop_once [of ?c a b1 env sock "if retries = 0 then 100 else 1000" "if retries = 0 then 1 else retries"] by auto
  have run: "nng_send_msg env c m sock retries = (if rc = NNG_OK
      then (if nm_flags m AND MFL_NOALLOC = 0 then do { x \<leftarrow> nng_alloc_zcmsg env c2 (Some m) 0 (sint tr); Some ((Some (fst x), E0), snd x) }
            else Some ((None, E0), c2))
      else (let p = (if rc = NNG_EAGAIN \<or> rc = NNG_ETIMEDOUT then (RMR_ERR_RETRY, EAGAIN) else xlate_nng_state rc RMR_ERR_SENDFAILED)
            in Some ((Some (m\<lparr>nm_state := fst p\<rparr>), snd p), c2)))"
    using s b1 c2(1) tr by (simp add: nng_send_msg_def nng_mine_def)
  show ?thesis
  proof (cases "rc = NNG_OK")
    case True
    then have c2': "nn_heap c2 = (nn_heap c)(a := None)" "nn_sent c2 = nn_sent c @ [(sock, b1)]" using c2(4) by auto
    show ?thesis
    proof (cases "nm_flags m AND MFL_NOALLOC = 0")
      case False
      then have "nng_handed c c2 m a sock b1 None E0" using c2' c2(2,3) by (simp add: nng_handed_def)
      then show ?thesis using run True False by auto
    next
      case na: True
      have ok2: "nn_ok c2" using ok c2' c2(2) by (auto simp: nn_ok_def)
      have "length b < 2 ^ 31" "nm_alloc_len m = int (length b)" using s by (auto simp: nng_mine_def)
      then obtain m' c' b' where
        m': "nng_alloc_zcmsg env c2 (Some m) 0 (sint tr) = Some (m', c')" "nm_state m' = RMR_OK" "nng_mine c' m' (nn_next c2) b'"
        "length b' = length b" "nn_heap c' = (nn_heap c2)(nn_next c2 \<mapsto> b')" "nn_next c' = Suc (nn_next c2)" "nn_sent c' = nn_sent c2" "nn_ring c' = nn_ring c2"
        using nng_new_block [OF ok2, where env = env and n = "length b" and msg = "Some m" and tr = "sint tr" and sz = 0] al lb by auto
      have "nng_handed c c' m a sock b1 (Some m') E0"
        using m' na c2' c2(2,3) b1(2) by (auto simp: nng_handed_def)
      then show ?thesis using run True na m'(1) by auto
    qed
  next
    case False
    define p where "p = (if rc = NNG_EAGAIN \<or> rc = NNG_ETIMEDOUT then (RMR_ERR_RETRY, EAGAIN) else xlate_nng_state rc RMR_ERR_SENDFAILED)"
    have "fst p \<noteq> RMR_OK \<and> snd p \<noteq> E0" using False xlate_nng_state_fail [of rc RMR_ERR_SENDFAILED "fst p" "snd p"] by (auto simp: p_def)
    then have "nng_kept c c2 m a b1 (Some (m\<lparr>nm_state := fst p\<rparr>)) (snd p)" using False c2(2-4) by (auto simp: nng_kept_def)
    moreover have "nng_send_msg env c m sock retries = Some ((Some (m\<lparr>nm_state := fst p\<rparr>), snd p), c2)"
      using False run by (simp add: p_def Let_def)
    ultimately show ?thesis by blast
  qed
qed

section \<open>Receiving\<close>

text \<open>A block with a current header and a payload of \<open>n\<close> bytes that fits.\<close>

definition nng_whole :: "bytes \<Rightarrow> nat \<Rightarrow> nat \<Rightarrow> nat \<Rightarrow> nat \<Rightarrow> bool" where
  "nng_whole b l1 l2 l3 n \<longleftrightarrow> nhdr b l1 l2 l3 \<and> get32 b H_PLEN = Some (of_nat n) \<and> 280 + l1 + l2 + l3 + n \<le> length b"

lemma nng_rcv_whole:
  assumes w: "nng_whole b l1 l2 l3 n" and r: "ng_recv env (nn_calls c) = (NNG_OK, Some b)" and mb: "n_ok (ng_rt env) M_mbuf"
    and f: "get32 b H_MTYPE = Some mt" "get32 b H_SUBID = Some sid"
  shows "\<exists>m c'. nng_rcv_msg env c None = Some (m, c') \<and> nm_state m = RMR_OK \<and> nm_mtype m = sint mt \<and> nm_sub_id m = sint sid \<and> nm_len m = int n \<and>
    nm_payload m = Some (nn_next c, 280 + l1 + l2 + l3) \<and> nm_xaction m = Some (nn_next c, H_XID) \<and> nm_tp_buf m = Some (nn_next c) \<and>
    nn_heap c' = (nn_heap c)(nn_next c \<mapsto> b) \<and> nn_next c' = Suc (nn_next c) \<and> nn_calls c' = Suc (nn_calls c) \<and> nn_ring c' = nn_ring c"
proof -
  have h: "nhdr b l1 l2 l3" and lb: "280 + l1 + l2 + l3 + n \<le> length b" "length b < 2 ^ 31" and pl: "get32 b 4 = Some (of_nat n)"
    using w by (auto simp: nng_whole_def nhdr_def)
  let ?hl = "280 + int l1 + int l2 + int l3"
  have sl: "sint (word_of_int (int (length b)) :: u32) = int (length b)" "sint (word_of_int ?hl :: u32) = ?hl" "sint (word_of_int (int n) :: u32) = int n"
    by (rule sint_word_of_int_small; use lb in simp)+
  have fit: "\<not> int n > int (length b) - ?hl" "SIZEOF_V1MHDR \<le> length b" using lb by linarith+
  note rd = nhdr_rd [OF h]
  show ?thesis using r mb f pl rd(1,2,4) sl fit
    by (simp add: nng_rcv_msg_def nng_alloc_mbuf_def nng_recvmsg_def nn_new_def nng_ref_tpbuf_def xlate_nng_state_def Let_def)
qed

definition nng_payload :: "nng_ctx \<Rightarrow> nmsg \<Rightarrow> bytes option" where
  "nng_payload c m = do { p \<leftarrow> nm_payload m; b \<leftarrow> nn_heap c (fst p); mem_rd b (snd p) (nat (nm_len m)) }"

text \<open>
  C28. Sending and receiving over NNG.  A send of a message whose block holds a current header and the
  payload ends in one of two ways.  It fails with an error number, nothing has been given to the
  library and the caller keeps the message and its block.  Or the library has got the block once,
  the block is no longer in use, the caller has a new block of the same size (none if it asked for
  none), and any receiver of the bytes gets a good message with the type, subscription id, length
  and payload of the one that was sent.
\<close>

theorem nng_send_receive:
  assumes "nng_sendable c m a b l1 l2 l3" and "nn_ok c" and "\<forall>n. ng_alloc env n"
    and "- (2 ^ 31) \<le> nm_mtype m \<and> nm_mtype m < 2 ^ 31" and "- (2 ^ 31) \<le> nm_sub_id m \<and> nm_sub_id m < 2 ^ 31"
  shows "\<exists>b1 mo e c'. nng_send_msg env c m sock retries = Some ((mo, e), c') \<and>
    (nng_kept c c' m a b1 mo e \<or>
     nng_handed c c' m a sock b1 mo e \<and>
     (\<forall>penv p. ng_recv penv (nn_calls p) = (NNG_OK, Some b1) \<and> n_ok (ng_rt penv) M_mbuf \<longrightarrow>
        (\<exists>m' p'. nng_rcv_msg penv p None = Some (m', p') \<and> nm_state m' = RMR_OK \<and> nm_mtype m' = nm_mtype m \<and>
           nm_sub_id m' = nm_sub_id m \<and> nm_len m' = nm_len m \<and> nng_payload p' m' = nng_payload c m)))"
proof -
  have s: "nn_heap c a = Some b" "nhdr b l1 l2 l3" "280 \<le> length b" "0 \<le> nm_len m" "nm_payload m = Some (a, 280 + l1 + l2 + l3)"
    "280 + int (l1 + l2 + l3) + nm_len m \<le> int (length b)" "nng_mine c m a b" using assms(1) by (auto simp: nng_sendable_def nng_mine_def)
  obtain b1 where b1: "nng_send_hdr c m b = Some b1" "length b1 = length b" "get32 b1 0 = Some (word_of_int (nm_mtype m))"
    "get32 b1 212 = Some (word_of_int (nm_sub_id m))" "get32 b1 4 = Some (word_of_int (nm_len m))" "nhdr b1 l1 l2 l3"
    "\<forall>p n. 280 \<le> p \<longrightarrow> mem_rd b1 p n = mem_rd b p n" using nng_send_hdr_ok [OF s(3), of c m] s(2) by blast
  have "(of_nat (nat (nm_len m)) :: u32) = word_of_int (nm_len m)" using s(4) by (metis int_nat_eq of_int_of_nat_eq)
  then have w: "nng_whole b1 l1 l2 l3 (nat (nm_len m))" using b1 s by (simp add: nng_whole_def)
  have "\<exists>m' p'. nng_rcv_msg penv p None = Some (m', p') \<and> nm_state m' = RMR_OK \<and> nm_mtype m' = nm_mtype m \<and>
      nm_sub_id m' = nm_sub_id m \<and> nm_len m' = nm_len m \<and> nng_payload p' m' = nng_payload c m"
    if pr: "ng_recv penv (nn_calls p) = (NNG_OK, Some b1)" "n_ok (ng_rt penv) M_mbuf" for penv p
  proof -
    obtain m' p' where m': "nng_rcv_msg penv p None = Some (m', p')" "nm_state m' = RMR_OK" "nm_mtype m' = sint (word_of_int (nm_mtype m) :: u32)"
      "nm_sub_id m' = sint (word_of_int (nm_sub_id m) :: u32)" "nm_len m' = nm_len m" "nm_payload m' = Some (nn_next p, 280 + l1 + l2 + l3)"
      "nn_heap p' = (nn_heap p)(nn_next p \<mapsto> b1)" using nng_rcv_whole [OF w pr b1(3,4)] s(4) by auto
    have "nng_payload p' m' = nng_payload c m" using m' s b1(7) by (simp add: nng_payload_def)
    then show ?thesis using m' assms(4,5) sint_word_of_int_small by auto
  qed
  moreover obtain mo e c' where "nng_send_msg env c m sock retries = Some ((mo, e), c')" "nng_handed c c' m a sock b1 mo e \<or> nng_kept c c' m a b1 mo e"
    using nng_send_msg_outcome [OF s(7) assms(2,3) b1(1,2), of sock retries] by blast
  ultimately show ?thesis by blast
qed

section \<open>Waiting for one transaction\<close>

definition nng_block :: "nng_ctx \<Rightarrow> nmsg \<Rightarrow> bytes option" where
  "nng_block c m = do { a \<leftarrow> nm_tp_buf m; nn_heap c a }"

definition xid_is :: "bytes \<Rightarrow> bytes \<Rightarrow> bool" where
  "xid_is expect b \<longleftrightarrow> take (length expect) (drop H_XID b) = expect"

text \<open>The messages that the next receives give.\<close>

definition nng_arrive :: "nng_env \<Rightarrow> nat \<Rightarrow> bytes list \<Rightarrow> bool" where
  "nng_arrive env n bs \<longleftrightarrow> n_ok (ng_rt env) M_mbuf \<and> (\<forall>i < length bs. ng_recv env (n + i) = (NNG_OK, Some (bs ! i))) \<and>
     (\<forall>b \<in> set bs. \<exists>l1 l2 l3 k. nng_whole b l1 l2 l3 k)"

lemma nng_arrive_Cons:
  assumes "nng_arrive env n (b # bs)"
  shows "ng_recv env n = (NNG_OK, Some b)" "\<exists>l1 l2 l3 k. nng_whole b l1 l2 l3 k" "nng_arrive env (Suc n) bs" "n_ok (ng_rt env) M_mbuf"
proof -
  have r: "ng_recv env (n + i) = (NNG_OK, Some ((b # bs) ! i))" if "i < Suc (length bs)" for i using assms that by (simp add: nng_arrive_def)
  show "ng_recv env n = (NNG_OK, Some b)" using r [of 0] by simp
  have "ng_recv env (Suc n + i) = (NNG_OK, Some (bs ! i))" if "i < length bs" for i using r [of "Suc i"] that by simp
  then show "nng_arrive env (Suc n) bs" using assms by (simp add: nng_arrive_def)
qed (use assms in \<open>auto simp: nng_arrive_def\<close>)

text \<open>The result of the loop on the messages \<open>bs\<close>: those before the first with the transaction id are
  queued as far as the ring has room; when it has not room for all of them the loop ends there,
  otherwise the one with the transaction id, if there is one, is returned.\<close>

definition nng_room :: "nng_ctx \<Rightarrow> nat" where
  "nng_room c = unat (nelements (nn_ring c)) - 1 - length (ring_list (nn_ring c))"

definition nng_found :: "nng_ctx \<Rightarrow> nng_ctx \<Rightarrow> bytes \<Rightarrow> bytes list \<Rightarrow> nmsg option \<Rightarrow> errno \<Rightarrow> bool" where
  "nng_found c c' expect bs r e \<longleftrightarrow>
     (\<exists>ms. ring_list (nn_ring c') = ring_list (nn_ring c) @ map Some ms \<and>
       map (nng_block c') ms = map Some (take (nng_room c) (takeWhile (\<lambda>b. \<not> xid_is expect b) bs))) \<and>
     (if nng_room c < length (takeWhile (\<lambda>b. \<not> xid_is expect b) bs) then r = None \<and> e = ENOBUFS
      else case dropWhile (\<lambda>b. \<not> xid_is expect b) bs of
        [] \<Rightarrow> r = None \<and> e = ETIMEDOUT
      | b # _ \<Rightarrow> e = E0 \<and> (\<exists>m. r = Some m \<and> nm_state m = RMR_OK \<and> nng_block c' m = Some b))"

lemma nng_found_stray:
  assumes "nng_found c1 c' expect bs r e" and "\<not> xid_is expect b" and "ring_list (nn_ring c1) = ring_list (nn_ring c) @ [Some m]"
    and "nng_room c = Suc (nng_room c1)" and "nng_block c' m = Some b"
  shows "nng_found c c' expect (b # bs) r e"
proof -
  obtain ms where "ring_list (nn_ring c') = ring_list (nn_ring c1) @ map Some ms"
    "map (nng_block c') ms = map Some (take (nng_room c1) (takeWhile (\<lambda>b. \<not> xid_is expect b) bs))" using assms(1) by (auto simp: nng_found_def)
  then have "\<exists>ms. ring_list (nn_ring c') = ring_list (nn_ring c) @ map Some ms \<and>
      map (nng_block c') ms = map Some (take (nng_room c) (takeWhile (\<lambda>b. \<not> xid_is expect b) (b # bs)))"
    using assms(2-5) by (intro exI [of _ "m # ms"]) simp
  then show ?thesis using assms(1,2,4) by (simp add: nng_found_def)
qed

lemma nng_specific_loop_found:
  assumes "nng_arrive env (nn_calls c) bs" and "int (length bs) \<le> allow2queue - queued"
    and "int (length bs) = allow2queue - queued \<or> (\<exists>b \<in> set bs. xid_is expect b)" and "length expect \<le> RMR_MAX_XID" and "ring_wf (nn_ring c)"
  shows "\<exists>r e c'. nng_specific_loop env c None expect queued allow2queue = Some ((r, e), c') \<and> nng_found c c' expect bs r e \<and>
    (\<forall>a < nn_next c. nn_heap c' a = nn_heap c a)"
  using assms(1,2,3,5)
proof (induction bs arbitrary: c queued)
  case Nil
  then show ?case by (simp add: nng_specific_loop.simps nng_found_def)
next
  case (Cons b bs)
  note ar = nng_arrive_Cons [OF Cons.prems(1)]
  obtain l1 l2 l3 k where w: "nng_whole b l1 l2 l3 k" using ar(2) by blast
  have lb: "280 \<le> length b" using w by (auto simp: nng_whole_def nhdr_def)
  then obtain mt sid where f: "get32 b 0 = Some mt" "get32 b 212 = Some sid" by (auto simp: get32_def mem_rd_def)
  obtain m c1 where m: "nng_rcv_msg env c None = Some (m, c1)" "nm_state m = RMR_OK" "nm_xaction m = Some (nn_next c, 12)" "nm_tp_buf m = Some (nn_next c)"
    "nn_heap c1 = (nn_heap c)(nn_next c \<mapsto> b)" "nn_next c1 = Suc (nn_next c)" "nn_calls c1 = Suc (nn_calls c)" "nn_ring c1 = nn_ring c"
    using nng_rcv_whole [OF w ar(1,4) f] by blast
  have rd: "mem_rd b 12 (length expect) = Some (take (length expect) (drop 12 b))" using lb assms(4) by (simp add: mem_rd_def)
  have q: "queued < allow2queue" using Cons.prems(2) by simp
  have h1: "\<forall>a < nn_next c. nn_heap c1 a = nn_heap c a" using m(5) by simp
  consider (hit) "xid_is expect b" | (full) "\<not> xid_is expect b" "nng_room c = 0" | (queue) "\<not> xid_is expect b" "0 < nng_room c" by blast
  then show ?case
  proof cases
    case hit
    then have "nng_specific_loop env c None expect queued allow2queue = Some ((Some m, E0), c1)"
      using q m rd by (subst nng_specific_loop.simps) (simp add: xid_is_def)
    moreover have "nng_block c1 m = Some b" using m by (simp add: nng_block_def)
    then have "nng_found c c1 expect (b # bs) (Some m) E0" using hit m(2,8) by (simp add: nng_found_def)
    ultimately show ?thesis using h1 by blast
  next
    case full
    have "ring_count (nn_ring c) = unat (nelements (nn_ring c)) - 1"
      using full(2) ring_count_less [OF Cons.prems(4)] by (simp add: nng_room_def)
    then have "uta_ring_insert True (nn_ring c1) (Some m) = (R_full, nn_ring c)" using ring_insert_full [OF Cons.prems(4)] m(8) by simp
    then have "nng_specific_loop env c None expect queued allow2queue = Some ((None, ENOBUFS), c1\<lparr>nn_ring := nn_ring c\<rparr>)"
      using full(1) q m rd by (subst nng_specific_loop.simps) (simp add: xid_is_def)
    moreover have "nng_found c (c1\<lparr>nn_ring := nn_ring c\<rparr>) expect (b # bs) None ENOBUFS" using full by (simp add: nng_found_def)
    moreover have "\<forall>a < nn_next c. nn_heap (c1\<lparr>nn_ring := nn_ring c\<rparr>) a = nn_heap c a" using h1 by simp
    ultimately show ?thesis by blast
  next
    case queue
    have room: "ring_count (nn_ring c) < unat (nelements (nn_ring c)) - 1" using queue(2) by (simp add: nng_room_def)
    obtain rc q1 where i: "uta_ring_insert True (nn_ring c) (Some m) = (rc, q1)" by (cases "uta_ring_insert True (nn_ring c) (Some m)")
    then have q1: "uta_ring_insert True (nn_ring c1) (Some m) = (R_ok, q1)" "ring_wf q1" "ring_list q1 = ring_list (nn_ring c) @ [Some m]" "nelements q1 = nelements (nn_ring c)"
      using ring_insert_stored [OF Cons.prems(4) room _ i] m(8) by simp_all
    let ?c = "c1\<lparr>nn_ring := q1\<rparr>"
    have rm: "nng_room c = Suc (nng_room ?c)" using q1(3,4) queue(2) by (simp add: nng_room_def)
    have "nng_specific_loop env c None expect queued allow2queue = nng_specific_loop env ?c None expect (queued + 1) allow2queue"
      using queue(1) q m rd q1(1) by (subst nng_specific_loop.simps) (simp add: xid_is_def)
    moreover obtain r e c' where r: "nng_specific_loop env ?c None expect (queued + 1) allow2queue = Some ((r, e), c')"
      "nng_found ?c c' expect bs r e" "\<forall>a < nn_next ?c. nn_heap c' a = nn_heap ?c a"
      using Cons.IH [of ?c "queued + 1"] ar(3) Cons.prems(2,3) m(7) q1 queue(1) by auto
    have bl: "nng_block c' m = Some b" using r(3) m(4,5,6) by (simp add: nng_block_def)
    have "nng_found c c' expect (b # bs) r e" using nng_found_stray [OF r(2) queue(1) _ rm bl] q1(3) by simp
    moreover have "\<forall>a < nn_next c. nn_heap c' a = nn_heap c a" using r(3) m(5,6) by auto
    ultimately show ?thesis using r(1) by simp
  qed
qed

text \<open>
  C29. Waiting for one transaction over NNG, with no message passed in, while the next receives give the whole
  messages \<open>bs\<close> (there are \<^verbatim>\<open>allow2queue\<close> of them, or fewer if one has the expected id).  \<^verbatim>\<open>rmr_rcv_specific\<close> ends in one of three
  ways.  When the ring has room for the messages before the first one whose transaction id
  starts with the expected text, that one is returned and the ones before it are in the
  ring, in the order of arrival and unchanged; when none of them has the id and there is room for all, the
  result is a null message with \<^verbatim>\<open>ETIMEDOUT\<close> and all of them are in the ring; when the ring fills up before, the
  result is a null message with \<^verbatim>\<open>ENOBUFS\<close> and as many as it had room for are in the ring.
\<close>

theorem nng_specific_keeps_order:
  assumes "nng_arrive env (nn_calls c) bs" and "int (length bs) \<le> allow2queue" and "expect \<noteq> []"
    and "int (length bs) = allow2queue \<or> (\<exists>b \<in> set bs. xid_is (take RMR_MAX_XID expect) b)" and "ring_wf (nn_ring c)"
  shows "\<exists>r e c'. nng_rcv_specific env c None (Some expect) allow2queue = Some ((r, e), c') \<and> nng_found c c' (take RMR_MAX_XID expect) bs r e"
proof -
  obtain r e c' where "nng_specific_loop env c None (take 32 expect) 0 allow2queue = Some ((r, e), c')" "nng_found c c' (take 32 expect) bs r e"
    using nng_specific_loop_found [OF assms(1), of allow2queue 0 "take 32 expect"] assms(2,4,5) by auto
  then show ?thesis using assms(3) by (cases expect) (auto simp: nng_rcv_specific_def)
qed

text \<open>A block with a header, one byte of transaction id and no payload, and a context that has it.\<close>

definition demo_nbuf :: "byte \<Rightarrow> bytes" where
  "demo_nbuf x = replicate 8 0 @ put_be32 3 @ [x] @ replicate 183 0 @ put_be32 280 @ put_be32 4 @ put_be32 4 @ put_be32 0 @ replicate 84 0"

definition demo_nctx :: nng_ctx where
  "demo_nctx = snd_ctx.extend demo_snd \<lparr>nn_heap = (\<lambda>_. None)(0 \<mapsto> demo_nbuf 9), nn_next = 1, nn_calls = 0, nn_sent = [],
     nn_ring = \<lparr>head = 0, tail = 0, nelements = 4, rdata = replicate 5 None, pfd = -1, pfd_ctr = 0, fl_flock = False, rgate = False, wgate = False\<rparr>, nn_eps = False, nn_chutes = []\<rparr>"

definition demo_nenv :: nng_env where
  "demo_nenv = \<lparr>ng_rt = demo_rt_env, ng_junk = (\<lambda>_. 0), ng_alloc = (\<lambda>_. True), ng_send = (\<lambda>n. if n < 2 then NNG_EAGAIN else NNG_OK),
     ng_recv = (\<lambda>n. (NNG_OK, Some (demo_nbuf (of_nat n)))), ng_push0 = (\<lambda>_. Some 1), ng_dialer = (\<lambda>_. True), ng_epoll = (\<lambda>_. (1, E0))\<rparr>"

lemma demo_nctx_simps [simp]:
  "nn_heap demo_nctx = (\<lambda>_. None)(0 \<mapsto> demo_nbuf 9)" "nn_next demo_nctx = 1" "nn_calls demo_nctx = 0" "nn_sent demo_nctx = []"
  "ring_list (nn_ring demo_nctx) = []" "ring_wf (nn_ring demo_nctx)" "nelements (nn_ring demo_nctx) = 4"
  by (simp_all add: demo_nctx_def snd_ctx.defs ring_list_def ring_wf_def ring_count_def)

lemma mem_rd_put_be32: "mem_rd (xs @ put_be32 w @ ys) (length xs) 4 = Some (put_be32 w)"
  by (simp add: mem_rd_def)

lemma demo_nbuf_whole: "nng_whole (demo_nbuf x) 4 4 0 0" "length (demo_nbuf x) = 296"
proof -
  let ?t3 = "put_be32 0 @ replicate 84 0" and ?h = "replicate 8 0 @ put_be32 3 @ [x] @ replicate 183 (0::byte)"
  show l: "length (demo_nbuf x) = 296" by (simp add: demo_nbuf_def)
  have "get32 (demo_nbuf x) 8 = Some 3"
    using mem_rd_put_be32 [of "replicate 8 0" 3 "[x] @ replicate 183 0 @ put_be32 280 @ put_be32 4 @ put_be32 4 @ ?t3"] by (simp add: get32_def demo_nbuf_def)
  moreover have "get32 (demo_nbuf x) 196 = Some 280"
    using mem_rd_put_be32 [of ?h 280 "put_be32 4 @ put_be32 4 @ ?t3"] by (simp add: get32_def demo_nbuf_def)
  moreover have "get32 (demo_nbuf x) 200 = Some 4"
    using mem_rd_put_be32 [of "?h @ put_be32 280" 4 "put_be32 4 @ ?t3"] by (simp add: get32_def demo_nbuf_def)
  moreover have "get32 (demo_nbuf x) 204 = Some 4"
    using mem_rd_put_be32 [of "?h @ put_be32 280 @ put_be32 4" 4 ?t3] by (simp add: get32_def demo_nbuf_def)
  moreover have "get32 (demo_nbuf x) 208 = Some 0"
    using mem_rd_put_be32 [of "?h @ put_be32 280 @ put_be32 4 @ put_be32 4" 0 "replicate 84 0"] by (simp add: get32_def demo_nbuf_def)
  moreover have "get32 (demo_nbuf x) 4 = Some 0" by (simp add: get32_def mem_rd_def demo_nbuf_def get_be32_def get_le32_def numeral_eq_Suc)
  ultimately show "nng_whole (demo_nbuf x) 4 4 0 0" using l by (simp add: nng_whole_def nhdr_def)
qed

definition demo_nmsg :: nmsg where
  "demo_nmsg = zero_nmsg\<lparr>nm_tp_buf := Some 0, nm_header := Some 0, nm_flags := MFL_ZEROCOPY, nm_alloc_len := 296, nm_payload := Some (0, 288),
     nm_xaction := Some (0, 12), nm_len := 5, nm_mtype := 7, nm_sub_id := -1\<rparr>"

theorem nng_send_receive_witness:
  "\<exists>b1 mo e c'. nng_send_msg demo_nenv demo_nctx demo_nmsg 3 1 = Some ((mo, e), c') \<and>
     (nng_kept demo_nctx c' demo_nmsg 0 b1 mo e \<or> nng_handed demo_nctx c' demo_nmsg 0 3 b1 mo e)"
proof -
  have "nng_sendable demo_nctx demo_nmsg 0 (demo_nbuf 9) 4 4 0"
    using demo_nbuf_whole [of 9] by (simp add: nng_sendable_def nng_mine_def demo_nmsg_def zero_nmsg_def nng_whole_def)
  moreover have "nn_ok demo_nctx" by (simp add: nn_ok_def)
  moreover have "\<forall>n. ng_alloc demo_nenv n" by (simp add: demo_nenv_def)
  ultimately show ?thesis using nng_send_receive [of demo_nctx demo_nmsg 0 "demo_nbuf 9" 4 4 0 demo_nenv 3 1]
    unfolding demo_nmsg_def zero_nmsg_def by force
qed

theorem nng_specific_keeps_order_witness:
  "\<exists>m c'. nng_rcv_specific demo_nenv demo_nctx None (Some [1]) 2 = Some ((Some m, E0), c') \<and> nng_block c' m = Some (demo_nbuf 1) \<and>
     length (ring_list (nn_ring c')) = 1"
proof -
  have w: "\<exists>l1 l2 l3 k. nng_whole (demo_nbuf x) l1 l2 l3 k" for x using demo_nbuf_whole(1) by blast
  have "nng_arrive demo_nenv (nn_calls demo_nctx) [demo_nbuf 0, demo_nbuf 1]" using w
    by (auto simp: nng_arrive_def demo_nenv_def demo_rt_env_def all_ok_def less_Suc_eq)
  from nng_specific_keeps_order [OF this, of 2 "[1]"] obtain r e c' where
    r: "nng_rcv_specific demo_nenv demo_nctx None (Some [1]) 2 = Some ((r, e), c')" "nng_found demo_nctx c' [1] [demo_nbuf 0, demo_nbuf 1] r e" by auto
  have "drop 12 (demo_nbuf x) ! 0 = x" for x by (simp add: demo_nbuf_def)
  moreover have "drop 12 (demo_nbuf x) \<noteq> []" for x using demo_nbuf_whole(2) [of x] by simp
  ultimately have "take 1 (drop 12 (demo_nbuf x)) = [x]" for x by (metis append.left_neutral hd_conv_nth take0 take_Suc_conv_app_nth length_greater_0_conv One_nat_def)
  then have x: "\<not> xid_is [1] (demo_nbuf 0)" "xid_is [1] (demo_nbuf 1)" by (simp_all add: xid_is_def)
  then have "r \<noteq> None" "e = E0" "\<And>m. r = Some m \<Longrightarrow> nng_block c' m = Some (demo_nbuf 1)" "length (ring_list (nn_ring c')) = 1"
    using r(2) by (auto simp: nng_found_def nng_room_def map_eq_Cons_conv simp del: length_ring_list)
  with r(1) show ?thesis by auto
qed

section \<open>The round robin of the two transports\<close>

text \<open>
  One round robin.  The round robin selection of the NNG transport and that of the SI95 transport are
  the same function of the route table as long as the endpoints are connected: the state returned,
  whether there are more groups, the endpoint and its socket, and the advanced index.
\<close>

theorem nng_rr_as_si:
  assumes "\<forall>a e. h_eps c a = Some e \<longrightarrow> ep_open e"
  shows "nng_epsock_rr env c rte grp = uta_epsock_rr renv c rte grp"
proof -
  have op: "nng_ep_sock env c1 a = ep_socket renv c1 a True" if "h_eps c1 = h_eps c" for c1 a
    using assms that by (cases "h_eps c a") (simp_all add: nng_ep_sock_def ep_socket_def)
  show ?thesis by (simp add: nng_epsock_rr_def uta_epsock_rr_def op put_rte_def cong: option.case_cong if_cong)
qed

theorem nng_rr_as_si_witness:
  "nng_epsock_rr demo_nenv (demo_nctx\<lparr>h_eps := h_eps demo_rr, h_rtes := h_rtes demo_rr\<rparr>) (Some 1) 0 =
   uta_epsock_rr demo_rt_env (demo_nctx\<lparr>h_eps := h_eps demo_rr, h_rtes := h_rtes demo_rr\<rparr>) (Some 1) 0"
  by (rule nng_rr_as_si) (simp add: demo_rr_def)

section \<open>Inputs on which the code fails\<close>

text \<open>A received message that is as long as the old header but not as the current one, and that has the
  current version: the subscription id is read behind the end of the block.\<close>

lemma nng_short_header_faults:
  assumes "ng_recv env (nn_calls c) = (NNG_OK, Some b)" and "n_ok (ng_rt env) M_mbuf" and "144 \<le> length b" and "length b < 216"
    and "mem_rd b 8 4 = Some (put_be32 3)"
  shows "nng_rcv_msg env c None = None"
proof -
  have "get_le32 (put_be32 3) \<noteq> 1" by (simp add: put_be32_def put_le32_def get_le32_def)
  then have "nng_hdr_ver b = Some (3, b)" using assms(5) by (simp add: nng_hdr_ver_def)
  moreover have "get32 b 212 = None" using assms(4) by (simp add: get32_def mem_rd_def)
  ultimately show ?thesis using assms(1-3)
    by (simp add: nng_rcv_msg_def nng_alloc_mbuf_def nng_recvmsg_def nn_new_def nng_ref_tpbuf_def xlate_nng_state_def Let_def bind_eq_None_conv)
qed

text \<open>The clone of a version 1 message has its payload in the block of the original: when the original is
  freed, or handed to the library, the payload of the clone is gone.\<close>

lemma nng_v1_clone_dangles:
  assumes "nng_clone_msg env c m = Some (m', c')" and "nm_header m = Some a" and "nn_heap c a = Some b" and "nn_ok c"
    and "get32 b H_VER = Some 1" and "nn_free c' a = Some c2"
  shows "nm_payload m' = Some (a, SIZEOF_V1MHDR) \<and> nng_payload c2 m' = None"
proof -
  have "nn_next c \<noteq> a" using assms(3,4) by (auto simp: nn_ok_def)
  then have "nm_payload m' = Some (a, 144)" using assms(1-3,5)
    by (auto simp: nng_clone_msg_def nng_msg_alloc_def nn_new_def HDR_VERSION_def option_bind_Some_iff Let_def split: if_splits)
  then show ?thesis using assms(6) by (auto simp: nn_free_def option_bind_Some_iff nng_payload_def)
qed

end
