(* ===== verification/Nng_Own.thy ===== *)
theory Nng_Own
  imports Nng_Inv
begin

text \<open>
  Who owns the blocks of the NNG transport.  An application that holds messages in variables calls the
  functions of the transport on them in any order; while it does so within the stated conditions no call
  uses a block that is gone, every block belongs to one variable, and none is lost.  Two of the conditions
  are there because of faults of the code, which are shown as well.
\<close>

section \<open>The calls of an application\<close>

text \<open>A call names the variables of the application that it uses; a variable without a message is a null
  pointer.\<close>

datatype nng_op = NAlloc nat int | NClone nat nat | NSend nat int int | NRecv nat | NFree nat

type_synonym nng_app = "nng_ctx \<times> (nat \<Rightarrow> nmsg option)"

definition nng_step :: "nng_env \<Rightarrow> nng_app \<Rightarrow> nng_op \<Rightarrow> nng_app option" where
  "nng_step env s op = (case s of (c, vars) \<Rightarrow>
     case op of
       NAlloc i sz \<Rightarrow> do { r \<leftarrow> nng_alloc_zcmsg env c None sz (-1); Some (snd r, vars(i \<mapsto> fst r)) }
     | NClone i j \<Rightarrow> do { m \<leftarrow> vars i; r \<leftarrow> nng_clone_msg env c m; Some (snd r, vars(j \<mapsto> fst r)) }
     | NSend i sock retries \<Rightarrow> do { m \<leftarrow> vars i; r \<leftarrow> nng_send_msg env c m sock retries; Some (snd r, vars(i := fst (fst r))) }
     | NRecv i \<Rightarrow> do { r \<leftarrow> nng_rcv_msg env c (vars i); Some (snd r, vars(i \<mapsto> fst r)) }
     | NFree i \<Rightarrow> do { c1 \<leftarrow> nng_free_msg c (vars i); Some (c1, vars(i := None)) })"

definition nng_fits :: "nng_ctx \<Rightarrow> nmsg \<Rightarrow> bool" where
  "nng_fits c m = (case nm_header m of None \<Rightarrow> False | Some a \<Rightarrow>
     case nn_heap c a of None \<Rightarrow> False | Some b \<Rightarrow>
     case (get32 b H_LEN1, get32 b H_LEN2, get32 b H_LEN3) of
       (Some x, Some y, Some z) \<Rightarrow> nng_sendable c m a b (unat x) (unat y) (unat z) | _ \<Rightarrow> False)"

text \<open>When a call may be made: a variable that gets a message has none; a message that is sent or cloned has
  its header in its block; what arrives is too short for any header or long enough for the current one; a
  message that is freed has a header if it has a block.\<close>

definition nng_may :: "nng_env \<Rightarrow> nng_app \<Rightarrow> nng_op \<Rightarrow> bool" where
  "nng_may env s op = (case s of (c, vars) \<Rightarrow>
     case op of
       NAlloc i sz \<Rightarrow> vars i = None \<and>
         (let n = int SIZEOF_MHDR + trace_data_len c + d1_len c + d2_len c + (if sz > 0 then sz else max_plen c) in int SIZEOF_MHDR \<le> n \<and> n < 2 ^ 31)
     | NClone i j \<Rightarrow> vars j = None \<and> (case vars i of None \<Rightarrow> False | Some m \<Rightarrow> nng_fits c m)
     | NSend i _ _ \<Rightarrow> (case vars i of None \<Rightarrow> False | Some m \<Rightarrow> nm_header m \<noteq> None \<and> nm_header m = nm_tp_buf m)
     | NRecv i \<Rightarrow> (case ng_recv env (nn_calls c) of
         (NNG_OK, Some b) \<Rightarrow> length b < SIZEOF_V1MHDR \<or> SIZEOF_MHDR \<le> length b \<and> length b < 2 ^ 31
       | _ \<Rightarrow> True)
     | NFree i \<Rightarrow> (case vars i of None \<Rightarrow> True | Some m \<Rightarrow> nm_tp_buf m \<noteq> None \<longrightarrow> nm_header m \<noteq> None))"

section \<open>Ownership\<close>

definition nng_held :: "nng_ctx \<Rightarrow> nmsg \<Rightarrow> bool" where
  "nng_held c m \<longleftrightarrow> (\<forall>h. nm_header m = Some h \<longrightarrow> h < nn_next c) \<and>
     (\<forall>a. nm_tp_buf m = Some a \<longrightarrow> nm_flags m AND MFL_ZEROCOPY \<noteq> 0 \<and> (nm_header m = Some a \<longrightarrow> (\<exists>b. nng_mine c m a b)))"

abbreviation tpb :: "nmsg option \<Rightarrow> addr option" where
  "tpb mo \<equiv> Option.bind mo nm_tp_buf"

text \<open>The blocks in the store are those of the messages held, and no two variables have the same block.\<close>

definition nng_own :: "nng_ctx \<Rightarrow> (nat \<Rightarrow> nmsg option) \<Rightarrow> bool" where
  "nng_own c vars \<longleftrightarrow> nn_ok c \<and> (\<forall>i m. vars i = Some m \<longrightarrow> nng_held c m) \<and>
     (\<forall>i j a. tpb (vars i) = Some a \<and> tpb (vars j) = Some a \<longrightarrow> i = j) \<and>
     (\<forall>a. nn_heap c a \<noteq> None \<longleftrightarrow> (\<exists>i. tpb (vars i) = Some a))"

definition nng_env_ok :: "nng_env \<Rightarrow> bool" where
  "nng_env_ok env \<longleftrightarrow> n_ok (ng_rt env) M_mbuf \<and> (\<forall>n. ng_alloc env n)"

lemma nng_own_live: "nng_own c vars \<Longrightarrow> tpb (vars i) = Some a \<Longrightarrow> a < nn_next c \<and> nn_heap c a \<noteq> None"
  by (metis nng_own_def nn_ok_def not_le)

lemma nng_own_held: "nng_own c vars \<Longrightarrow> vars i = Some m \<Longrightarrow> nng_held c m"
  by (simp add: nng_own_def)

text \<open>A call changes one variable and its block, and takes a new block from the end of the store.\<close>

lemma nng_own_step:
  assumes own: "nng_own c vars" and nx: "nn_next c \<le> nn_next c'"
    and keep: "\<And>a. tpb (vars i) \<noteq> Some a \<Longrightarrow> tpb mo \<noteq> Some a \<Longrightarrow> nn_heap c' a = nn_heap c a"
    and gone: "\<And>a. tpb (vars i) = Some a \<Longrightarrow> tpb mo \<noteq> Some a \<Longrightarrow> nn_heap c' a = None"
    and new: "\<And>a. tpb mo = Some a \<Longrightarrow> nn_heap c' a \<noteq> None \<and> a < nn_next c' \<and> (tpb (vars i) = Some a \<or> nn_next c \<le> a)"
    and h: "\<And>m. mo = Some m \<Longrightarrow> nng_held c' m"
  shows "nng_own c' (vars(i := mo))"
proof -
  have other: "a < nn_next c" "tpb (vars i) \<noteq> Some a" "tpb mo \<noteq> Some a" "nn_heap c' a = nn_heap c a" if "tpb (vars j) = Some a" "j \<noteq> i" for j a
  proof -
    show l: "a < nn_next c" using nng_own_live [OF own that(1)] by simp
    show n: "tpb (vars i) \<noteq> Some a" using own that by (auto simp: nng_own_def)
    show t: "tpb mo \<noteq> Some a" using new [of a] l n by auto
    show "nn_heap c' a = nn_heap c a" by (rule keep [OF n t])
  qed
  have "nn_heap c' a = None" if "nn_next c' \<le> a" for a
    using that own nx keep [of a] gone [of a] new [of a] by (cases "tpb mo = Some a"; cases "tpb (vars i) = Some a") (auto simp: nng_own_def nn_ok_def)
  then have 1: "nn_ok c'" by (simp add: nn_ok_def)
  have "nng_held c' m" if "vars j = Some m" "j \<noteq> i" for j m
  proof -
    have "nng_held c m" using own that(1) by (auto simp: nng_own_def)
    then show ?thesis using other(4) [of j] that nx by (fastforce simp: nng_held_def nng_mine_def)
  qed
  then have 2: "\<forall>j m. (vars(i := mo)) j = Some m \<longrightarrow> nng_held c' m" using h by auto
  have 3: "\<forall>j k a. tpb ((vars(i := mo)) j) = Some a \<and> tpb ((vars(i := mo)) k) = Some a \<longrightarrow> j = k"
    using own other(3) by (auto simp: nng_own_def)
  have "nn_heap c' a \<noteq> None \<longleftrightarrow> (\<exists>j. tpb ((vars(i := mo)) j) = Some a)" for a
  proof (cases "tpb mo = Some a")
    case True
    then show ?thesis using new [of a] by auto
  next
    case False
    then have "(\<exists>j. tpb ((vars(i := mo)) j) = Some a) \<longleftrightarrow> (\<exists>j. j \<noteq> i \<and> tpb (vars j) = Some a)" by auto
    moreover have "nn_heap c' a \<noteq> None \<longleftrightarrow> (\<exists>j. j \<noteq> i \<and> tpb (vars j) = Some a)"
    proof (cases "tpb (vars i) = Some a")
      case True
      then show ?thesis using gone [OF True False] other(2) by auto
    next
      case no: False
      have "nn_heap c a \<noteq> None \<longleftrightarrow> (\<exists>j. tpb (vars j) = Some a)" using own unfolding nng_own_def by blast
      then show ?thesis using no unfolding keep [OF no False] by metis
    qed
    ultimately show ?thesis by simp
  qed
  then show ?thesis using 1 2 3 unfolding nng_own_def by blast
qed

text \<open>A message with a block of its own is put into a variable.\<close>

lemma nng_own_mine:
  assumes "nng_own c vars" and "vars i = None" and "nng_mine c' m (nn_next c) b" and "nn_heap c' = (nn_heap c)(nn_next c \<mapsto> b)" and "nn_next c' = Suc (nn_next c)"
  shows "nng_own c' (vars(i \<mapsto> m))"
  by (rule nng_own_step [OF assms(1)]) (use assms in \<open>auto simp: nng_held_def nng_mine_def\<close>)

section \<open>Each call keeps the ownership\<close>

lemma zerocopy_or [simp]: "(x OR MFL_ZEROCOPY) AND MFL_ZEROCOPY \<noteq> 0" "((x OR MFL_ZEROCOPY) OR y) AND MFL_ZEROCOPY \<noteq> (0 :: u32)"
  by (simp_all add: and_one_eq mod_2_eq_odd even_or_iff)

lemma zerocopy_more: "x AND MFL_ZEROCOPY \<noteq> 0 \<Longrightarrow> (x OR y) AND MFL_ZEROCOPY \<noteq> 0"
  by (simp add: and_one_eq mod_2_eq_odd even_or_iff split: if_splits)

lemma nng_step_alloc:
  assumes "nng_env_ok env" and "nng_own c vars" and "nng_may env (c, vars) (NAlloc i sz)"
  shows "\<exists>c' vars'. nng_step env (c, vars) (NAlloc i sz) = Some (c', vars') \<and> nng_own c' vars'"
proof -
  define n where "n = nat (280 + trace_data_len c + d1_len c + d2_len c + (if sz > 0 then sz else max_plen c))"
  have n: "280 \<le> n" "n < 2 ^ 31" "int n = 280 + trace_data_len c + d1_len c + d2_len c + (if sz > 0 then sz else max_plen c)" "vars i = None"
    using assms(3) by (auto simp: nng_may_def n_def Let_def)
  have ok: "nn_ok c" using assms(2) by (simp add: nng_own_def)
  obtain m c' b where m: "nng_alloc_zcmsg env c None sz (-1) = Some (m, c')" "nng_mine c' m (nn_next c) b"
    "nn_heap c' = (nn_heap c)(nn_next c \<mapsto> b)" "nn_next c' = Suc (nn_next c)"
    using nng_new_block [OF ok _ n(1,2), where env = env and msg = None and tr = "-1" and sz = sz] assms(1) n(3) by (auto simp: nng_env_ok_def)
  then show ?thesis using nng_own_mine [OF assms(2) n(4) m(2,3,4)] by (auto simp: nng_step_def)
qed

lemma nng_step_send:
  assumes "nng_env_ok env" and "nng_own c vars" and "nng_may env (c, vars) (NSend i sock retries)"
  shows "\<exists>c' vars'. nng_step env (c, vars) (NSend i sock retries) = Some (c', vars') \<and> nng_own c' vars'"
proof -
  obtain m a where m: "vars i = Some m" "nm_header m = Some a" "nm_tp_buf m = Some a" using assms(3) by (force simp: nng_may_def split: option.splits)
  then obtain b where b: "nng_mine c m a b" using nng_own_held [OF assms(2) m(1)] by (auto simp: nng_held_def)
  then obtain b1 where b1: "nng_send_hdr c m b = Some b1" "length b1 = length b" using nng_send_hdr_ok [of b c m] by (auto simp: nng_mine_def)
  have an: "a < nn_next c" "nn_ok c" using nng_own_live [OF assms(2), of i a] m assms(2) by (auto simp: nng_own_def)
  obtain mo e c' where r: "nng_send_msg env c m sock retries = Some ((mo, e), c')" "nng_handed c c' m a sock b1 mo e \<or> nng_kept c c' m a b1 mo e"
    using nng_send_msg_outcome [OF b an(2) _ b1, of env sock retries] assms(1) unfolding nng_env_ok_def by blast
  from r(2) have "nng_own c' (vars(i := mo))"
  proof
    assume h: "nng_handed c c' m a sock b1 mo e"
    show ?thesis
    proof (cases mo)
      case None
      then show ?thesis using h m an by (intro nng_own_step [OF assms(2)]) (auto simp: nng_handed_def)
    next
      case (Some m')
      then obtain b' where b': "nng_mine c' m' (nn_next c) b'" "nn_heap c' = (nn_heap c)(a := None, nn_next c \<mapsto> b')" "nn_next c' = Suc (nn_next c)"
        using h by (auto simp: nng_handed_def)
      then have "nng_held c' m'" "nm_tp_buf m' = Some (nn_next c)" by (auto simp: nng_held_def nng_mine_def)
      then show ?thesis using Some b'(2,3) m an by (intro nng_own_step [OF assms(2)]) auto
    qed
  next
    assume k: "nng_kept c c' m a b1 mo e"
    then obtain st where mo: "mo = Some (m\<lparr>nm_state := st\<rparr>)" and c': "nn_heap c' = (nn_heap c)(a \<mapsto> b1)" "nn_next c' = nn_next c" by (auto simp: nng_kept_def)
    have "nng_held c' (m\<lparr>nm_state := st\<rparr>)" using b b1(2) an c' m by (auto simp: nng_held_def nng_mine_def)
    then show ?thesis using mo c' m an by (intro nng_own_step [OF assms(2)]) auto
  qed
  then show ?thesis using r(1) m(1) by (auto simp: nng_step_def)
qed

lemma nng_step_free:
  assumes "nng_own c vars" and "nng_may env (c, vars) (NFree i)"
  shows "\<exists>c' vars'. nng_step env (c, vars) (NFree i) = Some (c', vars') \<and> nng_own c' vars'"
proof (cases "tpb (vars i)")
  case None
  then have "nng_free_msg c (vars i) = Some c" by (auto simp: nng_free_msg_def split: option.splits)
  moreover have "nng_own c (vars(i := None))" using None by (intro nng_own_step [OF assms(1)]) auto
  ultimately show ?thesis by (simp add: nng_step_def)
next
  case (Some a)
  then obtain m where m: "vars i = Some m" "nm_tp_buf m = Some a" by (cases "vars i") auto
  let ?c = "c\<lparr>nn_heap := (nn_heap c)(a := None)\<rparr>"
  have "nm_flags m AND MFL_ZEROCOPY \<noteq> 0" using assms(1) m by (auto simp: nng_own_def nng_held_def)
  then have "nng_free_msg c (vars i) = Some ?c"
    using nng_own_live [OF assms(1) Some] assms(2) m by (auto simp: nng_free_msg_def nn_free_def nng_may_def)
  moreover have "nng_own ?c (vars(i := None))" using Some by (intro nng_own_step [OF assms(1)]) auto
  ultimately show ?thesis by (simp add: nng_step_def)
qed

text \<open>The block of the message that is passed to a receive goes first.\<close>

lemma nng_ref_tpbuf_ok:
  assumes "nm_tp_buf m = Some a" and "nn_heap c a = Some b" and "280 \<le> length b" and "length b < 2 ^ 31"
  shows "\<exists>b1 m'. nng_ref_tpbuf c m (int (length b)) = Some (m', nn_put c a b1) \<and> nng_mine (nn_put c a b1) m' a b1"
proof -
  obtain w b1 where v: "nng_hdr_ver b = Some (w, b1)" "length b1 = length b"
    using assms(3) set32_step [of 8 b 1] by (cases "get_le32 (take 4 (drop 8 b)) = 1") (auto simp: nng_hdr_ver_def mem_rd_def)
  have g: "\<exists>x. get32 b1 off = Some x" if "off + 4 \<le> 280" for off using that v(2) assms(3) by (auto simp: get32_def mem_rd_def)
  obtain x0 x1 x2 x3 x4 x5 x6 where "get32 b1 4 = Some x0" "get32 b1 0 = Some x1" "get32 b1 212 = Some x2" "get32 b1 196 = Some x3"
    "get32 b1 200 = Some x4" "get32 b1 204 = Some x5" "get32 b1 208 = Some x6" using g [of 4] g [of 0] g [of 212] g [of 196] g [of 200] g [of 204] g [of 208] by auto
  moreover have "sint (word_of_int (int (length b)) :: u32) = int (length b)" by (rule sint_word_of_int_small) (use assms(4) in simp_all)
  ultimately show ?thesis using assms v
    by (intro exI [of _ b1]) (simp add: nng_ref_tpbuf_def PAYLOAD_ADDR_def RMR_HDR_LEN_def nng_mine_def Let_def)
qed

lemma nng_step_recv:
  assumes "nng_env_ok env" and "nng_own c vars" and "nng_may env (c, vars) (NRecv i)"
  shows "\<exists>c' vars'. nng_step env (c, vars) (NRecv i) = Some (c', vars') \<and> nng_own c' vars'"
proof -
  define c1 where "c1 = (case tpb (vars i) of None \<Rightarrow> c | Some a \<Rightarrow> c\<lparr>nn_heap := (nn_heap c)(a := None)\<rparr>)"
  define m0 where "m0 = (case vars i of Some m \<Rightarrow> m
    | None \<Rightarrow> zero_nmsg\<lparr>nm_sub_id := UNSET_SUBID, nm_mtype := UNSET_MSGTYPE, nm_len := -1, nm_alloc_len := -1, nm_state := RMR_ERR_UNSET\<rparr>)"
  define m1 where "m1 = m0\<lparr>nm_alloc_len := 0, nm_len := 0, nm_payload := None, nm_xaction := None, nm_tp_buf := None\<rparr>"
  have c1: "nn_next c1 = nn_next c" "nn_calls c1 = nn_calls c" "nn_heap c1 a = (if tpb (vars i) = Some a then None else nn_heap c a)" for a
    by (auto simp: c1_def split: option.splits)
  have hd: "h < nn_next c" if "nm_header m1 = Some h" for h
    using assms(2) that by (auto simp: m1_def m0_def zero_nmsg_def nng_own_def nng_held_def split: option.splits)
  have free: "(case vars i of Some m \<Rightarrow> do { c1 \<leftarrow> (case nm_tp_buf m of None \<Rightarrow> Some c | Some a \<Rightarrow> nn_free c a); Some (m, c1) }
      | None \<Rightarrow> do { m \<leftarrow> nng_alloc_mbuf env; Some (m, c) }) = Some (m0, c1)"
    using nng_own_live [OF assms(2), of i] assms(1)
    by (auto simp: m0_def c1_def nn_free_def nng_alloc_mbuf_def nng_env_ok_def split: option.splits)
  have main: "\<exists>m c'. nng_rcv_msg env c (vars i) = Some (m, c') \<and> nng_own c' (vars(i \<mapsto> m))"
  proof (cases "\<exists>b. ng_recv env (nn_calls c) = (NNG_OK, Some b)")
    case False
    then obtain rc x where rc: "ng_recv env (nn_calls c) = (rc, x)" "rc = NNG_OK \<longrightarrow> x = None" by (metis not_None_eq surj_pair)
    then have r: "nng_recvmsg env c1 = ((rc, None), nn_tick c1)" using c1(2) by (auto simp: nng_recvmsg_def split: nng_rc.splits option.splits)
    obtain st e where x: "xlate_nng_state rc RMR_ERR_RCVFAILED = (st, e)" by (cases "xlate_nng_state rc RMR_ERR_RCVFAILED")
    have "\<exists>m. nng_rcv_msg env c (vars i) = Some (m, nn_tick c1) \<and> nm_tp_buf m = None \<and> nm_header m = nm_header m1"
      unfolding nng_rcv_msg_def free using r x by (simp add: m1_def Let_def)
    then obtain m where m: "nng_rcv_msg env c (vars i) = Some (m, nn_tick c1)" "nm_tp_buf m = None" "nm_header m = nm_header m1" by blast
    then have "nng_own (nn_tick c1) (vars(i \<mapsto> m))" using c1 hd
      by (intro nng_own_step [OF assms(2)]) (auto simp: nng_held_def)
    then show ?thesis using m(1) by blast
  next
    case True
    then obtain b where b: "ng_recv env (nn_calls c) = (NNG_OK, Some b)" by blast
    let ?c = "nn_put ((nn_tick c1)\<lparr>nn_next := Suc (nn_next c)\<rparr>) (nn_next c) b"
    have r: "nng_recvmsg env c1 = ((NNG_OK, Some (nn_next c)), ?c)" using b c1(1,2)
      by (simp add: nng_recvmsg_def nn_new_def nn_put_def nn_tick_def)
    have len: "length b < 144 \<or> 280 \<le> length b \<and> length b < 2 ^ 31" using assms(3) b by (simp add: nng_may_def)
    show ?thesis
    proof (cases "length b < 144")
      case True
      have "\<exists>m. nng_rcv_msg env c (vars i) = Some (m, ?c) \<and> nm_tp_buf m = Some (nn_next c) \<and> nm_header m = nm_header m1 \<and> nm_flags m AND 1 \<noteq> 0"
        unfolding nng_rcv_msg_def free using r True by (simp add: m1_def xlate_nng_state_def Let_def)
      then obtain m where m: "nng_rcv_msg env c (vars i) = Some (m, ?c)" "nm_tp_buf m = Some (nn_next c)" "nm_header m = nm_header m1" "nm_flags m AND 1 \<noteq> 0" by blast
      have "nng_held ?c m" using m hd by (fastforce simp: nng_held_def)
      then have "nng_own ?c (vars(i \<mapsto> m))" using c1 m by (intro nng_own_step [OF assms(2)]) auto
      then show ?thesis using m(1) by blast
    next
      case False
      obtain m b1 where m: "nng_ref_tpbuf ?c (m1\<lparr>nm_tp_buf := Some (nn_next c), nm_state := RMR_OK, nm_tp_state := E0\<rparr>) (int (length b)) = Some (m, nn_put ?c (nn_next c) b1)"
        "nng_mine (nn_put ?c (nn_next c) b1) m (nn_next c) b1"
        using nng_ref_tpbuf_ok [of "m1\<lparr>nm_tp_buf := Some (nn_next c), nm_state := RMR_OK, nm_tp_state := E0\<rparr>" "nn_next c" ?c b] len False by auto
      let ?m = "m\<lparr>nm_flags := nm_flags m OR MFL_ADDSRC\<rparr>"
      have "nng_rcv_msg env c (vars i) = Some (?m, nn_put ?c (nn_next c) b1)"
        unfolding nng_rcv_msg_def free using r m(1) False by (simp add: m1_def xlate_nng_state_def Let_def)
      moreover have "nng_held (nn_put ?c (nn_next c) b1) ?m" "nm_tp_buf m = Some (nn_next c)" using m(2) zerocopy_more by (auto simp: nng_held_def nng_mine_def)
      then have "nng_own (nn_put ?c (nn_next c) b1) (vars(i \<mapsto> ?m))" using c1 by (intro nng_own_step [OF assms(2)]) auto
      ultimately show ?thesis by blast
    qed
  qed
  then show ?thesis by (auto simp: nng_step_def)
qed

lemma mem_rd_in_prefix: "mem_wr b 0 (take n ob) = Some b' \<Longrightarrow> n \<le> length ob \<Longrightarrow> p + k \<le> n \<Longrightarrow> mem_rd b' p k = mem_rd ob p k"
  by (simp add: mem_simps mem_rd_def drop_take)

lemma nng_step_clone:
  assumes "nng_env_ok env" and "nng_own c vars" and "nng_may env (c, vars) (NClone i j)"
  shows "\<exists>c' vars'. nng_step env (c, vars) (NClone i j) = Some (c', vars') \<and> nng_own c' vars'"
proof -
  obtain m a b l1 l2 l3 where m: "vars i = Some m" "nng_sendable c m a b l1 l2 l3" and j: "vars j = None"
    using assms(3) by (auto simp: nng_may_def nng_fits_def split: option.splits prod.splits)
  let ?hl = "280 + l1 + l2 + l3" and ?x = "nn_next c" and ?b0 = "malloc_bytes (ng_junk env) (length b)"
  have b: "nn_heap c a = Some b" "nm_header m = Some a" "nhdr b l1 l2 l3" "nm_alloc_len m = int (length b)" "nm_payload m = Some (a, ?hl)" "length b < 2 ^ 31"
    "?hl + nat (nm_len m) \<le> length b" "0 \<le> nm_len m" using m(2) by (auto simp: nng_sendable_def nng_mine_def)
  have ax: "a \<noteq> ?x" using assms(2) b(1) by (auto simp: nng_own_def nn_ok_def)
  have hl: "RMR_HDR_LEN b 0 = Some (word_of_int (280 + int l1 + int l2 + int l3))" "unat (word_of_int (280 + int l1 + int l2 + int l3) :: u32) = ?hl"
    using nhdr_rd(2) [OF b(3)] unat_of_nat_small [of ?hl] b(6,7) by simp_all
  obtain b1 where b1: "mem_wr ?b0 0 (take ?hl b) = Some b1" "length b1 = length b"
    using mem_wr_ok [of 0 "take ?hl b" ?b0] mem_wr_length b(7) by fastforce
  have g: "get32 b1 off = get32 b off" if "off + 4 \<le> 280" for off
    using mem_rd_in_prefix [OF b1(1), of off 4] b(7) that by (simp add: get32_def)
  have h1: "nhdr b1 l1 l2 l3" using b(3) g b1(2) by (simp add: nhdr_def)
  obtain b2 where b2: "mem_wr b1 ?hl (take (nat (nm_len m)) (drop ?hl b)) = Some b2" "length b2 = length b"
    using mem_wr_ok [of ?hl "take (nat (nm_len m)) (drop ?hl b)" b1] mem_wr_length b(7) b1(2) by fastforce
  let ?c1 = "(nn_tick c)\<lparr>nn_heap := (nn_heap c)(?x \<mapsto> ?b0), nn_next := Suc ?x\<rparr>"
  let ?c' = "nn_put (nn_put ?c1 ?x b1) ?x b2"
  let ?m = "zero_nmsg\<lparr>nm_tp_buf := Some ?x, nm_header := Some ?x, nm_payload := Some (?x, ?hl), nm_mtype := nm_mtype m,
      nm_sub_id := nm_sub_id m, nm_len := nm_len m, nm_alloc_len := nm_alloc_len m,
      nm_xaction := Some (?x, H_XID), nm_state := nm_state m, nm_flags := nm_flags m OR MFL_ZEROCOPY\<rparr>"
  have v: "HDR_VERSION b 0 = Some 3" using b(3) by (simp add: nhdr_def HDR_VERSION_def)
  have rd: "mem_rd b 0 ?hl = Some (take ?hl b)" "mem_rd b ?hl (nat (nm_len m)) = Some (take (nat (nm_len m)) (drop ?hl b))"
    using b(7) by (simp_all add: mem_rd_def)
  have cp: "nn_copy (nn_put ?c1 ?x b1) (?x, ?hl) (a, ?hl) (nm_len m) = Some ?c'"
    using ax b(1,8) rd(2) b2(1) by (simp add: nn_copy_def)
  have "nng_clone_msg env c m = Some (?m, ?c')"
    using assms(1) b(1,2,4,5) ax hl rd(1) b1(1) nhdr_rd(1) [OF h1] v cp
    by (simp add: nng_clone_msg_def nng_msg_alloc_def nn_new_def nng_env_ok_def Let_def)
  moreover have "nng_mine ?c' ?m ?x b2" using b(3,4,6) b2(2) by (simp add: nng_mine_def nhdr_def)
  then have "nng_own ?c' (vars(j \<mapsto> ?m))" by (rule nng_own_mine [OF assms(2) j]) simp_all
  ultimately show ?thesis using m(1) by (auto simp: nng_step_def)
qed

interpretation no: safe_ops "nng_step env" "nng_may env" "\<lambda>s. nng_env_ok env \<and> nng_own (fst s) (snd s)" for env
proof
  fix s op
  assume a: "nng_env_ok env \<and> nng_own (fst s) (snd s)" "nng_may env s op"
  obtain c vars where s: "s = (c, vars)" by (cases s)
  have "\<exists>c' vars'. nng_step env (c, vars) op = Some (c', vars') \<and> nng_own c' vars'"
    using a nng_step_alloc nng_step_clone nng_step_send nng_step_recv nng_step_free unfolding s by (cases op) auto
  then show "\<exists>s'. nng_step env s op = Some s' \<and> nng_env_ok env \<and> nng_own (fst s') (snd s')" using a(1) s by auto
qed

text \<open>
  C40. Ownership of the NNG blocks.  An application holds messages in variables and allocates, clones,
  sends, receives and frees them in any order, each call within its condition (\<open>nng_may\<close>); the library
  accepts or refuses each send, and delivers what it wants.  No call uses a block that has been freed or
  handed over; after all of them every block in the store is the block of exactly one variable, and
  each message whose header is its block can be sent.
\<close>

theorem nng_ownership:
  assumes "nng_env_ok env" and "nng_own c vars" and "ops_guarded (nng_step env) (nng_may env) (c, vars) ops"
  shows "\<exists>c' vars'. run_ops (nng_step env) (c, vars) ops = Some (c', vars') \<and> nng_own c' vars'"
  using no.run_safe [of env "(c, vars)" ops] assms by auto

lemma demo_nng_own: "nng_own demo_nctx [0 \<mapsto> demo_nmsg]"
proof -
  have "nng_held demo_nctx demo_nmsg" using demo_nbuf_whole(2) by (auto simp: nng_held_def nng_mine_def demo_nmsg_def zero_nmsg_def)
  then show ?thesis by (auto simp: nng_own_def nn_ok_def demo_nmsg_def zero_nmsg_def)
qed

lemma demo_nng_guarded:
  "ops_guarded (nng_step demo_nenv) (nng_may demo_nenv) (demo_nctx, [0 \<mapsto> demo_nmsg]) [NRecv 1, NSend 0 3 0, NRecv 0, NRecv 1]"
proof -
  have r: "nng_may demo_nenv s (NRecv i)" for s i using demo_nbuf_whole(2) by (cases s) (simp add: nng_may_def demo_nenv_def)
  have s: "nng_may demo_nenv (c, vars) (NSend 0 3 0)" if "vars 0 = Some demo_nmsg" for c vars
    using that by (simp add: nng_may_def demo_nmsg_def)
  have "snd s 0 = Some demo_nmsg" if "nng_step demo_nenv (demo_nctx, [0 \<mapsto> demo_nmsg]) (NRecv 1) = Some s" for s
    using that by (auto simp: nng_step_def option_bind_Some_iff)
  then show ?thesis using r s by (auto split: option.splits)
qed

theorem nng_ownership_witness:
  "\<exists>c' vars'. run_ops (nng_step demo_nenv) (demo_nctx, [0 \<mapsto> demo_nmsg]) [NRecv 1, NSend 0 3 0, NRecv 0, NRecv 1] = Some (c', vars') \<and>
     nng_own c' vars'"
  by (rule nng_ownership [OF _ demo_nng_own demo_nng_guarded]) (simp add: nng_env_ok_def demo_nenv_def demo_rt_env_def all_ok_def)

section \<open>Why the conditions are needed\<close>

text \<open>A receive into a message of the application frees the block, and when it fails the header still points
  there: the check for a missing header does not stop a send of the message, which writes to the block.\<close>

lemma nng_failed_receive_stale_header:
  assumes "nng_mine c m a b" and "ng_recv env (nn_calls c) = (rc, None)" and "rc \<noteq> NNG_OK"
  shows "\<exists>m' c'. nng_rcv_msg env c (Some m) = Some (m', c') \<and> nm_state m' \<noteq> RMR_OK \<and> nm_header m' = Some a \<and> nn_heap c' a = None \<and>
    nng_send_msg env c' m' sock retries = None"
proof -
  obtain st e where x: "xlate_nng_state rc RMR_ERR_RCVFAILED = (st, e)" "st \<noteq> RMR_OK"
    using xlate_nng_state_fail [OF assms(3), of RMR_ERR_RCVFAILED] by (cases "xlate_nng_state rc RMR_ERR_RCVFAILED") auto
  let ?c = "nn_tick (c\<lparr>nn_heap := (nn_heap c)(a := None)\<rparr>)"
  have "nng_recvmsg env (c\<lparr>nn_heap := (nn_heap c)(a := None)\<rparr>) = ((rc, None), ?c)" using assms(2,3) by (simp add: nng_recvmsg_def split: nng_rc.splits)
  then have "\<exists>m'. nng_rcv_msg env c (Some m) = Some (m', ?c) \<and> nm_state m' = st \<and> nm_header m' = Some a" using assms(1) x
    by (simp add: nng_rcv_msg_def nng_mine_def nn_free_def Let_def)
  then obtain m' where "nng_rcv_msg env c (Some m) = Some (m', ?c)" "nm_state m' = st" "nm_header m' = Some a" by blast
  then show ?thesis using x(2) by (simp add: nng_send_msg_def)
qed

text \<open>A message that is too short for a header has no header, and \<^verbatim>\<open>rmr_free_msg\<close> does not free its block.\<close>

lemma nng_short_message_leaks:
  assumes "ng_recv env (nn_calls c) = (NNG_OK, Some b)" and "n_ok (ng_rt env) M_mbuf" and "length b < SIZEOF_V1MHDR"
  shows "\<exists>m c'. nng_rcv_msg env c None = Some (m, c') \<and> nm_state m = RMR_ERR_EMPTY \<and> nng_free_msg c' (Some m) = Some c' \<and> nn_heap c' (nn_next c) = Some b"
  using assms by (simp add: nng_rcv_msg_def nng_alloc_mbuf_def nng_recvmsg_def nn_new_def xlate_nng_state_def nng_free_msg_def zero_nmsg_def Let_def)

end
