(* ===== verification/Support.thy ===== *)
theory Support
  imports Rtc
begin

text \<open>
  Supporting functions: the log of \<^verbatim>\<open>common/src/logging.c\<close>, the constants for language wrappers of
  \<^verbatim>\<open>common/src/wrapper.c\<close>, the counters of \<^verbatim>\<open>si/src/rmr_debug_si.c\<close>, the reading of a file and the text of
  the endpoint counts of the route table files.

  A log message is the text that the \<^verbatim>\<open>printf\<close> conversion of its arguments gives; the format strings are not
  modelled.  The static variables of the log are a record.
\<close>

section \<open>The log\<close>

abbreviation (input) RMR_VL_DEBUG :: int where "RMR_VL_DEBUG \<equiv> 5"
abbreviation (input) RMR_VL_ERR :: int where "RMR_VL_ERR \<equiv> 2"
abbreviation (input) LOG_BUF :: nat where "LOG_BUF \<equiv> 4096"

record log_st =
  log_initialised :: bool
  log_vlevel :: int
  log_hrlogging :: int
  log_pid :: nat
  log_situations :: "string option list"

definition log0 :: log_st where
  "log0 = \<lparr>log_initialised = False, log_vlevel = RMR_VL_ERR, log_hrlogging = 1, log_pid = 0, log_situations = replicate 6 None\<rparr>"

record log_env =
  l_getenv :: "string \<Rightarrow> string option"
  l_pid :: nat
  l_clock :: "(nat \<times> nat) option"

text \<open>The time in milliseconds; 0 when there is no clock.\<close>

definition mstime :: "(nat \<times> nat) option \<Rightarrow> nat" where
  "mstime clock = (case clock of None \<Rightarrow> 0 | Some (sec, nsec) \<Rightarrow> sec * 1000 + nsec div 1000000)"

definition rmr_vlog_init :: "log_env \<Rightarrow> log_st \<Rightarrow> int \<times> log_st" where
  "rmr_vlog_init env s =
     (let hr = (case l_getenv env ''RMR_HR_LOG'' of Some d \<Rightarrow> atoi d | None \<Rightarrow> log_hrlogging s);
          lv = (case l_getenv env ''RMR_LOG_VLEVEL'' of
                  Some d \<Rightarrow> if atoi d < -1 then -1 else if atoi d > RMR_VL_DEBUG then RMR_VL_DEBUG else atoi d
                | None \<Rightarrow> log_vlevel s)
      in (lv, \<lparr>log_initialised = True, log_vlevel = lv, log_hrlogging = hr, log_pid = l_pid env,
               log_situations = [log_situations s ! 0, Some ''CRIT'', Some ''ERR'', Some ''WARN'', Some ''INFO'', Some ''DBUG'']\<rparr>))"

text \<open>The header of a message and the message in the buffer that is left; the situation must be set.\<close>

definition log_head :: "log_env \<Rightarrow> log_st \<Rightarrow> int \<Rightarrow> string option" where
  "log_head env s level =
     (let lv = (if level > RMR_VL_DEBUG \<or> level < 0 then RMR_VL_DEBUG else level)
      in do { sit \<leftarrow> log_situations s ! nat lv; Some (dec (mstime (l_clock env)) @ '' '' @ dec (log_pid s) @ ''/RMR ['' @ sit @ ''] '') })"

definition log_body :: "string \<Rightarrow> string \<Rightarrow> string" where
  "log_body hdr text = take (LOG_BUF - 1) hdr @ take (LOG_BUF - (length hdr + 2) - 1) text"

text \<open>The results are what is written, if anything, and the state of the log.\<close>

definition rmr_vlog :: "log_env \<Rightarrow> log_st \<Rightarrow> int \<Rightarrow> string \<Rightarrow> (string option \<times> log_st) option" where
  "rmr_vlog env s write_level text =
     (if write_level > log_vlevel s then Some (None, s)
      else (let s1 = (if log_initialised s then s else snd (rmr_vlog_init env s)) in do {
        hdr \<leftarrow> log_head env s1 write_level;
        Some (if length hdr > LOG_BUF - 1024 then None else Some (log_body hdr text), s1) }))"

definition rmr_vlog_force :: "log_env \<Rightarrow> log_st \<Rightarrow> int \<Rightarrow> string \<Rightarrow> (string option \<times> log_st) option" where
  "rmr_vlog_force env s write_level text =
     (let s1 = (if log_initialised s then s else snd (rmr_vlog_init env s)) in
      if log_vlevel s1 \<le> 0 then Some (None, s1)
      else do { hdr \<leftarrow> log_head env s1 write_level; Some (Some (log_body hdr text), s1) })"

definition rmr_set_vlevel :: "log_st \<Rightarrow> int \<Rightarrow> log_st" where
  "rmr_set_vlevel s new_level = (if new_level \<ge> 0 then s\<lparr>log_vlevel := new_level\<rparr> else s)"

section \<open>The constants for wrappers\<close>

definition build_ival :: "string \<Rightarrow> int \<Rightarrow> bool \<Rightarrow> string" where
  "build_ival nm v add_sep = take 511 (''\"'' @ nm @ ''\": '' @ int_text v @ (if add_sep then '','' else []))"

definition build_sval :: "string \<Rightarrow> string \<Rightarrow> bool \<Rightarrow> string" where
  "build_sval nm v add_sep = take 511 (''\"'' @ nm @ ''\": \"'' @ v @ ''\"'' @ (if add_sep then '','' else []))"

definition bang_on :: "string \<Rightarrow> string \<Rightarrow> int \<Rightarrow> int \<times> string" where
  "bang_on target src max_len =
     (if int (length src) \<le> max_len then (int (length src), target @ src) else (0, target))"

definition rmr_consts :: "(string \<times> int) list" where
  "rmr_consts = [(''RMR_MAX_XID'', 32), (''RMR_MAX_SID'', 32), (''RMR_MAX_MEID'', 32), (''RMR_MAX_SRC'', 64), (''RMR_MAX_RCV_BYTES'', 2048),
     (''RMRFL_NONE'', 0), (''RMRFL_AUTO_ALLOC'', 3), (''RMRFL_MTCALL'', 2), (''RMR_DEF_SIZE'', 0), (''RMR_VOID_MSGTYPE'', -1), (''RMR_VOID_SUBID'', -1),
     (''RMR_OK'', RMR_OK), (''RMR_ERR_BADARG'', RMR_ERR_BADARG), (''RMR_ERR_NOENDPT'', RMR_ERR_NOENDPT), (''RMR_ERR_EMPTY'', RMR_ERR_EMPTY),
     (''RMR_ERR_NOHDR'', RMR_ERR_NOHDR), (''RMR_ERR_SENDFAILED'', RMR_ERR_SENDFAILED), (''RMR_ERR_CALLFAILED'', RMR_ERR_CALLFAILED),
     (''RMR_ERR_NOWHOPEN'', RMR_ERR_NOWHOPEN), (''RMR_ERR_WHID'', RMR_ERR_WHID), (''RMR_ERR_OVERFLOW'', RMR_ERR_OVERFLOW), (''RMR_ERR_RETRY'', RMR_ERR_RETRY),
     (''RMR_ERR_RCVFAILED'', RMR_ERR_RCVFAILED), (''RMR_ERR_TIMEOUT'', RMR_ERR_TIMEOUT), (''RMR_ERR_UNSET'', RMR_ERR_UNSET), (''RMR_ERR_TRUNC'', RMR_ERR_TRUNC)]"

fun add_consts :: "(string \<times> int) list \<Rightarrow> int \<times> string \<Rightarrow> int \<times> string" where
  "add_consts [] st = st"
| "add_consts ((n, v) # xs) (room, buf) = (case bang_on buf (build_ival n v True) room of (k, buf1) \<Rightarrow> add_consts xs (room - k, buf1))"

definition rmr_get_consts :: string where
  "rmr_get_consts =
     (let (room, buf) = add_consts rmr_consts (2048 - 2 - 10, ''{ '');
          (k, buf1) = bang_on buf (build_ival ''RMR_ERR_INITFAILED'' RMR_ERR_INITFAILED False) room
      in buf1 @ take (nat (room - k)) '' }'')"

section \<open>Counters and files\<close>

definition rmr_reset_rx_debug_count :: "'a rcv_ctx_scheme option \<Rightarrow> errno \<times> 'a rcv_ctx_scheme option" where
  "rmr_reset_rx_debug_count vctx =
     (case vctx of None \<Rightarrow> (EINVAL, None) | Some c \<Rightarrow> (E0, Some (c\<lparr>acc_dcount := 0, acc_ecount := 0\<rparr>)))"

text \<open>Drops and enqueues, as 64 bit numbers; \<open>want\<close> tells that the caller has given a place for them.\<close>

definition rmr_get_rx_debug_info :: "'a rcv_ctx_scheme option \<Rightarrow> bool \<Rightarrow> errno \<times> (u64 \<times> u64) option" where
  "rmr_get_rx_debug_info vctx want =
     (case vctx of Some c \<Rightarrow> if want then (E0, Some (word_of_int (acc_dcount c), word_of_int (acc_ecount c))) else (EINVAL, None)
      | None \<Rightarrow> (EINVAL, None))"

definition get_ep_counts :: "endpoint option \<Rightarrow> nat option \<Rightarrow> string option" where
  "get_ep_counts ep ubuf_len =
     map_option (\<lambda>e. take ((case ubuf_len of Some n \<Rightarrow> n | None \<Rightarrow> 256) - 1)
       (ep_name e @ '' '' @ int_text (sc_good e) @ '' '' @ int_text (sc_fail e) @ '' '' @ int_text (sc_trans e))) ep"

text \<open>What the file system answers for a name: whether it opens, the size if there is a status, and
  what a read of a number of bytes gives.\<close>

record fib_env =
  f_open :: "string \<Rightarrow> bool"
  f_size :: "string \<Rightarrow> int option"
  f_read :: "string \<Rightarrow> int \<Rightarrow> int \<times> bytes"

definition uta_fib :: "mallocs \<Rightarrow> fib_env \<Rightarrow> string \<Rightarrow> string option \<times> errno" where
  "uta_fib ok env fname =
     (let fsize = (case f_size env fname of Some n \<Rightarrow> n | None \<Rightarrow> 8192)
      in if \<not> f_open env fname \<or> fsize \<le> 0 then (if ok M_strdup then Some [] else None, E0)
         else if \<not> ok M_user then (None, ENOMEM)
         else (let (nread, d) = f_read env fname fsize
               in if nread < 0 \<or> nread > fsize then (None, EFBIG)
                  else (Some (bytes_str (cstr (take (nat nread) d))), E0)))"

section \<open>Properties\<close>

text \<open>A line of the log fits the buffer with its terminator, and the level that the environment sets is in
  range.\<close>

lemma rmr_vlog_fits:
  assumes "rmr_vlog env s level text = Some (Some line, s')"
  shows "length line < LOG_BUF" and "level \<le> log_vlevel s"
  using assms by (auto simp: rmr_vlog_def log_body_def option_bind_Some_iff Let_def split: if_splits)

lemma rmr_vlog_init_range:
  assumes "rmr_vlog_init env s = (lv, s')" and "-1 \<le> log_vlevel s \<and> log_vlevel s \<le> RMR_VL_DEBUG"
  shows "-1 \<le> lv \<and> lv \<le> RMR_VL_DEBUG \<and> log_vlevel s' = lv \<and> (\<forall>i. 1 \<le> i \<and> i \<le> 5 \<longrightarrow> log_situations s' ! i \<noteq> None)"
proof -
  have "log_situations s' ! i \<noteq> None" if "1 \<le> i" "i \<le> 5" for i
  proof -
    have "i = 1 \<or> i = 2 \<or> i = 3 \<or> i = 4 \<or> i = 5" using that by linarith
    then show ?thesis using assms(1) by (auto simp: rmr_vlog_init_def Let_def)
  qed
  then show ?thesis using assms by (auto simp: rmr_vlog_init_def Let_def split: option.splits if_splits)
qed

text \<open>A message of level 0 has no situation text: the header needs the one that is never set.\<close>

lemma rmr_vlog_level_zero: "log_vlevel s \<ge> 0 \<Longrightarrow> log_initialised s \<Longrightarrow> log_situations s ! 0 = None \<Longrightarrow> rmr_vlog env s 0 text = None"
  by (simp add: rmr_vlog_def log_head_def)

text \<open>All constants are in the text, in order: nothing is left out for want of room.\<close>

lemma add_consts_all:
  assumes "int (length (concat (map (\<lambda>(n, v). build_ival n v True) xs))) \<le> room"
  shows "add_consts xs (room, buf) = (room - int (length (concat (map (\<lambda>(n, v). build_ival n v True) xs))), buf @ concat (map (\<lambda>(n, v). build_ival n v True) xs))"
  using assms by (induction xs arbitrary: room buf) (auto simp: bang_on_def)

lemma int_text_small: "\<bar>n\<bar> < 10 ^ 4 \<Longrightarrow> length (int_text n) \<le> 5"
  by (auto simp: int_text_def dec.simps)

lemma rmr_get_consts_all:
  "rmr_get_consts = ''{ '' @ concat (map (\<lambda>(n, v). build_ival n v True) rmr_consts) @ build_ival ''RMR_ERR_INITFAILED'' RMR_ERR_INITFAILED False @ '' }''"
proof -
  have l: "length (build_ival n v b) \<le> length n + 10" if "\<bar>v\<bar> < 10 ^ 4" for n v b using int_text_small [OF that] by (auto simp: build_ival_def min_def)
  have "length (concat (map (\<lambda>(n, v). build_ival n v True) xs)) \<le> (\<Sum>(n, v)\<leftarrow>xs. length n + 10)" if "\<forall>(n, v) \<in> set xs. \<bar>v\<bar> < 10 ^ 4" for xs
    using that by (induction xs) (auto intro!: add_mono l)
  from this [of rmr_consts] have c: "length (concat (map (\<lambda>(n, v). build_ival n v True) rmr_consts)) \<le> 700" by (simp add: rmr_consts_def)
  moreover have "length (build_ival ''RMR_ERR_INITFAILED'' RMR_ERR_INITFAILED False) \<le> 28" using l [of RMR_ERR_INITFAILED "''RMR_ERR_INITFAILED''" False] by simp
  ultimately show ?thesis
    unfolding rmr_get_consts_def by (subst add_consts_all) (simp_all add: bang_on_def)
qed

end
