(* ===== verification/Spec2Isabelle.thy ===== *)
theory Spec2Isabelle
  imports Ring Symtab Tools Mbuf Mbuf_Api Receive Route Route_Refs RtParse RtParse_Inv Route_Conc Si95_Api Send_Inv Mtosend Wormhole Call_Inv Init Rtc_Inv Mt_Receive Nng_Own Support
begin

text \<open>
  Verification of RMR, the message router library of the O-RAN RIC platform (\<^verbatim>\<open>src/src/rmr\<close>), in its
  SI95 build, the transport that the build makes by default.

  \<^bold>\<open>The program.\<close>  An application makes a context with \<^verbatim>\<open>rmr_init\<close>, which starts a receive thread and a route
  table collector.  A send looks the message type and subscription id up in the active route table,
  chooses an endpoint of each round robin group (or the owner of a managed entity), connects to it
  when needed, and writes the message with its length in front on a TCP connection.  The receive
  thread of the other side waits on its connections, cuts the bytes that arrive back into messages
  and puts each on the receive ring or, for the reply to a call, into the chute of the calling thread.
  The collector gets route tables from the route manager as text records, builds a new table beside
  the active one and switches over when it is complete; sending threads may still hold the old one.
  Wormholes are connections that an application opens by name, past the route table.

  \<^bold>\<open>Theories and what they model.\<close>  Each component has a theory with its definitions, and where the proofs
  are long a second one with its properties.

  \<^item> \<open>RMR_Prelude\<close>: words, byte memory with faults, the allocation sites of the C code (type \<open>mallocs\<close>: which
    \<^verbatim>\<open>malloc\<close> calls succeed), error numbers, constants, the lemma collections \<open>mem_simps\<close>, \<open>endian_simps\<close>, and the locale \<open>safe_ops\<close> of
    components whose guarded operations return and keep an invariant, interpreted on the calls of the SI95
    library (\<open>Si95_Api\<close>), on route records (\<open>RtParse_Inv\<close>) and on the NNG messages of an application (\<open>Nng_Own\<close>).
  \<^item> \<open>Ring\<close>: \<^verbatim>\<open>common/src/ring_static.c\<close>.  Interface locale \<open>bounded_fifo\<close>, interpreted on the ring.
  \<^item> \<open>Symtab\<close>: \<^verbatim>\<open>common/src/symtab.c\<close>.  Interface locale \<open>ptr_map\<close>, interpreted on the hash table.
  \<^item> \<open>Tools\<close>: \<^verbatim>\<open>common/src/tools_static.c\<close> and the text functions of \<^verbatim>\<open>rt_generic_static.c\<close>.
  \<^item> \<open>Mbuf\<close>, \<open>Mbuf_Api\<close>: the message header of \<^verbatim>\<open>rmr_agnostic.h\<close>, allocation, cloning and reallocation of
    \<^verbatim>\<open>sr_si_static.c\<close> and \<^verbatim>\<open>rmr_si.c\<close>, and \<^verbatim>\<open>common/src/mbuf_api.c\<close>.
  \<^item> \<open>Receive\<close>: \<^verbatim>\<open>mt_data_cb\<close>, \<^verbatim>\<open>buf2mbuf\<close>, \<^verbatim>\<open>queue_normal\<close>, \<^verbatim>\<open>mt_disc_cb\<close> of \<^verbatim>\<open>si/src/mt_call_si_static.c\<close> and
    \<^verbatim>\<open>common/src/mt_call_static.c\<close>.
  \<^item> \<open>Si95\<close>, \<open>Si95_Inv\<close>, \<open>Si95_Poll\<close>, \<open>Si95_Api\<close>: the transport library \<^verbatim>\<open>si/src/si95\<close>; \<open>Si95_Poll\<close> has the
    polling interface (\<^verbatim>\<open>SIpoll\<close>, \<^verbatim>\<open>SIrcv\<close>) that RMR itself does not use.
  \<^item> \<open>Mt_Receive\<close>: the receive thread, \<^verbatim>\<open>mt_receive\<close>, over the wait loop of the transport.
  \<^item> \<open>Route\<close>, \<open>Route_Refs\<close>, \<open>Route_Conc\<close>: route tables, entries, endpoints and descriptors of
    \<^verbatim>\<open>common/src/rt_generic_static.c\<close> and \<^verbatim>\<open>si/src/rtable_si_static.c\<close>; the reference counts; sending threads
    and the collector as an interleaving of atomic steps.
  \<^item> \<open>RtParse\<close>, \<open>RtParse_Inv\<close>: the records of the route manager (\<^verbatim>\<open>parse_rt_rec\<close> and what it calls).
  \<^item> \<open>Send\<close>, \<open>Send_Inv\<close>, \<open>Mtosend\<close>: \<^verbatim>\<open>send_msg\<close>, \<^verbatim>\<open>mtosend_msg\<close> of \<^verbatim>\<open>si/src/sr_si_static.c\<close> and the public send
    functions of \<^verbatim>\<open>rmr_si.c\<close>.  Interface locale \<open>transport\<close>, interpreted on \<^verbatim>\<open>SIsendt\<close>.
  \<^item> \<open>Wormhole\<close>: \<^verbatim>\<open>common/src/wormholes.c\<close>.
  \<^item> \<open>Call\<close>, \<open>Call_Inv\<close>: \<^verbatim>\<open>rmr_mt_rcv\<close>, \<^verbatim>\<open>mt_call\<close> and the receive and call functions over them (\<^verbatim>\<open>rmr_si.c\<close>).
  \<^item> \<open>Init\<close>: \<^verbatim>\<open>init\<close>, \<^verbatim>\<open>rmr_init\<close>, \<^verbatim>\<open>rmr_close\<close>.
  \<^item> \<open>Rtc\<close>, \<open>Rtc_Inv\<close>: the collector thread of \<^verbatim>\<open>common/src/rtc_static.c\<close>, the messages to the route manager and
    the drop alarms of \<^verbatim>\<open>rt_generic_static.c\<close> and \<^verbatim>\<open>common/src/alarm.c\<close>.

  \<^item> \<open>Nng\<close>, \<open>Nng_Inv\<close>, \<open>Nng_Own\<close>: the NNG transport of \<^verbatim>\<open>nng/src\<close>: messages whose buffers belong to the library, receive,
    send, links to endpoints, over the route tables of \<open>Route\<close>.  \<open>Nng_Own\<close> is about which message owns which block.
  \<^item> \<open>Support\<close>: the log (\<^verbatim>\<open>common/src/logging.c\<close>), the constants for wrappers (\<^verbatim>\<open>wrapper.c\<close>), the receive counters
    (\<^verbatim>\<open>si/src/rmr_debug_si.c\<close>), the reading of a file and the text of the endpoint counts.

  \<^bold>\<open>State.\<close>  The context \<^verbatim>\<open>uta_ctx_t\<close> is one record that grows along the components: \<open>msg_ctx\<close> (names, sizes,
  message pool), \<open>rcv_ctx\<close> (receive ring, chutes, rivers), \<open>uta_ctx\<close> (stores of endpoints, entries and
  tables with their addresses, the active, old and new table, the transport), \<open>rtc_ctx\<close> (parser state),
  \<open>snd_ctx\<close> (retries, wormholes), \<open>col_ctx\<close> (collector).  An operation takes the record and returns it
  updated.  The result \<open>None\<close> of an operation is a fault: a null or dangling dereference, an access outside
  of a buffer, or an abort; a result that stands for an error of the C function is a value of its own.
  Objects that several tables share (route table entries, endpoints, transport blocks) live in stores
  indexed by addresses, so that sharing, freeing and dangling references are visible.

  What comes from outside is an argument: \<open>mallocs\<close> for the allocator; \<open>si_env\<close> for the answers of the
  operating system to the n-th call (\<^verbatim>\<open>select\<close>, \<^verbatim>\<open>recv\<close>, \<^verbatim>\<open>send\<close>, \<^verbatim>\<open>accept\<close>, \<^verbatim>\<open>getaddrinfo\<close>); \<open>nng_env\<close> for those of the NNG library; \<open>rt_env\<close>, \<open>snd_env\<close>,
  \<open>rcv_env\<close> for the resolver, lock outcomes, the clock and the junk in fresh memory; and a script of what
  the other threads do at each wait for \<^verbatim>\<open>rmr_mt_rcv\<close> and \<^verbatim>\<open>mt_call\<close>; the script of \<^verbatim>\<open>mt_call\<close> also has what the receive
  thread stores in each window between two looks of the caller at its chute, which no lock protects.  The assumptions on the operating
  system in the properties are \<open>send_progress\<close>, that a \<^verbatim>\<open>send\<close> of at least one byte does not return 0,
  and \<open>accept_ok\<close>, that \<^verbatim>\<open>accept\<close> and \<^verbatim>\<open>recvfrom\<close> are given a \<^verbatim>\<open>struct sockaddr\<close> of 14 bytes after the family.

  \<^bold>\<open>What is shown.\<close>
  \<^item> End to end: a message that a send reports as good arrives, in whatever chunks, at the receive
    function of the other application (\<open>end_to_end\<close> below), from \<open>send_receive_roundtrip\<close>, \<open>mt_receive_stream\<close>
    and the semaphore count of \<open>Call_Inv\<close>.
  \<^item> Sending: a message is written at most once however often it is tried, the returned state says whether all of
    it was written, the number of attempts is exact, a message routed by an entry with one group goes to the endpoint
    whose turn it is, and the table reference is returned.
  \<^item> Receiving: any cut of the byte stream gives the messages of the stream; the semaphore counts the
    ring; a call returns only, and gets, the reply to its request, under conditions on the windows
    in which it does not check what is stored in its chute.
  \<^item> Routing: reference counts of shared entries are exact under every operation, every sequence of
    well-formed records keeps the invariant, a new table becomes active only with the announced count,
    and in every interleaving a table held by a sending thread is not emptied, reused or freed.
  \<^item> Transport: every sequence of calls within their conditions keeps the block list and the descriptor map consistent.
  \<^item> NNG: a block is handed to the library once and not used afterwards, what is received is what was sent, a
    receive for one transaction keeps the other messages in order.
  \<^item> Data structures: the ring refines a bounded queue, the symbol table a finite map; look-up keys are
    injective; layouts, round trips and bounds of the message buffers.
  \<^item> Set-up: \<^verbatim>\<open>init\<close> fails with an error or establishes the invariants that the other theorems assume.
  \<^item> Faults: theorems that pin down inputs on which the code fails (loops without end, null
    dereferences, writes past a buffer, lost replies) are proved beside the properties.

  \<^bold>\<open>Loops and fuel.\<close>  Loops are structural recursion, functions with a measure, or \<open>partial_function (option)\<close>
  where the code may run forever.  The data callback has fuel, since a length field of zero makes it run forever;
  fuel for the length of the buffer is enough otherwise (\<open>river_loop_splits\<close>).  A thread that waits without
  end is described by its passes; the waits of \<^verbatim>\<open>rmr_mt_rcv\<close> and \<^verbatim>\<open>mt_call\<close> end with \<open>Some None\<close> when the
  script of arrivals is used up.

  \<^bold>\<open>Not modelled.\<close>  Of the NNG transport, \<^verbatim>\<open>init\<close> and the calls with a chute (\<^verbatim>\<open>rmr_nng.c\<close>) and \<^verbatim>\<open>raw_rtc\<close>, the
  collector of that build: at this commit they do not compile or repeat the SI95 functions.  The nanomsg transport
  (\<^verbatim>\<open>rmr/nanomsg\<close>), which no build makes and which sits on a library that is not in the repository.
  Output: the conversion of \<^verbatim>\<open>printf\<close> formats, the dump and statistics functions (\<^verbatim>\<open>rt_stats\<close>, \<^verbatim>\<open>ep_counts\<close>,
  \<^verbatim>\<open>rmr_sym_dump\<close>, \<^verbatim>\<open>SItp_stats\<close>, \<^verbatim>\<open>dump_n\<close>).  Functions that only release memory
  (\<^verbatim>\<open>free_ctx\<close>, \<^verbatim>\<open>uta_ring_free\<close>, \<^verbatim>\<open>rmr_free_msg\<close>): messages and rings are values.  Weak memory: the steps of
  \<open>Route_Conc\<close> are atomic where the code holds a lock; steps that fault are left out of that relation, allocations succeed
  there, and a table is loaded by adding entries only.  The store of a message in a chute and the post of its semaphore are one
  step in \<open>Call\<close>.
\<close>

section \<open>Across the components\<close>

text \<open>The receiver counts the message it gets.\<close>

lemma receive_counted:
  assumes sb: "sent_buf m b b2 l1 l2 l3 (int N)" and N: "N = 330 + l1 + l2 + l3 + nat (m_len m)" "N \<le> length b" and len: "0 \<le> m_len m"
    and i32: "- (2 ^ 31) \<le> m_mtype m" "m_mtype m < 2 ^ 31" "- (2 ^ 31) \<le> m_sub_id m" "m_sub_id m < 2 ^ 31"
    and raw: "held raw (take N b2)" and pl: "plain_msg b l1 l2" and room: "has_room renv rctx" and sem: "sem_inv renv rctx"
  shows "\<exists>mb rctx'. buf2mbuf renv rctx (Some raw) (int (length raw)) rfd = Some rctx' \<and> sem_inv renv rctx' \<and>
    ring_list (mring rctx') = ring_list (mring rctx) @ [Some mb] \<and> same_message m b mb raw l1 l2 l3 \<and> m_rts_fd mb = rfd"
proof -
  have r: "carries raw (take N b2)" "length raw < 2 ^ 31" using raw by (simp_all add: held_def)
  obtain mb rctx1 where d: "same_message m b mb raw l1 l2 l3" "mring rctx1 = mring rctx" "chutes rctx1 = chutes rctx"
    "buf2mbuf renv rctx (Some raw) (int (length raw)) rfd = deliver_mbuf renv rctx1 mb" "hdr_flags raw 50 = hdr_flags b 50"
    using receive_sent [OF sb N len i32 r, of renv rfd rctx] room by (auto simp: has_room_def)
  have "mbuf_ok mb raw l1 l2 l3" using d(1) by (simp add: same_message_def)
  moreover obtain fl where "hdr_flags raw 50 = Some fl" using d(5) pl by (auto simp: plain_msg_def)
  ultimately have "deliverable mb" unfolding deliverable_def by blast
  moreover have "sem_inv renv rctx1" using sem d(2,3) by (simp add: sem_cnt_def)
  ultimately obtain c' where c': "deliver_mbuf renv rctx1 mb = Some c'" "sem_inv renv c'" using deliver_counts by blast
  obtain mb2 c2 where p: "buf2mbuf renv rctx (Some raw) (int (length raw)) rfd = Some c2" "ring_list (mring c2) = ring_list (mring rctx) @ [Some mb2]"
    "same_message m b mb2 raw l1 l2 l3" "m_rts_fd mb2 = rfd" using receive_plain [OF sb N len i32 r pl room] by blast
  have "c2 = c'" using p(1) d(4) c'(1) by simp
  then show ?thesis using p c'(2) by blast
qed

text \<open>A receive on a ring with one message returns it.\<close>

lemma rcv_the_one:
  assumes "sem_inv env c" and "ring_list (mring c) = [Some m]" and "script_ok ws" and "ws \<noteq> []" and "max_wait \<noteq> 0"
  shows "\<exists>c' ws'. rmr_mt_rcv env ws (Some c) om max_wait =
    Some (Some ((Some (m\<lparr>m_state := RMR_OK, m_flags := m_flags m OR MFL_ADDSRC, m_tp_state := E0\<rparr>), Some c'), ws'))"
proof -
  obtain er c1 ws' xs where w: "rcv_wait env c ws = Some (Some (((0, er), c1), ws'))" "ring_list (mring c1) = Some m # map Some xs" "sem_cnt env c1 1"
    using rcv_wait_counts [OF assms(1,3)] assms(2,4) by auto
  let ?om = "map_option (\<lambda>m. m\<lparr>m_state := RMR_ERR_TIMEOUT, m_len := 0\<rparr>) om"
  obtain c' where "rcv_take env ?om ((0, er), c1) = (Some (m\<lparr>m_state := RMR_OK, m_flags := m_flags m OR MFL_ADDSRC, m_tp_state := E0\<rparr>), c')"
    using rcv_take_next [OF w(3), of ?om er] w(2) by auto
  then show ?thesis using w(1) assms(5) by (simp add: rmr_mt_rcv_def Let_def)
qed

text \<open>
  C6. From one application to the other.  The message is a plain one (it has no call flag and no call id), the
  connection is new at the receiving node and carries this message first, and the receive ring of that node is empty and has
  room.  When \<^verbatim>\<open>send_msg\<close> reports the message as sent and its bytes reach the session of the other
  node, cut into any chunks, it is rebuilt by the receive thread of that node, which goes on
  waiting, and the next \<^verbatim>\<open>rmr_mt_rcv\<close> there returns it with the type, the subscription id, the ids, the
  trace data and the payload it was sent with.
\<close>

theorem end_to_end:
  assumes msg: "mbuf_ok m b l1 l2 l3" "0 \<le> m_len m" "330 + int l1 + int l2 + int l3 + m_len m \<le> m_alloc_len m" "m_alloc_len m < 2 ^ 31 - 128"
      "- (2 ^ 31) \<le> m_mtype m" "m_mtype m < 2 ^ 31" "- (2 ^ 31) \<le> m_sub_id m" "m_sub_id m < 2 ^ 31" "plain_msg b l1 l2"
    and snd: "can_send env ctx l1" "send_msg env ctx m fd retries = Some ((mo, e), ctx')" "map_option m_state mo \<in> {None, Some RMR_OK}"
      "sent_on fd (os_log (si_ctx ctx')) = sent_on fd (os_log (si_ctx ctx)) @ concat chunks"
    and net: "session_at g xs a rfd" "arrives nenv (os_n g) rfd chunks" "\<forall>d \<in> set chunks. length d \<le> fuel"
    and rcv: "si_user g = Some (Some rctx)" "find_river renv rctx rfd = Some rv0" "r_state rv0 = RS_NEW" "river_slot rctx rfd" "e_ok renv M_accum"
      "has_room renv rctx" "sem_inv renv rctx" "ring_list (mring rctx) = []" "script_ok ws" "ws \<noteq> []"
  shows "\<exists>g' rctx' raw mb rctx'' ws'. mt_receive fuel renv nenv g = wait_loop nenv g' SI_RET_OK \<and> si_user g' = Some (Some rctx') \<and>
    same_message m b mb raw l1 l2 l3 \<and> m_rts_fd mb = rfd \<and>
    rmr_mt_rcv renv ws (Some rctx') None (-1) =
      Some (Some ((Some (mb\<lparr>m_state := RMR_OK, m_flags := m_flags mb OR MFL_ADDSRC, m_tp_state := E0\<rparr>), Some rctx''), ws'))"
proof -
  define N where "N = 330 + l1 + l2 + l3 + nat (m_len m)"
  obtain b2 where w: "sent_buf m b b2 l1 l2 l3 (int N)" "N \<le> length b" "concat chunks = take N b2"
    "split_msgs (concat chunks) = ([concat chunks], [])" "sizes_ok (concat chunks)"
    using send_ok_bytes [OF msg(1-4) snd N_def] by auto
  have ne: "chunks \<noteq> []" using w(1-3) by (auto simp: sent_buf_def N_def)
  obtain raws rv g' where t: "list_all2 held raws [concat chunks]" "mt_receive fuel renv nenv g = wait_loop nenv g' SI_RET_OK"
    "si_user g' = do { c \<leftarrow> deliver_all (\<lambda>c raw n. buf2mbuf renv c raw n rfd) rctx raws; Some (Some (put_river c rfd rv)) }"
    using mt_receive_stream [OF net(1,2) rcv(1-5) ne net(3) w(5,4)] by blast
  then obtain raw where raw: "raws = [raw]" "held raw (take N b2)" using w(3) by (auto simp: list_all2_Cons2)
  obtain mb c where c: "buf2mbuf renv rctx (Some raw) (int (length raw)) rfd = Some c" "sem_inv renv c" "ring_list (mring c) = [Some mb]"
    "same_message m b mb raw l1 l2 l3" "m_rts_fd mb = rfd"
    using receive_counted [OF w(1) N_def w(2) msg(2,5-8) raw(2) msg(9) rcv(6,7), of rfd] rcv(8) by auto
  have "sem_inv renv (put_river c rfd rv)" using c(2) by (simp add: sem_cnt_def)
  from rcv_the_one [OF this _ rcv(9,10), of mb "-1" None] c(3) obtain c'' ws' where
    "rmr_mt_rcv renv ws (Some (put_river c rfd rv)) None (-1) =
      Some (Some ((Some (mb\<lparr>m_state := RMR_OK, m_flags := m_flags mb OR MFL_ADDSRC, m_tp_state := E0\<rparr>), Some c''), ws'))" by auto
  moreover have "si_user g' = Some (Some (put_river c rfd rv))" using t(3) raw(1) c(1) by simp
  ultimately show ?thesis using t(2) c(4,5) by blast
qed

definition demo_node :: uta_ctx where
  "demo_node = demo_uta\<lparr>chutes := demo_chutes\<rparr>"

definition demo_net :: "bytes list \<Rightarrow> si_env" where
  "demo_net chunks = demo_si\<lparr>o_select := (\<lambda>_. ((1, E0), [5], [], [])), o_recv := (\<lambda>n. let d = chunks ! ((n - 1) div 2) in (int (length d), d))\<rparr>"

lemma demo_node_ok:
  "find_river demo_env demo_node 5 = Some (zero_river\<lparr>r_state := RS_NEW\<rparr>)" "river_slot demo_node 5" "has_room demo_env demo_node"
  "sem_inv demo_env demo_node" "ring_list (mring demo_node) = []" "session_at (demo_rgi\<lparr>si_user := Some (Some demo_node)\<rparr>) [0] 0 5"
proof -
  have m: "mring demo_node = mring demo_rcv" "chutes demo_node = demo_chutes" by (simp_all add: demo_node_def demo_uta_def rcv_ctx.defs)
  show "find_river demo_env demo_node 5 = Some (zero_river\<lparr>r_state := RS_NEW\<rparr>)" "river_slot demo_node 5"
    by (simp_all add: find_river_def river_slot_def demo_node_def demo_uta_def rcv_ctx.defs demo_rcv_def demo_env_def)
  show s: "sem_inv demo_env demo_node" using demo_sem_inv m by (simp add: sem_cnt_def)
  show r: "ring_list (mring demo_node) = []" using demo_ring_empty m by simp
  show "has_room demo_env demo_node" using s r m
    by (simp add: has_room_def sem_cnt_def demo_env_def demo_chutes_def ring_capacity_def demo_rcv_def demo_ctx_def)
  show "session_at (demo_rgi\<lparr>si_user := Some (Some demo_node)\<rparr>) [0] 0 5"
    by (simp add: session_at_def demo_rgi_def demo_blk_def si_inv_def dll_def map_ok_def blk_ok_def)
qed

lemma demo_net_arrives: "x \<noteq> [] \<Longrightarrow> y \<noteq> [] \<Longrightarrow> arrives (demo_net [x, y]) 0 5 [x, y]"
  by (simp add: arrives_Cons) (simp add: demo_net_def arrives_def)

theorem end_to_end_witness:
  "\<exists>x y g' rctx' raw mb rctx'' ws'. mt_receive 400 demo_env (demo_net [x, y]) (demo_rgi\<lparr>si_user := Some (Some demo_node)\<rparr>) = wait_loop (demo_net [x, y]) g' SI_RET_OK \<and>
    length x = 100 \<and> length y = 238 \<and> same_message demo_msg demo_buf mb raw 4 4 0 \<and>
    rmr_mt_rcv demo_env [([], ETIMEDOUT, [])] (Some rctx') None (-1) =
      Some (Some ((Some (mb\<lparr>m_state := RMR_OK, m_flags := m_flags mb OR MFL_ADDSRC, m_tp_state := E0\<rparr>), Some (rctx'' :: uta_ctx)), ws'))"
proof -
  have f: "m_mtype demo_msg = 0" "m_sub_id demo_msg = 0" by (simp_all add: demo_msg_def zero_mbuf_def)
  have can: "can_send demo_fast demo_snd 4" using demo_can_send by (simp add: can_send_def demo_fast_def demo_senv_def send_progress_def)
  obtain b2 oc mo e g w where s: "send_msg demo_fast demo_snd demo_msg 5 1 = Some ((mo, e), demo_snd\<lparr>si_ctx := g\<rparr>)"
    "sent_on 5 (os_log g) = sent_on 5 (os_log (si_ctx demo_snd)) @ w"
    using send_msg_ok [OF demo_msg_ok _ _ can refl, of 5 1] unfolding demo_msg_fields by auto
  have st: "map_option m_state mo \<in> {None, Some RMR_OK}"
    by (rule send_msg_first_try [OF demo_msg_ok _ _ can _ _ s(1)]) (use demo_fast_sends in \<open>simp_all add: min_def\<close>)
  have l: "length w = 338"
    using send_ok_bytes [OF demo_msg_ok _ _ _ can s(1) st, of w 338] s(2) by (auto simp: sent_buf_def length_demo_buf)
  obtain x y where xy: "w = x @ y" "length x = 100" "length y = 238"
    by (rule that [of "take 100 w" "drop 100 w"]) (use l in simp_all)
  have ne: "x \<noteq> []" "y \<noteq> []" using xy by auto
  have w: "sent_on 5 (os_log (si_ctx (demo_snd\<lparr>si_ctx := g\<rparr>))) = sent_on 5 (os_log (si_ctx demo_snd)) @ concat [x, y]" using s(2) xy(1) by simp
  have u: "si_user (demo_rgi\<lparr>si_user := Some (Some demo_node)\<rparr>) = Some (Some demo_node)" by simp
  have ar: "arrives (demo_net [x, y]) (os_n (demo_rgi\<lparr>si_user := Some (Some demo_node)\<rparr>)) 5 [x, y]" using demo_net_arrives [OF ne] by (simp add: demo_rgi_def)
  have "\<exists>g' rctx' raw mb rctx'' ws'. mt_receive 400 demo_env (demo_net [x, y]) (demo_rgi\<lparr>si_user := Some (Some demo_node)\<rparr>) = wait_loop (demo_net [x, y]) g' SI_RET_OK \<and>
      si_user g' = Some (Some rctx') \<and> same_message demo_msg demo_buf mb raw 4 4 0 \<and> m_rts_fd mb = 5 \<and>
      rmr_mt_rcv demo_env [([], ETIMEDOUT, [])] (Some rctx') None (-1) =
        Some (Some ((Some (mb\<lparr>m_state := RMR_OK, m_flags := m_flags mb OR MFL_ADDSRC, m_tp_state := E0\<rparr>), Some rctx''), ws'))"
    by (rule end_to_end [OF demo_msg_ok _ _ _ _ _ _ _ demo_plain can s(1) st w demo_node_ok(6) ar _ u demo_node_ok(1) _ demo_node_ok(2) _ demo_node_ok(3-5)])
      (use xy f in \<open>simp_all add: demo_env_def script_ok_def step_msgs_def demo_msg_fields\<close>)
  with xy(2,3) show ?thesis by blast
qed

end
